(* ===== verification/Nexus_Prelude.thy ===== *)
theory Nexus_Prelude
  imports Main "HOL-Library.Word" "HOL-Library.AList"
begin

unbundle bit_operations_syntax

text \<open>
  Shared ground of the NexusChain development.

  \<^item> Machine integers: type synonyms for the Rust widths, and the standard library's
    \<open>saturating_\<dots>\<close> operations. Plain \<open>+\<close>, \<open>-\<close>, \<open>*\<close> on \<open>u64\<close> and \<open>u128\<close> are the wrapping
    operations of the release profile of \<^verbatim>\<open>src/Cargo.toml\<close>, which leaves overflow checks off.
  \<^item> Byte codecs: \<open>to_le_bytes\<close> and \<open>to_be_bytes\<close> of unsigned integers as lists of bytes, with
    the round trips both ways.
  \<^item> Hash maps: \<open>HashMap\<close> and \<open>DashMap\<close> are association lists with distinct keys. The order of
    the list stands for the iteration order of that map instance, which Rust leaves unspecified.
    The locale \<open>key_value_map\<close> states what the clients rely on; it is interpreted on the lists.
  \<^item> Locks: \<open>parking_lot::RwLock\<close> as a record that counts its guards, so that a call which
    waits for a guard held by its own caller has no result.
  \<^item> Weighted sums over the values of a map, and the intersection of weighted supermajorities
    (locale \<open>weighted_votes\<close>), which both validator sets of the code rely on.
\<close>

named_theorems hmap_simps \<open>lookup and membership in hash maps after an update\<close>
named_theorems codec_simps \<open>lengths and round trips of the byte codecs\<close>

section \<open>Machine integers\<close>

type_synonym u8 = "8 word"
type_synonym u16 = "16 word"
type_synonym u32 = "32 word"
type_synonym u64 = "64 word"
type_synonym u128 = "128 word"
type_synonym i32 = "32 word"

definition saturating_add :: "'a::len word \<Rightarrow> 'a word \<Rightarrow> 'a word" where
  "saturating_add a b = (if a + b < a then - 1 else a + b)"

definition saturating_sub :: "'a::len word \<Rightarrow> 'a word \<Rightarrow> 'a word" where
  "saturating_sub a b = (if a < b then 0 else a - b)"

definition saturating_mul :: "'a::len word \<Rightarrow> 'a word \<Rightarrow> 'a word" where
  "saturating_mul a b =
     (if unat a * unat b < 2 ^ LENGTH('a) then a * b else - 1)"

lemma unat_lt2p: "unat w < 2 ^ LENGTH('a)"
  for w :: "'a::len word"
  by (rule unsigned_less)

lemma unat_two_power: "k < LENGTH('a) \<Longrightarrow> unat (2 ^ k :: 'a::len word) = 2 ^ k"
proof -
  assume "k < LENGTH('a)"
  then have "(2 :: nat) ^ k < 2 ^ LENGTH('a)" by simp
  moreover have "unat (of_nat (2 ^ k) :: 'a word) = 2 ^ k mod 2 ^ LENGTH('a)"
    by (rule unat_of_nat)
  ultimately show ?thesis by simp
qed

lemma unat_saturating_sub: "unat (saturating_sub a b) = unat a - unat b"
  by (auto simp: saturating_sub_def word_less_nat_alt word_le_nat_alt not_less intro: unat_sub)

lemma unat_add_no_overflow:
  "unat a + unat b < 2 ^ LENGTH('a) \<Longrightarrow> unat (a + b) = unat a + unat b"
  for a b :: "'a::len word"
  by (simp add: unat_add_lem)

lemma unat_mult_no_overflow:
  "unat a * unat b < 2 ^ LENGTH('a) \<Longrightarrow> unat (a * b) = unat a * unat b"
  for a b :: "'a::len word"
  by (simp add: unat_mult_lem)

lemma unat_saturating_add:
  "unat (saturating_add a b) = min (2 ^ LENGTH('a) - 1) (unat a + unat b)"
  for a b :: "'a::len word"
proof (cases "unat a + unat b < 2 ^ LENGTH('a)")
  case True
  then show ?thesis
    by (simp add: saturating_add_def word_less_nat_alt unat_add_no_overflow min_absorb2)
next
  case False
  have a: "unat a < 2 ^ LENGTH('a)" and b: "unat b < 2 ^ LENGTH('a)" by (rule unat_lt2p)+
  have "unat (a + b) = (unat a + unat b) mod 2 ^ LENGTH('a)" by (rule unat_word_ariths)
  also have "\<dots> = unat a + unat b - 2 ^ LENGTH('a)"
    using False a b by (subst le_mod_geq, simp, subst mod_less) linarith+
  finally have "unat (a + b) < unat a" using False a b by linarith
  then have "a + b < a" by (simp add: word_less_nat_alt)
  with False show ?thesis
    by (simp add: saturating_add_def unsigned_minus_1_eq_mask mask_eq_exp_minus_1)
qed

lemma digit_unique:
  assumes "x < B" "y < (B::nat)"
  shows "x + B * m = y + B * n \<longleftrightarrow> x = y \<and> m = n"
proof
  assume eq: "x + B * m = y + B * n"
  from arg_cong [OF eq, of "\<lambda>k. k mod B"] arg_cong [OF eq, of "\<lambda>k. k div B"] assms
  show "x = y \<and> m = n" by simp
qed simp

lemma digit_less:
  assumes "x < B" "y < (B::nat)"
  shows "x + B * m < y + B * n \<longleftrightarrow> m < n \<or> m = n \<and> x < y"
proof -
  have lt: "x' + B * m' < y' + B * n'" if "x' < B" "m' < n'" for x' y' m' n'
  proof -
    have "B * Suc m' \<le> B * n'" using that(2) by (intro mult_le_mono) auto
    with that(1) show ?thesis by simp
  qed
  show ?thesis
    using lt [of x m n y] lt [of y n m x] assms by (cases m n rule: linorder_cases) auto
qed

lemma digit_mod:
  assumes "x < (B::nat)"
  shows "(x + B * m) mod (B * C) = x + B * (m mod C)"
  using assms by (simp add: mod_mult2_eq)

lemma mod_once:
  assumes "B \<le> s" "s < 2 * (B::nat)"
  shows "s mod B + B = s"
  using assms by (subst le_mod_geq, simp) simp

section \<open>Byte codecs\<close>

fun le_bytes :: "nat \<Rightarrow> nat \<Rightarrow> u8 list" where
  "le_bytes 0 x = []"
| "le_bytes (Suc n) x = of_nat (x mod 256) # le_bytes n (x div 256)"

fun le_val :: "u8 list \<Rightarrow> nat" where
  "le_val [] = 0"
| "le_val (b # bs) = unat b + 256 * le_val bs"

definition be_bytes :: "nat \<Rightarrow> nat \<Rightarrow> u8 list" where
  "be_bytes n x = rev (le_bytes n x)"

definition be_val :: "u8 list \<Rightarrow> nat" where
  "be_val bs = le_val (rev bs)"

lemma length_le_bytes [simp, codec_simps]: "length (le_bytes n x) = n"
  by (induction n arbitrary: x) auto

lemma length_be_bytes [simp, codec_simps]: "length (be_bytes n x) = n"
  by (simp add: be_bytes_def)

lemma unat_byte_of_nat: "unat (of_nat (x mod 256) :: u8) = x mod 256"
  by (simp add: unat_of_nat)

lemma le_val_le_bytes [codec_simps]: "le_val (le_bytes n x) = x mod 256 ^ n"
proof (induction n arbitrary: x)
  case 0
  then show ?case by simp
next
  case (Suc n)
  have "x mod 256 ^ Suc n = x mod 256 + 256 * (x div 256 mod 256 ^ n)"
    by (simp add: mod_mult2_eq)
  with Suc show ?case
    by (simp add: unat_byte_of_nat del: of_nat_mod)
qed

lemma be_val_be_bytes [codec_simps]: "be_val (be_bytes n x) = x mod 256 ^ n"
  by (simp add: be_val_def be_bytes_def le_val_le_bytes)

lemma le_bytes_le_val: "le_bytes (length bs) (le_val bs) = bs"
proof (induction bs)
  case Nil
  then show ?case by simp
next
  case (Cons b bs)
  have "unat b < 256" using unat_lt2p [of b] by simp
  then have "(unat b + 256 * le_val bs) mod 256 = unat b"
    and "(unat b + 256 * le_val bs) div 256 = le_val bs"
    by simp_all
  with Cons show ?case by simp
qed

lemma be_bytes_be_val [codec_simps]: "length bs = n \<Longrightarrow> be_bytes n (be_val bs) = bs"
  using le_bytes_le_val [of "rev bs"] by (simp add: be_bytes_def be_val_def)

lemma le_val_bound: "le_val bs < 256 ^ length bs"
proof (induction bs)
  case Nil
  then show ?case by simp
next
  case (Cons b bs)
  have "unat b < 256" using unat_lt2p [of b] by simp
  with Cons show ?case by simp
qed

lemma be_val_bound: "be_val bs < 256 ^ length bs"
  using le_val_bound [of "rev bs"] by (simp add: be_val_def)

lemma le_bytes_inject:
  assumes "le_bytes n x = le_bytes n y" and "x < 256 ^ n" and "y < 256 ^ n"
  shows "x = y"
  using arg_cong [OF assms(1), of le_val] assms(2,3) by (simp add: le_val_le_bytes)

lemma be_bytes_inject:
  assumes "be_bytes n x = be_bytes n y" and "x < 256 ^ n" and "y < 256 ^ n"
  shows "x = y"
  using assms le_bytes_inject by (simp add: be_bytes_def)

text \<open>The standard library's \<open>to_le_bytes\<close> and \<open>to_be_bytes\<close> at the widths the code uses.\<close>

definition u32_to_le_bytes :: "u32 \<Rightarrow> u8 list" where
  "u32_to_le_bytes w = le_bytes 4 (unat w)"

definition u32_to_be_bytes :: "u32 \<Rightarrow> u8 list" where
  "u32_to_be_bytes w = be_bytes 4 (unat w)"

definition u64_to_le_bytes :: "u64 \<Rightarrow> u8 list" where
  "u64_to_le_bytes w = le_bytes 8 (unat w)"

definition u64_to_be_bytes :: "u64 \<Rightarrow> u8 list" where
  "u64_to_be_bytes w = be_bytes 8 (unat w)"

definition u64_from_be_bytes :: "u8 list \<Rightarrow> u64" where
  "u64_from_be_bytes bs = of_nat (be_val bs)"

lemma length_int_bytes [simp, codec_simps]:
  "length (u32_to_le_bytes a) = 4" "length (u32_to_be_bytes a) = 4"
  "length (u64_to_le_bytes b) = 8" "length (u64_to_be_bytes b) = 8"
  by (simp_all add: u32_to_le_bytes_def u32_to_be_bytes_def u64_to_le_bytes_def u64_to_be_bytes_def)

lemma u64_be_roundtrip [simp, codec_simps]: "u64_from_be_bytes (u64_to_be_bytes w) = w"
  using unat_lt2p [of w]
  by (simp add: u64_from_be_bytes_def u64_to_be_bytes_def be_val_be_bytes)

lemma u64_to_be_from [codec_simps]: "length bs = 8 \<Longrightarrow> u64_to_be_bytes (u64_from_be_bytes bs) = bs"
  using be_val_bound [of bs]
  by (simp add: u64_from_be_bytes_def u64_to_be_bytes_def unat_of_nat be_bytes_be_val)

lemma int_bytes_inject [simp, codec_simps]:
  "u64_to_be_bytes a = u64_to_be_bytes b \<longleftrightarrow> a = b"
  "u64_to_le_bytes a = u64_to_le_bytes b \<longleftrightarrow> a = b"
  "u32_to_be_bytes c = u32_to_be_bytes d \<longleftrightarrow> c = d"
  "u32_to_le_bytes c = u32_to_le_bytes d \<longleftrightarrow> c = d"
  using unat_lt2p [of a] unat_lt2p [of b] unat_lt2p [of c] unat_lt2p [of d]
  by (auto simp: u64_to_be_bytes_def u64_to_le_bytes_def u32_to_be_bytes_def u32_to_le_bytes_def
      dest!: be_bytes_inject le_bytes_inject simp flip: word_unat_eq_iff)

text \<open>\<open>dst[off..off + n].copy_from_slice(src)\<close> for a source of \<open>n\<close> elements.\<close>

definition copy_into :: "nat \<Rightarrow> 'e list \<Rightarrow> 'e list \<Rightarrow> 'e list" where
  "copy_into off src dst = take off dst @ src @ drop (off + length src) dst"

lemma length_copy_into [simp]:
  "off + length src \<le> length dst \<Longrightarrow> length (copy_into off src dst) = length dst"
  by (simp add: copy_into_def)

section \<open>Hash maps and hash sets\<close>

type_synonym ('k, 'v) hmap = "('k \<times> 'v) list"

abbreviation hget :: "('k, 'v) hmap \<Rightarrow> 'k \<Rightarrow> 'v option" where
  "hget m k \<equiv> map_of m k"

abbreviation hcontains :: "('k, 'v) hmap \<Rightarrow> 'k \<Rightarrow> bool" where
  "hcontains m k \<equiv> map_of m k \<noteq> None"

definition hput :: "'k \<Rightarrow> 'v \<Rightarrow> ('k, 'v) hmap \<Rightarrow> ('k, 'v) hmap" where
  "hput k v m = AList.update k v m"

definition hdel :: "'k \<Rightarrow> ('k, 'v) hmap \<Rightarrow> ('k, 'v) hmap" where
  "hdel k m = AList.delete k m"

definition hkeys :: "('k, 'v) hmap \<Rightarrow> 'k list" where
  "hkeys m = map fst m"

definition hvalues :: "('k, 'v) hmap \<Rightarrow> 'v list" where
  "hvalues m = map snd m"

definition wf_hmap :: "('k, 'v) hmap \<Rightarrow> bool" where
  "wf_hmap m \<longleftrightarrow> distinct (map fst m)"

text \<open>\<open>entry(k).or_default().insert(x)\<close> on a map of sets; a set is a list without repetitions.\<close>

definition hset_get :: "('k, 'e list) hmap \<Rightarrow> 'k \<Rightarrow> 'e list" where
  "hset_get m k = (case hget m k of None \<Rightarrow> [] | Some xs \<Rightarrow> xs)"

definition hset_add :: "'k \<Rightarrow> 'e \<Rightarrow> ('k, 'e list) hmap \<Rightarrow> ('k, 'e list) hmap" where
  "hset_add k x m = hput k (List.insert x (hset_get m k)) m"

lemma hget_hput [simp, hmap_simps]: "hget (hput k v m) k' = (if k' = k then Some v else hget m k')"
  by (simp add: hput_def update_conv')

lemma hget_hdel [simp, hmap_simps]: "hget (hdel k m) k' = (if k' = k then None else hget m k')"
  by (simp add: hdel_def delete_conv')

lemma wf_hmap_Nil [simp]: "wf_hmap []"
  by (simp add: wf_hmap_def)

lemma wf_hmap_hput [simp]: "wf_hmap m \<Longrightarrow> wf_hmap (hput k v m)"
  by (simp add: wf_hmap_def hput_def distinct_update)

lemma wf_hmap_hdel [simp]: "wf_hmap m \<Longrightarrow> wf_hmap (hdel k m)"
  by (simp add: wf_hmap_def hdel_def distinct_delete)

lemma set_hkeys: "set (hkeys m) = dom (map_of m)"
  by (simp add: hkeys_def dom_map_of_conv_image_fst)

lemma hset_get_add [simp, hmap_simps]:
  "hset_get (hset_add k x m) k' = (if k' = k then List.insert x (hset_get m k) else hset_get m k')"
  by (simp add: hset_get_def hset_add_def)

lemma hset_get_hdel [simp, hmap_simps]:
  "hset_get (hdel k m) k' = (if k' = k then [] else hset_get m k')"
  by (simp add: hset_get_def)

lemma hset_get_Nil [simp]: "hset_get [] k = []"
  by (simp add: hset_get_def)

lemma hget_in_set: "hget m k = Some v \<Longrightarrow> (k, v) \<in> set m"
  by (rule map_of_SomeD)

lemma hget_iff: "wf_hmap m \<Longrightarrow> hget m k = Some v \<longleftrightarrow> (k, v) \<in> set m"
  by (simp add: wf_hmap_def)

text \<open>
  What a client may assume of a map, whatever its representation: the laws of lookup after
  insertion and removal, and that every operation keeps the representation well formed.
\<close>

locale key_value_map =
  fixes get :: "'m \<Rightarrow> 'k \<Rightarrow> 'v option"
    and put :: "'k \<Rightarrow> 'v \<Rightarrow> 'm \<Rightarrow> 'm"
    and del :: "'k \<Rightarrow> 'm \<Rightarrow> 'm"
    and entries :: "'m \<Rightarrow> ('k \<times> 'v) set"
    and wf :: "'m \<Rightarrow> bool"
  assumes get_put: "wf m \<Longrightarrow> get (put k v m) k' = (if k' = k then Some v else get m k')"
    and get_del: "wf m \<Longrightarrow> get (del k m) k' = (if k' = k then None else get m k')"
    and entries_get: "wf m \<Longrightarrow> (k, v) \<in> entries m \<longleftrightarrow> get m k = Some v"
    and finite_entries: "finite (entries m)"
    and wf_put: "wf m \<Longrightarrow> wf (put k v m)"
    and wf_del: "wf m \<Longrightarrow> wf (del k m)"
begin

lemma entries_graph: "wf m \<Longrightarrow> entries m = Map.graph (get m)"
  by (auto simp: Map.graph_def entries_get)

lemma entries_put:
  "wf m \<Longrightarrow> entries (put k v m) = insert (k, v) {e \<in> entries m. fst e \<noteq> k}"
  by (auto simp: entries_get get_put wf_put split: if_splits)

lemma entries_del: "wf m \<Longrightarrow> entries (del k m) = {e \<in> entries m. fst e \<noteq> k}"
  by (auto simp: entries_get get_del wf_del split: if_splits)

text \<open>A weighted sum over the entries moves by exactly the entry that is written or removed.\<close>

lemma sum_split:
  fixes f :: "'k \<times> 'v \<Rightarrow> nat"
  assumes "wf m"
  shows "sum f (entries m)
    = (case get m k of None \<Rightarrow> 0 | Some v \<Rightarrow> f (k, v)) + sum f {e \<in> entries m. fst e \<noteq> k}"
proof (cases "get m k")
  case None
  with assms have "{e \<in> entries m. fst e \<noteq> k} = entries m" by (auto simp: entries_get)
  with None show ?thesis by simp
next
  case (Some v)
  with assms have eq: "entries m = insert (k, v) {e \<in> entries m. fst e \<noteq> k}"
    by (auto simp: entries_get)
  have "sum f (insert (k, v) {e \<in> entries m. fst e \<noteq> k})
      = f (k, v) + sum f {e \<in> entries m. fst e \<noteq> k}"
    by (rule sum.insert) (simp_all add: finite_entries)
  with eq Some show ?thesis by simp
qed

lemma sum_put:
  "wf m \<Longrightarrow> sum f (entries (put k v m)) = f (k, v) + sum f {e \<in> entries m. fst e \<noteq> k}"
  by (simp add: entries_put finite_entries)

lemma sum_put_fresh:
  "wf m \<Longrightarrow> get m k = None \<Longrightarrow> sum f (entries (put k v m)) = f (k, v) + sum f (entries m)"
  for f :: "'k \<times> 'v \<Rightarrow> nat"
  using sum_split [of m f k] by (simp add: sum_put)

lemma sum_put_replace:
  "wf m \<Longrightarrow> get m k = Some v0 \<Longrightarrow>
     sum f (entries (put k v m)) + f (k, v0) = f (k, v) + sum f (entries m)"
  for f :: "'k \<times> 'v \<Rightarrow> nat"
  using sum_split [of m f k] by (simp add: sum_put)

lemma sum_del:
  "wf m \<Longrightarrow> get m k = Some v \<Longrightarrow> sum f (entries m) = f (k, v) + sum f (entries (del k m))"
  for f :: "'k \<times> 'v \<Rightarrow> nat"
  using sum_split [of m f k] by (simp add: entries_del)

end

interpretation hm: key_value_map "\<lambda>m k. map_of m k" hput hdel set wf_hmap
  by unfold_locales (auto simp: hget_iff)

lemma sum_list_hvalues: "wf_hmap m \<Longrightarrow> sum_list (map f (hvalues m)) = (\<Sum>(k, v) \<in> set m. f v)"
  for f :: "'v \<Rightarrow> nat"
  by (simp add: hvalues_def wf_hmap_def sum_list_distinct_conv_sum_set [symmetric] distinct_map
      comp_def case_prod_beta)

text \<open>Sums over the values of a map, in any group: machine words included.\<close>

lemma sum_list_hput:
  fixes f :: "'v \<Rightarrow> 'b::ab_group_add"
  shows "sum_list (map f (hvalues (hput k v m)))
    = sum_list (map f (hvalues m)) + f v - (case hget m k of None \<Rightarrow> 0 | Some u \<Rightarrow> f u)"
  by (induction m) (auto simp: hput_def hvalues_def algebra_simps split: option.splits)

lemma sum_list_hdel:
  fixes f :: "'v \<Rightarrow> 'b::ab_group_add"
  assumes "wf_hmap m"
  shows "sum_list (map f (hvalues (hdel k m)))
    = sum_list (map f (hvalues m)) - (case hget m k of None \<Rightarrow> 0 | Some u \<Rightarrow> f u)"
  using assms
proof (induction m)
  case Nil
  then show ?case by (simp add: hdel_def hvalues_def)
next
  case (Cons e m)
  then have "wf_hmap m" and fresh: "fst e \<notin> fst ` set m" by (simp_all add: wf_hmap_def)
  show ?case
  proof (cases "fst e = k")
    case True
    with fresh have "hdel k (e # m) = m" using delete_id [of k m] by (cases e) (simp add: hdel_def)
    with True show ?thesis by (cases e) (simp add: hvalues_def)
  next
    case False
    with Cons.IH [OF \<open>wf_hmap m\<close>] show ?thesis
      by (cases e) (auto simp: hdel_def hvalues_def AList.delete_eq split: option.splits)
  qed
qed

lemma unat_sum_list:
  fixes ws :: "'w::len word list"
  assumes "sum_list (map unat ws) < 2 ^ LENGTH('w)"
  shows "unat (sum_list ws) = sum_list (map unat ws)"
  using assms by (induction ws) (auto simp: unat_add_no_overflow)

section \<open>Outcomes\<close>

text \<open>
  What a call does besides returning a value: \<open>Panic\<close> for a failed \<open>unwrap\<close>, \<open>expect\<close> or index,
  \<open>Blocked\<close> for a wait that never ends. Errors of the \<open>Result\<close> type are values (\<open>Inl\<close>).
\<close>

datatype 'a run = Ret 'a | Panic | Blocked

fun run_bind :: "'a run \<Rightarrow> ('a \<Rightarrow> 'b run) \<Rightarrow> 'b run" where
  "run_bind (Ret x) f = f x"
| "run_bind Panic f = Panic"
| "run_bind Blocked f = Blocked"

fun run_map :: "('a \<Rightarrow> 'b) \<Rightarrow> 'a run \<Rightarrow> 'b run" where
  "run_map f (Ret x) = Ret (f x)"
| "run_map f Panic = Panic"
| "run_map f Blocked = Blocked"

definition unwrap :: "'a option \<Rightarrow> 'a run" where
  "unwrap x = (case x of None \<Rightarrow> Panic | Some v \<Rightarrow> Ret v)"

lemma unwrap_simps [simp]: "unwrap None = Panic" "unwrap (Some v) = Ret v"
  by (simp_all add: unwrap_def)

lemma run_bind_cong [fundef_cong]:
  "m = m' \<Longrightarrow> (\<And>x. m' = Ret x \<Longrightarrow> f x = g x) \<Longrightarrow> run_bind m f = run_bind m' g"
  by (cases m') auto

lemma run_bind_Ret_iff [simp]: "run_bind m f = Ret y \<longleftrightarrow> (\<exists>x. m = Ret x \<and> f x = Ret y)"
  by (cases m) auto

lemma run_map_Ret_iff [simp]: "run_map f m = Ret y \<longleftrightarrow> (\<exists>x. m = Ret x \<and> y = f x)"
  by (cases m) auto

text \<open>Decimal formatting of an unsigned integer, for messages.\<close>

fun dec_digits :: "nat \<Rightarrow> string" where
  "dec_digits n =
     (if n < 10 then [char_of (48 + n)] else dec_digits (n div 10) @ [char_of (48 + n mod 10)])"

declare dec_digits.simps [simp del]

text \<open>Lower-case hexadecimal of bytes, as \<^verbatim>\<open>hex::encode\<close> prints it.\<close>

definition hex_digit :: "nat \<Rightarrow> char" where
  "hex_digit n = (if n < 10 then char_of (48 + n) else char_of (87 + n))"

definition hex_encode :: "u8 list \<Rightarrow> string" where
  "hex_encode bytes = concat (map (\<lambda>b. [hex_digit (unat b div 16), hex_digit (unat b mod 16)]) bytes)"

section \<open>Reader-writer locks\<close>

text \<open>
  A \<open>parking_lot::RwLock\<close> seen from the thread that runs a method: \<open>read()\<close> waits for a writer,
  \<open>write()\<close> waits for every reader and writer. A wait for a guard which the same thread holds
  never ends; the operation then has no result (\<open>None\<close>).
\<close>

record 'a rwlock =
  rw_readers :: nat
  rw_writer :: bool
  rw_data :: 'a

definition rw_new :: "'a \<Rightarrow> 'a rwlock" where
  "rw_new x = \<lparr>rw_readers = 0, rw_writer = False, rw_data = x\<rparr>"

definition rw_read :: "'a rwlock \<Rightarrow> 'a rwlock option" where
  "rw_read l = (if rw_writer l then None else Some (l\<lparr>rw_readers := Suc (rw_readers l)\<rparr>))"

definition rw_write :: "'a rwlock \<Rightarrow> 'a rwlock option" where
  "rw_write l = (if rw_writer l \<or> rw_readers l > 0 then None else Some (l\<lparr>rw_writer := True\<rparr>))"

definition rw_drop_read :: "'a rwlock \<Rightarrow> 'a rwlock" where
  "rw_drop_read l = l\<lparr>rw_readers := rw_readers l - 1\<rparr>"

definition rw_drop_write :: "'a rwlock \<Rightarrow> 'a rwlock" where
  "rw_drop_write l = l\<lparr>rw_writer := False\<rparr>"

definition rw_free :: "'a rwlock \<Rightarrow> bool" where
  "rw_free l \<longleftrightarrow> rw_readers l = 0 \<and> \<not> rw_writer l"

lemmas rw_defs = rw_new_def rw_read_def rw_write_def rw_drop_read_def rw_drop_write_def rw_free_def

section \<open>Weighted supermajorities\<close>

text \<open>
  The contract of a validator set: finitely many members, each with a weight. Two sets of
  members that each hold more than two thirds of the weight share more than one third of it.
\<close>

definition supermajority_of :: "('v \<Rightarrow> nat) \<Rightarrow> 'v set \<Rightarrow> 'v set \<Rightarrow> bool" where
  "supermajority_of weight members Q \<longleftrightarrow>
     Q \<subseteq> members \<and> sum weight Q * 3 > sum weight members * 2"

locale weighted_votes =
  fixes members :: "'v set" and weight :: "'v \<Rightarrow> nat"
  assumes finite_members: "finite members"
begin

lemma supermajority_intersection:
  assumes P: "supermajority_of weight members P" and Q: "supermajority_of weight members Q"
  shows "sum weight (P \<inter> Q) * 3 > sum weight members"
proof -
  have fin: "finite P" "finite Q"
    using P Q finite_members by (auto simp: supermajority_of_def intro: finite_subset)
  have "sum weight (P \<union> Q) \<le> sum weight members"
    using P Q finite_members by (auto simp: supermajority_of_def intro!: sum_mono2)
  moreover have "sum weight (P \<union> Q) + sum weight (P \<inter> Q) = sum weight P + sum weight Q"
    using fin by (rule sum.union_inter)
  ultimately show ?thesis
    using P Q by (simp add: supermajority_of_def)
qed

lemma supermajorities_meet:
  assumes "supermajority_of weight members P" and "supermajority_of weight members Q"
  shows "\<exists>v \<in> P \<inter> Q. 0 < weight v"
  using supermajority_intersection [OF assms] by (metis gr0I mult_is_0 not_less0 sum.neutral)

lemma supermajority_nonempty: "supermajority_of weight members P \<Longrightarrow> P \<noteq> {}"
  using supermajorities_meet by blast

end

end
