(* ===== verification/U256.thy ===== *)
theory U256
  imports Nexus_Prelude
begin

text \<open>
  The 256-bit integers of \<^verbatim>\<open>src/crates/nexus-primitives/src/types.rs\<close>: four 64-bit limbs, least
  significant first, with hand-written addition, subtraction, schoolbook multiplication,
  bit-by-bit division, comparison, big-endian bytes and decimal printing. The operations are
  loops over the limbs as in the source; the lemmas show that each computes the operation on
  natural numbers that its name promises, with the exact overflow behaviour.
\<close>

section \<open>The operations\<close>

datatype U256 = U256 u64 u64 u64 u64

fun limbs :: "U256 \<Rightarrow> u64 list" where
  "limbs (U256 a b c d) = [a, b, c, d]"

text \<open>Arrays have four limbs; the loops below never build any other length.\<close>

definition of_limbs :: "u64 list \<Rightarrow> U256" where
  "of_limbs r = U256 (r ! 0) (r ! 1) (r ! 2) (r ! 3)"

definition ZERO :: U256 where "ZERO = U256 0 0 0 0"

definition ONE :: U256 where "ONE = U256 1 0 0 0"

definition from_u64 :: "u64 \<Rightarrow> U256" where "from_u64 v = U256 v 0 0 0"

definition as_u64 :: "U256 \<Rightarrow> u64" where "as_u64 x = limbs x ! 0"

fun from_be_bytes_loop :: "u8 list \<Rightarrow> nat list \<Rightarrow> u64 list \<Rightarrow> u64 list" where
  "from_be_bytes_loop bytes [] result = result"
| "from_be_bytes_loop bytes (i # is) result =
     (let offset = (3 - i) * 8
      in from_be_bytes_loop bytes is (result[i := u64_from_be_bytes (take 8 (drop offset bytes))]))"

definition from_be_bytes :: "u8 list \<Rightarrow> U256" where
  "from_be_bytes bytes = of_limbs (from_be_bytes_loop bytes [0..<4] [0, 0, 0, 0])"

fun to_be_bytes_loop :: "u64 list \<Rightarrow> nat list \<Rightarrow> u8 list \<Rightarrow> u8 list" where
  "to_be_bytes_loop x [] bytes = bytes"
| "to_be_bytes_loop x (i # is) bytes =
     (let offset = (3 - i) * 8
      in to_be_bytes_loop x is (copy_into offset (u64_to_be_bytes (x ! i)) bytes))"

definition to_be_bytes :: "U256 \<Rightarrow> u8 list" where
  "to_be_bytes x = to_be_bytes_loop (limbs x) [0..<4] (replicate 32 0)"

definition overflowing_add :: "u64 \<Rightarrow> u64 \<Rightarrow> u64 \<times> bool" where
  "overflowing_add a b = (a + b, 2 ^ 64 \<le> unat a + unat b)"

definition overflowing_sub :: "u64 \<Rightarrow> u64 \<Rightarrow> u64 \<times> bool" where
  "overflowing_sub a b = (a - b, a < b)"

fun add_limbs :: "u64 list \<Rightarrow> u64 list \<Rightarrow> u64 \<Rightarrow> u64 list \<times> u64" where
  "add_limbs (a # as) (b # bs) carry =
     (let (sum1, overflow1) = overflowing_add a b;
          (sum2, overflow2) = overflowing_add sum1 carry;
          (result, carry_out) = add_limbs as bs (of_bool overflow1 + of_bool overflow2)
      in (sum2 # result, carry_out))"
| "add_limbs _ _ carry = ([], carry)"

definition checked_add :: "U256 \<Rightarrow> U256 \<Rightarrow> U256 option" where
  "checked_add x y =
     (let (result, carry) = add_limbs (limbs x) (limbs y) 0
      in if carry > 0 then None else Some (of_limbs result))"

fun sub_limbs :: "u64 list \<Rightarrow> u64 list \<Rightarrow> u64 \<Rightarrow> u64 list \<times> u64" where
  "sub_limbs (a # as) (b # bs) borrow =
     (let (diff1, overflow1) = overflowing_sub a b;
          (diff2, overflow2) = overflowing_sub diff1 borrow;
          (result, borrow_out) = sub_limbs as bs (of_bool overflow1 + of_bool overflow2)
      in (diff2 # result, borrow_out))"
| "sub_limbs _ _ borrow = ([], borrow)"

definition checked_sub :: "U256 \<Rightarrow> U256 \<Rightarrow> U256 option" where
  "checked_sub x y =
     (let (result, borrow) = sub_limbs (limbs x) (limbs y) 0
      in if borrow > 0 then None else Some (of_limbs result))"

text \<open>The operators \<open>+\<close>, \<open>-\<close>, \<open>*\<close> and \<open>/\<close>.\<close>

definition u256_add :: "U256 \<Rightarrow> U256 \<Rightarrow> U256 run" where
  "u256_add x y = unwrap (checked_add x y)"

definition u256_sub :: "U256 \<Rightarrow> U256 \<Rightarrow> U256 run" where
  "u256_sub x y = unwrap (checked_sub x y)"

fun mul_inner :: "u64 \<Rightarrow> u64 list \<Rightarrow> nat \<Rightarrow> nat list \<Rightarrow> u64 list \<Rightarrow> u64 \<Rightarrow> u64 list" where
  "mul_inner a rhs i [] result carry = result"
| "mul_inner a rhs i (j # js) result carry =
     (let pos = i + j;
          product = (ucast a * ucast (rhs ! j) + ucast (result ! pos) + ucast carry :: u128)
      in mul_inner a rhs i js (result[pos := ucast product]) (ucast (drop_bit 64 product)))"

fun mul_outer :: "u64 list \<Rightarrow> u64 list \<Rightarrow> nat list \<Rightarrow> u64 list \<Rightarrow> u64 list" where
  "mul_outer x rhs [] result = result"
| "mul_outer x rhs (i # is) result =
     mul_outer x rhs is (mul_inner (x ! i) rhs i [0..<4 - i] result 0)"

definition u256_mul :: "U256 \<Rightarrow> U256 \<Rightarrow> U256" where
  "u256_mul x y = of_limbs (mul_outer (limbs x) (limbs y) [0..<4] [0, 0, 0, 0])"

datatype ordering = Less | Equal | Greater

definition cmp_u64 :: "u64 \<Rightarrow> u64 \<Rightarrow> ordering" where
  "cmp_u64 a b = (if a < b then Less else if a = b then Equal else Greater)"

fun cmp_loop :: "u64 list \<Rightarrow> u64 list \<Rightarrow> nat list \<Rightarrow> ordering" where
  "cmp_loop x y [] = Equal"
| "cmp_loop x y (i # is) =
     (case cmp_u64 (x ! i) (y ! i) of Equal \<Rightarrow> cmp_loop x y is | non_eq \<Rightarrow> non_eq)"

definition cmp :: "U256 \<Rightarrow> U256 \<Rightarrow> ordering" where
  "cmp x y = cmp_loop (limbs x) (limbs y) (rev [0..<4])"

definition u256_bit :: "U256 \<Rightarrow> nat \<Rightarrow> bool" where
  "u256_bit x pos \<longleftrightarrow> drop_bit (pos mod 64) (limbs x ! (pos div 64)) AND 1 = 1"

fun shl1_loop :: "u64 list \<Rightarrow> u64 \<Rightarrow> u64 list" where
  "shl1_loop [] carry = []"
| "shl1_loop (x # xs) carry = (push_bit 1 x OR carry) # shl1_loop xs (drop_bit 63 x)"

definition shl1 :: "U256 \<Rightarrow> U256" where
  "shl1 x = of_limbs (shl1_loop (limbs x) 0)"

definition u256_set_bit :: "U256 \<Rightarrow> nat \<Rightarrow> U256" where
  "u256_set_bit x pos =
     of_limbs ((limbs x)[pos div 64 := (limbs x ! (pos div 64)) OR push_bit (pos mod 64) 1])"

definition or_low :: "U256 \<Rightarrow> U256" where
  "or_low x = of_limbs ((limbs x)[0 := (limbs x ! 0) OR 1])"

text \<open>The comparison loop decides the order of the values, so the instance below is a linear order.\<close>

lemma cmp_unfold:
  "cmp (U256 a b c d) (U256 a' b' c' d') =
     (if d \<noteq> d' then cmp_u64 d d' else if c \<noteq> c' then cmp_u64 c c'
      else if b \<noteq> b' then cmp_u64 b b' else cmp_u64 a a')"
  by (simp add: cmp_def cmp_u64_def upt_rec numeral_eq_Suc)

instantiation U256 :: linorder
begin

definition less_eq_U256 :: "U256 \<Rightarrow> U256 \<Rightarrow> bool" where
  "x \<le> y \<longleftrightarrow> cmp x y \<noteq> Greater"

definition less_U256 :: "U256 \<Rightarrow> U256 \<Rightarrow> bool" where
  "x < y \<longleftrightarrow> cmp x y = Less"

instance
proof
  fix x y z :: U256
  show "(x < y) = (x \<le> y \<and> \<not> y \<le> x)"
    by (cases x; cases y) (auto simp: less_eq_U256_def less_U256_def cmp_unfold cmp_u64_def)
  show "x \<le> x"
    by (cases x) (simp add: less_eq_U256_def cmp_unfold cmp_u64_def)
  show "x \<le> y \<Longrightarrow> y \<le> z \<Longrightarrow> x \<le> z"
    by (cases x; cases y; cases z)
       (auto simp: less_eq_U256_def cmp_unfold cmp_u64_def split: if_splits)
  show "x \<le> y \<Longrightarrow> y \<le> x \<Longrightarrow> x = y"
    by (cases x; cases y) (auto simp: less_eq_U256_def cmp_unfold cmp_u64_def split: if_splits)
  show "x \<le> y \<or> y \<le> x"
    by (cases x; cases y) (auto simp: less_eq_U256_def cmp_unfold cmp_u64_def)
qed

end

text \<open>The long division: one step per bit, from the most significant one down.\<close>

fun div_loop :: "U256 \<Rightarrow> U256 \<Rightarrow> nat list \<Rightarrow> U256 \<Rightarrow> U256 \<Rightarrow> U256 run" where
  "div_loop x other [] quo rmd = Ret quo"
| "div_loop x other (i # is) quo rmd =
     (let rmd = shl1 rmd;
          rmd = (if u256_bit x i then or_low rmd else rmd)
      in if rmd \<ge> other
         then run_bind (unwrap (checked_sub rmd other))
                (\<lambda>rmd. div_loop x other is (u256_set_bit quo i) rmd)
         else div_loop x other is quo rmd)"

definition checked_div :: "U256 \<Rightarrow> U256 \<Rightarrow> U256 option run" where
  "checked_div x other =
     (if other = ZERO then Ret None
      else if x < other then Ret (Some ZERO)
      else run_map Some (div_loop x other (rev [0..<256]) ZERO ZERO))"

definition u256_div :: "U256 \<Rightarrow> U256 \<Rightarrow> U256 run" where
  "u256_div x y = run_bind (checked_div x y) unwrap"

section \<open>Values\<close>

fun limb_val :: "u64 list \<Rightarrow> nat" where
  "limb_val [] = 0"
| "limb_val (x # xs) = unat x + 2 ^ 64 * limb_val xs"

definition u256_val :: "U256 \<Rightarrow> nat" where
  "u256_val x = limb_val (limbs x)"

lemma length_limbs [simp]: "length (limbs x) = 4"
  by (cases x) simp

lemma of_limbs_limbs [simp]: "of_limbs (limbs x) = x"
  by (cases x) (simp add: of_limbs_def numeral_eq_Suc)

lemma length_4E:
  assumes "length xs = 4"
  obtains a b c d where "xs = [a, b, c, d]"
  using assms by (auto simp: numeral_eq_Suc length_Suc_conv)

lemma limbs_of_limbs [simp]: "length r = 4 \<Longrightarrow> limbs (of_limbs r) = r"
  by (erule length_4E) (simp add: of_limbs_def numeral_eq_Suc)

lemma val_of_limbs: "length r = 4 \<Longrightarrow> u256_val (of_limbs r) = limb_val r"
  by (simp add: u256_val_def)

lemma limb_val_bound: "limb_val xs < 2 ^ (64 * length xs)"
proof (induction xs)
  case Nil
  then show ?case by simp
next
  case (Cons x xs)
  have "unat x < 2 ^ 64" using unat_lt2p [of x] by simp
  moreover have "2 ^ 64 * (limb_val xs + 1) \<le> 2 ^ 64 * 2 ^ (64 * length xs)"
    using Cons by (intro mult_le_mono) auto
  ultimately show ?case by (simp add: power_add)
qed

lemma u256_val_bound: "u256_val x < 2 ^ 256"
  using limb_val_bound [of "limbs x"] by (simp add: u256_val_def)

lemma limb_val_inject: "length xs = length ys \<Longrightarrow> limb_val xs = limb_val ys \<longleftrightarrow> xs = ys"
proof (induction xs ys rule: list_induct2)
  case Nil
  then show ?case by simp
next
  case (Cons x xs y ys)
  have "unat x < 2 ^ 64" "unat y < 2 ^ 64" using unat_lt2p [of x] unat_lt2p [of y] by simp_all
  then have "limb_val (x # xs) = limb_val (y # ys)
      \<longleftrightarrow> unat x = unat y \<and> limb_val xs = limb_val ys"
    using digit_unique [of "unat x" "2 ^ 64" "unat y"] by simp
  with Cons show ?case by (simp add: word_unat_eq_iff)
qed

lemma u256_val_inject [simp]: "u256_val x = u256_val y \<longleftrightarrow> x = y"
  using limb_val_inject [of "limbs x" "limbs y"] of_limbs_limbs by (metis length_limbs u256_val_def)

lemma u256_val_ZERO [simp]: "u256_val ZERO = 0"
  by (simp add: u256_val_def ZERO_def)

lemma u256_val_ONE [simp]: "u256_val ONE = 1"
  by (simp add: u256_val_def ONE_def)

lemma u256_val_from_u64 [simp]: "u256_val (from_u64 v) = unat v"
  by (simp add: u256_val_def from_u64_def)

section \<open>Addition and subtraction\<close>

lemma overflowing_add_val:
  "overflowing_add a b = (s, ov) \<Longrightarrow> unat s + 2 ^ 64 * of_bool ov = unat a + unat b"
  using unat_lt2p [of a] unat_lt2p [of b] mod_once [of "2 ^ 64" "unat a + unat b"]
  by (auto simp: overflowing_add_def unat_word_ariths)

lemma overflowing_sub_val:
  "overflowing_sub a b = (d, ov) \<Longrightarrow> unat d + unat b = unat a + 2 ^ 64 * of_bool ov"
  using unat_lt2p [of a] unat_lt2p [of b]
  by (auto simp: overflowing_sub_def word_less_nat_alt unat_sub_if')

lemma unat_of_bool_add: "unat (of_bool p + of_bool q :: u64) = of_bool p + of_bool q"
  by simp

lemma length_add_limbs:
  "length as = length bs \<Longrightarrow> length (fst (add_limbs as bs c)) = length as"
  by (induction as bs arbitrary: c rule: list_induct2)
     (auto simp: case_prod_beta Let_def)

lemma length_sub_limbs:
  "length as = length bs \<Longrightarrow> length (fst (sub_limbs as bs c)) = length as"
  by (induction as bs arbitrary: c rule: list_induct2)
     (auto simp: case_prod_beta Let_def)

lemma carry_bound:
  fixes s1 s2 a b c :: nat
  assumes "s1 + B * of_bool o1 = a + b" "s2 + B * of_bool o2 = s1 + c"
    and "a < B" "b < B" "c \<le> 1"
  shows "\<not> (o1 \<and> o2)"
  using assms by (auto simp: of_bool_def)

lemma add_limbs_val:
  assumes "length as = length bs" and "unat c \<le> 1" and "add_limbs as bs c = (rs, c')"
  shows "limb_val rs + 2 ^ (64 * length as) * unat c' = limb_val as + limb_val bs + unat c
       \<and> unat c' \<le> 1"
  using assms
proof (induction as bs arbitrary: c rs rule: list_induct2)
  case Nil
  then show ?case by simp
next
  case (Cons a as b bs)
  obtain s1 o1 where 1: "overflowing_add a b = (s1, o1)" by fastforce
  obtain s2 o2 where 2: "overflowing_add s1 c = (s2, o2)" by fastforce
  define k :: u64 where "k = of_bool o1 + of_bool o2"
  obtain rs' where rs: "add_limbs as bs k = (rs', c')" "rs = s2 # rs'"
    using Cons.prems(2) 1 2 unfolding k_def by (auto simp: Let_def split: prod.splits)
  note v = overflowing_add_val [OF 1] overflowing_add_val [OF 2]
  have k: "unat k = of_bool o1 + of_bool o2" "unat k \<le> 1"
    using carry_bound [OF v] unat_lt2p [of a] unat_lt2p [of b] Cons.prems(1)
    unfolding k_def unat_of_bool_add by auto
  have IH: "limb_val rs' + 2 ^ (64 * length as) * unat c' = limb_val as + limb_val bs + unat k"
    and c': "unat c' \<le> 1"
    using Cons.IH [OF k(2) rs(1)] by simp_all
  have "limb_val rs + 2 ^ (64 * length (a # as)) * unat c'
      = unat s2 + 2 ^ 64 * (limb_val rs' + 2 ^ (64 * length as) * unat c')"
    by (simp add: rs(2) power_add distrib_left)
  also have "\<dots> = unat s2 + 2 ^ 64 * (limb_val as + limb_val bs + (of_bool o1 + of_bool o2))"
    by (simp only: IH k(1))
  also have "\<dots> = limb_val (a # as) + limb_val (b # bs) + unat c"
    using v by simp
  finally show ?case using c' by simp
qed

lemma sub_limbs_val:
  assumes "length as = length bs" and "unat c \<le> 1" and "sub_limbs as bs c = (rs, c')"
  shows "limb_val rs + limb_val bs + unat c = limb_val as + 2 ^ (64 * length as) * unat c'
       \<and> unat c' \<le> 1"
  using assms
proof (induction as bs arbitrary: c rs rule: list_induct2)
  case Nil
  then show ?case by simp
next
  case (Cons a as b bs)
  obtain s1 o1 where 1: "overflowing_sub a b = (s1, o1)" by fastforce
  obtain s2 o2 where 2: "overflowing_sub s1 c = (s2, o2)" by fastforce
  define k :: u64 where "k = of_bool o1 + of_bool o2"
  obtain rs' where rs: "sub_limbs as bs k = (rs', c')" "rs = s2 # rs'"
    using Cons.prems(2) 1 2 unfolding k_def by (auto simp: Let_def split: prod.splits)
  note v = overflowing_sub_val [OF 1] overflowing_sub_val [OF 2]
  have k: "unat k = of_bool o1 + of_bool o2" "unat k \<le> 1"
    using v unat_lt2p [of a] unat_lt2p [of b] unat_lt2p [of s2] Cons.prems(1)
    unfolding k_def unat_of_bool_add by (auto simp: of_bool_def)
  have IH: "limb_val rs' + limb_val bs + unat k = limb_val as + 2 ^ (64 * length as) * unat c'"
    and c': "unat c' \<le> 1"
    using Cons.IH [OF k(2) rs(1)] by simp_all
  have "limb_val rs + limb_val (b # bs) + unat c
      = unat s2 + unat b + unat c + 2 ^ 64 * (limb_val rs' + limb_val bs)"
    by (simp add: rs(2))
  also have "\<dots> = unat a + 2 ^ 64 * (limb_val rs' + limb_val bs + unat k)"
    using v k(1) by simp
  also have "\<dots> = limb_val (a # as) + 2 ^ (64 * length (a # as)) * unat c'"
    by (simp only: IH) (simp add: power_add distrib_left)
  finally show ?case using c' by simp
qed

lemma u64_pos_iff: "0 < c \<longleftrightarrow> 0 < unat (c::u64)"
  by (simp add: word_less_nat_alt)

lemma checked_add_iff: "checked_add x y = Some z \<longleftrightarrow> u256_val z = u256_val x + u256_val y"
proof -
  obtain r c where rc: "add_limbs (limbs x) (limbs y) 0 = (r, c)" by fastforce
  have len: "length r = 4" using length_add_limbs [of "limbs x" "limbs y" 0] rc by simp
  have v: "limb_val r + 2 ^ 256 * unat c = u256_val x + u256_val y" and c: "unat c \<le> 1"
    using add_limbs_val [OF _ _ rc] by (simp_all add: u256_val_def)
  have b: "limb_val r < 2 ^ 256" "u256_val z < 2 ^ 256"
    using limb_val_bound [of r] len u256_val_bound [of z] by simp_all
  have "checked_add x y = Some z \<longleftrightarrow> unat c = 0 \<and> u256_val z = limb_val r"
    using len by (auto simp: checked_add_def rc u64_pos_iff val_of_limbs
        simp flip: u256_val_inject)
  also have "\<dots> \<longleftrightarrow> u256_val z = u256_val x + u256_val y"
    using v c b by (cases "unat c") auto
  finally show ?thesis .
qed

lemma checked_sub_iff: "checked_sub x y = Some z \<longleftrightarrow> u256_val z + u256_val y = u256_val x"
proof -
  obtain r c where rc: "sub_limbs (limbs x) (limbs y) 0 = (r, c)" by fastforce
  have len: "length r = 4" using length_sub_limbs [of "limbs x" "limbs y" 0] rc by simp
  have v: "limb_val r + u256_val y = u256_val x + 2 ^ 256 * unat c" and c: "unat c \<le> 1"
    using sub_limbs_val [OF _ _ rc] by (simp_all add: u256_val_def)
  have b: "limb_val r < 2 ^ 256" "u256_val z < 2 ^ 256" "u256_val y < 2 ^ 256"
    using limb_val_bound [of r] len u256_val_bound [of z] u256_val_bound [of y] by simp_all
  have "checked_sub x y = Some z \<longleftrightarrow> unat c = 0 \<and> u256_val z = limb_val r"
    using len by (auto simp: checked_sub_def rc u64_pos_iff val_of_limbs
        simp flip: u256_val_inject)
  also have "\<dots> \<longleftrightarrow> u256_val z + u256_val y = u256_val x"
    using v c b by (cases "unat c") auto
  finally show ?thesis .
qed

lemma limb_val_surj: "n < 2 ^ (64 * k) \<Longrightarrow> \<exists>xs. length xs = k \<and> limb_val xs = n"
proof (induction k arbitrary: n)
  case 0
  then show ?case by simp
next
  case (Suc k)
  then have "n div 2 ^ 64 < 2 ^ (64 * k)"
    by (simp add: div_less_iff_less_mult power_add mult.commute)
  then obtain xs where xs: "length xs = k" "limb_val xs = n div 2 ^ 64"
    using Suc.IH by blast
  have "limb_val (of_nat (n mod 2 ^ 64) # xs) = n"
    using xs(2) by (simp add: unat_of_nat del: of_nat_mod)
  with xs(1) show ?case by (metis length_Cons)
qed

lemma u256_val_surj: "n < 2 ^ 256 \<Longrightarrow> \<exists>x. u256_val x = n"
  using limb_val_surj [of n 4] val_of_limbs by auto

lemma checked_add_None_iff: "checked_add x y = None \<longleftrightarrow> 2 ^ 256 \<le> u256_val x + u256_val y"
  using checked_add_iff [of x y] u256_val_surj [of "u256_val x + u256_val y"] u256_val_bound
  by (metis not_Some_eq not_le)

lemma checked_sub_None_iff: "checked_sub x y = None \<longleftrightarrow> u256_val x < u256_val y"
proof -
  have "u256_val x - u256_val y < 2 ^ 256" using u256_val_bound [of x] by simp
  then obtain z where "u256_val z = u256_val x - u256_val y" using u256_val_surj by blast
  then have "u256_val y \<le> u256_val x \<Longrightarrow> checked_sub x y = Some z" by (simp add: checked_sub_iff)
  moreover have "checked_sub x y = Some w \<Longrightarrow> u256_val y \<le> u256_val x" for w
    by (simp add: checked_sub_iff)
  ultimately show ?thesis by (metis not_Some_eq not_le option.distinct(1))
qed

section \<open>Multiplication\<close>

lemma limb_val_update:
  "p < length xs \<Longrightarrow> limb_val (xs[p := v]) + unat (xs ! p) * 2 ^ (64 * p)
     = limb_val xs + unat v * 2 ^ (64 * p)"
proof (induction xs arbitrary: p)
  case Nil
  then show ?case by simp
next
  case (Cons x xs)
  show ?case
  proof (cases p)
    case 0
    then show ?thesis by simp
  next
    case (Suc q)
    with Cons.prems have "limb_val (xs[q := v]) + unat (xs ! q) * 2 ^ (64 * q)
        = limb_val xs + unat v * 2 ^ (64 * q)" by (intro Cons.IH) simp
    from arg_cong [OF this, of "\<lambda>k. 2 ^ 64 * k"] Suc show ?thesis
      by (simp add: distrib_left power_add ac_simps)
  qed
qed

lemma limb_val_take_Suc:
  "j < length xs \<Longrightarrow> limb_val (take (Suc j) xs) = limb_val (take j xs) + unat (xs ! j) * 2 ^ (64 * j)"
proof (induction xs arbitrary: j)
  case Nil
  then show ?case by simp
next
  case (Cons x xs)
  then show ?case by (cases j) (auto simp: distrib_left power_add ac_simps)
qed

text \<open>One cell of the product: the 128-bit intermediate never overflows.\<close>

lemma mul_cell:
  fixes a b r c :: u64
  defines "p \<equiv> (ucast a * ucast b + ucast r + ucast c :: u128)"
  shows "unat (ucast p :: u64) + 2 ^ 64 * unat (ucast (drop_bit 64 p) :: u64)
       = unat a * unat b + unat r + unat c"
proof -
  have ub: "unat (ucast w :: u128) = unat w" for w :: u64
    using unat_lt2p [of w] by (simp add: unsigned_ucast_eq take_bit_eq_mod)
  have lt: "unat a \<le> 2 ^ 64 - 1" "unat b \<le> 2 ^ 64 - 1" "unat r \<le> 2 ^ 64 - 1" "unat c \<le> 2 ^ 64 - 1"
    using unat_lt2p [of a] unat_lt2p [of b] unat_lt2p [of r] unat_lt2p [of c] by simp_all
  have "unat a * unat b \<le> (2 ^ 64 - 1) * (2 ^ 64 - 1)"
    using lt(1,2) by (rule mult_le_mono)
  then have small: "unat a * unat b + unat r + unat c < 2 ^ 128"
    using lt(3,4) by simp
  have p: "unat p = unat a * unat b + unat r + unat c"
    using small unfolding p_def by (simp add: unat_word_ariths ub)
  have "unat (ucast p :: u64) = unat p mod 2 ^ 64"
    by (simp add: unsigned_ucast_eq take_bit_eq_mod)
  moreover have "unat (ucast (drop_bit 64 p) :: u64) = unat p div 2 ^ 64"
  proof -
    have "unat p div 2 ^ 64 < 2 ^ 64" using small p by (simp add: div_less_iff_less_mult)
    then show ?thesis
      by (simp add: unsigned_ucast_eq take_bit_nat_eq_self unat_drop_bit_eq
          drop_bit_eq_div [of 64 "unat p"] del: drop_bit_eq_div)
  qed
  ultimately show ?thesis using p by (metis mod_mult_div_eq)
qed

lemma mul_cell_arith:
  fixes B :: nat
  assumes IH: "w + K + a * (tj + b * pj) * pi = vr + cc * (q * B) + X"
    and upd: "vr + r * B = v + lo * B" and cell: "lo + q * cc = a * b + r + c"
    and B: "B = pi * pj"
  shows "w + K + a * tj * pi = v + c * B + X"
proof -
  have "(lo + q * cc) * B = (a * b + r + c) * B" by (simp only: cell)
  with IH upd show ?thesis unfolding B by (simp add: algebra_simps)
qed

lemma length_mul_inner [simp]: "length (mul_inner a rhs i js result c) = length result"
  by (induction js arbitrary: result c) (simp_all add: Let_def)

lemma mul_inner_val:
  assumes "j \<le> m" "i + m \<le> length result" "m \<le> length rhs"
  shows "\<exists>k. limb_val (mul_inner a rhs i [j..<m] result c) + k * 2 ^ (64 * (i + m))
       + unat a * limb_val (take j rhs) * 2 ^ (64 * i)
     = limb_val result + unat c * 2 ^ (64 * (i + j)) + unat a * limb_val (take m rhs) * 2 ^ (64 * i)"
  using assms
proof (induction "m - j" arbitrary: j result c)
  case 0
  then show ?case by (auto intro: exI [of _ "unat c"])
next
  case (Suc n)
  then have jm: "j < m" by simp
  let ?p = "ucast a * ucast (rhs ! j) + ucast (result ! (i + j)) + ucast c :: u128"
  let ?r = "result[i + j := ucast ?p]"
  let ?c = "ucast (drop_bit 64 ?p) :: u64"
  let ?B = "2 ^ (64 * (i + j)) :: nat"
  obtain k where IH: "limb_val (mul_inner a rhs i [Suc j..<m] ?r ?c) + k * 2 ^ (64 * (i + m))
       + unat a * limb_val (take (Suc j) rhs) * 2 ^ (64 * i)
     = limb_val ?r + unat ?c * 2 ^ (64 * (i + Suc j)) + unat a * limb_val (take m rhs) * 2 ^ (64 * i)"
    using Suc.hyps(1) [of "Suc j" ?r ?c] Suc.hyps(2) Suc.prems jm
    by (metis Suc_diff_Suc Suc_inject Suc_leI length_list_update)
  have upd: "limb_val ?r + unat (result ! (i + j)) * ?B
      = limb_val result + unat (ucast ?p :: u64) * ?B"
    using Suc.prems jm by (intro limb_val_update) simp
  have take: "limb_val (take (Suc j) rhs) = limb_val (take j rhs) + unat (rhs ! j) * 2 ^ (64 * j)"
    using Suc.prems jm by (intro limb_val_take_Suc) simp
  have B: "?B = 2 ^ (64 * i) * 2 ^ (64 * j)" "2 ^ (64 * (i + Suc j)) = 2 ^ 64 * ?B"
    by (simp_all add: power_add)
  have eq: "mul_inner a rhs i [j..<m] result c = mul_inner a rhs i [Suc j..<m] ?r ?c"
    using jm by (simp add: upt_conv_Cons Let_def)
  have "limb_val (mul_inner a rhs i [j..<m] result c) + k * 2 ^ (64 * (i + m))
       + unat a * limb_val (take j rhs) * 2 ^ (64 * i)
     = limb_val result + unat c * ?B + unat a * limb_val (take m rhs) * 2 ^ (64 * i)"
    unfolding eq by (rule mul_cell_arith [OF IH [unfolded take B(2)] upd mul_cell B(1)])
  then show ?case by blast
qed

lemma mul_row_arith:
  assumes "w + k * M = r + a * t * (p::nat)" "v * p = t * p + d * M"
  shows "w mod M = (r + a * v * p) mod M"
proof -
  have "r + a * v * p = w + (k + a * d) * M"
    using assms by (simp add: algebra_simps)
  then show ?thesis by simp
qed

lemma mod_add_chain:
  assumes "w mod M = (r + t) mod M" "v mod M = (w + u) mod (M::nat)"
  shows "v mod M = (r + t + u) mod M"
  using assms by (metis mod_add_left_eq)

lemma mul_row_mod:
  assumes "i \<le> 4" "length result = 4" "length rhs = 4"
  shows "limb_val (mul_inner a rhs i [0..<4 - i] result 0) mod 2 ^ 256
       = (limb_val result + unat a * limb_val rhs * 2 ^ (64 * i)) mod 2 ^ 256"
proof -
  obtain k where k: "limb_val (mul_inner a rhs i [0..<4 - i] result 0) + k * 2 ^ 256
     = limb_val result + unat a * limb_val (take (4 - i) rhs) * 2 ^ (64 * i)"
    using mul_inner_val [of 0 "4 - i" i result rhs a 0] assms by auto
  have split: "limb_val xs = limb_val (take n xs) + 2 ^ (64 * n) * limb_val (drop n xs)"
    if "n \<le> length xs" for n xs
    using that
  proof (induction xs arbitrary: n)
    case (Cons x xs)
    then show ?case by (cases n) (auto simp: distrib_left power_add ac_simps)
  qed simp
  have "limb_val rhs * 2 ^ (64 * i)
      = limb_val (take (4 - i) rhs) * 2 ^ (64 * i) + limb_val (drop (4 - i) rhs) * 2 ^ 256"
    using split [of "4 - i" rhs] assms
    by (simp add: algebra_simps flip: power_add)
  then show ?thesis
    by (rule mul_row_arith [OF k])
qed

lemma u256_val_mul: "u256_val (u256_mul x y) = u256_val x * u256_val y mod 2 ^ 256"
proof -
  have outer: "limb_val (mul_outer (limbs x) (limbs y) [i..<4] r) mod 2 ^ 256
      = (limb_val r + limb_val (drop i (limbs x)) * 2 ^ (64 * i) * limb_val (limbs y)) mod 2 ^ 256
      \<and> length (mul_outer (limbs x) (limbs y) [i..<4] r) = 4"
    if "length r = 4" "i \<le> 4" for i r
    using that
  proof (induction "4 - i" arbitrary: i r)
    case 0
    then show ?case by simp
  next
    case (Suc n)
    then have i: "i < 4" by simp
    let ?r = "mul_inner (limbs x ! i) (limbs y) i [0..<4 - i] r 0"
    have d: "limb_val (drop i (limbs x))
        = unat (limbs x ! i) + 2 ^ 64 * limb_val (drop (Suc i) (limbs x))"
      using i by (simp add: Cons_nth_drop_Suc [symmetric] del: Cons_nth_drop_Suc)
    have IH: "limb_val (mul_outer (limbs x) (limbs y) [Suc i..<4] ?r) mod 2 ^ 256
      = (limb_val ?r + limb_val (drop (Suc i) (limbs x)) * 2 ^ (64 * Suc i) * limb_val (limbs y)) mod 2 ^ 256
      \<and> length (mul_outer (limbs x) (limbs y) [Suc i..<4] ?r) = 4"
      using Suc i by (intro Suc.hyps(1)) auto
    have row: "limb_val ?r mod 2 ^ 256
       = (limb_val r + unat (limbs x ! i) * limb_val (limbs y) * 2 ^ (64 * i)) mod 2 ^ 256"
      using Suc i by (intro mul_row_mod) auto
    have "limb_val (mul_outer (limbs x) (limbs y) [i..<4] r) mod 2 ^ 256
      = (limb_val r + unat (limbs x ! i) * limb_val (limbs y) * 2 ^ (64 * i)
         + limb_val (drop (Suc i) (limbs x)) * 2 ^ (64 * Suc i) * limb_val (limbs y)) mod 2 ^ 256"
      using mod_add_chain [OF row conjunct1 [OF IH]] i by (simp only: upt_conv_Cons mul_outer.simps)
    also have "\<dots> = (limb_val r
        + limb_val (drop i (limbs x)) * 2 ^ (64 * i) * limb_val (limbs y)) mod 2 ^ 256"
      unfolding d mult_Suc_right power_add by (simp only: algebra_simps)
    finally show ?case using IH i by (simp only: upt_conv_Cons mul_outer.simps)
  qed
  define r where "r = mul_outer (limbs x) (limbs y) [0..<4] [0, 0, 0, 0]"
  have r: "limb_val r mod 2 ^ 256 = u256_val x * u256_val y mod 2 ^ 256" "length r = 4"
    using outer [of "[0, 0, 0, 0]" 0] by (simp_all add: r_def u256_val_def)
  have "u256_val (of_limbs r) mod 2 ^ 256 = u256_val (of_limbs r)"
    using u256_val_bound by (rule mod_less)
  with r show ?thesis by (simp add: u256_mul_def val_of_limbs flip: r_def)
qed

section \<open>Comparison\<close>

lemma u256_less_iff: "x < y \<longleftrightarrow> u256_val x < u256_val y"
proof (cases x; cases y)
  fix a b c d a' b' c' d'
  assume xy: "x = U256 a b c d" "y = U256 a' b' c' d'"
  have lt: "unat w < 2 ^ 64" for w :: u64 using unat_lt2p [of w] by simp
  show ?thesis
    unfolding xy less_U256_def u256_val_def limbs.simps limb_val.simps
    by (simp only: digit_less [OF lt lt] digit_unique [OF lt lt])
       (auto simp: cmp_unfold cmp_u64_def word_less_nat_alt word_unat_eq_iff)
qed

lemma u256_le_iff: "x \<le> y \<longleftrightarrow> u256_val x \<le> u256_val y"
  by (simp add: u256_less_iff flip: not_less)

section \<open>Bits\<close>

lemma bit_limb_val:
  "bit (limb_val xs) n \<longleftrightarrow> n div 64 < length xs \<and> bit (xs ! (n div 64)) (n mod 64)"
proof (induction xs arbitrary: n)
  case Nil
  then show ?case by simp
next
  case (Cons x xs)
  have dis: "unat x AND push_bit 64 (limb_val xs) = 0"
    by (rule bit_eqI) (auto simp: bit_and_iff bit_push_bit_iff bit_unsigned_iff dest: bit_imp_le_length)
  have "limb_val (x # xs) = unat x OR push_bit 64 (limb_val xs)"
    using disjunctive_add_eq_or [OF dis] by (simp add: push_bit_eq_mult mult.commute)
  then have "bit (limb_val (x # xs)) n \<longleftrightarrow> bit x n \<or> 64 \<le> n \<and> bit (limb_val xs) (n - 64)"
    by (simp add: bit_or_iff bit_push_bit_iff bit_unsigned_iff)
  also have "\<dots> \<longleftrightarrow> n div 64 < length (x # xs) \<and> bit ((x # xs) ! (n div 64)) (n mod 64)"
  proof (cases "n < 64")
    case True
    then show ?thesis by simp
  next
    case False
    then obtain k where k: "n = 64 + k" using le_Suc_ex not_less by blast
    have "\<not> bit x n" using False bit_imp_le_length [of x n] by auto
    moreover have "n div 64 = Suc (k div 64)" "n mod 64 = k mod 64" using k by simp_all
    ultimately show ?thesis using k by (simp add: Cons.IH)
  qed
  finally show ?case .
qed

lemma u256_bit_iff: "pos < 256 \<Longrightarrow> u256_bit x pos \<longleftrightarrow> odd (u256_val x div 2 ^ pos)"
  using bit_limb_val [of "limbs x" pos]
  by (simp add: u256_bit_def u256_val_def and_one_eq bit_iff_odd_drop_bit odd_iff_mod_2_eq_one
      drop_bit_eq_div div_less_iff_less_mult)

lemma unat_set_bit:
  assumes "k < 64" "\<not> bit w k"
  shows "unat (w OR push_bit k 1 :: u64) = unat w + 2 ^ k"
proof -
  have "unat (w OR push_bit k 1 :: u64) = unat w OR push_bit k 1"
    using assms(1) by (simp add: unsigned_or_eq push_bit_eq_mult unat_two_power)
  moreover have "unat w AND push_bit k 1 = 0"
    using assms(2)
    by (auto intro!: bit_eqI simp: bit_and_iff bit_push_bit_iff bit_unsigned_iff bit_exp_iff)
  ultimately show ?thesis
    using disjunctive_add_eq_or [of "unat w" "push_bit k 1"] by (simp add: push_bit_eq_mult)
qed

lemma u256_val_set_bit:
  assumes "pos < 256" "\<not> u256_bit x pos"
  shows "u256_val (u256_set_bit x pos) = u256_val x + 2 ^ pos"
proof -
  let ?p = "pos div 64" and ?k = "pos mod 64"
  have p: "?p < length (limbs x)" using assms(1) by simp
  have nb: "\<not> bit (limbs x ! ?p) ?k"
    using assms(2) by (simp add: u256_bit_def and_one_eq bit_iff_odd_drop_bit odd_iff_mod_2_eq_one)
  have u: "unat ((limbs x ! ?p) OR push_bit ?k 1) = unat (limbs x ! ?p) + 2 ^ ?k"
    using nb by (intro unat_set_bit) auto
  have "2 ^ ?k * 2 ^ (64 * ?p) = (2 :: nat) ^ pos" by (simp flip: power_add)
  then show ?thesis
    using limb_val_update [OF p, of "(limbs x ! ?p) OR push_bit ?k 1"]
    unfolding u by (simp add: u256_set_bit_def u256_val_def distrib_right)
qed

lemma shl1_limb:
  assumes "unat c \<le> 1"
  shows "unat (push_bit 1 x OR c :: u64) = 2 * unat x mod 2 ^ 64 + unat c"
    and "unat (drop_bit 63 x) = 2 * unat x div 2 ^ 64"
proof -
  have d: "unat (push_bit 1 x) = 2 * unat x mod 2 ^ 64"
    by (simp add: push_bit_eq_mult unat_word_ariths mult.commute)
  have "2 * unat x mod 2 ^ 64 = 2 * (unat x mod 2 ^ 63)"
    using mult_mod_right [of 2 "unat x" "2 ^ 63"] by simp
  moreover have "unat x mod 2 ^ 63 < 2 ^ 63" by simp
  ultimately have b: "2 * unat x mod 2 ^ 64 + 1 < 2 ^ 64" by simp
  have "c = 0 \<or> c = 1" using assms by (auto simp: le_Suc_eq word_unat_eq_iff)
  then show "unat (push_bit 1 x OR c) = 2 * unat x mod 2 ^ 64 + unat c"
  proof
    assume c: "c = 1"
    have "push_bit 1 x OR 1 = push_bit 1 x + 1" by (simp add: or_one_eq)
    moreover have "unat (push_bit 1 x + 1) = unat (push_bit 1 x) + unat (1 :: u64)"
      using b d by (intro unat_add_no_overflow) simp
    ultimately show ?thesis using c d by simp
  qed (use d in simp)
  have "unat (drop_bit 63 x) = unat x div 2 ^ 63"
    by (simp only: unat_drop_bit_eq) (simp add: drop_bit_eq_div)
  then show "unat (drop_bit 63 x) = 2 * unat x div 2 ^ 64" by simp
qed

lemma shl1_loop_val:
  "unat c \<le> 1 \<Longrightarrow>
     limb_val (shl1_loop xs c) = (2 * limb_val xs + unat c) mod 2 ^ (64 * length xs)"
proof (induction xs arbitrary: c)
  case Nil
  then show ?case by simp
next
  case (Cons x xs)
  let ?B = "2 ^ 64 :: nat" and ?C = "2 ^ (64 * length xs) :: nat"
  note l = shl1_limb [OF Cons.prems, of x]
  have "unat (drop_bit 63 x) \<le> 1"
    using unat_lt2p [of x] unfolding l(2) by (simp add: less_mult_imp_div_less flip: less_Suc_eq_le)
  note IH = Cons.IH [OF this]
  have lt: "unat (push_bit 1 x OR c) < ?B" using unat_lt2p [of "push_bit 1 x OR c"] by simp
  have "2 * limb_val (x # xs) + unat c
      = unat (push_bit 1 x OR c) + ?B * (2 * limb_val xs + unat (drop_bit 63 x))"
    unfolding l using mod_mult_div_eq [of "2 * unat x" ?B] by (simp add: distrib_left)
  then have "(2 * limb_val (x # xs) + unat c) mod (?B * ?C)
      = unat (push_bit 1 x OR c) + ?B * ((2 * limb_val xs + unat (drop_bit 63 x)) mod ?C)"
    by (simp only: digit_mod [OF lt])
  then show ?case by (simp only: IH shl1_loop.simps limb_val.simps list.size mult_Suc_right
        power_add plus_1_eq_Suc add_Suc_right add_0_right One_nat_def)
qed

lemma length_shl1_loop [simp]: "length (shl1_loop xs c) = length xs"
  by (induction xs arbitrary: c) auto

lemma u256_val_shl1: "u256_val (shl1 x) = 2 * u256_val x mod 2 ^ 256"
  using shl1_loop_val [of 0 "limbs x"] by (simp add: shl1_def u256_val_def)

lemma u256_val_or_low:
  assumes "even (u256_val x)"
  shows "u256_val (or_low x) = u256_val x + 1"
proof -
  have "or_low x = u256_set_bit x 0" by (simp add: or_low_def u256_set_bit_def)
  moreover have "\<not> u256_bit x 0" using assms by (simp add: u256_bit_iff)
  ultimately show ?thesis using u256_val_set_bit [of 0 x] by simp
qed

section \<open>Division\<close>

lemma div_step_arith:
  fixes N D :: nat
  assumes "0 < D"
  shows "N mod D * 2 + b < D \<Longrightarrow> (2 * N + b) mod D = N mod D * 2 + b \<and> (2 * N + b) div D = 2 * (N div D)"
    and "D \<le> N mod D * 2 + b \<Longrightarrow> b \<le> 1 \<Longrightarrow>
      (2 * N + b) mod D = N mod D * 2 + b - D \<and> (2 * N + b) div D = 2 * (N div D) + 1"
proof -
  have regroup: "m = D * k + r \<Longrightarrow> 2 * m + b = (r * 2 + b) + D * (2 * k)" for m D k r :: nat by simp
  have split: "2 * N + b = (N mod D * 2 + b) + D * (2 * (N div D))"
    using regroup [of N D "N div D" "N mod D"] by simp
  show "N mod D * 2 + b < D \<Longrightarrow> (2 * N + b) mod D = N mod D * 2 + b \<and> (2 * N + b) div D = 2 * (N div D)"
    unfolding split using assms by simp
  assume le: "D \<le> N mod D * 2 + b" "b \<le> 1"
  have r: "N mod D < D" using assms by simp
  have eq: "2 * N + b = (N mod D * 2 + b - D) + D * (2 * (N div D) + 1)"
    using split le(1) by (simp add: distrib_left)
  have lt: "N mod D * 2 + b - D < D" using r le by linarith
  show "(2 * N + b) mod D = N mod D * 2 + b - D \<and> (2 * N + b) div D = 2 * (N div D) + 1"
    unfolding eq mod_mult_self2 div_mult_self2 [OF less_imp_neq [OF assms, symmetric]]
    using lt by simp
qed

lemma div_rmd_val:
  assumes r: "u256_val r = M mod D" and M: "M < 2 ^ 255"
  shows "u256_val (if b then or_low (shl1 r) else shl1 r) = M mod D * 2 + of_bool b"
proof -
  have "M mod D < 2 ^ 255" using M mod_less_eq_dividend by (rule order.strict_trans1 [rotated])
  then have "u256_val (shl1 r) = M mod D * 2" using r by (simp add: u256_val_shl1)
  then show ?thesis by (simp add: u256_val_or_low)
qed

lemma div_loop_val:
  assumes D: "0 < u256_val other" and i: "i \<le> 256"
    and q: "u256_val q = u256_val x div 2 ^ i div u256_val other * 2 ^ i"
    and r: "u256_val r = u256_val x div 2 ^ i mod u256_val other"
  shows "\<exists>z. div_loop x other (rev [0..<i]) q r = Ret z \<and> u256_val z = u256_val x div u256_val other"
  using i q r
proof (induction i arbitrary: q r)
  case 0
  then show ?case by simp
next
  case (Suc i)
  let ?D = "u256_val other" and ?M = "u256_val x div 2 ^ Suc i"
  define b where "b = u256_bit x i"
  define r' where "r' = (if b then or_low (shl1 r) else shl1 r)"
  have b: "b \<longleftrightarrow> odd (u256_val x div 2 ^ i)"
    using Suc.prems by (simp add: b_def u256_bit_iff)
  have half: "u256_val x div 2 ^ i = 2 * ?M + of_bool b"
    using b by (simp add: div_mult2_eq mult.commute [of 2] flip: mod_2_eq_odd)
  have M: "?M < 2 ^ 255"
  proof -
    have "?M \<le> u256_val x div 2 ^ 1" by (rule div_le_mono2) simp_all
    also have "\<dots> < 2 ^ 255" using u256_val_bound [of x] by simp
    finally show ?thesis .
  qed
  have r': "u256_val r' = ?M mod ?D * 2 + of_bool b"
    unfolding r'_def using Suc.prems(3) M by (rule div_rmd_val)
  have unfold: "div_loop x other (rev [0..<Suc i]) q r =
     (if r' \<ge> other
      then run_bind (unwrap (checked_sub r' other))
             (\<lambda>r''. div_loop x other (rev [0..<i]) (u256_set_bit q i) r'')
      else div_loop x other (rev [0..<i]) q r')"
    by (simp add: Let_def r'_def b_def)
  show ?case
  proof (cases "other \<le> r'")
    case True
    then have le: "?D \<le> ?M mod ?D * 2 + of_bool b" using r' by (simp add: u256_le_iff)
    note st = div_step_arith(2) [OF D le, folded half]
    have "checked_sub r' other \<noteq> None"
      using True by (simp add: checked_sub_None_iff u256_le_iff)
    then obtain r'' where r'': "checked_sub r' other = Some r''" by blast
    then have v: "u256_val r'' = u256_val x div 2 ^ i mod ?D"
      using st r' by (simp add: checked_sub_iff)
    have "\<not> u256_bit q i" using Suc.prems by (simp add: u256_bit_iff)
    then have "u256_val (u256_set_bit q i) = u256_val q + 2 ^ i"
      using Suc.prems(1) by (intro u256_val_set_bit) simp_all
    then have q': "u256_val (u256_set_bit q i) = u256_val x div 2 ^ i div ?D * 2 ^ i"
      using st Suc.prems(2) by (simp add: distrib_right)
    show ?thesis
      using Suc.IH [OF _ q' v] Suc.prems(1) True r'' unfolding unfold by simp
  next
    case False
    then have lt: "?M mod ?D * 2 + of_bool b < ?D" using r' by (simp add: u256_le_iff)
    note st = div_step_arith(1) [OF D lt, folded half]
    have q': "u256_val q = u256_val x div 2 ^ i div ?D * 2 ^ i"
      using st Suc.prems(2) by simp
    have v: "u256_val r' = u256_val x div 2 ^ i mod ?D" using st r' by simp
    show ?thesis
      using Suc.IH [OF _ q' v] Suc.prems(1) False unfolding unfold by simp
  qed
qed

lemma u256_val_eq_0_iff [simp]: "u256_val x = 0 \<longleftrightarrow> x = ZERO"
  by (simp flip: u256_val_ZERO)

lemma checked_div_zero: "checked_div x ZERO = Ret None"
  by (simp add: checked_div_def)

lemma checked_div_val:
  assumes "y \<noteq> ZERO"
  shows "\<exists>z. checked_div x y = Ret (Some z) \<and> u256_val z = u256_val x div u256_val y"
proof (cases "x < y")
  case True
  with assms show ?thesis by (simp add: checked_div_def u256_less_iff)
next
  case False
  have "0 < u256_val y" using assms by (simp add: u256_val_eq_0_iff flip: neq0_conv)
  moreover have "u256_val x div 2 ^ 256 = 0" using u256_val_bound [of x] by (rule div_less)
  ultimately obtain z where "div_loop x y (rev [0..<256]) ZERO ZERO = Ret z"
    "u256_val z = u256_val x div u256_val y"
    using div_loop_val [of y 256 ZERO x ZERO] by (auto simp only: u256_val_ZERO div_0 mod_0 mult_0)
  with assms False show ?thesis by (auto simp: checked_div_def)
qed

section \<open>Operators\<close>

text \<open>When the operators return, and the value they return.\<close>

lemma u256_add_val:
  "u256_val x + u256_val y < 2 ^ 256 \<Longrightarrow> \<exists>z. u256_add x y = Ret z \<and> u256_val z = u256_val x + u256_val y"
  using checked_add_None_iff [of x y] checked_add_iff [of x y]
  by (cases "checked_add x y") (auto simp: u256_add_def)

lemma u256_sub_val:
  "u256_val y \<le> u256_val x \<Longrightarrow> \<exists>z. u256_sub x y = Ret z \<and> u256_val z + u256_val y = u256_val x"
  using checked_sub_None_iff [of x y] checked_sub_iff [of x y]
  by (cases "checked_sub x y") (auto simp: u256_sub_def)

lemma u256_sub_Panic_iff: "u256_sub x y = Panic \<longleftrightarrow> u256_val x < u256_val y"
  using checked_sub_None_iff [of x y] by (cases "checked_sub x y") (auto simp: u256_sub_def)

lemma u256_sub_Ret_iff: "u256_sub x y = Ret z \<longleftrightarrow> u256_val z + u256_val y = u256_val x"
  using checked_sub_iff [of x y z] by (cases "checked_sub x y") (auto simp: u256_sub_def)

lemma u256_add_Ret_iff: "u256_add x y = Ret z \<longleftrightarrow> u256_val z = u256_val x + u256_val y"
  using checked_add_iff [of x y z] by (cases "checked_add x y") (auto simp: u256_add_def)

lemma u256_div_val:
  "y \<noteq> ZERO \<Longrightarrow> \<exists>z. u256_div x y = Ret z \<and> u256_val z = u256_val x div u256_val y"
  using checked_div_val [of y x] by (auto simp: u256_div_def)

lemma u256_val_max: "u256_val (max x y) = max (u256_val x) (u256_val y)"
  by (simp add: max_def u256_le_iff)

lemma u256_val_min: "u256_val (min x y) = min (u256_val x) (u256_val y)"
  by (simp add: min_def u256_le_iff)

section \<open>Decimal printing\<close>

definition ten :: U256 where "ten = from_u64 10"

text \<open>The digits are produced least significant first and reversed at the end.\<close>

function display_loop :: "U256 \<Rightarrow> u8 list \<Rightarrow> u8 list run" where
  "display_loop n digits =
     (if n > ZERO
      then run_bind (run_bind (checked_div n ten) unwrap)
             (\<lambda>q. run_bind (unwrap (checked_sub n (u256_mul q ten)))
                (\<lambda>rmd. display_loop q (digits @ [48 + ucast (as_u64 rmd)])))
      else Ret digits)"
  by pat_completeness auto

lemma checked_div_ten: "checked_div n ten = Ret (Some q) \<longleftrightarrow> u256_val q = u256_val n div 10"
proof -
  have t: "ten \<noteq> ZERO" "u256_val ten = 10" by (simp_all add: ten_def from_u64_def ZERO_def u256_val_def)
  then obtain z where "checked_div n ten = Ret (Some z)" "u256_val z = u256_val n div 10"
    using checked_div_val [of ten n] by auto
  then show ?thesis by (metis option.inject run.inject u256_val_inject)
qed

lemma unwrap_Ret_iff: "unwrap x = Ret y \<longleftrightarrow> x = Some y"
  by (cases x) auto

termination display_loop
proof (relation "measure (\<lambda>(n, digits). u256_val n)", goal_cases)
  case (2 n digits q rmd)
  then have "u256_val q = u256_val n div 10" by (auto simp: checked_div_ten unwrap_Ret_iff)
  with 2(1) show ?case by (simp add: u256_less_iff)
qed simp

declare display_loop.simps [simp del]

definition display :: "U256 \<Rightarrow> u8 list run" where
  "display x = (if x = ZERO then Ret [48] else run_map rev (display_loop x []))"

text \<open>The number a string of ASCII digits denotes, and what makes it a canonical numeral.\<close>

definition is_digit :: "u8 \<Rightarrow> bool" where
  "is_digit b \<longleftrightarrow> 48 \<le> b \<and> b \<le> 57"

definition decimal_val :: "u8 list \<Rightarrow> nat" where
  "decimal_val ds = foldl (\<lambda>n d. 10 * n + (unat d - 48)) 0 ds"

definition canonical_decimal :: "u8 list \<Rightarrow> bool" where
  "canonical_decimal ds \<longleftrightarrow> ds \<noteq> [] \<and> list_all is_digit ds \<and> (hd ds = 48 \<longrightarrow> ds = [48])"

lemma decimal_val_snoc: "decimal_val (ds @ [d]) = 10 * decimal_val ds + (unat d - 48)"
  by (simp add: decimal_val_def)

lemma as_u64_val: "u256_val x < 2 ^ 64 \<Longrightarrow> unat (as_u64 x) = u256_val x"
  by (cases x) (simp add: as_u64_def u256_val_def)

lemma digit_of_rmd:
  assumes "u256_val r < 10"
  shows "is_digit (48 + ucast (as_u64 r))" "unat (48 + ucast (as_u64 r) :: u8) - 48 = u256_val r"
    and "48 + ucast (as_u64 r) = (48 :: u8) \<longleftrightarrow> u256_val r = 0"
proof -
  have "unat (ucast (as_u64 r) :: u8) = u256_val r"
    using assms as_u64_val [of r] by (simp add: unsigned_ucast_eq take_bit_eq_mod)
  then have u: "unat (48 + ucast (as_u64 r) :: u8) = 48 + u256_val r"
    using assms by (subst unat_add_no_overflow) simp_all
  then show "is_digit (48 + ucast (as_u64 r))" "unat (48 + ucast (as_u64 r) :: u8) - 48 = u256_val r"
    "48 + ucast (as_u64 r) = (48 :: u8) \<longleftrightarrow> u256_val r = 0"
    using assms by (simp_all add: is_digit_def word_le_nat_alt word_unat_eq_iff)
qed

lemma display_loop_step:
  assumes "n \<noteq> ZERO"
  obtains q r where "u256_val q = u256_val n div 10" "u256_val r = u256_val n mod 10"
    "\<And>digits. display_loop n digits = display_loop q (digits @ [48 + ucast (as_u64 r)])"
proof -
  obtain q where q: "u256_val q = u256_val n div 10"
    using u256_val_surj order.strict_trans1 [OF div_le_dividend u256_val_bound] by blast
  then have cd: "checked_div n ten = Ret (Some q)" by (simp add: checked_div_ten)
  obtain r where r: "u256_val r = u256_val n mod 10"
    using u256_val_surj order.strict_trans1 [OF mod_less_eq_dividend u256_val_bound] by blast
  have "u256_val n div 10 * 10 \<le> u256_val n" by simp
  then have "u256_val (u256_mul q ten) = u256_val n div 10 * 10"
    using u256_val_bound [of n] q by (simp add: u256_val_mul ten_def)
  then have cs: "checked_sub n (u256_mul q ten) = Some r"
    using r by (simp add: checked_sub_iff)
  have pos: "ZERO < n" using assms by (simp add: u256_less_iff flip: neq0_conv)
  have "display_loop n digits = display_loop q (digits @ [48 + ucast (as_u64 r)])" for digits
    using cd cs pos by (subst display_loop.simps) simp
  then show thesis using that q r by blast
qed

lemma display_loop_val:
  "\<exists>ds. display_loop n digits = Ret (digits @ ds) \<and> decimal_val (rev ds) = u256_val n
     \<and> list_all is_digit ds \<and> (if n = ZERO then ds = [] else ds \<noteq> [] \<and> last ds \<noteq> 48)"
proof (induction "u256_val n" arbitrary: n digits rule: less_induct)
  case less
  show ?case
  proof (cases "n = ZERO")
    case True
    then show ?thesis by (subst display_loop.simps) (simp add: decimal_val_def)
  next
    case False
    then obtain q r where q: "u256_val q = u256_val n div 10" and r: "u256_val r = u256_val n mod 10"
      and eq: "\<And>digits. display_loop n digits = display_loop q (digits @ [48 + ucast (as_u64 r)])"
      by (rule display_loop_step) blast
    have "0 < u256_val n" using False by (simp flip: neq0_conv)
    then have "u256_val q < u256_val n" using q by simp
    from less [OF this, of "digits @ [48 + ucast (as_u64 r)]"]
    obtain ds where ds: "display_loop n digits = Ret ((digits @ [48 + ucast (as_u64 r)]) @ ds)"
      "decimal_val (rev ds) = u256_val q" "list_all is_digit ds"
      "if q = ZERO then ds = [] else ds \<noteq> [] \<and> last ds \<noteq> 48"
      unfolding eq by blast
    have r10: "u256_val r < 10" using r by simp
    note dg = digit_of_rmd [OF r10]
    have "q = ZERO \<Longrightarrow> u256_val r \<noteq> 0"
      using q r \<open>0 < u256_val n\<close> by (metis add.left_neutral div_mult_mod_eq mult_0 neq0_conv u256_val_ZERO)
    with ds dg q r show ?thesis
      by (intro exI [of _ "(48 + ucast (as_u64 r)) # ds"])
         (auto simp: decimal_val_snoc split: if_splits)
  qed
qed

section \<open>Big-endian bytes\<close>

lemma upt_4: "[0..<4] = [0, 1, 2, 3]"
  by (simp add: upt_rec numeral_eq_Suc)

lemma copy_into_fill:
  "length src = k \<Longrightarrow> copy_into n src (replicate (n + k) z @ rest) = replicate n z @ src @ rest"
  by (simp add: copy_into_def replicate_add)

lemma to_be_bytes_limbs:
  "to_be_bytes (U256 a b c d)
     = u64_to_be_bytes d @ u64_to_be_bytes c @ u64_to_be_bytes b @ u64_to_be_bytes a"
proof -
  have "to_be_bytes (U256 a b c d) = copy_into 0 (u64_to_be_bytes d) (copy_into 8 (u64_to_be_bytes c)
      (copy_into 16 (u64_to_be_bytes b) (copy_into 24 (u64_to_be_bytes a) (replicate 32 0 @ []))))"
    by (simp add: to_be_bytes_def upt_4)
  also have "\<dots> = u64_to_be_bytes d @ u64_to_be_bytes c @ u64_to_be_bytes b @ u64_to_be_bytes a"
    using copy_into_fill [of "u64_to_be_bytes a" 8 24] copy_into_fill [of "u64_to_be_bytes b" 8 16]
      copy_into_fill [of "u64_to_be_bytes c" 8 8] copy_into_fill [of "u64_to_be_bytes d" 8 0]
    by (simp del: append_Nil2)
  finally show ?thesis .
qed

lemma from_be_bytes_limbs:
  "from_be_bytes bs = U256 (u64_from_be_bytes (take 8 (drop 24 bs)))
     (u64_from_be_bytes (take 8 (drop 16 bs))) (u64_from_be_bytes (take 8 (drop 8 bs)))
     (u64_from_be_bytes (take 8 bs))"
  by (simp add: from_be_bytes_def of_limbs_def upt_4)

lemma le_val_append: "le_val (xs @ ys) = le_val xs + 256 ^ length xs * le_val ys"
  by (induction xs) (simp_all add: algebra_simps)

lemma be_val_append: "be_val (xs @ ys) = be_val ys + 256 ^ length ys * be_val xs"
  by (simp add: be_val_def le_val_append)

lemma be_val_u64 [simp]: "be_val (u64_to_be_bytes w) = unat w"
  using unat_lt2p [of w] by (simp add: u64_to_be_bytes_def be_val_be_bytes)

lemma length_to_be_bytes [simp]: "length (to_be_bytes x) = 32"
  by (cases x) (simp add: to_be_bytes_limbs)

lemma be_val_to_be_bytes: "be_val (to_be_bytes x) = u256_val x"
  by (cases x) (simp add: to_be_bytes_limbs be_val_append u256_val_def)

lemma from_to_be_bytes [simp]: "from_be_bytes (to_be_bytes x) = x"
  by (cases x) (simp add: to_be_bytes_limbs from_be_bytes_limbs)

lemma to_from_be_bytes:
  assumes "length bs = 32"
  shows "to_be_bytes (from_be_bytes bs) = bs"
proof -
  have "drop 24 bs = take 8 (drop 24 bs)" "drop 16 bs = take 8 (drop 16 bs) @ drop 24 bs"
    "drop 8 bs = take 8 (drop 8 bs) @ drop 16 bs" "bs = take 8 bs @ drop 8 bs"
    using assms append_take_drop_id [of 8 "drop 16 bs"] append_take_drop_id [of 8 "drop 8 bs"]
    by simp_all
  then have split: "take 8 bs @ take 8 (drop 8 bs) @ take 8 (drop 16 bs) @ drop 24 bs = bs"
    by simp
  show ?thesis
    using assms by (simp only: from_be_bytes_limbs to_be_bytes_limbs) (simp add: u64_to_be_from split)
qed

lemma to_be_bytes_inject [simp]: "to_be_bytes x = to_be_bytes y \<longleftrightarrow> x = y"
  by (metis from_to_be_bytes)

section \<open>Properties\<close>

text \<open>
  Checked addition and subtraction on limbs are exact: \<open>checked_add\<close> returns the sum and
  refuses exactly when it reaches \<open>2 ^ 256\<close>; \<open>checked_sub\<close> returns the difference and refuses
  exactly when the subtrahend is larger.
\<close>

theorem u256_checked_add_sub_exact:
  "(checked_add x y = Some z \<longleftrightarrow> u256_val z = u256_val x + u256_val y)
   \<and> (checked_add x y = None \<longleftrightarrow> 2 ^ 256 \<le> u256_val x + u256_val y)
   \<and> (checked_sub x y = Some z \<longleftrightarrow> u256_val z + u256_val y = u256_val x)
   \<and> (checked_sub x y = None \<longleftrightarrow> u256_val x < u256_val y)"
  by (simp add: checked_add_iff checked_add_None_iff checked_sub_iff checked_sub_None_iff)

text \<open>
  The schoolbook multiplication with 128-bit cells computes the product modulo \<open>2 ^ 256\<close>,
  the wrapping product of the EVM, for all operands.
\<close>

theorem u256_mul_wrapping:
  "u256_val (u256_mul x y) = u256_val x * u256_val y mod 2 ^ 256"
  by (rule u256_val_mul)

text \<open>
  (C26) The bit-by-bit division always returns: it answers \<open>None\<close> exactly for a zero divisor and
  the floor of the quotient otherwise; its inner \<open>unwrap\<close> never panics and the left shift of
  the running remainder never loses a bit.
\<close>

theorem u256_checked_div_floor:
  "\<exists>r. checked_div x y = Ret r
     \<and> (case r of None \<Rightarrow> y = ZERO | Some z \<Rightarrow> y \<noteq> ZERO \<and> u256_val z = u256_val x div u256_val y)"
  using checked_div_val [of y x] checked_div_zero [of x] by (cases "y = ZERO") auto

text \<open>
  Printing always returns a canonical decimal numeral (ASCII digits, no leading zero unless
  it is the numeral 0) whose value is the number printed.
\<close>

theorem u256_display_decimal:
  "\<exists>s. display x = Ret s \<and> canonical_decimal s \<and> decimal_val s = u256_val x"
proof (cases "x = ZERO")
  case True
  then show ?thesis by (simp add: display_def canonical_decimal_def is_digit_def decimal_val_def)
next
  case False
  then obtain ds where "display_loop x [] = Ret ds" "decimal_val (rev ds) = u256_val x"
    "list_all is_digit ds" "ds \<noteq> []" "last ds \<noteq> 48"
    using display_loop_val [of x "[]"] by auto
  with False show ?thesis by (simp add: display_def canonical_decimal_def hd_rev)
qed

text \<open>
  Big-endian bytes: the encoding of a number has 32 bytes whose big-endian value is the
  number, decoding inverts encoding, and encoding inverts decoding on every 32-byte array.
\<close>

theorem u256_be_bytes_roundtrip:
  assumes "length bs = 32"
  shows "to_be_bytes (from_be_bytes bs) = bs \<and> from_be_bytes (to_be_bytes x) = x
     \<and> length (to_be_bytes x) = 32 \<and> be_val (to_be_bytes x) = u256_val x"
  using assms by (simp add: to_from_be_bytes be_val_to_be_bytes)

theorem u256_be_bytes_roundtrip_witness:
  "length (replicate 32 (7::u8)) = 32
   \<and> to_be_bytes (from_be_bytes (replicate 32 7)) = replicate 32 7"
  using u256_be_bytes_roundtrip [of "replicate 32 7" ZERO] by simp

end
