(* ===== verification/Crypto.thy ===== *)
theory Crypto
  imports U256
begin

text \<open>
  Hashing and signatures of \<^verbatim>\<open>src/crates/nexus-primitives/src/crypto.rs\<close>, the error type of
  \<^verbatim>\<open>error.rs\<close> and the fixed-size byte arrays of \<^verbatim>\<open>types.rs\<close>. A 32-byte array is a 256-bit word
  and a 20-byte array a 160-bit word; \<open>as_bytes\<close> and \<open>addr_bytes\<close> are their bytes, first byte
  most significant. The hash functions and the curve arithmetic come from the crates
  \<^verbatim>\<open>blake3\<close>, \<^verbatim>\<open>sha3\<close> and \<^verbatim>\<open>k256\<close>, which are not part of the repository: they are the fields of
  the record \<open>crypto_lib\<close>, an argument of every definition that uses them.
\<close>

type_synonym Hash = "256 word"
type_synonym B32 = "256 word"
type_synonym ValidatorId = "256 word"
type_synonym Address = "160 word"
type_synonym Height = u64
type_synonym Timestamp = u64
type_synonym Weight = u128

definition as_bytes :: "256 word \<Rightarrow> u8 list" where
  "as_bytes h = be_bytes 32 (unat h)"

definition Hash_new :: "u8 list \<Rightarrow> Hash" where
  "Hash_new bs = of_nat (be_val bs)"

definition Hash_from_slice :: "u8 list \<Rightarrow> Hash option" where
  "Hash_from_slice bs = (if length bs = 32 then Some (Hash_new bs) else None)"

definition addr_bytes :: "Address \<Rightarrow> u8 list" where
  "addr_bytes a = be_bytes 20 (unat a)"

definition Address_new :: "u8 list \<Rightarrow> Address" where
  "Address_new bs = of_nat (be_val bs)"

text \<open>The payload of \<open>InsufficientFunds\<close> is the pair of formatted amounts; the message of a
  wrapped third-party error is kept up to its fixed prefix.\<close>

datatype NexusError =
    CryptoErr string
  | Validation string
  | Consensus string
  | StateErr string
  | EvmErr string
  | ZkpErr string
  | IsoErr string
  | NetworkErr string
  | StorageErr string
  | SerializationErr string
  | ConfigErr string
  | InsufficientFunds string string
  | NonceMismatch u64 u64
  | GasLimitExceeded u64 u64
  | InvalidSignature
  | DagErr string
  | VertexNotFound string
  | TransactionNotFound string
  | InvalidProof
  | DuplicateNullifier
  | UnknownErr string

record crypto_lib =
  blake3 :: "u8 list \<Rightarrow> Hash"
  keccak :: "u8 list \<Rightarrow> Hash"
  vk_from_sec1 :: "u8 list \<Rightarrow> u8 list option"
  vk_encode :: "u8 list \<Rightarrow> u8 list"
  sig_from_bytes :: "u8 list \<Rightarrow> u8 list option"
  recovery_id :: "u8 \<Rightarrow> u8 option"
  verify_prehash :: "u8 list \<Rightarrow> u8 list \<Rightarrow> u8 list \<Rightarrow> bool"
  recover_prehash :: "u8 list \<Rightarrow> u8 list \<Rightarrow> u8 \<Rightarrow> u8 list option"
  verify_message :: "u8 list \<Rightarrow> u8 list \<Rightarrow> u8 list \<Rightarrow> bool"

section \<open>Signatures\<close>

record EcdsaSignature =
  sig_r :: B32
  sig_s :: B32
  sig_v :: u8

definition sig_to_bytes :: "EcdsaSignature \<Rightarrow> u8 list" where
  "sig_to_bytes g =
     (let bytes = replicate 65 0;
          bytes = copy_into 0 (as_bytes (sig_r g)) bytes;
          bytes = copy_into 32 (as_bytes (sig_s g)) bytes
      in bytes[64 := sig_v g])"

definition sig_of_bytes :: "u8 list \<Rightarrow> EcdsaSignature" where
  "sig_of_bytes bytes =
     \<lparr>sig_r = Hash_new (take 32 bytes), sig_s = Hash_new (take 32 (drop 32 bytes)),
      sig_v = bytes ! 64\<rparr>"

text \<open>A public key is the 64 bytes of an uncompressed point without its \<open>0x04\<close> prefix.\<close>

type_synonym PublicKey = "u8 list"

definition to_verifying_key :: "crypto_lib \<Rightarrow> PublicKey \<Rightarrow> NexusError + u8 list" where
  "to_verifying_key lib pk =
     (case vk_from_sec1 lib (0x04 # pk) of
        None \<Rightarrow> Inl (CryptoErr ''Invalid public key'')
      | Some vk \<Rightarrow> Inr vk)"

definition pk_to_address :: "crypto_lib \<Rightarrow> PublicKey \<Rightarrow> Address" where
  "pk_to_address lib pk = Address_new (take 20 (drop 12 (as_bytes (keccak lib pk))))"

definition verify_signature ::
    "crypto_lib \<Rightarrow> Hash \<Rightarrow> EcdsaSignature \<Rightarrow> PublicKey \<Rightarrow> NexusError + bool" where
  "verify_signature lib message_hash g pk =
     (case to_verifying_key lib pk of Inl e \<Rightarrow> Inl e
      | Inr vk \<Rightarrow>
        (case sig_from_bytes lib (as_bytes (sig_r g) @ as_bytes (sig_s g)) of
           None \<Rightarrow> Inl (CryptoErr ''Invalid signature format'')
         | Some sg \<Rightarrow>
           (case recovery_id lib (saturating_sub (sig_v g) 27) of
              None \<Rightarrow> Inl (CryptoErr ''Invalid recovery id'')
            | Some _ \<Rightarrow> Inr (verify_prehash lib vk (as_bytes message_hash) sg))))"

definition recover_public_key ::
    "crypto_lib \<Rightarrow> Hash \<Rightarrow> EcdsaSignature \<Rightarrow> NexusError + PublicKey" where
  "recover_public_key lib message_hash g =
     (case sig_from_bytes lib (as_bytes (sig_r g) @ as_bytes (sig_s g)) of
        None \<Rightarrow> Inl (CryptoErr ''Invalid signature'')
      | Some sg \<Rightarrow>
        (case recovery_id lib (saturating_sub (sig_v g) 27) of
           None \<Rightarrow> Inl (CryptoErr ''Invalid recovery id'')
         | Some rid \<Rightarrow>
           (case recover_prehash lib (as_bytes message_hash) sg rid of
              None \<Rightarrow> Inl (CryptoErr ''Recovery failed'')
            | Some vk \<Rightarrow>
              (let bytes = vk_encode lib vk
               in if length bytes = 65 then Inr (tl bytes)
                  else Inl (CryptoErr ''Invalid recovered key length'')))))"

section \<open>Hashing\<close>

text \<open>Signing with a secret key: the recoverable signature of \<^verbatim>\<open>k256\<close> is the argument.\<close>

type_synonym signer = "u8 list \<Rightarrow> (u8 list \<times> u8) option"

definition secret_sign :: "signer \<Rightarrow> Hash \<Rightarrow> NexusError + EcdsaSignature" where
  "secret_sign sign_prehash message_hash =
     (case sign_prehash (as_bytes message_hash) of None \<Rightarrow> Inl (CryptoErr ''Signing failed'')
      | Some (sig_bytes, rid) \<Rightarrow>
        Inr \<lparr>sig_r = Hash_new (take 32 sig_bytes), sig_s = Hash_new (take 32 (drop 32 sig_bytes)),
             sig_v = rid + 27\<rparr>)"

definition blake3_hash :: "crypto_lib \<Rightarrow> u8 list \<Rightarrow> Hash" where
  "blake3_hash lib data = blake3 lib data"

definition keccak256 :: "crypto_lib \<Rightarrow> u8 list \<Rightarrow> u8 list" where
  "keccak256 lib data = as_bytes (keccak lib data)"

text \<open>What the incremental hasher is fed for a vertex, in order.\<close>

definition vertex_preimage :: "Hash list \<Rightarrow> Hash list \<Rightarrow> Timestamp \<Rightarrow> B32 \<Rightarrow> u8 list" where
  "vertex_preimage parents transactions timestamp validator =
     u32_to_le_bytes (of_nat (length parents)) @ concat (map as_bytes parents)
     @ u32_to_le_bytes (of_nat (length transactions)) @ concat (map as_bytes transactions)
     @ u64_to_le_bytes timestamp @ as_bytes validator"

definition vertex_hash :: "crypto_lib \<Rightarrow> Hash list \<Rightarrow> Hash list \<Rightarrow> Timestamp \<Rightarrow> B32 \<Rightarrow> Hash" where
  "vertex_hash lib parents transactions timestamp validator =
     blake3 lib (vertex_preimage parents transactions timestamp validator)"

text \<open>One round of the Merkle tree: pairs are hashed, an odd last element with itself.\<close>

fun merkle_level :: "crypto_lib \<Rightarrow> Hash list \<Rightarrow> Hash list" where
  "merkle_level lib (a # b # rest) =
     blake3_hash lib (as_bytes a @ as_bytes b) # merkle_level lib rest"
| "merkle_level lib [a] = [blake3_hash lib (as_bytes a @ as_bytes a)]"
| "merkle_level lib [] = []"

lemma length_merkle_level: "length (merkle_level lib hs) = (length hs + 1) div 2"
  by (induction lib hs rule: merkle_level.induct) auto

function merkle_loop :: "crypto_lib \<Rightarrow> Hash list \<Rightarrow> Hash list" where
  "merkle_loop lib current_level =
     (if length current_level > 1 then merkle_loop lib (merkle_level lib current_level)
      else current_level)"
  by pat_completeness auto
termination
  by (relation "measure (\<lambda>(lib, hs). length hs)") (auto simp: length_merkle_level)

declare merkle_loop.simps [simp del]

definition compute_merkle_root :: "crypto_lib \<Rightarrow> Hash list \<Rightarrow> Hash" where
  "compute_merkle_root lib hashes =
     (if hashes = [] then 0
      else if length hashes = 1 then hashes ! 0
      else merkle_loop lib hashes ! 0)"

section \<open>Lemmas\<close>

lemma length_as_bytes [simp, codec_simps]: "length (as_bytes h) = 32"
  by (simp add: as_bytes_def)

lemma length_addr_bytes [simp, codec_simps]: "length (addr_bytes a) = 20"
  by (simp add: addr_bytes_def)

lemma as_bytes_inject [simp, codec_simps]: "as_bytes a = as_bytes b \<longleftrightarrow> a = b"
  using unat_lt2p [of a] unat_lt2p [of b]
  by (auto simp: as_bytes_def dest: be_bytes_inject simp flip: word_unat_eq_iff)

lemma addr_bytes_inject [simp, codec_simps]: "addr_bytes a = addr_bytes b \<longleftrightarrow> a = b"
  using unat_lt2p [of a] unat_lt2p [of b]
  by (auto simp: addr_bytes_def dest: be_bytes_inject simp flip: word_unat_eq_iff)

lemma Hash_new_as_bytes [simp, codec_simps]: "Hash_new (as_bytes h) = h"
  using unat_lt2p [of h] by (simp add: Hash_new_def as_bytes_def be_val_be_bytes)

lemma as_bytes_Hash_new [codec_simps]: "length bs = 32 \<Longrightarrow> as_bytes (Hash_new bs) = bs"
  using be_val_bound [of bs]
  by (simp add: Hash_new_def as_bytes_def unat_of_nat be_bytes_be_val)

lemma concat_as_bytes_inject:
  "length xs = length ys \<Longrightarrow>
     concat (map as_bytes xs) @ us = concat (map as_bytes ys) @ vs \<longleftrightarrow> xs = ys \<and> us = vs"
  by (induction xs ys rule: list_induct2) auto

lemma map_as_bytes_inject:
  "length xs = length ys \<Longrightarrow> concat (map as_bytes xs) = concat (map as_bytes ys) \<longleftrightarrow> xs = ys"
  using concat_as_bytes_inject [of xs ys "[]" "[]"] by simp

lemma sig_to_bytes_eq:
  "sig_to_bytes g = as_bytes (sig_r g) @ as_bytes (sig_s g) @ [sig_v g]"
proof -
  have "replicate 65 (0::u8) = replicate 64 0 @ [0]"
    using replicate_add [of 64 1 "0::u8"] by simp
  then have "copy_into 32 (as_bytes (sig_s g)) (copy_into 0 (as_bytes (sig_r g)) (replicate 65 0))
      = as_bytes (sig_r g) @ as_bytes (sig_s g) @ [0]"
    using replicate_add [of 32 32 "0::u8"] by (simp add: copy_into_def)
  then show ?thesis by (simp add: sig_to_bytes_def Let_def list_update_append)
qed

text \<open>Everything the tree over a list of hashes feeds to the hash function.\<close>

fun pair_inputs :: "Hash list \<Rightarrow> u8 list list" where
  "pair_inputs (a # b # rest) = (as_bytes a @ as_bytes b) # pair_inputs rest"
| "pair_inputs [a] = [as_bytes a @ as_bytes a]"
| "pair_inputs [] = []"

function merkle_inputs :: "crypto_lib \<Rightarrow> Hash list \<Rightarrow> u8 list set" where
  "merkle_inputs lib hs =
     (if length hs > 1 then set (pair_inputs hs) \<union> merkle_inputs lib (merkle_level lib hs) else {})"
  by pat_completeness auto
termination
  by (relation "measure (\<lambda>(lib, hs). length hs)") (auto simp: length_merkle_level)

declare merkle_inputs.simps [simp del]

definition collision_between :: "crypto_lib \<Rightarrow> u8 list set \<Rightarrow> u8 list set \<Rightarrow> bool" where
  "collision_between lib A B \<longleftrightarrow> (\<exists>p \<in> A. \<exists>q \<in> B. p \<noteq> q \<and> blake3 lib p = blake3 lib q)"

lemma collision_between_mono:
  "collision_between lib A B \<Longrightarrow> A \<subseteq> A' \<Longrightarrow> B \<subseteq> B' \<Longrightarrow> collision_between lib A' B'"
  unfolding collision_between_def by blast

lemma merkle_level_binding:
  assumes "length xs = length ys" "merkle_level lib xs = merkle_level lib ys"
  shows "xs = ys \<or> collision_between lib (set (pair_inputs xs)) (set (pair_inputs ys))"
  using assms
proof (induction lib xs arbitrary: ys rule: merkle_level.induct)
  case (1 lib a b rest)
  then obtain c d rest' where ys: "ys = c # d # rest'" "length rest = length rest'"
    by (cases ys; cases "tl ys") auto
  with 1 have tl: "rest = rest' \<or> collision_between lib (set (pair_inputs rest)) (set (pair_inputs rest'))"
    and hd: "blake3 lib (as_bytes a @ as_bytes b) = blake3 lib (as_bytes c @ as_bytes d)"
    by (auto simp: blake3_hash_def)
  show ?case
  proof (cases "as_bytes a @ as_bytes b = as_bytes c @ as_bytes d")
    case True
    with tl ys show ?thesis
      using collision_between_mono [of lib "set (pair_inputs rest)" "set (pair_inputs rest')"
          "set (pair_inputs (a # b # rest))" "set (pair_inputs ys)"]
      by auto
  next
    case False
    with hd ys show ?thesis by (auto simp: collision_between_def)
  qed
next
  case (2 lib a)
  then obtain c where "ys = [c]" by (cases ys) auto
  with 2 show ?case by (auto simp: collision_between_def blake3_hash_def)
qed simp

lemma merkle_loop_singleton: "length hs \<le> 1 \<Longrightarrow> merkle_loop lib hs = hs"
  by (subst merkle_loop.simps) simp

lemma merkle_loop_binding:
  assumes "length xs = length ys" "xs \<noteq> []" "merkle_loop lib xs ! 0 = merkle_loop lib ys ! 0"
  shows "xs = ys \<or> collision_between lib (merkle_inputs lib xs) (merkle_inputs lib ys)"
  using assms
proof (induction lib xs arbitrary: ys rule: merkle_loop.induct)
  case (1 lib xs)
  show ?case
  proof (cases "length xs > 1")
    case True
    let ?f = "merkle_level lib"
    have "?f xs \<noteq> []" using True length_merkle_level [of lib xs] by auto
    then have "?f xs = ?f ys \<or> collision_between lib (merkle_inputs lib (?f xs)) (merkle_inputs lib (?f ys))"
      using True 1 by (intro "1.IH") (simp_all add: length_merkle_level merkle_loop.simps [of lib xs]
          merkle_loop.simps [of lib ys])
    moreover have "merkle_inputs lib zs = set (pair_inputs zs) \<union> merkle_inputs lib (?f zs)"
      if "length zs > 1" for zs using that by (subst merkle_inputs.simps) simp
    ultimately show ?thesis
      using merkle_level_binding [of xs ys lib] True "1.prems"(1)
        collision_between_mono [of lib "set (pair_inputs xs)" "set (pair_inputs ys)"
          "merkle_inputs lib xs" "merkle_inputs lib ys"]
        collision_between_mono [of lib "merkle_inputs lib (?f xs)" "merkle_inputs lib (?f ys)"
          "merkle_inputs lib xs" "merkle_inputs lib ys"]
      by auto
  next
    case False
    with "1.prems"(1,2) obtain x y where "xs = [x]" "ys = [y]"
      by (cases xs; cases ys) auto
    with "1.prems"(3) show ?thesis by (simp add: merkle_loop_singleton)
  qed
qed

lemma compute_merkle_root_loop: "hs \<noteq> [] \<Longrightarrow> compute_merkle_root lib hs = merkle_loop lib hs ! 0"
  by (auto simp: compute_merkle_root_def merkle_loop_singleton)

section \<open>Properties\<close>

text \<open>
  The Merkle root binds the list of transaction hashes of a given length: two lists of the
  same length with the same root are equal, or the two computations themselves exhibit a
  collision of the hash function.
\<close>

theorem merkle_root_binding:
  assumes "length xs = length ys" "compute_merkle_root lib xs = compute_merkle_root lib ys"
  shows "xs = ys \<or> collision_between lib (merkle_inputs lib xs) (merkle_inputs lib ys)"
  using assms merkle_loop_binding [of xs ys lib]
  by (cases "xs = []"; cases "ys = []") (auto simp: compute_merkle_root_loop)

definition demo_lib :: crypto_lib where
  "demo_lib = \<lparr>blake3 = (\<lambda>bs. of_nat (be_val bs)), keccak = (\<lambda>bs. of_nat (be_val bs)),
     vk_from_sec1 = Some, vk_encode = (\<lambda>vk. vk), sig_from_bytes = Some, recovery_id = Some,
     verify_prehash = (\<lambda>vk m sg. True), recover_prehash = (\<lambda>m sg rid. Some sg),
     verify_message = (\<lambda>vk m sg. True)\<rparr>"

text \<open>Under this hash function the last 32 bytes alone decide the result.\<close>

lemma demo_lib_suffix: "blake3 demo_lib (xs @ as_bytes b) = b"
proof -
  have app: "le_val (us @ vs) = le_val us + 256 ^ length us * le_val vs" for us vs
    by (induction us) (simp_all add: algebra_simps)
  have "be_val (xs @ as_bytes b) = be_val (as_bytes b) + 256 ^ 32 * be_val xs"
    by (simp add: be_val_def app)
  then have "(of_nat (be_val (xs @ as_bytes b)) :: Hash) = of_nat (be_val (as_bytes b))"
    by (simp add: word_unat_eq_iff unat_of_nat del: of_nat_add of_nat_mult)
  then show ?thesis using Hash_new_as_bytes [of b] by (simp add: demo_lib_def Hash_new_def)
qed

lemma demo_lib_pair: "blake3_hash demo_lib (as_bytes a @ as_bytes b) = b"
  by (simp add: blake3_hash_def demo_lib_suffix)

lemma demo_vertex_hash: "vertex_hash demo_lib ps ts t v = v"
  using demo_lib_suffix [of "u32_to_le_bytes (of_nat (length ps)) @ concat (map as_bytes ps)
    @ u32_to_le_bytes (of_nat (length ts)) @ concat (map as_bytes ts) @ u64_to_le_bytes t" v]
  by (simp add: vertex_hash_def vertex_preimage_def)

lemma Hash_new_zeros [simp]: "Hash_new (replicate n 0) = 0"
proof -
  have "le_val (replicate n 0) = 0" by (induction n) simp_all
  then show ?thesis by (simp add: Hash_new_def be_val_def)
qed

theorem merkle_root_binding_witness:
  "collision_between demo_lib (merkle_inputs demo_lib [1, 5]) (merkle_inputs demo_lib [2, 5])"
proof -
  have "compute_merkle_root demo_lib [1, 5] = compute_merkle_root demo_lib [2, 5]"
    by (simp add: compute_merkle_root_def merkle_loop.simps demo_lib_pair)
  with merkle_root_binding [of "[1, 5]" "[2, 5]" demo_lib] show ?thesis by simp
qed

text \<open>
  The length is not bound: an odd last element is hashed with itself, so every list of odd
  length from three on has the same root as the list with its last element repeated, for every
  hash function.
\<close>

theorem merkle_root_duplicate_last:
  assumes "odd (length hs)" and "3 \<le> length hs"
  shows "compute_merkle_root lib (hs @ [last hs]) = compute_merkle_root lib hs"
proof -
  have level: "merkle_level lib (hs @ [last hs]) = merkle_level lib hs" if "odd (length hs)" for hs
    using that by (induction lib hs rule: merkle_level.induct) (auto simp: odd_pos)
  from assms have "hs \<noteq> []" "\<not> length hs \<le> 1" by auto
  with level [OF assms(1)] show ?thesis
    by (simp add: compute_merkle_root_loop merkle_loop.simps [of lib hs]
        merkle_loop.simps [of lib "hs @ [last hs]"])
qed

theorem merkle_root_duplicate_last_witness:
  "compute_merkle_root demo_lib [1, 2, 3, 3] = compute_merkle_root demo_lib [1, 2, 3]"
  using merkle_root_duplicate_last [of "[1, 2, 3]" demo_lib] by simp

text \<open>
  The bytes hashed into a vertex identifier determine its parents, its transactions, its
  timestamp and its validator, as long as both lists are shorter than \<open>2 ^ 32\<close>: equal
  identifiers of different contents need a collision of the hash function.
\<close>

theorem vertex_preimage_injective:
  assumes "length ps < 2 ^ 32" "length ps' < 2 ^ 32" "length ts < 2 ^ 32" "length ts' < 2 ^ 32"
    and "vertex_preimage ps ts t v = vertex_preimage ps' ts' t' v'"
  shows "ps = ps' \<and> ts = ts' \<and> t = t' \<and> v = v'"
proof -
  have len: "m = n" if "of_nat m = (of_nat n :: u32)" "m < 2 ^ 32" "n < 2 ^ 32" for m n :: nat
    using arg_cong [OF that(1), of unat] that(2,3) by (simp add: unat_of_nat)
  have p: "u32_to_le_bytes (of_nat (length ps)) = u32_to_le_bytes (of_nat (length ps'))"
    and rest: "concat (map as_bytes ps) @ u32_to_le_bytes (of_nat (length ts))
        @ concat (map as_bytes ts) @ u64_to_le_bytes t @ as_bytes v
      = concat (map as_bytes ps') @ u32_to_le_bytes (of_nat (length ts'))
        @ concat (map as_bytes ts') @ u64_to_le_bytes t' @ as_bytes v'"
    using assms(5) by (simp_all add: vertex_preimage_def)
  from p have "length ps = length ps'" using assms len by simp
  with rest have "ps = ps'" and rest': "u32_to_le_bytes (of_nat (length ts))
        @ concat (map as_bytes ts) @ u64_to_le_bytes t @ as_bytes v
      = u32_to_le_bytes (of_nat (length ts'))
        @ concat (map as_bytes ts') @ u64_to_le_bytes t' @ as_bytes v'"
    by (simp_all add: concat_as_bytes_inject)
  moreover from rest' have "length ts = length ts'" using assms len by simp
  with rest' have "ts = ts'" "t = t'" "v = v'"
    by (simp_all add: concat_as_bytes_inject map_as_bytes_inject)
  ultimately show ?thesis by simp
qed

theorem vertex_preimage_injective_witness:
  "length [1::Hash] < 2 ^ 32 \<and> vertex_preimage [1] [] 5 9 = vertex_preimage [1] [] 5 9
   \<and> [1::Hash] = [1] \<and> ([]::Hash list) = [] \<and> (5::u64) = 5 \<and> (9::B32) = 9"
  using vertex_preimage_injective [of "[1]" "[1]" "[]" "[]" 5 9 5 9] by simp

text \<open>
  A signature survives its 65-byte encoding: \<open>from_bytes\<close> inverts \<open>to_bytes\<close>, and
  \<open>to_bytes\<close> inverts \<open>from_bytes\<close> on every 65-byte array.
\<close>

theorem signature_bytes_roundtrip:
  assumes "length bs = 65"
  shows "sig_of_bytes (sig_to_bytes g) = g \<and> sig_to_bytes (sig_of_bytes bs) = bs"
proof
  show "sig_of_bytes (sig_to_bytes g) = g"
    by (simp add: sig_of_bytes_def sig_to_bytes_eq nth_append)
  have "drop 64 bs = [bs ! 64]"
    using assms by (simp add: Cons_nth_drop_Suc [symmetric] del: Cons_nth_drop_Suc)
  then have "take 32 bs @ take 32 (drop 32 bs) @ [bs ! 64] = bs"
    using append_take_drop_id [of 32 "drop 32 bs"] by simp
  then show "sig_to_bytes (sig_of_bytes bs) = bs"
    using assms by (simp add: sig_of_bytes_def sig_to_bytes_eq as_bytes_Hash_new)
qed

theorem signature_bytes_roundtrip_witness:
  "length (replicate 65 (3::u8)) = 65
   \<and> sig_to_bytes (sig_of_bytes (replicate 65 3)) = replicate 65 3"
  using signature_bytes_roundtrip [of "replicate 65 3"] by simp

end
