(* ===== verification/Address.thy ===== *)
theory Address
  imports Crypto
begin

text \<open>
  Account addresses, \<^verbatim>\<open>src/crates/nexus-primitives/src/address.rs\<close>: the precompile test, the
  addresses of contracts made by CREATE (a hand-written RLP encoding of deployer and nonce) and
  CREATE2, and the address of an account identifier. The RLP bytes are compared with a reference
  encoder of the RLP specification.
\<close>

section \<open>The code\<close>

definition Address_from_slice :: "u8 list \<Rightarrow> Address option" where
  "Address_from_slice bs = (if length bs = 20 then Some (Address_new bs) else None)"

definition SYSTEM_ZKP :: Address where "SYSTEM_ZKP = 0x20"
definition SYSTEM_ISO :: Address where "SYSTEM_ISO = 0x30"
definition SYSTEM_GOVERNANCE :: Address where "SYSTEM_GOVERNANCE = 0x01"
definition SYSTEM_STAKING :: Address where "SYSTEM_STAKING = 0x02"

definition is_precompile :: "Address \<Rightarrow> bool" where
  "is_precompile a =
     (let bytes = addr_bytes a;
          last_byte = bytes ! 19;
          is_prefix_zero = list_all (\<lambda>b. b = 0) (take 19 bytes)
      in is_prefix_zero \<and>
         (0x01 \<le> last_byte \<and> last_byte \<le> 0x0A \<or> 0x20 \<le> last_byte \<and> last_byte \<le> 0x2F
          \<or> 0x30 \<le> last_byte \<and> last_byte \<le> 0x3F))"

text \<open>\<open>64 - n.leading_zeros()\<close>: the number of significant bits.\<close>

fun bit_len :: "nat \<Rightarrow> nat" where
  "bit_len n = (if n = 0 then 0 else Suc (bit_len (n div 2)))"

declare bit_len.simps [simp del]

text \<open>Index of the first non-zero byte, \<open>position(|b| b != 0).unwrap_or(7)\<close>.\<close>

definition first_nonzero :: "u8 list \<Rightarrow> nat" where
  "first_nonzero bs = (let k = length (takeWhile (\<lambda>b. b = 0) bs) in if k < length bs then k else 7)"

definition create_preimage :: "Address \<Rightarrow> u64 \<Rightarrow> u8 list" where
  "create_preimage deployer nonce =
     (let deployer_len = (21::nat);
          bits = bit_len (unat nonce);
          nonce_len = (if nonce = 0 then 1 else if nonce < 0x80 then 1
                       else 1 + bits div 8 + (if bits mod 8 \<noteq> 0 then 1 else 0));
          total_len = deployer_len + nonce_len;
          header = (if total_len < 56 then [0xC0 + of_nat total_len]
                    else let len_bytes = be_bytes 8 total_len; len_start = first_nonzero len_bytes
                         in (0xF7 + of_nat (8 - len_start)) # drop len_start len_bytes);
          nonce_part = (if nonce = 0 then [0x80]
                        else if nonce < 0x80 then [ucast nonce]
                        else let nonce_bytes = u64_to_be_bytes nonce; start = first_nonzero nonce_bytes
                             in (0x80 + of_nat (8 - start)) # drop start nonce_bytes)
      in header @ [0x94] @ addr_bytes deployer @ nonce_part)"

definition create_contract_address :: "crypto_lib \<Rightarrow> Address \<Rightarrow> u64 \<Rightarrow> Address" where
  "create_contract_address lib deployer nonce =
     Address_new (drop 12 (keccak256 lib (create_preimage deployer nonce)))"

definition create2_contract_address :: "crypto_lib \<Rightarrow> Address \<Rightarrow> B32 \<Rightarrow> Hash \<Rightarrow> Address" where
  "create2_contract_address lib deployer salt init_code_hash =
     Address_new (drop 12 (keccak256 lib
       (0xFF # addr_bytes deployer @ as_bytes salt @ as_bytes init_code_hash)))"

datatype AccountId = AccAddress Address | AccSystem u8 | AccValidator B32

fun acc_to_address :: "AccountId \<Rightarrow> Address" where
  "acc_to_address (AccAddress addr) = addr"
| "acc_to_address (AccSystem i) = Address_new ((replicate 20 0)[19 := i])"
| "acc_to_address (AccValidator h) = Address_new (take 20 (drop 12 (as_bytes h)))"

section \<open>Reference RLP encoding\<close>

text \<open>Big-endian bytes without leading zeros; the empty string for 0.\<close>

fun minimal_be :: "nat \<Rightarrow> u8 list" where
  "minimal_be n = (if n = 0 then [] else minimal_be (n div 256) @ [of_nat (n mod 256)])"

declare minimal_be.simps [simp del]

definition rlp_length :: "nat \<Rightarrow> nat \<Rightarrow> u8 list" where
  "rlp_length off len =
     (if len < 56 then [of_nat (off + len)]
      else let ll = minimal_be len in of_nat (off + 55 + length ll) # ll)"

definition rlp_string :: "u8 list \<Rightarrow> u8 list" where
  "rlp_string bs =
     (if length bs = 1 \<and> hd bs < 0x80 then bs else rlp_length 0x80 (length bs) @ bs)"

definition rlp_list :: "u8 list list \<Rightarrow> u8 list" where
  "rlp_list items = (let body = concat items in rlp_length 0xC0 (length body) @ body)"

section \<open>Lemmas\<close>

lemma le_bytes_split:
  "le_bytes n x = rev (minimal_be x) @ replicate (n - length (minimal_be x)) 0"
  if "x < 256 ^ n"
  using that
proof (induction n arbitrary: x)
  case 0
  then show ?case by (simp add: minimal_be.simps)
next
  case (Suc n)
  show ?case
  proof (cases "x = 0")
    case True
    have "le_bytes k 0 = replicate k 0" for k by (induction k) auto
    with True show ?thesis by (simp add: minimal_be.simps [of 0])
  next
    case False
    have "x div 256 < 256 ^ n" using Suc.prems by (simp add: div_less_iff_less_mult mult.commute)
    then show ?thesis using Suc.IH False by (simp add: minimal_be.simps [of x])
  qed
qed

lemma minimal_be_length_le: "x < 256 ^ n \<Longrightarrow> length (minimal_be x) \<le> n"
proof (induction n arbitrary: x)
  case 0
  then show ?case by (simp add: minimal_be.simps)
next
  case (Suc n)
  then have "x div 256 < 256 ^ n" by (simp add: div_less_iff_less_mult mult.commute)
  with Suc.IH show ?case by (simp add: minimal_be.simps [of x])
qed

lemma be_bytes_split:
  "x < 256 ^ n \<Longrightarrow> be_bytes n x = replicate (n - length (minimal_be x)) 0 @ minimal_be x"
  by (simp add: be_bytes_def le_bytes_split)

lemma minimal_be_Nil_iff: "minimal_be x = [] \<longleftrightarrow> x = 0"
  by (subst minimal_be.simps) simp

lemma minimal_be_hd: "x \<noteq> 0 \<Longrightarrow> hd (minimal_be x) \<noteq> 0"
proof (induction x rule: minimal_be.induct)
  case (1 x)
  show ?case
  proof (cases "x div 256 = 0")
    case True
    then have "x < 256" by simp
    then have "unat (of_nat x :: u8) = x" by (simp add: unat_of_nat)
    then have "(of_nat x :: u8) \<noteq> 0" using 1 by (metis unat_0)
    with True 1 \<open>x < 256\<close> show ?thesis by (simp add: minimal_be.simps [of x] minimal_be.simps [of 0])
  next
    case False
    with 1 show ?thesis
      by (simp add: minimal_be.simps [of x] hd_append minimal_be_Nil_iff)
  qed
qed

lemma takeWhile_zeros:
  "xs \<noteq> [] \<Longrightarrow> hd xs \<noteq> 0 \<Longrightarrow> takeWhile (\<lambda>b. b = 0) (replicate k (0::u8) @ xs) = replicate k 0"
  by (cases xs) (induction k; simp)+

lemma first_nonzero_be_bytes:
  assumes "0 < x" "x < 256 ^ 8"
  shows "first_nonzero (be_bytes 8 x) = 8 - length (minimal_be x)"
    and "drop (first_nonzero (be_bytes 8 x)) (be_bytes 8 x) = minimal_be x"
proof -
  have len: "length (minimal_be x) \<le> 8" using assms(2) by (rule minimal_be_length_le)
  have ne: "minimal_be x \<noteq> []" using assms(1) by (simp add: minimal_be_Nil_iff)
  have "takeWhile (\<lambda>b. b = 0) (be_bytes 8 x) = replicate (8 - length (minimal_be x)) 0"
    using be_bytes_split [OF assms(2)] takeWhile_zeros [OF ne] minimal_be_hd assms(1) by simp
  moreover have "0 < length (minimal_be x)" using ne by simp
  ultimately show "first_nonzero (be_bytes 8 x) = 8 - length (minimal_be x)"
    using len by (simp add: first_nonzero_def Let_def)
  then show "drop (first_nonzero (be_bytes 8 x)) (be_bytes 8 x) = minimal_be x"
    by (simp add: be_bytes_split [OF assms(2)])
qed

lemma bit_len_256: "256 \<le> n \<Longrightarrow> bit_len n = 8 + bit_len (n div 256)"
  by (simp add: bit_len.simps [of n] bit_len.simps [of "n div 2"] bit_len.simps [of "n div 2 div 2"]
      bit_len.simps [of "n div 4"] bit_len.simps [of "n div 8"] bit_len.simps [of "n div 16"]
      bit_len.simps [of "n div 32"] bit_len.simps [of "n div 64"] bit_len.simps [of "n div 128"]
      div_mult2_eq [symmetric] div_greater_zero_iff)

lemma bit_len_byte: "0 < n \<Longrightarrow> n < 256 \<Longrightarrow> 1 \<le> bit_len n \<and> bit_len n \<le> 8"
  by (simp add: bit_len.simps [of n] bit_len.simps [of "n div 2"]
      bit_len.simps [of "n div 4"] bit_len.simps [of "n div 8"] bit_len.simps [of "n div 16"]
      bit_len.simps [of "n div 32"] bit_len.simps [of "n div 64"] bit_len.simps [of "n div 128"]
      bit_len.simps [of "n div 256"] bit_len.simps [of 0]
      div_mult2_eq [symmetric])

text \<open>The byte count computed from \<open>leading_zeros\<close> is the number of bytes of the nonce.\<close>

lemma bit_len_bytes:
  "0 < n \<Longrightarrow> bit_len n div 8 + (if bit_len n mod 8 \<noteq> 0 then 1 else 0) = length (minimal_be n)"
proof (induction n rule: minimal_be.induct)
  case (1 n)
  show ?case
  proof (cases "n < 256")
    case True
    with bit_len_byte [of n] 1 have "bit_len n = 8 \<or> bit_len n < 8 \<and> 0 < bit_len n" by auto
    with True 1 show ?thesis
      by (auto simp: minimal_be.simps [of n] minimal_be.simps [of 0])
  next
    case False
    then have "0 < n div 256" by simp
    with 1 have "bit_len (n div 256) div 8 + (if bit_len (n div 256) mod 8 \<noteq> 0 then 1 else 0)
        = length (minimal_be (n div 256))" by simp
    moreover have "(8 + bit_len (n div 256)) div 8 = Suc (bit_len (n div 256) div 8)" by simp
    ultimately show ?thesis using False 1
      by (simp add: minimal_be.simps [of n] bit_len_256 split: if_splits)
  qed
qed

lemma minimal_be_single: "0 < n \<Longrightarrow> n < 256 \<Longrightarrow> minimal_be n = [of_nat n]"
  by (simp add: minimal_be.simps [of n] minimal_be.simps [of 0])

lemma minimal_be_length_bound: "n < 2 ^ 64 \<Longrightarrow> length (minimal_be n) \<le> 8"
  using minimal_be_length_le [of n 8] by simp

lemma nonce_part_rlp:
  fixes nonce :: u64
  shows "(if nonce = 0 then [0x80]
    else if nonce < 0x80 then [ucast nonce]
    else let nonce_bytes = u64_to_be_bytes nonce; start = first_nonzero nonce_bytes
         in (0x80 + of_nat (8 - start)) # drop start nonce_bytes)
   = rlp_string (minimal_be (unat nonce))"
proof -
  consider "nonce = 0" | "nonce \<noteq> 0" "nonce < 0x80" | "\<not> nonce < 0x80" by blast
  then show ?thesis
  proof cases
    case 1
    then show ?thesis by (simp add: rlp_string_def rlp_length_def minimal_be.simps)
  next
    case 2
    then have n: "0 < unat nonce" "unat nonce < 128"
      by (simp_all add: word_less_nat_alt unat_gt_0)
    then have "ucast nonce = (of_nat (unat nonce) :: u8)" by simp
    moreover have "(of_nat (unat nonce) :: u8) < 0x80"
      using n by (simp add: word_less_nat_alt unsigned_ucast_eq take_bit_eq_mod)
    ultimately show ?thesis
      using 2 n by (simp add: rlp_string_def minimal_be_single)
  next
    case 3
    then have n: "128 \<le> unat nonce" by (simp add: word_less_nat_alt)
    have b: "0 < unat nonce" "unat nonce < 256 ^ 8" using n unat_lt2p [of nonce] by simp_all
    let ?m = "minimal_be (unat nonce)"
    have len: "length ?m \<le> 8" using b(2) by (rule minimal_be_length_le)
    have "\<not> (length ?m = 1 \<and> hd ?m < 0x80)"
    proof (cases "unat nonce < 256")
      case True
      then have "unat (of_nat (unat nonce) :: u8) = unat nonce"
        by (simp add: unsigned_ucast_eq take_bit_eq_mod)
      then show ?thesis using True n b minimal_be_single [of "unat nonce"]
        by (simp add: word_less_nat_alt)
    next
      case False
      then have "0 < unat nonce div 256" by (simp add: div_greater_zero_iff)
      then show ?thesis using b(1) by (simp add: minimal_be.simps [of "unat nonce"] minimal_be_Nil_iff)
    qed
    moreover have "0x80 + of_nat (8 - (8 - length ?m)) = (of_nat (128 + length ?m) :: u8)"
      using len by simp
    ultimately show ?thesis
      using 3 first_nonzero_be_bytes [OF b] len
      by (auto simp: rlp_string_def rlp_length_def u64_to_be_bytes_def Let_def)
  qed
qed

lemma nonce_len_rlp:
  fixes nonce :: u64
  shows "(if nonce = 0 then 1 else if nonce < 0x80 then 1
    else 1 + bit_len (unat nonce) div 8 + (if bit_len (unat nonce) mod 8 \<noteq> 0 then 1 else 0))
   = length (rlp_string (minimal_be (unat nonce)))"
proof (cases "nonce = 0 \<or> nonce < 0x80")
  case True
  then show ?thesis using nonce_part_rlp [of nonce, symmetric] by auto
next
  case False
  then have n: "128 \<le> unat nonce" by (simp add: word_less_nat_alt)
  have b: "0 < unat nonce" "unat nonce < 256 ^ 8" using n unat_lt2p [of nonce] by simp_all
  have "length (rlp_string (minimal_be (unat nonce))) = 1 + length (minimal_be (unat nonce))"
    using False nonce_part_rlp [of nonce, symmetric] first_nonzero_be_bytes [OF b]
    by (simp add: u64_to_be_bytes_def Let_def)
  with False bit_len_bytes [OF b(1)] show ?thesis by simp
qed

lemma create_preimage_rlp:
  "create_preimage deployer nonce
     = rlp_list [rlp_string (addr_bytes deployer), rlp_string (minimal_be (unat nonce))]"
proof -
  let ?s = "rlp_string (minimal_be (unat nonce))"
  have "length (minimal_be (unat nonce)) \<le> 8"
    using unat_lt2p [of nonce] by (intro minimal_be_length_bound) simp
  then have small: "length ?s \<le> 9" by (simp add: rlp_string_def rlp_length_def)
  have a: "rlp_string (addr_bytes deployer) = 0x94 # addr_bytes deployer"
    by (simp add: rlp_string_def rlp_length_def)
  have h: "[0xC0 + of_nat (21 + length ?s)] = rlp_length 0xC0 (21 + length ?s)"
    using small by (simp add: rlp_length_def)
  have "create_preimage deployer nonce
      = [0xC0 + of_nat (21 + length ?s)] @ [0x94] @ addr_bytes deployer @ ?s"
    unfolding create_preimage_def Let_def nonce_len_rlp nonce_part_rlp [unfolded Let_def]
    using small by simp
  then show ?thesis unfolding h by (simp add: rlp_list_def a)
qed

section \<open>Properties\<close>

text \<open>
  The bytes hashed for a CREATE address are the RLP encoding of the list of the deployer's
  20 bytes and the nonce as a minimal big-endian integer, for every nonce: the hand-written
  lengths, the single-byte case and the stripped leading zeros agree with the specification.
\<close>

theorem create_address_rlp:
  "create_preimage deployer nonce
     = rlp_list [rlp_string (addr_bytes deployer), rlp_string (minimal_be (unat nonce))]"
  by (rule create_preimage_rlp)

text \<open>
  The precompile test accepts exactly the addresses \<open>0x01\<close> to \<open>0x0A\<close> and \<open>0x20\<close> to \<open>0x3F\<close>.
\<close>

theorem is_precompile_range:
  "is_precompile a \<longleftrightarrow> 1 \<le> unat a \<and> unat a \<le> 10 \<or> 32 \<le> unat a \<and> unat a \<le> 63"
proof -
  have split: "addr_bytes a = be_bytes 19 (unat a div 256) @ [of_nat (unat a mod 256)]"
  proof -
    have "be_bytes (Suc 19) x = be_bytes 19 (x div 256) @ [of_nat (x mod 256)]" for x
      by (simp only: be_bytes_def le_bytes.simps rev.simps)
    then show ?thesis by (simp add: addr_bytes_def)
  qed
  have "unat a div 256 < 256 ^ 19"
    using unat_lt2p [of a] by (simp add: div_less_iff_less_mult)
  then have z: "list_all (\<lambda>b. b = 0) (be_bytes 19 (unat a div 256)) \<longleftrightarrow> unat a div 256 = 0"
    using minimal_be_hd [of "unat a div 256"] minimal_be_Nil_iff [of "unat a div 256"]
    by (cases "minimal_be (unat a div 256)") (auto simp: be_bytes_split list_all_iff minimal_be.simps [of 0])
  have l: "unat (of_nat (unat a mod 256) :: u8) = unat a mod 256" by (simp add: unat_of_nat)
  have "is_precompile a \<longleftrightarrow> unat a div 256 = 0
      \<and> (1 \<le> unat a mod 256 \<and> unat a mod 256 \<le> 10 \<or> 32 \<le> unat a mod 256 \<and> unat a mod 256 \<le> 47
         \<or> 48 \<le> unat a mod 256 \<and> unat a mod 256 \<le> 63)"
    unfolding is_precompile_def split Let_def
    by (simp add: nth_append z word_le_nat_alt l del: of_nat_mod)
  also have "\<dots> \<longleftrightarrow> 1 \<le> unat a \<and> unat a \<le> 10 \<or> 32 \<le> unat a \<and> unat a \<le> 63"
    by auto
  finally show ?thesis .
qed

end
