(* ===== verification/Transaction.thy ===== *)
theory Transaction
  imports Address
begin

text \<open>
  Transactions, \<^verbatim>\<open>src/crates/nexus-primitives/src/transaction.rs\<close>: the transaction record with
  its ZKP and ISO payloads, the constructors, the encoding that is signed and hashed, intrinsic
  gas, basic validation, sender recovery and the decoder of raw Ethereum transactions. The RLP
  header parser is \<^verbatim>\<open>alloy_rlp::Header::decode\<close>, which is not part of the repository: the decoder
  takes it as the argument \<open>hdr\<close>, a function from the input to the list flag, the payload length
  and the rest of the input.
\<close>

section \<open>Data\<close>

datatype TxType = Legacy | AccessList | DynamicFee | Private | IsoPayment | System

fun tx_type_byte :: "TxType \<Rightarrow> u8" where
  "tx_type_byte Legacy = 0"
| "tx_type_byte AccessList = 1"
| "tx_type_byte DynamicFee = 2"
| "tx_type_byte Private = 0x80"
| "tx_type_byte IsoPayment = 0x81"
| "tx_type_byte System = 0xFF"

record AccessListEntry =
  ale_address :: Address
  ale_storage_keys :: "Hash list"

datatype ZkpProofType = Groth16 | Plonk | Stark

record ZkpProofData =
  proof_type :: ZkpProofType
  zk_proof :: "u8 list"
  public_inputs :: "B32 list"
  nullifiers :: "Hash list"
  commitments :: "Hash list"

datatype IsoMessageType = CreditTransfer | PaymentStatus | AccountStatement | DirectDebit | Return

record PostalAddress =
  street_name :: "string option"
  building_number :: "string option"
  postal_code :: "string option"
  town_name :: "string option"
  country :: string

record PartyInfo =
  party_name :: string
  party_account :: string
  party_bic :: "string option"
  party_lei :: "string option"
  party_address :: "PostalAddress option"

record IsoAmount =
  iso_value :: u64
  iso_currency :: string

record IsoMessageData =
  message_type :: IsoMessageType
  msg_id :: string
  creation_timestamp :: string
  instructing_agent :: "string option"
  instructed_agent :: "string option"
  debtor :: "PartyInfo option"
  creditor :: "PartyInfo option"
  iso_amount :: "IsoAmount option"
  raw_xml :: "string option"

record Transaction =
  tx_type :: TxType
  chain_id :: u64
  nonce :: u64
  tx_to :: "Address option"
  tx_value :: U256
  tx_data :: "u8 list"
  gas_limit :: u64
  gas_price :: U256
  max_priority_fee :: "U256 option"
  access_list :: "AccessListEntry list"
  zkp_proof :: "ZkpProofData option"
  iso_data :: "IsoMessageData option"
  signature :: "EcdsaSignature option"

section \<open>Constructors\<close>

definition new_legacy ::
    "u64 \<Rightarrow> u64 \<Rightarrow> Address option \<Rightarrow> U256 \<Rightarrow> u8 list \<Rightarrow> u64 \<Rightarrow> U256 \<Rightarrow> Transaction" where
  "new_legacy cid n dest val dat gl gp =
     \<lparr>tx_type = Legacy, chain_id = cid, nonce = n, tx_to = dest, tx_value = val, tx_data = dat,
      gas_limit = gl, gas_price = gp, max_priority_fee = None, access_list = [],
      zkp_proof = None, iso_data = None, signature = None\<rparr>"

definition new_dynamic_fee ::
    "u64 \<Rightarrow> u64 \<Rightarrow> Address option \<Rightarrow> U256 \<Rightarrow> u8 list \<Rightarrow> u64 \<Rightarrow> U256 \<Rightarrow> U256 \<Rightarrow> Transaction" where
  "new_dynamic_fee cid n dest val dat gl max_fee prio =
     \<lparr>tx_type = DynamicFee, chain_id = cid, nonce = n, tx_to = dest, tx_value = val, tx_data = dat,
      gas_limit = gl, gas_price = max_fee, max_priority_fee = Some prio, access_list = [],
      zkp_proof = None, iso_data = None, signature = None\<rparr>"

definition new_private :: "u64 \<Rightarrow> u64 \<Rightarrow> ZkpProofData \<Rightarrow> Transaction" where
  "new_private cid n prf =
     \<lparr>tx_type = Private, chain_id = cid, nonce = n, tx_to = None, tx_value = ZERO, tx_data = [],
      gas_limit = 500000, gas_price = from_u64 1000000000, max_priority_fee = None,
      access_list = [], zkp_proof = Some prf, iso_data = None, signature = None\<rparr>"

definition new_iso_payment :: "u64 \<Rightarrow> u64 \<Rightarrow> IsoMessageData \<Rightarrow> u64 \<Rightarrow> U256 \<Rightarrow> Transaction" where
  "new_iso_payment cid n msg gl gp =
     \<lparr>tx_type = IsoPayment, chain_id = cid, nonce = n, tx_to = Some SYSTEM_ISO, tx_value = ZERO,
      tx_data = [], gas_limit = gl, gas_price = gp, max_priority_fee = None, access_list = [],
      zkp_proof = None, iso_data = Some msg, signature = None\<rparr>"

section \<open>Encoding, hashing and recovery\<close>

definition encode_for_signing :: "Transaction \<Rightarrow> u8 list" where
  "encode_for_signing t =
     [tx_type_byte (tx_type t)] @ u64_to_be_bytes (chain_id t) @ u64_to_be_bytes (nonce t)
     @ u64_to_be_bytes (gas_limit t) @ to_be_bytes (gas_price t)
     @ (case tx_to t of Some a \<Rightarrow> 1 # addr_bytes a | None \<Rightarrow> [0])
     @ to_be_bytes (tx_value t) @ u32_to_be_bytes (of_nat (length (tx_data t))) @ tx_data t"

definition tx_encode :: "Transaction \<Rightarrow> u8 list" where
  "tx_encode t =
     encode_for_signing t @ (case signature t of Some g \<Rightarrow> sig_to_bytes g | None \<Rightarrow> [])"

definition signing_hash :: "crypto_lib \<Rightarrow> Transaction \<Rightarrow> Hash" where
  "signing_hash lib t = Hash_new (keccak256 lib (encode_for_signing t))"

definition tx_hash :: "crypto_lib \<Rightarrow> Transaction \<Rightarrow> Hash" where
  "tx_hash lib t = blake3_hash lib (tx_encode t)"

definition recover_sender :: "crypto_lib \<Rightarrow> Transaction \<Rightarrow> NexusError + Address" where
  "recover_sender lib t =
     (case signature t of None \<Rightarrow> Inl (Validation ''Missing signature'')
      | Some g \<Rightarrow>
        (case recover_public_key lib (signing_hash lib t) g of Inl e \<Rightarrow> Inl e
         | Inr pk \<Rightarrow> Inr (pk_to_address lib pk)))"

record SignedTransaction =
  st_transaction :: Transaction
  st_hash :: Hash
  st_sender :: Address

definition SignedTransaction_new :: "crypto_lib \<Rightarrow> Transaction \<Rightarrow> NexusError + SignedTransaction" where
  "SignedTransaction_new lib t =
     (let h = tx_hash lib t
      in case recover_sender lib t of Inl e \<Rightarrow> Inl e
         | Inr a \<Rightarrow> Inr \<lparr>st_transaction = t, st_hash = h, st_sender = a\<rparr>)"

section \<open>Gas and validation\<close>

definition MAX_TX_SIZE :: nat where "MAX_TX_SIZE = 128 * 1024"

definition tx_intrinsic_gas :: "Transaction \<Rightarrow> u64" where
  "tx_intrinsic_gas t =
     (let base_gas = (case tx_type t of Legacy \<Rightarrow> 21000 | AccessList \<Rightarrow> 21000 | DynamicFee \<Rightarrow> 21000
                      | Private \<Rightarrow> 100000 | IsoPayment \<Rightarrow> 50000 | System \<Rightarrow> 0);
          data_gas = sum_list (map (\<lambda>b. if b = 0 then 4 else 16) (tx_data t));
          create_gas = (if tx_to t = None then 32000 else 0)
      in base_gas + data_gas + create_gas)"

definition tx_validate :: "Transaction \<Rightarrow> NexusError + unit" where
  "tx_validate t =
     (if gas_limit t < tx_intrinsic_gas t then Inl (Validation ''Gas limit below intrinsic gas'')
      else if length (tx_data t) > MAX_TX_SIZE then Inl (Validation ''Transaction too large'')
      else case tx_type t of
             Private \<Rightarrow> if zkp_proof t = None then Inl (Validation ''Private tx missing ZKP proof'')
                        else Inr ()
           | IsoPayment \<Rightarrow> if iso_data t = None then Inl (Validation ''ISO tx missing message data'')
                        else Inr ()
           | _ \<Rightarrow> Inr ())"

section \<open>Decoding raw transactions\<close>

type_synonym rlp_header = "u8 list \<Rightarrow> (bool \<times> nat \<times> u8 list) option"

definition next_bytes :: "rlp_header \<Rightarrow> u8 list \<Rightarrow> (u8 list \<times> u8 list) option" where
  "next_bytes hdr buf =
     (case buf of [] \<Rightarrow> None
      | first # rest \<Rightarrow>
        if first < 0x80 then Some ([first], rest)
        else case hdr buf of None \<Rightarrow> None
             | Some (is_list, n, buf') \<Rightarrow>
               if is_list then None
               else if length buf' < n then None
               else Some (take n buf', drop n buf'))"

definition next_uint :: "rlp_header \<Rightarrow> u8 list \<Rightarrow> (u64 \<times> u8 list) option" where
  "next_uint hdr buf =
     (case next_bytes hdr buf of None \<Rightarrow> None
      | Some (bytes, buf') \<Rightarrow>
        if length bytes > 8 then None
        else Some (foldl (\<lambda>v b. push_bit 8 v OR ucast b) 0 bytes, buf'))"

definition next_u256 :: "rlp_header \<Rightarrow> u8 list \<Rightarrow> (U256 \<times> u8 list) option" where
  "next_u256 hdr buf =
     (case next_bytes hdr buf of None \<Rightarrow> None
      | Some (bytes, buf') \<Rightarrow>
        if length bytes > 32 then None
        else Some (from_be_bytes (copy_into (32 - length bytes) bytes (replicate 32 0)), buf'))"

definition next_address :: "rlp_header \<Rightarrow> u8 list \<Rightarrow> (Address option \<times> u8 list) option" where
  "next_address hdr buf =
     (case next_bytes hdr buf of None \<Rightarrow> None
      | Some (bytes, buf') \<Rightarrow>
        if length bytes = 0 then Some (None, buf')
        else if length bytes = 20 then Some (Some (Address_new bytes), buf')
        else None)"

definition next_sig_scalar :: "rlp_header \<Rightarrow> u8 list \<Rightarrow> (B32 \<times> u8 list) option" where
  "next_sig_scalar hdr buf =
     (case next_bytes hdr buf of None \<Rightarrow> None
      | Some (bytes, buf') \<Rightarrow>
        if length bytes > 32 then None
        else Some (Hash_new (copy_into (32 - length bytes) bytes (replicate 32 0)), buf'))"

definition skip_list :: "rlp_header \<Rightarrow> u8 list \<Rightarrow> u8 list option" where
  "skip_list hdr buf =
     (case hdr buf of None \<Rightarrow> None
      | Some (is_list, n, buf') \<Rightarrow>
        if \<not> is_list then None else if length buf' < n then None else Some (drop n buf'))"

definition open_list :: "rlp_header \<Rightarrow> u8 list \<Rightarrow> u8 list option" where
  "open_list hdr buf =
     (case hdr buf of None \<Rightarrow> None | Some (is_list, n, buf') \<Rightarrow> if is_list then Some buf' else None)"

definition eip1559 :: "rlp_header \<Rightarrow> u8 list \<Rightarrow> Transaction option" where
  "eip1559 hdr payload =
     Option.bind (open_list hdr payload) (\<lambda>buf.
     Option.bind (next_uint hdr buf) (\<lambda>(cid, buf).
     Option.bind (next_uint hdr buf) (\<lambda>(n, buf).
     Option.bind (next_u256 hdr buf) (\<lambda>(prio, buf).
     Option.bind (next_u256 hdr buf) (\<lambda>(max_fee, buf).
     Option.bind (next_uint hdr buf) (\<lambda>(gl, buf).
     Option.bind (next_address hdr buf) (\<lambda>(dest, buf).
     Option.bind (next_u256 hdr buf) (\<lambda>(val, buf).
     Option.bind (next_bytes hdr buf) (\<lambda>(dat, buf).
     Option.bind (skip_list hdr buf) (\<lambda>buf.
     Option.bind (next_uint hdr buf) (\<lambda>(y, buf).
     Option.bind (next_sig_scalar hdr buf) (\<lambda>(r, buf).
     Option.bind (next_sig_scalar hdr buf) (\<lambda>(s, buf).
     Some \<lparr>tx_type = DynamicFee, chain_id = cid, nonce = n, tx_to = dest, tx_value = val,
       tx_data = dat, gas_limit = gl, gas_price = max_fee, max_priority_fee = Some prio,
       access_list = [], zkp_proof = None, iso_data = None,
       signature = Some \<lparr>sig_r = r, sig_s = s, sig_v = ucast y + 27\<rparr>\<rparr>)))))))))))))"

definition eip2930 :: "rlp_header \<Rightarrow> u8 list \<Rightarrow> Transaction option" where
  "eip2930 hdr payload =
     Option.bind (open_list hdr payload) (\<lambda>buf.
     Option.bind (next_uint hdr buf) (\<lambda>(cid, buf).
     Option.bind (next_uint hdr buf) (\<lambda>(n, buf).
     Option.bind (next_u256 hdr buf) (\<lambda>(gp, buf).
     Option.bind (next_uint hdr buf) (\<lambda>(gl, buf).
     Option.bind (next_address hdr buf) (\<lambda>(dest, buf).
     Option.bind (next_u256 hdr buf) (\<lambda>(val, buf).
     Option.bind (next_bytes hdr buf) (\<lambda>(dat, buf).
     Option.bind (skip_list hdr buf) (\<lambda>buf.
     Option.bind (next_uint hdr buf) (\<lambda>(y, buf).
     Option.bind (next_sig_scalar hdr buf) (\<lambda>(r, buf).
     Option.bind (next_sig_scalar hdr buf) (\<lambda>(s, buf).
     Some \<lparr>tx_type = AccessList, chain_id = cid, nonce = n, tx_to = dest, tx_value = val,
       tx_data = dat, gas_limit = gl, gas_price = gp, max_priority_fee = None,
       access_list = [], zkp_proof = None, iso_data = None,
       signature = Some \<lparr>sig_r = r, sig_s = s, sig_v = ucast y + 27\<rparr>\<rparr>))))))))))))"

definition legacy_v :: "u64 \<Rightarrow> (u64 \<times> u8) option" where
  "legacy_v v_raw =
     (if v_raw = 27 \<or> v_raw = 28 then Some (0, ucast (v_raw - 27))
      else if v_raw \<ge> 35
      then let cid = (v_raw - 35) div 2; yp = ucast (v_raw - cid * 2 - 35) in Some (cid, yp)
      else None)"

definition rlp_legacy :: "rlp_header \<Rightarrow> u8 list \<Rightarrow> Transaction option" where
  "rlp_legacy hdr payload =
     Option.bind (open_list hdr payload) (\<lambda>buf.
     Option.bind (next_uint hdr buf) (\<lambda>(n, buf).
     Option.bind (next_u256 hdr buf) (\<lambda>(gp, buf).
     Option.bind (next_uint hdr buf) (\<lambda>(gl, buf).
     Option.bind (next_address hdr buf) (\<lambda>(dest, buf).
     Option.bind (next_u256 hdr buf) (\<lambda>(val, buf).
     Option.bind (next_bytes hdr buf) (\<lambda>(dat, buf).
     Option.bind (next_uint hdr buf) (\<lambda>(v_raw, buf).
     Option.bind (next_sig_scalar hdr buf) (\<lambda>(r, buf).
     Option.bind (next_sig_scalar hdr buf) (\<lambda>(s, buf).
     Option.bind (legacy_v v_raw) (\<lambda>(cid, y).
     Some \<lparr>tx_type = Legacy, chain_id = cid, nonce = n, tx_to = dest, tx_value = val,
       tx_data = dat, gas_limit = gl, gas_price = gp, max_priority_fee = None,
       access_list = [], zkp_proof = None, iso_data = None,
       signature = Some \<lparr>sig_r = r, sig_s = s, sig_v = y + 27\<rparr>\<rparr>)))))))))))"

definition from_rlp_bytes :: "rlp_header \<Rightarrow> u8 list \<Rightarrow> Transaction option" where
  "from_rlp_bytes hdr raw =
     (case raw of [] \<Rightarrow> None
      | b # rest \<Rightarrow>
        if b = 0x02 then eip1559 hdr rest
        else if b = 0x01 then eip2930 hdr rest
        else if b \<ge> 0xc0 then rlp_legacy hdr raw
        else None)"

section \<open>Reference encodings of raw transactions\<close>

text \<open>
  The wire formats of Ethereum transactions, written from their specification with the reference
  RLP encoder. \<open>header_ok\<close> is what the decoder relies on in \<^verbatim>\<open>alloy_rlp\<close>: the canonical header of
  a list, or of a string that is not its own encoding, is decoded to its payload length.
\<close>

definition header_ok :: "rlp_header \<Rightarrow> bool" where
  "header_ok hdr \<longleftrightarrow>
     (\<forall>p rest. length p < 2 ^ 64 \<longrightarrow>
        hdr (rlp_length 0xC0 (length p) @ p @ rest) = Some (True, length p, p @ rest)
        \<and> (\<not> (length p = 1 \<and> hd p < 0x80) \<longrightarrow>
            hdr (rlp_length 0x80 (length p) @ p @ rest) = Some (False, length p, p @ rest)))"

definition ref_header :: rlp_header where
  "ref_header buf =
     (case buf of [] \<Rightarrow> None
      | b # rest \<Rightarrow>
        if b < 0x80 then Some (False, 1, buf)
        else if b < 0xB8 then Some (False, unat b - 0x80, rest)
        else if b < 0xC0
        then Some (False, be_val (take (unat b - 0xB7) rest), drop (unat b - 0xB7) rest)
        else if b < 0xF8 then Some (True, unat b - 0xC0, rest)
        else Some (True, be_val (take (unat b - 0xF7) rest), drop (unat b - 0xF7) rest))"

definition rlp_uint :: "nat \<Rightarrow> u8 list" where
  "rlp_uint n = rlp_string (minimal_be n)"

definition rlp_to :: "Address option \<Rightarrow> u8 list" where
  "rlp_to dest = rlp_string (case dest of None \<Rightarrow> [] | Some a \<Rightarrow> addr_bytes a)"

definition wire_1559 :: "Transaction \<Rightarrow> U256 \<Rightarrow> u8 list list \<Rightarrow> u8 \<Rightarrow> B32 \<Rightarrow> B32 \<Rightarrow> u8 list" where
  "wire_1559 t prio entries y r s =
     0x02 # rlp_list
       [rlp_uint (unat (chain_id t)), rlp_uint (unat (nonce t)), rlp_uint (u256_val prio),
        rlp_uint (u256_val (gas_price t)), rlp_uint (unat (gas_limit t)), rlp_to (tx_to t),
        rlp_uint (u256_val (tx_value t)), rlp_string (tx_data t), rlp_list entries,
        rlp_uint (unat y), rlp_uint (unat r), rlp_uint (unat s)]"

definition wire_2930 :: "Transaction \<Rightarrow> u8 list list \<Rightarrow> u8 \<Rightarrow> B32 \<Rightarrow> B32 \<Rightarrow> u8 list" where
  "wire_2930 t entries y r s =
     0x01 # rlp_list
       [rlp_uint (unat (chain_id t)), rlp_uint (unat (nonce t)), rlp_uint (u256_val (gas_price t)),
        rlp_uint (unat (gas_limit t)), rlp_to (tx_to t), rlp_uint (u256_val (tx_value t)),
        rlp_string (tx_data t), rlp_list entries,
        rlp_uint (unat y), rlp_uint (unat r), rlp_uint (unat s)]"

text \<open>EIP-155: \<open>v = 2 * chain_id + 35 + y_parity\<close>; before it, \<open>v = 27 + y_parity\<close>.\<close>

definition wire_legacy :: "Transaction \<Rightarrow> nat \<Rightarrow> B32 \<Rightarrow> B32 \<Rightarrow> u8 list" where
  "wire_legacy t v r s =
     rlp_list
       [rlp_uint (unat (nonce t)), rlp_uint (u256_val (gas_price t)), rlp_uint (unat (gas_limit t)),
        rlp_to (tx_to t), rlp_uint (u256_val (tx_value t)), rlp_string (tx_data t),
        rlp_uint v, rlp_uint (unat r), rlp_uint (unat s)]"

section \<open>Lemmas: the signed encoding\<close>

lemma tx_type_byte_inject [simp]: "tx_type_byte a = tx_type_byte b \<longleftrightarrow> a = b"
  by (cases a; cases b) simp_all

lemma to_field_inject:
  "(case a of Some x \<Rightarrow> (1::u8) # addr_bytes x | None \<Rightarrow> [0]) @ us
     = (case b of Some x \<Rightarrow> 1 # addr_bytes x | None \<Rightarrow> [0]) @ vs \<longleftrightarrow> a = b \<and> us = vs"
  by (cases a; cases b) auto

section \<open>Lemmas: decoding\<close>

lemma rlp_length_head:
  assumes "off \<le> 0xC0" "0x80 \<le> off" "n < 2 ^ 64"
  obtains b bs where "rlp_length off n = b # bs" "off \<le> unat b"
proof (cases "n < 56")
  case True
  then have "unat (of_nat (off + n) :: u8) = off + n" using assms by (simp add: unat_of_nat del: of_nat_add)
  with True that show ?thesis by (simp add: rlp_length_def del: of_nat_add)
next
  case False
  have "length (minimal_be n) \<le> 8" using assms(3) by (rule minimal_be_length_bound)
  then have "unat (of_nat (off + 55 + length (minimal_be n)) :: u8) = off + 55 + length (minimal_be n)"
    using assms by (simp add: unat_of_nat del: of_nat_add)
  with False that show ?thesis by (simp add: rlp_length_def Let_def del: of_nat_add)
qed

lemma next_bytes_rlp_string [simp]:
  assumes "header_ok hdr" "length s < 2 ^ 64"
  shows "next_bytes hdr (rlp_string s @ rest) = Some (s, rest)"
proof (cases "length s = 1 \<and> hd s < 0x80")
  case True
  then obtain b where "s = [b]" by (cases s) auto
  with True show ?thesis by (simp add: rlp_string_def next_bytes_def)
next
  case False
  obtain b bs where b: "rlp_length 0x80 (length s) = b # bs" "0x80 \<le> unat b"
    using rlp_length_head [of "0x80" "length s"] assms(2) by auto
  then have "\<not> b < 0x80" by (simp add: word_less_nat_alt)
  moreover have "hdr ((b # bs) @ s @ rest) = Some (False, length s, s @ rest)"
    using assms False unfolding header_ok_def b(1) [symmetric] by blast
  ultimately show ?thesis
    using b False by (auto simp: rlp_string_def next_bytes_def)
qed

lemma be_val_minimal_be [simp]: "be_val (minimal_be n) = n"
proof (induction n rule: minimal_be.induct)
  case (1 n)
  have snoc: "be_val (xs @ [b]) = be_val xs * 256 + unat b" for xs and b :: u8
    by (simp add: be_val_def)
  show ?case
    using 1 by (subst minimal_be.simps) (simp add: snoc be_val_def unat_byte_of_nat del: of_nat_mod)
qed

lemma shift_or_byte: "push_bit 8 v OR ucast (b::u8) = (v * 256 + ucast b :: u64)"
proof -
  have "push_bit 8 v AND ucast b = (0::u64)"
    by (rule bit_eqI) (auto simp: bit_simps dest: bit_imp_le_length)
  then have "push_bit 8 v OR ucast b = push_bit 8 v + (ucast b :: u64)"
    by (rule disjunctive_add_eq_or [symmetric])
  then show ?thesis by (simp add: push_bit_eq_mult)
qed

lemma foldl_shift_be_val: "foldl (\<lambda>v b. push_bit 8 v OR ucast b) (0::u64) bs = of_nat (be_val bs)"
proof (induction bs rule: rev_induct)
  case Nil
  then show ?case by (simp add: be_val_def)
next
  case (snoc b bs)
  have "be_val (bs @ [b]) = be_val bs * 256 + unat b" by (simp add: be_val_def)
  with snoc show ?case by (simp add: shift_or_byte)
qed

lemma next_uint_rlp [simp]:
  "header_ok hdr \<Longrightarrow> n < 2 ^ 64 \<Longrightarrow> next_uint hdr (rlp_uint n @ rest) = Some (of_nat n, rest)"
  using minimal_be_length_bound [of n]
  by (simp add: next_uint_def rlp_uint_def foldl_shift_be_val)

lemma pad_minimal_be:
  "n < 256 ^ 32 \<Longrightarrow>
     copy_into (32 - length (minimal_be n)) (minimal_be n) (replicate 32 0) = be_bytes 32 n"
  using minimal_be_length_le [of n 32] by (simp add: copy_into_def be_bytes_split)

lemma next_u256_rlp [simp]:
  assumes "header_ok hdr"
  shows "next_u256 hdr (rlp_uint (u256_val x) @ rest) = Some (x, rest)"
proof -
  have b: "u256_val x < 256 ^ 32" using u256_val_bound [of x] by simp
  have "be_bytes 32 (u256_val x) = to_be_bytes x"
    using be_bytes_be_val [of "to_be_bytes x" 32] by (simp add: be_val_to_be_bytes)
  with b minimal_be_length_le [OF b] assms show ?thesis
    by (simp add: next_u256_def rlp_uint_def pad_minimal_be)
qed

lemma next_sig_scalar_rlp [simp]:
  assumes "header_ok hdr"
  shows "next_sig_scalar hdr (rlp_uint (unat w) @ rest) = Some (w, rest)"
proof -
  have b: "unat w < 256 ^ 32" using unat_lt2p [of w] by simp
  have "Hash_new (be_bytes 32 (unat w)) = w" by (metis Hash_new_as_bytes as_bytes_def)
  with b minimal_be_length_le [OF b] assms show ?thesis
    by (simp add: next_sig_scalar_def rlp_uint_def pad_minimal_be)
qed

lemma Address_new_addr_bytes [simp]: "Address_new (addr_bytes a) = a"
  using unat_lt2p [of a] by (simp add: Address_new_def addr_bytes_def be_val_be_bytes)

lemma addr_bytes_not_Nil [simp]: "addr_bytes a \<noteq> []"
  using length_addr_bytes [of a] by (metis list.size(3) zero_neq_numeral)

lemma next_address_rlp [simp]:
  "header_ok hdr \<Longrightarrow> next_address hdr (rlp_to dest @ rest) = Some (dest, rest)"
  by (cases dest) (simp_all add: next_address_def rlp_to_def)

lemma list_header_rlp:
  assumes "header_ok hdr" "length (concat items) < 2 ^ 64"
  shows "hdr (rlp_list items @ rest) = Some (True, length (concat items), concat items @ rest)"
  using assms unfolding header_ok_def rlp_list_def Let_def append_assoc by blast

lemma skip_list_rlp [simp]:
  "header_ok hdr \<Longrightarrow> length (concat items) < 2 ^ 64 \<Longrightarrow>
     skip_list hdr (rlp_list items @ rest) = Some rest"
  by (simp add: skip_list_def list_header_rlp del: concat.simps)

lemma open_list_rlp [simp]:
  "header_ok hdr \<Longrightarrow> length (concat items) < 2 ^ 64 \<Longrightarrow>
     open_list hdr (rlp_list items) = Some (concat items)"
  using list_header_rlp [of hdr items "[]"] by (simp add: open_list_def del: concat.simps)

lemma length_rlp_string_ge: "length bs \<le> length (rlp_string bs)"
  by (simp add: rlp_string_def)

lemma length_concat_rlp_list: "length (concat items) \<le> length (rlp_list items)"
  by (simp add: rlp_list_def Let_def)

lemma length_rlp_length: "n < 2 ^ 64 \<Longrightarrow> length (rlp_length off n) \<le> 9"
  using minimal_be_length_bound [of n] by (simp add: rlp_length_def Let_def)

lemma length_rlp_string: "length bs < 2 ^ 64 \<Longrightarrow> length (rlp_string bs) \<le> length bs + 9"
  using length_rlp_length [of "length bs" "0x80"] by (simp add: rlp_string_def)

lemma length_rlp_list:
  "length (concat items) < 2 ^ 64 \<Longrightarrow> length (rlp_list items) \<le> length (concat items) + 9"
  using length_rlp_length [of "length (concat items)" "0xC0"] by (simp add: rlp_list_def Let_def)

lemma length_rlp_uint: "n < 256 ^ 32 \<Longrightarrow> length (rlp_uint n) \<le> 41"
  using minimal_be_length_le [of n 32] length_rlp_string [of "minimal_be n"] by (simp add: rlp_uint_def)

lemma length_rlp_fields:
  "length (rlp_uint (unat (a::u64))) \<le> 41" "length (rlp_uint (unat (b::u8))) \<le> 41"
  "length (rlp_uint (unat (w::B32))) \<le> 41" "length (rlp_uint (u256_val x)) \<le> 41"
  using unat_lt2p [of a] unat_lt2p [of b] unat_lt2p [of w] u256_val_bound [of x]
  by (simp_all add: length_rlp_uint)

lemma length_rlp_to: "length (rlp_to dest) \<le> 41"
  using length_rlp_string [of "[]"] length_rlp_string [of "addr_bytes (the dest)"]
  by (cases dest) (simp_all add: rlp_to_def)

text \<open>The list body of every wire format is shorter than \<open>2 ^ 64\<close> when its payloads are.\<close>

lemma wire_body_bound:
  fixes a b c :: u64 and y :: u8 and r s :: B32
  assumes "length dat + length (concat entries) < 2 ^ 63" and "n < 2 ^ 64"
  shows "length (concat [rlp_uint (unat a), rlp_uint (unat b), rlp_uint (u256_val p),
      rlp_uint (u256_val q), rlp_uint (unat c), rlp_to dest, rlp_uint (u256_val v),
      rlp_string dat, rlp_list entries, rlp_uint n, rlp_uint (unat r), rlp_uint (unat s)]) < 2 ^ 64"
proof -
  have "length (rlp_string dat) \<le> length dat + 9"
    and "length (rlp_list entries) \<le> length (concat entries) + 9"
    using assms(1) by (auto intro: length_rlp_string length_rlp_list)
  moreover have "length (rlp_uint n) \<le> 41" using assms(2) by (intro length_rlp_uint) simp
  ultimately show ?thesis
    using assms(1) length_rlp_fields(1) [of a] length_rlp_fields(1) [of b] length_rlp_fields(1) [of c]
      length_rlp_fields(3) [of r] length_rlp_fields(3) [of s]
      length_rlp_fields(4) [of p] length_rlp_fields(4) [of q] length_rlp_fields(4) [of v]
      length_rlp_to [of dest]
    by simp
qed

lemma unat_u64_bound: "unat (x::u64) < 2 ^ 64" "unat (y::u8) < 2 ^ 64"
  using unat_lt2p [of x] unat_lt2p [of y] by simp_all

lemma ucast_u8_u64_u8 [simp]: "ucast (ucast (y::u8) :: u64) = y"
  by (rule bit_word_eqI) (simp add: bit_simps)

lemma next_sig_scalar_last [simp]:
  "header_ok hdr \<Longrightarrow> next_sig_scalar hdr (rlp_uint (unat w)) = Some (w, [])"
  using next_sig_scalar_rlp [of hdr w "[]"] by simp

lemma ref_header_long:
  assumes "off = 0x80 \<or> off = 0xC0" "\<not> n < 56" "n < 2 ^ 64"
  shows "ref_header (rlp_length off n @ xs) = Some (off = 0xC0, n, xs)"
proof -
  let ?m = "minimal_be n"
  have "length ?m \<le> 8" using assms(3) by (rule minimal_be_length_bound)
  moreover have "?m \<noteq> []" using assms(2) by (simp add: minimal_be_Nil_iff)
  ultimately have l: "0 < length ?m" "length ?m \<le> 8" by simp_all
  then have "unat (of_nat (off + 55 + length ?m) :: u8) = off + 55 + length ?m"
    using assms(1) by (auto simp: unat_of_nat simp del: of_nat_add)
  with assms(1,2) l show ?thesis
    by (auto simp: ref_header_def rlp_length_def word_less_nat_alt Let_def simp del: of_nat_add)
qed

lemma ref_header_short:
  assumes "off = 0x80 \<or> off = 0xC0" "n < 56"
  shows "ref_header (rlp_length off n @ xs) = Some (off = 0xC0, n, xs)"
proof -
  have "unat (of_nat (off + n) :: u8) = off + n"
    using assms by (auto simp: unat_of_nat simp del: of_nat_add)
  with assms show ?thesis
    by (auto simp: ref_header_def rlp_length_def word_less_nat_alt simp del: of_nat_add)
qed

lemma ref_header_ok: "header_ok ref_header"
  unfolding header_ok_def
proof (intro allI impI conjI)
  fix p rest :: "u8 list"
  assume "length p < 2 ^ 64"
  then show "ref_header (rlp_length 0xC0 (length p) @ p @ rest) = Some (True, length p, p @ rest)"
    and "ref_header (rlp_length 0x80 (length p) @ p @ rest) = Some (False, length p, p @ rest)"
    by (cases "length p < 56"; simp add: ref_header_short ref_header_long)+
qed

lemma legacy_v_pre155: "legacy_v 27 = Some (0, 0)" "legacy_v 28 = Some (0, 1)"
  by (simp_all add: legacy_v_def)

lemma legacy_v_eip155:
  assumes "y = 0 \<or> y = (1::nat)" "2 * c + 35 + y < 2 ^ 64"
  shows "legacy_v (of_nat (2 * c + 35 + y)) = Some (of_nat c, of_nat y)"
proof -
  let ?v = "of_nat (2 * c + 35 + y) :: u64"
  have v: "unat ?v = 2 * c + 35 + y" using assms(2) by (simp add: unat_of_nat del: of_nat_add)
  have g: "35 \<le> ?v" by (simp add: word_le_nat_alt v del: of_nat_add)
  have "unat (?v - 35) = 2 * c + y" using g v by (simp add: unat_sub del: of_nat_add)
  then have d: "(?v - 35) div 2 = of_nat c"
    using assms by (intro word_unat_eq_iff [THEN iffD2])
      (auto simp: unat_div unat_of_nat simp del: of_nat_add)
  have "?v \<noteq> 27" "?v \<noteq> 28" using v by (auto simp del: of_nat_add)
  with g have "legacy_v ?v = Some ((?v - 35) div 2, ucast (?v - (?v - 35) div 2 * 2 - 35))"
    by (simp add: legacy_v_def Let_def del: of_nat_add)
  also have "?v - (?v - 35) div 2 * 2 - 35 = of_nat y" unfolding d by simp
  finally show ?thesis using assms(1) unfolding d by auto
qed

section \<open>Lemmas: gas\<close>

fun base_gas :: "TxType \<Rightarrow> nat" where
  "base_gas Private = 100000"
| "base_gas IsoPayment = 50000"
| "base_gas System = 0"
| "base_gas _ = 21000"

lemma data_gas_nat:
  fixes ds :: "u8 list"
  assumes "length ds \<le> 131072"
  shows "unat (sum_list (map (\<lambda>b. if b = 0 then 4 else 16) ds) :: u64)
    = 4 * count_list ds 0 + 16 * (length ds - count_list ds 0)"
  using assms
proof (induction ds)
  case Nil
  then show ?case by simp
next
  case (Cons d ds)
  then have IH: "unat (sum_list (map (\<lambda>b. if b = 0 then 4 else 16) ds) :: u64)
    = 4 * count_list ds 0 + 16 * (length ds - count_list ds 0)" by simp
  have "count_list ds 0 \<le> length ds" by (rule count_le_length)
  moreover from this have "4 * count_list ds 0 + 16 * (length ds - count_list ds 0) \<le> 16 * length ds"
    by simp
  then have "unat (if d = 0 then 4 else 16 :: u64)
      + unat (sum_list (map (\<lambda>b. if b = 0 then 4 else 16) ds) :: u64) < 2 ^ 64"
    using IH Cons.prems by auto
  ultimately show ?case using IH by (auto simp: unat_add_no_overflow Suc_diff_le)
qed

lemma intrinsic_gas_nat:
  assumes "length (tx_data t) \<le> 131072"
  shows "unat (tx_intrinsic_gas t) = base_gas (tx_type t) + 4 * count_list (tx_data t) 0
         + 16 * (length (tx_data t) - count_list (tx_data t) 0)
         + (if tx_to t = None then 32000 else 0)"
proof -
  let ?d = "sum_list (map (\<lambda>b. if b = 0 then 4 else 16) (tx_data t)) :: u64"
  have "count_list (tx_data t) 0 \<le> length (tx_data t)" by (rule count_le_length)
  with data_gas_nat [OF assms] assms have "unat ?d \<le> 16 * 131072" by simp
  then have add: "unat (b + ?d + c) = unat b + unat ?d + unat c" if "b \<le> 100000" "c \<le> 32000" for b c
    using that by (simp add: unat_add_no_overflow word_le_nat_alt)
  show ?thesis
    using add add [of 0 32000] data_gas_nat [OF assms]
    by (cases "tx_type t") (auto simp: tx_intrinsic_gas_def Let_def)
qed

section \<open>Properties\<close>

text \<open>
  Decoding an EIP-1559 raw transaction returns the transaction that was encoded: every
  field, the fee pair and the signature with \<open>v = y_parity + 27\<close>. The access list is read over and
  dropped, so the result carries an empty one whatever the wire carried.
\<close>

theorem decode_eip1559_roundtrip:
  assumes "header_ok hdr" and "length (tx_data t) + length (concat entries) < 2 ^ 63"
  shows "from_rlp_bytes hdr (wire_1559 t prio entries y r s)
    = Some ((new_dynamic_fee (chain_id t) (nonce t) (tx_to t) (tx_value t) (tx_data t)
              (gas_limit t) (gas_price t) prio)
            \<lparr>signature := Some \<lparr>sig_r = r, sig_s = s, sig_v = y + 27\<rparr>\<rparr>)"
  using assms wire_body_bound [OF assms(2) unat_u64_bound(2)] unat_u64_bound
  unfolding wire_1559_def from_rlp_bytes_def list.case eip1559_def
  by (simp add: new_dynamic_fee_def)

text \<open>A transfer, to instantiate the properties of this theory.\<close>

definition demo_tx :: Transaction where
  "demo_tx = new_legacy 1 5 (Some 0xB0B) (from_u64 700) [1, 0, 0xFF] 30000 (from_u64 1000000000)"

theorem decode_eip1559_roundtrip_witness:
  "from_rlp_bytes ref_header (wire_1559 demo_tx (from_u64 2) [] 1 77 88)
    = Some ((new_dynamic_fee 1 5 (Some 0xB0B) (from_u64 700) [1, 0, 0xFF] 30000
              (from_u64 1000000000) (from_u64 2))
            \<lparr>signature := Some \<lparr>sig_r = 77, sig_s = 88, sig_v = 28\<rparr>\<rparr>)"
  using decode_eip1559_roundtrip [OF ref_header_ok, of demo_tx "[]" "from_u64 2" 1 77 88]
  by (simp add: demo_tx_def new_legacy_def)

text \<open>
  The two older wire formats decode to what was encoded: an EIP-2930 transaction with its
  access list dropped, and a legacy transaction, whose chain identifier comes out of
  \<open>v = 2 * chain_id + 35 + y_parity\<close>.
\<close>

theorem decode_eip2930_legacy_roundtrip:
  assumes ok: "header_ok hdr" and len: "length (tx_data t) + length (concat entries) < 2 ^ 63"
    and v: "v = 2 * unat (chain_id t) + 35 + yp" "v < 2 ^ 64" "yp = 0 \<or> yp = 1"
  shows "from_rlp_bytes hdr (wire_2930 t entries y r s)
      = Some ((new_legacy (chain_id t) (nonce t) (tx_to t) (tx_value t) (tx_data t) (gas_limit t)
                (gas_price t))
              \<lparr>tx_type := AccessList, signature := Some \<lparr>sig_r = r, sig_s = s, sig_v = y + 27\<rparr>\<rparr>)
    \<and> from_rlp_bytes hdr (wire_legacy t v r s)
      = Some ((new_legacy (chain_id t) (nonce t) (tx_to t) (tx_value t) (tx_data t) (gas_limit t)
                (gas_price t))
              \<lparr>signature := Some \<lparr>sig_r = r, sig_s = s, sig_v = of_nat yp + 27\<rparr>\<rparr>)"
proof (rule conjI)
  let ?items = "[rlp_uint (unat (chain_id t)), rlp_uint (unat (nonce t)),
    rlp_uint (u256_val (gas_price t)), rlp_uint (unat (gas_limit t)), rlp_to (tx_to t),
    rlp_uint (u256_val (tx_value t)), rlp_string (tx_data t), rlp_list entries,
    rlp_uint (unat y), rlp_uint (unat r), rlp_uint (unat s)]"
  have "length (concat ?items) < 2 ^ 64"
    using wire_body_bound [OF len unat_u64_bound(2), of "chain_id t" "nonce t" ZERO "gas_price t"
        "gas_limit t" "tx_to t" "tx_value t" y r s] by simp
  with ok have op: "open_list hdr (rlp_list ?items) = Some (concat ?items)" by (rule open_list_rlp)
  show "from_rlp_bytes hdr (wire_2930 t entries y r s)
      = Some ((new_legacy (chain_id t) (nonce t) (tx_to t) (tx_value t) (tx_data t) (gas_limit t)
                (gas_price t))
              \<lparr>tx_type := AccessList, signature := Some \<lparr>sig_r = r, sig_s = s, sig_v = y + 27\<rparr>\<rparr>)"
    unfolding wire_2930_def from_rlp_bytes_def list.case eip2930_def op
    using ok len unat_u64_bound by (simp add: new_legacy_def)
next
  let ?items = "[rlp_uint (unat (nonce t)), rlp_uint (u256_val (gas_price t)),
    rlp_uint (unat (gas_limit t)), rlp_to (tx_to t), rlp_uint (u256_val (tx_value t)),
    rlp_string (tx_data t), rlp_uint v, rlp_uint (unat r), rlp_uint (unat s)]"
  have body: "length (concat ?items) < 2 ^ 64"
    using wire_body_bound [OF len v(2), of 0 "nonce t" ZERO "gas_price t" "gas_limit t" "tx_to t"
        "tx_value t" r s] by simp
  obtain b bs where b: "rlp_length 0xC0 (length (concat ?items)) = b # bs" "0xC0 \<le> unat b"
    using rlp_length_head [of "0xC0"] body by auto
  have head: "from_rlp_bytes hdr (wire_legacy t v r s) = rlp_legacy hdr (wire_legacy t v r s)"
    using b unfolding wire_legacy_def rlp_list_def Let_def
    by (auto simp: from_rlp_bytes_def word_le_nat_alt)
  have lv: "legacy_v (of_nat v) = Some (chain_id t, of_nat yp)"
    unfolding v(1) using legacy_v_eip155 [OF v(3), of "unat (chain_id t)"] v(1,2) by simp
  have op: "open_list hdr (rlp_list ?items) = Some (concat ?items)"
    using ok body by (rule open_list_rlp)
  show "from_rlp_bytes hdr (wire_legacy t v r s)
      = Some ((new_legacy (chain_id t) (nonce t) (tx_to t) (tx_value t) (tx_data t) (gas_limit t)
                (gas_price t))
              \<lparr>signature := Some \<lparr>sig_r = r, sig_s = s, sig_v = of_nat yp + 27\<rparr>\<rparr>)"
    unfolding head unfolding wire_legacy_def rlp_legacy_def op
    using ok len v(2) unat_u64_bound lv by (simp add: new_legacy_def)
qed

theorem decode_eip2930_legacy_roundtrip_witness:
  "from_rlp_bytes ref_header (wire_2930 demo_tx [] 0 77 88)
      = Some (demo_tx\<lparr>tx_type := AccessList,
                signature := Some \<lparr>sig_r = 77, sig_s = 88, sig_v = 27\<rparr>\<rparr>)
    \<and> from_rlp_bytes ref_header (wire_legacy demo_tx 38 77 88)
      = Some (demo_tx\<lparr>signature := Some \<lparr>sig_r = 77, sig_s = 88, sig_v = 28\<rparr>\<rparr>)"
  using decode_eip2930_legacy_roundtrip
    [OF ref_header_ok, where t = demo_tx and entries = "[]" and v = 38 and yp = 1 and y = 0
      and r = 77 and s = 88]
  by (simp add: demo_tx_def new_legacy_def)

text \<open>
  The bytes that are signed are equal exactly when the type, chain, nonce, gas limit, gas
  price, recipient, value and data are: the fixed-width fields and the length prefix leave no
  ambiguity.
\<close>

theorem encode_for_signing_injective:
  "encode_for_signing t = encode_for_signing u \<longleftrightarrow>
     tx_type t = tx_type u \<and> chain_id t = chain_id u \<and> nonce t = nonce u
     \<and> gas_limit t = gas_limit u \<and> gas_price t = gas_price u \<and> tx_to t = tx_to u
     \<and> tx_value t = tx_value u \<and> tx_data t = tx_data u"
  by (auto simp: encode_for_signing_def to_field_inject)

text \<open>
  The fields the encoding leaves out do not bind: two transactions that differ only in the
  priority fee, the access list, the zero-knowledge proof or the ISO 20022 payload have the same
  signing hash, the same identifier and the same recovered sender.
\<close>

theorem payload_not_bound_by_hash:
  "signing_hash lib (t\<lparr>max_priority_fee := p, access_list := al, zkp_proof := z, iso_data := i\<rparr>)
      = signing_hash lib t
    \<and> tx_hash lib (t\<lparr>max_priority_fee := p, access_list := al, zkp_proof := z, iso_data := i\<rparr>)
      = tx_hash lib t
    \<and> recover_sender lib (t\<lparr>max_priority_fee := p, access_list := al, zkp_proof := z, iso_data := i\<rparr>)
      = recover_sender lib t"
  by (simp add: signing_hash_def tx_hash_def tx_encode_def encode_for_signing_def recover_sender_def
      split: option.split)

text \<open>
  Validation accepts a transaction exactly when its data is at most 128 KiB, its gas limit
  covers the intrinsic gas counted without wrap-around (base by type, 4 per zero byte, 16 per
  other byte, 32000 for a creation), and a private or ISO transaction carries its payload.
\<close>

theorem tx_validate_iff:
  "tx_validate t = Inr () \<longleftrightarrow>
     length (tx_data t) \<le> 131072
     \<and> base_gas (tx_type t) + 4 * count_list (tx_data t) 0
         + 16 * (length (tx_data t) - count_list (tx_data t) 0)
         + (if tx_to t = None then 32000 else 0) \<le> unat (gas_limit t)
     \<and> (tx_type t = Private \<longrightarrow> zkp_proof t \<noteq> None)
     \<and> (tx_type t = IsoPayment \<longrightarrow> iso_data t \<noteq> None)"
proof (cases "length (tx_data t) \<le> 131072")
  case True
  have "tx_validate t = Inr () \<longleftrightarrow> \<not> gas_limit t < tx_intrinsic_gas t
     \<and> (tx_type t = Private \<longrightarrow> zkp_proof t \<noteq> None)
     \<and> (tx_type t = IsoPayment \<longrightarrow> iso_data t \<noteq> None)"
    using True by (cases "tx_type t") (auto simp: tx_validate_def MAX_TX_SIZE_def)
  then show ?thesis
    using True intrinsic_gas_nat [OF True] by (simp add: word_less_nat_alt not_less)
next
  case False
  then show ?thesis by (auto simp: tx_validate_def MAX_TX_SIZE_def)
qed

theorem tx_validate_iff_witness: "tx_validate demo_tx = Inr ()"
  by (subst tx_validate_iff) (simp add: demo_tx_def new_legacy_def)

end
