(* ===== verification/Validator.thy ===== *)
theory Validator
  imports Address
begin

text \<open>
  Validators, \<^verbatim>\<open>src/crates/nexus-consensus/src/validator.rs\<close>: the validator record, the validator
  set of an epoch with its stake accounting and its two thresholds, the signing keys, and the
  registry that queues changes and applies them at the end of an epoch. Stakes are 64-bit words,
  so every sum and product of the code wraps; the lemmas say when it does not.
\<close>

section \<open>Errors\<close>

text \<open>The address in \<open>UnknownValidator\<close> stands for its formatted form.\<close>

datatype ConsensusError =
    CE_InvalidSignature
  | CE_UnknownValidator Address
  | CE_InsufficientStake u64 u64
  | CE_InvalidProposal string
  | CE_DuplicateVote
  | CE_InvalidVote string
  | CE_NotReached
  | CE_SlashingCondition string
  | CE_EpochMismatch u64 u64
  | CE_NotLeader

type_synonym 'a ConsensusResult = "ConsensusError + 'a"

section \<open>The validator set\<close>

record Validator =
  v_address :: Address
  v_pubkey :: "u8 list"
  v_stake :: u64
  v_commission :: u16
  v_active :: bool
  v_jailed_until :: u64
  v_slash_count :: u32
  v_uptime :: u16
  v_last_active_epoch :: u64

definition Validator_new :: "Address \<Rightarrow> u8 list \<Rightarrow> u64 \<Rightarrow> Validator" where
  "Validator_new a pk s =
     \<lparr>v_address = a, v_pubkey = pk, v_stake = s, v_commission = 500, v_active = True,
      v_jailed_until = 0, v_slash_count = 0, v_uptime = 10000, v_last_active_epoch = 0\<rparr>"

definition is_eligible :: "Validator \<Rightarrow> u64 \<Rightarrow> bool" where
  "is_eligible v current_epoch \<longleftrightarrow>
     v_active v \<and> v_jailed_until v \<le> current_epoch \<and> v_stake v > 0"

definition voting_power :: "Validator \<Rightarrow> u64" where
  "voting_power v = v_stake v"

record ValidatorSet =
  vs_epoch :: u64
  vs_validators :: "(Address, Validator) hmap"
  vs_total_stake :: u64
  vs_min_stake :: u64
  vs_max_validators :: nat

definition ValidatorSet_new :: "u64 \<Rightarrow> ValidatorSet" where
  "ValidatorSet_new e =
     \<lparr>vs_epoch = e, vs_validators = [], vs_total_stake = 0, vs_min_stake = 10000000000,
      vs_max_validators = 100\<rparr>"

definition add_validator :: "Validator \<Rightarrow> ValidatorSet \<Rightarrow> ValidatorSet \<times> unit ConsensusResult" where
  "add_validator v vs =
     (if v_stake v < vs_min_stake vs
      then (vs, Inl (CE_InsufficientStake (vs_min_stake vs) (v_stake v)))
      else (vs\<lparr>vs_total_stake := vs_total_stake vs + v_stake v,
               vs_validators := hput (v_address v) v (vs_validators vs)\<rparr>, Inr ()))"

definition remove_validator :: "Address \<Rightarrow> ValidatorSet \<Rightarrow> ValidatorSet \<times> Validator option" where
  "remove_validator a vs =
     (case hget (vs_validators vs) a of
        Some v \<Rightarrow> (vs\<lparr>vs_validators := hdel a (vs_validators vs),
                      vs_total_stake := vs_total_stake vs - v_stake v\<rparr>, Some v)
      | None \<Rightarrow> (vs, None))"

definition vs_get :: "ValidatorSet \<Rightarrow> Address \<Rightarrow> Validator option" where
  "vs_get vs a = hget (vs_validators vs) a"

definition active_validators :: "ValidatorSet \<Rightarrow> Validator list" where
  "active_validators vs = filter (\<lambda>v. is_eligible v (vs_epoch vs)) (hvalues (vs_validators vs))"

definition active_stake :: "ValidatorSet \<Rightarrow> u64" where
  "active_stake vs = sum_list (map v_stake (active_validators vs))"

definition has_supermajority :: "ValidatorSet \<Rightarrow> u64 \<Rightarrow> bool" where
  "has_supermajority vs s \<longleftrightarrow> s * 3 > active_stake vs * 2"

definition has_quorum :: "ValidatorSet \<Rightarrow> u64 \<Rightarrow> bool" where
  "has_quorum vs s \<longleftrightarrow> s * 3 > active_stake vs"

section \<open>Keys\<close>

text \<open>
  \<^verbatim>\<open>k256::ecdsa::SigningKey\<close> is third-party: parsing a secret key, the encoding of its public
  point (compressed or not) and signing are the fields of \<open>key_lib\<close>. The key drawn by \<open>generate\<close>
  is the argument of \<open>keys_of\<close>. The conversion of a slice into the array a secret key is read from panics
  unless it has 32 bytes.
\<close>

record 'k key_lib =
  sk_from_bytes :: "u8 list \<Rightarrow> 'k option"
  sk_point :: "'k \<Rightarrow> bool \<Rightarrow> u8 list"
  sk_sign :: "'k \<Rightarrow> u8 list \<Rightarrow> u8 list"

record 'k ValidatorKeys =
  signing_key :: 'k
  key_address :: Address

definition derive_address :: "crypto_lib \<Rightarrow> 'k key_lib \<Rightarrow> 'k \<Rightarrow> Address run" where
  "derive_address lib kl k =
     (let pubkey = sk_point kl k False
      in if pubkey = [] then Panic
         else unwrap (Address_from_slice (drop 12 (keccak256 lib (drop 1 pubkey)))))"

definition keys_of :: "crypto_lib \<Rightarrow> 'k key_lib \<Rightarrow> 'k \<Rightarrow> 'k ValidatorKeys run" where
  "keys_of lib kl k =
     run_bind (derive_address lib kl k) (\<lambda>a. Ret \<lparr>signing_key = k, key_address = a\<rparr>)"

definition keys_from_bytes ::
    "crypto_lib \<Rightarrow> 'k key_lib \<Rightarrow> u8 list \<Rightarrow> 'k ValidatorKeys ConsensusResult run" where
  "keys_from_bytes lib kl bytes =
     (if length bytes \<noteq> 32 then Panic
      else case sk_from_bytes kl bytes of None \<Rightarrow> Ret (Inl CE_InvalidSignature)
      | Some k \<Rightarrow> run_map Inr (keys_of lib kl k))"

definition public_key :: "'k key_lib \<Rightarrow> 'k ValidatorKeys \<Rightarrow> u8 list" where
  "public_key kl ks = sk_point kl (signing_key ks) True"

definition keys_sign :: "crypto_lib \<Rightarrow> 'k key_lib \<Rightarrow> 'k ValidatorKeys \<Rightarrow> u8 list \<Rightarrow> u8 list" where
  "keys_sign lib kl ks message = sk_sign kl (signing_key ks) (keccak256 lib message)"

definition sign_hash :: "'k key_lib \<Rightarrow> 'k ValidatorKeys \<Rightarrow> Hash \<Rightarrow> u8 list" where
  "sign_hash kl ks h = sk_sign kl (signing_key ks) (as_bytes h)"

section \<open>The registry\<close>

datatype ValidatorChange =
    Join Validator
  | Leave Address
  | StakeIncrease Address u64
  | StakeDecrease Address u64
  | UpdateCommission Address u16

record ValidatorRegistry =
  current_set :: ValidatorSet
  pending_changes :: "ValidatorChange list"
  historical_sets :: "(u64, ValidatorSet) hmap"

definition ValidatorRegistry_new :: ValidatorRegistry where
  "ValidatorRegistry_new =
     \<lparr>current_set = ValidatorSet_new 0, pending_changes = [], historical_sets = []\<rparr>"

definition queue_change :: "ValidatorChange \<Rightarrow> ValidatorRegistry \<Rightarrow> ValidatorRegistry" where
  "queue_change c r = r\<lparr>pending_changes := pending_changes r @ [c]\<rparr>"

fun apply_change :: "ValidatorChange \<Rightarrow> ValidatorSet \<Rightarrow> ValidatorSet \<times> unit ConsensusResult" where
  "apply_change (Join v) vs = add_validator v vs"
| "apply_change (Leave a) vs = (fst (remove_validator a vs), Inr ())"
| "apply_change (StakeIncrease a n) vs =
     (case vs_get vs a of
        Some v \<Rightarrow> (vs\<lparr>vs_validators := hput a (v\<lparr>v_stake := v_stake v + n\<rparr>) (vs_validators vs),
                      vs_total_stake := vs_total_stake vs + n\<rparr>, Inr ())
      | None \<Rightarrow> (vs, Inr ()))"
| "apply_change (StakeDecrease a n) vs =
     (case vs_get vs a of
        Some v \<Rightarrow> (vs\<lparr>vs_validators :=
                        hput a (v\<lparr>v_stake := saturating_sub (v_stake v) n\<rparr>) (vs_validators vs),
                      vs_total_stake := saturating_sub (vs_total_stake vs) n\<rparr>, Inr ())
      | None \<Rightarrow> (vs, Inr ()))"
| "apply_change (UpdateCommission a c) vs =
     (case vs_get vs a of
        Some v \<Rightarrow> (vs\<lparr>vs_validators :=
                        hput a (v\<lparr>v_commission := min c 10000\<rparr>) (vs_validators vs)\<rparr>, Inr ())
      | None \<Rightarrow> (vs, Inr ()))"

text \<open>The loop over the changes: the first error leaves it, with the changes made so far.\<close>

fun apply_changes ::
    "ValidatorChange list \<Rightarrow> ValidatorSet \<Rightarrow> ValidatorSet \<times> unit ConsensusResult" where
  "apply_changes [] vs = (vs, Inr ())"
| "apply_changes (c # cs) vs =
     (case apply_change c vs of (vs', Inl e) \<Rightarrow> (vs', Inl e) | (vs', Inr _) \<Rightarrow> apply_changes cs vs')"

definition advance_epoch :: "ValidatorRegistry \<Rightarrow> ValidatorRegistry \<times> u64 ConsensusResult" where
  "advance_epoch r =
     (let vs = current_set r;
          changes = pending_changes r;
          r = r\<lparr>pending_changes := [],
                historical_sets := hput (vs_epoch vs) vs (historical_sets r)\<rparr>
      in case apply_changes changes vs of
           (vs', Inl e) \<Rightarrow> (r\<lparr>current_set := vs'\<rparr>, Inl e)
         | (vs', Inr _) \<Rightarrow>
             (r\<lparr>current_set := vs'\<lparr>vs_epoch := vs_epoch vs' + 1\<rparr>\<rparr>, Inr (vs_epoch vs' + 1)))"

definition slash :: "Address \<Rightarrow> u64 \<Rightarrow> u64 \<Rightarrow> ValidatorRegistry \<Rightarrow> ValidatorRegistry \<times> u64 ConsensusResult" where
  "slash a percentage jail_epochs r =
     (let vs = current_set r; e = vs_epoch vs
      in case vs_get vs a of None \<Rightarrow> (r, Inl (CE_UnknownValidator a))
         | Some v \<Rightarrow>
           let slash_amount = (v_stake v * percentage) div 10000;
               v' = v\<lparr>v_stake := v_stake v - slash_amount, v_slash_count := v_slash_count v + 1,
                      v_jailed_until := e + jail_epochs\<rparr>
           in (r\<lparr>current_set := vs\<lparr>vs_validators := hput a v' (vs_validators vs),
                  vs_total_stake := vs_total_stake vs - slash_amount\<rparr>\<rparr>, Inr slash_amount))"

definition get_historical_set :: "ValidatorRegistry \<Rightarrow> u64 \<Rightarrow> ValidatorSet option" where
  "get_historical_set r e = hget (historical_sets r) e"

section \<open>Specification\<close>

text \<open>
  The mathematical validator set: the eligible addresses, each with its stake as a natural
  number. \<open>stake_drift\<close> is the difference between the cached total and the sum it caches.
\<close>

definition active_members :: "ValidatorSet \<Rightarrow> Address set" where
  "active_members vs = {a. \<exists>v. vs_get vs a = Some v \<and> is_eligible v (vs_epoch vs)}"

definition stake_weight :: "ValidatorSet \<Rightarrow> Address \<Rightarrow> nat" where
  "stake_weight vs a = (case vs_get vs a of None \<Rightarrow> 0 | Some v \<Rightarrow> unat (v_stake v))"

definition vs_ok :: "ValidatorSet \<Rightarrow> bool" where
  "vs_ok vs \<longleftrightarrow> wf_hmap (vs_validators vs) \<and> (\<forall>(a, v) \<in> set (vs_validators vs). v_address v = a)"

definition stake_drift :: "ValidatorSet \<Rightarrow> u64" where
  "stake_drift vs = vs_total_stake vs - sum_list (map v_stake (hvalues (vs_validators vs)))"

text \<open>The stake the engines add up for a list of voters: voters outside the set are skipped.\<close>

definition voters_stake :: "ValidatorSet \<Rightarrow> Address list \<Rightarrow> u64" where
  "voters_stake vs as = sum_list (map v_stake (List.map_filter (vs_get vs) as))"

section \<open>Lemmas\<close>

lemma finite_active_members: "finite (active_members vs)"
proof (rule finite_subset)
  show "active_members vs \<subseteq> fst ` set (vs_validators vs)"
    by (auto simp: active_members_def vs_get_def dest!: hget_in_set intro: rev_image_eqI)
qed simp

interpretation vset: weighted_votes "active_members vs" "stake_weight vs" for vs
  by unfold_locales (rule finite_active_members)

lemma active_stake_nat:
  assumes "vs_ok vs"
  shows "sum_list (map (unat \<circ> v_stake) (active_validators vs))
    = sum (stake_weight vs) (active_members vs)"
proof -
  let ?m = "vs_validators vs" and ?E = "\<lambda>v. is_eligible v (vs_epoch vs)"
  have wf: "wf_hmap ?m" using assms by (simp add: vs_ok_def)
  have "sum_list (map (unat \<circ> v_stake) (active_validators vs))
      = sum_list (map (\<lambda>v. if ?E v then unat (v_stake v) else 0) (hvalues ?m))"
    by (simp add: active_validators_def sum_list_map_filter' comp_def)
  also have "\<dots> = (\<Sum>(a, v) \<in> set ?m. if ?E v then unat (v_stake v) else 0)"
    using wf by (rule sum_list_hvalues)
  also have "\<dots> = (\<Sum>(a, v) \<in> {e \<in> set ?m. ?E (snd e)}. unat (v_stake v))"
    by (rule sum.mono_neutral_cong_right) (auto split: if_splits)
  also have "\<dots> = sum (stake_weight vs) (active_members vs)"
  proof (rule sum.reindex_cong [of fst, symmetric])
    show "inj_on fst {e \<in> set ?m. ?E (snd e)}"
      using wf by (auto simp: wf_hmap_def distinct_map inj_on_def)
    show "active_members vs = fst ` {e \<in> set ?m. ?E (snd e)}"
      using wf by (force simp: active_members_def vs_get_def hget_iff)
    show "stake_weight vs (fst e) = (case e of (a, v) \<Rightarrow> unat (v_stake v))"
      if "e \<in> {e \<in> set ?m. ?E (snd e)}" for e
      using wf that by (cases e) (auto simp: stake_weight_def vs_get_def wf_hmap_def)
  qed
  finally show ?thesis .
qed

lemma unat_active_stake:
  assumes "vs_ok vs" and "sum (stake_weight vs) (active_members vs) < 2 ^ 64"
  shows "unat (active_stake vs) = sum (stake_weight vs) (active_members vs)"
  using assms active_stake_nat [of vs] unat_sum_list [of "map v_stake (active_validators vs)"]
  by (simp add: active_stake_def)

lemma unat_voters_stake:
  assumes "distinct as" and "sum (stake_weight vs) (set as) < 2 ^ 64"
  shows "unat (voters_stake vs as) = sum (stake_weight vs) (set as)"
proof -
  have "sum_list (map (unat \<circ> v_stake) (List.map_filter (vs_get vs) as))
      = sum_list (map (stake_weight vs) as)"
    by (induction as) (auto simp: List.map_filter_simps stake_weight_def split: option.split)
  also have "\<dots> = sum (stake_weight vs) (set as)"
    using assms(1) by (rule sum_list_distinct_conv_sum_set)
  finally show ?thesis
    using assms(2) unat_sum_list [of "map v_stake (List.map_filter (vs_get vs) as)"]
    by (simp add: voters_stake_def)
qed

text \<open>Three times a stake fits in a word whenever three times the whole set does.\<close>

lemma has_supermajority_nat:
  assumes "vs_ok vs" and "3 * sum (stake_weight vs) (active_members vs) < 2 ^ 64"
    and "3 * unat s < 2 ^ 64"
  shows "has_supermajority vs s \<longleftrightarrow> unat s * 3 > sum (stake_weight vs) (active_members vs) * 2"
proof -
  have a: "unat (active_stake vs) = sum (stake_weight vs) (active_members vs)"
    using assms(1,2) by (intro unat_active_stake) simp_all
  have "unat (s * 3) = unat s * 3" "unat (active_stake vs * 2) = unat (active_stake vs) * 2"
    using assms(2,3) a by (auto intro!: unat_mult_no_overflow [THEN trans])
  then show ?thesis by (simp add: has_supermajority_def word_less_nat_alt a)
qed

lemma voters_supermajority:
  assumes "vs_ok vs" and "3 * sum (stake_weight vs) (active_members vs) < 2 ^ 64"
    and "distinct as" and "set as \<subseteq> active_members vs"
  shows "has_supermajority vs (voters_stake vs as)
    \<longleftrightarrow> supermajority_of (stake_weight vs) (active_members vs) (set as)"
proof -
  have "sum (stake_weight vs) (set as) \<le> sum (stake_weight vs) (active_members vs)"
    using assms(4) finite_active_members by (intro sum_mono2) auto
  with assms have "unat (voters_stake vs as) = sum (stake_weight vs) (set as)"
    and "3 * unat (voters_stake vs as) < 2 ^ 64"
    using unat_voters_stake [of as vs] by auto
  with has_supermajority_nat [OF assms(1,2)] assms(4) show ?thesis
    by (auto simp: supermajority_of_def)
qed

text \<open>How far each operation moves the drift of the cached total.\<close>

lemma drift_add_validator:
  "add_validator v vs = (vs', Inr ()) \<Longrightarrow>
     stake_drift vs' = stake_drift vs
       + (case vs_get vs (v_address v) of None \<Rightarrow> 0 | Some u \<Rightarrow> v_stake u)"
  by (auto simp: add_validator_def stake_drift_def vs_get_def sum_list_hput split: if_splits)

lemma drift_remove_validator:
  "wf_hmap (vs_validators vs) \<Longrightarrow> stake_drift (fst (remove_validator a vs)) = stake_drift vs"
  by (auto simp: remove_validator_def stake_drift_def sum_list_hdel split: option.split)

lemma vs_ok_iff:
  "vs_ok vs \<longleftrightarrow> wf_hmap (vs_validators vs)
     \<and> (\<forall>a v. hget (vs_validators vs) a = Some v \<longrightarrow> v_address v = a)"
  by (auto simp: vs_ok_def hget_iff)

lemma vs_ok_apply_change: "vs_ok vs \<Longrightarrow> vs_ok (fst (apply_change c vs))"
  by (cases c)
    (simp_all add: add_validator_def remove_validator_def vs_get_def vs_ok_iff split: option.split)

text \<open>A change that neither joins a present validator nor unbonds more than is staked.\<close>

fun regular_change :: "ValidatorSet \<Rightarrow> ValidatorChange \<Rightarrow> bool" where
  "regular_change vs (Join v) \<longleftrightarrow> vs_get vs (v_address v) = None"
| "regular_change vs (StakeDecrease a n) \<longleftrightarrow>
     (\<forall>v. vs_get vs a = Some v \<longrightarrow> n \<le> v_stake v \<and> n \<le> vs_total_stake vs)"
| "regular_change vs _ \<longleftrightarrow> True"

fun regular_changes :: "ValidatorSet \<Rightarrow> ValidatorChange list \<Rightarrow> bool" where
  "regular_changes vs [] \<longleftrightarrow> True"
| "regular_changes vs (c # cs) \<longleftrightarrow>
     regular_change vs c \<and> regular_changes (fst (apply_change c vs)) cs"

lemma drift_apply_change:
  assumes "vs_ok vs" and "regular_change vs c"
  shows "stake_drift (fst (apply_change c vs)) = stake_drift vs"
proof -
  have wf: "wf_hmap (vs_validators vs)" using assms(1) by (simp add: vs_ok_def)
  show ?thesis
  proof (cases c)
    case (Join v)
    then show ?thesis using assms drift_add_validator [of v vs]
      by (cases "v_stake v < vs_min_stake vs") (simp_all add: add_validator_def)
  next
    case (StakeDecrease a n)
    then show ?thesis using assms
      by (auto simp: stake_drift_def sum_list_hput vs_get_def saturating_sub_def not_le
          split: option.split)
  next
    case (Leave a)
    then show ?thesis using wf by (simp add: drift_remove_validator)
  qed (auto simp: stake_drift_def sum_list_hput vs_get_def split: option.split)
qed

lemma apply_changes_invariant:
  "vs_ok vs \<Longrightarrow> regular_changes vs cs \<Longrightarrow>
     vs_ok (fst (apply_changes cs vs)) \<and> stake_drift (fst (apply_changes cs vs)) = stake_drift vs"
proof (induction cs arbitrary: vs)
  case Nil
  then show ?case by simp
next
  case (Cons c cs)
  from Cons.prems have c: "vs_ok (fst (apply_change c vs))"
    "stake_drift (fst (apply_change c vs)) = stake_drift vs"
    "regular_changes (fst (apply_change c vs)) cs"
    by (simp_all add: vs_ok_apply_change drift_apply_change)
  with Cons.IH [OF c(1,3)] show ?case
    by (auto split: prod.split sum.split simp: prod_eq_iff)
qed

section \<open>Properties\<close>

definition demo_validators :: ValidatorSet where
  "demo_validators =
     (ValidatorSet_new 0)\<lparr>vs_validators := map (\<lambda>a. (a, Validator_new a [] 30000000000)) [1, 2, 3, 4],
        vs_total_stake := 120000000000\<rparr>"

lemma demo_validators_ok:
  "vs_ok demo_validators" "active_members demo_validators = {1, 2, 3, 4}"
  "sum (stake_weight demo_validators) {1, 2, 3, 4} = 120000000000"
proof -
  show "vs_ok demo_validators" by code_simp
  show "active_members demo_validators = {1, 2, 3, 4}"
    by (auto simp: active_members_def demo_validators_def ValidatorSet_new_def vs_get_def
        Validator_new_def is_eligible_def split: if_splits)
  show "sum (stake_weight demo_validators) {1, 2, 3, 4} = 120000000000"
    by (simp add: stake_weight_def demo_validators_def ValidatorSet_new_def vs_get_def
        Validator_new_def)
qed

text \<open>
  (C5) Two groups of distinct eligible validators whose added stake passes the engine's 2/3 test
  have more than a third of the active stake in common, as long as three times the active stake
  fits in 64 bits. Under this condition the products of the code, which wrap around, are exact; without it
  the test says nothing.
\<close>

theorem supermajority_groups_intersect:
  assumes ok: "vs_ok vs" and fits: "3 * sum (stake_weight vs) (active_members vs) < 2 ^ 64"
    and P: "distinct P" "set P \<subseteq> active_members vs" "has_supermajority vs (voters_stake vs P)"
    and Q: "distinct Q" "set Q \<subseteq> active_members vs" "has_supermajority vs (voters_stake vs Q)"
  shows "sum (stake_weight vs) (set P \<inter> set Q) * 3 > sum (stake_weight vs) (active_members vs)"
  using vset.supermajority_intersection [of vs "set P" "set Q"]
    voters_supermajority [OF ok fits P(1,2)] voters_supermajority [OF ok fits Q(1,2)] P(3) Q(3)
  by simp

theorem supermajority_groups_intersect_witness:
  "sum (stake_weight demo_validators) (set [1, 2, 3] \<inter> set [2, 3, 4]) * 3
     > sum (stake_weight demo_validators) (active_members demo_validators)"
proof (rule supermajority_groups_intersect)
  show "has_supermajority demo_validators (voters_stake demo_validators [1, 2, 3])"
    "has_supermajority demo_validators (voters_stake demo_validators [2, 3, 4])" by code_simp+
qed (simp_all add: demo_validators_ok)

text \<open>
  Ending an epoch keeps the cached total stake right: whether the queued changes are all
  applied or stop at an error, the total moves with the sum of the stakes, keys stay unique and
  equal to the validator's address, provided no change joins an address that is present and none
  unbonds more than is staked.
\<close>

theorem advance_epoch_keeps_total:
  assumes "vs_ok (current_set r)" and "regular_changes (current_set r) (pending_changes r)"
    and "advance_epoch r = (r', res)"
  shows "vs_ok (current_set r') \<and> stake_drift (current_set r') = stake_drift (current_set r)"
proof -
  let ?ap = "apply_changes (pending_changes r) (current_set r)"
  have "vs_ok (vs\<lparr>vs_epoch := e\<rparr>) = vs_ok vs" "stake_drift (vs\<lparr>vs_epoch := e\<rparr>) = stake_drift vs"
    for vs e by (simp_all add: vs_ok_def stake_drift_def)
  moreover have "vs_ok (fst ?ap)" "stake_drift (fst ?ap) = stake_drift (current_set r)"
    using apply_changes_invariant [OF assms(1,2)] by simp_all
  ultimately show ?thesis
    using assms(3) by (auto simp: advance_epoch_def Let_def split: prod.splits sum.splits)
qed

definition demo_registry :: ValidatorRegistry where
  "demo_registry = ValidatorRegistry_new
     \<lparr>current_set := demo_validators,
      pending_changes := [Leave 1, Join (Validator_new 7 [] 20000000000), StakeDecrease 2 5000]\<rparr>"

theorem advance_epoch_keeps_total_witness:
  "stake_drift (current_set (fst (advance_epoch demo_registry))) = 0"
proof -
  have "vs_ok (current_set demo_registry)"
    and "regular_changes (current_set demo_registry) (pending_changes demo_registry)"
    and "stake_drift (current_set demo_registry) = 0"
    by (simp_all add: demo_registry_def demo_validators_def ValidatorSet_new_def Validator_new_def
        vs_ok_def wf_hmap_def stake_drift_def hvalues_def vs_get_def remove_validator_def
        add_validator_def hdel_def hput_def)
  with advance_epoch_keeps_total [of demo_registry "fst (advance_epoch demo_registry)"
      "snd (advance_epoch demo_registry)"]
  show ?thesis by simp
qed

text \<open>
  Joining an address that is already in the set counts its old stake twice: the call
  succeeds, the old entry is replaced, and the cached total ends up above the sum of the stakes by
  exactly the old stake.
\<close>

theorem rejoin_inflates_total:
  assumes "vs_get vs (v_address v) = Some u" and "\<not> v_stake v < vs_min_stake vs"
  shows "snd (add_validator v vs) = Inr ()
    \<and> stake_drift (fst (add_validator v vs)) = stake_drift vs + v_stake u"
  using assms by (simp add: add_validator_def stake_drift_def vs_get_def sum_list_hput)

theorem rejoin_inflates_total_witness:
  "stake_drift (fst (add_validator (Validator_new 1 [] 10000000000) demo_validators)) = 30000000000"
proof -
  have "vs_get demo_validators 1 = Some (Validator_new 1 [] 30000000000)"
    and "vs_min_stake demo_validators = 10000000000" and "stake_drift demo_validators = 0"
    by (simp_all add: demo_validators_def ValidatorSet_new_def vs_get_def stake_drift_def
        hvalues_def Validator_new_def)
  with rejoin_inflates_total [of demo_validators "Validator_new 1 [] 10000000000"]
  show ?thesis by (simp add: Validator_new_def)
qed

text \<open>
  A join below the minimum stake aborts the end of the epoch: the changes before it stay
  applied, the ones after it are lost from the queue, and the epoch does not advance.
\<close>

theorem failed_join_drops_changes:
  assumes "pending_changes r = cs @ Join v # ds"
    and "apply_changes cs (current_set r) = (vs, Inr ())" and "v_stake v < vs_min_stake vs"
  shows "advance_epoch r
    = (r\<lparr>pending_changes := [], current_set := vs,
         historical_sets := hput (vs_epoch (current_set r)) (current_set r) (historical_sets r)\<rparr>,
       Inl (CE_InsufficientStake (vs_min_stake vs) (v_stake v)))"
proof -
  have "apply_changes (cs @ Join v # ds) w = (vs, Inl (CE_InsufficientStake (vs_min_stake vs) (v_stake v)))"
    if "apply_changes cs w = (vs, Inr ())" for w
    using that assms(3)
    by (induction cs arbitrary: w) (auto simp: add_validator_def split: prod.splits sum.splits)
  then show ?thesis using assms by (simp add: advance_epoch_def Let_def)
qed

theorem failed_join_drops_changes_witness:
  "snd (advance_epoch (demo_registry\<lparr>pending_changes := [Join (Validator_new 9 [] 5), Leave 1]\<rparr>))
     = Inl (CE_InsufficientStake 10000000000 5)"
  by (subst failed_join_drops_changes [where cs = "[]" and v = "Validator_new 9 [] 5"
        and vs = demo_validators])
    (simp_all add: demo_registry_def demo_validators_def ValidatorSet_new_def Validator_new_def)

text \<open>
  Slashing by at most 100 per cent takes the rounded-down share of the stake, counts the
  event, jails the validator until the given epoch, and moves the cached total by the same amount,
  as long as stake times percentage fits in 64 bits.
\<close>

theorem slash_exact:
  assumes "vs_get (current_set r) a = Some v" and "unat p \<le> 10000"
    and "unat (v_stake v) * unat p < 2 ^ 64" and "slash a p j r = (r', res)"
  shows "\<exists>x v'. res = Inr x \<and> unat x = unat (v_stake v) * unat p div 10000
    \<and> vs_get (current_set r') a = Some v' \<and> unat (v_stake v') = unat (v_stake v) - unat x
    \<and> v_slash_count v' = v_slash_count v + 1
    \<and> v_jailed_until v' = vs_epoch (current_set r) + j
    \<and> stake_drift (current_set r') = stake_drift (current_set r)"
proof -
  let ?x = "(v_stake v * p) div 10000"
  have x: "unat ?x = unat (v_stake v) * unat p div 10000"
    using assms(3) unat_mult_no_overflow [of "v_stake v" p] by (simp add: unat_div)
  have "unat (v_stake v) * unat p \<le> unat (v_stake v) * 10000" using assms(2) by simp
  then have "unat ?x \<le> unat (v_stake v)" unfolding x
    by (metis div_le_mono nonzero_mult_div_cancel_right zero_neq_numeral)
  then have s: "unat (v_stake v - ?x) = unat (v_stake v) - unat ?x"
    by (intro unat_sub) (simp add: word_le_nat_alt)
  show ?thesis
    using assms(1,4) x s
    by (auto simp: slash_def Let_def vs_get_def stake_drift_def sum_list_hput)
qed

theorem slash_exact_witness:
  "\<exists>x v'. snd (slash 1 500 3 demo_registry) = Inr x \<and> unat x = 1500000000
     \<and> vs_get (current_set (fst (slash 1 500 3 demo_registry))) 1 = Some v'
     \<and> unat (v_stake v') = 28500000000"
proof -
  have "vs_get (current_set demo_registry) 1 = Some (Validator_new 1 [] 30000000000)"
    by (simp add: demo_registry_def demo_validators_def ValidatorSet_new_def vs_get_def)
  from slash_exact [OF this, of 500 3 "fst (slash 1 500 3 demo_registry)"
      "snd (slash 1 500 3 demo_registry)"]
  show ?thesis by (auto simp: Validator_new_def)
qed

end
