(* ===== verification/Bft.thy ===== *)
theory Bft
  imports Validator
begin

text \<open>
  The BFT engine, \<^verbatim>\<open>src/crates/nexus-consensus/src/bft.rs\<close>: messages and their signing hashes, the
  round state, leader selection and every handler. A handler is a function on the engine that
  returns the new engine and its \<open>Result\<close>, inside \<open>run\<close>. The round state stands behind its
  reader-writer lock: \<open>state_read\<close> and \<open>state_write\<close> take a guard, \<open>drop_read\<close> and \<open>drop_write\<close>
  release it where the source drops it or leaves its scope, and a handler that waits for a guard it
  holds itself is \<open>Blocked\<close>. The locks around the validator set, the finalized set and the view
  change votes are never taken twice by one handler, and their contents are plain fields.
\<close>

section \<open>Messages\<close>

record Proposal =
  pr_proposer :: Address
  pr_view :: u64
  pr_epoch :: u64
  pr_vertex_hash :: Hash
  pr_parents :: "Hash list"
  pr_signature :: "u8 list"

definition Proposal_signing_hash :: "crypto_lib \<Rightarrow> Proposal \<Rightarrow> Hash" where
  "Proposal_signing_hash lib p =
     Hash_new (keccak256 lib (u64_to_le_bytes (pr_view p) @ u64_to_le_bytes (pr_epoch p)
       @ as_bytes (pr_vertex_hash p) @ concat (map as_bytes (pr_parents p))))"

record PrepareVote =
  pv_voter :: Address
  pv_view :: u64
  pv_vertex_hash :: Hash
  pv_signature :: "u8 list"

definition PrepareVote_signing_hash :: "crypto_lib \<Rightarrow> PrepareVote \<Rightarrow> Hash" where
  "PrepareVote_signing_hash lib v =
     Hash_new (keccak256 lib ([0x01] @ u64_to_le_bytes (pv_view v) @ as_bytes (pv_vertex_hash v)))"

record CommitVote =
  cv_voter :: Address
  cv_view :: u64
  cv_vertex_hash :: Hash
  cv_signature :: "u8 list"

definition CommitVote_signing_hash :: "crypto_lib \<Rightarrow> CommitVote \<Rightarrow> Hash" where
  "CommitVote_signing_hash lib v =
     Hash_new (keccak256 lib ([0x02] @ u64_to_le_bytes (cv_view v) @ as_bytes (cv_vertex_hash v)))"

record ViewChangeRequest =
  vc_requester :: Address
  vc_new_view :: u64
  vc_last_prepared :: "Hash option"
  vc_signature :: "u8 list"

record NewViewMessage =
  nv_leader :: Address
  nv_view :: u64
  nv_view_changes :: "ViewChangeRequest list"
  nv_signature :: "u8 list"

datatype BftMessage =
    MsgProposal Proposal
  | MsgPrepare PrepareVote
  | MsgCommit CommitVote
  | MsgViewChange ViewChangeRequest
  | MsgNewView NewViewMessage

section \<open>Engine state\<close>

datatype BftPhase = NewRound | Prepare | Commit | Finalized

record BftRoundState =
  rs_view :: u64
  rs_epoch :: u64
  rs_phase :: BftPhase
  rs_proposal :: "Proposal option"
  rs_prepare_votes :: "(Address, PrepareVote) hmap"
  rs_commit_votes :: "(Address, CommitVote) hmap"
  rs_locked_vertex :: "Hash option"
  rs_locked_view :: u64

definition BftRoundState_default :: BftRoundState where
  "BftRoundState_default =
     \<lparr>rs_view = 0, rs_epoch = 0, rs_phase = NewRound, rs_proposal = None, rs_prepare_votes = [],
      rs_commit_votes = [], rs_locked_vertex = None, rs_locked_view = 0\<rparr>"

definition verify_ecdsa :: "crypto_lib \<Rightarrow> u8 list \<Rightarrow> u8 list \<Rightarrow> u8 list \<Rightarrow> bool" where
  "verify_ecdsa lib pubkey message sig_bytes =
     (case vk_from_sec1 lib pubkey of None \<Rightarrow> False
      | Some vk \<Rightarrow>
        (case sig_from_bytes lib sig_bytes of None \<Rightarrow> False
         | Some sg \<Rightarrow> verify_message lib vk message sg))"

record 'k BftConsensus =
  bc_keys :: "'k ValidatorKeys"
  bc_validator_set :: ValidatorSet
  bc_state :: "BftRoundState rwlock"
  bc_finalized :: "Hash list"
  bc_view_change_votes :: "(u64, ViewChangeRequest list) hmap"
  bc_message_channel :: bool

abbreviation round_state :: "'k BftConsensus \<Rightarrow> BftRoundState" where
  "round_state b \<equiv> rw_data (bc_state b)"

definition state_read :: "'k BftConsensus \<Rightarrow> 'k BftConsensus run" where
  "state_read b = (case rw_read (bc_state b) of None \<Rightarrow> Blocked | Some l \<Rightarrow> Ret (b\<lparr>bc_state := l\<rparr>))"

definition state_write :: "'k BftConsensus \<Rightarrow> 'k BftConsensus run" where
  "state_write b = (case rw_write (bc_state b) of None \<Rightarrow> Blocked | Some l \<Rightarrow> Ret (b\<lparr>bc_state := l\<rparr>))"

definition drop_read :: "'k BftConsensus \<Rightarrow> 'k BftConsensus" where
  "drop_read b = b\<lparr>bc_state := rw_drop_read (bc_state b)\<rparr>"

definition drop_write :: "'k BftConsensus \<Rightarrow> 'k BftConsensus" where
  "drop_write b = b\<lparr>bc_state := rw_drop_write (bc_state b)\<rparr>"

definition set_round :: "BftRoundState \<Rightarrow> 'k BftConsensus \<Rightarrow> 'k BftConsensus" where
  "set_round s b = b\<lparr>bc_state := (bc_state b)\<lparr>rw_data := s\<rparr>\<rparr>"

definition set_state :: "BftRoundState \<Rightarrow> 'k BftConsensus \<Rightarrow> 'k BftConsensus run" where
  "set_state s b = run_bind (state_write b) (\<lambda>b. Ret (drop_write (set_round s b)))"

definition BftConsensus_new :: "'k ValidatorKeys \<Rightarrow> ValidatorSet \<Rightarrow> 'k BftConsensus" where
  "BftConsensus_new ks vs =
     \<lparr>bc_keys = ks, bc_validator_set = vs, bc_state = rw_new BftRoundState_default,
      bc_finalized = [], bc_view_change_votes = [], bc_message_channel = False\<rparr>"

definition set_message_channel :: "'k BftConsensus \<Rightarrow> 'k BftConsensus" where
  "set_message_channel b = b\<lparr>bc_message_channel := True\<rparr>"

section \<open>Leader selection\<close>

definition is_leader :: "'k BftConsensus \<Rightarrow> ('k BftConsensus \<times> bool) run" where
  "is_leader b =
     run_bind (state_read b) (\<lambda>b.
     let active = map v_address (active_validators (bc_validator_set b))
     in if active = [] then Ret (drop_read b, False)
        else let leader_idx = unat (rs_view (round_state b)) mod length active
             in Ret (drop_read b,
                     (if leader_idx < length active then Some (active ! leader_idx) else None)
                       = Some (key_address (bc_keys b))))"

fun pick_by_stake :: "u128 \<Rightarrow> u128 \<Rightarrow> Validator list \<Rightarrow> Address option" where
  "pick_by_stake target cum [] = None"
| "pick_by_stake target cum (v # vs) =
     (let cum = cum + ucast (v_stake v)
      in if cum > target then Some (v_address v) else pick_by_stake target cum vs)"

definition weighted_leader ::
    "crypto_lib \<Rightarrow> 'k BftConsensus \<Rightarrow> ('k BftConsensus \<times> Address option) run" where
  "weighted_leader lib b =
     (let active = active_validators (bc_validator_set b);
          total_stake = sum_list (map (\<lambda>v. ucast (v_stake v)) active) :: u128
      in if total_stake = 0 then Ret (b, None)
         else run_bind (state_read b) (\<lambda>b.
           let digest = keccak256 lib (u64_to_le_bytes (rs_view (round_state b))
                          @ u64_to_le_bytes (rs_epoch (round_state b)));
               rand = of_nat (be_val (take 16 digest)) :: u128;
               target = rand mod total_stake
           in Ret (drop_read b, pick_by_stake target 0 active)))"

definition is_weighted_leader ::
    "crypto_lib \<Rightarrow> Address \<Rightarrow> 'k BftConsensus \<Rightarrow> ('k BftConsensus \<times> bool) run" where
  "is_weighted_leader lib my_addr b =
     run_map (\<lambda>(b, l). (b, case l of Some leader \<Rightarrow> leader = my_addr | None \<Rightarrow> False))
       (weighted_leader lib b)"

section \<open>Votes\<close>

definition advance_view :: "'k BftConsensus \<Rightarrow> 'k BftConsensus run" where
  "advance_view b =
     run_bind (state_write b) (\<lambda>b.
     let s = round_state b
     in Ret (drop_write (set_round
          (s\<lparr>rs_view := rs_view s + 1, rs_phase := NewRound, rs_proposal := None,
             rs_prepare_votes := [], rs_commit_votes := []\<rparr>) b)))"

definition on_commit ::
    "crypto_lib \<Rightarrow> CommitVote \<Rightarrow> 'k BftConsensus \<Rightarrow> ('k BftConsensus \<times> Hash option ConsensusResult) run" where
  "on_commit lib vote b =
     (case vs_get (bc_validator_set b) (cv_voter vote) of
        None \<Rightarrow> Ret (b, Inl (CE_UnknownValidator (cv_voter vote)))
      | Some validator \<Rightarrow>
        if \<not> verify_ecdsa lib (v_pubkey validator) (as_bytes (CommitVote_signing_hash lib vote))
               (cv_signature vote)
        then Ret (b, Inl CE_InvalidSignature)
        else run_bind (state_write b) (\<lambda>b.
          let s = round_state b
          in if rs_phase s \<noteq> Commit then Ret (drop_write b, Inr None)
             else if hcontains (rs_commit_votes s) (cv_voter vote)
             then Ret (drop_write b, Inl CE_DuplicateVote)
             else
               let h = cv_vertex_hash vote;
                   s = s\<lparr>rs_commit_votes := hput (cv_voter vote) vote (rs_commit_votes s)\<rparr>;
                   b = set_round s b;
                   commit_stake =
                     voters_stake (bc_validator_set b) (map cv_voter (hvalues (rs_commit_votes s)))
               in if has_supermajority (bc_validator_set b) commit_stake
                  then let b = drop_write (set_round (s\<lparr>rs_phase := Finalized\<rparr>) b);
                           b = b\<lparr>bc_finalized := List.insert h (bc_finalized b)\<rparr>
                       in run_bind (advance_view b) (\<lambda>b. Ret (b, Inr (Some h)))
                  else Ret (drop_write b, Inr None)))"

definition vote_commit ::
    "crypto_lib \<Rightarrow> 'k key_lib \<Rightarrow> Hash \<Rightarrow> 'k BftConsensus \<Rightarrow> ('k BftConsensus \<times> unit ConsensusResult) run" where
  "vote_commit lib kl h b =
     run_bind (state_read b) (\<lambda>b.
     let w = rs_view (round_state b);
         vote = \<lparr>cv_voter = key_address (bc_keys b), cv_view = w, cv_vertex_hash = h,
                 cv_signature = sign_hash kl (bc_keys b)
                   (Hash_new (keccak256 lib ([0x02] @ u64_to_le_bytes w @ as_bytes h)))\<rparr>
     in run_map (\<lambda>(b, res). (b, case res of Inl e \<Rightarrow> Inl e | Inr _ \<Rightarrow> Inr ()))
          (on_commit lib vote (drop_read b)))"

definition on_prepare ::
    "crypto_lib \<Rightarrow> 'k key_lib \<Rightarrow> PrepareVote \<Rightarrow> 'k BftConsensus \<Rightarrow> ('k BftConsensus \<times> unit ConsensusResult) run" where
  "on_prepare lib kl vote b =
     (case vs_get (bc_validator_set b) (pv_voter vote) of
        None \<Rightarrow> Ret (b, Inl (CE_UnknownValidator (pv_voter vote)))
      | Some validator \<Rightarrow>
        if \<not> verify_ecdsa lib (v_pubkey validator) (as_bytes (PrepareVote_signing_hash lib vote))
               (pv_signature vote)
        then Ret (b, Inl CE_InvalidSignature)
        else run_bind (state_write b) (\<lambda>b.
          let s = round_state b
          in if rs_phase s \<noteq> Prepare then Ret (drop_write b, Inr ())
             else if hcontains (rs_prepare_votes s) (pv_voter vote)
             then Ret (drop_write b, Inl CE_DuplicateVote)
             else
               let h = pv_vertex_hash vote;
                   s = s\<lparr>rs_prepare_votes := hput (pv_voter vote) vote (rs_prepare_votes s)\<rparr>;
                   prepare_stake =
                     voters_stake (bc_validator_set b) (map pv_voter (hvalues (rs_prepare_votes s)))
               in if has_supermajority (bc_validator_set b) prepare_stake
                  then let s = s\<lparr>rs_locked_vertex := Some h, rs_locked_view := rs_view s,
                                 rs_phase := Commit\<rparr>
                       in vote_commit lib kl h (drop_write (set_round s b))
                  else Ret (drop_write (set_round s b), Inr ())))"

definition vote_prepare ::
    "crypto_lib \<Rightarrow> 'k key_lib \<Rightarrow> Hash \<Rightarrow> 'k BftConsensus \<Rightarrow> ('k BftConsensus \<times> unit ConsensusResult) run" where
  "vote_prepare lib kl h b =
     run_bind (state_read b) (\<lambda>b.
     let w = rs_view (round_state b);
         vote = \<lparr>pv_voter = key_address (bc_keys b), pv_view = w, pv_vertex_hash = h,
                 pv_signature = sign_hash kl (bc_keys b)
                   (Hash_new (keccak256 lib ([0x01] @ u64_to_le_bytes w @ as_bytes h)))\<rparr>
     in on_prepare lib kl vote (drop_read b))"

section \<open>Proposals and view changes\<close>

definition propose ::
    "crypto_lib \<Rightarrow> 'k key_lib \<Rightarrow> Hash \<Rightarrow> Hash list \<Rightarrow> 'k BftConsensus
       \<Rightarrow> ('k BftConsensus \<times> Proposal ConsensusResult) run" where
  "propose lib kl h parents b =
     run_bind (is_leader b) (\<lambda>(b, leader).
     if \<not> leader then Ret (b, Inl CE_NotLeader)
     else run_bind (state_read b) (\<lambda>b.
       let s = round_state b;
           p = \<lparr>pr_proposer = key_address (bc_keys b), pr_view = rs_view s, pr_epoch = rs_epoch s,
                pr_vertex_hash = h, pr_parents = parents, pr_signature = []\<rparr>;
           p = p\<lparr>pr_signature := sign_hash kl (bc_keys b) (Proposal_signing_hash lib p)\<rparr>
       in run_bind (state_write (drop_read b)) (\<lambda>b.
          let s = round_state b;
              b = drop_write (set_round (s\<lparr>rs_proposal := Some p, rs_phase := Prepare\<rparr>) b)
          in run_map (\<lambda>(b, res). (b, case res of Inl e \<Rightarrow> Inl e | Inr _ \<Rightarrow> Inr p))
               (vote_prepare lib kl h b))))"

definition on_proposal ::
    "crypto_lib \<Rightarrow> 'k key_lib \<Rightarrow> Proposal \<Rightarrow> 'k BftConsensus \<Rightarrow> ('k BftConsensus \<times> unit ConsensusResult) run" where
  "on_proposal lib kl p b =
     run_bind (state_read b) (\<lambda>b.
     let s = round_state b
     in if pr_view p \<noteq> rs_view s
        then Ret (drop_read b, Inl (CE_InvalidProposal
               (''View mismatch: expected '' @ dec_digits (unat (rs_view s)) @ '', got ''
                @ dec_digits (unat (pr_view p)))))
        else if (case rs_locked_vertex s of None \<Rightarrow> False
                 | Some locked \<Rightarrow> pr_vertex_hash p \<noteq> locked \<and> pr_view p \<le> rs_locked_view s)
        then Ret (drop_read b, Inl (CE_InvalidProposal ''Proposal conflicts with locked vertex''))
        else (case vs_get (bc_validator_set b) (pr_proposer p) of
                None \<Rightarrow> Ret (drop_read b, Inl (CE_UnknownValidator (pr_proposer p)))
              | Some proposer \<Rightarrow>
                if \<not> verify_ecdsa lib (v_pubkey proposer) (as_bytes (Proposal_signing_hash lib p))
                       (pr_signature p)
                then Ret (drop_read b, Inl CE_InvalidSignature)
                else run_bind (state_write b) (\<lambda>b.
                  let s = round_state b;
                      b = drop_write (set_round (s\<lparr>rs_proposal := Some p, rs_phase := Prepare\<rparr>) b)
                  in run_map (\<lambda>(b, res). (drop_read b, res))
                       (vote_prepare lib kl (pr_vertex_hash p) b))))"

definition on_view_change ::
    "ViewChangeRequest \<Rightarrow> 'k BftConsensus \<Rightarrow> ('k BftConsensus \<times> unit ConsensusResult) run" where
  "on_view_change req b =
     (case vs_get (bc_validator_set b) (vc_requester req) of
        None \<Rightarrow> Ret (b, Inl (CE_UnknownValidator (vc_requester req)))
      | Some _ \<Rightarrow>
        let votes = hset_get (bc_view_change_votes b) (vc_new_view req) @ [req];
            b = b\<lparr>bc_view_change_votes := hput (vc_new_view req) votes (bc_view_change_votes b)\<rparr>;
            vc_stake = voters_stake (bc_validator_set b) (map vc_requester votes)
        in if has_supermajority (bc_validator_set b) vc_stake
           then run_bind (state_write b) (\<lambda>b.
             let s = round_state b
             in Ret (drop_write (set_round
                  (s\<lparr>rs_view := vc_new_view req, rs_phase := NewRound, rs_proposal := None,
                     rs_prepare_votes := [], rs_commit_votes := []\<rparr>) b), Inr ()))
           else Ret (b, Inr ()))"

definition request_view_change ::
    "crypto_lib \<Rightarrow> 'k key_lib \<Rightarrow> u64 \<Rightarrow> 'k BftConsensus \<Rightarrow> ('k BftConsensus \<times> unit ConsensusResult) run" where
  "request_view_change lib kl new_view b =
     run_bind (state_read b) (\<lambda>b.
     let req = \<lparr>vc_requester = key_address (bc_keys b), vc_new_view = new_view,
                vc_last_prepared = rs_locked_vertex (round_state b),
                vc_signature = keys_sign lib kl (bc_keys b) (u64_to_le_bytes new_view)\<rparr>
     in on_view_change req (drop_read b))"

section \<open>Queries\<close>

definition is_finalized :: "'k BftConsensus \<Rightarrow> Hash \<Rightarrow> bool" where
  "is_finalized b h \<longleftrightarrow> h \<in> set (bc_finalized b)"

definition current_view :: "'k BftConsensus \<Rightarrow> ('k BftConsensus \<times> u64) run" where
  "current_view b = run_bind (state_read b) (\<lambda>b. Ret (drop_read b, rs_view (round_state b)))"

definition current_phase :: "'k BftConsensus \<Rightarrow> ('k BftConsensus \<times> BftPhase) run" where
  "current_phase b = run_bind (state_read b) (\<lambda>b. Ret (drop_read b, rs_phase (round_state b)))"

definition get_finality_certificate ::
    "'k BftConsensus \<Rightarrow> Hash \<Rightarrow> ('k BftConsensus \<times> CommitVote list option) run" where
  "get_finality_certificate b h =
     run_bind (state_read b) (\<lambda>b.
     let commits = filter (\<lambda>v. cv_vertex_hash v = h) (hvalues (rs_commit_votes (round_state b)));
         s = voters_stake (bc_validator_set b) (map cv_voter commits)
     in Ret (drop_read b,
             if has_supermajority (bc_validator_set b) s then Some commits else None))"

section \<open>The handlers on a free lock\<close>

lemmas lock_defs = state_read_def state_write_def drop_read_def drop_write_def set_round_def rw_defs

lemma rw_free_iff: "rw_free l \<longleftrightarrow> (\<exists>s. l = rw_new s)"
  by (cases l) (auto simp: rw_defs)

lemma rw_free_new [simp]: "rw_free (rw_new s)" "rw_data (rw_new s) = s"
  by (simp_all add: rw_defs)

abbreviation next_round :: "u64 \<Rightarrow> BftRoundState \<Rightarrow> BftRoundState" where
  "next_round w s \<equiv> s\<lparr>rs_view := w, rs_phase := NewRound, rs_proposal := None,
     rs_prepare_votes := [], rs_commit_votes := []\<rparr>"

definition commit_recorded :: "CommitVote \<Rightarrow> BftRoundState \<Rightarrow> BftRoundState" where
  "commit_recorded vote s = s\<lparr>rs_commit_votes := hput (cv_voter vote) vote (rs_commit_votes s)\<rparr>"

definition prepare_recorded :: "PrepareVote \<Rightarrow> BftRoundState \<Rightarrow> BftRoundState" where
  "prepare_recorded vote s = s\<lparr>rs_prepare_votes := hput (pv_voter vote) vote (rs_prepare_votes s)\<rparr>"

definition commit_stake :: "ValidatorSet \<Rightarrow> BftRoundState \<Rightarrow> u64" where
  "commit_stake vs s = voters_stake vs (map cv_voter (hvalues (rs_commit_votes s)))"

definition prepare_stake :: "ValidatorSet \<Rightarrow> BftRoundState \<Rightarrow> u64" where
  "prepare_stake vs s = voters_stake vs (map pv_voter (hvalues (rs_prepare_votes s)))"

definition signed_commit :: "crypto_lib \<Rightarrow> ValidatorSet \<Rightarrow> CommitVote \<Rightarrow> bool" where
  "signed_commit lib vs vote =
     (case vs_get vs (cv_voter vote) of None \<Rightarrow> False
      | Some v \<Rightarrow> verify_ecdsa lib (v_pubkey v) (as_bytes (CommitVote_signing_hash lib vote))
                   (cv_signature vote))"

definition signed_prepare :: "crypto_lib \<Rightarrow> ValidatorSet \<Rightarrow> PrepareVote \<Rightarrow> bool" where
  "signed_prepare lib vs vote =
     (case vs_get vs (pv_voter vote) of None \<Rightarrow> False
      | Some v \<Rightarrow> verify_ecdsa lib (v_pubkey v) (as_bytes (PrepareVote_signing_hash lib vote))
                   (pv_signature vote))"

lemma advance_view_free:
  "bc_state b = rw_new s \<Longrightarrow>
     advance_view b = Ret (b\<lparr>bc_state := rw_new (next_round (rs_view s + 1) s)\<rparr>)"
  by (simp add: advance_view_def lock_defs)

lemma on_commit_free:
  assumes "bc_state b = rw_new s"
  shows "on_commit lib vote b =
    (if vs_get (bc_validator_set b) (cv_voter vote) = None
     then Ret (b, Inl (CE_UnknownValidator (cv_voter vote)))
     else if \<not> signed_commit lib (bc_validator_set b) vote then Ret (b, Inl CE_InvalidSignature)
     else if rs_phase s \<noteq> Commit then Ret (b, Inr None)
     else if hcontains (rs_commit_votes s) (cv_voter vote) then Ret (b, Inl CE_DuplicateVote)
     else if has_supermajority (bc_validator_set b)
               (commit_stake (bc_validator_set b) (commit_recorded vote s))
     then Ret (b\<lparr>bc_state := rw_new (next_round (rs_view s + 1) (commit_recorded vote s)),
                 bc_finalized := List.insert (cv_vertex_hash vote) (bc_finalized b)\<rparr>,
               Inr (Some (cv_vertex_hash vote)))
     else Ret (b\<lparr>bc_state := rw_new (commit_recorded vote s)\<rparr>, Inr None))"
  using assms
  by (cases b) (auto simp: on_commit_def lock_defs signed_commit_def commit_stake_def
      commit_recorded_def advance_view_def Let_def split: option.split)

text \<open>The engine's own votes.\<close>

definition own_commit :: "crypto_lib \<Rightarrow> 'k key_lib \<Rightarrow> 'k ValidatorKeys \<Rightarrow> u64 \<Rightarrow> Hash \<Rightarrow> CommitVote" where
  "own_commit lib kl ks w h =
     \<lparr>cv_voter = key_address ks, cv_view = w, cv_vertex_hash = h,
      cv_signature = sign_hash kl ks
        (Hash_new (keccak256 lib ([0x02] @ u64_to_le_bytes w @ as_bytes h)))\<rparr>"

definition own_prepare :: "crypto_lib \<Rightarrow> 'k key_lib \<Rightarrow> 'k ValidatorKeys \<Rightarrow> u64 \<Rightarrow> Hash \<Rightarrow> PrepareVote" where
  "own_prepare lib kl ks w h =
     \<lparr>pv_voter = key_address ks, pv_view = w, pv_vertex_hash = h,
      pv_signature = sign_hash kl ks
        (Hash_new (keccak256 lib ([0x01] @ u64_to_le_bytes w @ as_bytes h)))\<rparr>"

definition own_proposal ::
    "crypto_lib \<Rightarrow> 'k key_lib \<Rightarrow> 'k ValidatorKeys \<Rightarrow> BftRoundState \<Rightarrow> Hash \<Rightarrow> Hash list \<Rightarrow> Proposal" where
  "own_proposal lib kl ks s h parents =
     (let p = \<lparr>pr_proposer = key_address ks, pr_view = rs_view s, pr_epoch = rs_epoch s,
               pr_vertex_hash = h, pr_parents = parents, pr_signature = []\<rparr>
      in p\<lparr>pr_signature := sign_hash kl ks (Proposal_signing_hash lib p)\<rparr>)"

definition leads :: "'k BftConsensus \<Rightarrow> bool" where
  "leads b = (let active = map v_address (active_validators (bc_validator_set b))
     in active \<noteq> [] \<and> active ! (unat (rs_view (round_state b)) mod length active)
                        = key_address (bc_keys b))"

definition ok_unit :: "'b ConsensusResult \<Rightarrow> unit ConsensusResult" where
  "ok_unit res = (case res of Inl e \<Rightarrow> Inl e | Inr _ \<Rightarrow> Inr ())"

lemma record_idle: "bc_state b = l \<Longrightarrow> b\<lparr>bc_state := l\<rparr> = b"
  by (cases b) simp

lemma vote_commit_free:
  "bc_state b = rw_new s \<Longrightarrow> vote_commit lib kl h b
     = run_map (\<lambda>(b, res). (b, ok_unit res))
         (on_commit lib (own_commit lib kl (bc_keys b) (rs_view s) h) b)"
  by (cases b) (simp add: vote_commit_def lock_defs own_commit_def ok_unit_def Let_def)

lemma on_prepare_free:
  assumes "bc_state b = rw_new s"
  shows "on_prepare lib kl vote b =
    (if vs_get (bc_validator_set b) (pv_voter vote) = None
     then Ret (b, Inl (CE_UnknownValidator (pv_voter vote)))
     else if \<not> signed_prepare lib (bc_validator_set b) vote then Ret (b, Inl CE_InvalidSignature)
     else if rs_phase s \<noteq> Prepare then Ret (b, Inr ())
     else if hcontains (rs_prepare_votes s) (pv_voter vote) then Ret (b, Inl CE_DuplicateVote)
     else if has_supermajority (bc_validator_set b)
               (prepare_stake (bc_validator_set b) (prepare_recorded vote s))
     then vote_commit lib kl (pv_vertex_hash vote)
            (b\<lparr>bc_state := rw_new ((prepare_recorded vote s)\<lparr>rs_locked_vertex := Some (pv_vertex_hash vote),
                 rs_locked_view := rs_view s, rs_phase := Commit\<rparr>)\<rparr>)
     else Ret (b\<lparr>bc_state := rw_new (prepare_recorded vote s)\<rparr>, Inr ()))"
  using assms
  by (cases b) (auto simp: on_prepare_def lock_defs signed_prepare_def prepare_stake_def
      prepare_recorded_def Let_def split: option.split)

lemma vote_prepare_free:
  "bc_state b = rw_new s \<Longrightarrow> vote_prepare lib kl h b
     = on_prepare lib kl (own_prepare lib kl (bc_keys b) (rs_view s) h) b"
  by (cases b) (simp add: vote_prepare_def lock_defs own_prepare_def Let_def)

lemma is_leader_free: "bc_state b = rw_new s \<Longrightarrow> is_leader b = Ret (b, leads b)"
  by (cases b) (auto simp: is_leader_def lock_defs leads_def Let_def)

lemma propose_free:
  "bc_state b = rw_new s \<Longrightarrow> propose lib kl h parents b =
     (if \<not> leads b then Ret (b, Inl CE_NotLeader)
      else run_map (\<lambda>(b', res). (b', case res of Inl e \<Rightarrow> Inl e
                                | Inr _ \<Rightarrow> Inr (own_proposal lib kl (bc_keys b) s h parents)))
        (vote_prepare lib kl h (b\<lparr>bc_state := rw_new
           (s\<lparr>rs_proposal := Some (own_proposal lib kl (bc_keys b) s h parents), rs_phase := Prepare\<rparr>)\<rparr>)))"
  by (cases b) (simp add: propose_def is_leader_free lock_defs own_proposal_def Let_def cong: sum.case_cong)

lemma on_view_change_free:
  "bc_state b = rw_new s \<Longrightarrow> on_view_change req b =
     (if vs_get (bc_validator_set b) (vc_requester req) = None
      then Ret (b, Inl (CE_UnknownValidator (vc_requester req)))
      else let votes = hset_get (bc_view_change_votes b) (vc_new_view req) @ [req];
               b' = b\<lparr>bc_view_change_votes := hput (vc_new_view req) votes (bc_view_change_votes b)\<rparr>
           in if has_supermajority (bc_validator_set b)
                   (voters_stake (bc_validator_set b) (map vc_requester votes))
              then Ret (b'\<lparr>bc_state := rw_new (next_round (vc_new_view req) s)\<rparr>, Inr ())
              else Ret (b', Inr ()))"
  by (cases b) (auto simp: on_view_change_def lock_defs Let_def split: option.split)

lemma request_view_change_free:
  "bc_state b = rw_new s \<Longrightarrow> request_view_change lib kl w b =
     on_view_change \<lparr>vc_requester = key_address (bc_keys b), vc_new_view = w,
       vc_last_prepared = rs_locked_vertex s,
       vc_signature = keys_sign lib kl (bc_keys b) (u64_to_le_bytes w)\<rparr> b"
  by (cases b) (simp add: request_view_change_def lock_defs)

text \<open>
  A received proposal that passes every check is accepted with the read guard still held, and the
  wait for the write guard never ends.
\<close>

lemma on_proposal_free:
  assumes "bc_state b = rw_new s"
  shows "on_proposal lib kl p b =
    (if pr_view p \<noteq> rs_view s
     then Ret (b, Inl (CE_InvalidProposal
            (''View mismatch: expected '' @ dec_digits (unat (rs_view s)) @ '', got ''
             @ dec_digits (unat (pr_view p)))))
     else if \<exists>locked. rs_locked_vertex s = Some locked \<and> pr_vertex_hash p \<noteq> locked
               \<and> pr_view p \<le> rs_locked_view s
     then Ret (b, Inl (CE_InvalidProposal ''Proposal conflicts with locked vertex''))
     else case vs_get (bc_validator_set b) (pr_proposer p) of
            None \<Rightarrow> Ret (b, Inl (CE_UnknownValidator (pr_proposer p)))
          | Some v \<Rightarrow> if verify_ecdsa lib (v_pubkey v) (as_bytes (Proposal_signing_hash lib p))
                         (pr_signature p)
                     then Blocked else Ret (b, Inl CE_InvalidSignature))"
  using assms by (cases b) (auto simp: on_proposal_def lock_defs Let_def split: option.split)

lemmas bft_free = advance_view_free on_commit_free vote_commit_free on_prepare_free
  vote_prepare_free propose_free on_view_change_free request_view_change_free on_proposal_free

section \<open>Invariant\<close>

definition votes_signed :: "crypto_lib \<Rightarrow> ValidatorSet \<Rightarrow> BftRoundState \<Rightarrow> bool" where
  "votes_signed lib vs s \<longleftrightarrow>
     wf_hmap (rs_prepare_votes s) \<and> wf_hmap (rs_commit_votes s)
     \<and> (\<forall>a v. hget (rs_prepare_votes s) a = Some v \<longrightarrow> pv_voter v = a \<and> signed_prepare lib vs v)
     \<and> (\<forall>a v. hget (rs_commit_votes s) a = Some v \<longrightarrow> cv_voter v = a \<and> signed_commit lib vs v)"

definition phase_ok :: "ValidatorSet \<Rightarrow> BftRoundState \<Rightarrow> bool" where
  "phase_ok vs s \<longleftrightarrow>
     (case rs_phase s of
        NewRound \<Rightarrow> rs_prepare_votes s = [] \<and> rs_commit_votes s = [] \<and> rs_proposal s = None
      | Prepare \<Rightarrow> rs_proposal s \<noteq> None
      | Commit \<Rightarrow> rs_proposal s \<noteq> None \<and> rs_locked_vertex s \<noteq> None \<and> rs_locked_view s = rs_view s
                  \<and> has_supermajority vs (prepare_stake vs s)
      | Finalized \<Rightarrow> False)"

definition bft_inv :: "crypto_lib \<Rightarrow> 'k BftConsensus \<Rightarrow> bool" where
  "bft_inv lib b \<longleftrightarrow>
     rw_free (bc_state b) \<and> votes_signed lib (bc_validator_set b) (round_state b)
     \<and> phase_ok (bc_validator_set b) (round_state b)"

text \<open>What one call may do: keep the set of validators and the invariant, and finalize only on
  the commit votes of a supermajority.\<close>

definition certified :: "crypto_lib \<Rightarrow> ValidatorSet \<Rightarrow> Hash \<Rightarrow> bool" where
  "certified lib vs h \<longleftrightarrow>
     (\<exists>cs. distinct (map cv_voter cs) \<and> (\<forall>v \<in> set cs. signed_commit lib vs v)
           \<and> has_supermajority vs (voters_stake vs (map cv_voter cs))
           \<and> (\<exists>v \<in> set cs. cv_vertex_hash v = h))"

definition good_step :: "crypto_lib \<Rightarrow> 'k BftConsensus \<Rightarrow> 'k BftConsensus \<Rightarrow> bool" where
  "good_step lib b b' \<longleftrightarrow>
     bft_inv lib b' \<and> bc_validator_set b' = bc_validator_set b
     \<and> set (bc_finalized b) \<subseteq> set (bc_finalized b')
     \<and> (\<forall>h \<in> set (bc_finalized b'). h \<in> set (bc_finalized b) \<or> certified lib (bc_validator_set b) h)"

lemma bft_inv_new: "bft_inv lib (BftConsensus_new ks vs)"
  by (simp add: bft_inv_def BftConsensus_new_def votes_signed_def phase_ok_def BftRoundState_default_def)

lemma bft_inv_free: "bft_inv lib b \<Longrightarrow> bc_state b = rw_new (round_state b)"
  by (auto simp: bft_inv_def rw_free_iff)

lemma good_step_refl: "bft_inv lib b \<Longrightarrow> good_step lib b b"
  by (simp add: good_step_def)

lemma votes_signed_next [simp]: "votes_signed lib vs (next_round w s)"
  and phase_ok_next [simp]: "phase_ok vs (next_round w s)"
  by (simp_all add: votes_signed_def phase_ok_def)

lemma signed_commit_known: "signed_commit lib vs v \<Longrightarrow> vs_get vs (cv_voter v) \<noteq> None"
  by (auto simp: signed_commit_def split: option.splits)

lemma votes_signed_commit:
  "votes_signed lib vs s \<Longrightarrow> signed_commit lib vs v \<Longrightarrow> votes_signed lib vs (commit_recorded v s)"
  by (simp add: votes_signed_def commit_recorded_def)

lemma votes_signed_prepare:
  "votes_signed lib vs s \<Longrightarrow> signed_prepare lib vs v \<Longrightarrow> votes_signed lib vs (prepare_recorded v s)"
  by (simp add: votes_signed_def prepare_recorded_def)

lemma map_voter_keys:
  "(\<And>a v. hget m a = Some v \<Longrightarrow> voter v = a) \<Longrightarrow> wf_hmap m \<Longrightarrow> map voter (hvalues m) = map fst m"
  by (auto simp: hvalues_def hget_iff)

lemma certified_commits:
  assumes "votes_signed lib vs s" and "has_supermajority vs (commit_stake vs s)"
    and "hget (rs_commit_votes s) (cv_voter v) = Some v"
  shows "certified lib vs (cv_vertex_hash v)"
  unfolding certified_def
proof (intro exI [of _ "hvalues (rs_commit_votes s)"] conjI ballI)
  let ?m = "rs_commit_votes s"
  from assms(1) have wf: "wf_hmap ?m" and val: "\<And>a v. hget ?m a = Some v \<Longrightarrow> cv_voter v = a"
    by (simp_all add: votes_signed_def)
  show "distinct (map cv_voter (hvalues ?m))"
    using wf map_voter_keys [of ?m cv_voter, OF val wf] by (simp add: wf_hmap_def)
  show "has_supermajority vs (voters_stake vs (map cv_voter (hvalues ?m)))"
    using assms(2) by (simp add: commit_stake_def)
  show "signed_commit lib vs u" if u: "u \<in> set (hvalues ?m)" for u
  proof -
    from u obtain a where "hget ?m a = Some u" using wf by (auto simp: hvalues_def hget_iff)
    with assms(1) show ?thesis unfolding votes_signed_def by blast
  qed
  show "\<exists>u \<in> set (hvalues ?m). cv_vertex_hash u = cv_vertex_hash v"
    using hget_in_set [OF assms(3)] by (force simp: hvalues_def)
qed

lemma on_commit_good:
  assumes inv: "bft_inv lib b" and ret: "on_commit lib vote b = Ret (b', res)"
  shows "good_step lib b b'"
proof -
  let ?vs = "bc_validator_set b" and ?s = "round_state b"
  note st = bft_inv_free [OF inv]
  have vs: "votes_signed lib ?vs ?s" and ph: "phase_ok ?vs ?s" using inv by (simp_all add: bft_inv_def)
  have cert: "certified lib ?vs (cv_vertex_hash vote)"
    if "signed_commit lib ?vs vote"
      "has_supermajority ?vs (commit_stake ?vs (commit_recorded vote ?s))"
    using that certified_commits [OF votes_signed_commit [OF vs that(1)]]
    by (simp add: commit_recorded_def)
  have rec: "phase_ok ?vs (commit_recorded vote ?s)" if "rs_phase ?s = Commit"
    using ph that by (simp add: phase_ok_def commit_recorded_def prepare_stake_def)
  show ?thesis
    using ret inv vs cert rec unfolding on_commit_free [OF st]
    by (auto simp: good_step_def bft_inv_def votes_signed_commit split: if_splits)
qed

lemma good_step_set_round:
  "good_step lib (b\<lparr>bc_state := l\<rparr>) b' \<Longrightarrow> good_step lib b b'"
  by (simp add: good_step_def)

lemma vote_commit_good:
  "bft_inv lib b \<Longrightarrow> vote_commit lib kl h b = Ret (b', res) \<Longrightarrow> good_step lib b b'"
  using vote_commit_free [OF bft_inv_free, of lib b lib kl h] on_commit_good by auto

lemma on_prepare_good:
  assumes inv: "bft_inv lib b" and ret: "on_prepare lib kl vote b = Ret (b', res)"
  shows "good_step lib b b'"
proof -
  let ?vs = "bc_validator_set b" and ?s = "round_state b"
  let ?locked = "(prepare_recorded vote ?s)\<lparr>rs_locked_vertex := Some (pv_vertex_hash vote),
                 rs_locked_view := rs_view ?s, rs_phase := Commit\<rparr>"
  note st = bft_inv_free [OF inv]
  have vs: "votes_signed lib ?vs ?s" and ph: "phase_ok ?vs ?s" using inv by (simp_all add: bft_inv_def)
  have rec: "phase_ok ?vs (prepare_recorded vote ?s)" if "rs_phase ?s = Prepare"
    using ph that by (simp add: phase_ok_def prepare_recorded_def)
  have lock: "bft_inv lib (b\<lparr>bc_state := rw_new ?locked\<rparr>)"
    if "rs_phase ?s = Prepare" "signed_prepare lib ?vs vote"
      "has_supermajority ?vs (prepare_stake ?vs (prepare_recorded vote ?s))"
  proof -
    have "votes_signed lib ?vs ?locked"
      using votes_signed_prepare [OF vs that(2)] by (simp add: votes_signed_def)
    moreover have "phase_ok ?vs ?locked"
      using ph that(1,3) by (simp add: phase_ok_def prepare_recorded_def prepare_stake_def)
    ultimately show ?thesis by (simp add: bft_inv_def)
  qed
  show ?thesis
  proof (cases "vs_get ?vs (pv_voter vote) = None \<or> \<not> signed_prepare lib ?vs vote
      \<or> rs_phase ?s \<noteq> Prepare \<or> hcontains (rs_prepare_votes ?s) (pv_voter vote)")
    case True
    then have "b' = b" using ret unfolding on_prepare_free [OF st] by (auto split: if_splits)
    then show ?thesis using inv by (simp add: good_step_refl)
  next
    case False
    then have signed: "signed_prepare lib ?vs vote" and phase: "rs_phase ?s = Prepare" by simp_all
    show ?thesis
    proof (cases "has_supermajority ?vs (prepare_stake ?vs (prepare_recorded vote ?s))")
      case True
      with False ret have "vote_commit lib kl (pv_vertex_hash vote) (b\<lparr>bc_state := rw_new ?locked\<rparr>)
          = Ret (b', res)"
        unfolding on_prepare_free [OF st] by (auto split: if_splits)
      from vote_commit_good [OF lock [OF phase signed True] this] show ?thesis
        by (rule good_step_set_round)
    next
      case notmaj: False
      with False ret have "b' = b\<lparr>bc_state := rw_new (prepare_recorded vote ?s)\<rparr>"
        unfolding on_prepare_free [OF st] by (auto split: if_splits)
      then show ?thesis using rec [OF phase] votes_signed_prepare [OF vs signed]
        by (simp add: good_step_def bft_inv_def)
    qed
  qed
qed

lemma vote_prepare_good:
  "bft_inv lib b \<Longrightarrow> vote_prepare lib kl h b = Ret (b', res) \<Longrightarrow> good_step lib b b'"
  using vote_prepare_free [OF bft_inv_free, of lib b lib kl h] on_prepare_good by auto

lemma propose_good:
  assumes inv: "bft_inv lib b" and ret: "propose lib kl h parents b = Ret (b', res)"
  shows "good_step lib b b'"
proof -
  let ?p = "own_proposal lib kl (bc_keys b) (round_state b) h parents"
  have "bft_inv lib (b\<lparr>bc_state := rw_new ((round_state b)\<lparr>rs_proposal := Some ?p, rs_phase := Prepare\<rparr>)\<rparr>)"
    using inv by (auto simp: bft_inv_def votes_signed_def phase_ok_def)
  with ret inv show ?thesis
    unfolding propose_free [OF bft_inv_free [OF inv]]
    by (auto simp: good_step_refl split: if_splits dest: vote_prepare_good intro: good_step_set_round)
qed

lemma on_view_change_good:
  "bft_inv lib b \<Longrightarrow> on_view_change req b = Ret (b', res) \<Longrightarrow> good_step lib b b'"
  using on_view_change_free [OF bft_inv_free, of lib b req]
  by (auto simp: good_step_def bft_inv_def Let_def split: if_splits)

lemma on_proposal_good:
  "bft_inv lib b \<Longrightarrow> on_proposal lib kl p b = Ret (b', res) \<Longrightarrow> b' = b \<and> (\<exists>e. res = Inl e)"
  using on_proposal_free [OF bft_inv_free, of lib b lib kl p]
  by (auto split: if_splits option.splits)

lemma advance_view_good: "bft_inv lib b \<Longrightarrow> advance_view b = Ret b' \<Longrightarrow> good_step lib b b'"
  using advance_view_free [OF bft_inv_free, of lib b] by (auto simp: good_step_def bft_inv_def)

section \<open>Runs\<close>

inductive bft_step :: "crypto_lib \<Rightarrow> 'k key_lib \<Rightarrow> 'k BftConsensus \<Rightarrow> 'k BftConsensus \<Rightarrow> bool"
  for lib :: crypto_lib and kl :: "'k key_lib" where
  step_propose: "propose lib kl h parents b = Ret (b', res) \<Longrightarrow> bft_step lib kl b b'"
| step_proposal: "on_proposal lib kl p b = Ret (b', r) \<Longrightarrow> bft_step lib kl b b'"
| step_vote_prepare: "vote_prepare lib kl h b = Ret (b', r) \<Longrightarrow> bft_step lib kl b b'"
| step_prepare: "on_prepare lib kl pv b = Ret (b', r) \<Longrightarrow> bft_step lib kl b b'"
| step_vote_commit: "vote_commit lib kl h b = Ret (b', r) \<Longrightarrow> bft_step lib kl b b'"
| step_commit: "on_commit lib cv b = Ret (b', ro) \<Longrightarrow> bft_step lib kl b b'"
| step_request: "request_view_change lib kl w b = Ret (b', r) \<Longrightarrow> bft_step lib kl b b'"
| step_view_change: "on_view_change req b = Ret (b', r) \<Longrightarrow> bft_step lib kl b b'"
| step_advance: "advance_view b = Ret b' \<Longrightarrow> bft_step lib kl b b'"

inductive_cases bft_stepE: "bft_step lib kl b b'"

lemma bft_step_good:
  assumes "bft_step lib kl b b'" and "bft_inv lib b"
  shows "good_step lib b b'"
  using assms
proof (cases rule: bft_step.cases)
  case (step_proposal p r)
  then show ?thesis using assms(2) on_proposal_good good_step_refl by metis
next
  case (step_request w r)
  then show ?thesis using assms(2) request_view_change_free [OF bft_inv_free [OF assms(2)]]
    by (auto intro: on_view_change_good)
qed (use assms(2) in \<open>auto intro: propose_good vote_prepare_good on_prepare_good vote_commit_good
    on_commit_good on_view_change_good advance_view_good\<close>)

text \<open>A leader with a supermajority of its own runs all phases inside \<open>propose\<close>.\<close>

lemma propose_alone:
  assumes inv: "bft_inv lib b" and phase: "rs_phase (round_state b) = NewRound" and "leads b"
    and me: "vs_get (bc_validator_set b) (key_address (bc_keys b)) = Some v"
    and maj: "has_supermajority (bc_validator_set b) (v_stake v)"
    and sign: "\<And>m. verify_ecdsa lib (v_pubkey v) (as_bytes m) (sign_hash kl (bc_keys b) m)"
  shows "\<exists>b' p. propose lib kl h parents b = Ret (b', Inr p) \<and> pr_vertex_hash p = h
    \<and> is_finalized b' h \<and> rs_view (round_state b') = rs_view (round_state b) + 1"
proof -
  let ?vs = "bc_validator_set b" and ?s = "round_state b"
  note st = bft_inv_free [OF inv]
  have empty: "rs_prepare_votes ?s = []" "rs_commit_votes ?s = []"
    using inv phase by (simp_all add: bft_inv_def phase_ok_def)
  have sp: "signed_prepare lib ?vs (own_prepare lib kl (bc_keys b) w h)"
    and sc: "signed_commit lib ?vs (own_commit lib kl (bc_keys b) w h)" for w
    using me sign by (simp_all add: signed_prepare_def signed_commit_def own_prepare_def
        own_commit_def PrepareVote_signing_hash_def CommitVote_signing_hash_def)
  define p where "p = own_proposal lib kl (bc_keys b) ?s h parents"
  define s1 where "s1 = ?s\<lparr>rs_proposal := Some p, rs_phase := Prepare\<rparr>"
  define b1 where "b1 = b\<lparr>bc_state := rw_new s1\<rparr>"
  define pv where "pv = own_prepare lib kl (bc_keys b) (rs_view ?s) h"
  define s2 where "s2 = (prepare_recorded pv s1)\<lparr>rs_locked_vertex := Some h,
     rs_locked_view := rs_view ?s, rs_phase := Commit\<rparr>"
  define b2 where "b2 = b\<lparr>bc_state := rw_new s2\<rparr>"
  define cv where "cv = own_commit lib kl (bc_keys b) (rs_view ?s) h"
  define b3 where "b3 = b\<lparr>bc_state := rw_new (next_round (rs_view ?s + 1) (commit_recorded cv s2)),
     bc_finalized := List.insert h (bc_finalized b)\<rparr>"
  have fields: "pv_voter pv = key_address (bc_keys b)" "pv_vertex_hash pv = h"
    "cv_voter cv = key_address (bc_keys b)" "cv_vertex_hash cv = h"
    by (simp_all add: pv_def cv_def own_prepare_def own_commit_def)
  have sp': "signed_prepare lib ?vs pv" and sc': "signed_commit lib ?vs cv"
    using sp sc by (simp_all add: pv_def cv_def)
  have st1: "bc_state b1 = rw_new s1" and st2: "bc_state b2 = rw_new s2"
    by (simp_all add: b1_def b2_def)
  have "on_commit lib cv b2 = Ret (b3, Inr (Some h))"
    unfolding on_commit_free [OF st2]
    using me maj sc' empty fields
    by (simp add: b2_def b3_def s2_def s1_def prepare_recorded_def
        commit_recorded_def commit_stake_def voters_stake_def hput_def hvalues_def
        List.map_filter_simps)
  then have vc: "vote_commit lib kl h b2 = Ret (b3, Inr ())"
    unfolding vote_commit_free [OF st2]
    by (simp add: b2_def s2_def s1_def prepare_recorded_def cv_def ok_unit_def)
  have "on_prepare lib kl pv b1 = vote_commit lib kl h b2"
    unfolding on_prepare_free [OF st1]
    using me maj sp' empty fields
    by (simp add: b1_def b2_def s2_def s1_def prepare_recorded_def
        prepare_stake_def voters_stake_def hput_def hvalues_def List.map_filter_simps)
  with vc have "vote_prepare lib kl h b1 = Ret (b3, Inr ())"
    unfolding vote_prepare_free [OF st1] by (simp add: b1_def s1_def pv_def)
  then have "propose lib kl h parents b = Ret (b3, Inr p)"
    unfolding propose_free [OF st] using \<open>leads b\<close> by (simp add: p_def s1_def b1_def)
  then show ?thesis
    by (auto simp: b3_def p_def own_proposal_def is_finalized_def Let_def)
qed

lemma on_commit_finalizes:
  assumes "bc_state b = rw_new s" and "rs_phase s = Commit"
    and "signed_commit lib (bc_validator_set b) vote" and "hget (rs_commit_votes s) (cv_voter vote) = None"
    and "has_supermajority (bc_validator_set b)
           (commit_stake (bc_validator_set b) (commit_recorded vote s))"
  shows "on_commit lib vote b
    = Ret (b\<lparr>bc_state := rw_new (next_round (rs_view s + 1) (commit_recorded vote s)),
             bc_finalized := List.insert (cv_vertex_hash vote) (bc_finalized b)\<rparr>,
           Inr (Some (cv_vertex_hash vote)))"
  using assms(2-5) signed_commit_known [OF assms(3)] by (simp add: on_commit_free [OF assms(1)])

text \<open>Stake-weighted choice.\<close>

definition leader_draw :: "crypto_lib \<Rightarrow> BftRoundState \<Rightarrow> nat" where
  "leader_draw lib s =
     be_val (take 16 (keccak256 lib (u64_to_le_bytes (rs_view s) @ u64_to_le_bytes (rs_epoch s))))"

abbreviation nat_stakes :: "Validator list \<Rightarrow> nat" where
  "nat_stakes vs \<equiv> sum_list (map (\<lambda>v. unat (v_stake v)) vs)"

lemma unat_ucast_stake: "unat (ucast (s::u64) :: u128) = unat s"
  using unat_lt2p [of s] by (simp add: unsigned_ucast_eq take_bit_nat_eq_self)

lemma pick_by_stake_interval:
  assumes "unat cum + nat_stakes vs < 2 ^ 128" "unat cum \<le> unat target"
    "unat target < unat cum + nat_stakes vs"
  shows "\<exists>i < length vs. pick_by_stake target cum vs = Some (v_address (vs ! i))
    \<and> unat cum + nat_stakes (take i vs) \<le> unat target
    \<and> unat target < unat cum + nat_stakes (take (Suc i) vs)"
  using assms
proof (induction vs arbitrary: cum)
  case Nil
  then show ?case by simp
next
  case (Cons v vs)
  let ?c = "cum + ucast (v_stake v) :: u128"
  have c: "unat ?c = unat cum + unat (v_stake v)"
    using Cons.prems(1) by (subst unat_add_no_overflow) (simp_all add: unat_ucast_stake)
  show ?case
  proof (cases "target < ?c")
    case True
    then show ?thesis using c Cons.prems(2)
      by (intro exI [of _ 0]) (simp add: word_less_nat_alt Let_def)
  next
    case False
    then obtain i where "i < length vs" "pick_by_stake target ?c vs = Some (v_address (vs ! i))"
      "unat ?c + nat_stakes (take i vs) \<le> unat target"
      "unat target < unat ?c + nat_stakes (take (Suc i) vs)"
      using Cons.IH [of ?c] Cons.prems c by (auto simp: word_less_nat_alt not_less add.assoc)
    with False c show ?thesis by (intro exI [of _ "Suc i"]) (simp add: Let_def add.assoc)
  qed
qed

lemma nat_stakes_bound: "nat_stakes vs \<le> length vs * (2 ^ 64 - 1)"
proof (induction vs)
  case Nil
  then show ?case by simp
next
  case (Cons v vs)
  then show ?case using unat_lt2p [of "v_stake v"] by simp
qed

lemma total_stake_u128:
  assumes "length vs < 2 ^ 64"
  shows "unat (sum_list (map (\<lambda>v. ucast (v_stake v)) vs) :: u128) = nat_stakes vs"
    and "nat_stakes vs < 2 ^ 128"
proof -
  have "nat_stakes vs \<le> (2 ^ 64 - 1) * (2 ^ 64 - 1)"
    by (rule order_trans [OF nat_stakes_bound mult_right_mono]) (use assms in simp_all)
  then show b: "nat_stakes vs < 2 ^ 128" by simp
  then show "unat (sum_list (map (\<lambda>v. ucast (v_stake v)) vs) :: u128) = nat_stakes vs"
    using unat_sum_list [of "map (\<lambda>v. ucast (v_stake v) :: u128) vs"]
    by (simp add: comp_def unat_ucast_stake)
qed

lemma active_stake_pos: "active_validators vs \<noteq> [] \<Longrightarrow> 0 < nat_stakes (active_validators vs)"
  by (cases "active_validators vs")
    (auto simp: active_validators_def is_eligible_def filter_eq_Cons_iff unat_gt_0 word_less_nat_alt)

section \<open>Properties\<close>

text \<open>An engine of one validator with a signature scheme that accepts every well-formed signature.\<close>

definition demo_key_lib :: "unit key_lib" where
  "demo_key_lib = \<lparr>sk_from_bytes = (\<lambda>bs. Some ()), sk_point = (\<lambda>k c. replicate 65 4),
     sk_sign = (\<lambda>k m. replicate 64 1)\<rparr>"

definition demo_keys :: "unit ValidatorKeys" where
  "demo_keys = \<lparr>signing_key = (), key_address = 1\<rparr>"

definition solo_engine :: "unit BftConsensus" where
  "solo_engine = BftConsensus_new demo_keys
     ((ValidatorSet_new 0)\<lparr>vs_validators := [(1, Validator_new 1 [2] 30000000000)],
        vs_total_stake := 30000000000\<rparr>)"

lemmas solo_defs = solo_engine_def BftConsensus_new_def demo_keys_def ValidatorSet_new_def
  Validator_new_def BftRoundState_default_def

lemma solo_inv: "bft_inv demo_lib solo_engine"
  unfolding solo_engine_def by (rule bft_inv_new)

lemma solo_setup:
  "rs_phase (round_state solo_engine) = NewRound" "rs_view (round_state solo_engine) = 0"
  "leads solo_engine"
  "vs_get (bc_validator_set solo_engine) (key_address (bc_keys solo_engine))
     = Some (Validator_new 1 [2] 30000000000)"
  "has_supermajority (bc_validator_set solo_engine) (v_stake (Validator_new 1 [2] 30000000000))"
  "verify_ecdsa demo_lib (v_pubkey (Validator_new 1 [2] 30000000000)) (as_bytes m)
     (sign_hash demo_key_lib (bc_keys solo_engine) m)"
  by (simp_all add: leads_def has_supermajority_def active_stake_def active_validators_def
      is_eligible_def hvalues_def vs_get_def verify_ecdsa_def demo_lib_def solo_defs)

text \<open>
  (C4) Whatever sequence of calls reaches an engine, its lock is free between calls, every
  recorded vote is stored under its voter and carries that validator's signature, a round in the
  commit phase holds prepare votes of a supermajority and is locked in its own view, and every
  finalized hash had commit votes of distinct validators, all signed, with more than 2/3 of the
  active stake by the engine's test, one of them for that hash.
\<close>

theorem bft_reachable_safe:
  assumes "(bft_step lib kl)\<^sup>*\<^sup>* (BftConsensus_new ks vs) b"
  shows "bft_inv lib b \<and> bc_validator_set b = vs
    \<and> (\<forall>h \<in> set (bc_finalized b). certified lib vs h)"
  using assms
proof (induction rule: rtranclp_induct)
  case base
  then show ?case using bft_inv_new by (simp add: BftConsensus_new_def)
next
  case (step b b')
  then have "good_step lib b b'" using bft_step_good by blast
  with step.IH show ?case unfolding good_step_def by metis
qed

theorem bft_reachable_safe_witness:
  "\<exists>b. (bft_step demo_lib demo_key_lib)\<^sup>*\<^sup>* solo_engine b \<and> is_finalized b 77
     \<and> certified demo_lib (bc_validator_set solo_engine) 77"
proof -
  obtain b p where b: "propose demo_lib demo_key_lib 77 [] solo_engine = Ret (b, Inr p)"
    "is_finalized b 77"
    using propose_alone [OF solo_inv solo_setup(1,3-6), of 77 "[]"] by blast
  then have r: "(bft_step demo_lib demo_key_lib)\<^sup>*\<^sup>* solo_engine b" by (auto intro: step_propose)
  from bft_reachable_safe [OF this [unfolded solo_engine_def]] b(2) r show ?thesis
    by (auto simp: is_finalized_def solo_engine_def BftConsensus_new_def)
qed

text \<open>
  (C36) A leader that holds a supermajority by itself finalizes what it proposes in one call: the
  call returns its signed proposal, the hash is finalized and the view advances, provided the
  signatures of its own key verify.
\<close>

theorem propose_alone_finalizes:
  assumes "bft_inv lib b" and "rs_phase (round_state b) = NewRound" and "leads b"
    and "vs_get (bc_validator_set b) (key_address (bc_keys b)) = Some v"
    and "has_supermajority (bc_validator_set b) (v_stake v)"
    and "\<And>m. verify_ecdsa lib (v_pubkey v) (as_bytes m) (sign_hash kl (bc_keys b) m)"
  shows "\<exists>b' p. propose lib kl h parents b = Ret (b', Inr p) \<and> pr_vertex_hash p = h
    \<and> is_finalized b' h \<and> rs_view (round_state b') = rs_view (round_state b) + 1"
  using assms by (rule propose_alone)

theorem propose_alone_finalizes_witness:
  "\<exists>b' p. propose demo_lib demo_key_lib 77 [] solo_engine = Ret (b', Inr p) \<and> pr_vertex_hash p = 77
    \<and> is_finalized b' 77 \<and> rs_view (round_state b') = 1"
  using propose_alone_finalizes [OF solo_inv solo_setup(1,3-6), of 77 "[]"] by (simp add: solo_setup(2))

text \<open>
  (C14) A received proposal is never accepted. With a free lock, a proposal that passes the view,
  lock, validator and signature checks blocks the handler for ever, because the write guard is
  requested while the read guard of the same call is alive; any other proposal is refused with
  an error and leaves the engine as it was.
\<close>

theorem on_proposal_blocks:
  assumes "rw_free (bc_state b)"
  shows "(on_proposal lib kl p b = Blocked \<longleftrightarrow>
           pr_view p = rs_view (round_state b)
           \<and> (\<forall>locked. rs_locked_vertex (round_state b) = Some locked \<longrightarrow>
                pr_vertex_hash p = locked \<or> rs_locked_view (round_state b) < pr_view p)
           \<and> (\<exists>v. vs_get (bc_validator_set b) (pr_proposer p) = Some v
                \<and> verify_ecdsa lib (v_pubkey v) (as_bytes (Proposal_signing_hash lib p))
                    (pr_signature p)))
    \<and> (on_proposal lib kl p b \<noteq> Blocked \<longrightarrow> (\<exists>e. on_proposal lib kl p b = Ret (b, Inl e)))"
proof -
  obtain s where "bc_state b = rw_new s" using assms by (auto simp: rw_free_iff)
  from on_proposal_free [OF this, of lib kl p] this show ?thesis
    by (auto split: option.split)
qed

theorem on_proposal_blocks_witness:
  "on_proposal demo_lib demo_key_lib
     \<lparr>pr_proposer = 1, pr_view = 0, pr_epoch = 0, pr_vertex_hash = 9, pr_parents = [], pr_signature = []\<rparr>
     solo_engine = Blocked"
proof -
  have "rw_free (bc_state solo_engine)" by (simp add: solo_defs)
  from on_proposal_blocks [OF this, of demo_lib demo_key_lib] show ?thesis
    by (simp add: solo_defs vs_get_def verify_ecdsa_def demo_lib_def)
qed

text \<open>A round in which validators 1 and 2 committed to vertex 10 and validator 3 votes for 66.\<close>

definition split_engine :: "unit BftConsensus" where
  "split_engine = (BftConsensus_new demo_keys demo_validators)
     \<lparr>bc_state := rw_new (BftRoundState_default\<lparr>rs_phase := Commit,
        rs_commit_votes := map (\<lambda>a. (a, \<lparr>cv_voter = a, cv_view = 0, cv_vertex_hash = 10, cv_signature = []\<rparr>)) [1, 2]\<rparr>)\<rparr>"

abbreviation split_vote :: CommitVote where
  "split_vote \<equiv> \<lparr>cv_voter = 3, cv_view = 0, cv_vertex_hash = 66, cv_signature = []\<rparr>"

lemma split_setup:
  "rw_free (bc_state split_engine)" "rs_phase (round_state split_engine) = Commit"
  "signed_commit demo_lib (bc_validator_set split_engine) split_vote"
  "hget (rs_commit_votes (round_state split_engine)) 3 = None"
  "\<forall>v \<in> set (hvalues (rs_commit_votes (round_state split_engine))). cv_vertex_hash v \<noteq> 66"
  "has_supermajority (bc_validator_set split_engine)
     (commit_stake (bc_validator_set split_engine) (commit_recorded split_vote (round_state split_engine)))"
  by (simp_all add: split_engine_def BftConsensus_new_def BftRoundState_default_def demo_validators_def
      ValidatorSet_new_def Validator_new_def signed_commit_def vs_get_def verify_ecdsa_def
      demo_lib_def commit_recorded_def commit_stake_def voters_stake_def hput_def hvalues_def
      List.map_filter_simps has_supermajority_def active_stake_def active_validators_def
      is_eligible_def)

text \<open>
  (C38) Commit votes are counted whatever vertex they name: a vote for a hash that no recorded
  vote names finalizes that hash, when the stake of all voters together passes the test.
\<close>

theorem commit_counts_foreign_votes:
  assumes "rw_free (bc_state b)" and "rs_phase (round_state b) = Commit"
    and "signed_commit lib (bc_validator_set b) vote"
    and "hget (rs_commit_votes (round_state b)) (cv_voter vote) = None"
    and "\<forall>v \<in> set (hvalues (rs_commit_votes (round_state b))). cv_vertex_hash v \<noteq> cv_vertex_hash vote"
    and "has_supermajority (bc_validator_set b)
           (commit_stake (bc_validator_set b) (commit_recorded vote (round_state b)))"
  shows "\<exists>b'. on_commit lib vote b = Ret (b', Inr (Some (cv_vertex_hash vote)))
    \<and> is_finalized b' (cv_vertex_hash vote)"
proof -
  obtain s where "bc_state b = rw_new s" using assms(1) by (auto simp: rw_free_iff)
  with on_commit_finalizes [OF this, of lib vote] assms(2-4,6) show ?thesis
    by (simp add: is_finalized_def)
qed

theorem commit_counts_foreign_votes_witness:
  "\<exists>b'. on_commit demo_lib split_vote split_engine = Ret (b', Inr (Some 66)) \<and> is_finalized b' 66"
  using commit_counts_foreign_votes [of split_engine demo_lib split_vote] split_setup by simp

text \<open>
  One validator can move the view by itself: view change requests are not verified and
  not deduplicated, so after enough repetitions the engine enters the requested view, even one
  below the current view, and forgets the votes of the round.
\<close>

theorem view_change_by_repetition:
  assumes "rw_free (bc_state b)"
    and "vs_get (bc_validator_set b) (vc_requester req) = Some v"
    and "hset_get (bc_view_change_votes b) (vc_new_view req) = replicate k req"
    and "has_supermajority (bc_validator_set b) (of_nat (Suc k) * v_stake v)"
  shows "\<exists>b'. on_view_change req b = Ret (b', Inr ())
    \<and> rs_view (round_state b') = vc_new_view req \<and> rs_phase (round_state b') = NewRound
    \<and> rs_prepare_votes (round_state b') = [] \<and> rs_commit_votes (round_state b') = []"
proof -
  obtain s where s: "bc_state b = rw_new s" using assms(1) by (auto simp: rw_free_iff)
  have "voters_stake (bc_validator_set b) (replicate n (vc_requester req)) = of_nat n * v_stake v" for n
    using assms(2) by (induction n) (simp_all add: voters_stake_def List.map_filter_simps algebra_simps)
  from this [of "Suc k"] assms(2-4) show ?thesis
    by (simp add: on_view_change_free [OF s] Let_def replicate_append_same)
qed

theorem view_change_by_repetition_witness:
  "\<exists>b'. on_view_change \<lparr>vc_requester = 1, vc_new_view = 0, vc_last_prepared = None, vc_signature = []\<rparr>
      (split_engine\<lparr>bc_view_change_votes := [(0, replicate 2
          \<lparr>vc_requester = 1, vc_new_view = 0, vc_last_prepared = None, vc_signature = []\<rparr>)]\<rparr>) = Ret (b', Inr ())
    \<and> rs_commit_votes (round_state b') = []"
  using view_change_by_repetition [of "split_engine\<lparr>bc_view_change_votes := [(0, replicate 2
          \<lparr>vc_requester = 1, vc_new_view = 0, vc_last_prepared = None, vc_signature = []\<rparr>)]\<rparr>"
      "\<lparr>vc_requester = 1, vc_new_view = 0, vc_last_prepared = None, vc_signature = []\<rparr>"
      "Validator_new 1 [] 30000000000" 2]
  by (auto simp: split_engine_def BftConsensus_new_def demo_validators_def ValidatorSet_new_def
      Validator_new_def vs_get_def hset_get_def hvalues_def has_supermajority_def active_stake_def
      active_validators_def is_eligible_def)

text \<open>
  No finality certificate survives finalization: the call that finalizes a hash advances
  the view and clears the commit votes, and from then on the certificate of every hash is absent.
\<close>

theorem certificate_lost_on_finality:
  assumes "rw_free (bc_state b)" and "on_commit lib vote b = Ret (b', Inr (Some h))"
  shows "is_finalized b' h \<and> get_finality_certificate b' g = Ret (b', None)"
proof -
  obtain s where s: "bc_state b = rw_new s" using assms(1) by (auto simp: rw_free_iff)
  from assms(2) obtain w s' where b': "bc_state b' = rw_new (next_round w s')" "is_finalized b' h"
    by (auto simp: on_commit_free [OF s] is_finalized_def split: if_splits)
  have "\<not> has_supermajority (bc_validator_set b') 0" by (simp add: has_supermajority_def)
  with b' show ?thesis
    by (cases b') (simp add: get_finality_certificate_def lock_defs hvalues_def voters_stake_def
        List.map_filter_simps)
qed

theorem certificate_lost_on_finality_witness:
  "\<exists>b'. on_commit demo_lib split_vote split_engine = Ret (b', Inr (Some 66))
     \<and> is_finalized b' 66 \<and> get_finality_certificate b' 66 = Ret (b', None)"
proof -
  have "bc_state split_engine = rw_new (round_state split_engine)" by (simp add: split_engine_def)
  from on_commit_finalizes [OF this split_setup(2,3) _ split_setup(6)] split_setup(4)
  obtain b' where b': "on_commit demo_lib split_vote split_engine = Ret (b', Inr (Some 66))" by simp
  from certificate_lost_on_finality [OF split_setup(1) b', of 66] b' show ?thesis by blast
qed

text \<open>
  Stake-weighted selection always names an eligible validator when there is one: the digest of
  view and epoch, reduced modulo the active stake, falls into the interval of the chosen
  validator, whose length is its stake. No 128-bit sum wraps for fewer than \<open>2 ^ 64\<close> validators.
\<close>

theorem weighted_leader_interval:
  assumes "rw_free (bc_state b)" and "active = active_validators (bc_validator_set b)"
    and "active \<noteq> []" and "length active < 2 ^ 64"
  shows "\<exists>i < length active. weighted_leader lib b = Ret (b, Some (v_address (active ! i)))
    \<and> nat_stakes (take i active) \<le> leader_draw lib (round_state b) mod nat_stakes active
    \<and> leader_draw lib (round_state b) mod nat_stakes active < nat_stakes (take (Suc i) active)"
proof -
  obtain s where s: "bc_state b = rw_new s" using assms(1) by (auto simp: rw_free_iff)
  define draw where "draw = leader_draw lib (round_state b)"
  note active_def = assms(2)
  let ?total = "sum_list (map (\<lambda>v. ucast (v_stake v)) active) :: u128"
  let ?target = "of_nat draw mod ?total"
  note total = total_stake_u128 [OF assms(4)]
  have pos: "0 < nat_stakes active" using assms(3) unfolding active_def by (rule active_stake_pos)
  have "draw < 256 ^ 16"
    unfolding draw_def leader_draw_def
    by (rule order_less_le_trans [OF be_val_bound]) (simp add: keccak256_def)
  then have "unat (of_nat draw :: u128) = draw" by (simp add: unat_of_nat)
  then have t: "unat ?target = draw mod nat_stakes active" by (simp add: unat_mod total(1))
  have nz: "?total \<noteq> 0" using pos total(1) by (metis less_irrefl unat_0)
  have "weighted_leader lib b = Ret (b, pick_by_stake ?target 0 active)"
    using nz s
    by (cases b) (auto simp: weighted_leader_def lock_defs active_def draw_def leader_draw_def Let_def)
  with pick_by_stake_interval [of 0 active ?target] t pos total(2) show ?thesis by (auto simp: draw_def)
qed

theorem weighted_leader_interval_witness:
  "\<exists>i < 1. weighted_leader demo_lib solo_engine
     = Ret (solo_engine, Some (v_address ([Validator_new 1 [2] 30000000000] ! i)))"
proof -
  have a: "active_validators (bc_validator_set solo_engine) = [Validator_new 1 [2] 30000000000]"
    by (simp add: active_validators_def is_eligible_def hvalues_def solo_defs)
  have "rw_free (bc_state solo_engine)" by (simp add: solo_defs)
  from weighted_leader_interval [OF this a [symmetric], of demo_lib] show ?thesis by auto
qed

end
