(* ===== verification/Pos.thy ===== *)
theory Pos
  imports Validator
begin

text \<open>
  Proof of stake, \<^verbatim>\<open>src/crates/nexus-consensus/src/pos.rs\<close>: registration, delegation and its
  shares, undelegation and the unbonding queue, the epoch transition with the distribution of
  rewards, claims, and the selection of a slot leader by stake. \<open>SHARE_PRECISION\<close> and the reward
  scale are the source's constants. The locks of the manager are taken one at a time or in one
  order, so a call is a function on the whole state.
\<close>

section \<open>Data\<close>

record StakingConfig =
  min_validator_stake :: u64
  min_delegation :: u64
  unbonding_period :: u64
  max_commission :: u16
  max_commission_change :: u16
  slots_per_epoch :: u64
  epoch_duration :: u64
  double_sign_slash :: u64
  downtime_slash :: u64
  jail_duration :: u64

definition StakingConfig_default :: StakingConfig where
  "StakingConfig_default =
     \<lparr>min_validator_stake = 10000000000, min_delegation = 1000000, unbonding_period = 14,
      max_commission = 5000, max_commission_change = 100, slots_per_epoch = 32,
      epoch_duration = 86400, double_sign_slash = 500, downtime_slash = 100, jail_duration = 7\<rparr>"

record Delegation =
  dl_delegator :: Address
  dl_validator :: Address
  dl_amount :: u64
  dl_shares :: u64
  dl_last_claim_epoch :: u64

record UnbondingEntry =
  ub_delegator :: Address
  ub_validator :: Address
  ub_amount :: u64
  ub_completion_epoch :: u64

record RewardPool =
  rp_total_rewards :: u64
  rp_reward_per_share :: U256
  rp_epoch :: u64

definition RewardPool_default :: RewardPool where
  "RewardPool_default = \<lparr>rp_total_rewards = 0, rp_reward_per_share = ZERO, rp_epoch = 0\<rparr>"

record ProofOfStake =
  ps_config :: StakingConfig
  ps_current_epoch :: u64
  ps_validators :: ValidatorSet
  ps_delegations :: "(Address, Delegation list) hmap"
  ps_unbonding :: "UnbondingEntry list"
  ps_reward_pools :: "(Address, RewardPool) hmap"

definition ProofOfStake_new :: "StakingConfig \<Rightarrow> ProofOfStake" where
  "ProofOfStake_new cfg =
     \<lparr>ps_config = cfg, ps_current_epoch = 0, ps_validators = ValidatorSet_new 0,
      ps_delegations = [], ps_unbonding = [], ps_reward_pools = []\<rparr>"

section \<open>Registration and delegation\<close>

definition register_validator ::
    "Address \<Rightarrow> u8 list \<Rightarrow> u64 \<Rightarrow> u16 \<Rightarrow> ProofOfStake \<Rightarrow> ProofOfStake \<times> unit ConsensusResult" where
  "register_validator a pubkey s commission p =
     (if s < min_validator_stake (ps_config p)
      then (p, Inl (CE_InsufficientStake (min_validator_stake (ps_config p)) s))
      else if commission > max_commission (ps_config p)
      then (p, Inl (CE_InvalidProposal ''Commission exceeds maximum''))
      else let v = (Validator_new a pubkey s)\<lparr>v_commission := commission\<rparr>
           in case add_validator v (ps_validators p) of
                (vs, Inl e) \<Rightarrow> (p\<lparr>ps_validators := vs\<rparr>, Inl e)
              | (vs, Inr _) \<Rightarrow>
                  (p\<lparr>ps_validators := vs,
                     ps_reward_pools := hput a RewardPool_default (ps_reward_pools p)\<rparr>, Inr ()))"

definition SHARE_PRECISION :: u64 where "SHARE_PRECISION = 1000000"

definition total_shares :: "Address \<Rightarrow> ProofOfStake \<Rightarrow> u64" where
  "total_shares validator p =
     sum_list (map dl_shares
       (filter (\<lambda>d. dl_validator d = validator) (concat (hvalues (ps_delegations p)))))"

definition delegate :: "Address \<Rightarrow> Address \<Rightarrow> u64 \<Rightarrow> ProofOfStake \<Rightarrow> ProofOfStake \<times> unit ConsensusResult" where
  "delegate delegator validator amount p =
     (if amount < min_delegation (ps_config p)
      then (p, Inl (CE_InsufficientStake (min_delegation (ps_config p)) amount))
      else
        let ts = total_shares validator p; vs = ps_validators p
        in case vs_get vs validator of None \<Rightarrow> (p, Inl (CE_UnknownValidator validator))
           | Some v \<Rightarrow>
             let shares = (if v_stake v = 0 \<or> ts = 0 then saturating_mul amount SHARE_PRECISION
                           else ucast ((ucast amount * ucast ts :: u128) div ucast (v_stake v)));
                 vs = vs\<lparr>vs_validators := hput validator (v\<lparr>v_stake := v_stake v + amount\<rparr>) (vs_validators vs),
                         vs_total_stake := vs_total_stake vs + amount\<rparr>;
                 d = \<lparr>dl_delegator = delegator, dl_validator = validator, dl_amount = amount,
                      dl_shares = shares, dl_last_claim_epoch = ps_current_epoch p\<rparr>
             in (p\<lparr>ps_validators := vs,
                   ps_delegations := hput delegator (hset_get (ps_delegations p) delegator @ [d])
                                       (ps_delegations p)\<rparr>, Inr ()))"

text \<open>\<open>iter_mut().find\<close>: the first element that satisfies the test, and the list with it changed.\<close>

fun update_first :: "('e \<Rightarrow> bool) \<Rightarrow> ('e \<Rightarrow> 'e) \<Rightarrow> 'e list \<Rightarrow> 'e list" where
  "update_first P f [] = []"
| "update_first P f (x # xs) = (if P x then f x # xs else x # update_first P f xs)"

definition undelegate :: "Address \<Rightarrow> Address \<Rightarrow> u64 \<Rightarrow> ProofOfStake \<Rightarrow> ProofOfStake \<times> unit ConsensusResult" where
  "undelegate delegator validator amount p =
     (case hget (ps_delegations p) delegator of
        None \<Rightarrow> (p, Inl (CE_InvalidProposal ''No delegation found''))
      | Some dels \<Rightarrow>
        (case find (\<lambda>d. dl_validator d = validator) dels of
           None \<Rightarrow> (p, Inl (CE_InvalidProposal ''No delegation to validator''))
         | Some del \<Rightarrow>
           if dl_amount del < amount
           then (p, Inl (CE_InsufficientStake amount (dl_amount del)))
           else
             let del' = del\<lparr>dl_amount := dl_amount del - amount,
                            dl_shares := saturating_sub (dl_shares del) amount\<rparr>;
                 dels = update_first (\<lambda>d. dl_validator d = validator) (\<lambda>_. del') dels;
                 dels = (if dl_amount del' = 0 then filter (\<lambda>d. dl_validator d \<noteq> validator) dels
                         else dels);
                 p = p\<lparr>ps_delegations := hput delegator dels (ps_delegations p)\<rparr>;
                 vs = ps_validators p;
                 vs = (case vs_get vs validator of None \<Rightarrow> vs
                       | Some v \<Rightarrow>
                         vs\<lparr>vs_validators := hput validator
                               (v\<lparr>v_stake := saturating_sub (v_stake v) amount\<rparr>) (vs_validators vs),
                            vs_total_stake := saturating_sub (vs_total_stake vs) amount\<rparr>);
                 completion = ps_current_epoch p + unbonding_period (ps_config p);
                 entry = \<lparr>ub_delegator = delegator, ub_validator = validator, ub_amount = amount,
                          ub_completion_epoch = completion\<rparr>
             in (p\<lparr>ps_validators := vs, ps_unbonding := ps_unbonding p @ [entry]\<rparr>, Inr ())))"

section \<open>Epoch transition and rewards\<close>

definition REWARD_SCALE :: u64 where "REWARD_SCALE = 1000000000000000000"

definition validator_reward :: "u64 \<Rightarrow> u64 \<Rightarrow> u64 \<Rightarrow> u64" where
  "validator_reward total_rewards s total_stake =
     ucast ((ucast total_rewards * ucast s :: u128) div ucast total_stake)"

definition commission_part :: "u64 \<Rightarrow> u16 \<Rightarrow> u64" where
  "commission_part reward c = ucast ((ucast reward * ucast c :: u128) div 10000)"

definition credit_pool :: "u64 \<Rightarrow> u64 \<Rightarrow> u64 \<Rightarrow> RewardPool \<Rightarrow> RewardPool run" where
  "credit_pool delegator_reward s e pool =
     (let pool = pool\<lparr>rp_total_rewards := rp_total_rewards pool + delegator_reward\<rparr>
      in run_map (\<lambda>pool. pool\<lparr>rp_epoch := e\<rparr>)
        (if s > 0
         then run_bind (u256_div (u256_mul (from_u64 delegator_reward) (from_u64 REWARD_SCALE)) (from_u64 s)) (\<lambda>delta.
              run_map (\<lambda>rps. pool\<lparr>rp_reward_per_share := rps\<rparr>)
                (u256_add (rp_reward_per_share pool) delta))
         else Ret pool))"

fun reward_loop ::
    "u64 \<Rightarrow> u64 \<Rightarrow> u64 \<Rightarrow> Validator list \<Rightarrow> (Address, RewardPool) hmap \<Rightarrow> (Address, RewardPool) hmap run" where
  "reward_loop total_rewards total_stake e [] pools = Ret pools"
| "reward_loop total_rewards total_stake e (v # vs) pools =
     (let reward = validator_reward total_rewards (v_stake v) total_stake;
          delegator_reward = reward - commission_part reward (v_commission v)
      in run_bind
           (case hget pools (v_address v) of None \<Rightarrow> Ret pools
            | Some pool \<Rightarrow> run_map (\<lambda>pool. hput (v_address v) pool pools)
                             (credit_pool delegator_reward (v_stake v) e pool))
           (reward_loop total_rewards total_stake e vs))"

definition distribute_rewards :: "u64 \<Rightarrow> ProofOfStake \<Rightarrow> ProofOfStake run" where
  "distribute_rewards total_rewards p =
     (let total_stake = active_stake (ps_validators p)
      in if total_stake = 0 then Ret p
         else run_map (\<lambda>pools. p\<lparr>ps_reward_pools := pools\<rparr>)
           (reward_loop total_rewards total_stake (ps_current_epoch p)
              (active_validators (ps_validators p)) (ps_reward_pools p)))"

definition process_unbonding :: "u64 \<Rightarrow> ProofOfStake \<Rightarrow> ProofOfStake" where
  "process_unbonding e p =
     p\<lparr>ps_unbonding := filter (\<lambda>entry. ub_completion_epoch entry > e) (ps_unbonding p)\<rparr>"

definition end_epoch :: "u64 \<Rightarrow> ProofOfStake \<Rightarrow> (ProofOfStake \<times> u64 ConsensusResult) run" where
  "end_epoch rewards p =
     (let new_epoch = ps_current_epoch p + 1;
          p = p\<lparr>ps_current_epoch := new_epoch\<rparr>
      in run_map (\<lambda>p.
           let p = process_unbonding new_epoch p
           in (p\<lparr>ps_validators := (ps_validators p)\<lparr>vs_epoch := new_epoch\<rparr>\<rparr>, Inr new_epoch))
         (distribute_rewards rewards p))"

definition pending_reward :: "Delegation \<Rightarrow> RewardPool \<Rightarrow> u64 run" where
  "pending_reward d pool =
     run_map as_u64
       (u256_div (u256_mul (from_u64 (dl_shares d)) (rp_reward_per_share pool)) (from_u64 REWARD_SCALE))"

fun claim_loop ::
    "u64 \<Rightarrow> (Address, RewardPool) hmap \<Rightarrow> Delegation list \<Rightarrow> u64 \<Rightarrow> (Delegation list \<times> u64) run" where
  "claim_loop e pools [] total_claimed = Ret ([], total_claimed)"
| "claim_loop e pools (d # ds) total_claimed =
     (case hget pools (dl_validator d) of
        None \<Rightarrow> run_map (\<lambda>(ds', t). (d # ds', t)) (claim_loop e pools ds total_claimed)
      | Some pool \<Rightarrow>
        run_bind (pending_reward d pool) (\<lambda>pending.
        run_map (\<lambda>(ds', t). (d\<lparr>dl_last_claim_epoch := e\<rparr> # ds', t))
          (claim_loop e pools ds (total_claimed + pending))))"

definition claim_rewards :: "Address \<Rightarrow> ProofOfStake \<Rightarrow> (ProofOfStake \<times> u64 ConsensusResult) run" where
  "claim_rewards delegator p =
     (case hget (ps_delegations p) delegator of
        None \<Rightarrow> Ret (p, Inl (CE_InvalidProposal ''No delegations''))
      | Some dels \<Rightarrow>
        run_map (\<lambda>(dels', t). (p\<lparr>ps_delegations := hput delegator dels' (ps_delegations p)\<rparr>, Inr t))
          (claim_loop (ps_current_epoch p) (ps_reward_pools p) dels 0))"

section \<open>Queries and leader selection\<close>

definition get_delegations :: "Address \<Rightarrow> ProofOfStake \<Rightarrow> Delegation list" where
  "get_delegations a p = (case hget (ps_delegations p) a of None \<Rightarrow> [] | Some ds \<Rightarrow> ds)"

definition get_unbonding :: "Address \<Rightarrow> ProofOfStake \<Rightarrow> UnbondingEntry list" where
  "get_unbonding a p = filter (\<lambda>e. ub_delegator e = a) (ps_unbonding p)"

fun pick_slot_leader :: "u64 \<Rightarrow> u64 \<Rightarrow> Validator list \<Rightarrow> Address option" where
  "pick_slot_leader target cum [] = None"
| "pick_slot_leader target cum (v # vs) =
     (let cum = cum + v_stake v
      in if cum > target then Some (v_address v) else pick_slot_leader target cum vs)"

definition select_leader :: "crypto_lib \<Rightarrow> u64 \<Rightarrow> u64 \<Rightarrow> Hash \<Rightarrow> ProofOfStake \<Rightarrow> Address option run" where
  "select_leader lib e slot randomness p =
     (let active = active_validators (ps_validators p)
      in if active = [] then Ret None
         else
           let seed = keccak256 lib (u64_to_le_bytes e @ u64_to_le_bytes slot @ as_bytes randomness);
               random_value = of_nat (le_val (take 8 seed)) :: u64;
               total_stake = active_stake (ps_validators p)
           in if total_stake = 0 then Panic
              else let target = random_value mod total_stake
                   in Ret (case pick_slot_leader target 0 active of Some a \<Rightarrow> Some a
                           | None \<Rightarrow> Some (v_address (last active))))"

section \<open>Lemmas\<close>

lemma claim_loop_again:
  "claim_loop e pools ds t = Ret (ds', x) \<Longrightarrow> claim_loop e pools ds' t = Ret (ds', x)"
proof (induction ds arbitrary: t ds' x)
  case Nil
  then show ?case by simp
next
  case (Cons d ds)
  have same: "pending_reward (d\<lparr>dl_last_claim_epoch := e\<rparr>) pool = pending_reward d pool" for pool
    by (simp add: pending_reward_def)
  show ?case
  proof (cases "hget pools (dl_validator d)")
    case None
    with Cons.prems obtain es where "ds' = d # es" "claim_loop e pools ds t = Ret (es, x)" by auto
    with None Cons.IH [OF this(2)] show ?thesis by simp
  next
    case (Some pool)
    with Cons.prems obtain y es where "pending_reward d pool = Ret y"
      "ds' = d\<lparr>dl_last_claim_epoch := e\<rparr> # es" "claim_loop e pools ds (t + y) = Ret (es, x)" by auto
    with Some Cons.IH [OF this(3)] same show ?thesis by simp
  qed
qed

lemma unat_ucast_u128: "unat (ucast (x::u64) :: u128) = unat x" "unat (ucast (c::u16) :: u128) = unat c"
  using unat_lt2p [of x] unat_lt2p [of c] by (simp_all add: unsigned_ucast_eq take_bit_nat_eq_self)

lemma prod_less: "(a::nat) < m \<Longrightarrow> b < n \<Longrightarrow> a * b < m * n"
  by (rule mult_strict_mono) simp_all

lemma unat_mult_u64_u128:
  "unat (ucast (x::u64) * ucast (y::u64) :: u128) = unat x * unat y"
  "unat (ucast x * ucast (c::u16) :: u128) = unat x * unat c"
proof -
  have "unat x * unat y < 2 ^ 64 * 2 ^ 64" "unat x * unat c < 2 ^ 64 * 2 ^ 16"
    using prod_less [OF unat_lt2p [of x] unat_lt2p [of y]]
      prod_less [OF unat_lt2p [of x] unat_lt2p [of c]] by simp_all
  then show "unat (ucast (x::u64) * ucast (y::u64) :: u128) = unat x * unat y"
    "unat (ucast x * ucast (c::u16) :: u128) = unat x * unat c"
    by (simp_all add: unat_ucast_u128 unat_mult_no_overflow)
qed

lemma unat_ucast_u64: "unat (w::u128) < 2 ^ 64 \<Longrightarrow> unat (ucast w :: u64) = unat w"
  by (simp add: unsigned_ucast_eq take_bit_nat_eq_self)

lemma share_le: "a \<le> t \<Longrightarrow> r * a div t \<le> (r::nat)"
  by (cases "t = 0") (simp_all add: div_le_mono2 order_trans [OF div_le_mono [OF mult_le_mono2]])

lemma validator_reward_nat:
  assumes "unat s \<le> unat t"
  shows "unat (validator_reward r s t) = unat r * unat s div unat t"
proof -
  have "unat r * unat s div unat t \<le> unat r" using assms by (rule share_le)
  then have "unat ((ucast r * ucast s :: u128) div ucast t) < 2 ^ 64"
    using unat_lt2p [of r] by (simp add: unat_div unat_mult_u64_u128 unat_ucast_u128)
  from unat_ucast_u64 [OF this] show ?thesis
    by (simp add: validator_reward_def unat_div unat_mult_u64_u128 unat_ucast_u128)
qed

lemma commission_part_nat:
  assumes "unat c \<le> 10000"
  shows "unat (commission_part r c) = unat r * unat c div 10000"
proof -
  have "unat r * unat c div 10000 \<le> unat r" using assms by (rule share_le)
  then have "unat ((ucast r * ucast c :: u128) div 10000) < 2 ^ 64"
    using unat_lt2p [of r] by (simp add: unat_div unat_mult_u64_u128)
  from unat_ucast_u64 [OF this] show ?thesis
    by (simp add: commission_part_def unat_div unat_mult_u64_u128)
qed

lemma sum_floor_le:
  "sum_list (map (\<lambda>x. r * f x div t) xs) \<le> r * sum_list (map f xs) div (t::nat)"
proof (induction xs)
  case Nil
  then show ?case by simp
next
  case (Cons x xs)
  have "r * f x div t + r * sum_list (map f xs) div t \<le> (r * f x + r * sum_list (map f xs)) div t"
    unfolding div_add1_eq [of "r * f x" "r * sum_list (map f xs)" t] by simp
  with Cons show ?case by (simp add: distrib_left)
qed

lemma update_first_filter:
  "P y \<Longrightarrow> filter (\<lambda>z. \<not> P z) (update_first P (\<lambda>_. y) xs) = filter (\<lambda>z. \<not> P z) xs"
  by (induction xs) auto

text \<open>The 256-bit arithmetic of rewards, by value.\<close>

lemma from_u64_nonzero: "x \<noteq> 0 \<Longrightarrow> from_u64 x \<noteq> ZERO"
  by (simp add: from_u64_def ZERO_def)

lemma credit_pool_val:
  assumes "0 < s" and "u256_val (rp_reward_per_share pool) = 0"
  shows "\<exists>pool'. credit_pool dr s e pool = Ret pool'
    \<and> u256_val (rp_reward_per_share pool') = unat dr * 10 ^ 18 div unat s
    \<and> rp_total_rewards pool' = rp_total_rewards pool + dr"
proof -
  have prod: "u256_val (u256_mul (from_u64 dr) (from_u64 REWARD_SCALE)) = unat dr * 10 ^ 18"
    using prod_less [OF unat_lt2p [of dr] unat_lt2p [of REWARD_SCALE]]
    by (simp add: u256_val_mul REWARD_SCALE_def)
  obtain z where z: "u256_div (u256_mul (from_u64 dr) (from_u64 REWARD_SCALE)) (from_u64 s) = Ret z"
    "u256_val z = unat dr * 10 ^ 18 div unat s"
    using u256_div_val [of "from_u64 s" "u256_mul (from_u64 dr) (from_u64 REWARD_SCALE)"] assms(1)
    by (auto simp: prod from_u64_nonzero)
  obtain y where "u256_add (rp_reward_per_share pool) z = Ret y" "u256_val y = u256_val z"
    using u256_add_val [of "rp_reward_per_share pool" z] u256_val_bound [of z] assms(2) by auto
  with z assms(1) show ?thesis by (simp add: credit_pool_def Let_def)
qed

lemma pending_reward_val:
  assumes "unat (dl_shares d) * u256_val (rp_reward_per_share pool) div 10 ^ 18 < 2 ^ 64"
    and "unat (dl_shares d) * u256_val (rp_reward_per_share pool) < 2 ^ 256"
  shows "\<exists>x. pending_reward d pool = Ret x
    \<and> unat x = unat (dl_shares d) * u256_val (rp_reward_per_share pool) div 10 ^ 18"
proof -
  have "u256_val (u256_mul (from_u64 (dl_shares d)) (rp_reward_per_share pool))
      = unat (dl_shares d) * u256_val (rp_reward_per_share pool)"
    using assms(2) by (simp add: u256_val_mul)
  moreover have "from_u64 REWARD_SCALE \<noteq> ZERO" "unat REWARD_SCALE = 10 ^ 18"
    by (simp_all add: from_u64_nonzero REWARD_SCALE_def)
  ultimately show ?thesis
    using u256_div_val [of "from_u64 REWARD_SCALE"
        "u256_mul (from_u64 (dl_shares d)) (rp_reward_per_share pool)"] assms(1)
    by (auto simp: pending_reward_def as_u64_val)
qed

section \<open>Properties\<close>

text \<open>
  The rewards of an epoch are never overspent: the shares of the active validators, each
  the floor of rewards times stake over active stake, add up to at most the rewards, and every
  commission of at most 100 per cent is the floor of its part of the share and leaves the rest to
  the delegators, as long as the active stake fits in 64 bits.
\<close>

theorem rewards_not_overspent:
  assumes "vs_ok vs" and "sum (stake_weight vs) (active_members vs) < 2 ^ 64"
    and "\<forall>v \<in> set (active_validators vs). unat (v_commission v) \<le> 10000"
  shows "sum_list (map (\<lambda>v. unat (validator_reward r (v_stake v) (active_stake vs))) (active_validators vs))
       \<le> unat r
    \<and> (\<forall>v \<in> set (active_validators vs).
        let reward = validator_reward r (v_stake v) (active_stake vs)
        in unat reward = unat r * unat (v_stake v) div unat (active_stake vs)
           \<and> unat (commission_part reward (v_commission v)) = unat reward * unat (v_commission v) div 10000
           \<and> unat (reward - commission_part reward (v_commission v))
               = unat reward - unat reward * unat (v_commission v) div 10000)"
proof -
  let ?av = "active_validators vs" and ?T = "active_stake vs"
  have T: "unat ?T = sum_list (map (\<lambda>v. unat (v_stake v)) ?av)"
    using unat_active_stake [OF assms(1,2)] active_stake_nat [OF assms(1)] by (simp add: comp_def)
  have le: "unat (v_stake v) \<le> unat ?T" if "v \<in> set ?av" for v
    unfolding T using that by (intro member_le_sum_list) simp_all
  have reward: "unat (validator_reward r (v_stake v) ?T) = unat r * unat (v_stake v) div unat ?T"
    if "v \<in> set ?av" for v
    using le [OF that] by (rule validator_reward_nat)
  have "sum_list (map (\<lambda>v. unat (validator_reward r (v_stake v) ?T)) ?av)
      = sum_list (map (\<lambda>v. unat r * unat (v_stake v) div unat ?T) ?av)"
    using reward by (intro arg_cong [of _ _ sum_list] map_cong) simp_all
  also have "\<dots> \<le> unat r * sum_list (map (\<lambda>v. unat (v_stake v)) ?av) div unat ?T"
    by (rule sum_floor_le)
  also have "\<dots> \<le> unat r" unfolding T by (rule share_le) simp
  finally have total: "sum_list (map (\<lambda>v. unat (validator_reward r (v_stake v) ?T)) ?av) \<le> unat r" .
  have part: "unat (x - commission_part x c) = unat x - unat x * unat c div 10000"
    if "unat c \<le> 10000" for x c
    using commission_part_nat [OF that, of x] share_le [OF that, of "unat x"]
    by (simp add: unat_sub word_le_nat_alt)
  show ?thesis
    using total reward assms(3) commission_part_nat part by (simp add: Let_def)
qed

theorem rewards_not_overspent_witness:
  "sum_list (map (\<lambda>v. unat (validator_reward 1000 (v_stake v) (active_stake demo_validators)))
     (active_validators demo_validators)) \<le> 1000"
proof -
  have "\<forall>v \<in> set (active_validators demo_validators). unat (v_commission v) \<le> 10000"
    by (simp add: active_validators_def demo_validators_def ValidatorSet_new_def Validator_new_def
        hvalues_def)
  then show ?thesis
    using rewards_not_overspent [of demo_validators 1000] by (simp add: demo_validators_ok)
qed

text \<open>
  A claim does not use up the rewards it pays: claiming again in the same epoch pays the
  same amount again, and changes nothing.
\<close>

theorem claim_pays_again:
  assumes "claim_rewards a p = Ret (p', Inr x)"
  shows "\<exists>p''. claim_rewards a p' = Ret (p'', Inr x) \<and> get_delegations a p'' = get_delegations a p'"
proof -
  from assms obtain dels dels' where "hget (ps_delegations p) a = Some dels"
    and loop: "claim_loop (ps_current_epoch p) (ps_reward_pools p) dels 0 = Ret (dels', x)"
    and p': "p' = p\<lparr>ps_delegations := hput a dels' (ps_delegations p)\<rparr>"
    by (auto simp: claim_rewards_def split: option.splits)
  from claim_loop_again [OF loop] show ?thesis
    by (simp add: claim_rewards_def get_delegations_def p')
qed

text \<open>
  Withdrawing the whole of one delegation discards every other delegation of the same
  delegator to that validator: only the first one's amount reaches the unbonding queue, and no
  delegation to the validator is left.
\<close>

theorem undelegate_discards_others:
  assumes "hget (ps_delegations p) a = Some dels"
    and "find (\<lambda>d. dl_validator d = v) dels = Some d"
    and "undelegate a v (dl_amount d) p = (p', res)"
  shows "res = Inr ()
    \<and> get_delegations a p' = filter (\<lambda>d. dl_validator d \<noteq> v) dels
    \<and> ps_unbonding p' = ps_unbonding p
        @ [\<lparr>ub_delegator = a, ub_validator = v, ub_amount = dl_amount d,
            ub_completion_epoch = ps_current_epoch p + unbonding_period (ps_config p)\<rparr>]"
proof -
  have "dl_validator d = v" using assms(2) by (auto simp: find_Some_iff)
  with assms show ?thesis
    by (auto simp: undelegate_def get_delegations_def Let_def update_first_filter)
qed

text \<open>Validator 1 with two delegations of delegator 2, before any reward.\<close>

definition demo_pos :: ProofOfStake where
  "demo_pos = (ProofOfStake_new StakingConfig_default)
     \<lparr>ps_validators := demo_validators, ps_reward_pools := [(1, RewardPool_default)],
      ps_delegations := [(2, [\<lparr>dl_delegator = 2, dl_validator = 1, dl_amount = 5000000,
                              dl_shares = 5000000000000, dl_last_claim_epoch = 0\<rparr>,
                             \<lparr>dl_delegator = 2, dl_validator = 1, dl_amount = 9000000,
                              dl_shares = 9000000000000, dl_last_claim_epoch = 0\<rparr>])]\<rparr>"

theorem undelegate_discards_others_witness:
  "get_delegations 2 (fst (undelegate 2 1 5000000 demo_pos)) = []
   \<and> map ub_amount (ps_unbonding (fst (undelegate 2 1 5000000 demo_pos))) = [5000000]"
  using undelegate_discards_others [of demo_pos 2 _ 1 _ "fst (undelegate 2 1 5000000 demo_pos)"
      "snd (undelegate 2 1 5000000 demo_pos)"]
  by (simp add: demo_pos_def ProofOfStake_new_def)

text \<open>One validator with 10,000 tokens of its own and as much from delegator 2.\<close>

definition staked_pos :: ProofOfStake where
  "staked_pos = fst (delegate 2 1 10000000000
     (fst (register_validator 1 [] 10000000000 500 (ProofOfStake_new StakingConfig_default))))"

lemma staked_pos_eq:
  "staked_pos = (ProofOfStake_new StakingConfig_default)
     \<lparr>ps_validators := (ValidatorSet_new 0)
        \<lparr>vs_validators := [(1, (Validator_new 1 [] 20000000000)\<lparr>v_commission := 500\<rparr>)],
         vs_total_stake := 20000000000\<rparr>,
      ps_reward_pools := [(1, RewardPool_default)],
      ps_delegations := [(2, [\<lparr>dl_delegator = 2, dl_validator = 1, dl_amount = 10000000000,
         dl_shares = 10000000000000000, dl_last_claim_epoch = 0\<rparr>])]\<rparr>"
  by (simp add: staked_pos_def delegate_def register_validator_def ProofOfStake_new_def
      StakingConfig_default_def add_validator_def ValidatorSet_new_def Validator_new_def Let_def
      hput_def vs_get_def total_shares_def hvalues_def hset_get_def saturating_mul_def
      SHARE_PRECISION_def)

lemma staked_claim:
  "\<exists>p p' x. end_epoch 1000 staked_pos = Ret (p, Inr 1) \<and> claim_rewards 2 p = Ret (p', Inr x)
     \<and> unat x = 475000000"
proof -
  obtain pool where pool: "credit_pool 950 20000000000 1 RewardPool_default = Ret pool"
    "u256_val (rp_reward_per_share pool) = 47500000000"
    using credit_pool_val [of 20000000000 RewardPool_default 950 1]
    by (auto simp: RewardPool_default_def)
  let ?d = "\<lparr>dl_delegator = 2, dl_validator = 1, dl_amount = 10000000000,
         dl_shares = 10000000000000000, dl_last_claim_epoch = 0\<rparr>"
  obtain x where x: "pending_reward ?d pool = Ret x" "unat x = 475000000"
    using pending_reward_val [of ?d pool] by (auto simp: pool(2))
  have "validator_reward 1000 20000000000 20000000000 = 1000" "commission_part 1000 500 = 50"
    by (simp_all add: validator_reward_def commission_part_def)
  then have "\<exists>p. end_epoch 1000 staked_pos = Ret (p, Inr 1) \<and> ps_current_epoch p = 1
      \<and> ps_reward_pools p = [(1, pool)] \<and> ps_delegations p = [(2, [?d])]"
    using pool(1)
    by (simp add: staked_pos_eq end_epoch_def distribute_rewards_def ProofOfStake_new_def
        ValidatorSet_new_def Validator_new_def active_stake_def active_validators_def
        is_eligible_def hvalues_def process_unbonding_def hput_def Let_def)
  then obtain p where p: "end_epoch 1000 staked_pos = Ret (p, Inr 1)" "ps_current_epoch p = 1"
    "ps_reward_pools p = [(1, pool)]" "ps_delegations p = [(2, [?d])]" by blast
  from p x show ?thesis by (auto simp: claim_rewards_def)
qed

text \<open>
  Claims can exceed the rewards: from the initial state, after one registration, one
  delegation of the same size and one epoch with rewards of 1000, whose delegators' part is 950,
  the delegator's claim pays 475,000,000, a million times half of that part.
\<close>

theorem claim_exceeds_rewards:
  "\<exists>p p' x. end_epoch 1000 staked_pos = Ret (p, Inr 1) \<and> claim_rewards 2 p = Ret (p', Inr x)
     \<and> unat x = 475000000"
  by (rule staked_claim)

theorem claim_pays_again_witness:
  "\<exists>p p' p'' x. claim_rewards 2 p = Ret (p', Inr x) \<and> claim_rewards 2 p' = Ret (p'', Inr x)
     \<and> unat x = 475000000"
proof -
  obtain p p' x where c: "claim_rewards 2 p = Ret (p', Inr x)" and x: "unat x = 475000000"
    using staked_claim by blast
  from claim_pays_again [OF c] c x show ?thesis by blast
qed

end
