(* ===== verification/Vertex.thy ===== *)
theory Vertex
  imports Transaction
begin

text \<open>
  Vertices of the DAG, \<^verbatim>\<open>src/crates/nexus-dag/src/vertex.rs\<close>: the vertex record, its constructor
  and the genesis vertex, structural verification, size, header and status. The wall clock read by
  the constructor is the argument \<open>now\<close>.
\<close>

section \<open>Data\<close>

definition MAX_TRANSACTIONS_PER_VERTEX :: nat where "MAX_TRANSACTIONS_PER_VERTEX = 1000"
definition MAX_PARENTS :: nat where "MAX_PARENTS = 8"
definition PROTOCOL_VERSION :: u32 where "PROTOCOL_VERSION = 1"

record Vertex =
  vx_hash :: Hash
  vx_parents :: "Hash list"
  vx_height :: Height
  vx_timestamp :: Timestamp
  vx_validator :: ValidatorId
  vx_transactions :: "Transaction list"
  vx_tx_root :: Hash
  vx_state_root :: Hash
  vx_receipts_root :: Hash
  vx_weight :: Weight
  vx_signature :: EcdsaSignature
  vx_version :: u32
  vx_extra_data :: "u8 list"

datatype VertexError =
    NoParents
  | TooManyParents nat
  | TooManyTransactions nat
  | InvalidMerkleRoot
  | InvalidHash
  | VxInvalidSignature
  | ParentNotFound Hash
  | TimestampTooOld
  | TimestampInFuture
  | InvalidHeight Height Height

datatype VertexStatus = Pending | AwaitingParents | Confirmed | StatusFinalized | Rejected | Orphaned

section \<open>Construction\<close>

definition Vertex_new ::
    "crypto_lib \<Rightarrow> Timestamp \<Rightarrow> Address \<Rightarrow> Hash list \<Rightarrow> Hash list \<Rightarrow> u64 \<Rightarrow> u64 \<Rightarrow> Vertex" where
  "Vertex_new lib now validator parents tx_hashes epoch height =
     (let validator_id = Hash_new (copy_into 0 (addr_bytes validator) (replicate 32 0))
      in \<lparr>vx_hash = vertex_hash lib parents tx_hashes now validator_id,
          vx_parents = parents, vx_height = height, vx_timestamp = now, vx_validator = validator_id,
          vx_transactions = [], vx_tx_root = compute_merkle_root lib tx_hashes,
          vx_state_root = 0, vx_receipts_root = 0, vx_weight = 1,
          vx_signature = \<lparr>sig_r = 0, sig_s = 0, sig_v = 0\<rparr>,
          vx_version = PROTOCOL_VERSION, vx_extra_data = []\<rparr>)"

definition Vertex_genesis :: "u64 \<Rightarrow> Timestamp \<Rightarrow> Vertex" where
  "Vertex_genesis cid timestamp =
     \<lparr>vx_hash = Hash_new (replicate 32 0), vx_parents = [], vx_height = 0, vx_timestamp = timestamp,
      vx_validator = 0, vx_transactions = [], vx_tx_root = 0, vx_state_root = 0,
      vx_receipts_root = 0, vx_weight = - 1,
      vx_signature = \<lparr>sig_r = 0, sig_s = 0, sig_v = 0\<rparr>, vx_version = 1,
      vx_extra_data = u64_to_be_bytes cid\<rparr>"

definition is_genesis :: "Vertex \<Rightarrow> bool" where
  "is_genesis v \<longleftrightarrow> vx_parents v = [] \<and> vx_height v = 0"

section \<open>Verification\<close>

definition verify_structure :: "crypto_lib \<Rightarrow> Vertex \<Rightarrow> VertexError + unit" where
  "verify_structure lib v =
     (if \<not> is_genesis v \<and> vx_parents v = [] then Inl NoParents
      else if length (vx_parents v) > MAX_PARENTS then Inl (TooManyParents (length (vx_parents v)))
      else if length (vx_transactions v) > MAX_TRANSACTIONS_PER_VERTEX
      then Inl (TooManyTransactions (length (vx_transactions v)))
      else let tx_hashes = map (tx_hash lib) (vx_transactions v);
               computed_root = compute_merkle_root lib tx_hashes
           in if computed_root \<noteq> vx_tx_root v then Inl InvalidMerkleRoot
              else if vertex_hash lib (vx_parents v) tx_hashes (vx_timestamp v) (vx_validator v)
                        \<noteq> vx_hash v
              then Inl InvalidHash
              else Inr ())"

text \<open>The \<open>Display\<close> texts of a hash and of the errors.\<close>

definition hash_string :: "Hash \<Rightarrow> string" where
  "hash_string h = ''0x'' @ hex_encode (as_bytes h)"

fun vertex_error_string :: "VertexError \<Rightarrow> string" where
  "vertex_error_string NoParents = ''Vertex has no parents (non-genesis)''"
| "vertex_error_string (TooManyParents n) =
     ''Too many parents: '' @ dec_digits n @ '' (max '' @ dec_digits MAX_PARENTS @ '')''"
| "vertex_error_string (TooManyTransactions n) =
     ''Too many transactions: '' @ dec_digits n @ '' (max '' @ dec_digits MAX_TRANSACTIONS_PER_VERTEX @ '')''"
| "vertex_error_string InvalidMerkleRoot = ''Invalid merkle root''"
| "vertex_error_string InvalidHash = ''Invalid vertex hash''"
| "vertex_error_string VxInvalidSignature = ''Invalid signature''"
| "vertex_error_string (ParentNotFound h) = ''Parent not found: '' @ hash_string h"
| "vertex_error_string TimestampTooOld = ''Timestamp too old''"
| "vertex_error_string TimestampInFuture = ''Timestamp in future''"
| "vertex_error_string (InvalidHeight e g) =
     ''Invalid height: expected '' @ dec_digits (unat e) @ '', got '' @ dec_digits (unat g)"

definition vertex_size :: "Vertex \<Rightarrow> nat" where
  "vertex_size v =
     (let base_size = 32 + length (vx_parents v) * 32 + 8 + 8 + 32 + 32 + 32 + 32 + 16 + 65 + 4
            + length (vx_extra_data v);
          tx_size = sum_list (map (\<lambda>t. length (tx_data t) + 200) (vx_transactions v))
      in base_size + tx_size)"

record VertexHeader =
  vh_hash :: Hash
  vh_parents :: "Hash list"
  vh_height :: Height
  vh_timestamp :: Timestamp
  vh_validator :: ValidatorId
  vh_tx_root :: Hash
  vh_state_root :: Hash
  vh_receipts_root :: Hash
  vh_weight :: Weight
  vh_tx_count :: u32

definition VertexHeader_from :: "Vertex \<Rightarrow> VertexHeader" where
  "VertexHeader_from v =
     \<lparr>vh_hash = vx_hash v, vh_parents = vx_parents v, vh_height = vx_height v,
      vh_timestamp = vx_timestamp v, vh_validator = vx_validator v, vh_tx_root = vx_tx_root v,
      vh_state_root = vx_state_root v, vh_receipts_root = vx_receipts_root v,
      vh_weight = vx_weight v, vh_tx_count = of_nat (length (vx_transactions v))\<rparr>"

section \<open>Lemmas\<close>

lemma verify_structure_ok:
  "verify_structure lib v = Inr () \<longleftrightarrow>
     (vx_parents v = [] \<longrightarrow> vx_height v = 0) \<and> length (vx_parents v) \<le> 8
     \<and> length (vx_transactions v) \<le> 1000
     \<and> vx_tx_root v = compute_merkle_root lib (map (tx_hash lib) (vx_transactions v))
     \<and> vx_hash v = vertex_hash lib (vx_parents v) (map (tx_hash lib) (vx_transactions v))
                     (vx_timestamp v) (vx_validator v)"
  by (auto simp: verify_structure_def is_genesis_def Let_def MAX_PARENTS_def
      MAX_TRANSACTIONS_PER_VERTEX_def)

text \<open>What \<open>Vertex::new\<close> builds carries no transactions but the root of their hashes.\<close>

lemma Vertex_new_structure:
  assumes "length parents \<le> 8" and "parents \<noteq> [] \<or> height = 0"
  shows "verify_structure lib (Vertex_new lib now a parents tx_hashes e height)
    = (if compute_merkle_root lib tx_hashes \<noteq> 0 then Inl InvalidMerkleRoot
       else if vertex_hash lib parents [] now (vx_validator (Vertex_new lib now a parents tx_hashes e height))
                 \<noteq> vx_hash (Vertex_new lib now a parents tx_hashes e height)
       then Inl InvalidHash else Inr ())"
  using assms by (auto simp: verify_structure_def Vertex_new_def is_genesis_def Let_def
      MAX_PARENTS_def MAX_TRANSACTIONS_PER_VERTEX_def compute_merkle_root_def)

end
