(* ===== verification/Dag.thy ===== *)
theory Dag
  imports Vertex
begin

text \<open>
  The DAG, \<^verbatim>\<open>src/crates/nexus-dag/src/dag.rs\<close>: storage of vertices with their indices (status,
  children, tips, heights), vertices that wait for missing parents, the recursive insertion that a
  new parent triggers, the graph searches, and pruning. Concurrent maps are association lists; a
  new key goes to the end, so the list of vertices is in order of insertion.

  The recursion between \<open>insert_vertex\<close> and \<open>process_orphans\<close> takes a bound \<open>n\<close> on its depth and is
  \<open>None\<close> beyond it; every call removes a pending vertex first, and the bound used by \<open>add_vertex\<close>,
  the number of pending vertices, is always enough (\<open>insert_total\<close>). The wall clock is \<open>now\<close>.
\<close>

section \<open>State\<close>

record DagConfig =
  max_tip_depth :: Height
  confirmation_threshold :: u128
  max_vertices_in_memory :: nat
  pruning_depth :: Height
  max_time_drift :: u64

definition DagConfig_default :: DagConfig where
  "DagConfig_default =
     \<lparr>max_tip_depth = 100, confirmation_threshold = 1000, max_vertices_in_memory = 100000,
      pruning_depth = 10000, max_time_drift = 30\<rparr>"

record Dag =
  dg_config :: DagConfig
  dg_vertices :: "(Hash, Vertex) hmap"
  dg_status :: "(Hash, VertexStatus) hmap"
  dg_children :: "(Hash, Hash list) hmap"
  dg_tips :: "Hash list"
  dg_by_height :: "(Height, Hash list) hmap"
  dg_finalized_height :: Height
  dg_genesis_hash :: "Hash option"
  dg_pending :: "(Hash, Vertex) hmap"
  dg_orphan_deps :: "(Hash, Hash list) hmap"

definition Dag_new :: "DagConfig \<Rightarrow> Dag" where
  "Dag_new cfg =
     \<lparr>dg_config = cfg, dg_vertices = [], dg_status = [], dg_children = [], dg_tips = [],
      dg_by_height = [], dg_finalized_height = 0, dg_genesis_hash = None, dg_pending = [],
      dg_orphan_deps = []\<rparr>"

definition init_genesis :: "Vertex \<Rightarrow> Dag \<Rightarrow> Dag \<times> (NexusError + unit)" where
  "init_genesis g d =
     (if dg_genesis_hash d \<noteq> None then (d, Inl (DagErr ''Genesis already set''))
      else let h = vx_hash g
           in (d\<lparr>dg_vertices := hput h g (dg_vertices d),
                 dg_status := hput h StatusFinalized (dg_status d),
                 dg_by_height := hset_add 0 h (dg_by_height d),
                 dg_tips := List.insert h (dg_tips d),
                 dg_genesis_hash := Some h\<rparr>, Inr ()))"

section \<open>Insertion\<close>

definition verify_timestamp :: "Timestamp \<Rightarrow> Vertex \<Rightarrow> Dag \<Rightarrow> NexusError + unit" where
  "verify_timestamp now v d =
     (let max_future = now + max_time_drift (dg_config d) * 1000
      in if vx_timestamp v > max_future
         then Inl (DagErr ''Vertex timestamp too far in future'')
         else if list_ex (\<lambda>p. case hget (dg_vertices d) p of None \<Rightarrow> False
                              | Some u \<Rightarrow> vx_timestamp v < vx_timestamp u) (vx_parents v)
         then Inl (DagErr ''Vertex timestamp before parent'')
         else Inr ())"

definition missing_parents :: "Vertex \<Rightarrow> Dag \<Rightarrow> Hash list" where
  "missing_parents v d = filter (\<lambda>p. \<not> hcontains (dg_vertices d) p) (vx_parents v)"

definition parent_heights :: "Vertex \<Rightarrow> Dag \<Rightarrow> Height list" where
  "parent_heights v d = List.map_filter (\<lambda>p. map_option vx_height (hget (dg_vertices d) p)) (vx_parents v)"

definition expected_height :: "Vertex \<Rightarrow> Dag \<Rightarrow> Height" where
  "expected_height v d =
     (case parent_heights v d of [] \<Rightarrow> 0 | hs \<Rightarrow> foldr max hs 0 + 1)"

text \<open>The body of \<open>insert_vertex\<close> up to the call of \<open>process_orphans\<close>.\<close>

definition link_parent :: "Hash \<Rightarrow> Hash \<Rightarrow> Dag \<Rightarrow> Dag" where
  "link_parent h p d =
     d\<lparr>dg_children := hset_add p h (dg_children d), dg_tips := removeAll p (dg_tips d)\<rparr>"

definition store_vertex :: "Vertex \<Rightarrow> Dag \<Rightarrow> NexusError + Dag" where
  "store_vertex v d =
     (if vx_height v \<noteq> expected_height v d
      then Inl (DagErr (''Invalid height: expected '' @ dec_digits (unat (expected_height v d))
                 @ '', got '' @ dec_digits (unat (vx_height v))))
      else let h = vx_hash v;
               d = d\<lparr>dg_vertices := hput h v (dg_vertices d), dg_status := hput h Confirmed (dg_status d)\<rparr>;
               d = fold (link_parent h) (vx_parents v) d;
               d = d\<lparr>dg_tips := List.insert h (dg_tips d)\<rparr>
           in Inr (d\<lparr>dg_by_height := hset_add (vx_height v) h (dg_by_height d)\<rparr>))"

definition add_deps :: "Hash \<Rightarrow> Hash list \<Rightarrow> Dag \<Rightarrow> Dag" where
  "add_deps h missing d =
     fold (\<lambda>p d. d\<lparr>dg_orphan_deps := hset_add p h (dg_orphan_deps d)\<rparr>) missing d"

function (sequential)
  insert_vertex :: "nat \<Rightarrow> Vertex \<Rightarrow> Dag \<Rightarrow> (Dag \<times> (NexusError + unit)) option"
  and process_orphans :: "nat \<Rightarrow> Hash \<Rightarrow> Dag \<Rightarrow> (Dag \<times> (NexusError + unit)) option"
  and orphan_loop :: "nat \<Rightarrow> Hash list \<Rightarrow> Dag \<Rightarrow> (Dag \<times> (NexusError + unit)) option" where
  "insert_vertex n v d =
     (case store_vertex v d of Inl e \<Rightarrow> Some (d, Inl e)
      | Inr d' \<Rightarrow> process_orphans n (vx_hash v) d')"
| "process_orphans n new_parent d =
     (let waiting = hset_get (dg_orphan_deps d) new_parent
      in orphan_loop n waiting (d\<lparr>dg_orphan_deps := hdel new_parent (dg_orphan_deps d)\<rparr>))"
| "orphan_loop n [] d = Some (d, Inr ())"
| "orphan_loop n (h # hs) d =
     (case hget (dg_pending d) h of None \<Rightarrow> orphan_loop n hs d
      | Some v \<Rightarrow>
        let d = d\<lparr>dg_pending := hdel h (dg_pending d)\<rparr>; still_missing = missing_parents v d
        in if still_missing = []
           then case n of 0 \<Rightarrow> None
                | Suc m \<Rightarrow>
                  (case insert_vertex m v d of None \<Rightarrow> None
                   | Some (d', Inl e) \<Rightarrow> Some (d', Inl e)
                   | Some (d', Inr _) \<Rightarrow> orphan_loop n hs d')
           else let d = add_deps h still_missing d
                in orphan_loop n hs (d\<lparr>dg_pending := hput h v (dg_pending d)\<rparr>))"
  by pat_completeness auto
termination
  by (relation "inv_image (less_than <*lex*> less_than <*lex*> less_than)
       (case_sum (\<lambda>(n, v, d). (n, 2, 0))
         (case_sum (\<lambda>(n, p, d). (n, 1, 0)) (\<lambda>(n, hs, d). (n, 0, length hs))))")
    auto

declare insert_vertex.simps [simp del] process_orphans.simps [simp del]

definition add_vertex :: "crypto_lib \<Rightarrow> Timestamp \<Rightarrow> Vertex \<Rightarrow> Dag \<Rightarrow> (Dag \<times> (NexusError + unit)) option" where
  "add_vertex lib now v d =
     (let h = vx_hash v
      in if hcontains (dg_vertices d) h then Some (d, Inr ())
         else case verify_structure lib v of
                Inl e \<Rightarrow> Some (d, Inl (DagErr (vertex_error_string e)))
              | Inr _ \<Rightarrow>
                (case verify_timestamp now v d of Inl e \<Rightarrow> Some (d, Inl e)
                 | Inr _ \<Rightarrow>
                   let missing = missing_parents v d
                   in if missing \<noteq> []
                      then let d = add_deps h missing d
                           in Some (d\<lparr>dg_pending := hput h v (dg_pending d),
                                      dg_status := hput h AwaitingParents (dg_status d)\<rparr>, Inr ())
                      else insert_vertex (length (dg_pending d)) v d))"

section \<open>Queries\<close>

definition get_tips :: "Dag \<Rightarrow> Hash list" where
  "get_tips d = dg_tips d"

definition get_vertex :: "Dag \<Rightarrow> Hash \<Rightarrow> Vertex option" where
  "get_vertex d h = hget (dg_vertices d) h"

definition get_status :: "Dag \<Rightarrow> Hash \<Rightarrow> VertexStatus option" where
  "get_status d h = hget (dg_status d) h"

definition get_vertices_at_height :: "Dag \<Rightarrow> Height \<Rightarrow> Hash list" where
  "get_vertices_at_height d k = hset_get (dg_by_height d) k"

definition get_children :: "Dag \<Rightarrow> Hash \<Rightarrow> Hash list" where
  "get_children d h = hset_get (dg_children d) h"

definition latest_height :: "Dag \<Rightarrow> Height" where
  "latest_height d =
     (case List.map_filter (\<lambda>h. map_option vx_height (hget (dg_vertices d) h)) (dg_tips d) of
        [] \<Rightarrow> 0 | hs \<Rightarrow> foldr max hs 0)"

definition finalized_height :: "Dag \<Rightarrow> Height" where
  "finalized_height d = dg_finalized_height d"

definition set_finalized_height :: "Height \<Rightarrow> Dag \<Rightarrow> Dag" where
  "set_finalized_height k d =
     (if k > dg_finalized_height d
      then let d = d\<lparr>dg_finalized_height := k\<rparr>
           in case hget (dg_by_height d) k of None \<Rightarrow> d
              | Some hs \<Rightarrow> fold (\<lambda>h d. d\<lparr>dg_status := hput h StatusFinalized (dg_status d)\<rparr>) hs d
      else d)"

text \<open>
  The breadth-first searches: the first element of the queue is taken, unvisited successors go to
  its end. Hashes form a finite type, so the set of unvisited ones bounds the search.
\<close>

function weight_loop :: "Dag \<Rightarrow> Hash list \<Rightarrow> Hash list \<Rightarrow> u128 \<Rightarrow> u128" where
  "weight_loop d [] visited w = w"
| "weight_loop d (c # queue) visited w =
     (if c \<in> set visited then weight_loop d queue visited w
      else let visited = c # visited
           in case hget (dg_vertices d) c of None \<Rightarrow> weight_loop d queue visited w
              | Some _ \<Rightarrow>
                weight_loop d (queue @ filter (\<lambda>x. x \<notin> set visited) (get_children d c)) visited (w + 1))"
  by pat_completeness auto
termination
  by (relation "measures [\<lambda>(d, queue, visited, w). card (- set visited), \<lambda>(d, queue, visited, w). length queue]")
    (auto intro!: psubset_card_mono)

definition calculate_weight :: "Dag \<Rightarrow> Hash \<Rightarrow> u128" where
  "calculate_weight d h = weight_loop d [h] [] 0"

function ancestors_loop :: "Dag \<Rightarrow> nat \<Rightarrow> (Hash \<times> nat) list \<Rightarrow> Hash list \<Rightarrow> Hash list \<Rightarrow> Hash list" where
  "ancestors_loop d max_depth [] visited ancestors = ancestors"
| "ancestors_loop d max_depth ((c, depth) # queue) visited ancestors =
     (if c \<in> set visited \<or> depth > max_depth then ancestors_loop d max_depth queue visited ancestors
      else let visited = c # visited; ancestors = ancestors @ [c]
           in case hget (dg_vertices d) c of None \<Rightarrow> ancestors_loop d max_depth queue visited ancestors
              | Some v \<Rightarrow>
                ancestors_loop d max_depth
                  (queue @ map (\<lambda>p. (p, depth + 1)) (filter (\<lambda>p. p \<notin> set visited) (vx_parents v)))
                  visited ancestors)"
  by pat_completeness auto
termination
  by (relation "measures [\<lambda>(d, m, queue, visited, as). card (- set visited),
        \<lambda>(d, m, queue, visited, as). length queue]")
    (auto intro!: psubset_card_mono)

definition get_ancestors :: "Dag \<Rightarrow> Hash \<Rightarrow> nat \<Rightarrow> Hash list" where
  "get_ancestors d h max_depth =
     ancestors_loop d max_depth
       (case hget (dg_vertices d) h of None \<Rightarrow> [] | Some v \<Rightarrow> map (\<lambda>p. (p, 1)) (vx_parents v)) [] []"

function ancestor_loop :: "Dag \<Rightarrow> Hash \<Rightarrow> Hash list \<Rightarrow> Hash list \<Rightarrow> bool" where
  "ancestor_loop d ancestor [] visited = False"
| "ancestor_loop d ancestor (c # queue) visited =
     (if c = ancestor then True
      else if c \<in> set visited then ancestor_loop d ancestor queue visited
      else let visited = c # visited
           in case hget (dg_vertices d) c of None \<Rightarrow> ancestor_loop d ancestor queue visited
              | Some v \<Rightarrow>
                ancestor_loop d ancestor (queue @ filter (\<lambda>p. p \<notin> set visited) (vx_parents v)) visited)"
  by pat_completeness auto
termination
  by (relation "measures [\<lambda>(d, a, queue, visited). card (- set visited),
        \<lambda>(d, a, queue, visited). length queue]")
    (auto intro!: psubset_card_mono)

definition is_ancestor :: "Dag \<Rightarrow> Hash \<Rightarrow> Hash \<Rightarrow> bool" where
  "is_ancestor d ancestor descendant = ancestor_loop d ancestor [descendant] []"

declare weight_loop.simps [simp del] ancestors_loop.simps [simp del] ancestor_loop.simps [simp del]

record DagStats =
  total_vertices :: nat
  tips_count :: nat
  pending_count :: nat
  st_latest_height :: Height
  st_finalized_height :: Height

definition dag_stats :: "Dag \<Rightarrow> DagStats" where
  "dag_stats d =
     \<lparr>total_vertices = length (dg_vertices d), tips_count = length (dg_tips d),
      pending_count = length (dg_pending d), st_latest_height = latest_height d,
      st_finalized_height = finalized_height d\<rparr>"

definition prune_vertex :: "Hash \<Rightarrow> Dag \<Rightarrow> Dag" where
  "prune_vertex h d =
     d\<lparr>dg_vertices := hdel h (dg_vertices d), dg_status := hdel h (dg_status d),
       dg_children := hdel h (dg_children d)\<rparr>"

fun prune_loop :: "nat list \<Rightarrow> Dag \<Rightarrow> nat \<Rightarrow> Dag \<times> nat" where
  "prune_loop [] d pruned = (d, pruned)"
| "prune_loop (k # ks) d pruned =
     (case hget (dg_by_height d) (of_nat k) of None \<Rightarrow> prune_loop ks d pruned
      | Some hs \<Rightarrow>
        let d = d\<lparr>dg_by_height := hdel (of_nat k) (dg_by_height d)\<rparr>
        in prune_loop ks (fold prune_vertex hs d) (pruned + length hs))"

definition prune :: "Height \<Rightarrow> Dag \<Rightarrow> Dag \<times> nat" where
  "prune keep_above_height d =
     (if keep_above_height \<ge> finalized_height d then (d, 0)
      else prune_loop [0..<unat keep_above_height] d 0)"

section \<open>Well-formed graphs\<close>

text \<open>Every vertex comes after its parents.\<close>

fun parents_first :: "Hash set \<Rightarrow> (Hash, Vertex) hmap \<Rightarrow> bool" where
  "parents_first seen [] \<longleftrightarrow> True"
| "parents_first seen ((h, v) # es) \<longleftrightarrow>
     set (vx_parents v) \<subseteq> seen \<and> parents_first (insert h seen) es"

definition child_of :: "Dag \<Rightarrow> Hash \<Rightarrow> Hash \<Rightarrow> bool" where
  "child_of d c p \<longleftrightarrow> (\<exists>v. hget (dg_vertices d) c = Some v \<and> p \<in> set (vx_parents v))"

definition dag_graph :: "Dag \<Rightarrow> bool" where
  "dag_graph d \<longleftrightarrow>
     wf_hmap (dg_vertices d) \<and> parents_first {} (dg_vertices d)
     \<and> (\<forall>h v. hget (dg_vertices d) h = Some v \<longrightarrow>
          vx_hash v = h \<and> vx_height v = expected_height v d
          \<and> hget (dg_status d) h \<in> {Some Confirmed, Some StatusFinalized})
     \<and> (\<forall>c p. c \<in> set (get_children d p) \<longleftrightarrow> child_of d c p)
     \<and> (\<forall>t. t \<in> set (get_tips d) \<longleftrightarrow> hcontains (dg_vertices d) t \<and> (\<forall>c. \<not> child_of d c t))
     \<and> (\<forall>k h. h \<in> set (get_vertices_at_height d k) \<longleftrightarrow>
          (\<exists>v. hget (dg_vertices d) h = Some v \<and> vx_height v = k))"

lemma parents_first_append:
  "parents_first seen (xs @ [(h, v)]) \<longleftrightarrow>
     parents_first seen xs \<and> set (vx_parents v) \<subseteq> seen \<union> fst ` set xs"
  by (induction seen xs rule: parents_first.induct) auto

lemma parents_first_present:
  "parents_first seen es \<Longrightarrow> (h, v) \<in> set es \<Longrightarrow> set (vx_parents v) \<subseteq> seen \<union> fst ` set es"
  by (induction seen es rule: parents_first.induct) auto

lemma hput_fresh: "hget m k = None \<Longrightarrow> hput k v m = m @ [(k, v)]"
  by (induction m) (auto simp: hput_def)

lemma graph_parents_present:
  assumes "dag_graph d" "hget (dg_vertices d) h = Some v" "p \<in> set (vx_parents v)"
  shows "hcontains (dg_vertices d) p"
proof -
  have "parents_first {} (dg_vertices d)" using assms(1) by (simp add: dag_graph_def)
  from parents_first_present [OF this hget_in_set [OF assms(2)]] assms(3) show ?thesis
    unfolding map_of_eq_None_iff by auto
qed

lemma expected_height_cong:
  "(\<And>p. p \<in> set (vx_parents v) \<Longrightarrow> hget (dg_vertices d) p = hget (dg_vertices d') p) \<Longrightarrow>
     expected_height v d = expected_height v d'"
proof -
  assume same: "\<And>p. p \<in> set (vx_parents v) \<Longrightarrow> hget (dg_vertices d) p = hget (dg_vertices d') p"
  have "List.map_filter (\<lambda>p. map_option vx_height (hget (dg_vertices d) p)) ps
      = List.map_filter (\<lambda>p. map_option vx_height (hget (dg_vertices d') p)) ps"
    if "set ps \<subseteq> set (vx_parents v)" for ps
    using that same by (induction ps) (auto simp: List.map_filter_simps split: option.split)
  then have "parent_heights v d = parent_heights v d'" by (simp add: parent_heights_def)
  then show ?thesis by (simp add: expected_height_def)
qed

lemma link_parents:
  "dg_vertices (fold (link_parent h) ps d) = dg_vertices d"
  "dg_status (fold (link_parent h) ps d) = dg_status d"
  "dg_by_height (fold (link_parent h) ps d) = dg_by_height d"
  "dg_pending (fold (link_parent h) ps d) = dg_pending d"
  "dg_orphan_deps (fold (link_parent h) ps d) = dg_orphan_deps d"
  "set (dg_tips (fold (link_parent h) ps d)) = set (dg_tips d) - set ps"
  "set (hset_get (dg_children (fold (link_parent h) ps d)) p)
     = set (hset_get (dg_children d) p) \<union> (if p \<in> set ps then {h} else {})"
  by (induction ps arbitrary: d) (auto simp: link_parent_def)

lemma dag_graph_cong:
  "dg_vertices d = dg_vertices d' \<Longrightarrow> dg_status d = dg_status d' \<Longrightarrow> dg_children d = dg_children d' \<Longrightarrow>
   dg_tips d = dg_tips d' \<Longrightarrow> dg_by_height d = dg_by_height d' \<Longrightarrow> dag_graph d = dag_graph d'"
  by (simp add: dag_graph_def child_of_def get_children_def get_tips_def get_vertices_at_height_def
      expected_height_def parent_heights_def)

lemma missing_parents_Nil:
  "missing_parents v d = [] \<longleftrightarrow> (\<forall>p \<in> set (vx_parents v). hcontains (dg_vertices d) p)"
  by (auto simp: missing_parents_def filter_empty_conv)

text \<open>Storing a new vertex whose parents are present.\<close>

lemma store_vertex_fields:
  assumes "store_vertex v d = Inr d'" and "\<not> hcontains (dg_vertices d) (vx_hash v)"
  shows "dg_vertices d' = dg_vertices d @ [(vx_hash v, v)]"
    "dg_status d' = hput (vx_hash v) Confirmed (dg_status d)"
    "dg_pending d' = dg_pending d" "dg_orphan_deps d' = dg_orphan_deps d"
    "set (dg_tips d') = insert (vx_hash v) (set (dg_tips d) - set (vx_parents v))"
    "set (hset_get (dg_children d') p)
       = set (hset_get (dg_children d) p) \<union> (if p \<in> set (vx_parents v) then {vx_hash v} else {})"
    "set (hset_get (dg_by_height d') k)
       = set (hset_get (dg_by_height d) k) \<union> (if k = vx_height v then {vx_hash v} else {})"
    "vx_height v = expected_height v d"
  using assms
  by (auto simp: store_vertex_def Let_def link_parents hput_fresh split: if_splits)

lemma store_vertex_graph:
  assumes g: "dag_graph d" and fresh: "\<not> hcontains (dg_vertices d) (vx_hash v)"
    and par: "missing_parents v d = []" and st: "store_vertex v d = Inr d'"
  shows "dag_graph d'"
proof -
  let ?h = "vx_hash v"
  note f = store_vertex_fields [OF st fresh]
  have lookup: "hget (dg_vertices d') x = (if x = ?h then Some v else hget (dg_vertices d) x)" for x
    using fresh by (auto simp: f(1) map_add_def split: option.split)
  have par': "\<forall>p \<in> set (vx_parents v). hcontains (dg_vertices d) p"
    using par by (simp add: missing_parents_Nil)
  then have noself: "?h \<notin> set (vx_parents v)" using fresh by blast
  have noparent: "\<not> child_of d c ?h" for c
    using fresh graph_parents_present [OF g] unfolding child_of_def by blast
  have child: "child_of d' c p \<longleftrightarrow> child_of d c p \<or> c = ?h \<and> p \<in> set (vx_parents v)" for c p
    using fresh by (auto simp: child_of_def lookup)
  have wf: "wf_hmap (dg_vertices d')"
    using g fresh by (auto simp: dag_graph_def f(1) wf_hmap_def map_of_eq_None_iff)
  have pf: "parents_first {} (dg_vertices d')"
    using g par' by (auto simp: dag_graph_def f(1) parents_first_append map_of_eq_None_iff)
  have eh: "expected_height u d' = expected_height u d"
    if "\<forall>p \<in> set (vx_parents u). hcontains (dg_vertices d) p" for u
    using that fresh by (intro expected_height_cong) (auto simp: lookup)
  have old: "expected_height u d' = vx_height u \<and> vx_hash u = x
      \<and> hget (dg_status d) x \<in> {Some Confirmed, Some StatusFinalized}"
    if "hget (dg_vertices d) x = Some u" for x u
    using that g eh graph_parents_present [OF g that] by (simp add: dag_graph_def)
  have vert: "vx_hash u = x \<and> vx_height u = expected_height u d'
      \<and> hget (dg_status d') x \<in> {Some Confirmed, Some StatusFinalized}"
    if "hget (dg_vertices d') x = Some u" for x u
    using that old [of x u] eh [OF par'] f(8) by (auto simp: lookup f(2) split: if_splits)
  have kids: "c \<in> set (get_children d' p) \<longleftrightarrow> child_of d' c p" for c p
    using g by (auto simp: dag_graph_def get_children_def f(6) child)
  have tips: "t \<in> set (get_tips d') \<longleftrightarrow> hcontains (dg_vertices d') t \<and> (\<forall>c. \<not> child_of d' c t)" for t
    using g noself noparent by (auto simp: dag_graph_def get_tips_def f(5) child lookup)
  have heights: "x \<in> set (get_vertices_at_height d' k) \<longleftrightarrow>
      (\<exists>u. hget (dg_vertices d') x = Some u \<and> vx_height u = k)" for k x
    using g fresh by (auto simp: dag_graph_def get_vertices_at_height_def f(7) lookup)
  show ?thesis unfolding dag_graph_def using wf pf vert kids tips heights by blast
qed

section \<open>The waiting vertices\<close>

text \<open>
  \<open>U\<close> is a set that holds the vertices the DAG has let in. In \<open>U\<close> equal identifiers have equal parents; that
  this holds of the vertices that pass \<open>verify_structure\<close> follows below from the digest.
\<close>

definition hash_binds :: "Vertex set \<Rightarrow> bool" where
  "hash_binds U \<longleftrightarrow> (\<forall>u \<in> U. \<forall>v \<in> U. vx_hash u = vx_hash v \<longrightarrow> vx_parents u = vx_parents v)"

definition dag_queue :: "Vertex set \<Rightarrow> Dag \<Rightarrow> bool" where
  "dag_queue U d \<longleftrightarrow>
     wf_hmap (dg_pending d)
     \<and> (\<forall>h v. hget (dg_pending d) h = Some v \<longrightarrow> vx_hash v = h \<and> v \<in> U)
     \<and> (\<forall>h v. hget (dg_vertices d) h = Some v \<longrightarrow> v \<in> U)
     \<and> (\<forall>p h. h \<in> set (hset_get (dg_orphan_deps d) p) \<longrightarrow>
          \<not> hcontains (dg_vertices d) p \<and> (\<exists>v \<in> U. vx_hash v = h \<and> p \<in> set (vx_parents v)))"

text \<open>No vertex of \<open>W\<close> is both stored and waiting.\<close>

definition settled :: "Hash set \<Rightarrow> Dag \<Rightarrow> bool" where
  "settled W d \<longleftrightarrow> (\<forall>h \<in> W. hcontains (dg_vertices d) h \<longrightarrow> hget (dg_pending d) h = None)"

definition kept :: "Dag \<Rightarrow> Dag \<Rightarrow> bool" where
  "kept d d' \<longleftrightarrow> (\<forall>h v. hget (dg_vertices d) h = Some v \<longrightarrow> hget (dg_vertices d') h = Some v)"

definition dag_inv :: "Vertex set \<Rightarrow> Dag \<Rightarrow> bool" where
  "dag_inv U d \<longleftrightarrow> dag_graph d \<and> dag_queue U d"

lemma hash_bindsD:
  "hash_binds U \<Longrightarrow> u \<in> U \<Longrightarrow> v \<in> U \<Longrightarrow> vx_hash u = vx_hash v \<Longrightarrow> vx_parents u = vx_parents v"
  unfolding hash_binds_def by blast

lemma kept_trans: "kept d d' \<Longrightarrow> kept d' d'' \<Longrightarrow> kept d d''"
  by (simp add: kept_def)

lemma add_deps_fields:
  "dg_vertices (add_deps h ps d) = dg_vertices d" "dg_status (add_deps h ps d) = dg_status d"
  "dg_children (add_deps h ps d) = dg_children d" "dg_tips (add_deps h ps d) = dg_tips d"
  "dg_by_height (add_deps h ps d) = dg_by_height d" "dg_pending (add_deps h ps d) = dg_pending d"
  "set (hset_get (dg_orphan_deps (add_deps h ps d)) p)
     = set (hset_get (dg_orphan_deps d) p) \<union> (if p \<in> set ps then {h} else {})"
  by (induction ps arbitrary: d) (auto simp: add_deps_def)

lemma queue_facts:
  assumes "dag_queue U d"
  shows queue_wf: "wf_hmap (dg_pending d)"
    and queue_pending: "hget (dg_pending d) h = Some v \<Longrightarrow> vx_hash v = h \<and> v \<in> U"
    and queue_stored: "hget (dg_vertices d) h = Some v \<Longrightarrow> v \<in> U"
    and queue_dep_absent: "h \<in> set (hset_get (dg_orphan_deps d) p) \<Longrightarrow> \<not> hcontains (dg_vertices d) p"
    and queue_dep_known: "h \<in> set (hset_get (dg_orphan_deps d) p) \<Longrightarrow>
      \<exists>v \<in> U. vx_hash v = h \<and> p \<in> set (vx_parents v)"
  using assms unfolding dag_queue_def by blast+

lemma dag_queue_cong:
  "dg_vertices d = dg_vertices d' \<Longrightarrow> dg_pending d = dg_pending d' \<Longrightarrow>
   dg_orphan_deps d = dg_orphan_deps d' \<Longrightarrow> dag_queue U d = dag_queue U d'"
  by (simp only: dag_queue_def)

text \<open>A stored vertex waits for nothing.\<close>

lemma stored_no_deps:
  assumes "hash_binds U" "dag_graph d" "dag_queue U d" "hcontains (dg_vertices d) h"
  shows "h \<notin> set (hset_get (dg_orphan_deps d) p)"
proof
  assume dep: "h \<in> set (hset_get (dg_orphan_deps d) p)"
  from assms(4) obtain u where u: "hget (dg_vertices d) h = Some u" by auto
  then have "vx_hash u = h" "u \<in> U"
    using assms(2) queue_stored [OF assms(3)] unfolding dag_graph_def by blast+
  moreover obtain v where "v \<in> U" "vx_hash v = h" "p \<in> set (vx_parents v)"
    using queue_dep_known [OF assms(3) dep] by blast
  ultimately have "p \<in> set (vx_parents u)" using hash_bindsD [OF assms(1), of u v] by simp
  from graph_parents_present [OF assms(2) u this] queue_dep_absent [OF assms(3) dep] show False
    by blast
qed

text \<open>
  After storing \<open>v\<close>, with its own waiting list taken out, the queue is in order again and the
  vertices on that list are not stored.
\<close>

lemma store_vertex_queue:
  assumes U: "hash_binds U" "v \<in> U" and g: "dag_graph d" and q: "dag_queue U d"
    and fresh: "\<not> hcontains (dg_vertices d) (vx_hash v)" and par: "missing_parents v d = []"
    and st: "store_vertex v d = Inr d'" and W: "settled W d"
    and own: "vx_hash v \<in> W \<Longrightarrow> hget (dg_pending d) (vx_hash v) = None"
  defines "d'' \<equiv> d'\<lparr>dg_orphan_deps := hdel (vx_hash v) (dg_orphan_deps d')\<rparr>"
  shows "dag_graph d''" "dag_queue U d''" "kept d d''"
    "settled (W \<union> set (hset_get (dg_orphan_deps d') (vx_hash v))) d''"
proof -
  let ?h = "vx_hash v"
  note f = store_vertex_fields [OF st fresh]
  have "dag_graph d'" using g fresh par st by (rule store_vertex_graph)
  then show "dag_graph d''" unfolding d''_def by (subst dag_graph_cong [of _ d']) simp_all
  have lookup: "hget (dg_vertices d') x = (if x = ?h then Some v else hget (dg_vertices d) x)" for x
    using fresh by (auto simp: f(1) map_add_def split: option.split)
  have ready: "p \<in> set (vx_parents v) \<Longrightarrow> hcontains (dg_vertices d) p" for p
    using par by (simp add: missing_parents_Nil)
  show "dag_queue U d''"
    unfolding dag_queue_def
  proof (intro conjI allI impI)
    show "wf_hmap (dg_pending d'')" using queue_wf [OF q] by (simp add: d''_def f(3))
  next
    fix x u assume "hget (dg_pending d'') x = Some u"
    then show "vx_hash u = x" "u \<in> U" using queue_pending [OF q, of x u] by (simp_all add: d''_def f(3))
  next
    fix x u assume "hget (dg_vertices d'') x = Some u"
    then show "u \<in> U" using queue_stored [OF q, of x u] U(2)
      by (auto simp: d''_def lookup split: if_splits)
  next
    fix p x assume "x \<in> set (hset_get (dg_orphan_deps d'') p)"
    then have "p \<noteq> ?h" "x \<in> set (hset_get (dg_orphan_deps d) p)"
      by (auto simp: d''_def f(4) split: if_splits)
    then show "\<not> hcontains (dg_vertices d'') p" "\<exists>u \<in> U. vx_hash u = x \<and> p \<in> set (vx_parents u)"
      using queue_dep_absent [OF q, of x p] queue_dep_known [OF q, of x p]
      by (simp_all add: d''_def lookup)
  qed
  show "kept d d''" using fresh by (auto simp: kept_def d''_def lookup)
  have "?h \<notin> set (hset_get (dg_orphan_deps d) ?h)"
  proof
    assume "?h \<in> set (hset_get (dg_orphan_deps d) ?h)"
    then obtain u where "u \<in> U" "vx_hash u = ?h" "?h \<in> set (vx_parents u)"
      using queue_dep_known [OF q] by blast
    with U have "?h \<in> set (vx_parents v)" using hash_bindsD [OF U(1), of u v] by simp
    with ready fresh show False by blast
  qed
  moreover have "x \<notin> set (hset_get (dg_orphan_deps d) ?h)" if "hcontains (dg_vertices d) x" for x
    using stored_no_deps [OF U(1) g q that] .
  moreover have "hget (dg_pending d) x = None" if "x \<in> W" "x = ?h \<or> hcontains (dg_vertices d) x" for x
    using that W own unfolding settled_def by (cases "x = ?h") simp_all
  ultimately show "settled (W \<union> set (hset_get (dg_orphan_deps d') ?h)) d''"
    unfolding settled_def d''_def by (simp add: f(3,4) lookup) blast
qed

definition good_insertion :: "Vertex set \<Rightarrow> Hash set \<Rightarrow> Dag \<Rightarrow> Dag \<Rightarrow> bool" where
  "good_insertion U W d d' \<longleftrightarrow> dag_graph d' \<and> dag_queue U d' \<and> settled W d' \<and> kept d d'"

lemma good_insertion_from:
  "good_insertion U W d1 d' \<Longrightarrow> kept d d1 \<Longrightarrow> good_insertion U W d d'"
  unfolding good_insertion_def using kept_trans by blast

lemma good_insertion_weaken: "good_insertion U W d d' \<Longrightarrow> W' \<subseteq> W \<Longrightarrow> good_insertion U W' d d'"
  unfolding good_insertion_def settled_def by blast

lemma take_pending:
  assumes "dag_graph d" "dag_queue U d" "settled W d"
  shows "dag_graph (d\<lparr>dg_pending := hdel h (dg_pending d)\<rparr>)"
    "dag_queue U (d\<lparr>dg_pending := hdel h (dg_pending d)\<rparr>)"
    "settled W (d\<lparr>dg_pending := hdel h (dg_pending d)\<rparr>)"
    "kept d (d\<lparr>dg_pending := hdel h (dg_pending d)\<rparr>)"
proof -
  show "dag_graph (d\<lparr>dg_pending := hdel h (dg_pending d)\<rparr>)"
    using assms(1) by (subst dag_graph_cong [of _ d]) simp_all
  show "dag_queue U (d\<lparr>dg_pending := hdel h (dg_pending d)\<rparr>)"
    using assms(2) unfolding dag_queue_def by simp
  show "settled W (d\<lparr>dg_pending := hdel h (dg_pending d)\<rparr>)"
    using assms(3) unfolding settled_def by simp
qed (simp add: kept_def)

lemma put_pending:
  assumes "dag_graph d" "dag_queue U d" "settled W d" and "v \<in> U" "vx_hash v = h"
    and "\<not> hcontains (dg_vertices d) h" and "set ps \<subseteq> set (missing_parents v d)"
  defines "d' \<equiv> (add_deps h ps d)\<lparr>dg_pending := hput h v (dg_pending (add_deps h ps d))\<rparr>"
  shows "dag_graph d'" "dag_queue U d'" "settled W d'" "kept d d'"
proof -
  have fields: "dg_vertices d' = dg_vertices d" "dg_pending d' = hput h v (dg_pending d)"
    "set (hset_get (dg_orphan_deps d') p)
       = set (hset_get (dg_orphan_deps d) p) \<union> (if p \<in> set ps then {h} else {})" for p
    by (simp_all add: d'_def add_deps_fields)
  show "dag_graph d'"
    using assms(1) unfolding d'_def by (subst dag_graph_cong [of _ d]) (simp_all add: add_deps_fields)
  show "settled W d'"
    using assms(3,6) unfolding settled_def fields by auto
  show "kept d d'" by (simp add: kept_def fields)
  have miss: "p \<in> set (vx_parents v) \<and> \<not> hcontains (dg_vertices d) p" if "p \<in> set ps" for p
    using that assms(7) by (auto simp: missing_parents_def)
  show "dag_queue U d'"
    unfolding dag_queue_def fields
  proof (intro conjI allI impI)
    show "wf_hmap (hput h v (dg_pending d))" using queue_wf [OF assms(2)] by simp
  next
    fix x u assume "hget (hput h v (dg_pending d)) x = Some u"
    then show "vx_hash u = x" "u \<in> U"
      using queue_pending [OF assms(2), of x u] assms(4,5) by (auto split: if_splits)
  next
    fix x u assume "hget (dg_vertices d) x = Some u"
    then show "u \<in> U" by (rule queue_stored [OF assms(2)])
  next
    fix p x assume x: "x \<in> set (hset_get (dg_orphan_deps d) p) \<union> (if p \<in> set ps then {h} else {})"
    show "\<not> hcontains (dg_vertices d) p"
      using x queue_dep_absent [OF assms(2), of x p] miss [of p] by (auto split: if_splits)
    show "\<exists>u \<in> U. vx_hash u = x \<and> p \<in> set (vx_parents u)"
      using x queue_dep_known [OF assms(2), of x p] miss [of p] assms(4,5) by (auto split: if_splits)
  qed
qed

lemma orphan_step_good:
  assumes d: "dag_graph d" "dag_queue U d" "settled W d" and W: "set (h # hs) \<subseteq> W"
    and run: "orphan_loop n (h # hs) d = Some (d', r)" and Some: "hget (dg_pending d) h = Some v"
    and taken: "taken = d\<lparr>dg_pending := hdel h (dg_pending d)\<rparr>"
    and ins: "\<And>m d2 r2. missing_parents v taken = [] \<Longrightarrow> n = Suc m \<Longrightarrow> insert_vertex m v taken = Some (d2, r2) \<Longrightarrow>
      dag_graph taken \<Longrightarrow> dag_queue U taken \<Longrightarrow> settled W taken \<Longrightarrow> v \<in> U \<Longrightarrow> vx_hash v = h \<Longrightarrow>
      \<not> hcontains (dg_vertices taken) h \<Longrightarrow> good_insertion U W taken d2"
    and onward: "\<And>m d2 u. missing_parents v taken = [] \<Longrightarrow> n = Suc m \<Longrightarrow> insert_vertex m v taken = Some (d2, Inr u) \<Longrightarrow>
      dag_graph d2 \<Longrightarrow> dag_queue U d2 \<Longrightarrow> settled W d2 \<Longrightarrow> orphan_loop n hs d2 = Some (d', r) \<Longrightarrow> good_insertion U W d2 d'"
    and again: "\<And>e. missing_parents v taken \<noteq> [] \<Longrightarrow>
      e = (add_deps h (missing_parents v taken) taken)\<lparr>dg_pending := hput h v (dg_pending (add_deps h (missing_parents v taken) taken))\<rparr> \<Longrightarrow>
      dag_graph e \<Longrightarrow> dag_queue U e \<Longrightarrow> settled W e \<Longrightarrow> orphan_loop n hs e = Some (d', r) \<Longrightarrow> good_insertion U W e d'"
  shows "good_insertion U W d d'"
proof -
  note tp = take_pending [OF d, of h, folded taken]
  have hash: "vx_hash v = h" and vU: "v \<in> U" using queue_pending [OF d(2) Some] by simp_all
  have absent: "\<not> hcontains (dg_vertices taken) h" using d(3) W Some by (auto simp: settled_def taken)
  show ?thesis
  proof (cases "missing_parents v taken = []")
    case True
    then obtain m d2 r2 where m: "n = Suc m" "insert_vertex m v taken = Some (d2, r2)"
      using run Some by (auto simp: Let_def taken split: nat.splits option.splits)
    have g2: "good_insertion U W taken d2" by (rule ins [OF True m tp(1-3) vU hash absent])
    show ?thesis
    proof (cases r2)
      case (Inl e)
      then have "d' = d2" using run Some True m by (simp add: Let_def taken)
      with g2 tp(4) show ?thesis by (simp add: good_insertion_from)
    next
      case (Inr u)
      then have "orphan_loop n hs d2 = Some (d', r)" using run Some True m by (simp add: Let_def taken)
      with g2 Inr m(2) have "good_insertion U W d2 d'"
        by (intro onward [OF True m(1)]) (auto simp: good_insertion_def)
      moreover have "kept d d2" using g2 tp(4) kept_trans by (auto simp: good_insertion_def)
      ultimately show ?thesis by (rule good_insertion_from)
    qed
  next
    case False
    note pp = put_pending [OF tp(1-3) vU hash absent subset_refl]
    have "good_insertion U W ((add_deps h (missing_parents v taken) taken)
        \<lparr>dg_pending := hput h v (dg_pending (add_deps h (missing_parents v taken) taken))\<rparr>) d'"
      using run Some False by (intro again [OF False refl pp(1-3)]) (simp add: Let_def taken)
    with kept_trans [OF tp(4) pp(4)] show ?thesis by (rule good_insertion_from [rotated])
  qed
qed

lemma insertion_invariant:
  assumes U: "hash_binds U"
  shows "dag_graph d \<Longrightarrow> dag_queue U d \<Longrightarrow> settled W d \<Longrightarrow> v \<in> U \<Longrightarrow>
      \<not> hcontains (dg_vertices d) (vx_hash v) \<Longrightarrow> missing_parents v d = [] \<Longrightarrow>
      (vx_hash v \<in> W \<Longrightarrow> hget (dg_pending d) (vx_hash v) = None) \<Longrightarrow>
      insert_vertex n v d = Some (d', r) \<Longrightarrow> good_insertion U W d d'"
    and "dag_graph (d\<lparr>dg_orphan_deps := hdel p (dg_orphan_deps d)\<rparr>) \<Longrightarrow>
      dag_queue U (d\<lparr>dg_orphan_deps := hdel p (dg_orphan_deps d)\<rparr>) \<Longrightarrow>
      settled (W \<union> set (hset_get (dg_orphan_deps d) p)) (d\<lparr>dg_orphan_deps := hdel p (dg_orphan_deps d)\<rparr>) \<Longrightarrow>
      process_orphans n p d = Some (d', r) \<Longrightarrow>
      good_insertion U W (d\<lparr>dg_orphan_deps := hdel p (dg_orphan_deps d)\<rparr>) d'"
    and "dag_graph d \<Longrightarrow> dag_queue U d \<Longrightarrow> settled W d \<Longrightarrow> set hs \<subseteq> W \<Longrightarrow>
      orphan_loop n hs d = Some (d', r) \<Longrightarrow> good_insertion U W d d'"
proof (induction n v d and n p d and n hs d arbitrary: W d' r and W d' r and W d' r
    rule: insert_vertex_process_orphans_orphan_loop.induct)
  case (1 n v d)
  show ?case
  proof (cases "store_vertex v d")
    case (Inl e)
    with 1 show ?thesis by (simp add: insert_vertex.simps good_insertion_def kept_def)
  next
    case (Inr e)
    note sq = store_vertex_queue [OF U 1(5,2,3,6,7) Inr 1(4,8)]
    have "process_orphans n (vx_hash v) e = Some (d', r)"
      using 1(9) Inr by (simp add: insert_vertex.simps)
    from 1(1) [OF Inr sq(1,2,4) this] sq(3) show ?thesis by (rule good_insertion_from)
  qed
next
  case (2 n p d)
  from 2(1) [OF refl, of "W \<union> set (hset_get (dg_orphan_deps d) p)"] 2(2-5)
  have "good_insertion U (W \<union> set (hset_get (dg_orphan_deps d) p))
      (d\<lparr>dg_orphan_deps := hdel p (dg_orphan_deps d)\<rparr>) d'"
    by (simp add: process_orphans.simps Let_def)
  then show ?case by (rule good_insertion_weaken) simp
next
  case (3 n d)
  then show ?case by (simp add: good_insertion_def kept_def)
next
  case (4 n h hs d)
  show ?case
  proof (cases "hget (dg_pending d) h")
    case None
    with "4.IH"(1) "4.prems" show ?thesis by simp
  next
    case (Some v)
    show ?thesis
    proof (rule orphan_step_good [OF "4.prems" Some refl])
      fix m d2 r2
      assume "missing_parents v (d\<lparr>dg_pending := hdel h (dg_pending d)\<rparr>) = []" "n = Suc m"
        "insert_vertex m v (d\<lparr>dg_pending := hdel h (dg_pending d)\<rparr>) = Some (d2, r2)"
      note m = this
      assume "dag_graph (d\<lparr>dg_pending := hdel h (dg_pending d)\<rparr>)" "dag_queue U (d\<lparr>dg_pending := hdel h (dg_pending d)\<rparr>)"
        "settled W (d\<lparr>dg_pending := hdel h (dg_pending d)\<rparr>)" "v \<in> U" "vx_hash v = h"
        "\<not> hcontains (dg_vertices (d\<lparr>dg_pending := hdel h (dg_pending d)\<rparr>)) h"
      then show "good_insertion U W (d\<lparr>dg_pending := hdel h (dg_pending d)\<rparr>) d2"
        by (intro "4.IH"(2) [OF Some refl refl m(1,2) _ _ _ _ _ m(1) _ m(3)]) simp_all
    next
      fix m d2 u
      assume "missing_parents v (d\<lparr>dg_pending := hdel h (dg_pending d)\<rparr>) = []" "n = Suc m"
        "insert_vertex m v (d\<lparr>dg_pending := hdel h (dg_pending d)\<rparr>) = Some (d2, Inr u)"
        "dag_graph d2" "dag_queue U d2" "settled W d2" "orphan_loop n hs d2 = Some (d', r)"
      then show "good_insertion U W d2 d'"
        using "4.prems"(4) by (intro "4.IH"(3) [OF Some refl refl _ _ _ refl refl]) auto
    qed (use "4.IH"(4) [OF Some refl refl _ refl] "4.prems"(4) in auto)
  qed
qed

section \<open>The recursion ends\<close>

lemma length_hdel: "hget m k = Some v \<Longrightarrow> length (hdel k m) < length m"
  by (induction m) (auto simp: hdel_def AList.delete_eq split: if_splits
      intro: le_less_trans [OF length_filter_le])

lemma length_hput_hdel: "length (hput k v (hdel k m)) = Suc (length (hdel k m))"
  by (subst hput_fresh) simp_all

lemma store_vertex_pending: "store_vertex v d = Inr d' \<Longrightarrow> dg_pending d' = dg_pending d"
  by (auto simp: store_vertex_def Let_def link_parents split: if_splits)

lemma insertion_total:
  shows "length (dg_pending d) \<le> n \<Longrightarrow> \<exists>d' r. insert_vertex n v d = Some (d', r)
      \<and> length (dg_pending d') \<le> length (dg_pending d)"
    and "length (dg_pending d) \<le> n \<Longrightarrow> \<exists>d' r. process_orphans n p d = Some (d', r)
      \<and> length (dg_pending d') \<le> length (dg_pending d)"
    and "length (dg_pending d) \<le> n \<Longrightarrow> \<exists>d' r. orphan_loop n hs d = Some (d', r)
      \<and> length (dg_pending d') \<le> length (dg_pending d)"
proof (induction n v d and n p d and n hs d rule: insert_vertex_process_orphans_orphan_loop.induct)
  case (1 n v d)
  show ?case
  proof (cases "store_vertex v d")
    case (Inl e)
    then show ?thesis by (simp add: insert_vertex.simps)
  next
    case (Inr e)
    with 1 store_vertex_pending [OF Inr] show ?thesis by (simp add: insert_vertex.simps)
  qed
next
  case (2 n p d)
  then show ?case by (simp add: process_orphans.simps Let_def)
next
  case (3 n d)
  then show ?case by simp
next
  case (4 n h hs d)
  show ?case
  proof (cases "hget (dg_pending d) h")
    case None
    with "4.IH"(1) "4.prems" show ?thesis by simp
  next
    case (Some v)
    let ?d = "d\<lparr>dg_pending := hdel h (dg_pending d)\<rparr>"
    have less: "length (dg_pending ?d) < length (dg_pending d)" using length_hdel [OF Some] by simp
    show ?thesis
    proof (cases "missing_parents v ?d = []")
      case True
      obtain m where m: "n = Suc m" using less "4.prems" by (cases n) auto
      obtain d2 r2 where i: "insert_vertex m v ?d = Some (d2, r2)"
        "length (dg_pending d2) \<le> length (dg_pending ?d)"
        using "4.IH"(2) [OF Some refl refl True m] less "4.prems" m by auto
      show ?thesis
      proof (cases r2)
        case (Inl e)
        then show ?thesis using Some True m i less by (simp add: Let_def)
      next
        case (Inr u)
        from "4.IH"(3) [OF Some refl refl True m i(1) refl Inr] i(2) less "4.prems"
        obtain d3 r3 where "orphan_loop n hs d2 = Some (d3, r3)"
          "length (dg_pending d3) \<le> length (dg_pending d2)" by auto
        then show ?thesis using Some True m i less Inr by (simp add: Let_def)
      qed
    next
      case False
      let ?m = "missing_parents v ?d"
      let ?e = "(add_deps h ?m ?d)\<lparr>dg_pending := hput h v (dg_pending (add_deps h ?m ?d))\<rparr>"
      have "length (dg_pending ?e) \<le> length (dg_pending d)"
        using less by (simp add: add_deps_fields length_hput_hdel)
      with "4.IH"(4) [OF Some refl refl False refl] "4.prems" Some False show ?thesis
        by (fastforce simp: Let_def)
    qed
  qed
qed

section \<open>Searches\<close>

abbreviation parent_rel :: "Dag \<Rightarrow> (Hash \<times> Hash) set" where
  "parent_rel d \<equiv> {(c, p). child_of d c p}"

text \<open>A search is complete when every successor of a visited node is visited or queued.\<close>

lemma closed_Image: "R `` V \<subseteq> V \<Longrightarrow> R\<^sup>* `` V = V"
  by (metis Image_closed_trancl)

lemma ancestor_loop_sound:
  "ancestor_loop d a queue visited \<Longrightarrow> a \<in> (parent_rel d)\<^sup>* `` set queue"
proof (induction d a queue visited rule: ancestor_loop.induct)
  case (1 d a visited)
  then show ?case by (simp add: ancestor_loop.simps)
next
  case (2 d a c queue visited)
  show ?case
  proof (cases "c = a \<or> c \<in> set visited \<or> hget (dg_vertices d) c = None")
    case True
    with 2 show ?thesis by (auto simp: ancestor_loop.simps Let_def split: if_splits)
  next
    case False
    then obtain v where v: "hget (dg_vertices d) c = Some v" by auto
    let ?q = "queue @ filter (\<lambda>p. p \<notin> set (c # visited)) (vx_parents v)"
    have "ancestor_loop d a ?q (c # visited)"
      using "2.prems" False v by (simp add: ancestor_loop.simps Let_def)
    with "2.IH"(3) [OF _ _ refl v] False have "a \<in> (parent_rel d)\<^sup>* `` set ?q" by blast
    moreover have "(c, p) \<in> (parent_rel d)\<^sup>*" if "p \<in> set (vx_parents v)" for p
      using v that by (intro r_into_rtrancl) (auto simp: child_of_def)
    ultimately show ?thesis by (auto intro: rtrancl_trans)
  qed
qed

lemma ancestor_loop_complete:
  assumes "parent_rel d `` set visited \<subseteq> set visited \<union> set queue" "a \<notin> set visited"
    and "a \<in> (parent_rel d)\<^sup>* `` (set visited \<union> set queue)"
  shows "ancestor_loop d a queue visited"
  using assms
proof (induction d a queue visited rule: ancestor_loop.induct)
  case (1 d a visited)
  then show ?case using closed_Image [of "parent_rel d" "set visited"] by auto
next
  case (2 d a c queue visited)
  have none: "parent_rel d `` {c} = {}" if "hget (dg_vertices d) c = None"
    using that by (auto simp: child_of_def)
  have some: "parent_rel d `` {c} = set (vx_parents v)" if "hget (dg_vertices d) c = Some v" for v
    using that by (auto simp: child_of_def)
  consider "c = a" | "c \<noteq> a" "c \<in> set visited"
    | "c \<noteq> a" "c \<notin> set visited" "hget (dg_vertices d) c = None"
    | v where "c \<noteq> a" "c \<notin> set visited" "hget (dg_vertices d) c = Some v"
    by (cases "hget (dg_vertices d) c") auto
  then show ?case
  proof cases
    case 1
    then show ?thesis by (simp add: ancestor_loop.simps)
  next
    case 2
    have "set visited \<union> set (c # queue) = set visited \<union> set queue" using 2 by auto
    with 2 "2.IH"(1) "2.prems" show ?thesis by (simp add: ancestor_loop.simps)
  next
    case 3
    then have "ancestor_loop d a queue (c # visited)"
      using "2.IH"(2) [OF 3(1,2) refl 3(3)] "2.prems" none by auto
    with 3 show ?thesis by (simp add: ancestor_loop.simps)
  next
    case 4
    let ?q = "queue @ filter (\<lambda>p. p \<notin> set (c # visited)) (vx_parents v)"
    have "ancestor_loop d a ?q (c # visited)"
    proof (rule "2.IH"(3) [OF 4(1,2) refl 4(3)])
      show "parent_rel d `` set (c # visited) \<subseteq> set (c # visited) \<union> set ?q"
        using "2.prems"(1) some [OF 4(3)] by auto
      show "a \<notin> set (c # visited)" using 4(1) "2.prems"(2) by simp
      show "a \<in> (parent_rel d)\<^sup>* `` (set (c # visited) \<union> set ?q)"
        using "2.prems"(3) by auto
    qed
    with 4 show ?thesis by (simp add: ancestor_loop.simps)
  qed
qed

lemma is_ancestor_iff: "is_ancestor d a b \<longleftrightarrow> (b, a) \<in> (parent_rel d)\<^sup>*"
  using ancestor_loop_sound [of d a "[b]" "[]"] ancestor_loop_complete [of d "[]" "[b]" a]
  by (auto simp: is_ancestor_def)

definition down_rel :: "Dag \<Rightarrow> (Hash \<times> Hash) set" where
  "down_rel d = {(p, c). hcontains (dg_vertices d) p \<and> c \<in> set (get_children d p)}"

definition unseen :: "Dag \<Rightarrow> Hash set \<Rightarrow> Hash set \<Rightarrow> Hash set" where
  "unseen d visited start =
     {x \<in> (down_rel d)\<^sup>* `` start. x \<notin> visited \<and> hcontains (dg_vertices d) x}"

lemma Image_absorb:
  assumes "A \<subseteq> B" "B \<subseteq> R\<^sup>* `` A"
  shows "R\<^sup>* `` B = R\<^sup>* `` A"
proof -
  have "R\<^sup>* `` B \<subseteq> R\<^sup>* `` (R\<^sup>* `` A)" using assms(2) by blast
  also have "\<dots> = R\<^sup>* `` A" by (simp add: relcomp_Image [symmetric])
  finally show ?thesis using assms(1) by blast
qed

lemma weight_loop_counts:
  assumes "down_rel d `` set visited \<subseteq> set visited \<union> set queue"
  shows "weight_loop d queue visited w
    = w + of_nat (card (unseen d (set visited) (set visited \<union> set queue)))"
  using assms
proof (induction d queue visited w rule: weight_loop.induct)
  case (1 d visited w)
  then have "unseen d (set visited) (set visited) = {}"
    using closed_Image [of "down_rel d" "set visited"] by (auto simp: unseen_def)
  then show ?case by (simp add: weight_loop.simps)
next
  case (2 d c queue visited w)
  have same: "set visited \<union> set (c # queue) = set (c # visited) \<union> set queue" by auto
  consider "c \<in> set visited" | "c \<notin> set visited" "hget (dg_vertices d) c = None"
    | v where "c \<notin> set visited" "hget (dg_vertices d) c = Some v"
    by (cases "hget (dg_vertices d) c") auto
  then show ?case
  proof cases
    case 1
    then have "set visited \<union> set (c # queue) = set visited \<union> set queue" by auto
    with 1 "2.IH"(1) "2.prems" show ?thesis by (simp add: weight_loop.simps insert_absorb)
  next
    case 2
    then have "down_rel d `` set (c # visited) \<subseteq> set (c # visited) \<union> set queue"
      using "2.prems" by (auto simp: down_rel_def)
    from "2.IH"(2) [OF 2(1) refl 2(2) this]
    have "weight_loop d queue (c # visited) w
        = w + of_nat (card (unseen d (set (c # visited)) (set visited \<union> set (c # queue))))"
      unfolding same .
    moreover have "unseen d (set (c # visited)) A = unseen d (set visited) A" for A
      using 2 by (auto simp: unseen_def)
    ultimately show ?thesis using 2 by (simp add: weight_loop.simps)
  next
    case 3
    let ?q = "queue @ filter (\<lambda>x. x \<notin> set (c # visited)) (get_children d c)"
    have edge: "(c, x) \<in> down_rel d \<longleftrightarrow> x \<in> set (get_children d c)" for x
      using 3 by (simp add: down_rel_def)
    have "down_rel d `` set (c # visited) \<subseteq> set (c # visited) \<union> set ?q"
      using "2.prems" edge by auto
    note IH = "2.IH"(3) [OF 3(1) refl 3(2) this]
    have reach: "(down_rel d)\<^sup>* `` (set (c # visited) \<union> set ?q)
        = (down_rel d)\<^sup>* `` (set visited \<union> set (c # queue))"
      unfolding same using edge by (intro Image_absorb) (auto intro: r_into_rtrancl)
    have "unseen d (set visited) (set visited \<union> set (c # queue))
        = insert c (unseen d (set (c # visited)) (set (c # visited) \<union> set ?q))"
      using 3 unfolding unseen_def reach by auto
    moreover have "c \<notin> unseen d (set (c # visited)) A" for A by (simp add: unseen_def)
    ultimately have "card (unseen d (set visited) (set visited \<union> set (c # queue)))
        = Suc (card (unseen d (set (c # visited)) (set (c # visited) \<union> set ?q)))"
      by simp
    with IH 3 show ?thesis by (simp add: weight_loop.simps algebra_simps)
  qed
qed

lemma down_rel_graph:
  assumes "dag_graph d"
  shows "down_rel d = (parent_rel d)\<inverse>"
proof -
  have "hcontains (dg_vertices d) p" if "child_of d c p" for c p
    using that graph_parents_present [OF assms] unfolding child_of_def by blast
  then show ?thesis using assms by (auto simp: down_rel_def dag_graph_def)
qed

lemma parents_first_rank:
  assumes "parents_first seen es" "distinct (map fst es)"
  shows "\<exists>rank. \<forall>c v p. (c, v) \<in> set es \<longrightarrow> p \<in> set (vx_parents v) \<longrightarrow> p \<in> seen \<or> rank p < (rank c :: nat)"
  using assms
proof (induction seen es rule: parents_first.induct)
  case (1 seen)
  then show ?case by simp
next
  case (2 seen h v es)
  then obtain rank where r: "\<And>c u p. (c, u) \<in> set es \<Longrightarrow> p \<in> set (vx_parents u) \<Longrightarrow>
      p \<in> insert h seen \<or> rank p < (rank c :: nat)"
    by (auto simp del: insert_iff)
  define rank' where "rank' x = (if x = h then 0 else Suc (rank x))" for x
  have "p \<in> seen \<or> rank' p < rank' c"
    if e: "(c, u) \<in> set ((h, v) # es)" and p: "p \<in> set (vx_parents u)" for c u p
  proof (cases "(c, u) = (h, v)")
    case True
    with p "2.prems"(1) show ?thesis by auto
  next
    case False
    with e have in_es: "(c, u) \<in> set es" by auto
    with "2.prems"(2) have "c \<noteq> h" by force
    with r [OF in_es p] show ?thesis by (auto simp: rank'_def)
  qed
  then show ?case by blast
qed

lemma dag_acyclic:
  assumes "dag_graph d"
  shows "acyclic (parent_rel d)"
proof -
  have wf: "wf_hmap (dg_vertices d)" using assms by (simp add: dag_graph_def)
  obtain rank where r: "\<And>c v p. (c, v) \<in> set (dg_vertices d) \<Longrightarrow> p \<in> set (vx_parents v) \<Longrightarrow>
      rank p < (rank c :: nat)"
    using parents_first_rank [of "{}" "dg_vertices d"] assms wf
    by (auto simp: dag_graph_def wf_hmap_def)
  have "(parent_rel d)\<inverse> \<subseteq> measure rank"
    using r wf by (auto simp: child_of_def hget_iff)
  then have "wf ((parent_rel d)\<inverse>)" using wf_measure wf_subset by blast
  then show ?thesis using wf_acyclic acyclic_converse by blast
qed

lemma dag_graph_status:
  "dag_graph d \<Longrightarrow> \<not> hcontains (dg_vertices d) h \<Longrightarrow> dag_graph (d\<lparr>dg_status := hput h st (dg_status d)\<rparr>)"
  unfolding dag_graph_def child_of_def get_children_def get_tips_def get_vertices_at_height_def
    expected_height_def parent_heights_def
  by simp blast

lemma insert_vertex_stores:
  assumes U: "hash_binds U" "v \<in> U" and g: "dag_graph d" and q: "dag_queue U d"
    and fresh: "\<not> hcontains (dg_vertices d) (vx_hash v)" and par: "missing_parents v d = []"
    and ins: "insert_vertex n v d = Some (d', Inr ())"
  shows "hget (dg_vertices d') (vx_hash v) = Some v"
proof -
  obtain e where e: "store_vertex v d = Inr e" "process_orphans n (vx_hash v) e = Some (d', Inr ())"
    using ins by (auto simp: insert_vertex.simps split: sum.splits)
  have "settled {} d" by (simp add: settled_def)
  note sq = store_vertex_queue [OF U g q fresh par e(1) this]
  have "good_insertion U {} (e\<lparr>dg_orphan_deps := hdel (vx_hash v) (dg_orphan_deps e)\<rparr>) d'"
    using insertion_invariant(2) [OF U(1) _ _ _ e(2), of "{}"] sq by simp
  moreover have "hget (dg_vertices e) (vx_hash v) = Some v"
    using fresh by (simp add: store_vertex_fields(1) [OF e(1) fresh] map_add_def)
  ultimately show ?thesis by (simp add: good_insertion_def kept_def)
qed

text \<open>One call of \<open>add_vertex\<close>.\<close>

lemma add_vertex_step:
  assumes "hash_binds U" and "dag_inv U d"
    and admit: "verify_structure lib v = Inr () \<Longrightarrow> \<not> hcontains (dg_vertices d) (vx_hash v) \<Longrightarrow> v \<in> U"
  shows "\<exists>d' r. add_vertex lib now v d = Some (d', r) \<and> dag_inv U d' \<and> kept d d'
    \<and> (r = Inr () \<longrightarrow> hcontains (dg_vertices d') (vx_hash v) \<or> hcontains (dg_pending d') (vx_hash v))"
proof -
  have g: "dag_graph d" and q: "dag_queue U d" using assms(2) by (simp_all add: dag_inv_def)
  have same: "kept d d" by (simp add: kept_def)
  consider (present) "hcontains (dg_vertices d) (vx_hash v)"
    | (bad) e where "\<not> hcontains (dg_vertices d) (vx_hash v)" "add_vertex lib now v d = Some (d, Inl e)"
    | (wait) "\<not> hcontains (dg_vertices d) (vx_hash v)"
        "add_vertex lib now v d = Some ((add_deps (vx_hash v) (missing_parents v d) d)
           \<lparr>dg_pending := hput (vx_hash v) v (dg_pending d),
            dg_status := hput (vx_hash v) AwaitingParents (dg_status d)\<rparr>, Inr ())" "verify_structure lib v = Inr ()"
    | (ready) "\<not> hcontains (dg_vertices d) (vx_hash v)" "missing_parents v d = []"
        "add_vertex lib now v d = insert_vertex (length (dg_pending d)) v d" "verify_structure lib v = Inr ()"
    unfolding add_vertex_def Let_def
    by (cases "verify_structure lib v"; cases "verify_timestamp now v d";
        cases "missing_parents v d = []") (auto simp: add_deps_fields)
  then show ?thesis
  proof cases
    case present
    then show ?thesis using assms(2) same by (simp add: add_vertex_def)
  next
    case bad
    then show ?thesis using assms(2) same by simp
  next
    case wait
    let ?h = "vx_hash v" and ?m = "missing_parents v d"
    let ?e = "(add_deps ?h ?m d)\<lparr>dg_pending := hput ?h v (dg_pending (add_deps ?h ?m d))\<rparr>"
    have "settled {} d" by (simp add: settled_def)
    note pp = put_pending [OF g q this admit [OF wait(3,1)] refl wait(1) subset_refl]
    let ?d' = "?e\<lparr>dg_status := hput ?h AwaitingParents (dg_status ?e)\<rparr>"
    have "dag_graph ?d'" using pp(1) wait(1) by (intro dag_graph_status) (simp_all add: add_deps_fields)
    moreover have "dag_queue U ?d'" using pp(2) by (subst dag_queue_cong [of _ ?e]) simp_all
    moreover have "kept d ?d'" using pp(4) by (simp add: kept_def)
    moreover have "add_vertex lib now v d = Some (?d', Inr ())"
      using wait(2) by (simp add: add_deps_fields)
    ultimately show ?thesis by (auto simp: dag_inv_def)
  next
    case ready
    obtain d' r where i: "insert_vertex (length (dg_pending d)) v d = Some (d', r)"
      using insertion_total(1) [of d "length (dg_pending d)" v] by auto
    have "good_insertion U {} d d'"
      using insertion_invariant(1) [OF assms(1) g q _ admit [OF ready(4,1)] ready(1,2) _ i, of "{}"]
      by (simp add: settled_def)
    moreover have "hcontains (dg_vertices d') (vx_hash v)" if "r = Inr ()"
      using insert_vertex_stores [OF assms(1) admit [OF ready(4,1)] g q ready(1,2)] i that by simp
    ultimately show ?thesis using ready(3) i by (auto simp: good_insertion_def dag_inv_def)
  qed
qed

text \<open>A DAG after a sequence of submissions, each with the time at which it arrives.\<close>

fun submit_all :: "crypto_lib \<Rightarrow> (Timestamp \<times> Vertex) list \<Rightarrow> Dag \<Rightarrow> Dag option" where
  "submit_all lib [] d = Some d"
| "submit_all lib ((now, v) # subs) d =
     (case add_vertex lib now v d of None \<Rightarrow> None | Some (d', r) \<Rightarrow> submit_all lib subs d')"

text \<open>
  The vertices that can enter a DAG with the genesis vertex \<open>g\<close>: those that pass the structure check, which
  recomputes the identifier from the contents. The identifier of genesis is taken. If the digest does
  not collide on the contents of such vertices, their identifiers determine their parents.
\<close>

definition vertex_bytes :: "crypto_lib \<Rightarrow> Vertex \<Rightarrow> u8 list" where
  "vertex_bytes lib v =
     vertex_preimage (vx_parents v) (map (tx_hash lib) (vx_transactions v)) (vx_timestamp v) (vx_validator v)"

definition checked :: "crypto_lib \<Rightarrow> Vertex set \<Rightarrow> Vertex set" where
  "checked lib V = {v \<in> V. verify_structure lib v = Inr ()}"

definition dag_reach :: "crypto_lib \<Rightarrow> Vertex \<Rightarrow> Vertex set \<Rightarrow> Dag \<Rightarrow> bool" where
  "dag_reach lib g V d \<longleftrightarrow> dag_inv (insert g {v \<in> checked lib V. vx_hash v \<noteq> vx_hash g}) d
     \<and> hget (dg_vertices d) (vx_hash g) = Some g"

lemma checked_facts:
  assumes "v \<in> checked lib V"
  shows "vx_hash v = blake3 lib (vertex_bytes lib v)" "length (vx_parents v) < 2 ^ 32" "length (vx_transactions v) < 2 ^ 32" "v \<in> V"
  using assms
  by (auto simp: checked_def verify_structure_def vertex_bytes_def vertex_hash_def MAX_PARENTS_def
      MAX_TRANSACTIONS_PER_VERTEX_def Let_def split: if_splits)

lemma digest_binds:
  assumes "inj_on (blake3 lib) (vertex_bytes lib ` checked lib V)"
  shows "hash_binds (insert g {v \<in> checked lib V. vx_hash v \<noteq> vx_hash g})" (is "hash_binds ?U")
proof -
  have "vx_parents u = vx_parents v" if uv: "u \<in> checked lib V" "v \<in> checked lib V" "vx_hash u = vx_hash v" for u v
  proof -
    have "blake3 lib (vertex_bytes lib u) = blake3 lib (vertex_bytes lib v)"
      using uv(3) checked_facts(1) [OF uv(1)] checked_facts(1) [OF uv(2)] by simp
    then have "vertex_bytes lib u = vertex_bytes lib v" by (rule inj_onD [OF assms]) (use uv in simp_all)
    then show ?thesis
      using vertex_preimage_injective [of "vx_parents u" "vx_parents v" "map (tx_hash lib) (vx_transactions u)"
          "map (tx_hash lib) (vx_transactions v)" "vx_timestamp u" "vx_validator u" "vx_timestamp v" "vx_validator v"]
        checked_facts(2,3) [OF uv(1)] checked_facts(2,3) [OF uv(2)]
      by (simp add: vertex_bytes_def)
  qed
  moreover have "u = g \<and> v = g \<or> u \<in> checked lib V \<and> v \<in> checked lib V"
    if "u \<in> ?U" "v \<in> ?U" "vx_hash u = vx_hash v" for u v
    using that by auto
  ultimately show ?thesis unfolding hash_binds_def by blast
qed

lemma add_vertex_reach:
  assumes "inj_on (blake3 lib) (vertex_bytes lib ` checked lib V)" and "v \<in> V" and "dag_reach lib g V d"
  shows "\<exists>d' r. add_vertex lib now v d = Some (d', r) \<and> dag_reach lib g V d' \<and> kept d d'"
proof -
  let ?U = "insert g {v \<in> checked lib V. vx_hash v \<noteq> vx_hash g}"
  have inv: "dag_inv ?U d" and g: "hget (dg_vertices d) (vx_hash g) = Some g" using assms(3) by (simp_all add: dag_reach_def)
  have "v \<in> ?U" if "verify_structure lib v = Inr ()" "\<not> hcontains (dg_vertices d) (vx_hash v)"
    using that assms(2) g by (auto simp: checked_def)
  from add_vertex_step [OF digest_binds [OF assms(1)] inv this, where now = now] obtain d' r where
    "add_vertex lib now v d = Some (d', r)" "dag_inv ?U d'" "kept d d'" by blast
  with g show ?thesis by (auto simp: dag_reach_def kept_def)
qed

lemma reach_stored:
  assumes "dag_reach lib g V d" and "get_vertex d h = Some v" and "h \<noteq> vx_hash g"
  shows "v \<in> checked lib V"
proof -
  have v: "hget (dg_vertices d) h = Some v" using assms(2) by (simp add: get_vertex_def)
  have g: "dag_graph d" and q: "dag_queue (insert g {v \<in> checked lib V. vx_hash v \<noteq> vx_hash g}) d"
    using assms(1) by (simp_all add: dag_reach_def dag_inv_def)
  have "vx_hash v = h" using g v unfolding dag_graph_def by blast
  with queue_stored [OF q v] assms(3) show ?thesis by auto
qed

lemma reach_graph: "dag_reach lib g V d \<Longrightarrow> dag_graph d"
  by (simp add: dag_reach_def dag_inv_def)

lemma reach_contents:
  assumes "dag_reach lib g V d" and "get_vertex d h = Some v" and "h \<noteq> vx_hash g"
  shows "v \<in> V \<and> verify_structure lib v = Inr ()
    \<and> h = vertex_hash lib (vx_parents v) (map (tx_hash lib) (vx_transactions v)) (vx_timestamp v) (vx_validator v)"
proof -
  have "v \<in> checked lib V" by (rule reach_stored [OF assms])
  moreover have "vx_hash v = h" using reach_graph [OF assms(1)] assms(2) by (simp add: dag_graph_def get_vertex_def)
  ultimately show ?thesis using checked_facts(1) by (auto simp: checked_def vertex_bytes_def vertex_hash_def)
qed

lemma submit_all_append:
  "submit_all lib (xs @ ys) d = (case submit_all lib xs d of None \<Rightarrow> None | Some e \<Rightarrow> submit_all lib ys e)"
  by (induction lib xs d rule: submit_all.induct) (auto split: option.split)

lemma submit_all_reach:
  assumes "inj_on (blake3 lib) (vertex_bytes lib ` checked lib V)" and "snd ` set subs \<subseteq> V" and "dag_reach lib g V d"
  shows "\<exists>d'. submit_all lib subs d = Some d' \<and> dag_reach lib g V d' \<and> kept d d'"
  using assms(2,3)
proof (induction subs arbitrary: d)
  case Nil
  then show ?case by (simp add: kept_def)
next
  case (Cons e subs)
  obtain now v where e: "e = (now, v)" by fastforce
  obtain d1 r where d1: "add_vertex lib now v d = Some (d1, r)" "dag_reach lib g V d1" "kept d d1"
    using add_vertex_reach [OF assms(1) _ Cons.prems(2), of v now] Cons.prems(1) e by auto
  from Cons.IH [OF _ d1(2)] Cons.prems(1) e obtain d2
    where "submit_all lib subs d1 = Some d2" "dag_reach lib g V d2" "kept d1 d2" by auto
  with d1 e show ?case using kept_trans by auto
qed

lemma init_genesis_inv:
  assumes "is_genesis g" "g \<in> U"
  shows "dag_inv U (fst (init_genesis g (Dag_new cfg)))"
  using assms
  by (auto simp: dag_inv_def dag_graph_def dag_queue_def init_genesis_def Dag_new_def Let_def
      is_genesis_def child_of_def get_children_def get_tips_def get_vertices_at_height_def
      expected_height_def parent_heights_def hput_def wf_hmap_def hset_add_def hset_get_def
      List.map_filter_simps split: if_splits)

lemma init_genesis_reach:
  assumes "is_genesis g"
  shows "dag_reach lib g V (fst (init_genesis g (Dag_new cfg)))"
  using init_genesis_inv [OF assms, of "insert g {v \<in> checked lib V. vx_hash v \<noteq> vx_hash g}" cfg]
  by (simp add: dag_reach_def init_genesis_def Dag_new_def Let_def)

text \<open>The sets of the height index hold each identifier once.\<close>

definition levels_distinct :: "Dag \<Rightarrow> bool" where
  "levels_distinct d \<longleftrightarrow> (\<forall>k. distinct (get_vertices_at_height d k))"

lemma link_parents_levels: "dg_by_height (fold (link_parent h) ps d) = dg_by_height d"
  by (induction ps arbitrary: d) (simp_all add: link_parent_def)

lemma store_vertex_levels: "store_vertex v d = Inr d' \<Longrightarrow> levels_distinct d \<Longrightarrow> levels_distinct d'"
  by (auto simp: store_vertex_def levels_distinct_def get_vertices_at_height_def link_parents_levels Let_def split: if_splits)

lemma insertion_levels:
  shows "insert_vertex n v d = Some (d', r) \<Longrightarrow> levels_distinct d \<Longrightarrow> levels_distinct d'"
    and "process_orphans n p d = Some (d', r) \<Longrightarrow> levels_distinct d \<Longrightarrow> levels_distinct d'"
    and "orphan_loop n hs d = Some (d', r) \<Longrightarrow> levels_distinct d \<Longrightarrow> levels_distinct d'"
proof (induction n v d and n p d and n hs d arbitrary: d' r and d' r and d' r
    rule: insert_vertex_process_orphans_orphan_loop.induct)
  case (1 n v d)
  then show ?case by (auto simp: insert_vertex.simps dest: store_vertex_levels split: sum.splits)
next
  case (2 n p d)
  then show ?case by (simp add: process_orphans.simps Let_def levels_distinct_def get_vertices_at_height_def)
next
  case (4 n h hs d)
  have lv: "levels_distinct (d\<lparr>dg_pending := P\<rparr>)" "levels_distinct ((add_deps h ps (d\<lparr>dg_pending := P\<rparr>))\<lparr>dg_pending := Q\<rparr>)" for P Q ps
    using "4.prems"(2) by (simp_all add: levels_distinct_def get_vertices_at_height_def add_deps_fields)
  show ?case
  proof (cases "hget (dg_pending d) h")
    case None
    with "4.IH"(1) "4.prems" show ?thesis by simp
  next
    case (Some v)
    show ?thesis
    proof (cases "missing_parents v (d\<lparr>dg_pending := hdel h (dg_pending d)\<rparr>) = []")
      case True
      then obtain m d2 r2 where m: "n = Suc m" "insert_vertex m v (d\<lparr>dg_pending := hdel h (dg_pending d)\<rparr>) = Some (d2, r2)"
        using "4.prems"(1) Some by (auto simp: Let_def split: nat.splits option.splits)
      have d2: "levels_distinct d2" using "4.IH"(2) [OF Some refl refl True m(1) m(2) lv(1)] .
      show ?thesis
      proof (cases r2)
        case (Inl e)
        then show ?thesis using "4.prems"(1) Some True m d2 by (simp add: Let_def)
      next
        case (Inr u)
        then have "orphan_loop n hs d2 = Some (d', r)" using "4.prems"(1) Some True m by (simp add: Let_def)
        from "4.IH"(3) [OF Some refl refl True m(1) m(2) refl Inr this d2] show ?thesis .
      qed
    next
      case False
      from "4.prems"(1) Some False show ?thesis
        by (intro "4.IH"(4) [OF Some refl refl False refl _ lv(2)]) (simp add: Let_def)
    qed
  qed
qed simp

lemma add_vertex_levels: "add_vertex lib now v d = Some (d', r) \<Longrightarrow> levels_distinct d \<Longrightarrow> levels_distinct d'"
  by (auto simp: add_vertex_def Let_def levels_distinct_def [of "_\<lparr>dg_pending := _, dg_status := _\<rparr>"] add_deps_fields
      get_vertices_at_height_def dest: insertion_levels(1) split: if_splits sum.splits)
    (simp add: levels_distinct_def get_vertices_at_height_def)

lemma submit_all_levels: "submit_all lib subs d = Some d' \<Longrightarrow> levels_distinct d \<Longrightarrow> levels_distinct d'"
  by (induction lib subs d rule: submit_all.induct) (auto split: option.splits dest: add_vertex_levels)

lemma init_genesis_levels: "levels_distinct (fst (init_genesis g (Dag_new cfg)))"
  by (simp add: levels_distinct_def get_vertices_at_height_def init_genesis_def Dag_new_def Let_def hset_get_def [of "[]"])

section \<open>Properties\<close>

text \<open>
  (C1) Starting from a genesis vertex, any sequence of submissions, forged and malformed ones included and
  in any order, is processed to the end and leaves a well-formed DAG: every vertex follows its
  parents in the order of insertion, heights are one more than the highest parent, the children
  index is the inverse of the parent lists, the tips are exactly the vertices without children and the
  height index is exact. In particular the parent relation is acyclic. Every stored vertex except genesis
  was submitted, passes the structure check and is stored under the digest of its own contents. Nothing is lost:
  what was stored after any first part of the submissions is stored unchanged at the end.
  The hypothesis is that the digest does not collide on the contents of the submitted vertices that pass the check.
\<close>

theorem dag_submissions_wellformed:
  assumes "is_genesis g" and "inj_on (blake3 lib) (vertex_bytes lib ` checked lib (snd ` set subs))"
    and "d = fst (init_genesis g (Dag_new cfg))"
  shows "\<exists>d'. submit_all lib subs d = Some d' \<and> dag_graph d' \<and> acyclic (parent_rel d')
    \<and> (\<forall>h v. get_vertex d' h = Some v \<and> h \<noteq> vx_hash g \<longrightarrow> v \<in> snd ` set subs \<and> verify_structure lib v = Inr ()
         \<and> h = vertex_hash lib (vx_parents v) (map (tx_hash lib) (vx_transactions v)) (vx_timestamp v) (vx_validator v))
    \<and> (\<forall>xs ys. subs = xs @ ys \<longrightarrow> (\<exists>e. submit_all lib xs d = Some e \<and> kept e d'))"
proof -
  let ?V = "snd ` set subs"
  have g: "dag_reach lib g ?V d" using init_genesis_reach [OF assms(1)] assms(3) by simp
  then obtain d' where d': "submit_all lib subs d = Some d'" "dag_reach lib g ?V d'"
    using submit_all_reach [OF assms(2) subset_refl] by blast
  have "\<exists>e. submit_all lib xs d = Some e \<and> kept e d'" if "subs = xs @ ys" for xs ys
  proof -
    have parts: "snd ` set xs \<subseteq> ?V" "snd ` set ys \<subseteq> ?V" using that by auto
    obtain e where e: "submit_all lib xs d = Some e" "dag_reach lib g ?V e"
      using submit_all_reach [OF assms(2) parts(1) g] by blast
    obtain d2 where "submit_all lib ys e = Some d2" "kept e d2"
      using submit_all_reach [OF assms(2) parts(2) e(2)] by blast
    with e d'(1) that show ?thesis by (simp add: submit_all_append)
  qed
  then show ?thesis using d' reach_graph [OF d'(2)] dag_acyclic reach_contents [OF d'(2)] by blast
qed

text \<open>Two vertices, the child submitted before its parent.\<close>

definition demo_vertex :: "Hash list \<Rightarrow> u64 \<Rightarrow> Hash \<Rightarrow> Vertex" where
  "demo_vertex parents height h = (Vertex_genesis 1 0)
     \<lparr>vx_hash := h, vx_parents := parents, vx_height := height, vx_validator := h\<rparr>"

definition demo_dag :: Dag where
  "demo_dag = fst (init_genesis (Vertex_genesis 1 0) (Dag_new DagConfig_default))"

lemma demo_dag_eq:
  "demo_dag = (Dag_new DagConfig_default)
     \<lparr>dg_vertices := [(0, Vertex_genesis 1 0)], dg_status := [(0, StatusFinalized)],
      dg_by_height := [(0, [0])], dg_tips := [0], dg_genesis_hash := Some 0\<rparr>"
  by (simp add: demo_dag_def init_genesis_def Dag_new_def Vertex_genesis_def hput_def hset_add_def
      hset_get_def)

lemma demo_digest: "inj_on (blake3 demo_lib) (vertex_bytes demo_lib ` checked demo_lib {demo_vertex [7] 2 9, demo_vertex [0] 1 7})"
  by (rule inj_onI) (auto simp: vertex_bytes_def checked_def demo_vertex_def demo_vertex_hash [unfolded vertex_hash_def])

lemma demo_vertices_bind:
  "hash_binds {Vertex_genesis 1 0, demo_vertex [7] 2 9, demo_vertex [0] 1 7}"
  by (auto simp: hash_binds_def demo_vertex_def Vertex_genesis_def)

lemma demo_genesis: "is_genesis (Vertex_genesis 1 0)"
  by (simp add: is_genesis_def Vertex_genesis_def)

lemma demo_dag_reach: "dag_reach lib (Vertex_genesis 1 0) V demo_dag"
  unfolding demo_dag_def by (rule init_genesis_reach [OF demo_genesis])

lemma demo_submissions:
  "submit_all demo_lib [(1000, demo_vertex [7] 2 9), (1000, demo_vertex [0] 1 7)] demo_dag
    = Some (demo_dag\<lparr>dg_vertices := [(0, Vertex_genesis 1 0), (7, demo_vertex [0] 1 7), (9, demo_vertex [7] 2 9)],
        dg_status := [(0, StatusFinalized), (9, Confirmed), (7, Confirmed)],
        dg_children := [(0, [7]), (7, [9])], dg_tips := [9],
        dg_by_height := [(0, [0]), (1, [7]), (2, [9])]\<rparr>)"
  by (simp add: demo_dag_eq Dag_new_def demo_vertex_def Vertex_genesis_def add_vertex_def
      verify_structure_def is_genesis_def MAX_PARENTS_def MAX_TRANSACTIONS_PER_VERTEX_def
      compute_merkle_root_def demo_vertex_hash verify_timestamp_def DagConfig_default_def
      missing_parents_def add_deps_def hset_add_def hset_get_def hput_def insert_vertex.simps
      process_orphans.simps store_vertex_def expected_height_def parent_heights_def
      List.map_filter_simps link_parent_def hdel_def)

text \<open>A forged vertex claims an identifier that is not the digest of its contents.\<close>

definition forged_vertex :: Vertex where
  "forged_vertex = (demo_vertex [5] 3 7)\<lparr>vx_validator := 8\<rparr>"

lemma forged_refused:
  "verify_structure demo_lib forged_vertex = Inl InvalidHash" "\<exists>e. add_vertex demo_lib 1000 forged_vertex demo_dag = Some (demo_dag, Inl e)"
proof -
  show bad: "verify_structure demo_lib forged_vertex = Inl InvalidHash"
    by (simp add: forged_vertex_def demo_vertex_def Vertex_genesis_def verify_structure_def is_genesis_def MAX_PARENTS_def
        MAX_TRANSACTIONS_PER_VERTEX_def compute_merkle_root_def demo_vertex_hash)
  have fresh: "hget (dg_vertices demo_dag) (vx_hash forged_vertex) = None"
    by (simp add: demo_dag_eq forged_vertex_def demo_vertex_def)
  show "\<exists>e. add_vertex demo_lib 1000 forged_vertex demo_dag = Some (demo_dag, Inl e)"
    using bad fresh by (simp add: add_vertex_def)
qed

lemma forged_digest:
  "inj_on (blake3 demo_lib) (vertex_bytes demo_lib ` checked demo_lib {forged_vertex, demo_vertex [7] 2 9, demo_vertex [0] 1 7})"
proof -
  have "checked demo_lib {forged_vertex, demo_vertex [7] 2 9, demo_vertex [0] 1 7} = checked demo_lib {demo_vertex [7] 2 9, demo_vertex [0] 1 7}"
    using forged_refused(1) by (auto simp: checked_def)
  then show ?thesis using demo_digest by simp
qed

theorem dag_submissions_wellformed_witness:
  "\<exists>d'. submit_all demo_lib [(1000, forged_vertex), (1000, demo_vertex [7] 2 9), (1000, demo_vertex [0] 1 7)] demo_dag = Some d'
      \<and> get_tips d' = [9] \<and> acyclic (parent_rel d')"
proof -
  let ?subs = "[(1000, forged_vertex), (1000, demo_vertex [7] 2 9), (1000, demo_vertex [0] 1 7)]"
  have "inj_on (blake3 demo_lib) (vertex_bytes demo_lib ` checked demo_lib (snd ` set ?subs))" using forged_digest by simp
  from dag_submissions_wellformed [OF demo_genesis this, of demo_dag DagConfig_default]
  show ?thesis using demo_submissions forged_refused(2) by (auto simp: demo_dag_def [symmetric] get_tips_def)
qed

text \<open>
  (C27) A call of \<open>add_vertex\<close> on a well-formed DAG always returns; when it returns \<open>Ok\<close> the vertex is
  stored or waits for a parent, and a vertex that is already stored changes nothing. The vertex must not
  claim the identifier of a waiting vertex with other parents.
\<close>

theorem add_vertex_accepts:
  assumes "hash_binds U" and "v \<in> U" and "dag_inv U d"
  shows "\<exists>d' r. add_vertex lib now v d = Some (d', r)
    \<and> (r = Inr () \<longrightarrow> hcontains (dg_vertices d') (vx_hash v) \<or> hcontains (dg_pending d') (vx_hash v))
    \<and> (hcontains (dg_vertices d) (vx_hash v) \<longrightarrow> d' = d \<and> r = Inr ())"
proof -
  have "hcontains (dg_vertices d) (vx_hash v) \<Longrightarrow> add_vertex lib now v d = Some (d, Inr ())"
    by (simp add: add_vertex_def)
  with add_vertex_step [OF assms(1,3), of lib v now] assms(2) show ?thesis by fastforce
qed

theorem add_vertex_accepts_witness:
  "\<exists>d' r. add_vertex demo_lib 1000 (demo_vertex [7] 2 9) demo_dag = Some (d', r)
    \<and> (r = Inr () \<longrightarrow> hcontains (dg_vertices d') 9 \<or> hcontains (dg_pending d') 9)"
proof -
  have "vx_hash (demo_vertex [7] 2 9) = 9" by (simp add: demo_vertex_def)
  moreover have "dag_inv {Vertex_genesis 1 0, demo_vertex [7] 2 9, demo_vertex [0] 1 7} demo_dag"
    unfolding demo_dag_def using demo_genesis by (rule init_genesis_inv) simp
  ultimately show ?thesis
    using add_vertex_accepts [OF demo_vertices_bind, of "demo_vertex [7] 2 9" demo_dag demo_lib 1000]
    by auto
qed

text \<open>
  (C12) The ancestor search decides reachability: it answers whether the second vertex leads to the
  first through parent links, for every DAG, stored or missing vertices and cycles included.
\<close>

theorem is_ancestor_correct: "is_ancestor d a b \<longleftrightarrow> (b, a) \<in> (parent_rel d)\<^sup>*"
  by (rule is_ancestor_iff)

text \<open>
  (C13) The weight of a vertex in a well-formed DAG is the number of stored vertices that have it
  among their ancestors, itself included, each counted once.
\<close>

theorem calculate_weight_descendants:
  assumes "dag_graph d"
  shows "calculate_weight d h
    = of_nat (card {x. hcontains (dg_vertices d) x \<and> (x, h) \<in> (parent_rel d)\<^sup>*})"
proof -
  have "calculate_weight d h = of_nat (card (unseen d {} {h}))"
    using weight_loop_counts [of d "[]" "[h]" 0] by (simp add: calculate_weight_def)
  also have "unseen d {} {h} = {x. hcontains (dg_vertices d) x \<and> (x, h) \<in> (parent_rel d)\<^sup>*}"
    unfolding unseen_def down_rel_graph [OF assms] rtrancl_converse by auto
  finally show ?thesis .
qed

theorem calculate_weight_descendants_witness: "calculate_weight demo_dag 0 = 1"
proof -
  have "dag_graph demo_dag"
    unfolding demo_dag_def using init_genesis_inv [OF demo_genesis UNIV_I] by (simp add: dag_inv_def)
  moreover have "{x. hcontains (dg_vertices demo_dag) x \<and> (x, 0) \<in> (parent_rel demo_dag)\<^sup>*} = {0}"
    by (auto simp: demo_dag_eq Dag_new_def split: if_splits)
  ultimately show ?thesis using calculate_weight_descendants [of demo_dag 0] by simp
qed

end
