(* ===== verification/Finality.thy ===== *)
theory Finality
  imports Dag
begin

text \<open>
  The finality gadget, \<^verbatim>\<open>src/crates/nexus-dag/src/finality.rs\<close>: the weighted validator set, votes
  and their signing message, finality proofs and their verification, vote collection with
  grouping by target, the choice of a candidate from the DAG, epoch change and the application of
  received proofs. Weights are 128-bit words.
\<close>

section \<open>Validator set\<close>

record FinalityConfig =
  fc_min_validators :: nat
  fc_vote_timeout_ms :: u64
  fc_max_stall_rounds :: u32
  fc_finality_check_interval :: Height

definition FinalityConfig_default :: FinalityConfig where
  "FinalityConfig_default =
     \<lparr>fc_min_validators = 3, fc_vote_timeout_ms = 5000, fc_max_stall_rounds = 10,
      fc_finality_check_interval = 10\<rparr>"

record ValidatorInfo =
  vi_id :: ValidatorId
  vi_public_key :: PublicKey
  vi_stake :: Weight
  vi_address :: Address

record FinalityValidators =
  fv_validators :: "(ValidatorId, ValidatorInfo) hmap"
  fv_total_weight :: Weight
  fv_epoch :: u64

definition FinalityValidators_new :: "ValidatorInfo list \<Rightarrow> u64 \<Rightarrow> FinalityValidators" where
  "FinalityValidators_new validators e =
     \<lparr>fv_validators = fold (\<lambda>v m. hput (vi_id v) v m) validators [],
      fv_total_weight = sum_list (map vi_stake validators), fv_epoch = e\<rparr>"

definition weight_supermajority :: "FinalityValidators \<Rightarrow> Weight \<Rightarrow> bool" where
  "weight_supermajority vs w \<longleftrightarrow>
     (if fv_total_weight vs = 0 then False else w * 3 > fv_total_weight vs * 2)"

definition get_validator :: "FinalityValidators \<Rightarrow> ValidatorId \<Rightarrow> ValidatorInfo option" where
  "get_validator vs i = hget (fv_validators vs) i"

section \<open>Votes and proofs\<close>

record FinalityVote =
  vt_round :: u64
  vt_target_hash :: Hash
  vt_target_height :: Height
  vt_voter :: ValidatorId
  vt_signature :: EcdsaSignature

definition signing_message :: "u64 \<Rightarrow> Hash \<Rightarrow> Height \<Rightarrow> u8 list" where
  "signing_message round target height =
     u64_to_be_bytes round @ as_bytes target @ u64_to_be_bytes height"

definition FinalityVote_new ::
    "crypto_lib \<Rightarrow> u64 \<Rightarrow> Hash \<Rightarrow> Height \<Rightarrow> ValidatorId \<Rightarrow> signer \<Rightarrow> NexusError + FinalityVote" where
  "FinalityVote_new lib round target height voter sk =
     (case secret_sign sk (blake3_hash lib (signing_message round target height)) of
        Inl e \<Rightarrow> Inl e
      | Inr g \<Rightarrow> Inr \<lparr>vt_round = round, vt_target_hash = target, vt_target_height = height,
                      vt_voter = voter, vt_signature = g\<rparr>)"

definition vote_verify :: "crypto_lib \<Rightarrow> FinalityVote \<Rightarrow> PublicKey \<Rightarrow> NexusError + bool" where
  "vote_verify lib v pk =
     verify_signature lib
       (blake3_hash lib (signing_message (vt_round v) (vt_target_hash v) (vt_target_height v)))
       (vt_signature v) pk"

record FinalityProof =
  fp_round :: u64
  fp_target_hash :: Hash
  fp_target_height :: Height
  fp_votes :: "FinalityVote list"
  fp_total_weight :: Weight
  fp_epoch :: u64

fun proof_loop ::
    "crypto_lib \<Rightarrow> FinalityValidators \<Rightarrow> FinalityProof \<Rightarrow> FinalityVote list \<Rightarrow> ValidatorId list \<Rightarrow> Weight
       \<Rightarrow> NexusError + Weight" where
  "proof_loop lib vs p [] seen w = Inr w"
| "proof_loop lib vs p (v # votes) seen w =
     (if vt_voter v \<in> set seen then Inl (Consensus ''Duplicate voter'')
      else if vt_target_hash v \<noteq> fp_target_hash p \<or> vt_target_height v \<noteq> fp_target_height p
      then Inl (Consensus ''Vote target mismatch'')
      else case get_validator vs (vt_voter v) of
             None \<Rightarrow> Inl (Consensus ''Unknown validator'')
           | Some info \<Rightarrow>
             (case vote_verify lib v (vi_public_key info) of
                Inl e \<Rightarrow> Inl e
              | Inr False \<Rightarrow> Inl (Consensus ''Invalid vote signature'')
              | Inr True \<Rightarrow> proof_loop lib vs p votes (vt_voter v # seen) (w + vi_stake info)))"

definition proof_verify :: "crypto_lib \<Rightarrow> FinalityProof \<Rightarrow> FinalityValidators \<Rightarrow> NexusError + bool" where
  "proof_verify lib p vs =
     (if fv_epoch vs \<noteq> fp_epoch p then Inl (Consensus ''Epoch mismatch'')
      else case proof_loop lib vs p (fp_votes p) [] 0 of
             Inl e \<Rightarrow> Inl e
           | Inr w \<Rightarrow> if \<not> weight_supermajority vs w then Inl (Consensus ''Insufficient vote weight'')
                      else Inr True)"

section \<open>The gadget\<close>

record FinalityState =
  fs_round :: u64
  fs_finalized_height :: Height
  fs_finalized_hash :: Hash
  fs_votes :: "(ValidatorId, FinalityVote) hmap"
  fs_best_candidate :: "(Hash \<times> Height) option"

record FinalityGadget =
  fg_config :: FinalityConfig
  fg_state :: FinalityState
  fg_validator_set :: FinalityValidators
  fg_proofs :: "FinalityProof list"

definition FinalityGadget_new :: "FinalityConfig \<Rightarrow> ValidatorInfo list \<Rightarrow> FinalityGadget" where
  "FinalityGadget_new cfg initial_validators =
     \<lparr>fg_config = cfg,
      fg_state = \<lparr>fs_round = 0, fs_finalized_height = 0, fs_finalized_hash = 0, fs_votes = [],
                  fs_best_candidate = None\<rparr>,
      fg_validator_set = FinalityValidators_new initial_validators 0, fg_proofs = []\<rparr>"

type_synonym tally = "(Hash \<times> Height, Weight \<times> FinalityVote list) hmap"

definition tally_vote :: "FinalityValidators \<Rightarrow> FinalityVote \<Rightarrow> tally \<Rightarrow> tally" where
  "tally_vote vs v m =
     (case get_validator vs (vt_voter v) of None \<Rightarrow> m
      | Some info \<Rightarrow>
        let key = (vt_target_hash v, vt_target_height v);
            (w, votes) = (case hget m key of None \<Rightarrow> (0, []) | Some e \<Rightarrow> e)
        in hput key (w + vi_stake info, votes @ [v]) m)"

definition target_weights :: "FinalityValidators \<Rightarrow> FinalityState \<Rightarrow> tally" where
  "target_weights vs s = fold (tally_vote vs) (hvalues (fs_votes s)) []"

definition try_finalize :: "FinalityGadget \<Rightarrow> FinalityGadget \<times> FinalityProof option" where
  "try_finalize g =
     (let s = fg_state g; vs = fg_validator_set g
      in case find (\<lambda>((h, k), (w, votes)). weight_supermajority vs w \<and> k > fs_finalized_height s)
                (target_weights vs s) of
           None \<Rightarrow> (g, None)
         | Some ((h, k), (w, votes)) \<Rightarrow>
           let p = \<lparr>fp_round = fs_round s, fp_target_hash = h, fp_target_height = k, fp_votes = votes,
                    fp_total_weight = w, fp_epoch = fv_epoch vs\<rparr>
           in (g\<lparr>fg_state := s\<lparr>fs_finalized_height := k, fs_finalized_hash := h,
                               fs_round := fs_round s + 1, fs_votes := []\<rparr>,
                 fg_proofs := fg_proofs g @ [p]\<rparr>, Some p))"

definition add_vote ::
    "crypto_lib \<Rightarrow> FinalityVote \<Rightarrow> FinalityGadget \<Rightarrow> FinalityGadget \<times> (NexusError + FinalityProof option)" where
  "add_vote lib vote g =
     (let s = fg_state g; vs = fg_validator_set g
      in if vt_round vote < fs_round s then (g, Inl (Consensus ''Vote for past round''))
         else case get_validator vs (vt_voter vote) of
                None \<Rightarrow> (g, Inl (Consensus ''Unknown validator''))
              | Some info \<Rightarrow>
                (case vote_verify lib vote (vi_public_key info) of
                   Inl e \<Rightarrow> (g, Inl e)
                 | Inr False \<Rightarrow> (g, Inl (Consensus ''Invalid vote signature''))
                 | Inr True \<Rightarrow>
                   let g = g\<lparr>fg_state := s\<lparr>fs_votes := hput (vt_voter vote) vote (fs_votes s)\<rparr>\<rparr>
                   in case try_finalize g of (g, p) \<Rightarrow> (g, Inr p)))"

definition finalized_state :: "FinalityGadget \<Rightarrow> Height \<times> Hash" where
  "finalized_state g = (fs_finalized_height (fg_state g), fs_finalized_hash (fg_state g))"

definition common_ancestor :: "Dag \<Rightarrow> Hash list \<Rightarrow> Hash \<Rightarrow> bool" where
  "common_ancestor d tips h = list_all (\<lambda>tip. is_ancestor d h tip \<or> tip = h) tips"

fun candidate_loop :: "Dag \<Rightarrow> Hash list \<Rightarrow> Height list \<Rightarrow> (Hash \<times> Height) option" where
  "candidate_loop d tips [] = None"
| "candidate_loop d tips (k # ks) =
     (case find (common_ancestor d tips) (get_vertices_at_height d k) of
        Some h \<Rightarrow> Some (h, k) | None \<Rightarrow> candidate_loop d tips ks)"

definition find_best_candidate :: "Dag \<Rightarrow> FinalityGadget \<Rightarrow> (Hash \<times> Height) option" where
  "find_best_candidate d g =
     (let current_height = latest_height d; tips = get_tips d
      in if tips = [] then None
         else candidate_loop d tips
           (map of_nat (rev [unat (fs_finalized_height (fg_state g) + 1)..<Suc (unat current_height)])))"

definition create_vote ::
    "crypto_lib \<Rightarrow> Dag \<Rightarrow> ValidatorId \<Rightarrow> signer \<Rightarrow> FinalityGadget \<Rightarrow> NexusError + FinalityVote option" where
  "create_vote lib d voter_id sk g =
     (case find_best_candidate d g of None \<Rightarrow> Inr None
      | Some (h, k) \<Rightarrow>
        (case FinalityVote_new lib (fs_round (fg_state g)) h k voter_id sk of
           Inl e \<Rightarrow> Inl e | Inr v \<Rightarrow> Inr (Some v)))"

definition update_validator_set :: "ValidatorInfo list \<Rightarrow> u64 \<Rightarrow> FinalityGadget \<Rightarrow> FinalityGadget" where
  "update_validator_set validators e g =
     g\<lparr>fg_validator_set := FinalityValidators_new validators e,
       fg_state := (fg_state g)\<lparr>fs_votes := []\<rparr>\<rparr>"

definition get_proofs :: "Height \<Rightarrow> Height \<Rightarrow> FinalityGadget \<Rightarrow> FinalityProof list" where
  "get_proofs from_height to_height g =
     filter (\<lambda>p. fp_target_height p \<ge> from_height \<and> fp_target_height p \<le> to_height) (fg_proofs g)"

definition apply_proof ::
    "crypto_lib \<Rightarrow> FinalityProof \<Rightarrow> Dag \<Rightarrow> FinalityGadget \<Rightarrow> FinalityGadget \<times> Dag \<times> (NexusError + unit)" where
  "apply_proof lib p d g =
     (case proof_verify lib p (fg_validator_set g) of
        Inl e \<Rightarrow> (g, d, Inl e)
      | Inr _ \<Rightarrow>
        if get_vertex d (fp_target_hash p) = None
        then (g, d, Inl (Consensus ''Proof target not found in DAG''))
        else let s = fg_state g
             in if fp_target_height p > fs_finalized_height s
                then (g\<lparr>fg_state := s\<lparr>fs_finalized_height := fp_target_height p,
                                      fs_finalized_hash := fp_target_hash p\<rparr>,
                        fg_proofs := fg_proofs g @ [p]\<rparr>,
                      set_finalized_height (fp_target_height p) d, Inr ())
                else (g, d, Inr ()))"

section \<open>Verified votes\<close>

definition vote_ok :: "crypto_lib \<Rightarrow> FinalityValidators \<Rightarrow> FinalityVote \<Rightarrow> bool" where
  "vote_ok lib vs v \<longleftrightarrow>
     (\<exists>info. get_validator vs (vt_voter v) = Some info
        \<and> vote_verify lib v (vi_public_key info) = Inr True)"

definition voted_stake :: "FinalityValidators \<Rightarrow> FinalityVote list \<Rightarrow> Weight" where
  "voted_stake vs votes =
     sum_list (map vi_stake (List.map_filter (\<lambda>v. get_validator vs (vt_voter v)) votes))"

lemma voted_stake_simps [simp]:
  "voted_stake vs [] = 0"
  "voted_stake vs (v # votes) =
     (case get_validator vs (vt_voter v) of None \<Rightarrow> 0 | Some i \<Rightarrow> vi_stake i) + voted_stake vs votes"
  "voted_stake vs (votes @ [v]) =
     voted_stake vs votes + (case get_validator vs (vt_voter v) of None \<Rightarrow> 0 | Some i \<Rightarrow> vi_stake i)"
  by (auto simp: voted_stake_def List.map_filter_def split: option.split)

lemma proof_loop_iff:
  "proof_loop lib vs p votes seen w = Inr w' \<longleftrightarrow>
     distinct (map vt_voter votes) \<and> vt_voter ` set votes \<inter> set seen = {}
     \<and> (\<forall>v \<in> set votes. vt_target_hash v = fp_target_hash p \<and> vt_target_height v = fp_target_height p
          \<and> vote_ok lib vs v)
     \<and> w' = w + voted_stake vs votes"
proof (induction votes arbitrary: seen w)
  case Nil
  then show ?case by auto
next
  case (Cons v votes)
  show ?case
  proof (cases "vt_voter v \<notin> set seen \<and> vt_target_hash v = fp_target_hash p
      \<and> vt_target_height v = fp_target_height p \<and> vote_ok lib vs v")
    case True
    then obtain info where "get_validator vs (vt_voter v) = Some info"
      "vote_verify lib v (vi_public_key info) = Inr True" by (auto simp: vote_ok_def)
    with True Cons.IH [of "vt_voter v # seen" "w + vi_stake info"] show ?thesis
      by (auto simp: add.assoc)
  next
    case False
    then have "\<not> (\<exists>x. proof_loop lib vs p (v # votes) seen w = Inr x)"
      by (auto simp: vote_ok_def split: option.split sum.split bool.split)
    with False show ?thesis by auto
  qed
qed

lemma proof_verify_iff:
  "proof_verify lib p vs = Inr True \<longleftrightarrow>
     fv_epoch vs = fp_epoch p \<and> distinct (map vt_voter (fp_votes p))
     \<and> (\<forall>v \<in> set (fp_votes p). vt_target_hash v = fp_target_hash p
          \<and> vt_target_height v = fp_target_height p \<and> vote_ok lib vs v)
     \<and> weight_supermajority vs (voted_stake vs (fp_votes p))"
proof (cases "proof_loop lib vs p (fp_votes p) [] 0")
  case (Inl e)
  with proof_loop_iff [of lib vs p "fp_votes p" "[]" 0 "voted_stake vs (fp_votes p)"]
  show ?thesis by (auto simp: proof_verify_def)
next
  case (Inr w)
  with proof_loop_iff [of lib vs p "fp_votes p" "[]" 0 w] show ?thesis
    by (auto simp: proof_verify_def)
qed

section \<open>The tally\<close>

abbreviation on_target :: "FinalityValidators \<Rightarrow> Hash \<times> Height \<Rightarrow> FinalityVote \<Rightarrow> bool" where
  "on_target vs key v \<equiv>
     (vt_target_hash v, vt_target_height v) = key \<and> get_validator vs (vt_voter v) \<noteq> None"

lemma tally_entries:
  "wf_hmap (fold (tally_vote vs) votes [])
   \<and> hget (fold (tally_vote vs) votes []) key =
      (let l = filter (on_target vs key) votes
       in if l = [] then None else Some (voted_stake vs l, l))"
proof (induction votes arbitrary: key rule: rev_induct)
  case Nil
  then show ?case by simp
next
  case (snoc v votes)
  show ?case
    using snoc [of key] snoc [of "(vt_target_hash v, vt_target_height v)"]
    by (auto simp: tally_vote_def Let_def split: option.split prod.split if_splits)
qed

lemma target_weights_entry:
  assumes "((h, k), (w, votes)) \<in> set (target_weights vs s)"
  shows "votes = filter (on_target vs (h, k)) (hvalues (fs_votes s))" "w = voted_stake vs votes"
proof -
  have "hget (target_weights vs s) (h, k) = Some (w, votes)"
    using assms tally_entries [of vs "hvalues (fs_votes s)" "(h, k)", THEN conjunct1]
    by (simp add: hget_iff target_weights_def)
  then show "votes = filter (on_target vs (h, k)) (hvalues (fs_votes s))" "w = voted_stake vs votes"
    using tally_entries [of vs "hvalues (fs_votes s)" "(h, k)"]
    unfolding target_weights_def by (auto simp: Let_def split: if_splits)
qed

section \<open>The gadget's invariant\<close>

text \<open>
  The stored votes are verified votes of the current set, filed under their voter; the proofs have
  strictly increasing heights and the last one is the finalized state.
\<close>

definition votes_inv :: "crypto_lib \<Rightarrow> FinalityGadget \<Rightarrow> bool" where
  "votes_inv lib g \<longleftrightarrow>
     wf_hmap (fs_votes (fg_state g))
     \<and> (\<forall>(i, v) \<in> set (fs_votes (fg_state g)). vt_voter v = i \<and> vote_ok lib (fg_validator_set g) v)"

definition proofs_inv :: "FinalityGadget \<Rightarrow> bool" where
  "proofs_inv g \<longleftrightarrow>
     sorted_wrt (<) (map fp_target_height (fg_proofs g))
     \<and> (\<forall>p \<in> set (fg_proofs g). 0 < fp_target_height p)
     \<and> finalized_state g =
         (if fg_proofs g = [] then (0, 0)
          else (fp_target_height (last (fg_proofs g)), fp_target_hash (last (fg_proofs g))))"

lemma proofs_inv_extend:
  assumes "proofs_inv g" "fp_target_height p > fs_finalized_height (fg_state g)"
    and "fg_proofs g' = fg_proofs g @ [p]"
    and "finalized_state g' = (fp_target_height p, fp_target_hash p)"
  shows "proofs_inv g'"
proof -
  have "fp_target_height q < fp_target_height p" if "q \<in> set (fg_proofs g)" for q
  proof -
    have ne: "fg_proofs g \<noteq> []" using that by (cases "fg_proofs g") simp_all
    then obtain qs l where qs: "fg_proofs g = qs @ [l]"
      using append_butlast_last_id [OF ne, symmetric] by blast
    then have "fp_target_height q \<le> fp_target_height l"
      using assms(1) that by (auto simp: proofs_inv_def sorted_wrt_append intro: less_imp_le)
    also have "fp_target_height l < fp_target_height p"
      using assms(1,2) qs by (simp add: proofs_inv_def finalized_state_def)
    finally show ?thesis .
  qed
  moreover have "0 < fp_target_height p" using assms(2) by (rule le_less_trans [OF word_zero_le])
  ultimately show ?thesis
    using assms(1,3,4) by (auto simp: proofs_inv_def sorted_wrt_append)
qed

lemma stored_votes_ok:
  assumes "votes_inv lib g"
  shows "distinct (map vt_voter (hvalues (fs_votes (fg_state g))))"
    and "v \<in> set (hvalues (fs_votes (fg_state g))) \<Longrightarrow> vote_ok lib (fg_validator_set g) v"
proof -
  let ?m = "fs_votes (fg_state g)"
  have "map vt_voter (hvalues ?m) = map fst ?m"
    using assms by (auto simp: votes_inv_def hvalues_def)
  then show "distinct (map vt_voter (hvalues ?m))"
    using assms by (simp add: votes_inv_def wf_hmap_def)
  show "v \<in> set (hvalues ?m) \<Longrightarrow> vote_ok lib (fg_validator_set g) v"
    using assms by (auto simp: votes_inv_def hvalues_def)
qed

lemma try_finalize_spec:
  assumes inv: "votes_inv lib g" "proofs_inv g" and t: "try_finalize g = (g', r)"
  shows "votes_inv lib g' \<and> proofs_inv g' \<and> fg_validator_set g' = fg_validator_set g
    \<and> (case r of None \<Rightarrow> g' = g
       | Some p \<Rightarrow> proof_verify lib p (fg_validator_set g) = Inr True
           \<and> fp_target_height p > fs_finalized_height (fg_state g)
           \<and> finalized_state g' = (fp_target_height p, fp_target_hash p)
           \<and> fg_proofs g' = fg_proofs g @ [p] \<and> fs_votes (fg_state g') = [])"
proof (cases r)
  case None
  with t inv show ?thesis by (auto simp: try_finalize_def Let_def split: option.splits)
next
  case (Some p)
  let ?vs = "fg_validator_set g" and ?s = "fg_state g"
  from t Some obtain h k w votes
    where f: "find (\<lambda>((h, k), (w, votes)). weight_supermajority ?vs w \<and> k > fs_finalized_height ?s)
        (target_weights ?vs ?s) = Some ((h, k), (w, votes))"
      and p: "p = \<lparr>fp_round = fs_round ?s, fp_target_hash = h, fp_target_height = k, fp_votes = votes,
        fp_total_weight = w, fp_epoch = fv_epoch ?vs\<rparr>"
      and g': "g' = g\<lparr>fg_state := ?s\<lparr>fs_finalized_height := k, fs_finalized_hash := h,
        fs_round := fs_round ?s + 1, fs_votes := []\<rparr>, fg_proofs := fg_proofs g @ [p]\<rparr>"
    by (auto simp: try_finalize_def Let_def split: option.splits)
  from f have mem: "((h, k), (w, votes)) \<in> set (target_weights ?vs ?s)"
    and win: "weight_supermajority ?vs w" "k > fs_finalized_height ?s"
    by (auto simp: find_Some_iff in_set_conv_nth)
  note entry = target_weights_entry [OF mem]
  have "distinct (map vt_voter votes)"
    using stored_votes_ok(1) [OF inv(1)] by (simp add: entry(1) distinct_map_filter)
  then have "proof_verify lib p ?vs = Inr True"
    using stored_votes_ok(2) [OF inv(1)] win(1) entry(2) by (auto simp: proof_verify_iff p entry(1))
  moreover have "fp_target_height p > fs_finalized_height ?s" using win(2) by (simp add: p)
  with inv(2) have "proofs_inv g'"
    by (rule proofs_inv_extend) (simp_all add: g' p finalized_state_def)
  ultimately show ?thesis
    using Some win(2) by (simp add: g' p votes_inv_def finalized_state_def)
qed

lemma add_vote_spec:
  assumes inv: "votes_inv lib g" "proofs_inv g" and a: "add_vote lib vote g = (g', r)"
  shows "votes_inv lib g' \<and> proofs_inv g' \<and> fg_validator_set g' = fg_validator_set g
    \<and> (\<forall>e. r = Inl e \<longrightarrow> g' = g)
    \<and> fs_finalized_height (fg_state g) \<le> fs_finalized_height (fg_state g')
    \<and> (\<forall>p. r = Inr (Some p) \<longrightarrow> proof_verify lib p (fg_validator_set g) = Inr True
         \<and> fp_target_height p > fs_finalized_height (fg_state g)
         \<and> finalized_state g' = (fp_target_height p, fp_target_hash p))"
proof (cases r)
  case (Inl e)
  with a inv show ?thesis
    by (auto simp: add_vote_def Let_def split: if_splits option.splits sum.splits bool.splits prod.splits)
next
  case (Inr po)
  let ?g = "g\<lparr>fg_state := (fg_state g)\<lparr>fs_votes := hput (vt_voter vote) vote (fs_votes (fg_state g))\<rparr>\<rparr>"
  from a Inr have t: "try_finalize ?g = (g', po)" and v: "vote_ok lib (fg_validator_set g) vote"
    by (auto simp: add_vote_def Let_def vote_ok_def
        split: if_splits option.splits sum.splits bool.splits prod.splits)
  have "votes_inv lib ?g"
    using inv(1) v by (auto simp: votes_inv_def hm.entries_put)
  moreover have "proofs_inv ?g" using inv(2) by (simp add: proofs_inv_def finalized_state_def)
  ultimately have "votes_inv lib g' \<and> proofs_inv g' \<and> fg_validator_set g' = fg_validator_set ?g
    \<and> (case po of None \<Rightarrow> g' = ?g
       | Some p \<Rightarrow> proof_verify lib p (fg_validator_set ?g) = Inr True
           \<and> fp_target_height p > fs_finalized_height (fg_state ?g)
           \<and> finalized_state g' = (fp_target_height p, fp_target_hash p)
           \<and> fg_proofs g' = fg_proofs ?g @ [p] \<and> fs_votes (fg_state g') = [])"
    using t by (rule try_finalize_spec)
  with Inr show ?thesis by (cases po) (auto simp: finalized_state_def)
qed

section \<open>Histories\<close>

datatype gadget_event =
    VoteReceived FinalityVote
  | EpochChange "ValidatorInfo list" u64
  | ProofReceived FinalityProof Dag

fun gadget_step :: "crypto_lib \<Rightarrow> gadget_event \<Rightarrow> FinalityGadget \<Rightarrow> FinalityGadget" where
  "gadget_step lib (VoteReceived v) g = fst (add_vote lib v g)"
| "gadget_step lib (EpochChange validators e) g = update_validator_set validators e g"
| "gadget_step lib (ProofReceived p d) g = fst (apply_proof lib p d g)"

lemma gadget_step_inv:
  assumes "votes_inv lib g" "proofs_inv g"
  shows "votes_inv lib (gadget_step lib ev g) \<and> proofs_inv (gadget_step lib ev g)
    \<and> fs_finalized_height (fg_state g) \<le> fs_finalized_height (fg_state (gadget_step lib ev g))"
proof (cases ev)
  case (VoteReceived v)
  obtain g' r where a: "add_vote lib v g = (g', r)" by fastforce
  with add_vote_spec [OF assms a] show ?thesis
    by (simp add: VoteReceived finalized_state_def)
next
  case (EpochChange validators e)
  with assms show ?thesis
    by (simp add: update_validator_set_def votes_inv_def proofs_inv_def finalized_state_def)
next
  case (ProofReceived p d)
  show ?thesis
  proof (cases "fst (apply_proof lib p d g) = g")
    case False
    then have h: "fp_target_height p > fs_finalized_height (fg_state g)"
      and g': "fst (apply_proof lib p d g) = g\<lparr>fg_state := (fg_state g)\<lparr>fs_finalized_height := fp_target_height p,
          fs_finalized_hash := fp_target_hash p\<rparr>, fg_proofs := fg_proofs g @ [p]\<rparr>"
      by (auto simp: apply_proof_def Let_def split: sum.splits if_splits)
    have "proofs_inv (fst (apply_proof lib p d g))"
      using assms(2) h by (rule proofs_inv_extend) (simp_all add: g' finalized_state_def)
    with assms(1) h g' ProofReceived show ?thesis by (simp add: votes_inv_def)
  qed (use assms ProofReceived in simp)
qed

lemma gadget_run_inv:
  assumes "votes_inv lib g" "proofs_inv g"
  shows "votes_inv lib (fold (gadget_step lib) evs g) \<and> proofs_inv (fold (gadget_step lib) evs g)
    \<and> fs_finalized_height (fg_state g) \<le> fs_finalized_height (fg_state (fold (gadget_step lib) evs g))"
  using assms
proof (induction evs arbitrary: g)
  case Nil
  then show ?case by simp
next
  case (Cons ev evs)
  note step = gadget_step_inv [OF Cons.prems, of ev]
  from Cons.IH [of "gadget_step lib ev g"] step show ?case by (auto intro: order_trans)
qed

lemma FinalityGadget_new_inv:
  "votes_inv lib (FinalityGadget_new cfg vals)" "proofs_inv (FinalityGadget_new cfg vals)"
  by (simp_all add: FinalityGadget_new_def votes_inv_def proofs_inv_def finalized_state_def)

section \<open>Weights as natural numbers\<close>

definition fv_members :: "FinalityValidators \<Rightarrow> ValidatorId set" where
  "fv_members vs = {i. get_validator vs i \<noteq> None}"

definition fv_weight :: "FinalityValidators \<Rightarrow> ValidatorId \<Rightarrow> nat" where
  "fv_weight vs i = (case get_validator vs i of None \<Rightarrow> 0 | Some info \<Rightarrow> unat (vi_stake info))"

lemma finite_fv_members: "finite (fv_members vs)"
proof (rule finite_subset)
  show "fv_members vs \<subseteq> fst ` set (fv_validators vs)"
    by (auto simp: fv_members_def get_validator_def dest!: hget_in_set intro: rev_image_eqI)
qed simp

interpretation fvset: weighted_votes "fv_members vs" "fv_weight vs" for vs
  by unfold_locales (rule finite_fv_members)

lemma unat_voted_stake:
  assumes "distinct (map vt_voter votes)" and "sum (fv_weight vs) (vt_voter ` set votes) < 2 ^ 128"
  shows "unat (voted_stake vs votes) = sum (fv_weight vs) (vt_voter ` set votes)"
proof -
  let ?infos = "List.map_filter (\<lambda>v. get_validator vs (vt_voter v)) votes"
  have "sum_list (map (unat \<circ> vi_stake) ?infos) = sum_list (map (fv_weight vs) (map vt_voter votes))"
    by (induction votes) (auto simp: List.map_filter_simps fv_weight_def split: option.split)
  also have "\<dots> = sum (fv_weight vs) (set (map vt_voter votes))"
    using assms(1) by (rule sum_list_distinct_conv_sum_set)
  finally show ?thesis
    using assms(2) unat_sum_list [of "map vi_stake ?infos"] by (simp add: voted_stake_def)
qed

lemma FinalityValidators_new_map:
  "distinct (map vi_id vals) \<Longrightarrow>
     fv_validators (FinalityValidators_new vals e) = map (\<lambda>v. (vi_id v, v)) vals"
proof -
  assume "distinct (map vi_id vals)"
  then have "fold (\<lambda>v m. hput (vi_id v) v m) vals [] = map (\<lambda>v. (vi_id v, v)) vals"
  proof (induction vals rule: rev_induct)
    case (snoc v vals)
    then have "hget (map (\<lambda>v. (vi_id v, v)) vals) (vi_id v) = None"
      by (auto simp: map_of_eq_None_iff comp_def)
    with snoc show ?case by (simp add: hput_fresh)
  qed simp
  then show ?thesis by (simp add: FinalityValidators_new_def)
qed

lemma FinalityValidators_new_weight:
  assumes "distinct (map vi_id vals)"
  shows "sum (fv_weight (FinalityValidators_new vals e)) (fv_members (FinalityValidators_new vals e))
    = sum_list (map (unat \<circ> vi_stake) vals)"
proof -
  let ?vs = "FinalityValidators_new vals e"
  have get: "get_validator ?vs i = map_of (map (\<lambda>v. (vi_id v, v)) vals) i" for i
    by (simp add: get_validator_def FinalityValidators_new_map [OF assms])
  have mem: "fv_members ?vs = set (map vi_id vals)"
    by (auto simp: fv_members_def get map_of_eq_None_iff image_image simp flip: not_None_eq)
  have w: "fv_weight ?vs (vi_id v) = unat (vi_stake v)" if "v \<in> set vals" for v
  proof -
    have "map_of (map (\<lambda>v. (vi_id v, v)) vals) (vi_id v) = Some v"
      using assms that by (intro map_of_is_SomeI) (auto simp: comp_def)
    then show ?thesis by (simp add: fv_weight_def get)
  qed
  have "sum (fv_weight ?vs) (fv_members ?vs) = sum_list (map (fv_weight ?vs) (map vi_id vals))"
    unfolding mem using assms by (rule sum_list_distinct_conv_sum_set [symmetric])
  also have "\<dots> = sum_list (map (unat \<circ> vi_stake) vals)"
    using w by (auto intro!: arg_cong [where f = sum_list])
  finally show ?thesis .
qed

text \<open>A verified proof is a supermajority of the weight of the set it is verified against.\<close>

lemma proof_verify_supermajority:
  assumes "distinct (map vi_id vals)" and "3 * sum_list (map (unat \<circ> vi_stake) vals) < 2 ^ 128"
    and v: "proof_verify lib p (FinalityValidators_new vals e) = Inr True"
  shows "supermajority_of (fv_weight (FinalityValidators_new vals e))
    (fv_members (FinalityValidators_new vals e)) (vt_voter ` set (fp_votes p))"
proof -
  let ?vs = "FinalityValidators_new vals e" and ?Q = "vt_voter ` set (fp_votes p)"
  let ?W = "sum (fv_weight ?vs) (fv_members ?vs)"
  have W: "?W = sum_list (map (unat \<circ> vi_stake) vals)"
    using assms(1) by (rule FinalityValidators_new_weight)
  have "fv_total_weight ?vs = sum_list (map vi_stake vals)" by (simp add: FinalityValidators_new_def)
  then have tot: "unat (fv_total_weight ?vs) = ?W"
    unfolding W using assms(2) unat_sum_list [of "map vi_stake vals"] by simp
  have sub: "?Q \<subseteq> fv_members ?vs"
    using v by (auto simp: proof_verify_iff vote_ok_def fv_members_def)
  then have le: "sum (fv_weight ?vs) ?Q \<le> ?W" using finite_fv_members by (intro sum_mono2) auto
  have st: "unat (voted_stake ?vs (fp_votes p)) = sum (fv_weight ?vs) ?Q"
    using v le assms(2) W by (intro unat_voted_stake) (auto simp: proof_verify_iff)
  have "unat (voted_stake ?vs (fp_votes p) * 3) = sum (fv_weight ?vs) ?Q * 3"
    "unat (fv_total_weight ?vs * 2) = ?W * 2"
    using assms(2) le st tot W by (auto intro!: unat_mult_no_overflow [THEN trans])
  with v sub show ?thesis
    by (auto simp: proof_verify_iff weight_supermajority_def supermajority_of_def word_less_nat_alt
        split: if_splits)
qed

section \<open>Candidates\<close>

lemma common_ancestor_iff:
  "common_ancestor d tips h \<longleftrightarrow> (\<forall>tip \<in> set tips. (tip, h) \<in> (parent_rel d)\<^sup>*)"
  unfolding common_ancestor_def list_all_iff is_ancestor_iff by blast

lemma candidate_loop_Some:
  assumes "candidate_loop d tips ks = Some (h, k)" and "sorted_wrt (>) ks"
  shows "k \<in> set ks" "h \<in> set (get_vertices_at_height d k)" "common_ancestor d tips h"
    "\<And>k' h'. k' \<in> set ks \<Longrightarrow> k' > k \<Longrightarrow> h' \<in> set (get_vertices_at_height d k') \<Longrightarrow> \<not> common_ancestor d tips h'"
  using assms
proof (induction ks)
  case (Cons j ks)
  { case 1 then show ?case using Cons.IH(1) by (auto split: option.splits) }
  { case 2 then show ?case using Cons.IH(2) by (auto simp: find_Some_iff split: option.splits) }
  { case 3 then show ?case using Cons.IH(3) by (auto simp: find_Some_iff split: option.splits) }
  { case 4 then show ?case using Cons.IH(4)
      by (auto simp: find_None_iff split: option.splits) }
qed simp_all

lemma candidate_loop_None:
  "candidate_loop d tips ks = None \<longleftrightarrow>
     (\<forall>k \<in> set ks. \<forall>h \<in> set (get_vertices_at_height d k). \<not> common_ancestor d tips h)"
  by (induction ks) (auto simp: find_None_iff find_Some_iff intro: nth_mem split: option.split)

lemma descending_heights:
  fixes f t :: Height
  assumes "f \<noteq> - 1"
  defines "ks \<equiv> map of_nat (rev [unat (f + 1)..<Suc (unat t)])"
  shows "set ks = {k. f < k \<and> k \<le> t}" "sorted_wrt (>) ks"
proof -
  have f1: "unat (f + 1) = Suc (unat f)" 
    using assms(1) unatSuc [of f] by (simp add: eq_neg_iff_add_eq_0 add.commute)
  have lt: "unat t < 2 ^ 64" using unat_lt2p [of t] by simp
  show "set ks = {k. f < k \<and> k \<le> t}"
  proof (intro set_eqI iffI)
    fix k assume "k \<in> {k. f < k \<and> k \<le> t}"
    then have "unat k \<in> {unat (f + 1)..<Suc (unat t)}"
      by (auto simp: f1 word_less_nat_alt word_le_nat_alt)
    then show "k \<in> set ks"
      unfolding ks_def set_map set_rev set_upt by (rule image_eqI [rotated]) simp
  next
    fix k assume "k \<in> set ks"
    then obtain n where "k = of_nat n" "Suc (unat f) \<le> n" "n \<le> unat t"
      by (auto simp: ks_def f1)
    with lt show "k \<in> {k. f < k \<and> k \<le> t}"
      by (simp add: word_less_nat_alt word_le_nat_alt unat_of_nat)
  qed
  have "sorted_wrt (\<lambda>m n. m > n \<and> m \<le> unat t) (rev [unat (f + 1)..<Suc (unat t)])"
    unfolding sorted_wrt_rev by (rule sorted_wrt_mono_rel [OF _ sorted_wrt_upt]) auto
  then show "sorted_wrt (>) ks"
    unfolding ks_def sorted_wrt_map
    by (rule sorted_wrt_mono_rel [rotated]) (use lt in \<open>auto simp: word_less_nat_alt unat_of_nat\<close>)
qed

section \<open>Properties\<close>

text \<open>
  (C2) Whatever votes, proofs and validator-set changes the gadget receives, and in whatever order,
  its stored votes are verified votes of the current set filed under their voters, the proofs it
  keeps have strictly increasing positive heights, the finalized state is the last of them, and the
  finalized height never decreases. A vote accepted in such a state that yields a proof yields one
  that passes the verification of any node with the same validator set, for a height above the
  finalized one; a rejected vote changes nothing.
\<close>

theorem finality_gadget_sound:
  assumes "g = fold (gadget_step lib) evs (FinalityGadget_new cfg vals)"
    and "g' = fold (gadget_step lib) evs' g" and "add_vote lib vote g = (g'', r)"
  shows "votes_inv lib g \<and> proofs_inv g
    \<and> fs_finalized_height (fg_state g) \<le> fs_finalized_height (fg_state g')
    \<and> (\<forall>e. r = Inl e \<longrightarrow> g'' = g)
    \<and> (\<forall>p. r = Inr (Some p) \<longrightarrow> proof_verify lib p (fg_validator_set g) = Inr True
         \<and> fp_target_height p > fs_finalized_height (fg_state g)
         \<and> finalized_state g'' = (fp_target_height p, fp_target_hash p))"
proof -
  have inv: "votes_inv lib g" "proofs_inv g"
    using gadget_run_inv [OF FinalityGadget_new_inv] assms(1) by auto
  with gadget_run_inv [OF inv, of evs'] add_vote_spec [OF inv assms(3)] assms(2) show ?thesis by auto
qed

definition demo_info :: "ValidatorId \<Rightarrow> ValidatorInfo" where
  "demo_info i = \<lparr>vi_id = i, vi_public_key = [], vi_stake = 10, vi_address = 0\<rparr>"

definition demo_vote :: "Hash \<Rightarrow> Height \<Rightarrow> ValidatorId \<Rightarrow> FinalityVote" where
  "demo_vote h k i = \<lparr>vt_round = 0, vt_target_hash = h, vt_target_height = k, vt_voter = i,
     vt_signature = \<lparr>sig_r = 0, sig_s = 0, sig_v = 27\<rparr>\<rparr>"

definition demo_gadget :: FinalityGadget where
  "demo_gadget = FinalityGadget_new FinalityConfig_default (map demo_info [1, 2, 3])"

lemma demo_vote_ok: "vote_verify demo_lib v pk = Inr True"
  by (simp add: vote_verify_def verify_signature_def to_verifying_key_def demo_lib_def)

lemma demo_votes:
  "add_vote demo_lib (demo_vote 7 5 3)
     (fold (gadget_step demo_lib) [VoteReceived (demo_vote 7 5 1), VoteReceived (demo_vote 7 5 2)]
        demo_gadget)
   = (demo_gadget\<lparr>fg_state := (fg_state demo_gadget)
        \<lparr>fs_round := 1, fs_finalized_height := 5, fs_finalized_hash := 7\<rparr>,
      fg_proofs := [\<lparr>fp_round = 0, fp_target_hash = 7, fp_target_height = 5,
        fp_votes = map (demo_vote 7 5) [1, 2, 3], fp_total_weight = 30, fp_epoch = 0\<rparr>]\<rparr>,
      Inr (Some \<lparr>fp_round = 0, fp_target_hash = 7, fp_target_height = 5,
        fp_votes = map (demo_vote 7 5) [1, 2, 3], fp_total_weight = 30, fp_epoch = 0\<rparr>))"
  by (simp add: add_vote_def demo_gadget_def FinalityGadget_new_def FinalityValidators_new_def
      demo_info_def demo_vote_def get_validator_def hput_def demo_vote_ok try_finalize_def
      target_weights_def tally_vote_def hvalues_def weight_supermajority_def Let_def)

theorem finality_gadget_sound_witness:
  "proof_verify demo_lib \<lparr>fp_round = 0, fp_target_hash = 7, fp_target_height = 5,
     fp_votes = map (demo_vote 7 5) [1, 2, 3], fp_total_weight = 30, fp_epoch = 0\<rparr>
     (fg_validator_set (fold (gadget_step demo_lib)
        [VoteReceived (demo_vote 7 5 1), VoteReceived (demo_vote 7 5 2)] demo_gadget)) = Inr True"
  using finality_gadget_sound [OF demo_gadget_def [THEN arg_cong [where f = "fold (gadget_step demo_lib)
    [VoteReceived (demo_vote 7 5 1), VoteReceived (demo_vote 7 5 2)]"]] refl demo_votes] by blast

text \<open>
  (C3) Accountable safety: two proofs that verify against the same validator set and finalize
  different targets carry votes of common validators with more than a third of the total weight,
  each of which signed a vote for either target. The set is built from validators with distinct
  identifiers whose added stake, tripled, fits in 128 bits.
\<close>

theorem conflicting_proofs_share_a_third:
  assumes "distinct (map vi_id vals)" and "3 * sum_list (map (unat \<circ> vi_stake) vals) < 2 ^ 128"
    and "vs = FinalityValidators_new vals e"
    and "proof_verify lib p vs = Inr True" and "proof_verify lib q vs = Inr True"
    and "(fp_target_hash p, fp_target_height p) \<noteq> (fp_target_hash q, fp_target_height q)"
  shows "\<exists>S. sum (fv_weight vs) S * 3 > sum_list (map (unat \<circ> vi_stake) vals)
    \<and> (\<forall>i \<in> S. \<exists>a \<in> set (fp_votes p). \<exists>b \<in> set (fp_votes q).
         vt_voter a = i \<and> vt_voter b = i \<and> vote_ok lib vs a \<and> vote_ok lib vs b
         \<and> (vt_target_hash a, vt_target_height a) \<noteq> (vt_target_hash b, vt_target_height b))"
proof -
  let ?S = "vt_voter ` set (fp_votes p) \<inter> vt_voter ` set (fp_votes q)"
  have "sum (fv_weight vs) ?S * 3 > sum_list (map (unat \<circ> vi_stake) vals)"
    using fvset.supermajority_intersection [OF proof_verify_supermajority proof_verify_supermajority]
      FinalityValidators_new_weight [OF assms(1), of e] assms by metis
  moreover have "\<exists>a \<in> set (fp_votes p). \<exists>b \<in> set (fp_votes q).
      vt_voter a = i \<and> vt_voter b = i \<and> vote_ok lib vs a \<and> vote_ok lib vs b
      \<and> (vt_target_hash a, vt_target_height a) \<noteq> (vt_target_hash b, vt_target_height b)"
    if i: "i \<in> ?S" for i
  proof -
    from i obtain a b where "a \<in> set (fp_votes p)" "b \<in> set (fp_votes q)" "vt_voter a = i" "vt_voter b = i"
      by auto
    with assms(4-6) show ?thesis unfolding proof_verify_iff by (metis prod.inject)
  qed
  ultimately show ?thesis by blast
qed

definition demo_proof :: "Hash \<Rightarrow> FinalityProof" where
  "demo_proof h = \<lparr>fp_round = 0, fp_target_hash = h, fp_target_height = 5,
     fp_votes = map (demo_vote h 5) [1, 2, 3], fp_total_weight = 30, fp_epoch = 0\<rparr>"

lemma demo_proof_verifies:
  "proof_verify demo_lib (demo_proof h) (FinalityValidators_new (map demo_info [1, 2, 3]) 0) = Inr True"
  by (simp add: proof_verify_def demo_proof_def demo_vote_def demo_vote_ok get_validator_def
      FinalityValidators_new_def demo_info_def hput_def weight_supermajority_def)

theorem conflicting_proofs_share_a_third_witness:
  "\<exists>S. sum (fv_weight (FinalityValidators_new (map demo_info [1, 2, 3]) 0)) S * 3 > 30"
proof -
  have "distinct (map vi_id (map demo_info [1, 2, 3]))"
    "sum_list (map (unat \<circ> vi_stake) (map demo_info [1, 2, 3])) = 30"
    by (simp_all add: demo_info_def)
  with conflicting_proofs_share_a_third [OF _ _ refl demo_proof_verifies [of 7] demo_proof_verifies [of 8]]
  show ?thesis by (simp add: demo_proof_def) blast
qed

text \<open>
  (C11) On a well-formed DAG the candidate the gadget votes for is a stored vertex above the finalized
  height that every tip leads to, and no stored vertex at a greater height up to the latest one has
  this property; when there is none, no stored vertex between the two heights is a common ancestor.
\<close>

theorem find_best_candidate_highest:
  assumes "dag_graph d" and "fs_finalized_height (fg_state g) \<noteq> - 1" and "get_tips d \<noteq> []"
  shows "case find_best_candidate d g of
      Some (h, k) \<Rightarrow> (\<exists>v. get_vertex d h = Some v \<and> vx_height v = k)
        \<and> fs_finalized_height (fg_state g) < k \<and> k \<le> latest_height d
        \<and> (\<forall>tip \<in> set (get_tips d). (tip, h) \<in> (parent_rel d)\<^sup>*)
        \<and> (\<forall>h' v'. get_vertex d h' = Some v' \<and> k < vx_height v' \<and> vx_height v' \<le> latest_height d
             \<longrightarrow> (\<exists>tip \<in> set (get_tips d). (tip, h') \<notin> (parent_rel d)\<^sup>*))
    | None \<Rightarrow> \<forall>h v. get_vertex d h = Some v \<and> fs_finalized_height (fg_state g) < vx_height v
          \<and> vx_height v \<le> latest_height d
        \<longrightarrow> (\<exists>tip \<in> set (get_tips d). (tip, h) \<notin> (parent_rel d)\<^sup>*)"
proof -
  let ?f = "fs_finalized_height (fg_state g)"
  define ks :: "Height list" where "ks = map of_nat (rev [unat (?f + 1)..<Suc (unat (latest_height d))])"
  note ks = descending_heights [OF assms(2), of "latest_height d", folded ks_def]
  have b: "find_best_candidate d g = candidate_loop d (get_tips d) ks"
    using assms(3) by (simp add: find_best_candidate_def Let_def ks_def)
  have at: "h \<in> set (get_vertices_at_height d k) \<longleftrightarrow> (\<exists>v. get_vertex d h = Some v \<and> vx_height v = k)" for h k
    using assms(1) by (simp add: dag_graph_def get_vertex_def)
  show ?thesis
  proof (cases "candidate_loop d (get_tips d) ks")
    case None
    then have "\<forall>k. ?f < k \<and> k \<le> latest_height d \<longrightarrow> (\<forall>h. (\<exists>v. get_vertex d h = Some v \<and> vx_height v = k)
        \<longrightarrow> (\<exists>tip \<in> set (get_tips d). (tip, h) \<notin> (parent_rel d)\<^sup>*))"
      unfolding candidate_loop_None ks(1) common_ancestor_iff using at by blast
    then show ?thesis unfolding b None option.case by blast
  next
    case (Some hk)
    obtain h k where hk: "hk = (h, k)" by fastforce
    note loop = candidate_loop_Some [OF Some [unfolded hk] ks(2)]
    note loop = loop [unfolded ks(1) common_ancestor_iff at mem_Collect_eq]
    have "\<exists>tip \<in> set (get_tips d). (tip, h') \<notin> (parent_rel d)\<^sup>*"
      if "get_vertex d h' = Some v'" "k < vx_height v'" "vx_height v' \<le> latest_height d" for h' v'
      using loop(4) [of "vx_height v'" h'] loop(1) that less_trans [of ?f k "vx_height v'"] by blast
    with loop(1-3) show ?thesis unfolding b Some hk option.case prod.case by blast
  qed
qed

definition demo_dag2 :: Dag where
  "demo_dag2 = the (submit_all demo_lib
     [(1000, demo_vertex [7] 2 9), (1000, demo_vertex [0] 1 7)] demo_dag)"

lemma demo_dag2_eq:
  "demo_dag2 = demo_dag
     \<lparr>dg_vertices := [(0, Vertex_genesis 1 0), (7, demo_vertex [0] 1 7), (9, demo_vertex [7] 2 9)],
      dg_status := [(0, StatusFinalized), (9, Confirmed), (7, Confirmed)],
      dg_children := [(0, [7]), (7, [9])], dg_tips := [9],
      dg_by_height := [(0, [0]), (1, [7]), (2, [9])]\<rparr>"
  unfolding demo_dag2_def demo_submissions by simp

lemma demo_dag2_graph: "dag_graph demo_dag2"
proof -
  let ?V = "{demo_vertex [7] 2 9, demo_vertex [0] 1 7}"
  let ?subs = "[(1000, demo_vertex [7] 2 9), (1000, demo_vertex [0] 1 7)]"
  have "snd ` set ?subs \<subseteq> ?V" by simp
  from submit_all_reach [OF demo_digest this demo_dag_reach]
  obtain d where d: "submit_all demo_lib ?subs demo_dag = Some d" "dag_reach demo_lib (Vertex_genesis 1 0) ?V d" by blast
  then have "demo_dag2 = d" unfolding demo_dag2_def by simp
  with d(2) show ?thesis using reach_graph by blast
qed

theorem find_best_candidate_highest_witness:
  "find_best_candidate demo_dag2 demo_gadget = Some (9, 2) \<and> get_tips demo_dag2 = [9]
   \<and> (9, 9) \<in> (parent_rel demo_dag2)\<^sup>* \<and> 2 \<le> latest_height demo_dag2
   \<and> (\<exists>v. get_vertex demo_dag2 9 = Some v \<and> vx_height v = 2)"
proof -
  have tips: "get_tips demo_dag2 = [9]" by (simp add: demo_dag2_eq get_tips_def)
  have "latest_height demo_dag2 = 2"
    by (simp add: latest_height_def demo_dag2_eq List.map_filter_simps demo_vertex_def)
  moreover have "get_vertices_at_height demo_dag2 2 = [9]"
    by (simp add: demo_dag2_eq get_vertices_at_height_def hset_get_def)
  ultimately have "find_best_candidate demo_dag2 demo_gadget = Some (9, 2)"
    by (simp add: find_best_candidate_def demo_gadget_def FinalityGadget_new_def tips
        common_ancestor_def)
  moreover have "fs_finalized_height (fg_state demo_gadget) \<noteq> - 1"
    by (simp add: demo_gadget_def FinalityGadget_new_def)
  ultimately show ?thesis
    using find_best_candidate_highest [OF demo_dag2_graph, of demo_gadget] tips by auto
qed

end
