(* ===== verification/Account_Store.thy ===== *)
theory Account_Store
  imports U256 Address
begin

text \<open>
  What the two state databases of the code (\<^verbatim>\<open>nexus-evm/src/state.rs\<close> and
  \<^verbatim>\<open>nexus-state/src/storage.rs\<close>) promise to their clients: accounts and storage slots that can be
  read, written and dropped, with a default for what is absent. The observable state is the pair of
  the two reading functions. The locale \<open>undo_log\<close> is the contract of a log that is undone from its
  end: undoing an entry acts on the observable state alone.
\<close>

type_synonym 'acc store_view = "(Address \<Rightarrow> 'acc) \<times> (Address \<Rightarrow> U256 \<Rightarrow> U256)"

definition view_acc :: "Address \<Rightarrow> ('acc \<Rightarrow> 'acc) \<Rightarrow> 'acc store_view \<Rightarrow> 'acc store_view" where
  "view_acc a f v = ((fst v)(a := f (fst v a)), snd v)"

definition view_slot :: "Address \<Rightarrow> U256 \<Rightarrow> U256 \<Rightarrow> 'acc store_view \<Rightarrow> 'acc store_view" where
  "view_slot a k x v = (fst v, (snd v)(a := (snd v a)(k := x)))"

definition view_drop :: "'acc \<Rightarrow> Address \<Rightarrow> 'acc store_view \<Rightarrow> 'acc store_view" where
  "view_drop e a v = ((fst v)(a := e), (snd v)(a := (\<lambda>k. ZERO)))"

lemma view_slot_restore [simp]: "view_slot a k (snd v a k) (view_slot a k x v) = v"
  by (cases v) (auto simp: view_slot_def fun_eq_iff)

lemma view_acc_restore [simp]: "g (f (fst v a)) = fst v a \<Longrightarrow> view_acc a g (view_acc a f v) = v"
  by (cases v) (auto simp: view_acc_def fun_eq_iff)

locale account_store =
  fixes acc :: "'s \<Rightarrow> Address \<Rightarrow> 'acc" and slot :: "'s \<Rightarrow> Address \<Rightarrow> U256 \<Rightarrow> U256"
    and put_acc :: "Address \<Rightarrow> 'acc \<Rightarrow> 's \<Rightarrow> 's" and put_slot :: "Address \<Rightarrow> U256 \<Rightarrow> U256 \<Rightarrow> 's \<Rightarrow> 's"
    and drop_acc :: "Address \<Rightarrow> 's \<Rightarrow> 's" and no_acc :: 'acc
  assumes acc_put_acc: "acc (put_acc a x s) b = (if b = a then x else acc s b)"
    and slot_put_acc: "slot (put_acc a x s) = slot s"
    and acc_put_slot: "acc (put_slot a k v s) = acc s"
    and slot_put_slot: "slot (put_slot a k v s) b j = (if b = a \<and> j = k then v else slot s b j)"
    and acc_drop: "acc (drop_acc a s) b = (if b = a then no_acc else acc s b)"
    and slot_drop: "slot (drop_acc a s) b j = (if b = a then ZERO else slot s b j)"
begin

lemma view_put_acc: "(acc (put_acc a (f (acc s a)) s), slot (put_acc a (f (acc s a)) s)) = view_acc a f (acc s, slot s)"
  by (auto simp: view_acc_def acc_put_acc slot_put_acc fun_eq_iff)

lemma view_put_slot: "(acc (put_slot a k v s), slot (put_slot a k v s)) = view_slot a k v (acc s, slot s)"
  by (auto simp: view_slot_def acc_put_slot slot_put_slot fun_eq_iff)

lemma view_drop_acc: "(acc (drop_acc a s), slot (drop_acc a s)) = view_drop no_acc a (acc s, slot s)"
  by (auto simp: view_drop_def acc_drop slot_drop fun_eq_iff)

lemmas view_simps = view_put_acc view_put_slot view_drop_acc

end

locale undo_log =
  fixes view :: "'s \<Rightarrow> 'v" and undo :: "'e \<Rightarrow> 's \<Rightarrow> 's" and undo_view :: "'e \<Rightarrow> 'v \<Rightarrow> 'v"
  assumes view_undo: "view (undo e s) = undo_view e (view s)"
begin

lemma view_undo_all: "view (fold undo es s) = fold undo_view es (view s)"
  by (induction es arbitrary: s) (simp_all add: view_undo)

end

text \<open>
  A log that can also be replayed. It is recorded for a state when every entry, replayed and then
  undone at its place, gives the observable state before it.
\<close>

primrec recorded :: "('s \<Rightarrow> 'v) \<Rightarrow> ('e \<Rightarrow> 's \<Rightarrow> 's) \<Rightarrow> ('e \<Rightarrow> 'v \<Rightarrow> 'v) \<Rightarrow> 'e list \<Rightarrow> 's \<Rightarrow> bool" where
  "recorded view redo undo_view [] s \<longleftrightarrow> True"
| "recorded view redo undo_view (e # es) s \<longleftrightarrow>
     undo_view e (view (redo e s)) = view s \<and> recorded view redo undo_view es (redo e s)"

locale redo_log = undo_log view undo undo_view
  for view :: "'s \<Rightarrow> 'v" and undo :: "'e \<Rightarrow> 's \<Rightarrow> 's" and undo_view :: "'e \<Rightarrow> 'v \<Rightarrow> 'v" +
  fixes redo :: "'e \<Rightarrow> 's \<Rightarrow> 's"
begin

lemma undo_redo:
  assumes "recorded view redo undo_view es s"
  shows "view (fold undo (rev es) (fold redo es s)) = view s"
  using assms
proof (induction es arbitrary: s)
  case (Cons e es)
  then have "view (fold undo (rev es) (fold redo es (redo e s))) = view (redo e s)" by simp
  with Cons.prems show ?case by (simp add: view_undo)
qed simp

end

end
