(* ===== verification/Evm_State.thy ===== *)
theory Evm_State
  imports Account_Store
begin

text \<open>
  The account state of the EVM, \<^verbatim>\<open>src/crates/nexus-evm/src/state.rs\<close>: accounts, code, storage and
  the dirty sets of \<open>StateDb\<close>, whole-state snapshots, and \<open>JournaledState\<close>, which records what to
  undo and reverts to checkpoints. The journal is proved to implement a stack of saved states.
\<close>

section \<open>Errors and accounts\<close>

datatype EvmError =
    EvmRevert string
  | OutOfGas u64 u64
  | InvalidOpcode u8
  | StackUnderflow
  | StackOverflow
  | InvalidJump u64
  | StateError string
  | PrecompileError string
  | CreateFailed string
  | NonceMismatch u64 u64
  | InsufficientBalance string string
  | EvmInvalidSignature

type_synonym 'a EvmResult = "EvmError + 'a"

record Account =
  ac_nonce :: u64
  ac_balance :: U256
  ac_code_hash :: Hash
  ac_storage_root :: Hash

definition Account_EMPTY :: Account where
  "Account_EMPTY = \<lparr>ac_nonce = 0, ac_balance = ZERO, ac_code_hash = 0, ac_storage_root = 0\<rparr>"

definition acc_is_empty :: "Account \<Rightarrow> bool" where
  "acc_is_empty a \<longleftrightarrow> ac_nonce a = 0 \<and> ac_balance a = ZERO \<and> ac_code_hash a = 0"

text \<open>The \<open>Debug\<close> text of a 256-bit integer.\<close>

definition u256_debug :: "U256 \<Rightarrow> string" where
  "u256_debug x = ''0x'' @ hex_encode (to_be_bytes x)"

section \<open>The state database\<close>

record StateDb =
  sd_accounts :: "(Address, Account) hmap"
  sd_code :: "(Hash, u8 list) hmap"
  sd_storage :: "(Address, (U256, U256) hmap) hmap"
  sd_state_root :: Hash
  sd_dirty_accounts :: "(Address, unit) hmap"
  sd_dirty_storage :: "(Address, U256 list) hmap"

definition StateDb_new :: StateDb where
  "StateDb_new = \<lparr>sd_accounts = [], sd_code = [], sd_storage = [], sd_state_root = 0,
     sd_dirty_accounts = [], sd_dirty_storage = []\<rparr>"

definition get_account :: "StateDb \<Rightarrow> Address \<Rightarrow> Account" where
  "get_account s a = (case hget (sd_accounts s) a of None \<Rightarrow> Account_EMPTY | Some acc \<Rightarrow> acc)"

definition set_account :: "Address \<Rightarrow> Account \<Rightarrow> StateDb \<Rightarrow> StateDb" where
  "set_account a acc s =
     s\<lparr>sd_accounts := hput a acc (sd_accounts s), sd_dirty_accounts := hput a () (sd_dirty_accounts s)\<rparr>"

definition get_balance :: "StateDb \<Rightarrow> Address \<Rightarrow> U256" where
  "get_balance s a = ac_balance (get_account s a)"

definition set_balance :: "Address \<Rightarrow> U256 \<Rightarrow> StateDb \<Rightarrow> StateDb" where
  "set_balance a b s = set_account a ((get_account s a)\<lparr>ac_balance := b\<rparr>) s"

definition add_balance :: "Address \<Rightarrow> U256 \<Rightarrow> StateDb \<Rightarrow> StateDb \<times> unit EvmResult" where
  "add_balance a amount s =
     (case checked_add (ac_balance (get_account s a)) amount of
        None \<Rightarrow> (s, Inl (StateError ''Balance overflow''))
      | Some b \<Rightarrow> (set_balance a b s, Inr ()))"

definition sub_balance :: "Address \<Rightarrow> U256 \<Rightarrow> StateDb \<Rightarrow> (StateDb \<times> unit EvmResult) run" where
  "sub_balance a amount s =
     (let b = ac_balance (get_account s a)
      in if b < amount then Ret (s, Inl (InsufficientBalance (u256_debug amount) (u256_debug b)))
         else run_bind (u256_sub b amount) (\<lambda>b'. Ret (set_balance a b' s, Inr ())))"

definition get_nonce :: "StateDb \<Rightarrow> Address \<Rightarrow> u64" where
  "get_nonce s a = ac_nonce (get_account s a)"

definition increment_nonce :: "Address \<Rightarrow> StateDb \<Rightarrow> StateDb" where
  "increment_nonce a s =
     set_account a ((get_account s a)\<lparr>ac_nonce := ac_nonce (get_account s a) + 1\<rparr>) s"

definition get_code :: "StateDb \<Rightarrow> Address \<Rightarrow> u8 list" where
  "get_code s a =
     (let h = ac_code_hash (get_account s a)
      in if h = 0 then [] else case hget (sd_code s) h of None \<Rightarrow> [] | Some c \<Rightarrow> c)"

definition set_code :: "crypto_lib \<Rightarrow> Address \<Rightarrow> u8 list \<Rightarrow> StateDb \<Rightarrow> StateDb" where
  "set_code lib a code s =
     (let h = Hash_new (keccak256 lib code);
          s = s\<lparr>sd_code := hput h code (sd_code s)\<rparr>
      in set_account a ((get_account s a)\<lparr>ac_code_hash := h\<rparr>) s)"

definition get_code_hash :: "StateDb \<Rightarrow> Address \<Rightarrow> Hash" where
  "get_code_hash s a = ac_code_hash (get_account s a)"

definition get_code_size :: "StateDb \<Rightarrow> Address \<Rightarrow> nat" where
  "get_code_size s a = length (get_code s a)"

definition get_storage :: "StateDb \<Rightarrow> Address \<Rightarrow> U256 \<Rightarrow> U256" where
  "get_storage s a k =
     (case Option.bind (hget (sd_storage s) a) (\<lambda>m. hget m k) of None \<Rightarrow> ZERO | Some v \<Rightarrow> v)"

definition set_storage :: "Address \<Rightarrow> U256 \<Rightarrow> U256 \<Rightarrow> StateDb \<Rightarrow> StateDb" where
  "set_storage a k v s =
     (let slots = (case hget (sd_storage s) a of None \<Rightarrow> [] | Some m \<Rightarrow> m);
          dirty = (case hget (sd_dirty_storage s) a of None \<Rightarrow> [] | Some ks \<Rightarrow> ks)
      in s\<lparr>sd_storage := hput a (hput k v slots) (sd_storage s),
           sd_dirty_storage := hput a (dirty @ [k]) (sd_dirty_storage s)\<rparr>)"

definition account_exists :: "StateDb \<Rightarrow> Address \<Rightarrow> bool" where
  "account_exists s a \<longleftrightarrow> hcontains (sd_accounts s) a"

definition all_accounts :: "StateDb \<Rightarrow> (Address \<times> Account) list" where
  "all_accounts s = sd_accounts s"

definition delete_account :: "Address \<Rightarrow> StateDb \<Rightarrow> StateDb" where
  "delete_account a s =
     s\<lparr>sd_accounts := hdel a (sd_accounts s), sd_storage := hdel a (sd_storage s),
       sd_dirty_accounts := hput a () (sd_dirty_accounts s)\<rparr>"

text \<open>The bytes that \<open>commit\<close> feeds to the hasher, one account after the other.\<close>

definition commit_preimage :: "(Address, Account) hmap \<Rightarrow> u8 list" where
  "commit_preimage accounts =
     concat (map (\<lambda>(a, acc). addr_bytes a @ u64_to_le_bytes (ac_nonce acc)
       @ to_be_bytes (ac_balance acc) @ as_bytes (ac_code_hash acc)) accounts)"

definition commit_state :: "crypto_lib \<Rightarrow> StateDb \<Rightarrow> StateDb \<times> Hash" where
  "commit_state lib s =
     (let root = Hash_new (keccak256 lib (commit_preimage (sd_accounts s)))
      in (s\<lparr>sd_state_root := root, sd_dirty_accounts := [], sd_dirty_storage := []\<rparr>, root))"

record StateSnapshot =
  sn_accounts :: "(Address, Account) hmap"
  sn_storage :: "(Address, (U256, U256) hmap) hmap"

definition snapshot :: "StateDb \<Rightarrow> StateSnapshot" where
  "snapshot s = \<lparr>sn_accounts = sd_accounts s, sn_storage = sd_storage s\<rparr>"

definition rollback :: "StateSnapshot \<Rightarrow> StateDb \<Rightarrow> StateDb" where
  "rollback sn s =
     s\<lparr>sd_accounts := fold (\<lambda>(a, acc) m. hput a acc m) (sn_accounts sn) [],
       sd_storage := fold (\<lambda>(a, st) m. hput a st m) (sn_storage sn) []\<rparr>"

section \<open>The journal\<close>

datatype JournalEntry =
    AccountCreated Address
  | AccountDestroyed Address Account
  | BalanceChanged Address U256
  | NonceChanged Address u64
  | CodeSet Address Hash
  | StorageChanged Address U256 U256

record JournaledState =
  js_state :: StateDb
  js_journal :: "JournalEntry list"
  js_checkpoints :: "nat list"

definition JournaledState_new :: "StateDb \<Rightarrow> JournaledState" where
  "JournaledState_new s = \<lparr>js_state = s, js_journal = [], js_checkpoints = []\<rparr>"

definition checkpoint :: "JournaledState \<Rightarrow> JournaledState \<times> nat" where
  "checkpoint j =
     (j\<lparr>js_checkpoints := js_checkpoints j @ [length (js_journal j)]\<rparr>, length (js_checkpoints j))"

definition commit_checkpoint :: "nat \<Rightarrow> JournaledState \<Rightarrow> JournaledState" where
  "commit_checkpoint i j =
     (if i < length (js_checkpoints j) then j\<lparr>js_checkpoints := take i (js_checkpoints j)\<rparr> else j)"

fun revert_entry :: "JournalEntry \<Rightarrow> StateDb \<Rightarrow> StateDb" where
  "revert_entry (AccountCreated a) s = delete_account a s"
| "revert_entry (AccountDestroyed a acc) s = set_account a acc s"
| "revert_entry (BalanceChanged a prev) s = set_balance a prev s"
| "revert_entry (NonceChanged a prev) s = set_account a ((get_account s a)\<lparr>ac_nonce := prev\<rparr>) s"
| "revert_entry (CodeSet a prev) s = set_account a ((get_account s a)\<lparr>ac_code_hash := prev\<rparr>) s"
| "revert_entry (StorageChanged a k prev) s = set_storage a k prev s"

function revert_loop :: "nat \<Rightarrow> JournaledState \<Rightarrow> JournaledState" where
  "revert_loop journal_len j =
     (if length (js_journal j) > journal_len
      then revert_loop journal_len
             (j\<lparr>js_state := revert_entry (last (js_journal j)) (js_state j),
                js_journal := butlast (js_journal j)\<rparr>)
      else j)"
  by pat_completeness auto
termination by (relation "measure (\<lambda>(n, j). length (js_journal j))") auto

declare revert_loop.simps [simp del]

definition revert_checkpoint :: "nat \<Rightarrow> JournaledState \<Rightarrow> JournaledState" where
  "revert_checkpoint i j =
     (if i < length (js_checkpoints j)
      then (revert_loop (js_checkpoints j ! i) j)\<lparr>js_checkpoints := take i (js_checkpoints j)\<rparr>
      else j)"

definition journal_set_balance :: "Address \<Rightarrow> U256 \<Rightarrow> JournaledState \<Rightarrow> JournaledState" where
  "journal_set_balance a b j =
     j\<lparr>js_journal := js_journal j @ [BalanceChanged a (get_balance (js_state j) a)],
       js_state := set_balance a b (js_state j)\<rparr>"

definition journal_set_storage :: "Address \<Rightarrow> U256 \<Rightarrow> U256 \<Rightarrow> JournaledState \<Rightarrow> JournaledState" where
  "journal_set_storage a k v j =
     j\<lparr>js_journal := js_journal j @ [StorageChanged a k (get_storage (js_state j) a k)],
       js_state := set_storage a k v (js_state j)\<rparr>"

section \<open>Observable state\<close>

lemma get_account_simps [simp]:
  "get_account (set_account a x s) b = (if b = a then x else get_account s b)"
  "get_account (set_balance a v s) b =
     (if b = a then (get_account s a)\<lparr>ac_balance := v\<rparr> else get_account s b)"
  "get_account (set_storage a k w s) = get_account s"
  "get_account (delete_account a s) b = (if b = a then Account_EMPTY else get_account s b)"
  by (auto simp: get_account_def set_account_def set_balance_def set_storage_def delete_account_def Let_def)

lemma get_storage_simps [simp]:
  "get_storage (set_account a x s) = get_storage s"
  "get_storage (set_balance a v s) = get_storage s"
  "get_storage (set_storage a k w s) b j = (if b = a \<and> j = k then w else get_storage s b j)"
  "get_storage (delete_account a s) b j = (if b = a then ZERO else get_storage s b j)"
  by (auto simp: get_storage_def set_account_def set_balance_def set_storage_def delete_account_def Let_def
      fun_eq_iff split: option.split)

interpretation evm_store: account_store get_account get_storage set_account set_storage delete_account Account_EMPTY
  by unfold_locales (simp_all add: fun_eq_iff)

definition evm_view :: "StateDb \<Rightarrow> Account store_view" where
  "evm_view s = (get_account s, get_storage s)"

fun undo_view :: "JournalEntry \<Rightarrow> Account store_view \<Rightarrow> Account store_view" where
  "undo_view (AccountCreated a) = view_drop Account_EMPTY a"
| "undo_view (AccountDestroyed a x) = view_acc a (\<lambda>_. x)"
| "undo_view (BalanceChanged a b) = view_acc a (\<lambda>x. x\<lparr>ac_balance := b\<rparr>)"
| "undo_view (NonceChanged a n) = view_acc a (\<lambda>x. x\<lparr>ac_nonce := n\<rparr>)"
| "undo_view (CodeSet a h) = view_acc a (\<lambda>x. x\<lparr>ac_code_hash := h\<rparr>)"
| "undo_view (StorageChanged a k v) = view_slot a k v"

lemma evm_view_simps:
  "evm_view (set_account a (f (get_account s a)) s) = view_acc a f (evm_view s)"
  "evm_view (set_balance a b s) = view_acc a (\<lambda>x. x\<lparr>ac_balance := b\<rparr>) (evm_view s)"
  "evm_view (set_storage a k v s) = view_slot a k v (evm_view s)"
  "evm_view (delete_account a s) = view_drop Account_EMPTY a (evm_view s)"
  unfolding evm_view_def set_balance_def
  by (rule evm_store.view_simps)+

interpretation journal_log: undo_log evm_view revert_entry undo_view
proof
  fix e s
  show "evm_view (revert_entry e s) = undo_view e (evm_view s)"
    using evm_view_simps(1) [of _ "\<lambda>_. _" s]
    by (cases e) (simp_all add: evm_view_simps)
qed

section \<open>The journal as a stack of saved states\<close>

text \<open>
  The specification keeps the observable state and a stack of copies of it: a checkpoint pushes the
  current state, a revert returns to a saved one and drops it with everything above it, a commit
  only drops.
\<close>

type_synonym saved_states = "Account store_view \<times> Account store_view list"

datatype journal_op =
    OpCheckpoint
  | OpCommit nat
  | OpRevert nat
  | OpSetBalance Address U256
  | OpSetStorage Address U256 U256

fun spec_step :: "journal_op \<Rightarrow> saved_states \<Rightarrow> saved_states" where
  "spec_step OpCheckpoint (v, saved) = (v, saved @ [v])"
| "spec_step (OpCommit i) (v, saved) = (v, if i < length saved then take i saved else saved)"
| "spec_step (OpRevert i) (v, saved) =
     (if i < length saved then (saved ! i, take i saved) else (v, saved))"
| "spec_step (OpSetBalance a b) (v, saved) = (view_acc a (\<lambda>x. x\<lparr>ac_balance := b\<rparr>) v, saved)"
| "spec_step (OpSetStorage a k w) (v, saved) = (view_slot a k w v, saved)"

fun journal_step :: "journal_op \<Rightarrow> JournaledState \<Rightarrow> JournaledState" where
  "journal_step OpCheckpoint j = fst (checkpoint j)"
| "journal_step (OpCommit i) j = commit_checkpoint i j"
| "journal_step (OpRevert i) j = revert_checkpoint i j"
| "journal_step (OpSetBalance a b) j = journal_set_balance a b j"
| "journal_step (OpSetStorage a k w) j = journal_set_storage a k w j"

definition undone :: "JournaledState \<Rightarrow> nat \<Rightarrow> Account store_view" where
  "undone j n = fold undo_view (rev (drop n (js_journal j))) (evm_view (js_state j))"

definition journal_abs :: "JournaledState \<Rightarrow> saved_states" where
  "journal_abs j = (evm_view (js_state j), map (undone j) (js_checkpoints j))"

definition journal_ok :: "JournaledState \<Rightarrow> bool" where
  "journal_ok j \<longleftrightarrow> sorted (js_checkpoints j) \<and> (\<forall>n \<in> set (js_checkpoints j). n \<le> length (js_journal j))"

lemma revert_loop_eq:
  "revert_loop n j =
     j\<lparr>js_state := fold revert_entry (rev (drop n (js_journal j))) (js_state j),
       js_journal := take n (js_journal j)\<rparr>"
proof (induction n j rule: revert_loop.induct)
  case (1 n j)
  show ?case
  proof (cases "length (js_journal j) > n")
    case True
    then obtain es e where es: "js_journal j = es @ [e]" by (cases "js_journal j" rule: rev_cases) auto
    with True have "drop n (js_journal j) = drop n es @ [e]" "take n (js_journal j) = take n es" by auto
    with 1 True es show ?thesis by (subst revert_loop.simps) simp
  next
    case False
    then show ?thesis by (subst revert_loop.simps) simp
  qed
qed

lemma undone_grow:
  assumes "n \<le> length (js_journal j)" and "js_journal j' = js_journal j @ [e]"
    and "undo_view e (evm_view (js_state j')) = evm_view (js_state j)"
  shows "undone j' n = undone j n"
  using assms by (simp add: undone_def)

lemma undone_revert:
  assumes "m \<le> n" "n \<le> length (js_journal j)"
  shows "undone (revert_loop n j) m = undone j m"
proof -
  have "drop m (js_journal j) = drop m (take n (js_journal j)) @ drop n (js_journal j)"
    using assms by (metis append_take_drop_id drop_append drop_drop le_add_diff_inverse2
        length_take min.absorb2 diff_is_0_eq drop_0)
  then show ?thesis
    by (simp add: undone_def revert_loop_eq journal_log.view_undo_all)
qed

lemma journal_grow:
  assumes "journal_ok j" and "js_journal j' = js_journal j @ [e]"
    and "js_checkpoints j' = js_checkpoints j"
    and "undo_view e (evm_view (js_state j')) = evm_view (js_state j)"
  shows "journal_ok j' \<and> journal_abs j' = (evm_view (js_state j'), snd (journal_abs j))"
  using assms undone_grow [OF _ assms(2,4)]
  by (auto simp: journal_ok_def journal_abs_def intro: le_SucI)

lemma journal_revert:
  assumes ok: "journal_ok j" and i: "i < length (js_checkpoints j)"
  shows "journal_ok (revert_checkpoint i j)
    \<and> journal_abs (revert_checkpoint i j) = spec_step (OpRevert i) (journal_abs j)"
proof -
  let ?c = "js_checkpoints j" and ?n = "js_checkpoints j ! i"
  have n: "?n \<le> length (js_journal j)" using ok i by (simp add: journal_ok_def)
  have low: "m \<le> ?n" if "m \<in> set (take i ?c)" for m
  proof -
    obtain k where "k < i" "m = ?c ! k" using \<open>m \<in> set (take i ?c)\<close> i by (auto simp: in_set_conv_nth)
    then show ?thesis using ok i by (auto simp: journal_ok_def sorted_iff_nth_mono)
  qed
  have j': "revert_checkpoint i j = (revert_loop ?n j)\<lparr>js_checkpoints := take i ?c\<rparr>"
    using i by (simp add: revert_checkpoint_def)
  have "evm_view (js_state (revert_loop ?n j)) = undone j ?n"
    by (simp add: revert_loop_eq undone_def journal_log.view_undo_all)
  moreover have "map (undone (revert_checkpoint i j)) (take i ?c) = map (undone j) (take i ?c)"
    using undone_revert [OF low n] by (simp add: j' undone_def)
  moreover have "journal_ok (revert_checkpoint i j)"
    using ok low by (simp add: j' journal_ok_def revert_loop_eq sorted_wrt_take n)
  ultimately show ?thesis
    using i by (simp add: journal_abs_def j' take_map)
qed

lemma journal_step_refines:
  assumes "journal_ok j"
  shows "journal_ok (journal_step p j) \<and> journal_abs (journal_step p j) = spec_step p (journal_abs j)"
proof (cases p)
  case OpCheckpoint
  have "undone (fst (checkpoint j)) = undone j" by (simp add: undone_def checkpoint_def fun_eq_iff)
  with assms OpCheckpoint show ?thesis
    by (auto simp: checkpoint_def journal_ok_def journal_abs_def undone_def sorted_append)
next
  case (OpCommit i)
  have "undone (commit_checkpoint i j) = undone j"
    by (simp add: undone_def commit_checkpoint_def fun_eq_iff)
  with assms OpCommit show ?thesis
    by (auto simp: commit_checkpoint_def journal_ok_def journal_abs_def take_map undone_def
        sorted_wrt_take dest: in_set_takeD)
next
  case (OpRevert i)
  then show ?thesis
    using journal_revert [OF assms] assms
    by (cases "i < length (js_checkpoints j)") (auto simp: revert_checkpoint_def journal_abs_def)
next
  case (OpSetBalance a b)
  have restore: "view_acc a (\<lambda>x. x\<lparr>ac_balance := get_balance s a\<rparr>)
      (view_acc a (\<lambda>x. x\<lparr>ac_balance := b\<rparr>) (evm_view s)) = evm_view s" for s
    by (rule view_acc_restore) (simp add: evm_view_def get_balance_def)
  have "journal_ok (journal_set_balance a b j) \<and> journal_abs (journal_set_balance a b j)
      = (evm_view (js_state (journal_set_balance a b j)), snd (journal_abs j))"
    by (rule journal_grow [OF assms, where e = "BalanceChanged a (get_balance (js_state j) a)"])
      (simp_all add: journal_set_balance_def evm_view_simps restore)
  with OpSetBalance show ?thesis
    by (simp add: journal_set_balance_def evm_view_simps journal_abs_def)
next
  case (OpSetStorage a k w)
  have restore: "view_slot a k (get_storage s a k) (view_slot a k w (evm_view s)) = evm_view s" for s
    using view_slot_restore [of a k "evm_view s" w] by (simp add: evm_view_def)
  have "journal_ok (journal_set_storage a k w j) \<and> journal_abs (journal_set_storage a k w j)
      = (evm_view (js_state (journal_set_storage a k w j)), snd (journal_abs j))"
    by (rule journal_grow [OF assms, where e = "StorageChanged a k (get_storage (js_state j) a k)"])
      (simp_all add: journal_set_storage_def evm_view_simps restore)
  with OpSetStorage show ?thesis
    by (simp add: journal_set_storage_def evm_view_simps journal_abs_def)
qed

lemma rebuild_hmap: "wf_hmap es \<Longrightarrow> fold (\<lambda>(a, x) m. hput a x m) es [] = es"
proof (induction es rule: rev_induct)
  case (snoc e es)
  obtain a x where e: "e = (a, x)" by fastforce
  have "wf_hmap es" and "a \<notin> fst ` set es"
    using snoc.prems e by (auto simp: wf_hmap_def)
  then have "AList.update a x es = es @ [(a, x)]" by (induction es) (auto simp: wf_hmap_def)
  with snoc.IH \<open>wf_hmap es\<close> e show ?case by (simp add: hput_def)
qed simp

section \<open>Properties\<close>

text \<open>
  (C8) The journal implements a stack of saved states: whatever checkpoints, commits, reverts and
  journaled writes are made and in whatever order, the accounts and storage that can be read, now and
  after any later revert, are those of a machine that copies the whole state at each checkpoint.
\<close>

theorem journal_refines_saved_states:
  "journal_abs (fold journal_step ops (JournaledState_new s)) = fold spec_step ops (evm_view s, [])"
proof -
  have "journal_ok j \<Longrightarrow> journal_abs (fold journal_step ops j) = fold spec_step ops (journal_abs j)" for j
    by (induction ops arbitrary: j) (simp_all add: journal_step_refines)
  then show ?thesis by (simp add: JournaledState_new_def journal_abs_def journal_ok_def)
qed

text \<open>
  A revert restores what can be read but not the set of accounts: an account that did not exist
  before a journaled balance write exists, empty, after the revert of that write, and it is part of
  the bytes hashed into the next state root.
\<close>

theorem revert_leaves_empty_account:
  assumes "\<not> account_exists s a" and "checkpoint (JournaledState_new s) = (j, i)"
    and "s' = js_state (revert_checkpoint i (journal_set_balance a b j))"
  shows "account_exists s' a \<and> get_account s' a = Account_EMPTY
    \<and> commit_preimage (sd_accounts s') = commit_preimage (sd_accounts s) @ commit_preimage [(a, Account_EMPTY)]"
proof -
  have none: "hget (sd_accounts s) a = None" using assms(1) by (simp add: account_exists_def)
  have fresh: "AList.update a x m = m @ [(a, x)]" if "hget m a = None" for m :: "(Address, Account) hmap" and x
    using that by (induction m) auto
  have again: "AList.update a y (m @ [(a, x)]) = m @ [(a, y)]"
    if "hget m a = None" for m :: "(Address, Account) hmap" and x y
    using that by (induction m) auto
  have "j = \<lparr>js_state = s, js_journal = [], js_checkpoints = [0]\<rparr>" "i = 0"
    using assms(2) by (auto simp: checkpoint_def JournaledState_new_def)
  then have "sd_accounts s' = sd_accounts s @ [(a, Account_EMPTY)]"
    using assms(3) none
    by (simp add: revert_checkpoint_def revert_loop_eq
        journal_set_balance_def set_balance_def get_balance_def get_account_def set_account_def hput_def
        fresh again Account_EMPTY_def map_add_def)
  with none show ?thesis
    by (auto simp: account_exists_def get_account_def commit_preimage_def map_add_def)
qed

theorem revert_leaves_empty_account_witness:
  "account_exists (js_state (revert_checkpoint 0 (journal_set_balance 5 ONE
     (fst (checkpoint (JournaledState_new StateDb_new)))))) 5 \<and> \<not> account_exists StateDb_new 5"
proof -
  have "\<not> account_exists StateDb_new 5" by (simp add: account_exists_def StateDb_new_def)
  moreover have "checkpoint (JournaledState_new StateDb_new)
      = (fst (checkpoint (JournaledState_new StateDb_new)), 0)"
    by (simp add: checkpoint_def JournaledState_new_def)
  ultimately show ?thesis using revert_leaves_empty_account [OF _ _ refl, of StateDb_new 5] by blast
qed

text \<open>
  Rolling back to a snapshot restores the accounts and storage of the snapshot exactly, whatever
  happened in between; code stored meanwhile is kept.
\<close>

theorem rollback_restores:
  assumes "wf_hmap (sd_accounts s)" and "wf_hmap (sd_storage s)"
  shows "sd_accounts (rollback (snapshot s) t) = sd_accounts s
    \<and> sd_storage (rollback (snapshot s) t) = sd_storage s \<and> sd_code (rollback (snapshot s) t) = sd_code t"
  using assms by (simp add: rollback_def snapshot_def rebuild_hmap)

theorem rollback_restores_witness:
  "sd_accounts (rollback (snapshot (set_balance 5 ONE StateDb_new)) StateDb_new)
    = sd_accounts (set_balance 5 ONE StateDb_new)"
  using rollback_restores [of "set_balance 5 ONE StateDb_new" StateDb_new]
  by (simp add: set_balance_def set_account_def StateDb_new_def hput_def wf_hmap_def)

end
