(* ===== verification/Evm_Gas.thy ===== *)
theory Evm_Gas
  imports U256
begin

text \<open>
  Gas accounting and the fee market, \<^verbatim>\<open>src/crates/nexus-evm/src/gas.rs\<close>: the gas schedule, intrinsic
  and memory costs, the EIP-1559 base fee and effective price, the gas meter and the cost of storage
  writes. Signed 64-bit integers are words read with \<open>sint\<close>.
\<close>

type_synonym i64 = "64 word"

section \<open>Schedule\<close>

record GasSchedule =
  tx_base :: u64
  tx_data_zero :: u64
  tx_data_nonzero :: u64
  tx_create :: u64
  access_list_address :: u64
  access_list_storage_key :: u64
  gs_base :: u64
  verylow :: u64
  low :: u64
  mid :: u64
  high :: u64
  jumpdest :: u64
  gs_memory :: u64
  gs_copy :: u64
  sload_cold :: u64
  sload_warm :: u64
  sstore_set :: u64
  sstore_reset :: u64
  sstore_clear_refund :: u64
  cold_account_access :: u64
  warm_account_access :: u64
  cold_sload :: u64
  gs_call :: u64
  call_value_transfer :: u64
  call_new_account :: u64
  selfdestruct :: u64
  gs_ecrecover :: u64
  sha256_base :: u64
  sha256_word :: u64
  ripemd160_base :: u64
  ripemd160_word :: u64
  identity_base :: u64
  identity_word :: u64
  modexp_gquad_divisor :: u64
  bn_add :: u64
  bn_mul :: u64
  bn_pairing_base :: u64
  bn_pairing_point :: u64
  blake2f_round :: u64
  zkp_verify_base :: u64
  zkp_verify_per_input :: u64
  iso20022_parse_base :: u64
  iso20022_parse_per_byte :: u64

definition berlin :: GasSchedule where
  "berlin = \<lparr>tx_base = 21000, tx_data_zero = 4, tx_data_nonzero = 16, tx_create = 32000,
     access_list_address = 2400, access_list_storage_key = 1900,
     gs_base = 2, verylow = 3, low = 5, mid = 8, high = 10, jumpdest = 1,
     gs_memory = 3, gs_copy = 3,
     sload_cold = 2100, sload_warm = 100, sstore_set = 20000, sstore_reset = 2900,
     sstore_clear_refund = 15000,
     cold_account_access = 2600, warm_account_access = 100, cold_sload = 2100,
     gs_call = 100, call_value_transfer = 9000, call_new_account = 25000, selfdestruct = 5000,
     gs_ecrecover = 3000, sha256_base = 60, sha256_word = 12, ripemd160_base = 600,
     ripemd160_word = 120, identity_base = 15, identity_word = 3, modexp_gquad_divisor = 3,
     bn_add = 150, bn_mul = 6000, bn_pairing_base = 45000, bn_pairing_point = 34000,
     blake2f_round = 1, zkp_verify_base = 100000, zkp_verify_per_input = 5000,
     iso20022_parse_base = 5000, iso20022_parse_per_byte = 10\<rparr>"

definition intrinsic_gas :: "GasSchedule \<Rightarrow> u8 list \<Rightarrow> bool \<Rightarrow> nat \<Rightarrow> u64" where
  "intrinsic_gas sch data is_create access_list_len =
     (let gas = tx_base sch;
          gas = (if is_create then gas + tx_create sch else gas);
          gas = fold (\<lambda>byte gas. if byte = 0 then gas + tx_data_zero sch else gas + tx_data_nonzero sch)
                  data gas
      in gas + of_nat access_list_len * access_list_address sch)"

definition memory_cost :: "GasSchedule \<Rightarrow> u64 \<Rightarrow> u64" where
  "memory_cost sch sz =
     (let words = (sz + 31) div 32 in words * gs_memory sch + (words * words) div 512)"

definition memory_expansion_cost :: "GasSchedule \<Rightarrow> u64 \<Rightarrow> u64 \<Rightarrow> u64" where
  "memory_expansion_cost sch current_size new_size =
     (if new_size \<le> current_size then 0 else memory_cost sch new_size - memory_cost sch current_size)"

section \<open>Fee market\<close>

record FeeMarket =
  fm_base_fee_per_gas :: U256
  fm_max_change_denominator :: u64
  fm_target_gas_per_block :: u64
  fm_gas_limit :: u64
  fm_min_base_fee :: U256
  fm_max_base_fee :: "U256 option"

definition FeeMarket_default :: FeeMarket where
  "FeeMarket_default = \<lparr>fm_base_fee_per_gas = from_u64 1000000000, fm_max_change_denominator = 8,
     fm_target_gas_per_block = 15000000, fm_gas_limit = 30000000, fm_min_base_fee = from_u64 1000000,
     fm_max_base_fee = None\<rparr>"

definition fee_delta :: "FeeMarket \<Rightarrow> u64 \<Rightarrow> U256 run" where
  "fee_delta m gas_delta =
     run_bind (u256_div (u256_mul (fm_base_fee_per_gas m) (from_u64 gas_delta))
                 (from_u64 (fm_target_gas_per_block m)))
       (\<lambda>q. u256_div q (from_u64 (fm_max_change_denominator m)))"

definition next_base_fee :: "FeeMarket \<Rightarrow> u64 \<Rightarrow> U256 run" where
  "next_base_fee m gas_used =
     (let target = fm_target_gas_per_block m; base = fm_base_fee_per_gas m
      in if gas_used = target then Ret base
         else run_bind
           (if gas_used > target
            then run_bind (fee_delta m (gas_used - target)) (\<lambda>d. u256_add base (max d (from_u64 1)))
            else run_bind (fee_delta m (target - gas_used))
                   (\<lambda>d. Ret (case checked_sub base d of None \<Rightarrow> ZERO | Some b \<Rightarrow> b)))
           (\<lambda>delta. let result = max delta (fm_min_base_fee m)
                    in Ret (case fm_max_base_fee m of None \<Rightarrow> result | Some mx \<Rightarrow> min result mx)))"

definition effective_gas_price :: "FeeMarket \<Rightarrow> U256 \<Rightarrow> U256 \<Rightarrow> U256 run" where
  "effective_gas_price m max_fee_per_gas max_priority_fee =
     run_bind (u256_sub max_fee_per_gas (fm_base_fee_per_gas m))
       (\<lambda>room. u256_add (fm_base_fee_per_gas m) (min max_priority_fee room))"

definition validate_fee :: "FeeMarket \<Rightarrow> U256 \<Rightarrow> U256 \<Rightarrow> bool" where
  "validate_fee m max_fee_per_gas max_priority_fee \<longleftrightarrow>
     max_fee_per_gas \<ge> fm_base_fee_per_gas m \<and> max_priority_fee \<le> max_fee_per_gas"

section \<open>Gas meter\<close>

record GasMeter =
  gm_gas_limit :: u64
  gm_gas_used :: u64
  gm_gas_refunded :: u64
  gm_schedule :: GasSchedule

definition GasMeter_new :: "u64 \<Rightarrow> GasSchedule \<Rightarrow> GasMeter" where
  "GasMeter_new limit sch =
     \<lparr>gm_gas_limit = limit, gm_gas_used = 0, gm_gas_refunded = 0, gm_schedule = sch\<rparr>"

definition consume :: "u64 \<Rightarrow> GasMeter \<Rightarrow> GasMeter \<times> (unit + unit)" where
  "consume amount m =
     (let new_used = saturating_add (gm_gas_used m) amount
      in if new_used > gm_gas_limit m then (m, Inl ()) else (m\<lparr>gm_gas_used := new_used\<rparr>, Inr ()))"

definition refund :: "u64 \<Rightarrow> GasMeter \<Rightarrow> GasMeter" where
  "refund amount m = m\<lparr>gm_gas_refunded := saturating_add (gm_gas_refunded m) amount\<rparr>"

definition remaining :: "GasMeter \<Rightarrow> u64" where
  "remaining m = saturating_sub (gm_gas_limit m) (gm_gas_used m)"

definition refunded :: "GasMeter \<Rightarrow> u64" where
  "refunded m = (let max_refund = gm_gas_used m div 5 in min (gm_gas_refunded m) max_refund)"

definition final_used :: "GasMeter \<Rightarrow> u64" where
  "final_used m = saturating_sub (gm_gas_used m) (refunded m)"

definition sstore_gas :: "GasMeter \<Rightarrow> U256 \<Rightarrow> U256 \<Rightarrow> U256 \<Rightarrow> bool \<Rightarrow> u64 \<times> i64" where
  "sstore_gas m original current new is_cold =
     (let sch = gm_schedule m;
          gas = (if is_cold then cold_sload sch else 0)
      in if current = new then (gas + sload_warm sch, 0)
         else if original = current
         then if original = ZERO then (gas + sstore_set sch, 0)
              else if new = ZERO then (gas + sstore_reset sch, sstore_clear_refund sch)
              else (gas + sstore_reset sch, 0)
         else
           let gas = gas + sload_warm sch;
               refund = (if original \<noteq> ZERO
                         then if current = ZERO then 0 - sstore_clear_refund sch
                              else if new = ZERO then sstore_clear_refund sch else 0
                         else 0);
               refund = (if original = new
                         then if original = ZERO then refund + (sstore_set sch - sload_warm sch)
                              else refund + (sstore_reset sch - sload_warm sch)
                         else refund)
           in (gas, refund))"

section \<open>Lemmas\<close>

lemma from_u64_eq_ZERO [simp]: "from_u64 v = ZERO \<longleftrightarrow> v = 0"
  by (simp add: from_u64_def ZERO_def)

lemma fee_delta_val:
  assumes "fm_target_gas_per_block m \<noteq> 0" and "fm_max_change_denominator m \<noteq> 0"
    and "u256_val (fm_base_fee_per_gas m) < 2 ^ 191"
  shows "\<exists>d. fee_delta m g = Ret d \<and> u256_val d =
    u256_val (fm_base_fee_per_gas m) * unat g div unat (fm_target_gas_per_block m)
      div unat (fm_max_change_denominator m) \<and> u256_val d < 2 ^ 255"
proof -
  let ?b = "fm_base_fee_per_gas m" and ?t = "fm_target_gas_per_block m" and ?n = "fm_max_change_denominator m"
  have "u256_val ?b * unat g < 2 ^ 191 * 2 ^ 64"
    using assms(3) unat_lt2p [of g] by (intro mult_strict_mono) simp_all
  then have small: "u256_val ?b * unat g < 2 ^ 255" by simp
  then have mul: "u256_val (u256_mul ?b (from_u64 g)) = u256_val ?b * unat g"
    by (simp add: u256_val_mul)
  obtain q where q: "u256_div (u256_mul ?b (from_u64 g)) (from_u64 ?t) = Ret q"
    "u256_val q = u256_val ?b * unat g div unat ?t"
    using u256_div_val [of "from_u64 ?t" "u256_mul ?b (from_u64 g)"] assms(1) mul by auto
  obtain d where d: "u256_div q (from_u64 ?n) = Ret d" "u256_val d = u256_val q div unat ?n"
    using u256_div_val [of "from_u64 ?n" q] assms(2) by auto
  have "u256_val d \<le> u256_val ?b * unat g"
    unfolding d(2) q(2) by (rule order_trans [OF div_le_dividend div_le_dividend])
  with q d small show ?thesis by (auto simp: fee_delta_def)
qed

fun clamp :: "nat \<Rightarrow> nat option \<Rightarrow> nat \<Rightarrow> nat" where
  "clamp lo None x = max x lo"
| "clamp lo (Some hi) x = min (max x lo) hi"

definition spec_base_fee :: "FeeMarket \<Rightarrow> nat \<Rightarrow> nat" where
  "spec_base_fee m g =
     (let b = u256_val (fm_base_fee_per_gas m); t = unat (fm_target_gas_per_block m);
          n = unat (fm_max_change_denominator m);
          bound = clamp (u256_val (fm_min_base_fee m)) (map_option u256_val (fm_max_base_fee m))
      in if g = t then b
         else if g > t then bound (b + max (b * (g - t) div t div n) 1)
         else bound (b - b * (t - g) div t div n))"

lemma clamp_val:
  "u256_val (case mx of None \<Rightarrow> max x lo | Some hi \<Rightarrow> min (max x lo) hi)
    = clamp (u256_val lo) (map_option u256_val mx) (u256_val x)"
  by (cases mx) (simp_all add: u256_val_max u256_val_min)

lemma next_base_fee_val:
  assumes "fm_target_gas_per_block m \<noteq> 0" and "fm_max_change_denominator m \<noteq> 0"
    and "u256_val (fm_base_fee_per_gas m) < 2 ^ 191"
  shows "\<exists>r. next_base_fee m g = Ret r \<and> u256_val r = spec_base_fee m (unat g)"
proof -
  let ?b = "fm_base_fee_per_gas m" and ?t = "fm_target_gas_per_block m"
  consider "g = ?t" | "g > ?t" | "g < ?t" by (rule linorder_cases)
  then show ?thesis
  proof cases
    case 1
    then show ?thesis by (simp add: next_base_fee_def spec_base_fee_def)
  next
    case 2
    have gt: "unat (g - ?t) = unat g - unat ?t" using 2 by (simp add: unat_sub less_imp_le)
    obtain d where d: "fee_delta m (g - ?t) = Ret d" "u256_val d < 2 ^ 255"
      "u256_val d = u256_val ?b * (unat g - unat ?t) div unat ?t div unat (fm_max_change_denominator m)"
      using fee_delta_val [OF assms, of "g - ?t"] gt by auto
    have "u256_val ?b + u256_val (max d (from_u64 1)) < 2 ^ 256"
      using assms(3) d(2) by (auto simp: u256_val_max max_def)
    then obtain r where "u256_add ?b (max d (from_u64 1)) = Ret r"
      "u256_val r = u256_val ?b + max (u256_val d) 1"
      using u256_add_val [of ?b "max d (from_u64 1)"] by (auto simp: u256_val_max)
    moreover have "g \<noteq> ?t" "unat g \<noteq> unat ?t" using 2 by (auto simp: word_less_nat_alt)
    ultimately show ?thesis
      using 2 d by (simp add: next_base_fee_def spec_base_fee_def clamp_val word_less_nat_alt Let_def)
  next
    case 3
    have gt: "unat (?t - g) = unat ?t - unat g" using 3 by (simp add: unat_sub less_imp_le)
    obtain d where d: "fee_delta m (?t - g) = Ret d"
      "u256_val d = u256_val ?b * (unat ?t - unat g) div unat ?t div unat (fm_max_change_denominator m)"
      using fee_delta_val [OF assms, of "?t - g"] gt by auto
    have "u256_val (case checked_sub ?b d of None \<Rightarrow> ZERO | Some x \<Rightarrow> x) = u256_val ?b - u256_val d"
      using checked_sub_None_iff [of ?b d] checked_sub_iff [of ?b d] by (auto split: option.split)
    with 3 d show ?thesis
      by (simp add: next_base_fee_def spec_base_fee_def clamp_val word_less_nat_alt Let_def not_less less_imp_le
          order.strict_implies_not_eq)
  qed
qed

section \<open>Properties\<close>

text \<open>
  (C29) The base fee of the next block is the exact integer formula: the current fee moved by
  \<open>fee * distance / target / denominator\<close>, rounded down, by at least one when the block was above the
  target, and clamped to the configured bounds. With at most twice the target used, one step moves
  the fee by at most its share \<open>1 / denominator\<close> (or by one). The call never panics for fees below
  \<open>2 ^ 191\<close> and a positive target and denominator.
\<close>

theorem next_base_fee_exact:
  assumes "fm_target_gas_per_block m \<noteq> 0" and "fm_max_change_denominator m \<noteq> 0"
    and "u256_val (fm_base_fee_per_gas m) < 2 ^ 191"
  shows "\<exists>r. next_base_fee m g = Ret r \<and> u256_val r = spec_base_fee m (unat g)
    \<and> (unat g \<le> 2 * unat (fm_target_gas_per_block m) \<longrightarrow>
        u256_val (fm_base_fee_per_gas m) * (unat g - unat (fm_target_gas_per_block m))
          div unat (fm_target_gas_per_block m) div unat (fm_max_change_denominator m)
        \<le> u256_val (fm_base_fee_per_gas m) div unat (fm_max_change_denominator m))"
proof -
  let ?b = "u256_val (fm_base_fee_per_gas m)" and ?t = "unat (fm_target_gas_per_block m)"
  have t: "0 < ?t" using assms(1) by (simp add: unat_gt_0)
  have "?b * (unat g - ?t) div ?t \<le> ?b" if "unat g \<le> 2 * ?t"
  proof -
    have "?b * (unat g - ?t) div ?t \<le> ?b * ?t div ?t" using that by (intro div_le_mono mult_le_mono) auto
    then show ?thesis using t by simp
  qed
  then show ?thesis using next_base_fee_val [OF assms, of g] by (auto intro: div_le_mono)
qed

theorem next_base_fee_exact_witness:
  "\<exists>r. next_base_fee FeeMarket_default 30000000 = Ret r \<and> u256_val r = 1125000000"
  using next_base_fee_exact [of FeeMarket_default 30000000]
  by (simp add: FeeMarket_default_def spec_base_fee_def)

text \<open>
  The effective price of a fee-market transaction is the smaller of its maximum fee and the base
  fee plus its priority fee, and it is between base fee and maximum fee; a maximum fee below the base
  fee makes the computation panic.
\<close>

theorem effective_gas_price_exact:
  "if u256_val max_fee < u256_val (fm_base_fee_per_gas m)
   then effective_gas_price m max_fee prio = Panic \<and> validate_fee m max_fee prio = False
   else \<exists>p. effective_gas_price m max_fee prio = Ret p
      \<and> u256_val p = min (u256_val max_fee) (u256_val (fm_base_fee_per_gas m) + u256_val prio)
      \<and> fm_base_fee_per_gas m \<le> p \<and> p \<le> max_fee"
proof (cases "u256_val max_fee < u256_val (fm_base_fee_per_gas m)")
  case True
  then have "u256_sub max_fee (fm_base_fee_per_gas m) = Panic" by (simp add: u256_sub_Panic_iff)
  with True show ?thesis by (simp add: effective_gas_price_def validate_fee_def u256_le_iff)
next
  case False
  let ?b = "fm_base_fee_per_gas m"
  obtain room where room: "u256_sub max_fee ?b = Ret room" "u256_val room + u256_val ?b = u256_val max_fee"
    using False u256_sub_val [of ?b max_fee] by auto
  have "u256_val ?b + u256_val (min prio room) < 2 ^ 256"
    using room(2) u256_val_bound [of max_fee] by (simp add: u256_val_min)
  then obtain p where "u256_add ?b (min prio room) = Ret p"
    "u256_val p = u256_val ?b + min (u256_val prio) (u256_val room)"
    using u256_add_val [of ?b "min prio room"] by (auto simp: u256_val_min)
  with False room show ?thesis by (auto simp: effective_gas_price_def u256_le_iff)
qed

text \<open>The operations of the meter in any order.\<close>

datatype meter_op = Consume u64 | Refund u64

fun meter_step :: "meter_op \<Rightarrow> GasMeter \<Rightarrow> GasMeter" where
  "meter_step (Consume n) m = fst (consume n m)"
| "meter_step (Refund n) m = refund n m"

lemma consume_fits:
  assumes "gm_gas_limit m \<noteq> - 1"
  shows "consume n m =
    (if unat (gm_gas_used m) + unat n \<le> unat (gm_gas_limit m)
     then (m\<lparr>gm_gas_used := gm_gas_used m + n\<rparr>, Inr ()) else (m, Inl ()))"
proof -
  have lim: "unat (gm_gas_limit m) < 2 ^ 64 - 1"
    using assms unat_lt2p [of "gm_gas_limit m"] by (simp add: word_unat_eq_iff unsigned_minus_1_eq_mask mask_eq_exp_minus_1)
  have sat: "unat (saturating_add (gm_gas_used m) n) = min (2 ^ 64 - 1) (unat (gm_gas_used m) + unat n)"
    using unat_saturating_add [of "gm_gas_used m" n] by simp
  have eq: "saturating_add (gm_gas_used m) n = gm_gas_used m + n"
    if "unat (gm_gas_used m) + unat n \<le> unat (gm_gas_limit m)"
    using that lim by (simp add: word_unat_eq_iff sat unat_add_no_overflow)
  show ?thesis
    using lim sat eq by (auto simp: consume_def Let_def word_less_nat_alt)
qed

lemma meter_step_ok:
  "gm_gas_used m \<le> gm_gas_limit m \<Longrightarrow>
     gm_gas_used (meter_step p m) \<le> gm_gas_limit (meter_step p m)
     \<and> gm_gas_limit (meter_step p m) = gm_gas_limit m"
  by (cases p) (auto simp: consume_def refund_def Let_def not_less)

lemma meter_run_ok:
  "gm_gas_used m \<le> gm_gas_limit m \<Longrightarrow>
     gm_gas_used (fold meter_step ops m) \<le> gm_gas_limit (fold meter_step ops m)
     \<and> gm_gas_limit (fold meter_step ops m) = gm_gas_limit m"
proof (induction ops arbitrary: m)
  case (Cons p ops)
  note step = meter_step_ok [OF Cons.prems, of p]
  from Cons.IH [OF step [THEN conjunct1]] step show ?case by auto
qed simp

text \<open>
  Whatever is consumed and refunded, in whatever order, the meter never counts more than the
  limit, what remains is exactly the rest, and the final bill is the gas used less a refund of at most
  a fifth of it. A charge succeeds exactly when it fits, except that at the largest limit of all the
  saturating sum hides an overflow.
\<close>

theorem gas_meter_sound:
  assumes "m = fold meter_step ops (GasMeter_new limit sch)"
  shows "unat (gm_gas_used m) + unat (remaining m) = unat limit
    \<and> unat (final_used m) + unat (refunded m) = unat (gm_gas_used m)
    \<and> 5 * unat (refunded m) \<le> unat (gm_gas_used m)
    \<and> (limit = - 1 \<or> consume n m =
        (if unat n \<le> unat (remaining m) then (m\<lparr>gm_gas_used := gm_gas_used m + n\<rparr>, Inr ())
         else (m, Inl ())))"
proof -
  have "gm_gas_used (GasMeter_new limit sch) \<le> gm_gas_limit (GasMeter_new limit sch)"
    by (simp add: GasMeter_new_def)
  from meter_run_ok [OF this, of ops] have ok: "unat (gm_gas_used m) \<le> unat limit" "gm_gas_limit m = limit"
    unfolding assms by (auto simp: GasMeter_new_def word_le_nat_alt)
  have r: "unat (refunded m) \<le> unat (gm_gas_used m) div 5"
    by (simp add: refunded_def Let_def min_def word_le_nat_alt unat_div)
  have "unat (gm_gas_used m) + unat (remaining m) = unat limit"
    using ok by (simp add: remaining_def unat_saturating_sub)
  moreover have "unat (final_used m) + unat (refunded m) = unat (gm_gas_used m)"
    using r by (simp add: final_used_def unat_saturating_sub)
  ultimately show ?thesis
    using r ok consume_fits [of m n] by (cases "limit = - 1") auto
qed

theorem gas_meter_sound_witness:
  "unat (remaining (fold meter_step [Consume 50000, Refund 10000, Consume 60000]
     (GasMeter_new 100000 berlin))) = 50000"
proof -
  let ?m = "fold meter_step [Consume 50000, Refund 10000, Consume 60000] (GasMeter_new 100000 berlin)"
  have "gm_gas_used ?m = 50000"
    by (simp add: consume_def refund_def GasMeter_new_def saturating_add_def)
  with gas_meter_sound [OF refl, of "[Consume 50000, Refund 10000, Consume 60000]" 100000 berlin]
  show ?thesis by simp
qed

text \<open>
  Undoing a storage write within a transaction costs two warm reads: for any original value and
  any other value written and then replaced by the original again, the gas of both writes less the
  refunds of both is 200 under the Berlin schedule, plus the cold surcharge of the first.
\<close>

theorem sstore_undo_costs_two_reads:
  assumes "gm_schedule m = berlin" and "v \<noteq> original"
    and "sstore_gas m original original v is_cold = (g1, r1)"
    and "sstore_gas m original v original False = (g2, r2)"
  shows "int (unat g1) + int (unat g2) - (sint r1 + sint r2) = 200 + (if is_cold then 2100 else 0)"
  using assms by (cases "original = ZERO"; cases "v = ZERO"; cases is_cold)
    (auto simp: sstore_gas_def Let_def berlin_def)

theorem sstore_undo_costs_two_reads_witness:
  "int (unat (fst (sstore_gas (GasMeter_new 0 berlin) ONE ONE ZERO False)))
     + int (unat (fst (sstore_gas (GasMeter_new 0 berlin) ONE ZERO ONE False)))
     - (sint (snd (sstore_gas (GasMeter_new 0 berlin) ONE ONE ZERO False))
        + sint (snd (sstore_gas (GasMeter_new 0 berlin) ONE ZERO ONE False))) = 200"
  using sstore_undo_costs_two_reads [of "GasMeter_new 0 berlin" ZERO ONE False]
  by (simp add: GasMeter_new_def ONE_def ZERO_def)

end
