(* ===== verification/Evm_Precompiles.thy ===== *)
theory Evm_Precompiles
  imports Evm_State Evm_Gas
begin

text \<open>
  The precompiled contracts, \<^verbatim>\<open>src/crates/nexus-evm/src/precompiles.rs\<close>. The hash functions SHA-256 and
  RIPEMD-160, big-integer exponentiation and the BN254 curve are third-party code: they are the fields
  of \<open>evm_lib\<close>. Everything else, BLAKE2b compression included, is modelled as written. Slices and
  indices out of range panic; lengths are 64-bit and wrap around.
\<close>

section \<open>Libraries\<close>

text \<open>
  Of \<^verbatim>\<open>num-bigint\<close>: whether the big-endian bytes are zero, and the big-endian bytes of a modular power.
  Of \<^verbatim>\<open>ark-bn254\<close>: field elements, curve points, their group operations and the pairing check.
\<close>

record ('fq, 'fr, 'g1, 'g2) evm_lib =
  el_sha256 :: "u8 list \<Rightarrow> u8 list"
  el_ripemd160 :: "u8 list \<Rightarrow> u8 list"
  el_big_is_zero :: "u8 list \<Rightarrow> bool"
  el_big_modpow :: "u8 list \<Rightarrow> u8 list \<Rightarrow> u8 list \<Rightarrow> u8 list"
  el_fq_of_be :: "u8 list \<Rightarrow> 'fq"
  el_fr_of_be :: "u8 list \<Rightarrow> 'fr"
  el_fq_is_zero :: "'fq \<Rightarrow> bool"
  el_fq_limbs :: "'fq \<Rightarrow> u64 list"
  el_g1_zero :: 'g1
  el_g1_new :: "'fq \<Rightarrow> 'fq \<Rightarrow> 'g1"
  el_g1_on_curve :: "'g1 \<Rightarrow> bool"
  el_g1_is_zero :: "'g1 \<Rightarrow> bool"
  el_g1_x :: "'g1 \<Rightarrow> 'fq"
  el_g1_y :: "'g1 \<Rightarrow> 'fq"
  el_g1_add :: "'g1 \<Rightarrow> 'g1 \<Rightarrow> 'g1"
  el_g1_mul :: "'g1 \<Rightarrow> 'fr \<Rightarrow> 'g1"
  el_g2_zero :: 'g2
  el_g2_new :: "'fq \<times> 'fq \<Rightarrow> 'fq \<times> 'fq \<Rightarrow> 'g2"
  el_g2_on_curve :: "'g2 \<Rightarrow> bool"
  el_g2_is_zero :: "'g2 \<Rightarrow> bool"
  el_pairing_is_one :: "'g1 list \<Rightarrow> 'g2 list \<Rightarrow> bool"

definition slice :: "'e list \<Rightarrow> nat \<Rightarrow> nat \<Rightarrow> 'e list run" where
  "slice xs a b = (if a \<le> b \<and> b \<le> length xs then Ret (take (b - a) (drop a xs)) else Panic)"

definition len64 :: "'e list \<Rightarrow> u64" where
  "len64 xs = of_nat (length xs)"

section \<open>Results and addresses\<close>

record PrecompileResult =
  pc_output :: "u8 list"
  pc_gas_used :: u64

type_synonym PrecompileFn = "u8 list \<Rightarrow> u64 \<Rightarrow> GasSchedule \<Rightarrow> PrecompileResult EvmResult run"

definition pc_ok :: "u8 list \<Rightarrow> u64 \<Rightarrow> PrecompileResult EvmResult run" where
  "pc_ok out gas = Ret (Inr \<lparr>pc_output = out, pc_gas_used = gas\<rparr>)"

definition pc_error :: "string \<Rightarrow> PrecompileResult EvmResult run" where
  "pc_error msg = Ret (Inl (PrecompileError msg))"

definition pc_out_of_gas :: "u64 \<Rightarrow> u64 \<Rightarrow> PrecompileResult EvmResult run" where
  "pc_out_of_gas used limit = Ret (Inl (OutOfGas used limit))"

definition pc_addr :: "u64 \<Rightarrow> Address" where
  "pc_addr n =
     Address_new ((replicate 20 0)[19 := ucast n, 18 := ucast (drop_bit 8 n)])"

definition PRECOMPILE_START :: u64 where "PRECOMPILE_START = 0x01"
definition PRECOMPILE_END :: u64 where "PRECOMPILE_END = 0x09"
definition NEXUS_PRECOMPILE_START :: u64 where "NEXUS_PRECOMPILE_START = 0x100"
definition NEXUS_PRECOMPILE_END :: u64 where "NEXUS_PRECOMPILE_END = 0x110"

definition evm_is_precompile :: "Address \<Rightarrow> bool" where
  "evm_is_precompile a =
     (let bytes = addr_bytes a
      in if list_ex (\<lambda>b. b \<noteq> 0) (take 18 bytes) then False
         else let val = (push_bit 8 (ucast (bytes ! 18)) OR ucast (bytes ! 19) :: u64)
              in PRECOMPILE_START \<le> val \<and> val \<le> PRECOMPILE_END
                 \<or> NEXUS_PRECOMPILE_START \<le> val \<and> val \<le> NEXUS_PRECOMPILE_END)"

section \<open>Standard precompiles\<close>

definition ecrecover_inner :: "crypto_lib \<Rightarrow> u8 list \<Rightarrow> GasSchedule \<Rightarrow> PrecompileResult EvmResult run" where
  "ecrecover_inner lib input sch =
     (let hash = take 32 input; v = input ! 63; r = take 32 (drop 64 input); s = take 32 (drop 96 input);
          failed = pc_ok (replicate 32 0) (gs_ecrecover sch)
      in if v \<noteq> 27 \<and> v \<noteq> 28 then failed
         else case sig_from_bytes lib (r @ s) of None \<Rightarrow> failed
         | Some sg \<Rightarrow>
           (case recover_prehash lib hash sg (if v = 27 then 0 else 1) of None \<Rightarrow> failed
            | Some vk \<Rightarrow>
              let pubkey_hash = keccak256 lib (drop 1 (vk_encode lib vk))
              in pc_ok (replicate 12 0 @ take 20 (drop 12 pubkey_hash)) (gs_ecrecover sch)))"

definition ecrecover :: "crypto_lib \<Rightarrow> PrecompileFn" where
  "ecrecover lib input gas_limit sch =
     (if gas_limit < gs_ecrecover sch then pc_out_of_gas (gs_ecrecover sch) gas_limit
      else if length input < 128 then ecrecover_inner lib (input @ replicate (128 - length input) 0) sch
      else ecrecover_inner lib input sch)"

definition words_of :: "u8 list \<Rightarrow> u64" where
  "words_of input = (len64 input + 31) div 32"

definition pc_sha256 :: "('fq, 'fr, 'g1, 'g2) evm_lib \<Rightarrow> PrecompileFn" where
  "pc_sha256 el input gas_limit sch =
     (let gas = sha256_base sch + words_of input * sha256_word sch
      in if gas_limit < gas then pc_out_of_gas gas gas_limit else pc_ok (el_sha256 el input) gas)"

definition pc_ripemd160 :: "('fq, 'fr, 'g1, 'g2) evm_lib \<Rightarrow> PrecompileFn" where
  "pc_ripemd160 el input gas_limit sch =
     (let gas = ripemd160_base sch + words_of input * ripemd160_word sch
      in if gas_limit < gas then pc_out_of_gas gas gas_limit
         else pc_ok (replicate 12 0 @ el_ripemd160 el input) gas)"

definition pc_identity :: PrecompileFn where
  "pc_identity input gas_limit sch =
     (let gas = identity_base sch + words_of input * identity_word sch
      in if gas_limit < gas then pc_out_of_gas gas gas_limit else pc_ok input gas)"

definition u256_from_be_bytes :: "u8 list \<Rightarrow> u64" where
  "u256_from_be_bytes bytes =
     fold (\<lambda>(i, b) r. r OR push_bit (i * 8) (ucast b)) (List.enumerate 0 (take 8 (rev bytes))) 0"

definition leading_zeros :: "u8 \<Rightarrow> nat" where
  "leading_zeros b = 8 - bit_len (unat b)"

fun highest_bit_index :: "u8 list \<Rightarrow> u64" where
  "highest_bit_index [] = 0"
| "highest_bit_index (b # bs) =
     (if b \<noteq> 0 then len64 bs * 8 + (7 - of_nat (leading_zeros b)) else highest_bit_index bs)"

definition modexp_gas :: "u64 \<Rightarrow> u64 \<Rightarrow> u64 \<Rightarrow> u8 list \<Rightarrow> u64 run" where
  "modexp_gas base_len exp_len mod_len input =
     (let max_len = max base_len mod_len;
          mult_complexity =
            (if max_len \<le> 64 then max_len * max_len
             else if max_len \<le> 1024 then saturating_sub (max_len * max_len div 4 + 96 * max_len) 3072
             else saturating_sub (max_len * max_len div 16 + 480 * max_len) 199680);
          exp_start = 96 + base_len;
          exp_view_len = min exp_len 32
      in run_bind
           (if exp_start + exp_view_len \<le> len64 input
            then slice input (unat exp_start) (unat (exp_start + exp_view_len))
            else if exp_start < len64 input then slice input (unat exp_start) (length input)
            else Ret [])
           (\<lambda>exp_view.
              let highest_bit = highest_bit_index exp_view;
                  adjusted = (if exp_len \<le> 32 then highest_bit else 8 * (exp_len - 32) + highest_bit)
              in Ret (max (mult_complexity * max adjusted 1 div 3) 200)))"

text \<open>A vector of more than \<open>isize::MAX\<close> bytes cannot be created.\<close>

definition zero_vec :: "u64 \<Rightarrow> u8 list run" where
  "zero_vec n = (if unat n < 2 ^ 63 then Ret (replicate (unat n) 0) else Panic)"

definition read_slice :: "u8 list \<Rightarrow> u64 \<Rightarrow> u64 \<Rightarrow> u8 list run" where
  "read_slice data offset len =
     run_bind (zero_vec len) (\<lambda>out.
       let available = saturating_sub (len64 data) offset; copy_len = min available len
       in run_bind (slice data (unat offset) (unat (offset + copy_len)))
            (\<lambda>src. Ret (src @ drop (unat copy_len) out)))"

definition modexp :: "('fq, 'fr, 'g1, 'g2) evm_lib \<Rightarrow> PrecompileFn" where
  "modexp el input gas_limit sch =
     (if length input < 96 then pc_ok [] 200
      else
        let base_len = u256_from_be_bytes (take 32 input);
            exp_len = u256_from_be_bytes (take 32 (drop 32 input));
            mod_len = u256_from_be_bytes (take 32 (drop 64 input))
        in run_bind (modexp_gas base_len exp_len mod_len input) (\<lambda>gas.
             if gas_limit < gas then pc_out_of_gas gas gas_limit
             else if mod_len = 0 then pc_ok [] gas
             else
               let data = drop 96 input
               in run_bind (read_slice data 0 base_len) (\<lambda>base.
                  run_bind (read_slice data base_len exp_len) (\<lambda>exp.
                  run_bind (read_slice data (base_len + exp_len) mod_len) (\<lambda>modulus.
                    if el_big_is_zero el modulus then run_bind (zero_vec mod_len) (\<lambda>out. pc_ok out gas)
                    else
                      let result_bytes = el_big_modpow el base exp modulus; n = unat mod_len
                      in run_bind (zero_vec mod_len) (\<lambda>out.
                           if length result_bytes \<le> n
                           then pc_ok (take (n - length result_bytes) out @ result_bytes) gas
                           else pc_ok (drop (length result_bytes - n) result_bytes) gas))))))"

section \<open>BN254\<close>

definition bn254_fq_to_be :: "('fq, 'fr, 'g1, 'g2) evm_lib \<Rightarrow> 'fq \<Rightarrow> u8 list" where
  "bn254_fq_to_be el f = concat (map u64_to_be_bytes (rev (el_fq_limbs el f)))"

definition parse_g1 :: "('fq, 'fr, 'g1, 'g2) evm_lib \<Rightarrow> u8 list \<Rightarrow> 'g1 option" where
  "parse_g1 el data =
     (if length data < 64 then None
      else let x = el_fq_of_be el (take 32 data); y = el_fq_of_be el (take 32 (drop 32 data))
           in if el_fq_is_zero el x \<and> el_fq_is_zero el y then Some (el_g1_zero el)
              else let p = el_g1_new el x y in if el_g1_on_curve el p then Some p else None)"

definition serialize_g1 :: "('fq, 'fr, 'g1, 'g2) evm_lib \<Rightarrow> 'g1 \<Rightarrow> u8 list" where
  "serialize_g1 el p =
     (if el_g1_is_zero el p then replicate 64 0
      else bn254_fq_to_be el (el_g1_x el p) @ bn254_fq_to_be el (el_g1_y el p))"

definition parse_g2 :: "('fq, 'fr, 'g1, 'g2) evm_lib \<Rightarrow> u8 list \<Rightarrow> 'g2 option" where
  "parse_g2 el data =
     (if length data < 128 then None
      else let fq = (\<lambda>i. el_fq_of_be el (take 32 (drop (32 * i) data)));
               x = (fq 1, fq 0); y = (fq 3, fq 2);
               zero = (\<lambda>(c0, c1). el_fq_is_zero el c0 \<and> el_fq_is_zero el c1)
           in if zero x \<and> zero y then Some (el_g2_zero el)
              else let p = el_g2_new el x y in if el_g2_on_curve el p then Some p else None)"

definition pad_to :: "nat \<Rightarrow> u8 list \<Rightarrow> u8 list" where
  "pad_to n input = take n input @ replicate (n - length input) 0"

definition pc_bn_add :: "('fq, 'fr, 'g1, 'g2) evm_lib \<Rightarrow> PrecompileFn" where
  "pc_bn_add el input gas_limit sch =
     (if gas_limit < bn_add sch then pc_out_of_gas (bn_add sch) gas_limit
      else let padded = pad_to 128 input
           in case parse_g1 el (take 64 padded) of None \<Rightarrow> pc_error ''BN_ADD: invalid G1 point p1''
              | Some p1 \<Rightarrow>
                (case parse_g1 el (drop 64 padded) of None \<Rightarrow> pc_error ''BN_ADD: invalid G1 point p2''
                 | Some p2 \<Rightarrow> pc_ok (serialize_g1 el (el_g1_add el p1 p2)) (bn_add sch)))"

definition pc_bn_mul :: "('fq, 'fr, 'g1, 'g2) evm_lib \<Rightarrow> PrecompileFn" where
  "pc_bn_mul el input gas_limit sch =
     (if gas_limit < bn_mul sch then pc_out_of_gas (bn_mul sch) gas_limit
      else let padded = pad_to 96 input
           in case parse_g1 el (take 64 padded) of None \<Rightarrow> pc_error ''BN_MUL: invalid G1 point''
              | Some p \<Rightarrow>
                pc_ok (serialize_g1 el (el_g1_mul el p (el_fr_of_be el (drop 64 padded)))) (bn_mul sch))"

fun pairing_loop ::
    "('fq, 'fr, 'g1, 'g2) evm_lib \<Rightarrow> u8 list \<Rightarrow> nat list \<Rightarrow> 'g1 list \<Rightarrow> 'g2 list \<Rightarrow> EvmError + 'g1 list \<times> 'g2 list" where
  "pairing_loop el input [] g1s g2s = Inr (g1s, g2s)"
| "pairing_loop el input (i # is) g1s g2s =
     (let chunk = take 192 (drop (i * 192) input)
      in case parse_g1 el (take 64 chunk) of
           None \<Rightarrow> Inl (PrecompileError ''BN_PAIRING: invalid G1 point'')
         | Some p1 \<Rightarrow>
           (case parse_g2 el (drop 64 chunk) of
              None \<Rightarrow> Inl (PrecompileError ''BN_PAIRING: invalid G2 point'')
            | Some p2 \<Rightarrow>
              if el_g1_is_zero el p1 \<or> el_g2_is_zero el p2 then pairing_loop el input is g1s g2s
              else pairing_loop el input is (g1s @ [p1]) (g2s @ [p2])))"

definition bool_word :: "bool \<Rightarrow> u8 list" where
  "bool_word b = (if b then (replicate 32 0)[31 := 1] else replicate 32 0)"

definition bn_pairing :: "('fq, 'fr, 'g1, 'g2) evm_lib \<Rightarrow> PrecompileFn" where
  "bn_pairing el input gas_limit sch =
     (if length input mod 192 \<noteq> 0 then pc_error ''BN_PAIRING: input not multiple of 192 bytes''
      else
        let num_pairs = length input div 192;
            gas = bn_pairing_base sch + of_nat num_pairs * bn_pairing_point sch
        in if gas_limit < gas then pc_out_of_gas gas gas_limit
           else case pairing_loop el input [0..<num_pairs] [] [] of
                  Inl e \<Rightarrow> Ret (Inl e)
                | Inr (g1s, g2s) \<Rightarrow> pc_ok (bool_word (el_pairing_is_one el g1s g2s)) gas)"

section \<open>BLAKE2b compression\<close>

definition BLAKE_IV :: "u64 list" where
  "BLAKE_IV = [0x6a09e667f3bcc908, 0xbb67ae8584caa73b, 0x3c6ef372fe94f82b, 0xa54ff53a5f1d36f1,
     0x510e527fade682d1, 0x9b05688c2b3e6c1f, 0x1f83d9abfb41bd6b, 0x5be0cd19137e2179]"

definition BLAKE_SIGMA :: "nat list list" where
  "BLAKE_SIGMA =
     [ [0, 1, 2, 3, 4, 5, 6, 7, 8, 9, 10, 11, 12, 13, 14, 15],
      [14, 10, 4, 8, 9, 15, 13, 6, 1, 12, 0, 2, 11, 7, 5, 3],
      [11, 8, 12, 0, 5, 2, 15, 13, 10, 14, 3, 6, 7, 1, 9, 4],
      [7, 9, 3, 1, 13, 12, 11, 14, 2, 6, 5, 10, 4, 0, 15, 8],
      [9, 0, 5, 7, 2, 4, 10, 15, 14, 1, 11, 12, 6, 8, 3, 13],
      [2, 12, 6, 10, 0, 11, 8, 3, 4, 13, 7, 5, 15, 14, 1, 9],
      [12, 5, 1, 15, 14, 13, 4, 10, 0, 7, 6, 3, 9, 2, 8, 11],
      [13, 11, 7, 14, 12, 1, 3, 9, 5, 0, 15, 4, 8, 6, 2, 10],
      [6, 15, 14, 9, 11, 3, 0, 8, 12, 2, 13, 7, 1, 4, 10, 5],
      [10, 2, 8, 4, 7, 6, 1, 5, 15, 11, 9, 14, 3, 12, 13, 0] ]"

definition blake_g :: "nat \<Rightarrow> nat \<Rightarrow> nat \<Rightarrow> nat \<Rightarrow> u64 \<Rightarrow> u64 \<Rightarrow> u64 list \<Rightarrow> u64 list" where
  "blake_g a b c d x y v =
     (let v = v[a := v ! a + v ! b + x];
          v = v[d := word_rotr 32 (v ! d XOR v ! a)];
          v = v[c := v ! c + v ! d];
          v = v[b := word_rotr 24 (v ! b XOR v ! c)];
          v = v[a := v ! a + v ! b + y];
          v = v[d := word_rotr 16 (v ! d XOR v ! a)];
          v = v[c := v ! c + v ! d]
      in v[b := word_rotr 63 (v ! b XOR v ! c)])"

definition blake_round :: "u64 list \<Rightarrow> nat \<Rightarrow> u64 list \<Rightarrow> u64 list" where
  "blake_round m i v =
     (let s = BLAKE_SIGMA ! (i mod 10);
          v = blake_g 0 4 8 12 (m ! (s ! 0)) (m ! (s ! 1)) v;
          v = blake_g 1 5 9 13 (m ! (s ! 2)) (m ! (s ! 3)) v;
          v = blake_g 2 6 10 14 (m ! (s ! 4)) (m ! (s ! 5)) v;
          v = blake_g 3 7 11 15 (m ! (s ! 6)) (m ! (s ! 7)) v;
          v = blake_g 0 5 10 15 (m ! (s ! 8)) (m ! (s ! 9)) v;
          v = blake_g 1 6 11 12 (m ! (s ! 10)) (m ! (s ! 11)) v;
          v = blake_g 2 7 8 13 (m ! (s ! 12)) (m ! (s ! 13)) v
      in blake_g 3 4 9 14 (m ! (s ! 14)) (m ! (s ! 15)) v)"

definition blake2b_compress :: "u64 list \<Rightarrow> u64 list \<Rightarrow> u64 \<Rightarrow> u64 \<Rightarrow> bool \<Rightarrow> u32 \<Rightarrow> u64 list" where
  "blake2b_compress h m t0 t1 f rounds =
     (let v = h @ BLAKE_IV;
          v = v[12 := v ! 12 XOR t0];
          v = v[13 := v ! 13 XOR t1];
          v = (if f then v[14 := NOT (v ! 14)] else v);
          v = fold (blake_round m) [0..<unat rounds] v
      in map (\<lambda>i. h ! i XOR (v ! i XOR v ! (i + 8))) [0..<8])"

definition u64_from_le_bytes :: "u8 list \<Rightarrow> u64" where
  "u64_from_le_bytes bs = of_nat (le_val bs)"

definition read_words :: "u8 list \<Rightarrow> nat \<Rightarrow> nat \<Rightarrow> u64 list" where
  "read_words input offset n = map (\<lambda>i. u64_from_le_bytes (take 8 (drop (offset + i * 8) input))) [0..<n]"

definition blake2f :: PrecompileFn where
  "blake2f input gas_limit sch =
     (if length input \<noteq> 213 then pc_error ''Invalid BLAKE2F input length: expected 213 bytes''
      else if input ! 212 \<noteq> 0 \<and> input ! 212 \<noteq> 1 then pc_error ''Invalid BLAKE2F f flag: must be 0 or 1''
      else
        let rounds = of_nat (be_val (take 4 input)) :: u32;
            gas = max (saturating_mul (ucast rounds) (blake2f_round sch)) 1
        in if gas_limit < gas then pc_out_of_gas gas gas_limit
           else
             let h = read_words input 4 8; m = read_words input 68 16; t = read_words input 196 2
             in pc_ok (concat (map u64_to_le_bytes
                  (blake2b_compress h m (t ! 0) (t ! 1) (input ! 212 = 1) rounds))) gas)"

section \<open>NexusChain precompiles\<close>

definition zkp_verify :: PrecompileFn where
  "zkp_verify input gas_limit sch =
     (if length input < 224 then pc_error ''Invalid ZKP input length''
      else
        let num_inputs = (length input - 192 - 32) div 32;
            gas = zkp_verify_base sch + of_nat num_inputs * zkp_verify_per_input sch
        in if gas_limit < gas then pc_out_of_gas gas gas_limit else pc_ok (bool_word True) gas)"

definition zkp_batch_verify :: PrecompileFn where
  "zkp_batch_verify input gas_limit sch =
     (if length input < 4 then pc_error ''Invalid batch verify input''
      else
        let num_proofs = of_nat (be_val (take 4 input)) :: u64;
            gas = (zkp_verify_base sch * num_proofs * 60) div 100
        in if gas_limit < gas then pc_out_of_gas gas gas_limit else pc_ok (bool_word True) gas)"

definition iso20022_parse :: PrecompileFn where
  "iso20022_parse input gas_limit sch =
     (let gas = iso20022_parse_base sch + len64 input * iso20022_parse_per_byte sch
      in if gas_limit < gas then pc_out_of_gas gas gas_limit else pc_ok (replicate 256 0) gas)"

definition iso20022_validate :: PrecompileFn where
  "iso20022_validate input gas_limit sch =
     (let gas = iso20022_parse_base sch + (len64 input div 2) * iso20022_parse_per_byte sch
      in if gas_limit < gas then pc_out_of_gas gas gas_limit else pc_ok (bool_word True) gas)"

definition dag_get_vertex :: PrecompileFn where
  "dag_get_vertex input gas_limit sch =
     (if length input < 32 then pc_error ''Invalid vertex hash''
      else let gas = 1000
           in if gas_limit < gas then pc_out_of_gas gas gas_limit else pc_ok (replicate 128 0) gas)"

definition pc_poseidon_hash :: "crypto_lib \<Rightarrow> PrecompileFn" where
  "pc_poseidon_hash lib input gas_limit sch =
     (let num_inputs = (length input + 31) div 32; gas = 500 + of_nat num_inputs * 100
      in if gas_limit < gas then pc_out_of_gas gas gas_limit else pc_ok (keccak256 lib input) gas)"

definition get_precompiles ::
    "crypto_lib \<Rightarrow> ('fq, 'fr, 'g1, 'g2) evm_lib \<Rightarrow> (Address, PrecompileFn) hmap" where
  "get_precompiles lib el =
     fold (\<lambda>(n, f) m. hput (pc_addr n) f m)
       [(0x01, ecrecover lib), (0x02, pc_sha256 el), (0x03, pc_ripemd160 el), (0x04, pc_identity),
        (0x05, modexp el), (0x06, pc_bn_add el), (0x07, pc_bn_mul el), (0x08, bn_pairing el),
        (0x09, blake2f), (0x100, zkp_verify), (0x101, zkp_batch_verify), (0x102, iso20022_parse),
        (0x103, iso20022_validate), (0x104, dag_get_vertex), (0x105, pc_poseidon_hash lib)] []"

section \<open>Lemmas\<close>

lemma pc_addr_values:
  "map pc_addr [0x01, 0x02, 0x03, 0x04, 0x05, 0x06, 0x07, 0x08, 0x09, 0x100, 0x101, 0x102, 0x103, 0x104, 0x105]
    = [0x01, 0x02, 0x03, 0x04, 0x05, 0x06, 0x07, 0x08, 0x09, 0x100, 0x101, 0x102, 0x103, 0x104, 0x105]"
  by code_simp

lemma get_precompiles_eq:
  "get_precompiles lib el =
     [(0x01, ecrecover lib), (0x02, pc_sha256 el), (0x03, pc_ripemd160 el), (0x04, pc_identity),
      (0x05, modexp el), (0x06, pc_bn_add el), (0x07, pc_bn_mul el), (0x08, bn_pairing el),
      (0x09, blake2f), (0x100, zkp_verify), (0x101, zkp_batch_verify), (0x102, iso20022_parse),
      (0x103, iso20022_validate), (0x104, dag_get_vertex), (0x105, pc_poseidon_hash lib)]"
  using pc_addr_values by (simp add: get_precompiles_def hput_def)

lemmas pc_defs = pc_ok_def pc_error_def pc_out_of_gas_def

lemma respects_limit:
  "ecrecover lib input g sch = Ret (Inr r) \<Longrightarrow> pc_gas_used r \<le> g"
  "pc_sha256 el input g sch = Ret (Inr r) \<Longrightarrow> pc_gas_used r \<le> g"
  "pc_ripemd160 el input g sch = Ret (Inr r) \<Longrightarrow> pc_gas_used r \<le> g"
  "pc_identity input g sch = Ret (Inr r) \<Longrightarrow> pc_gas_used r \<le> g"
  "pc_bn_add el input g sch = Ret (Inr r) \<Longrightarrow> pc_gas_used r \<le> g"
  "pc_bn_mul el input g sch = Ret (Inr r) \<Longrightarrow> pc_gas_used r \<le> g"
  "bn_pairing el input g sch = Ret (Inr r) \<Longrightarrow> pc_gas_used r \<le> g"
  "blake2f input g sch = Ret (Inr r) \<Longrightarrow> pc_gas_used r \<le> g"
  "zkp_verify input g sch = Ret (Inr r) \<Longrightarrow> pc_gas_used r \<le> g"
  "zkp_batch_verify input g sch = Ret (Inr r) \<Longrightarrow> pc_gas_used r \<le> g"
  "iso20022_parse input g sch = Ret (Inr r) \<Longrightarrow> pc_gas_used r \<le> g"
  "iso20022_validate input g sch = Ret (Inr r) \<Longrightarrow> pc_gas_used r \<le> g"
  "dag_get_vertex input g sch = Ret (Inr r) \<Longrightarrow> pc_gas_used r \<le> g"
  "pc_poseidon_hash lib input g sch = Ret (Inr r) \<Longrightarrow> pc_gas_used r \<le> g"
  by (auto simp: ecrecover_def ecrecover_inner_def pc_sha256_def pc_ripemd160_def pc_identity_def
      pc_bn_add_def pc_bn_mul_def bn_pairing_def blake2f_def zkp_verify_def zkp_batch_verify_def
      iso20022_parse_def iso20022_validate_def dag_get_vertex_def pc_poseidon_hash_def pc_defs Let_def not_less
      split: if_splits option.splits sum.splits prod.splits)

lemma modexp_limit:
  assumes "modexp el input g sch = Ret (Inr r)" "96 \<le> length input"
  shows "pc_gas_used r \<le> g"
  using assms by (auto simp: modexp_def pc_defs Let_def not_less split: if_splits)

subsection \<open>Operands of the modular exponentiation\<close>

lemma or_low_byte: "ucast b OR push_bit 8 w = ucast (b::u8) + push_bit 8 (w::u64)"
  by (rule disjunctive_add [symmetric]) (auto simp: bit_simps dest: bit_imp_le_length)

lemma u256_fold_val:
  "fold (\<lambda>(i, b) r. r OR push_bit (i * 8) (ucast b)) (List.enumerate k bs) r
    = r OR push_bit (k * 8) (of_nat (le_val bs) :: u64)"
proof (induction bs arbitrary: k r)
  case (Cons b bs)
  have "(of_nat (le_val (b # bs)) :: u64) = ucast b OR push_bit 8 (of_nat (le_val bs))"
    unfolding or_low_byte by (simp add: push_bit_eq_mult)
  then have "push_bit (k * 8) (of_nat (le_val (b # bs)) :: u64)
      = push_bit (k * 8) (ucast b) OR push_bit (Suc k * 8) (of_nat (le_val bs))"
    by (simp add: push_bit_or push_bit_push_bit add.commute)
  with Cons.IH show ?case by (simp add: or.assoc)
qed simp

lemma take_le_bytes: "k \<le> n \<Longrightarrow> take k (le_bytes n x) = le_bytes k x"
proof (induction n arbitrary: k x)
  case (Suc n)
  then show ?case by (cases k) auto
qed simp

lemma u256_from_be_bytes_len:
  assumes "n < 2 ^ 64"
  shows "u256_from_be_bytes (as_bytes (of_nat n)) = of_nat n"
proof -
  have n: "unat (of_nat n :: Hash) = n" using assms by (simp add: unat_of_nat)
  have "take 8 (rev (as_bytes (of_nat n))) = le_bytes 8 n"
    by (simp add: as_bytes_def be_bytes_def n take_le_bytes)
  then show ?thesis
    using u256_fold_val [of 0 "le_bytes 8 n" 0] assms
    by (simp add: u256_from_be_bytes_def le_val_le_bytes)
qed

lemma unat_of_len: "n < 2 ^ 64 \<Longrightarrow> unat (of_nat n :: u64) = n"
  by (simp add: unat_of_nat)

lemma read_slice_in_range:
  assumes "off + n \<le> length data" "length data < 2 ^ 63"
  shows "read_slice data (of_nat off) (of_nat n) = Ret (take n (drop off data))"
proof -
  have u: "unat (of_nat off :: u64) = off" "unat (of_nat n :: u64) = n" "unat (len64 data) = length data"
    using assms by (simp_all add: unat_of_nat len64_def)
  have avail: "min (saturating_sub (len64 data) (of_nat off)) (of_nat n :: u64) = of_nat n"
    using assms(1) u by (auto simp: min_def word_le_nat_alt unat_saturating_sub word_unat_eq_iff)
  have "unat (of_nat off + of_nat n :: u64) = off + n"
    using assms u by (simp add: unat_add_no_overflow)
  with assms u avail show ?thesis
    by (simp add: read_slice_def zero_vec_def slice_def Let_def)
qed

lemma read_slice_beyond:
  assumes "length data < off" "off < 2 ^ 63" "n < 2 ^ 63"
  shows "read_slice data (of_nat off) (of_nat n) = Panic"
proof -
  have u: "unat (of_nat off :: u64) = off" "unat (of_nat n :: u64) = n" "unat (len64 data) = length data"
    using assms by (simp_all add: unat_of_nat len64_def)
  have "saturating_sub (len64 data) (of_nat off) = 0"
    using assms(1) u by (simp add: word_unat_eq_iff unat_saturating_sub)
  with assms u show ?thesis
    by (simp add: read_slice_def zero_vec_def slice_def Let_def)
qed

lemma modexp_gas_returns:
  assumes "nb < 2 ^ 62" "length input < 2 ^ 62"
  shows "\<exists>g. modexp_gas (of_nat nb) ne nm input = Ret g"
proof -
  have s: "unat (96 + of_nat nb :: u64) = 96 + nb"
    using assms(1) unat_of_len [of nb] unat_add_no_overflow [of 96 "of_nat nb :: u64"] by simp
  have v: "unat (min ne 32) \<le> 32" by (simp add: min_def word_le_nat_alt)
  have sv: "unat (96 + of_nat nb + min ne 32 :: u64) = 96 + nb + unat (min ne 32)"
    using assms(1) s v by (simp add: unat_add_no_overflow)
  have l: "unat (len64 input) = length input" using assms(2) by (simp add: len64_def unat_of_nat)
  show ?thesis
    using s v sv l by (auto simp: modexp_gas_def Let_def slice_def word_le_nat_alt word_less_nat_alt)
qed

lemma modexp_operands:
  assumes "input = as_bytes (of_nat nb) @ as_bytes (of_nat ne) @ as_bytes (of_nat nm) @ data"
    and "nb < 2 ^ 62" "ne < 2 ^ 62" "nm < 2 ^ 62"
  shows "96 \<le> length input" "u256_from_be_bytes (take 32 input) = of_nat nb"
    "u256_from_be_bytes (take 32 (drop 32 input)) = of_nat ne"
    "u256_from_be_bytes (take 32 (drop 64 input)) = of_nat nm" "drop 96 input = data"
  using assms by (simp_all add: u256_from_be_bytes_len)

section \<open>Properties\<close>

text \<open>What the code relies on of the big-integer library.\<close>

definition bigint_laws :: "('fq, 'fr, 'g1, 'g2) evm_lib \<Rightarrow> bool" where
  "bigint_laws el \<longleftrightarrow>
     (\<forall>bs. el_big_is_zero el bs \<longleftrightarrow> be_val bs = 0)
     \<and> (\<forall>b e m. be_val m \<noteq> 0 \<longrightarrow>
          be_val (el_big_modpow el b e m) = be_val b ^ be_val e mod be_val m
          \<and> length (el_big_modpow el b e m) \<le> length m)"

lemma be_val_pad: "be_val (replicate n 0 @ bs) = be_val bs"
proof -
  have "le_val (xs @ replicate n 0) = le_val xs" for xs
  proof (induction xs)
    case Nil
    then show ?case by (induction n) simp_all
  qed simp
  then show ?thesis by (simp add: be_val_def)
qed

lemma modexp_eval:
  assumes laws: "bigint_laws el"
    and input: "input = as_bytes (of_nat (length b)) @ as_bytes (of_nat (length e))
      @ as_bytes (of_nat (length m)) @ b @ e @ m"
    and small: "length b + length e + length m < 2 ^ 32"
    and gas: "modexp_gas (of_nat (length b)) (of_nat (length e)) (of_nat (length m)) input = Ret gas"
  shows "modexp el input gas_limit sch =
    (if gas_limit < gas then Ret (Inl (OutOfGas gas gas_limit))
     else if be_val m = 0 then pc_ok (replicate (length m) 0) gas
     else let r = el_big_modpow el b e m in pc_ok (replicate (length m - length r) 0 @ r) gas)"
proof -
  have lt: "length b < 2 ^ 62" "length e < 2 ^ 62" "length m < 2 ^ 62" using small by simp_all
  note ops = modexp_operands [OF input lt]
  have d: "length (b @ e @ m) < 2 ^ 63" using small by simp
  have rb: "read_slice (b @ e @ m) 0 (of_nat (length b)) = Ret b"
    using read_slice_in_range [of 0 "length b" "b @ e @ m"] d by simp
  have re: "read_slice (b @ e @ m) (of_nat (length b)) (of_nat (length e)) = Ret e"
    using read_slice_in_range [of "length b" "length e" "b @ e @ m"] d by simp
  have rm: "read_slice (b @ e @ m) (of_nat (length b) + of_nat (length e)) (of_nat (length m)) = Ret m"
    using read_slice_in_range [of "length b + length e" "length m" "b @ e @ m"] d by simp
  have n: "unat (of_nat (length m) :: u64) = length m" using lt(3) by (intro unat_of_len) simp
  then have z: "zero_vec (of_nat (length m)) = Ret (replicate (length m) 0)" using lt(3) by (simp add: zero_vec_def)
  have n0: "(of_nat (length m) :: u64) = 0 \<longleftrightarrow> m = []" using n by (metis length_0_conv unat_eq_zero)
  have big: "el_big_is_zero el m \<longleftrightarrow> be_val m = 0"
    "be_val m \<noteq> 0 \<Longrightarrow> length (el_big_modpow el b e m) \<le> length m"
    using laws by (simp_all add: bigint_laws_def)
  show ?thesis
  proof (cases "m = []")
    case True
    then have "be_val m = 0" by (simp add: be_val_def)
    with True ops gas n0 show ?thesis by (simp add: modexp_def pc_out_of_gas_def)
  next
    case False
    with ops gas rb re rm z n n0 big show ?thesis
      by (auto simp: modexp_def Let_def pc_out_of_gas_def min_def)
  qed
qed

text \<open>
  (C28) On complete operands the modular exponentiation precompile returns as many bytes as the modulus
  has, and they are the modular power of the operands, big-endian, whenever the gas suffices;
  otherwise it runs out of gas. A zero modulus gives zero bytes.
\<close>

theorem modexp_correct:
  assumes "bigint_laws el"
    and "input = as_bytes (of_nat (length b)) @ as_bytes (of_nat (length e))
      @ as_bytes (of_nat (length m)) @ b @ e @ m"
    and "length b + length e + length m < 2 ^ 32"
  shows "\<exists>gas. modexp_gas (of_nat (length b)) (of_nat (length e)) (of_nat (length m)) input = Ret gas
    \<and> (if gas_limit < gas then modexp el input gas_limit sch = Ret (Inl (OutOfGas gas gas_limit))
       else \<exists>out. modexp el input gas_limit sch = Ret (Inr \<lparr>pc_output = out, pc_gas_used = gas\<rparr>)
         \<and> length out = length m
         \<and> be_val out = (if be_val m = 0 then 0 else be_val b ^ be_val e mod be_val m))"
proof -
  obtain gas where gas: "modexp_gas (of_nat (length b)) (of_nat (length e)) (of_nat (length m)) input = Ret gas"
    using modexp_gas_returns [of "length b" input] assms(3) by (force simp: assms(2))
  have zeros: "be_val (replicate n 0) = 0" for n using be_val_pad [of n "[]"] by (simp add: be_val_def)
  from modexp_eval [OF assms gas, of gas_limit sch] assms(1) gas show ?thesis
    by (intro exI [of _ gas]) (auto simp: pc_ok_def Let_def bigint_laws_def be_val_pad zeros)
qed

definition demo_evm_lib :: "(nat, nat, nat \<times> nat, nat) evm_lib" where
  "demo_evm_lib = \<lparr>el_sha256 = (\<lambda>bs. replicate 32 0), el_ripemd160 = (\<lambda>bs. replicate 20 0),
     el_big_is_zero = (\<lambda>bs. be_val bs = 0),
     el_big_modpow = (\<lambda>b e m. be_bytes (length m) (be_val b ^ be_val e mod be_val m)),
     el_fq_of_be = be_val, el_fr_of_be = be_val, el_fq_is_zero = (\<lambda>x. x = 0), el_fq_limbs = (\<lambda>x. [of_nat x, 0, 0, 0]),
     el_g1_zero = (0, 0), el_g1_new = Pair, el_g1_on_curve = (\<lambda>p. True), el_g1_is_zero = (\<lambda>p. p = (0, 0)),
     el_g1_x = fst, el_g1_y = snd, el_g1_add = (\<lambda>p q. p), el_g1_mul = (\<lambda>p n. p), el_g2_zero = 0,
     el_g2_new = (\<lambda>x y. 1), el_g2_on_curve = (\<lambda>p. True), el_g2_is_zero = (\<lambda>p. p = 0),
     el_pairing_is_one = (\<lambda>ps qs. True)\<rparr>"

lemma demo_bigint_laws: "bigint_laws demo_evm_lib"
proof -
  have "be_val b ^ be_val e mod be_val m mod 256 ^ length m = be_val b ^ be_val e mod be_val m"
    if "be_val m \<noteq> 0" for b e m
    using that be_val_bound [of m] by (intro mod_less) (meson mod_less_divisor neq0_conv order_less_trans)
  then show ?thesis by (simp add: bigint_laws_def demo_evm_lib_def be_val_be_bytes)
qed

theorem modexp_correct_witness:
  "\<exists>gas out. modexp demo_evm_lib (as_bytes 1 @ as_bytes 1 @ as_bytes 1 @ [3, 2, 5]) (- 1) berlin
      = Ret (Inr \<lparr>pc_output = out, pc_gas_used = gas\<rparr>) \<and> be_val out = 4"
proof -
  have "be_val [3] = 3" "be_val [2] = 2" "be_val [5] = 5" by (simp_all add: be_val_def)
  with modexp_correct [OF demo_bigint_laws refl, of "[3]" "[2]" "[5]" "- 1" berlin] show ?thesis
    by (auto split: if_splits)
qed

lemma read_slice_start:
  assumes "n < 2 ^ 63" "length data < 2 ^ 63"
  shows "\<exists>xs. read_slice data 0 (of_nat n) = Ret xs"
proof -
  have u: "unat (of_nat n :: u64) = n" "unat (len64 data) = length data"
    using assms by (simp_all add: unat_of_nat len64_def)
  have "unat (min (saturating_sub (len64 data) 0) (of_nat n)) \<le> length data"
    using u by (auto simp: min_def word_le_nat_alt unat_saturating_sub)
  with assms u show ?thesis by (simp add: read_slice_def zero_vec_def slice_def Let_def)
qed

text \<open>
  A truncated input makes the modular exponentiation panic: when the base is longer than the data
  that follows the three lengths, reading the exponent slices beyond the end. The input passes every
  check before, and the gas for it is small.
\<close>

theorem modexp_truncated_panics:
  assumes "input = as_bytes (of_nat nb) @ as_bytes (of_nat ne) @ as_bytes (of_nat nm) @ data"
    and "length data < nb" and "nb < 2 ^ 32" "ne < 2 ^ 32" "0 < nm" "nm < 2 ^ 32"
    and "modexp_gas (of_nat nb) (of_nat ne) (of_nat nm) input = Ret gas" and "gas \<le> gas_limit"
  shows "modexp el input gas_limit sch = Panic"
proof -
  have lt: "nb < 2 ^ 62" "ne < 2 ^ 62" "nm < 2 ^ 62" using assms(3-6) by simp_all
  note ops = modexp_operands [OF assms(1) lt]
  obtain base where base: "read_slice data 0 (of_nat nb) = Ret base"
    using read_slice_start [of nb data] assms(2,3) by auto
  have exp: "read_slice data (of_nat nb) (of_nat ne) = Panic"
    using assms(2) lt by (intro read_slice_beyond) simp_all
  have "unat (of_nat nm :: u64) = nm" by (rule unat_of_len) (use lt(3) in simp)
  with assms(5) have "(of_nat nm :: u64) \<noteq> 0" by (metis unat_0 neq0_conv)
  moreover have "\<not> gas_limit < gas" using assms(8) by simp
  ultimately show ?thesis
    using ops base exp assms(7) by (simp add: modexp_def Let_def)
qed

theorem modexp_truncated_panics_witness:
  "modexp demo_evm_lib (as_bytes 1 @ as_bytes 0 @ as_bytes 1 @ []) 200 berlin = Panic"
proof -
  have "modexp_gas 1 0 1 (as_bytes 1 @ as_bytes 0 @ as_bytes 1 @ []) = Ret 200"
    by (simp add: modexp_gas_def Let_def slice_def len64_def)
  then show ?thesis
    using modexp_truncated_panics [OF refl, of "[]" 1 0 1 200 200 demo_evm_lib berlin] by simp
qed

definition charges_within :: "PrecompileFn \<Rightarrow> bool" where
  "charges_within f \<longleftrightarrow> (\<forall>input g sch r. f input g sch = Ret (Inr r) \<longrightarrow> pc_gas_used r \<le> g)"

lemma charging_precompiles: "list_all (\<lambda>(a, f). a = 5 \<or> charges_within f) (get_precompiles lib el)"
  by (simp add: get_precompiles_eq charges_within_def respects_limit)

text \<open>
  (C37) Every precompile but modular exponentiation charges at most the gas it is given. The exception
  is an input of less than 96 bytes to that one, for which 200 gas are charged whatever the limit.
\<close>

theorem precompile_gas_within_limit:
  assumes "hget (get_precompiles lib el) a = Some f" and "f input gas_limit sch = Ret (Inr r)"
  shows "pc_gas_used r \<le> gas_limit \<or> a = 5 \<and> length input < 96 \<and> pc_gas_used r = 200"
proof (cases "a = 5 \<and> length input < 96")
  case True
  with assms have "f = modexp el" by (simp add: get_precompiles_eq)
  with assms(2) True show ?thesis by (auto simp: modexp_def pc_ok_def)
next
  case False
  have "(a, f) \<in> set (get_precompiles lib el)" using assms(1) by (rule hget_in_set)
  then have "a = 5 \<or> charges_within f"
    using charging_precompiles [of lib el] by (auto simp: list_all_iff)
  moreover have "f = modexp el" if "a = 5" using assms(1) that by (simp add: get_precompiles_eq)
  ultimately show ?thesis
    using False assms(2) modexp_limit [of el input gas_limit sch r]
    by (auto simp: charges_within_def not_less)
qed

theorem precompile_gas_within_limit_witness:
  "\<exists>r. pc_identity [1, 2] 100 berlin = Ret (Inr r) \<and> pc_gas_used r \<le> 100"
proof -
  have r: "pc_identity [1, 2] 100 berlin = Ret (Inr \<lparr>pc_output = [1, 2], pc_gas_used = 18\<rparr>)"
    by (simp add: pc_identity_def words_of_def len64_def berlin_def pc_ok_def)
  have "hget (get_precompiles demo_lib demo_evm_lib) 4 = Some pc_identity" by (simp add: get_precompiles_eq)
  from precompile_gas_within_limit [OF this r] r show ?thesis by auto
qed

text \<open>
  The zero-knowledge precompiles accept everything: any input of the minimal length is answered
  with true once its gas is paid, whatever proof it holds.
\<close>

theorem zkp_precompiles_accept_anything:
  "zkp_verify input gas_limit sch
      \<in> {pc_error ''Invalid ZKP input length'',
         pc_out_of_gas (zkp_verify_base sch + of_nat ((length input - 224) div 32) * zkp_verify_per_input sch) gas_limit,
         pc_ok (bool_word True) (zkp_verify_base sch + of_nat ((length input - 224) div 32) * zkp_verify_per_input sch)}
   \<and> zkp_batch_verify [0, 0, 0, 0] gas_limit sch = pc_ok (bool_word True) 0"
  by (simp add: zkp_verify_def zkp_batch_verify_def be_val_def Let_def)

text \<open>
  Every registered precompile is recognised by the test of this module, while the test of
  \<^verbatim>\<open>nexus-primitives\<close> disagrees with both: it takes 0x0A for a precompile and 0x100 for an account.
\<close>

theorem precompile_tests_disagree:
  "list_all evm_is_precompile (hkeys (get_precompiles lib el))
   \<and> is_precompile 0x0A \<and> evm_is_precompile 0x0A = False
   \<and> is_precompile 0x100 = False \<and> evm_is_precompile 0x100"
proof -
  have "list_all evm_is_precompile [0x01, 0x02, 0x03, 0x04, 0x05, 0x06, 0x07, 0x08, 0x09,
      0x100, 0x101, 0x102, 0x103, 0x104, 0x105]" by code_simp
  moreover have "is_precompile 0x0A" "evm_is_precompile 0x0A = False" "is_precompile 0x100 = False"
    "evm_is_precompile 0x100" by code_simp+
  ultimately show ?thesis by (simp add: get_precompiles_eq hkeys_def)
qed

end
