(* ===== verification/Rust_Text.thy ===== *)
theory Rust_Text
  imports Nexus_Prelude
begin

text \<open>
  The text handling of the Rust standard library that several crates use. A \<open>String\<close> is the list of
  its bytes, read as characters. Parsing of unsigned integers follows \<open>FromStr\<close>: an optional plus
  sign, at least one digit, no overflow. Case conversion is that of ASCII; texts outside ASCII are
  not considered where the code converts case.
\<close>

named_theorems text_simps \<open>classes of characters, printed numbers and their values\<close>

section \<open>Bytes and characters\<close>

definition bytes_of :: "string \<Rightarrow> u8 list" where
  "bytes_of s = map (\<lambda>c. of_nat (of_char c)) s"

definition text_of :: "u8 list \<Rightarrow> string" where
  "text_of bs = map (\<lambda>b. char_of (unat b)) bs"

text \<open>Well-formed UTF-8, as \<open>String::from_utf8\<close> of the standard library accepts it.\<close>

definition between :: "u8 \<Rightarrow> u8 \<Rightarrow> u8 \<Rightarrow> bool" where
  "between lo hi b \<longleftrightarrow> lo \<le> b \<and> b \<le> hi"

fun utf8_valid :: "u8 list \<Rightarrow> bool" where
  "utf8_valid [] \<longleftrightarrow> True"
| "utf8_valid (b # bs) \<longleftrightarrow>
     (if b < 0x80 then utf8_valid bs
      else case bs of [] \<Rightarrow> False
      | c # cs \<Rightarrow>
        if between 0xC2 0xDF b then between 0x80 0xBF c \<and> utf8_valid cs
        else case cs of [] \<Rightarrow> False
        | d # ds \<Rightarrow>
          if between 0xE0 0xEF b
          then between (if b = 0xE0 then 0xA0 else 0x80) (if b = 0xED then 0x9F else 0xBF) c
               \<and> between 0x80 0xBF d \<and> utf8_valid ds
          else case ds of [] \<Rightarrow> False
          | e # es \<Rightarrow>
            between 0xF0 0xF4 b
            \<and> between (if b = 0xF0 then 0x90 else 0x80) (if b = 0xF4 then 0x8F else 0xBF) c
            \<and> between 0x80 0xBF d \<and> between 0x80 0xBF e \<and> utf8_valid es)"

definition from_utf8 :: "u8 list \<Rightarrow> string option" where
  "from_utf8 bs = (if utf8_valid bs then Some (text_of bs) else None)"

definition is_ascii_digit :: "char \<Rightarrow> bool" where
  "is_ascii_digit c \<longleftrightarrow> 48 \<le> (of_char c :: nat) \<and> (of_char c :: nat) \<le> 57"

definition is_ascii_upper :: "char \<Rightarrow> bool" where
  "is_ascii_upper c \<longleftrightarrow> 65 \<le> (of_char c :: nat) \<and> (of_char c :: nat) \<le> 90"

definition is_ascii_lower :: "char \<Rightarrow> bool" where
  "is_ascii_lower c \<longleftrightarrow> 97 \<le> (of_char c :: nat) \<and> (of_char c :: nat) \<le> 122"

definition to_uppercase :: "string \<Rightarrow> string" where
  "to_uppercase s = map (\<lambda>c. if is_ascii_lower c then char_of ((of_char c :: nat) - 32) else c) s"

definition to_lowercase :: "string \<Rightarrow> string" where
  "to_lowercase s = map (\<lambda>c. if is_ascii_upper c then char_of ((of_char c :: nat) + 32) else c) s"

definition starts_with :: "string \<Rightarrow> string \<Rightarrow> bool" where
  "starts_with s p \<longleftrightarrow> take (length p) s = p"

section \<open>Numbers\<close>

definition digit_of :: "char \<Rightarrow> nat" where
  "digit_of c = of_char c - 48"

definition dec_val :: "string \<Rightarrow> nat" where
  "dec_val s = foldl (\<lambda>a c. 10 * a + digit_of c) 0 s"

definition strip_plus :: "string \<Rightarrow> string" where
  "strip_plus s = (case s of c # cs \<Rightarrow> if c = CHR ''+'' then cs else s | [] \<Rightarrow> [])"

text \<open>\<open>s.parse()\<close> at an unsigned type with values below \<open>bound\<close>.\<close>

definition parse_uint :: "nat \<Rightarrow> string \<Rightarrow> nat option" where
  "parse_uint bound s =
     (let ds = strip_plus s
      in if ds = [] \<or> \<not> list_all is_ascii_digit ds \<or> bound \<le> dec_val ds then None else Some (dec_val ds))"

text \<open>\<open>format!("{:0k}", n)\<close>\<close>

definition pad_dec :: "nat \<Rightarrow> nat \<Rightarrow> string" where
  "pad_dec k n = replicate (k - length (dec_digits n)) CHR ''0'' @ dec_digits n"

text \<open>Hexadecimal digits of either case, \<open>from_str_radix(s, 16)\<close>, and \<open>format!("{:04X}", n)\<close>.\<close>

definition hex_val :: "char \<Rightarrow> nat option" where
  "hex_val c =
     (if is_ascii_digit c then Some (of_char c - 48)
      else if 65 \<le> (of_char c :: nat) \<and> (of_char c :: nat) \<le> 70 then Some (of_char c - 55)
      else if 97 \<le> (of_char c :: nat) \<and> (of_char c :: nat) \<le> 102 then Some (of_char c - 87)
      else None)"

fun hex_loop :: "nat \<Rightarrow> string \<Rightarrow> nat option" where
  "hex_loop a [] = Some a"
| "hex_loop a (c # cs) = (case hex_val c of None \<Rightarrow> None | Some d \<Rightarrow> hex_loop (16 * a + d) cs)"

definition parse_hex :: "nat \<Rightarrow> string \<Rightarrow> nat option" where
  "parse_hex bound s =
     (let ds = strip_plus s
      in if ds = [] then None
         else case hex_loop 0 ds of None \<Rightarrow> None | Some n \<Rightarrow> if bound \<le> n then None else Some n)"

definition hex_upper_digit :: "nat \<Rightarrow> char" where
  "hex_upper_digit n = (if n < 10 then char_of (48 + n) else char_of (55 + n))"

definition hex4_upper :: "u16 \<Rightarrow> string" where
  "hex4_upper w = map (\<lambda>k. hex_upper_digit (unat w div 16 ^ k mod 16)) [3, 2, 1, 0]"

section \<open>Lemmas\<close>

lemma text_of_bytes_of [simp]: "text_of (bytes_of s) = s"
  by (induction s) (auto simp: text_of_def bytes_of_def unat_of_nat take_bit_eq_mod)

lemma bytes_of_text_of [simp]: "bytes_of (text_of bs) = bs"
proof -
  have "of_nat (of_char (char_of (unat b) :: char)) = b" for b :: u8
    using unat_lt2p [of b] by (simp add: of_char_of)
  then show ?thesis by (induction bs) (auto simp: text_of_def bytes_of_def)
qed

lemma length_bytes_of [simp]: "length (bytes_of s) = length s" by (simp add: bytes_of_def)
lemma length_text_of [simp]: "length (text_of s) = length s" by (simp add: text_of_def)
lemma bytes_of_append [simp]: "bytes_of (s @ t) = bytes_of s @ bytes_of t" by (simp add: bytes_of_def)
lemma text_of_append [simp]: "text_of (s @ t) = text_of s @ text_of t" by (simp add: text_of_def)

lemma length_to_uppercase [simp]: "length (to_uppercase s) = length s" by (simp add: to_uppercase_def)

lemma of_char_digit [text_simps]: "n < 10 \<Longrightarrow> (of_char (char_of (48 + n) :: char) :: nat) = 48 + n"
  by (simp add: of_char_of)

lemma digit_of_digit [text_simps]: "(n :: nat) < 10 \<Longrightarrow> digit_of (char_of (48 + n)) = n"
  by (simp add: digit_of_def of_char_digit)

lemma is_ascii_digit_digit [text_simps]: "(n :: nat) < 10 \<Longrightarrow> is_ascii_digit (char_of (48 + n))"
  by (simp add: is_ascii_digit_def of_char_digit)

lemma dec_val_Nil [simp]: "dec_val [] = 0" by (simp add: dec_val_def)

lemma dec_val_snoc [simp]: "dec_val (s @ [c]) = 10 * dec_val s + digit_of c"
  by (simp add: dec_val_def)

lemma dec_val_append: "dec_val (s @ t) = dec_val s * 10 ^ length t + dec_val t"
proof (induction t rule: rev_induct)
  case (snoc c t)
  have "dec_val (s @ t @ [c]) = dec_val ((s @ t) @ [c])" by simp
  also have "\<dots> = 10 * dec_val (s @ t) + digit_of c" by (rule dec_val_snoc)
  finally show ?case using snoc by (simp add: algebra_simps)
qed simp

lemma dec_val_bound: "list_all is_ascii_digit s \<Longrightarrow> dec_val s < 10 ^ length s"
  by (induction s rule: rev_induct) (auto simp: is_ascii_digit_def digit_of_def)

lemma dec_val_dec_digits [simp]: "dec_val (dec_digits n) = n"
proof (induction n rule: dec_digits.induct)
  case (1 n)
  then show ?case
    by (subst dec_digits.simps) (auto simp: text_simps dec_val_def)
qed

lemma dec_digits_digits [simp]: "list_all is_ascii_digit (dec_digits n)"
proof (induction n rule: dec_digits.induct)
  case (1 n)
  then show ?case by (subst dec_digits.simps) (auto simp: text_simps)
qed

lemma dec_digits_not_Nil [simp]: "dec_digits n \<noteq> []"
  by (subst dec_digits.simps) simp

lemma length_dec_digits: "n < 10 ^ k \<Longrightarrow> 0 < k \<Longrightarrow> length (dec_digits n) \<le> k"
proof (induction n arbitrary: k rule: dec_digits.induct)
  case (1 n)
  then show ?case
  proof (cases "n < 10")
    case False
    with 1(2,3) obtain j where "k = Suc j" "0 < j" by (cases k; cases "k - 1") auto
    moreover from this have "n div 10 < 10 ^ j" using 1(2) by (simp add: less_mult_imp_div_less)
    ultimately have "length (dec_digits (n div 10)) \<le> j" using 1(1) False by blast
    then show ?thesis using False \<open>k = Suc j\<close> by (subst dec_digits.simps) simp
  qed (subst dec_digits.simps, simp)
qed

lemma dec_val_zeros: "dec_val (replicate k CHR ''0'' @ s) = dec_val s"
proof -
  have "dec_val (replicate k CHR ''0'') = 0"
    by (induction k) (simp, simp only: replicate_append_same [symmetric] replicate_Suc dec_val_snoc, simp add: digit_of_def)
  then show ?thesis by (simp add: dec_val_append)
qed

lemma not_digits [simp]: "\<not> is_ascii_digit CHR ''+''" "\<not> is_ascii_digit CHR ''.''"
  by (simp_all add: is_ascii_digit_def)

lemma strip_plus_digits: "list_all is_ascii_digit s \<Longrightarrow> strip_plus s = s"
  by (cases s) (auto simp: strip_plus_def)

lemma parse_uint_digits:
  assumes "list_all is_ascii_digit s" "s \<noteq> []" "dec_val s < bound"
  shows "parse_uint bound s = Some (dec_val s)"
  using assms by (simp add: parse_uint_def strip_plus_digits)

lemma parse_uint_dec_digits [simp]: "n < bound \<Longrightarrow> parse_uint bound (dec_digits n) = Some n"
  using parse_uint_digits [of "dec_digits n" bound] by simp

lemma parse_uint_pad_dec [simp]: "n < bound \<Longrightarrow> parse_uint bound (pad_dec k n) = Some n"
proof -
  have "list_all is_ascii_digit (replicate j CHR ''0'')" for j by (induction j) (auto simp: is_ascii_digit_def)
  then show "n < bound \<Longrightarrow> parse_uint bound (pad_dec k n) = Some n"
    using parse_uint_digits [of "pad_dec k n" bound] by (simp add: pad_dec_def dec_val_zeros)
qed

lemma length_pad_dec [simp]: "n < 10 ^ k \<Longrightarrow> 0 < k \<Longrightarrow> length (pad_dec k n) = k"
  using length_dec_digits [of n k] by (simp add: pad_dec_def)

lemma parse_uint_None_dot: "CHR ''.'' \<in> set s \<Longrightarrow> parse_uint bound s = None"
proof -
  assume "CHR ''.'' \<in> set s"
  then have "CHR ''.'' \<in> set (strip_plus s)" by (cases s) (auto simp: strip_plus_def)
  then have "\<not> list_all is_ascii_digit (strip_plus s)" using not_digits(2) by (metis list_all_iff)
  then show ?thesis by (simp add: parse_uint_def)
qed

lemma parse_uint_Some_less: "parse_uint bound s = Some n \<Longrightarrow> n < bound"
  by (auto simp: parse_uint_def Let_def split: if_splits list.splits)

lemma utf8_ascii: "list_all (\<lambda>b. b < 0x80) bs \<Longrightarrow> utf8_valid bs"
  by (induction bs) auto

lemma utf8_digits: "list_all is_ascii_digit s \<Longrightarrow> utf8_valid (bytes_of s)"
proof -
  have "(of_nat (of_char c) :: u8) < 0x80" if "is_ascii_digit c" for c
    using that by (simp add: is_ascii_digit_def word_less_nat_alt unat_of_nat)
  then show "list_all is_ascii_digit s \<Longrightarrow> utf8_valid (bytes_of s)"
    by (intro utf8_ascii) (auto simp: bytes_of_def list_all_iff)
qed

lemma from_utf8_digits [simp]: "list_all is_ascii_digit s \<Longrightarrow> from_utf8 (bytes_of s) = Some s"
  by (simp add: from_utf8_def utf8_digits)

end
