(* ===== verification/Evm_Receipt.thy ===== *)
theory Evm_Receipt
  imports U256 Address Rust_Text
begin

text \<open>
  Execution receipts, \<^verbatim>\<open>src/crates/nexus-evm/src/receipt.rs\<close>: logs, the bloom filter over their
  addresses and topics, receipts for success, revert and failure, execution results and the decoding
  of a revert reason. A bloom filter is its 256 bytes; a Rust \<open>String\<close> is its UTF-8 bytes.
\<close>

section \<open>Logs and bloom filters\<close>

record Log =
  log_address :: Address
  log_topics :: "Hash list"
  log_data :: "u8 list"

datatype ExecutionStatus = ExSuccess | ExRevert | ExFailure

type_synonym Bloom = "u8 list"

definition Bloom_default :: Bloom where
  "Bloom_default = replicate 256 0"

definition bloom_index :: "u8 list \<Rightarrow> nat \<Rightarrow> nat" where
  "bloom_index hash i = (unat (hash ! (i * 2)) * 256 + unat (hash ! (i * 2 + 1))) mod 2048"

definition set_bloom_bit :: "nat \<Rightarrow> Bloom \<Rightarrow> Bloom" where
  "set_bloom_bit bit_index bloom =
     bloom[bit_index div 8 := (bloom ! (bit_index div 8)) OR push_bit (bit_index mod 8) 1]"

definition accrue_raw :: "u8 list \<Rightarrow> Bloom \<Rightarrow> Bloom" where
  "accrue_raw hash bloom = fold (\<lambda>i. set_bloom_bit (bloom_index hash i)) [0..<3] bloom"

definition accrue_address :: "crypto_lib \<Rightarrow> Address \<Rightarrow> Bloom \<Rightarrow> Bloom" where
  "accrue_address lib a bloom = accrue_raw (keccak256 lib (addr_bytes a)) bloom"

definition accrue_hash :: "crypto_lib \<Rightarrow> Hash \<Rightarrow> Bloom \<Rightarrow> Bloom" where
  "accrue_hash lib h bloom = accrue_raw (keccak256 lib (as_bytes h)) bloom"

definition accrue_log :: "crypto_lib \<Rightarrow> Log \<Rightarrow> Bloom \<Rightarrow> Bloom" where
  "accrue_log lib l bloom = fold (accrue_hash lib) (log_topics l) (accrue_address lib (log_address l) bloom)"

definition from_logs :: "crypto_lib \<Rightarrow> Log list \<Rightarrow> Bloom" where
  "from_logs lib logs = fold (accrue_log lib) logs Bloom_default"

definition contains_raw :: "Bloom \<Rightarrow> u8 list \<Rightarrow> bool" where
  "contains_raw bloom hash =
     list_all (\<lambda>i. let b = bloom_index hash i in (bloom ! (b div 8)) AND push_bit (b mod 8) 1 \<noteq> 0) [0..<3]"

definition contains_address :: "crypto_lib \<Rightarrow> Bloom \<Rightarrow> Address \<Rightarrow> bool" where
  "contains_address lib bloom a = contains_raw bloom (keccak256 lib (addr_bytes a))"

definition contains_hash :: "crypto_lib \<Rightarrow> Bloom \<Rightarrow> Hash \<Rightarrow> bool" where
  "contains_hash lib bloom h = contains_raw bloom (keccak256 lib (as_bytes h))"

definition bloom_combine :: "Bloom \<Rightarrow> Bloom \<Rightarrow> Bloom" where
  "bloom_combine bloom other = fold (\<lambda>i b. b[i := (b ! i) OR (other ! i)]) [0..<256] bloom"

section \<open>Receipts\<close>

record Receipt =
  rc_tx_hash :: Hash
  rc_tx_index :: u32
  rc_vertex_hash :: Hash
  rc_status :: ExecutionStatus
  rc_cumulative_gas_used :: u64
  rc_gas_used :: u64
  rc_effective_gas_price :: U256
  rc_contract_address :: "Address option"
  rc_logs :: "Log list"
  rc_logs_bloom :: Bloom
  rc_revert_reason :: "u8 list option"

definition Receipt_success :: "crypto_lib \<Rightarrow> Hash \<Rightarrow> Hash \<Rightarrow> u64 \<Rightarrow> U256 \<Rightarrow> Log list \<Rightarrow> Receipt" where
  "Receipt_success lib txh vh gas price logs =
     \<lparr>rc_tx_hash = txh, rc_tx_index = 0, rc_vertex_hash = vh, rc_status = ExSuccess,
      rc_cumulative_gas_used = gas, rc_gas_used = gas, rc_effective_gas_price = price,
      rc_contract_address = None, rc_logs = logs, rc_logs_bloom = from_logs lib logs,
      rc_revert_reason = None\<rparr>"

definition Receipt_revert :: "Hash \<Rightarrow> Hash \<Rightarrow> u64 \<Rightarrow> U256 \<Rightarrow> u8 list \<Rightarrow> Receipt" where
  "Receipt_revert txh vh gas price reason =
     \<lparr>rc_tx_hash = txh, rc_tx_index = 0, rc_vertex_hash = vh, rc_status = ExRevert,
      rc_cumulative_gas_used = gas, rc_gas_used = gas, rc_effective_gas_price = price,
      rc_contract_address = None, rc_logs = [], rc_logs_bloom = Bloom_default,
      rc_revert_reason = Some reason\<rparr>"

definition Receipt_failure :: "Hash \<Rightarrow> Hash \<Rightarrow> u64 \<Rightarrow> U256 \<Rightarrow> Receipt" where
  "Receipt_failure txh vh gas price =
     \<lparr>rc_tx_hash = txh, rc_tx_index = 0, rc_vertex_hash = vh, rc_status = ExFailure,
      rc_cumulative_gas_used = gas, rc_gas_used = gas, rc_effective_gas_price = price,
      rc_contract_address = None, rc_logs = [], rc_logs_bloom = Bloom_default,
      rc_revert_reason = None\<rparr>"

section \<open>Execution results\<close>

record ExecutionResult =
  er_success :: bool
  er_gas_used :: u64
  er_gas_refunded :: u64
  er_output :: "u8 list"
  er_logs :: "Log list"
  er_created_address :: "Address option"

definition ExecutionResult_success :: "u64 \<Rightarrow> u64 \<Rightarrow> u8 list \<Rightarrow> Log list \<Rightarrow> ExecutionResult" where
  "ExecutionResult_success gas_used gas_refunded out logs =
     \<lparr>er_success = True, er_gas_used = gas_used, er_gas_refunded = gas_refunded, er_output = out,
      er_logs = logs, er_created_address = None\<rparr>"

definition ExecutionResult_revert :: "u64 \<Rightarrow> u8 list \<Rightarrow> ExecutionResult" where
  "ExecutionResult_revert gas_used out =
     \<lparr>er_success = False, er_gas_used = gas_used, er_gas_refunded = 0, er_output = out,
      er_logs = [], er_created_address = None\<rparr>"

text \<open>The length is read from the last eight of its 32 bytes; its sum with the offset is a \<open>usize\<close>.\<close>

definition revert_reason :: "ExecutionResult \<Rightarrow> u8 list option run" where
  "revert_reason r =
     (let out = er_output r
      in if er_success r \<or> length out < 4 then Ret None
         else if take 4 out \<noteq> [0x08, 0xc3, 0x79, 0xa0] then Ret None
         else if length out < 68 then Ret None
         else let len = u64_from_be_bytes (take 8 (drop 60 out)); e = unat (68 + len)
              in if length out < e then Ret None
                 else if e < 68 then Panic
                 else let s = take (e - 68) (drop 68 out)
                      in Ret (if utf8_valid s then Some s else None))"

section \<open>Lemmas\<close>

definition bloom_bit :: "Bloom \<Rightarrow> nat \<Rightarrow> bool" where
  "bloom_bit bloom n \<longleftrightarrow> bit (bloom ! (n div 8)) (n mod 8)"

lemma and_power_eq_0: "w AND 2 ^ k = 0 \<longleftrightarrow> \<not> bit w k" for w :: "'a::len word"
  using bit_iff_and_push_bit_not_eq_0 [of w k] by simp

lemma contains_raw_iff: "contains_raw bloom hash \<longleftrightarrow> (\<forall>i < 3. bloom_bit bloom (bloom_index hash i))"
  by (auto simp: contains_raw_def bloom_bit_def list_all_iff Let_def and_power_eq_0)

lemma bloom_index_less: "bloom_index hash i < 2048"
  by (simp add: bloom_index_def)

lemma set_bloom_bit_iff:
  assumes "length bloom = 256" "n < 2048" "m < 2048"
  shows "bloom_bit (set_bloom_bit n bloom) m \<longleftrightarrow> m = n \<or> bloom_bit bloom m"
proof -
  have "m = n \<longleftrightarrow> m div 8 = n div 8 \<and> m mod 8 = n mod 8"
    by (metis div_mult_mod_eq)
  with assms show ?thesis
    by (auto simp: bloom_bit_def set_bloom_bit_def nth_list_update bit_simps)
qed

lemma length_set_bloom_bit [simp]: "length (set_bloom_bit n bloom) = length bloom"
  by (simp add: set_bloom_bit_def)

lemma length_accrue_raw [simp]: "length (accrue_raw hash bloom) = length bloom"
proof -
  have "length (fold (\<lambda>i. set_bloom_bit (bloom_index hash i)) is bloom) = length bloom" for "is"
    by (induction "is" arbitrary: bloom) simp_all
  then show ?thesis by (simp add: accrue_raw_def)
qed

lemma accrue_raw_iff:
  assumes "length bloom = 256" "m < 2048"
  shows "bloom_bit (accrue_raw hash bloom) m \<longleftrightarrow>
    bloom_bit bloom m \<or> (\<exists>i < 3. m = bloom_index hash i)"
proof -
  have "bloom_bit (fold (\<lambda>i. set_bloom_bit (bloom_index hash i)) is bloom) m \<longleftrightarrow>
      bloom_bit bloom m \<or> (\<exists>i \<in> set is. m = bloom_index hash i)" for "is"
    using assms by (induction "is" arbitrary: bloom) (auto simp: set_bloom_bit_iff bloom_index_less)
  from this [of "[0..<3]"] show ?thesis by (auto simp: accrue_raw_def)
qed

text \<open>A filter that has at least the bits of another one.\<close>

definition bloom_le :: "Bloom \<Rightarrow> Bloom \<Rightarrow> bool" where
  "bloom_le b c \<longleftrightarrow> length b = 256 \<and> length c = 256 \<and> (\<forall>n < 2048. bloom_bit b n \<longrightarrow> bloom_bit c n)"

lemma bloom_le_refl: "length b = 256 \<Longrightarrow> bloom_le b b"
  by (simp add: bloom_le_def)

lemma bloom_le_trans: "bloom_le a b \<Longrightarrow> bloom_le b c \<Longrightarrow> bloom_le a c"
  by (simp add: bloom_le_def)

lemma bloom_le_accrue: "length b = 256 \<Longrightarrow> bloom_le b (accrue_raw h b)"
  by (simp add: bloom_le_def accrue_raw_iff)

lemma contains_mono: "bloom_le b c \<Longrightarrow> contains_raw b h \<Longrightarrow> contains_raw c h"
  by (auto simp: bloom_le_def contains_raw_iff bloom_index_less)

lemma contains_accrue: "length b = 256 \<Longrightarrow> contains_raw (accrue_raw h b) h"
  by (auto simp: contains_raw_iff accrue_raw_iff bloom_index_less)

lemma bloom_le_topics:
  "length b = 256 \<Longrightarrow> bloom_le b (fold (accrue_hash lib) ts b)
     \<and> (\<forall>t \<in> set ts. contains_hash lib (fold (accrue_hash lib) ts b) t)"
proof (induction ts arbitrary: b)
  case (Cons t ts)
  let ?b = "accrue_hash lib t b"
  have len: "length ?b = 256" using Cons.prems by (simp add: accrue_hash_def)
  note IH = Cons.IH [OF len]
  have "bloom_le b ?b" using Cons.prems by (simp add: accrue_hash_def bloom_le_accrue)
  moreover have "contains_hash lib ?b t"
    using Cons.prems by (simp add: contains_hash_def accrue_hash_def contains_accrue)
  ultimately show ?case
    using IH contains_mono [of ?b "fold (accrue_hash lib) ts ?b"]
    by (auto simp: contains_hash_def intro: bloom_le_trans)
qed (simp add: bloom_le_refl)

lemma accrue_log_contains:
  assumes "length b = 256"
  shows "bloom_le b (accrue_log lib l b)" "contains_address lib (accrue_log lib l b) (log_address l)"
    "\<forall>t \<in> set (log_topics l). contains_hash lib (accrue_log lib l b) t"
proof -
  let ?b = "accrue_address lib (log_address l) b"
  have len: "length ?b = 256" using assms by (simp add: accrue_address_def)
  note topics = bloom_le_topics [OF len, of lib "log_topics l"]
  have "bloom_le b ?b" using assms by (simp add: accrue_address_def bloom_le_accrue)
  with topics show "bloom_le b (accrue_log lib l b)"
    by (auto simp: accrue_log_def intro: bloom_le_trans)
  have "contains_address lib ?b (log_address l)"
    using assms by (simp add: contains_address_def accrue_address_def contains_accrue)
  with topics show "contains_address lib (accrue_log lib l b) (log_address l)"
    by (auto simp: accrue_log_def contains_address_def intro: contains_mono)
  show "\<forall>t \<in> set (log_topics l). contains_hash lib (accrue_log lib l b) t"
    using topics by (simp add: accrue_log_def)
qed

lemma from_logs_le:
  "length b = 256 \<Longrightarrow> bloom_le b (fold (accrue_log lib) logs b)"
proof (induction logs arbitrary: b)
  case (Cons l logs)
  have "length (accrue_log lib l b) = 256"
    using accrue_log_contains(1) [OF Cons.prems, of lib l] by (simp add: bloom_le_def)
  then show ?case
    using Cons.IH accrue_log_contains(1) [OF Cons.prems, of lib l] by (auto intro: bloom_le_trans)
qed (simp add: bloom_le_refl)

lemma fold_logs_contains:
  assumes "length b = 256" "l \<in> set logs"
  shows "contains_address lib (fold (accrue_log lib) logs b) (log_address l)
    \<and> (\<forall>t \<in> set (log_topics l). contains_hash lib (fold (accrue_log lib) logs b) t)"
  using assms
proof (induction logs arbitrary: b)
  case (Cons k logs)
  let ?b = "accrue_log lib k b"
  have len: "length ?b = 256"
    using accrue_log_contains(1) [OF Cons.prems(1), of lib k] by (simp add: bloom_le_def)
  show ?case
  proof (cases "l \<in> set logs")
    case True
    with Cons.IH [OF len] show ?thesis by simp
  next
    case False
    with Cons.prems(2) have "l = k" by simp
    with accrue_log_contains(2,3) [OF Cons.prems(1), where lib = lib and l = k] from_logs_le [OF len, of lib logs]
    show ?thesis by (auto simp: contains_address_def contains_hash_def intro: contains_mono)
  qed
qed simp

section \<open>Properties\<close>

text \<open>
  The bloom filter of a receipt has no false negatives: it contains the address and every topic
  of each of its logs.
\<close>

theorem receipt_bloom_complete:
  assumes "l \<in> set logs" and "r = Receipt_success lib txh vh gas price logs"
  shows "contains_address lib (rc_logs_bloom r) (log_address l)
    \<and> (\<forall>t \<in> set (log_topics l). contains_hash lib (rc_logs_bloom r) t)"
  using fold_logs_contains [of Bloom_default l logs lib] assms
  by (simp add: Receipt_success_def from_logs_def Bloom_default_def)

theorem receipt_bloom_complete_witness:
  "contains_address demo_lib (rc_logs_bloom (Receipt_success demo_lib 1 2 21000 ONE
     [\<lparr>log_address = 5, log_topics = [7], log_data = []\<rparr>])) 5"
  using receipt_bloom_complete [OF _ refl, of "\<lparr>log_address = 5, log_topics = [7], log_data = []\<rparr>"
      "[\<lparr>log_address = 5, log_topics = [7], log_data = []\<rparr>]" demo_lib 1 2 21000 ONE]
  by simp

text \<open>
  A contract can make the node panic by reverting: return data with the selector of
  \<open>Error(string)\<close> and a length field of at least \<open>2 ^ 64 - 68\<close> makes the sum of offset and length
  wrap around, so that the bounds check passes and the slice has its start after its end.
\<close>

theorem revert_reason_panics:
  assumes "out = [0x08, 0xc3, 0x79, 0xa0] @ replicate 56 0 @ u64_to_be_bytes len @ rest"
    and "2 ^ 64 - 68 \<le> unat len"
  shows "revert_reason (ExecutionResult_revert gas out) = Panic"
proof -
  have sum: "unat (68 + len) = unat len + 68 - 2 ^ 64"
  proof -
    have "unat (68 + len) = (68 + unat len) mod 2 ^ 64" by (simp add: unat_word_ariths)
    also have "\<dots> = 68 + unat len - 2 ^ 64"
      using assms(2) unat_lt2p [of len] by (subst le_mod_geq, simp, subst mod_less) simp_all
    finally show ?thesis by simp
  qed
  then have e: "unat (68 + len) < 68" using unat_lt2p [of len] by simp
  have "take 8 (drop 60 out) = u64_to_be_bytes len" "length out = 68 + length rest"
    "take 4 out = [0x08, 0xc3, 0x79, 0xa0]"
    using assms(1) by simp_all
  with e show ?thesis
    by (simp add: revert_reason_def ExecutionResult_revert_def Let_def)
qed

theorem revert_reason_panics_witness:
  "revert_reason (ExecutionResult_revert 0
     ([0x08, 0xc3, 0x79, 0xa0] @ replicate 56 0 @ u64_to_be_bytes (- 1) @ [])) = Panic"
  by (rule revert_reason_panics [OF refl]) (simp add: unsigned_minus_1_eq_mask mask_eq_exp_minus_1)

end
