(* ===== verification/Evm_Executor.thy ===== *)
theory Evm_Executor
  imports Transaction Evm_Precompiles Evm_Receipt
begin

text \<open>
  The executor, \<^verbatim>\<open>src/crates/nexus-evm/src/executor.rs\<close>, with the database adapter of
  \<^verbatim>\<open>src/crates/nexus-evm/src/revm_db.rs\<close>: validation, fees, the upfront charge, contract creation and
  calls, precompile dispatch, the write-back of the interpreter's state changes, refunds and the
  payment of the coinbase. The interpreter itself is the third-party crate \<^verbatim>\<open>revm\<close>: a function
  from the adapter's read operations and the transaction environment to an error text or a result
  with the touched accounts. The executor and its journal share one state database, which is the
  state inside the journal while a transaction runs. Gas arithmetic wraps at 64 bits.
\<close>

section \<open>Environment and executor\<close>

record EvmEnv =
  env_chain_id :: u64
  env_number :: u64
  env_timestamp :: u64
  env_coinbase :: Address
  env_gas_limit :: u64
  env_base_fee_per_gas :: U256
  env_prev_hash :: Hash
  env_difficulty :: U256
  env_prevrandao :: Hash

definition EvmEnv_default :: EvmEnv where
  "EvmEnv_default = \<lparr>env_chain_id = 1337, env_number = 0, env_timestamp = 0, env_coinbase = 0,
     env_gas_limit = 30000000, env_base_fee_per_gas = from_u64 1000000000, env_prev_hash = 0,
     env_difficulty = ZERO, env_prevrandao = 0\<rparr>"

record Executor =
  ex_state :: StateDb
  ex_env :: EvmEnv
  ex_gas_schedule :: GasSchedule
  ex_fee_market :: FeeMarket
  ex_precompiles :: "(Address, PrecompileFn) hmap"
  ex_accessed_addresses :: "Address list"
  ex_accessed_storage :: "(Address \<times> U256) list"

definition Executor_new ::
    "crypto_lib \<Rightarrow> ('fq, 'fr, 'g1, 'g2) evm_lib \<Rightarrow> StateDb \<Rightarrow> EvmEnv \<Rightarrow> Executor" where
  "Executor_new lib el s env =
     \<lparr>ex_state = s, ex_env = env, ex_gas_schedule = berlin, ex_fee_market = FeeMarket_default,
      ex_precompiles = get_precompiles lib el, ex_accessed_addresses = [], ex_accessed_storage = []\<rparr>"

section \<open>The interpreter's view of the state\<close>

record AccountInfo =
  ai_balance :: U256
  ai_nonce :: u64
  ai_code_hash :: Hash
  ai_code :: "u8 list option"

record RevmDb =
  rd_basic :: "Address \<Rightarrow> AccountInfo option"
  rd_code_by_hash :: "Hash \<Rightarrow> u8 list"
  rd_storage :: "Address \<Rightarrow> U256 \<Rightarrow> U256"
  rd_block_hash :: "U256 \<Rightarrow> Hash"

definition db_basic :: "crypto_lib \<Rightarrow> StateDb \<Rightarrow> Address \<Rightarrow> AccountInfo option" where
  "db_basic lib s a =
     (let acc = get_account s a
      in if acc_is_empty acc then None
         else let (code, code_hash) = (if ac_code_hash acc = 0 then (None, keccak lib [])
                                       else (Some (get_code s a), ac_code_hash acc))
              in Some \<lparr>ai_balance = ac_balance acc, ai_nonce = ac_nonce acc, ai_code_hash = code_hash,
                       ai_code = code\<rparr>)"

definition NexusDatabase :: "crypto_lib \<Rightarrow> StateDb \<Rightarrow> RevmDb" where
  "NexusDatabase lib s =
     \<lparr>rd_basic = db_basic lib s, rd_code_by_hash = (\<lambda>h. []), rd_storage = get_storage s,
      rd_block_hash = (\<lambda>n. 0)\<rparr>"

record RevmTx =
  rt_chain_id :: u64
  rt_number :: u64
  rt_timestamp :: u64
  rt_coinbase :: Address
  rt_block_gas_limit :: u64
  rt_caller :: Address
  rt_to :: Address
  rt_data :: "u8 list"
  rt_value :: U256
  rt_gas_limit :: u64

datatype RevmResult =
    RevmSuccess (rr_gas_used: u64) (rr_gas_refunded: u64) (rr_output: "u8 list") (rr_logs: "Log list")
  | RevmRevert (rr_gas_used: u64) (rr_output: "u8 list")
  | RevmHalt (rr_gas_used: u64)

record RevmAccount =
  ra_touched :: bool
  ra_selfdestructed :: bool
  ra_info :: AccountInfo
  ra_storage :: "(U256 \<times> U256 \<times> bool) list"

type_synonym revm = "RevmDb \<Rightarrow> RevmTx \<Rightarrow> string + RevmResult \<times> (Address \<times> RevmAccount) list"

text \<open>A storage entry holds the slot, its present value and whether it changed.\<close>

definition apply_revm_account :: "crypto_lib \<Rightarrow> Address \<times> RevmAccount \<Rightarrow> StateDb \<Rightarrow> StateDb" where
  "apply_revm_account lib e s =
     (case e of (a, acc) \<Rightarrow>
      if \<not> ra_touched acc then s
      else if ra_selfdestructed acc then delete_account a s
      else
        let s = set_account a ((get_account s a)
                  \<lparr>ac_balance := ai_balance (ra_info acc), ac_nonce := ai_nonce (ra_info acc)\<rparr>) s;
            s = (case ai_code (ra_info acc) of None \<Rightarrow> s
                 | Some code \<Rightarrow>
                   if code \<noteq> [] \<and> ai_code_hash (ra_info acc) \<noteq> ac_code_hash (get_account s a)
                   then set_code lib a code s else s)
        in fold (\<lambda>(slot, val, changed) s. if changed then set_storage a slot val s else s)
             (ra_storage acc) s)"

definition apply_revm_state :: "crypto_lib \<Rightarrow> (Address \<times> RevmAccount) list \<Rightarrow> StateDb \<Rightarrow> StateDb" where
  "apply_revm_state lib changes s = fold (apply_revm_account lib) changes s"

section \<open>Fees and validation\<close>

definition executor_validate_tx :: "Executor \<Rightarrow> Transaction \<Rightarrow> unit EvmResult" where
  "executor_validate_tx ex t =
     (if gas_limit t > env_gas_limit (ex_env ex)
      then Inl (OutOfGas (gas_limit t) (env_gas_limit (ex_env ex)))
      else if chain_id t \<noteq> env_chain_id (ex_env ex)
      then Inl (StateError (''Chain ID mismatch: expected '' @ dec_digits (unat (env_chain_id (ex_env ex)))
                  @ '', got '' @ dec_digits (unat (chain_id t))))
      else Inr ())"

definition calculate_gas_price :: "Executor \<Rightarrow> Transaction \<Rightarrow> U256 EvmResult run" where
  "calculate_gas_price ex t =
     (case tx_type t of
        DynamicFee \<Rightarrow>
          (let base = env_base_fee_per_gas (ex_env ex)
           in if gas_price t < base then Ret (Inl (StateError ''Max fee per gas below base fee''))
              else
                let prio = (case max_priority_fee t of None \<Rightarrow> ZERO | Some p \<Rightarrow> p)
                in run_bind (u256_sub (gas_price t) base) (\<lambda>room.
                   run_bind (u256_add base (min prio room)) (\<lambda>p. Ret (Inr p))))
      | _ \<Rightarrow> Ret (Inr (gas_price t)))"

definition create_rlp :: "Address \<Rightarrow> u64 \<Rightarrow> u8 list" where
  "create_rlp sender n =
     (let nonce_bytes =
            (if n = 0 then [0x80]
             else if n < 128 then [ucast n]
             else let bytes = dropWhile (\<lambda>b. b = 0) (u64_to_be_bytes n)
                  in (0x80 + of_nat (length bytes)) # bytes);
          list_len = 21 + length nonce_bytes;
          header = (if list_len < 56 then [0xc0 + of_nat list_len] else [0xf7 + 1, of_nat list_len])
      in header @ [0x80 + 20] @ addr_bytes sender @ nonce_bytes)"

definition calculate_create_address :: "crypto_lib \<Rightarrow> Address \<Rightarrow> u64 \<Rightarrow> Address" where
  "calculate_create_address lib sender n =
     (case Address_from_slice (drop 12 (keccak256 lib (create_rlp sender n))) of None \<Rightarrow> 0 | Some a \<Rightarrow> a)"

definition calculate_create2_address :: "crypto_lib \<Rightarrow> Address \<Rightarrow> B32 \<Rightarrow> B32 \<Rightarrow> Address" where
  "calculate_create2_address lib sender salt init_code_hash =
     (case Address_from_slice (drop 12 (keccak256 lib
             (0xff # addr_bytes sender @ as_bytes salt @ as_bytes init_code_hash))) of None \<Rightarrow> 0 | Some a \<Rightarrow> a)"

section \<open>Execution\<close>

definition result_of_revm :: "RevmResult \<Rightarrow> ExecutionResult" where
  "result_of_revm r =
     (case r of
        RevmSuccess gas_used gas_refunded out logs \<Rightarrow> ExecutionResult_success gas_used gas_refunded out logs
      | RevmRevert gas_used out \<Rightarrow> ExecutionResult_revert gas_used out
      | RevmHalt gas_used \<Rightarrow> ExecutionResult_revert gas_used [])"

definition execute_code ::
    "crypto_lib \<Rightarrow> revm \<Rightarrow> Executor \<Rightarrow> Address \<Rightarrow> Address \<Rightarrow> u8 list \<Rightarrow> u8 list \<Rightarrow> U256 \<Rightarrow> u64 \<Rightarrow> StateDb
       \<Rightarrow> StateDb \<times> ExecutionResult EvmResult" where
  "execute_code lib rv ex caller address code data val gas s =
     (let s = (if get_code s address \<noteq> code \<and> code \<noteq> [] then set_code lib address code s else s);
          env = ex_env ex
      in case rv (NexusDatabase lib s)
                \<lparr>rt_chain_id = env_chain_id env, rt_number = env_number env,
                 rt_timestamp = env_timestamp env, rt_coinbase = env_coinbase env,
                 rt_block_gas_limit = env_gas_limit env, rt_caller = caller, rt_to = address,
                 rt_data = data, rt_value = val, rt_gas_limit = gas\<rparr> of
           Inl msg \<Rightarrow> (s, Inl (StateError (''REVM: '' @ msg)))
         | Inr (r, changes) \<Rightarrow> (apply_revm_state lib changes s, Inr (result_of_revm r)))"

definition execute_create ::
    "crypto_lib \<Rightarrow> revm \<Rightarrow> Executor \<Rightarrow> Address \<Rightarrow> Transaction \<Rightarrow> StateDb \<Rightarrow> StateDb \<times> ExecutionResult EvmResult" where
  "execute_create lib rv ex sender t s =
     (let n = get_nonce s sender - 1; contract = calculate_create_address lib sender n
      in if \<not> acc_is_empty (get_account s contract)
         then (s, Inl (CreateFailed ''Contract address already exists''))
         else
           let s = set_account contract
                     \<lparr>ac_nonce = 1, ac_balance = ZERO, ac_code_hash = 0, ac_storage_root = 0\<rparr> s;
               s = set_code lib contract (tx_data t) s;
               gas_available = gas_limit t - tx_create (ex_gas_schedule ex)
           in case execute_code lib rv ex sender contract (tx_data t) [] (tx_value t) gas_available s of
                (s, Inl e) \<Rightarrow> (s, Inl e)
              | (s, Inr result) \<Rightarrow>
                if er_success result
                then
                  let code = er_output result
                  in if length code > 24576 then (s, Inl (CreateFailed ''Contract code size exceeds limit''))
                     else if code \<noteq> [] \<and> hd code = 0xEF
                     then (s, Inl (CreateFailed ''Contract code starts with 0xEF''))
                     else (set_code lib contract code s,
                           Inr \<lparr>er_success = True, er_gas_used = er_gas_used result + len64 code * 200,
                                er_gas_refunded = er_gas_refunded result, er_output = [],
                                er_logs = er_logs result, er_created_address = Some contract\<rparr>)
                else (s, Inr result))"

text \<open>The value transfer of the two paths that do not enter the interpreter.\<close>

definition move_value :: "Address \<Rightarrow> Address \<Rightarrow> U256 \<Rightarrow> StateDb \<Rightarrow> (StateDb \<times> unit EvmResult) run" where
  "move_value sender dest val s =
     (if val > ZERO
      then run_bind (sub_balance sender val s) (\<lambda>(s, r).
             case r of Inl e \<Rightarrow> Ret (s, Inl e) | Inr _ \<Rightarrow> Ret (add_balance dest val s))
      else Ret (s, Inr ()))"

definition execute_call ::
    "crypto_lib \<Rightarrow> revm \<Rightarrow> Executor \<Rightarrow> Address \<Rightarrow> Address \<Rightarrow> U256 \<Rightarrow> u8 list \<Rightarrow> u64 \<Rightarrow> StateDb
       \<Rightarrow> (StateDb \<times> ExecutionResult EvmResult) run" where
  "execute_call lib rv ex sender dest val data gas s =
     (case hget (ex_precompiles ex) dest of
        Some precompile \<Rightarrow>
          run_bind (move_value sender dest val s) (\<lambda>(s, r).
            case r of Inl e \<Rightarrow> Ret (s, Inl e)
            | Inr _ \<Rightarrow>
              run_bind (precompile data gas (ex_gas_schedule ex)) (\<lambda>pr.
                case pr of Inl e \<Rightarrow> Ret (s, Inl e)
                | Inr result \<Rightarrow>
                  Ret (s, Inr (ExecutionResult_success (pc_gas_used result) 0 (pc_output result) []))))
      | None \<Rightarrow>
        let code = get_code s dest
        in if code = []
           then run_bind (move_value sender dest val s) (\<lambda>(s, r).
                  case r of Inl e \<Rightarrow> Ret (s, Inl e)
                  | Inr _ \<Rightarrow> Ret (s, Inr (ExecutionResult_success 0 0 [] [])))
           else Ret (execute_code lib rv ex sender dest code data val gas s))"

text \<open>
  The end of \<open>execute_tx\<close>: the receipt and the gas used from the result of the execution, with the
  commit or revert of the checkpoint, then refund and coinbase payment.
\<close>

definition settle_result ::
    "crypto_lib \<Rightarrow> Executor \<Rightarrow> Transaction \<Rightarrow> u64 \<Rightarrow> U256 \<Rightarrow> nat \<Rightarrow> ExecutionResult EvmResult \<Rightarrow> JournaledState
       \<Rightarrow> (JournaledState \<times> Receipt \<times> u64) run" where
  "settle_result lib ex t intrinsic price cp result j =
     (let txh = tx_hash lib t; prev = env_prev_hash (ex_env ex)
      in case result of
           Inr r \<Rightarrow>
             if er_success r
             then let gas_used = intrinsic + er_gas_used r - er_gas_refunded r
                  in Ret (commit_checkpoint cp j,
                          (Receipt_success lib txh prev gas_used price (er_logs r))
                            \<lparr>rc_contract_address := er_created_address r\<rparr>, gas_used)
             else run_bind (revert_reason r) (\<lambda>reason.
                    Ret (revert_checkpoint cp j,
                         Receipt_revert txh prev (intrinsic + er_gas_used r) price
                           (case reason of None \<Rightarrow> [] | Some x \<Rightarrow> x), intrinsic + er_gas_used r))
         | Inl e \<Rightarrow> Ret (revert_checkpoint cp j, Receipt_failure txh prev (gas_limit t) price, gas_limit t))"

definition pay_gas ::
    "Executor \<Rightarrow> Transaction \<Rightarrow> Address \<Rightarrow> U256 \<Rightarrow> u64 \<Rightarrow> StateDb \<Rightarrow> (StateDb \<times> unit EvmResult) run" where
  "pay_gas ex t sender price gas_used s =
     (let gas_refund = gas_limit t - gas_used
      in case add_balance sender (u256_mul price (from_u64 gas_refund)) s of
           (s, Inl e) \<Rightarrow> Ret (s, Inl e)
         | (s, Inr _) \<Rightarrow>
           let fee = u256_mul price (from_u64 gas_used)
           in run_bind (u256_sub fee (u256_mul (env_base_fee_per_gas (ex_env ex)) (from_u64 gas_used)))
                (\<lambda>priority_fee. Ret (add_balance (env_coinbase (ex_env ex)) priority_fee s)))"

definition execute_tx ::
    "crypto_lib \<Rightarrow> revm \<Rightarrow> Transaction \<Rightarrow> Executor \<Rightarrow> (Executor \<times> Receipt EvmResult) run" where
  "execute_tx lib rv t ex =
     (case executor_validate_tx ex t of Inl e \<Rightarrow> Ret (ex, Inl e)
      | Inr _ \<Rightarrow>
        (case recover_sender lib t of Inl _ \<Rightarrow> Ret (ex, Inl EvmInvalidSignature)
         | Inr sender \<Rightarrow>
           let ex = ex\<lparr>ex_accessed_addresses :=
                         (case tx_to t of None \<Rightarrow> [sender] | Some a \<Rightarrow> List.insert a [sender]),
                       ex_accessed_storage := []\<rparr>;
               is_create = (tx_to t = None);
               intrinsic = intrinsic_gas (ex_gas_schedule ex) (tx_data t) is_create 0
           in if gas_limit t < intrinsic then Ret (ex, Inl (OutOfGas intrinsic (gas_limit t)))
              else run_bind (calculate_gas_price ex t) (\<lambda>pr.
                case pr of Inl e \<Rightarrow> Ret (ex, Inl e)
                | Inr price \<Rightarrow>
                  let max_fee = u256_mul price (from_u64 (gas_limit t));
                      bal = get_balance (ex_state ex) sender
                  in run_bind (u256_add max_fee (tx_value t)) (\<lambda>total_cost.
                     if bal < total_cost
                     then Ret (ex, Inl (InsufficientBalance (u256_debug total_cost) (u256_debug bal)))
                     else if nonce t \<noteq> get_nonce (ex_state ex) sender
                     then Ret (ex, Inl (NonceMismatch (get_nonce (ex_state ex) sender) (nonce t)))
                     else run_bind (u256_sub bal max_fee) (\<lambda>rest.
                       let j = journal_set_balance sender rest (JournaledState_new (ex_state ex));
                           j = j\<lparr>js_state := increment_nonce sender (js_state j)\<rparr>;
                           (j, cp) = checkpoint j
                       in run_bind
                            (case tx_to t of
                               None \<Rightarrow> Ret (execute_create lib rv ex sender t (js_state j))
                             | Some dest \<Rightarrow>
                               execute_call lib rv ex sender dest (tx_value t) (tx_data t)
                                 (gas_limit t - intrinsic) (js_state j))
                            (\<lambda>(s, result).
                          run_bind (settle_result lib ex t intrinsic price cp result (j\<lparr>js_state := s\<rparr>))
                            (\<lambda>(j, receipt, gas_used).
                          run_bind (pay_gas ex t sender price gas_used (js_state j))
                            (\<lambda>(s, r). Ret (ex\<lparr>ex_state := s\<rparr>,
                               case r of Inl e \<Rightarrow> Inl e | Inr _ \<Rightarrow> Inr receipt)))))))))"

definition call_dry_run ::
    "crypto_lib \<Rightarrow> revm \<Rightarrow> Address \<Rightarrow> Address \<Rightarrow> U256 \<Rightarrow> u8 list \<Rightarrow> u64 \<Rightarrow> Executor
       \<Rightarrow> (Executor \<times> (u8 list \<times> u64) EvmResult) run" where
  "call_dry_run lib rv caller dest val data gas ex =
     (let (j, cp) = checkpoint (JournaledState_new (ex_state ex))
      in run_bind (execute_call lib rv ex caller dest val data gas (js_state j)) (\<lambda>(s, result).
           Ret (ex\<lparr>ex_state := js_state (revert_checkpoint cp (j\<lparr>js_state := s\<rparr>))\<rparr>,
                map_sum id (\<lambda>r. (er_output r, er_gas_used r)) result)))"

fun execute_batch ::
    "crypto_lib \<Rightarrow> revm \<Rightarrow> Transaction list \<Rightarrow> Executor \<Rightarrow> (Executor \<times> Receipt EvmResult list) run" where
  "execute_batch lib rv [] ex = Ret (ex, [])"
| "execute_batch lib rv (t # ts) ex =
     run_bind (execute_tx lib rv t ex) (\<lambda>(ex, r).
       run_map (\<lambda>(ex, rs). (ex, r # rs)) (execute_batch lib rv ts ex))"

definition access_address :: "Address \<Rightarrow> Executor \<Rightarrow> Executor \<times> u64" where
  "access_address a ex =
     (if a \<in> set (ex_accessed_addresses ex) then (ex, warm_account_access (ex_gas_schedule ex))
      else (ex\<lparr>ex_accessed_addresses := a # ex_accessed_addresses ex\<rparr>,
            cold_account_access (ex_gas_schedule ex)))"

definition access_storage :: "Address \<Rightarrow> U256 \<Rightarrow> Executor \<Rightarrow> Executor \<times> u64" where
  "access_storage a k ex =
     (if (a, k) \<in> set (ex_accessed_storage ex) then (ex, sload_warm (ex_gas_schedule ex))
      else (ex\<lparr>ex_accessed_storage := (a, k) # ex_accessed_storage ex\<rparr>,
            cold_sload (ex_gas_schedule ex)))"

section \<open>Contract addresses\<close>

lemma dropWhile_zeros:
  "xs \<noteq> [] \<Longrightarrow> hd xs \<noteq> 0 \<Longrightarrow> dropWhile (\<lambda>b. b = 0) (replicate k (0::u8) @ xs) = xs"
  by (cases xs) (induction k; simp)+

lemma dropWhile_be_bytes:
  assumes "n \<noteq> (0::u64)"
  shows "dropWhile (\<lambda>b. b = 0) (u64_to_be_bytes n) = minimal_be (unat n)"
proof -
  have b: "unat n < 256 ^ 8" using unat_lt2p [of n] by simp
  have "unat n \<noteq> 0" using assms by (simp add: unat_eq_zero)
  then show ?thesis
    using dropWhile_zeros minimal_be_hd [of "unat n"]
    by (simp add: u64_to_be_bytes_def be_bytes_split [OF b] minimal_be_Nil_iff)
qed

lemma create_rlp_eq: "create_rlp sender n = create_preimage sender n"
proof -
  let ?s = "rlp_string (minimal_be (unat n))"
  have small: "length (minimal_be (unat n)) \<le> 8"
    using unat_lt2p [of n] by (intro minimal_be_length_bound) simp
  have "(if n = 0 then [0x80] else if n < 128 then [ucast n]
      else let bytes = dropWhile (\<lambda>b. b = 0) (u64_to_be_bytes n)
           in (0x80 + of_nat (length bytes)) # bytes) = ?s"
    using nonce_part_rlp [of n, symmetric] dropWhile_be_bytes [of n]
      first_nonzero_be_bytes [of "unat n"] unat_lt2p [of n] small
    by (auto simp: Let_def u64_to_be_bytes_def unat_gt_0)
  then have "create_rlp sender n = (let list_len = 21 + length ?s in
      (if list_len < 56 then [0xc0 + of_nat list_len] else [0xf7 + 1, of_nat list_len])
        @ [0x80 + 20] @ addr_bytes sender @ ?s)"
    by (simp only: create_rlp_def Let_def)
  moreover have "length ?s \<le> 9" using small by (simp add: rlp_string_def rlp_length_def)
  ultimately show ?thesis
    by (simp add: create_preimage_rlp rlp_list_def rlp_length_def rlp_string_def Let_def)
qed

lemma calculate_create_address_eq:
  "calculate_create_address lib sender n = create_contract_address lib sender n"
  by (simp add: calculate_create_address_def create_contract_address_def create_rlp_eq
      Address_from_slice_def keccak256_def)

section \<open>Admission and settlement\<close>

text \<open>
  The conditions under which \<open>execute_tx\<close> gets past its checks, with sums and products of natural
  numbers, and the state it runs the transaction on: the sender has paid for the whole gas limit and
  its nonce has moved.
\<close>

definition tx_intrinsic :: "Executor \<Rightarrow> Transaction \<Rightarrow> u64" where
  "tx_intrinsic ex t = intrinsic_gas (ex_gas_schedule ex) (tx_data t) (tx_to t = None) 0"

definition admitted :: "crypto_lib \<Rightarrow> Executor \<Rightarrow> Transaction \<Rightarrow> Address \<Rightarrow> U256 \<Rightarrow> bool" where
  "admitted lib ex t sender price \<longleftrightarrow>
     executor_validate_tx ex t = Inr () \<and> recover_sender lib t = Inr sender
     \<and> tx_intrinsic ex t \<le> gas_limit t \<and> calculate_gas_price ex t = Ret (Inr price)
     \<and> u256_val price * unat (gas_limit t) + u256_val (tx_value t) \<le> u256_val (get_balance (ex_state ex) sender)
     \<and> nonce t = get_nonce (ex_state ex) sender"

definition charged :: "Executor \<Rightarrow> Address \<Rightarrow> U256 \<Rightarrow> StateDb" where
  "charged ex sender rest = increment_nonce sender (set_balance sender rest (ex_state ex))"

definition run_tx ::
    "crypto_lib \<Rightarrow> revm \<Rightarrow> Transaction \<Rightarrow> Executor \<Rightarrow> Address \<Rightarrow> U256 \<Rightarrow> U256 \<Rightarrow> (Executor \<times> Receipt EvmResult) run" where
  "run_tx lib rv t ex sender price rest =
     run_bind
       (case tx_to t of
          None \<Rightarrow> Ret (execute_create lib rv ex sender t (charged ex sender rest))
        | Some dest \<Rightarrow> execute_call lib rv ex sender dest (tx_value t) (tx_data t)
            (gas_limit t - tx_intrinsic ex t) (charged ex sender rest))
       (\<lambda>(s, result).
     run_bind (settle_result lib ex t (tx_intrinsic ex t) price 0 result
         \<lparr>js_state = s, js_journal = [BalanceChanged sender (get_balance (ex_state ex) sender)],
          js_checkpoints = [1]\<rparr>)
       (\<lambda>(j, receipt, gas_used).
     run_bind (pay_gas ex t sender price gas_used (js_state j))
       (\<lambda>(s, r). Ret (ex\<lparr>ex_state := s\<rparr>, case r of Inl e \<Rightarrow> Inl e | Inr _ \<Rightarrow> Inr receipt))))"

lemma warm_sets_irrelevant [simp]:
  "calculate_gas_price (ex\<lparr>ex_accessed_addresses := as, ex_accessed_storage := ks\<rparr>) = calculate_gas_price ex"
  "tx_intrinsic (ex\<lparr>ex_accessed_addresses := as, ex_accessed_storage := ks\<rparr>) = tx_intrinsic ex"
  "charged (ex\<lparr>ex_accessed_addresses := as, ex_accessed_storage := ks\<rparr>) = charged ex"
  by (simp_all add: calculate_gas_price_def tx_intrinsic_def charged_def fun_eq_iff split: TxType.split)

lemma u256_mul_exact:
  "u256_val x * u256_val y < 2 ^ 256 \<Longrightarrow> u256_val (u256_mul x y) = u256_val x * u256_val y"
  by (simp add: u256_val_mul)

lemma gas_cost_le:
  assumes "u256_val price * unat (l::u64) + v \<le> u256_val b" and "m \<le> l"
  shows "u256_val (u256_mul price (from_u64 m)) = u256_val price * unat m"
proof -
  have "u256_val price * unat m \<le> u256_val price * unat l"
    using assms(2) by (simp add: word_le_nat_alt mult_le_mono2)
  also have "\<dots> < 2 ^ 256" using assms(1) u256_val_bound [of b] by linarith
  finally show ?thesis by (simp add: u256_mul_exact)
qed

lemma execute_tx_admitted:
  assumes "admitted lib ex t sender price"
  obtains rest warm where
    "u256_val rest + u256_val price * unat (gas_limit t) = u256_val (get_balance (ex_state ex) sender)"
    and "execute_tx lib rv t ex
      = run_tx lib rv t (ex\<lparr>ex_accessed_addresses := warm, ex_accessed_storage := []\<rparr>) sender price rest"
proof -
  let ?b = "get_balance (ex_state ex) sender"
  have cost: "u256_val price * unat (gas_limit t) + u256_val (tx_value t) \<le> u256_val ?b"
    using assms by (simp add: admitted_def)
  have fee: "u256_val (u256_mul price (from_u64 (gas_limit t))) = u256_val price * unat (gas_limit t)"
    using gas_cost_le [OF cost] by simp
  obtain total where total: "u256_add (u256_mul price (from_u64 (gas_limit t))) (tx_value t) = Ret total"
      "u256_val total = u256_val price * unat (gas_limit t) + u256_val (tx_value t)"
    using u256_add_val [of "u256_mul price (from_u64 (gas_limit t))" "tx_value t"] fee cost u256_val_bound [of ?b]
    by fastforce
  obtain rest where rest: "u256_sub ?b (u256_mul price (from_u64 (gas_limit t))) = Ret rest"
      "u256_val rest + u256_val price * unat (gas_limit t) = u256_val ?b"
    using u256_sub_val [of "u256_mul price (from_u64 (gas_limit t))" ?b] fee cost by auto
  have "\<not> ?b < total" using total(2) cost by (simp add: u256_less_iff)
  moreover have "\<not> gas_limit t < tx_intrinsic ex t" using assms by (simp add: admitted_def not_less)
  ultimately have "execute_tx lib rv t ex
      = run_tx lib rv t (ex\<lparr>ex_accessed_addresses := (case tx_to t of None \<Rightarrow> [sender] | Some a \<Rightarrow> List.insert a [sender]),
          ex_accessed_storage := []\<rparr>) sender price rest"
    using assms total(1) rest(1)
    by (cases "tx_to t") (simp_all add: execute_tx_def run_tx_def admitted_def Let_def tx_intrinsic_def
        JournaledState_new_def checkpoint_def journal_set_balance_def flip: charged_def)
  with rest(2) that show ?thesis by blast
qed

lemma get_account_increment_nonce [simp]:
  "get_account (increment_nonce a s) b
    = (if b = a then (get_account s a)\<lparr>ac_nonce := ac_nonce (get_account s a) + 1\<rparr> else get_account s b)"
  by (simp add: increment_nonce_def)

lemma get_storage_increment_nonce [simp]: "get_storage (increment_nonce a s) = get_storage s"
  by (simp add: increment_nonce_def)

lemma get_account_charged:
  "get_account (charged ex sender rest) a
    = (if a = sender then (get_account (ex_state ex) a)
         \<lparr>ac_balance := rest, ac_nonce := ac_nonce (get_account (ex_state ex) a) + 1\<rparr>
       else get_account (ex_state ex) a)"
  by (simp add: charged_def)

lemma get_code_charged [simp]: "get_code (charged ex sender rest) a = get_code (ex_state ex) a"
proof -
  have "sd_code (charged ex sender rest) = sd_code (ex_state ex)"
    by (simp add: charged_def increment_nonce_def set_balance_def set_account_def)
  then show ?thesis by (simp add: get_code_def get_account_charged Let_def)
qed

lemma add_balance_ok:
  assumes "u256_val (get_balance s a) + u256_val v < 2 ^ 256"
  obtains b where "add_balance a v s = (set_balance a b s, Inr ())"
    "u256_val b = u256_val (get_balance s a) + u256_val v"
proof -
  obtain b where "checked_add (get_balance s a) v = Some b"
    using assms checked_add_None_iff [of "get_balance s a" v] by (cases "checked_add (get_balance s a) v") auto
  moreover from this have "u256_val b = u256_val (get_balance s a) + u256_val v" by (simp add: checked_add_iff)
  ultimately show ?thesis using that by (simp add: add_balance_def get_balance_def)
qed

lemma move_value_ok:
  assumes "u256_val v \<le> u256_val (get_balance s a)" and "a \<noteq> d"
    and "u256_val (get_balance s d) + u256_val v < 2 ^ 256"
  obtains s' where "move_value a d v s = Ret (s', Inr ())"
    "u256_val (get_balance s' a) + u256_val v = u256_val (get_balance s a)"
    "u256_val (get_balance s' d) = u256_val (get_balance s d) + u256_val v"
    "\<forall>x. ac_nonce (get_account s' x) = ac_nonce (get_account s x)"
    "\<forall>x. x \<noteq> a \<longrightarrow> x \<noteq> d \<longrightarrow> get_account s' x = get_account s x" "get_storage s' = get_storage s"
proof (cases "v > ZERO")
  case False
  then have "u256_val v = 0" by (simp add: u256_less_iff)
  with False that [of s] show ?thesis by (simp add: move_value_def)
next
  case True
  obtain r where r: "u256_sub (get_balance s a) v = Ret r" "u256_val r + u256_val v = u256_val (get_balance s a)"
    using u256_sub_val [OF assms(1)] by blast
  let ?s = "set_balance a r s"
  have "get_balance ?s d = get_balance s d" using assms(2) by (simp add: get_balance_def)
  then obtain b where b: "add_balance d v ?s = (set_balance d b ?s, Inr ())"
      "u256_val b = u256_val (get_balance s d) + u256_val v"
    using add_balance_ok [of ?s d v] assms(3) by auto
  have "sub_balance a v s = Ret (?s, Inr ())"
    using assms(1) r(1) by (simp add: sub_balance_def get_balance_def u256_less_iff)
  with True b(1) have "move_value a d v s = Ret (set_balance d b ?s, Inr ())" by (simp add: move_value_def)
  with b(2) r(2) assms(2) that show ?thesis by (simp add: get_balance_def)
qed

lemma pay_gas_ok:
  assumes fee: "u256_val price * unat gas_used < 2 ^ 256"
    and "u256_val base \<le> u256_val price" and base: "base = env_base_fee_per_gas (ex_env ex)"
    and "sender \<noteq> c" and c: "c = env_coinbase (ex_env ex)"
    and refund: "u256_val (get_balance s sender) + u256_val price * unat (gas_limit t - gas_used) < 2 ^ 256"
    and "u256_val (get_balance s c) + (u256_val price - u256_val base) * unat gas_used < 2 ^ 256"
  obtains s' where "pay_gas ex t sender price gas_used s = Ret (s', Inr ())"
    "u256_val (get_balance s' sender) = u256_val (get_balance s sender) + u256_val price * unat (gas_limit t - gas_used)"
    "u256_val (get_balance s' c) = u256_val (get_balance s c) + (u256_val price - u256_val base) * unat gas_used"
    "\<forall>x. ac_nonce (get_account s' x) = ac_nonce (get_account s x)"
    "\<forall>x. x \<noteq> sender \<longrightarrow> x \<noteq> c \<longrightarrow> get_account s' x = get_account s x" "get_storage s' = get_storage s"
proof -
  let ?m = "gas_limit t - gas_used"
  have cost: "u256_val (u256_mul p (from_u64 m)) = u256_val p * unat m"
    if "u256_val p * unat m < 2 ^ 256" for p m
    using that by (simp add: u256_mul_exact)
  have "u256_val price * unat ?m < 2 ^ 256" using refund by linarith
  then obtain b where b: "add_balance sender (u256_mul price (from_u64 ?m)) s = (set_balance sender b s, Inr ())"
      "u256_val b = u256_val (get_balance s sender) + u256_val price * unat ?m"
    using add_balance_ok [of s sender "u256_mul price (from_u64 ?m)"] cost refund by auto
  let ?s = "set_balance sender b s"
  have le: "u256_val base * unat gas_used \<le> u256_val price * unat gas_used" using assms(2) by simp
  then have "u256_val base * unat gas_used < 2 ^ 256" using fee by linarith
  then obtain prio where prio:
      "u256_sub (u256_mul price (from_u64 gas_used)) (u256_mul base (from_u64 gas_used)) = Ret prio"
      "u256_val prio = (u256_val price - u256_val base) * unat gas_used"
    using u256_sub_val [of "u256_mul base (from_u64 gas_used)" "u256_mul price (from_u64 gas_used)"]
      le cost [OF fee] cost by (auto simp: diff_mult_distrib)
  have "get_balance ?s c = get_balance s c" using assms(4) by (simp add: get_balance_def)
  then obtain d where d: "add_balance c prio ?s = (set_balance c d ?s, Inr ())"
      "u256_val d = u256_val (get_balance s c) + (u256_val price - u256_val base) * unat gas_used"
    using add_balance_ok [of ?s c prio] prio(2) assms(7) by auto
  have "pay_gas ex t sender price gas_used s = Ret (set_balance c d ?s, Inr ())"
    using b(1) prio(1) d(1) by (simp add: pay_gas_def Let_def flip: base c)
  with b(2) d(2) assms(4) that show ?thesis by (simp add: get_balance_def)
qed

lemma run_tx_call:
  assumes "tx_to t = Some dest"
    and "execute_call lib rv ex sender dest (tx_value t) (tx_data t) (gas_limit t - tx_intrinsic ex t)
      (charged ex sender rest) = Ret (s, Inr (ExecutionResult_success g 0 out []))"
  obtains rc where "rc_status rc = ExSuccess" "rc_gas_used rc = tx_intrinsic ex t + g"
    and "run_tx lib rv t ex sender price rest
      = run_bind (pay_gas ex t sender price (tx_intrinsic ex t + g) s)
          (\<lambda>(s, r). Ret (ex\<lparr>ex_state := s\<rparr>, case r of Inl e \<Rightarrow> Inl e | Inr _ \<Rightarrow> Inr rc))"
proof (rule that)
  let ?rc = "Receipt_success lib (tx_hash lib t) (env_prev_hash (ex_env ex)) (tx_intrinsic ex t + g) price []"
  show "rc_status ?rc = ExSuccess" "rc_gas_used ?rc = tx_intrinsic ex t + g"
    by (simp_all add: Receipt_success_def)
  have "?rc\<lparr>rc_contract_address := None\<rparr> = ?rc" by (simp add: Receipt_success_def)
  then show "run_tx lib rv t ex sender price rest
      = run_bind (pay_gas ex t sender price (tx_intrinsic ex t + g) s)
          (\<lambda>(s, r). Ret (ex\<lparr>ex_state := s\<rparr>, case r of Inl e \<Rightarrow> Inl e | Inr _ \<Rightarrow> Inr ?rc))"
    using assms by (simp add: run_tx_def settle_result_def ExecutionResult_success_def commit_checkpoint_def Let_def)
qed

section \<open>Properties\<close>

text \<open>
  (C9) A plain transfer is exact. An admitted transaction to an address without code and without a
  precompile always succeeds when the price covers the base fee, sender, receiver and coinbase are
  different addresses and no balance overflows: the sender
  pays the value and the price of the intrinsic gas, which is all the gas used, the receiver gets the
  value, the coinbase the part of the price above the base fee, the sender's nonce grows by one, and
  every other account and all storage stay as they were.
\<close>

theorem plain_transfer_exact:
  assumes adm: "admitted lib ex t sender price" and to: "tx_to t = Some dest"
    and none: "hget (ex_precompiles ex) dest = None" "get_code (ex_state ex) dest = []"
    and c: "c = env_coinbase (ex_env ex)" and dist: "distinct [sender, dest, c]"
    and base: "base = env_base_fee_per_gas (ex_env ex)" "base \<le> price"
    and d: "u256_val (get_balance (ex_state ex) dest) + u256_val (tx_value t) < 2 ^ 256"
    and f: "u256_val (get_balance (ex_state ex) c) + (u256_val price - u256_val base) * unat (tx_intrinsic ex t) < 2 ^ 256"
  shows "\<exists>ex' rc. execute_tx lib rv t ex = Ret (ex', Inr rc)
    \<and> rc_status rc = ExSuccess \<and> rc_gas_used rc = tx_intrinsic ex t
    \<and> u256_val (get_balance (ex_state ex') sender) + u256_val (tx_value t) + u256_val price * unat (tx_intrinsic ex t)
        = u256_val (get_balance (ex_state ex) sender)
    \<and> u256_val (get_balance (ex_state ex') dest) = u256_val (get_balance (ex_state ex) dest) + u256_val (tx_value t)
    \<and> u256_val (get_balance (ex_state ex') c)
        = u256_val (get_balance (ex_state ex) c) + (u256_val price - u256_val base) * unat (tx_intrinsic ex t)
    \<and> get_nonce (ex_state ex') sender = get_nonce (ex_state ex) sender + 1
    \<and> (\<forall>a. a \<notin> {sender, dest, c} \<longrightarrow> get_account (ex_state ex') a = get_account (ex_state ex) a)
    \<and> get_storage (ex_state ex') = get_storage (ex_state ex)"
proof -
  let ?g = "tx_intrinsic ex t" and ?p = "u256_val price" and ?s = "ex_state ex"
  have cost: "?p * unat (gas_limit t) + u256_val (tx_value t) \<le> u256_val (get_balance ?s sender)"
    and g: "?g \<le> gas_limit t" using adm by (simp_all add: admitted_def)
  obtain rest w where rest: "u256_val rest + ?p * unat (gas_limit t) = u256_val (get_balance ?s sender)"
    and tx: "execute_tx lib rv t ex = run_tx lib rv t (ex\<lparr>ex_accessed_addresses := w, ex_accessed_storage := []\<rparr>) sender price rest"
    by (rule execute_tx_admitted [OF adm])
  let ?ex = "ex\<lparr>ex_accessed_addresses := w, ex_accessed_storage := []\<rparr>"
  let ?c = "charged ex sender rest"
  have bal: "get_balance ?c a = (if a = sender then rest else get_balance ?s a)" for a
    by (simp add: get_balance_def get_account_charged)
  have "u256_val (tx_value t) \<le> u256_val (get_balance ?c sender)" "sender \<noteq> dest"
      "u256_val (get_balance ?c dest) + u256_val (tx_value t) < 2 ^ 256"
    using dist d cost rest by (auto simp: bal)
  then obtain s1 where s1: "move_value sender dest (tx_value t) ?c = Ret (s1, Inr ())"
      "u256_val (get_balance s1 sender) + u256_val (tx_value t) = u256_val (get_balance ?c sender)"
      "u256_val (get_balance s1 dest) = u256_val (get_balance ?c dest) + u256_val (tx_value t)"
      "\<forall>x. ac_nonce (get_account s1 x) = ac_nonce (get_account ?c x)"
      "\<forall>x. x \<noteq> sender \<longrightarrow> x \<noteq> dest \<longrightarrow> get_account s1 x = get_account ?c x" "get_storage s1 = get_storage ?c"
    by (rule move_value_ok)
  have call: "execute_call lib rv ?ex sender dest (tx_value t) (tx_data t) (gas_limit t - tx_intrinsic ?ex t)
      (charged ?ex sender rest) = Ret (s1, Inr (ExecutionResult_success 0 0 [] []))"
    using none s1(1) by (simp add: execute_call_def)
  obtain rc where rc: "rc_status rc = ExSuccess" "rc_gas_used rc = tx_intrinsic ?ex t + 0"
    and run: "run_tx lib rv t ?ex sender price rest = run_bind (pay_gas ?ex t sender price (tx_intrinsic ?ex t + 0) s1)
          (\<lambda>(s, r). Ret (?ex\<lparr>ex_state := s\<rparr>, case r of Inl e \<Rightarrow> Inl e | Inr _ \<Rightarrow> Inr rc))"
    by (rule run_tx_call [OF to call])
  have split: "?p * unat ?g + ?p * unat (gas_limit t - ?g) = ?p * unat (gas_limit t)"
    using g by (simp add: unat_sub word_le_nat_alt flip: distrib_left)
  have c1: "get_balance s1 c = get_balance ?s c" using s1(5) [rule_format, of c] dist by (auto simp: get_balance_def get_account_charged)
  have sum: "u256_val (get_balance s1 sender) + u256_val (tx_value t) + ?p * unat (gas_limit t - ?g) + ?p * unat ?g
      = u256_val (get_balance ?s sender)"
    using s1(2) rest split bal [of sender] by simp
  have "?p * unat ?g < 2 ^ 256" "u256_val base \<le> ?p" "sender \<noteq> c"
      "u256_val (get_balance s1 sender) + ?p * unat (gas_limit t - ?g) < 2 ^ 256"
      "u256_val (get_balance s1 c) + (?p - u256_val base) * unat ?g < 2 ^ 256"
    using sum u256_val_bound [of "get_balance ?s sender"] base(2) dist f c1 by (simp_all add: u256_le_iff)
  then obtain s2 where s2: "pay_gas ?ex t sender price ?g s1 = Ret (s2, Inr ())"
      "u256_val (get_balance s2 sender) = u256_val (get_balance s1 sender) + ?p * unat (gas_limit t - ?g)"
      "u256_val (get_balance s2 c) = u256_val (get_balance s1 c) + (?p - u256_val base) * unat ?g"
      "\<forall>x. ac_nonce (get_account s2 x) = ac_nonce (get_account s1 x)"
      "\<forall>x. x \<noteq> sender \<longrightarrow> x \<noteq> c \<longrightarrow> get_account s2 x = get_account s1 x" "get_storage s2 = get_storage s1"
    using pay_gas_ok [of price ?g base ?ex sender c s1 t] base(1) c by auto
  have "u256_val (get_balance s2 sender) + u256_val (tx_value t) + ?p * unat ?g = u256_val (get_balance ?s sender)"
    using s2(2) sum by linarith
  moreover have "get_account s2 a = get_account ?s a" if "a \<notin> {sender, dest, c}" for a
    using s2(5) [rule_format, of a] s1(5) [rule_format, of a] that by (simp add: get_account_charged)
  moreover have "get_balance s2 dest = get_balance s1 dest" using s2(5) [rule_format, of dest] dist by (auto simp: get_balance_def)
  moreover have "execute_tx lib rv t ex = Ret (?ex\<lparr>ex_state := s2\<rparr>, Inr rc)" using tx run s2(1) by simp
  moreover have "get_storage s2 = get_storage ?s" using s2(6) s1(6) by (simp add: charged_def)
  moreover have "get_nonce s2 sender = get_nonce ?s sender + 1"
    using s2(4) s1(4) by (simp add: get_nonce_def get_account_charged)
  ultimately show ?thesis
    using rc s2(3) s1(3) c1 bal [of dest] dist by (intro exI [of _ "?ex\<lparr>ex_state := s2\<rparr>"] exI [of _ rc]) auto
qed

definition demo_evm_crypto :: crypto_lib where
  "demo_evm_crypto = demo_lib\<lparr>keccak := (\<lambda>bs. 7), recover_prehash := (\<lambda>m sg rid. Some (replicate 65 4))\<rparr>"

definition demo_executor :: Executor where
  "demo_executor = Executor_new demo_evm_crypto demo_evm_lib
     (set_balance 7 (from_u64 1000000) StateDb_new) (EvmEnv_default\<lparr>env_base_fee_per_gas := ONE, env_coinbase := 9\<rparr>)"

definition demo_transfer :: "Address \<Rightarrow> u64 \<Rightarrow> u64 \<Rightarrow> u64 \<Rightarrow> Transaction" where
  "demo_transfer dest v limit price = (new_legacy 1337 0 (Some dest) (from_u64 v) [] limit (from_u64 price))
     \<lparr>signature := Some \<lparr>sig_r = 1, sig_s = 1, sig_v = 27\<rparr>\<rparr>"

definition no_revm :: revm where "no_revm db t = Inl ''halt''"

lemma demo_sender: "recover_sender demo_evm_crypto (demo_transfer dest v limit price) = Inr 7"
proof -
  have "pk_to_address demo_evm_crypto pk = 7" for pk
    unfolding pk_to_address_def demo_evm_crypto_def by (simp add: demo_lib_def) code_simp
  then show ?thesis
    by (simp add: recover_sender_def demo_transfer_def new_legacy_def recover_public_key_def
        demo_evm_crypto_def demo_lib_def Let_def)
qed

lemma demo_balance: "get_balance (ex_state demo_executor) a = (if a = 7 then from_u64 1000000 else ZERO)"
  by (simp add: demo_executor_def Executor_new_def get_balance_def get_account_def StateDb_new_def
      set_balance_def set_account_def Account_EMPTY_def hput_def)

lemma demo_admitted:
  assumes "21000 \<le> limit" "limit \<le> 30000000" "unat price * unat limit + unat v \<le> 1000000"
  shows "admitted demo_evm_crypto demo_executor (demo_transfer dest v limit price) 7 (from_u64 price)
    \<and> tx_intrinsic demo_executor (demo_transfer dest v limit price) = 21000"
  using assms demo_balance [of 7] demo_sender [of dest v limit price] leD [OF assms(2)]
  by (simp add: admitted_def executor_validate_tx_def tx_intrinsic_def calculate_gas_price_def
      demo_transfer_def new_legacy_def intrinsic_gas_def berlin_def demo_executor_def Executor_new_def
      EvmEnv_default_def get_nonce_def get_account_def set_balance_def set_account_def StateDb_new_def
      Account_EMPTY_def hput_def)

theorem plain_transfer_exact_witness:
  "\<exists>ex' rc. execute_tx demo_evm_crypto no_revm (demo_transfer 300 1000 30000 10) demo_executor = Ret (ex', Inr rc)
    \<and> rc_gas_used rc = 21000 \<and> u256_val (get_balance (ex_state ex') 7) = 789000
    \<and> u256_val (get_balance (ex_state ex') 300) = 1000 \<and> u256_val (get_balance (ex_state ex') 9) = 189000"
proof -
  have "tx_to (demo_transfer 300 1000 30000 10) = Some 300"
    and v: "tx_value (demo_transfer 300 1000 30000 10) = from_u64 1000"
    and "hget (ex_precompiles demo_executor) 300 = None" "get_code (ex_state demo_executor) 300 = []"
    and "env_coinbase (ex_env demo_executor) = 9" and "env_base_fee_per_gas (ex_env demo_executor) = ONE"
    by (simp_all add: demo_transfer_def new_legacy_def demo_executor_def Executor_new_def get_precompiles_eq
        get_code_def get_account_def StateDb_new_def set_balance_def set_account_def Account_EMPTY_def
        hput_def EvmEnv_default_def)
  then show ?thesis
    using plain_transfer_exact [of demo_evm_crypto demo_executor "demo_transfer 300 1000 30000 10" 7
        "from_u64 10" 300 9 ONE no_revm] demo_admitted [of 30000 10 1000 300] demo_balance
    by (auto simp: u256_le_iff)
qed

text \<open>
  The refund of a transaction can wrap around. A call of the modular exponentiation precompile
  with less than 96 bytes of data is charged 200 gas whatever gas is left, so the gas used exceeds
  the gas limit when less than 200 gas is left, and the sender is credited with almost
  2^64 times the gas price.
\<close>

theorem short_modexp_mints:
  assumes adm: "admitted lib ex t sender price" and to: "tx_to t = Some 5" "tx_value t = ZERO"
    and pc: "hget (ex_precompiles ex) 5 = Some (modexp el)"
    and data: "length (tx_data t) < 96" and gas: "gas_limit t - tx_intrinsic ex t < 200"
    and small: "unat (tx_intrinsic ex t) + 200 < 2 ^ 64"
    and c: "c = env_coinbase (ex_env ex)" "sender \<noteq> c"
    and base: "base = env_base_fee_per_gas (ex_env ex)" "base \<le> price"
    and room: "u256_val (get_balance (ex_state ex) sender) + u256_val price * 2 ^ 64 < 2 ^ 256"
      "u256_val (get_balance (ex_state ex) c) + u256_val price * 2 ^ 64 < 2 ^ 256"
  shows "\<exists>ex' rc. execute_tx lib rv t ex = Ret (ex', Inr rc) \<and> rc_status rc = ExSuccess
    \<and> rc_gas_used rc > gas_limit t
    \<and> u256_val (get_balance (ex_state ex') sender) + u256_val price * unat (rc_gas_used rc)
        = u256_val (get_balance (ex_state ex) sender) + u256_val price * 2 ^ 64"
proof -
  let ?g = "tx_intrinsic ex t" and ?p = "u256_val price" and ?s = "ex_state ex"
  have g: "?g \<le> gas_limit t" using adm by (simp add: admitted_def)
  obtain rest w where rest: "u256_val rest + ?p * unat (gas_limit t) = u256_val (get_balance ?s sender)"
    and tx: "execute_tx lib rv t ex = run_tx lib rv t (ex\<lparr>ex_accessed_addresses := w, ex_accessed_storage := []\<rparr>) sender price rest"
    by (rule execute_tx_admitted [OF adm])
  let ?ex = "ex\<lparr>ex_accessed_addresses := w, ex_accessed_storage := []\<rparr>"
  let ?c = "charged ex sender rest"
  have bal: "get_balance ?c a = (if a = sender then rest else get_balance ?s a)" for a
    by (simp add: get_balance_def get_account_charged)
  have call: "execute_call lib rv ?ex sender 5 (tx_value t) (tx_data t) (gas_limit t - tx_intrinsic ?ex t)
      (charged ?ex sender rest) = Ret (?c, Inr (ExecutionResult_success 200 0 [] []))"
    using pc data to(2) by (simp add: execute_call_def move_value_def modexp_def pc_ok_def)
  obtain rc where rc: "rc_status rc = ExSuccess" "rc_gas_used rc = tx_intrinsic ?ex t + 200"
    and run: "run_tx lib rv t ?ex sender price rest = run_bind (pay_gas ?ex t sender price (tx_intrinsic ?ex t + 200) ?c)
          (\<lambda>(s, r). Ret (?ex\<lparr>ex_state := s\<rparr>, case r of Inl e \<Rightarrow> Inl e | Inr _ \<Rightarrow> Inr rc))"
    by (rule run_tx_call [OF to(1) call])
  have used: "unat (?g + 200) = unat ?g + 200" using small by (subst unat_add_no_overflow) simp_all
  have over: "unat (gas_limit t) < unat ?g + 200"
    using gas g by (simp add: word_less_nat_alt unat_sub word_le_nat_alt)
  have "unat (gas_limit t - (?g + 200)) = 2 ^ 64 - (unat ?g + 200) + unat (gas_limit t)"
    using over used small by (simp add: unat_sub_if')
  then have wrap: "unat (gas_limit t - (?g + 200)) + unat (?g + 200) = 2 ^ 64 + unat (gas_limit t)"
    using used small by simp
  have sum: "?p * unat (gas_limit t - (?g + 200)) + ?p * unat (?g + 200) = ?p * 2 ^ 64 + ?p * unat (gas_limit t)"
    by (simp only: wrap flip: distrib_left)
  have "?p * unat (?g + 200) \<le> ?p * 2 ^ 64" using unat_lt2p [of "?g + 200"] by (intro mult_le_mono2) simp
  moreover have "(?p - u256_val base) * unat (?g + 200) \<le> ?p * unat (?g + 200)" by (intro mult_le_mono1) simp
  moreover have "u256_val (get_balance ?c c) = u256_val (get_balance ?s c)"
      "u256_val (get_balance ?c sender) = u256_val rest"
    using bal [of c] bal [of sender] c(2) by simp_all
  moreover have "u256_val base \<le> ?p" using base(2) by (simp add: u256_le_iff)
  ultimately have fits: "?p * unat (?g + 200) < 2 ^ 256" "u256_val base \<le> ?p"
      "u256_val (get_balance ?c sender) + ?p * unat (gas_limit t - (?g + 200)) < 2 ^ 256"
      "u256_val (get_balance ?c c) + (?p - u256_val base) * unat (?g + 200) < 2 ^ 256"
    using room sum rest by linarith+
  have env: "base = env_base_fee_per_gas (ex_env ?ex)" "c = env_coinbase (ex_env ?ex)" using base(1) c by simp_all
  obtain s2 where s2: "pay_gas ?ex t sender price (?g + 200) ?c = Ret (s2, Inr ())"
      "u256_val (get_balance s2 sender) = u256_val (get_balance ?c sender) + ?p * unat (gas_limit t - (?g + 200))"
    using pay_gas_ok [OF fits(1,2) env(1) c(2) env(2) fits(3,4)] by metis
  have "u256_val (get_balance s2 sender) + ?p * unat (?g + 200) = u256_val (get_balance ?s sender) + ?p * 2 ^ 64"
    using s2(2) sum rest bal [of sender] by simp
  moreover have "execute_tx lib rv t ex = Ret (?ex\<lparr>ex_state := s2\<rparr>, Inr rc)" using tx run s2(1) by simp
  moreover have "gas_limit t < ?g + 200" using over used by (simp add: word_less_nat_alt)
  ultimately show ?thesis
    using rc by (intro exI [of _ "?ex\<lparr>ex_state := s2\<rparr>"] exI [of _ rc]) auto
qed

theorem short_modexp_mints_witness:
  "\<exists>ex' rc. execute_tx demo_evm_crypto no_revm (demo_transfer 5 0 21000 10) demo_executor = Ret (ex', Inr rc)
    \<and> u256_val (get_balance (ex_state demo_executor) 7) = 1000000
    \<and> u256_val (get_balance (ex_state ex') 7) + 10 * unat (rc_gas_used rc) = 1000000 + 10 * 2 ^ 64"
proof -
  have "tx_to (demo_transfer 5 0 21000 10) = Some 5" "tx_value (demo_transfer 5 0 21000 10) = ZERO"
    and "tx_data (demo_transfer 5 0 21000 10) = []" "gas_limit (demo_transfer 5 0 21000 10) = 21000"
    and "hget (ex_precompiles demo_executor) 5 = Some (modexp demo_evm_lib)"
    and "env_coinbase (ex_env demo_executor) = 9" "env_base_fee_per_gas (ex_env demo_executor) = ONE"
    by (simp_all add: demo_transfer_def new_legacy_def demo_executor_def Executor_new_def get_precompiles_eq
        EvmEnv_default_def from_u64_def ZERO_def)
  then show ?thesis
    using short_modexp_mints [of demo_evm_crypto demo_executor "demo_transfer 5 0 21000 10" 7 "from_u64 10"
        demo_evm_lib 9 ONE no_revm] demo_admitted [of 21000 10 0 5] demo_balance
    by (auto simp: u256_le_iff)
qed

text \<open>
  A dry run is not dry: the checkpoint it reverts has no journal entries, because the call
  writes the state directly, so the value of a successful dry-run transfer stays moved.
\<close>

theorem dry_run_moves_value:
  assumes "hget (ex_precompiles ex) dest = None" and "get_code (ex_state ex) dest = []"
    and "u256_val v \<le> u256_val (get_balance (ex_state ex) caller)" and "caller \<noteq> dest"
    and "u256_val (get_balance (ex_state ex) dest) + u256_val v < 2 ^ 256"
  shows "\<exists>ex'. call_dry_run lib rv caller dest v data gas ex = Ret (ex', Inr ([], 0))
    \<and> u256_val (get_balance (ex_state ex') caller) + u256_val v = u256_val (get_balance (ex_state ex) caller)
    \<and> u256_val (get_balance (ex_state ex') dest) = u256_val (get_balance (ex_state ex) dest) + u256_val v"
proof -
  obtain s where s: "move_value caller dest v (ex_state ex) = Ret (s, Inr ())"
      "u256_val (get_balance s caller) + u256_val v = u256_val (get_balance (ex_state ex) caller)"
      "u256_val (get_balance s dest) = u256_val (get_balance (ex_state ex) dest) + u256_val v"
    using move_value_ok [OF assms(3,4,5)] by metis
  have "call_dry_run lib rv caller dest v data gas ex = Ret (ex\<lparr>ex_state := s\<rparr>, Inr ([], 0))"
    using assms(1,2) s(1)
    by (simp add: call_dry_run_def checkpoint_def JournaledState_new_def execute_call_def
        revert_checkpoint_def revert_loop_eq ExecutionResult_success_def)
  with s(2,3) show ?thesis by auto
qed

theorem dry_run_moves_value_witness:
  "\<exists>ex'. call_dry_run demo_evm_crypto no_revm 7 300 (from_u64 5) [] 0 demo_executor = Ret (ex', Inr ([], 0))
    \<and> u256_val (get_balance (ex_state ex') 300) = 5 \<and> u256_val (get_balance (ex_state demo_executor) 300) = 0"
proof -
  have "hget (ex_precompiles demo_executor) 300 = None" "get_code (ex_state demo_executor) 300 = []"
    by (simp_all add: demo_executor_def Executor_new_def get_precompiles_eq get_code_def get_account_def
        StateDb_new_def set_balance_def set_account_def Account_EMPTY_def hput_def)
  then show ?thesis
    using dry_run_moves_value [of demo_executor 300 "from_u64 5" 7 demo_evm_crypto no_revm "[]" 0] demo_balance
    by auto
qed

text \<open>
  A transaction whose price is below the base fee is admitted unless it is of the dynamic fee
  type, and the executor panics when it computes the coinbase's share, after the transfer.
\<close>

theorem low_price_panics:
  assumes adm: "admitted lib ex t sender price" and to: "tx_to t = Some dest"
    and none: "hget (ex_precompiles ex) dest = None" "get_code (ex_state ex) dest = []" and "sender \<noteq> dest"
    and d: "u256_val (get_balance (ex_state ex) dest) + u256_val (tx_value t) < 2 ^ 256"
    and base: "price < env_base_fee_per_gas (ex_env ex)" "0 < tx_intrinsic ex t"
    and "u256_val (env_base_fee_per_gas (ex_env ex)) * unat (tx_intrinsic ex t) < 2 ^ 256"
  shows "execute_tx lib rv t ex = Panic"
proof -
  let ?g = "tx_intrinsic ex t" and ?p = "u256_val price" and ?s = "ex_state ex"
  let ?b = "env_base_fee_per_gas (ex_env ex)"
  have cost: "?p * unat (gas_limit t) + u256_val (tx_value t) \<le> u256_val (get_balance ?s sender)"
    and g: "?g \<le> gas_limit t" using adm by (simp_all add: admitted_def)
  obtain rest w where rest: "u256_val rest + ?p * unat (gas_limit t) = u256_val (get_balance ?s sender)"
    and tx: "execute_tx lib rv t ex = run_tx lib rv t (ex\<lparr>ex_accessed_addresses := w, ex_accessed_storage := []\<rparr>) sender price rest"
    by (rule execute_tx_admitted [OF adm])
  let ?ex = "ex\<lparr>ex_accessed_addresses := w, ex_accessed_storage := []\<rparr>"
  let ?c = "charged ex sender rest"
  have bal: "get_balance ?c a = (if a = sender then rest else get_balance ?s a)" for a
    by (simp add: get_balance_def get_account_charged)
  have "u256_val (tx_value t) \<le> u256_val (get_balance ?c sender)"
      "u256_val (get_balance ?c dest) + u256_val (tx_value t) < 2 ^ 256"
    using \<open>sender \<noteq> dest\<close> d cost rest by (auto simp: bal)
  then obtain s1 where s1: "move_value sender dest (tx_value t) ?c = Ret (s1, Inr ())"
      "u256_val (get_balance s1 sender) + u256_val (tx_value t) = u256_val (get_balance ?c sender)"
    using move_value_ok [OF _ \<open>sender \<noteq> dest\<close>, of "tx_value t" ?c] by metis
  have call: "execute_call lib rv ?ex sender dest (tx_value t) (tx_data t) (gas_limit t - tx_intrinsic ?ex t)
      (charged ?ex sender rest) = Ret (s1, Inr (ExecutionResult_success 0 0 [] []))"
    using none s1(1) by (simp add: execute_call_def)
  obtain rc where run: "run_tx lib rv t ?ex sender price rest = run_bind (pay_gas ?ex t sender price (tx_intrinsic ?ex t + 0) s1)
          (\<lambda>(s, r). Ret (?ex\<lparr>ex_state := s\<rparr>, case r of Inl e \<Rightarrow> Inl e | Inr _ \<Rightarrow> Inr rc))"
    by (rule run_tx_call [OF to call])
  have split: "?p * unat ?g + ?p * unat (gas_limit t - ?g) = ?p * unat (gas_limit t)"
    using g by (simp add: unat_sub word_le_nat_alt flip: distrib_left)
  have m: "gas_limit t - ?g \<le> gas_limit t" using g by (simp add: word_le_nat_alt unat_sub)
  have "u256_val (get_balance s1 sender) + u256_val (u256_mul price (from_u64 (gas_limit t - ?g))) < 2 ^ 256"
    using gas_cost_le [OF cost m] s1(2) bal [of sender] rest split u256_val_bound [of "get_balance ?s sender"] by simp
  then obtain b where b: "add_balance sender (u256_mul price (from_u64 (gas_limit t - ?g))) s1 = (set_balance sender b s1, Inr ())"
    by (rule add_balance_ok)
  have "?p * unat ?g < u256_val ?b * unat ?g"
    using base by (simp add: u256_less_iff unat_gt_0 word_less_nat_alt)
  then have "u256_sub (u256_mul price (from_u64 ?g)) (u256_mul ?b (from_u64 ?g)) = Panic"
    using gas_cost_le [OF cost g] assms(9) by (simp add: u256_sub_Panic_iff u256_mul_exact)
  with b have "pay_gas ?ex t sender price ?g s1 = Panic" by (simp add: pay_gas_def Let_def)
  then show ?thesis using tx run by simp
qed

theorem low_price_panics_witness:
  "execute_tx demo_evm_crypto no_revm (demo_transfer 300 1000 30000 0) demo_executor = Panic"
proof -
  have "tx_to (demo_transfer 300 1000 30000 0) = Some 300"
    and "tx_value (demo_transfer 300 1000 30000 0) = from_u64 1000"
    and "hget (ex_precompiles demo_executor) 300 = None" "get_code (ex_state demo_executor) 300 = []"
    and "env_base_fee_per_gas (ex_env demo_executor) = ONE"
    by (simp_all add: demo_transfer_def new_legacy_def demo_executor_def Executor_new_def get_precompiles_eq
        get_code_def get_account_def StateDb_new_def set_balance_def set_account_def Account_EMPTY_def
        hput_def EvmEnv_default_def)
  then show ?thesis
    using low_price_panics [of demo_evm_crypto demo_executor "demo_transfer 300 1000 30000 0" 7
        "from_u64 0" 300 no_revm] demo_admitted [of 30000 0 1000 300] demo_balance
    by (auto simp: u256_less_iff)
qed

text \<open>
  Settling a failed execution undoes nothing: the checkpoint was taken after the last journaled
  write, and the execution writes the state without the journal, so whatever a reverted or erroneous
  transaction wrote (moved value, contract code of a failed creation) is kept.
\<close>

theorem failed_tx_keeps_writes:
  assumes "js_checkpoints j = [length (js_journal j)]"
    and "settle_result lib ex t intrinsic price 0 result j = Ret (j', rc, gas)"
  shows "js_state j' = js_state j"
  using assms
  by (auto simp: settle_result_def Let_def commit_checkpoint_def revert_checkpoint_def revert_loop_eq
      run_bind_Ret_iff split: sum.splits if_splits)

theorem failed_tx_keeps_writes_witness:
  "settle_result demo_evm_crypto demo_executor (demo_transfer 300 1000 30000 0) 21000 ONE 0
      (Inl (CreateFailed ''Contract code starts with 0xEF''))
      \<lparr>js_state = set_code demo_evm_crypto 300 [0xEF] StateDb_new, js_journal = [], js_checkpoints = [0]\<rparr>
    = Ret (\<lparr>js_state = set_code demo_evm_crypto 300 [0xEF] StateDb_new, js_journal = [], js_checkpoints = []\<rparr>,
        Receipt_failure (tx_hash demo_evm_crypto (demo_transfer 300 1000 30000 0)) 0 30000 ONE, 30000)"
  (is "settle_result ?l ?e ?t ?i ?p 0 ?r ?j = Ret (?j', ?rc, ?g)")
proof -
  have eq: "settle_result ?l ?e ?t ?i ?p 0 ?r ?j = Ret (revert_checkpoint 0 ?j, ?rc, ?g)"
    by (simp add: settle_result_def demo_executor_def Executor_new_def EvmEnv_default_def demo_transfer_def
        new_legacy_def)
  have "js_state (revert_checkpoint 0 ?j) = js_state ?j"
    by (rule failed_tx_keeps_writes [OF _ eq]) simp
  then have "revert_checkpoint 0 ?j = ?j'" by (simp add: revert_checkpoint_def revert_loop_eq)
  with eq show ?thesis by simp
qed

end
