(* ===== verification/Trie.thy ===== *)
theory Trie
  imports Crypto "HOL-Library.Sublist"
begin

text \<open>
  The Merkle Patricia trie, \<^verbatim>\<open>src/crates/nexus-state/src/trie.rs\<close>. Nodes live in a hash map under the
  hash of their encoding; the encoding is the third-party crate \<^verbatim>\<open>serde_json\<close>, so the operations
  take the hash of a node as the parameter \<open>nh\<close>, which the code instantiates with \<open>node_hash\<close>. The
  recursions follow hashes through the map and need not end on an arbitrary map: they are partial,
  with \<open>None\<close> for a call that does not return. A reference tree without hashes is shown to be what
  insertion and lookup implement on keys of one length, as long as no two of its nodes collide.
\<close>

section \<open>Nodes\<close>

datatype StateError =
    NotFound string
  | InvalidProof
  | StorageError string
  | SerializationError string
  | CheckpointError string

type_synonym 'a StateResult = "StateError + 'a"

datatype TrieNode =
    NEmpty
  | NLeaf (key_end: "u8 list") (leaf_value: "u8 list")
  | NExtension (ext_prefix: "u8 list") (ext_child: Hash)
  | NBranch (branch_children: "Hash option list") (branch_value: "u8 list option")

definition node_hash :: "crypto_lib \<Rightarrow> (TrieNode \<Rightarrow> u8 list) \<Rightarrow> TrieNode \<Rightarrow> Hash" where
  "node_hash lib rlp_encode n = Hash_new (keccak256 lib (rlp_encode n))"

type_synonym trie_nodes = "(Hash, TrieNode) hmap"

record MerkleTrie =
  mt_root :: Hash
  mt_nodes :: trie_nodes

definition MerkleTrie_new :: MerkleTrie where
  "MerkleTrie_new = \<lparr>mt_root = 0, mt_nodes = hput 0 NEmpty []\<rparr>"

definition key_to_nibbles :: "u8 list \<Rightarrow> u8 list" where
  "key_to_nibbles key = concat (map (\<lambda>byte. [drop_bit 4 byte, byte AND 0x0f]) key)"

section \<open>Slices and calls that may not return\<close>

definition slice_from :: "'e list \<Rightarrow> nat \<Rightarrow> 'e list run" where
  "slice_from xs i = (if i \<le> length xs then Ret (drop i xs) else Panic)"

definition rbind :: "'a run option \<Rightarrow> ('a \<Rightarrow> 'b run option) \<Rightarrow> 'b run option" where
  "rbind m f = Option.bind m (\<lambda>r. case r of Ret x \<Rightarrow> f x | Panic \<Rightarrow> Some Panic | Blocked \<Rightarrow> Some Blocked)"

lemma rbind_simps [simp]:
  "rbind None f = None" "rbind (Some (Ret x)) f = f x" "rbind (Some Panic) f = Some Panic"
  "rbind (Some Blocked) f = Some Blocked"
  by (simp_all add: rbind_def)

lemma rbind_mono [partial_function_mono]:
  assumes "mono_option m" and "\<And>y. mono_option (\<lambda>f. g y f)"
  shows "mono_option (\<lambda>f. rbind (m f) (\<lambda>y. g y f))"
  unfolding rbind_def
proof (rule bind_mono [OF assms(1)])
  show "mono_option (\<lambda>f. case y of Ret x \<Rightarrow> g x f | Panic \<Rightarrow> Some Panic | Blocked \<Rightarrow> Some Blocked)" for y
    by (cases y) (auto intro: assms(2) option.const_mono)
qed

section \<open>Lookup\<close>

partial_function (option) get_recursive :: "trie_nodes \<Rightarrow> Hash \<Rightarrow> u8 list \<Rightarrow> nat \<Rightarrow> u8 list option run option" where
  "get_recursive nodes h nibbles depth =
     (case hget nodes h of
        None \<Rightarrow> Some (Ret None)
      | Some node \<Rightarrow>
        (case node of
           NEmpty \<Rightarrow> Some (Ret None)
         | NLeaf ke v \<Rightarrow>
             rbind (Some (slice_from nibbles depth)) (\<lambda>rest. Some (Ret (if rest = ke then Some v else None)))
         | NExtension p child \<Rightarrow>
             rbind (Some (slice_from nibbles depth)) (\<lambda>rest.
               if prefix p rest then get_recursive nodes child nibbles (depth + length p) else Some (Ret None))
         | NBranch children v \<Rightarrow>
             if depth \<ge> length nibbles then Some (Ret v)
             else
               let idx = unat (nibbles ! depth)
               in if idx < length children
                  then (case children ! idx of
                          Some child \<Rightarrow> get_recursive nodes child nibbles (depth + 1)
                        | None \<Rightarrow> Some (Ret None))
                  else Some Panic))"

definition trie_get :: "u8 list \<Rightarrow> MerkleTrie \<Rightarrow> u8 list option run option" where
  "trie_get key t = get_recursive (mt_nodes t) (mt_root t) (key_to_nibbles key) 0"

section \<open>Insertion\<close>

definition common_len :: "u8 list \<Rightarrow> u8 list \<Rightarrow> nat" where
  "common_len xs ys = length (takeWhile (\<lambda>(a, b). a = b) (zip xs ys))"

definition put_child :: "u8 \<Rightarrow> Hash \<Rightarrow> Hash option list \<Rightarrow> Hash option list run" where
  "put_child idx h children =
     (if unat idx < length children then Ret (children[unat idx := Some h]) else Panic)"

definition wrap_branch ::
    "(TrieNode \<Rightarrow> Hash) \<Rightarrow> u8 list \<Rightarrow> TrieNode \<Rightarrow> trie_nodes \<Rightarrow> trie_nodes \<times> TrieNode" where
  "wrap_branch nh shared branch nodes =
     (if shared \<noteq> [] then (hput (nh branch) branch nodes, NExtension shared (nh branch))
      else (nodes, branch))"

text \<open>A leaf is stored and hung into the children, if the key goes on behind the shared part.\<close>

definition hang_leaf ::
    "(TrieNode \<Rightarrow> Hash) \<Rightarrow> u8 list \<Rightarrow> nat \<Rightarrow> u8 list \<Rightarrow> trie_nodes \<times> Hash option list
       \<Rightarrow> (trie_nodes \<times> Hash option list) run" where
  "hang_leaf nh key c v st =
     (case st of (nodes, children) \<Rightarrow>
      if c < length key
      then let leaf = NLeaf (drop (c + 1) key) v; h = nh leaf
           in run_map (Pair (hput h leaf nodes)) (put_child (key ! c) h children)
      else Ret (nodes, children))"

definition split_leaf ::
    "(TrieNode \<Rightarrow> Hash) \<Rightarrow> trie_nodes \<Rightarrow> u8 list \<Rightarrow> u8 list \<Rightarrow> u8 list \<Rightarrow> u8 list \<Rightarrow> (trie_nodes \<times> TrieNode) run" where
  "split_leaf nh nodes ke old_value remaining v =
     (let c = common_len ke remaining
      in if c = length ke \<and> c = length remaining then Ret (nodes, NLeaf ke v)
         else
           run_bind (hang_leaf nh ke c old_value (nodes, replicate 16 None)) (\<lambda>st.
           run_bind (hang_leaf nh remaining c v st) (\<lambda>(nodes, children).
             let branch = NBranch children (if c = length remaining then Some v
                            else if c = length ke then Some old_value else None)
             in Ret (wrap_branch nh (take c remaining) branch nodes))))"

definition split_extension ::
    "(TrieNode \<Rightarrow> Hash) \<Rightarrow> trie_nodes \<Rightarrow> u8 list \<Rightarrow> Hash \<Rightarrow> u8 list \<Rightarrow> u8 list \<Rightarrow> (trie_nodes \<times> TrieNode) run" where
  "split_extension nh nodes p child remaining v =
     (let c = common_len p remaining
      in run_bind
           (if c + 1 < length p
            then let ext = NExtension (drop (c + 1) p) child; h = nh ext
                 in run_map (Pair (hput h ext nodes)) (put_child (p ! c) h (replicate 16 None))
            else run_map (Pair nodes) (put_child (p ! c) child (replicate 16 None)))
           (\<lambda>(nodes, children).
         run_bind (slice_from remaining (c + 1)) (\<lambda>ke.
           let leaf = NLeaf ke v; h = nh leaf; nodes = hput h leaf nodes
           in run_bind (put_child (remaining ! c) h children) (\<lambda>children.
                Ret (wrap_branch nh (take c remaining) (NBranch children None) nodes)))))"

definition store_node :: "(TrieNode \<Rightarrow> Hash) \<Rightarrow> trie_nodes \<times> TrieNode \<Rightarrow> trie_nodes \<times> Hash" where
  "store_node nh st = (case st of (nodes, node) \<Rightarrow> (hput (nh node) node nodes, nh node))"

partial_function (option) insert_recursive ::
    "(TrieNode \<Rightarrow> Hash) \<Rightarrow> trie_nodes \<Rightarrow> Hash \<Rightarrow> u8 list \<Rightarrow> nat \<Rightarrow> u8 list \<Rightarrow> (trie_nodes \<times> Hash) run option" where
  "insert_recursive nh nodes h nibbles depth v =
     (case (case hget nodes h of None \<Rightarrow> NEmpty | Some node \<Rightarrow> node) of
        NEmpty \<Rightarrow>
          Some (run_map (\<lambda>rest. store_node nh (nodes, NLeaf rest v)) (slice_from nibbles depth))
      | NLeaf ke old_value \<Rightarrow>
          Some (run_bind (slice_from nibbles depth) (\<lambda>remaining.
            run_map (store_node nh) (split_leaf nh nodes ke old_value remaining v)))
      | NExtension p child \<Rightarrow>
          rbind (Some (slice_from nibbles depth)) (\<lambda>remaining.
            if common_len p remaining = length p
            then rbind (insert_recursive nh nodes child nibbles (depth + common_len p remaining) v)
                   (\<lambda>(nodes, new_child). Some (Ret (store_node nh (nodes, NExtension p new_child))))
            else Some (run_map (store_node nh) (split_extension nh nodes p child remaining v)))
      | NBranch children bv \<Rightarrow>
          rbind (Some (slice_from nibbles depth)) (\<lambda>remaining.
            if remaining = [] then Some (Ret (store_node nh (nodes, NBranch children (Some v))))
            else
              let idx = unat (hd remaining)
              in if idx < length children
                 then rbind (insert_recursive nh nodes (case children ! idx of None \<Rightarrow> 0 | Some c \<Rightarrow> c)
                               nibbles (depth + 1) v)
                        (\<lambda>(nodes, new_child).
                          Some (Ret (store_node nh (nodes, NBranch (children[idx := Some new_child]) bv))))
                 else Some Panic))"

definition trie_insert :: "(TrieNode \<Rightarrow> Hash) \<Rightarrow> u8 list \<Rightarrow> u8 list \<Rightarrow> MerkleTrie \<Rightarrow> MerkleTrie run option" where
  "trie_insert nh key v t =
     rbind (insert_recursive nh (mt_nodes t) (mt_root t) (key_to_nibbles key) 0 v)
       (\<lambda>(nodes, h). Some (Ret \<lparr>mt_root = h, mt_nodes = nodes\<rparr>))"

section \<open>Deletion and proofs\<close>

partial_function (option) delete_recursive ::
    "(TrieNode \<Rightarrow> Hash) \<Rightarrow> trie_nodes \<Rightarrow> Hash \<Rightarrow> u8 list \<Rightarrow> nat \<Rightarrow> (trie_nodes \<times> Hash StateResult) run option" where
  "delete_recursive nh nodes h nibbles depth =
     (case hget nodes h of
        None \<Rightarrow> Some (Ret (nodes, Inl (NotFound ''Node not found'')))
      | Some node \<Rightarrow>
        (case node of
           NEmpty \<Rightarrow> Some (Ret (nodes, Inr h))
         | NLeaf ke v \<Rightarrow>
             rbind (Some (slice_from nibbles depth)) (\<lambda>rest.
               Some (Ret (nodes, Inr (if rest = ke then 0 else h))))
         | NBranch children v \<Rightarrow>
             if depth \<ge> length nibbles
             then Some (Ret (map_prod id Inr (store_node nh (nodes, NBranch children None))))
             else
               let idx = unat (nibbles ! depth)
               in if idx < length children
                  then (case children ! idx of
                          None \<Rightarrow> Some (Ret (map_prod id Inr (store_node nh (nodes, NBranch children v))))
                        | Some child \<Rightarrow>
                          rbind (delete_recursive nh nodes child nibbles (depth + 1)) (\<lambda>(nodes, r).
                            case r of
                              Inl e \<Rightarrow> Some (Ret (nodes, Inl e))
                            | Inr new_child \<Rightarrow>
                              Some (Ret (map_prod id Inr (store_node nh (nodes,
                                NBranch (children[idx := (if new_child = 0 then None else Some new_child)]) v))))))
                  else Some Panic
         | NExtension p child \<Rightarrow> Some (Ret (nodes, Inr h))))"

definition trie_delete :: "(TrieNode \<Rightarrow> Hash) \<Rightarrow> u8 list \<Rightarrow> MerkleTrie \<Rightarrow> (MerkleTrie \<times> unit StateResult) run option" where
  "trie_delete nh key t =
     rbind (delete_recursive nh (mt_nodes t) (mt_root t) (key_to_nibbles key) 0) (\<lambda>(nodes, r).
       case r of Inl e \<Rightarrow> Some (Ret (t\<lparr>mt_nodes := nodes\<rparr>, Inl e))
       | Inr h \<Rightarrow> Some (Ret (\<lparr>mt_root = h, mt_nodes = nodes\<rparr>, Inr ())))"

record MerkleProof =
  mp_key :: "u8 list"
  mp_value :: "u8 list option"
  mp_nodes :: "TrieNode list"
  mp_root :: Hash

partial_function (option) prove_recursive ::
    "trie_nodes \<Rightarrow> Hash \<Rightarrow> u8 list \<Rightarrow> nat \<Rightarrow> TrieNode list \<Rightarrow> (bool \<times> TrieNode list) run option" where
  "prove_recursive nodes h nibbles depth path =
     (case hget nodes h of
        None \<Rightarrow> Some (Ret (False, path))
      | Some node \<Rightarrow>
        (case node of
           NEmpty \<Rightarrow> Some (Ret (True, path @ [node]))
         | NLeaf ke v \<Rightarrow> Some (Ret (True, path @ [node]))
         | NExtension p child \<Rightarrow>
             rbind (Some (slice_from nibbles depth)) (\<lambda>rest.
               if prefix p rest then prove_recursive nodes child nibbles (depth + length p) (path @ [node])
               else Some (Ret (True, path @ [node])))
         | NBranch children v \<Rightarrow>
             if depth < length nibbles
             then let idx = unat (nibbles ! depth)
                  in if idx < length children
                     then (case children ! idx of
                             Some child \<Rightarrow> prove_recursive nodes child nibbles (depth + 1) (path @ [node])
                           | None \<Rightarrow> Some (Ret (True, path @ [node])))
                     else Some Panic
             else Some (Ret (True, path @ [node]))))"

definition prove :: "u8 list \<Rightarrow> MerkleTrie \<Rightarrow> MerkleProof option run option" where
  "prove key t =
     rbind (prove_recursive (mt_nodes t) (mt_root t) (key_to_nibbles key) 0 []) (\<lambda>(ok, nodes).
       if ok then rbind (trie_get key t) (\<lambda>v.
         Some (Ret (Some \<lparr>mp_key = key, mp_value = v, mp_nodes = nodes, mp_root = mt_root t\<rparr>)))
       else Some (Ret None))"

definition verify_proof :: "(TrieNode \<Rightarrow> Hash) \<Rightarrow> MerkleProof \<Rightarrow> bool" where
  "verify_proof nh p =
     (if mp_nodes p = [] then mp_value p = None else nh (mp_nodes p ! 0) = mp_root p)"

section \<open>The reference tree\<close>

text \<open>
  The same trie with subtrees in place of hashes, an absent child being the empty tree. On keys of
  one length it is a map: \<open>tget\<close> after \<open>tins\<close> is a map update.
\<close>

datatype ptree =
    TEmpty
  | TLeaf "u8 list" "u8 list"
  | TExt "u8 list" ptree
  | TBranch "ptree list" "u8 list option"

definition twrap :: "u8 list \<Rightarrow> ptree \<Rightarrow> ptree" where
  "twrap shared t = (if shared = [] then t else TExt shared t)"

fun tget :: "ptree \<Rightarrow> u8 list \<Rightarrow> u8 list option" where
  "tget TEmpty ks = None"
| "tget (TLeaf ke v) ks = (if ks = ke then Some v else None)"
| "tget (TExt p t) ks = (if prefix p ks then tget t (drop (length p) ks) else None)"
| "tget (TBranch ts v) [] = v"
| "tget (TBranch ts v) (k # ks) = (if unat k < length ts then tget (ts ! unat k) ks else None)"

definition fork :: "u8 \<Rightarrow> ptree \<Rightarrow> u8 \<Rightarrow> ptree \<Rightarrow> ptree" where
  "fork a s b t = TBranch ((replicate 16 TEmpty)[unat a := s, unat b := t]) None"

fun tins :: "ptree \<Rightarrow> u8 list \<Rightarrow> u8 list \<Rightarrow> ptree" where
  "tins TEmpty ks v = TLeaf ks v"
| "tins (TLeaf ke w) ks v =
     (if ke = ks then TLeaf ke v
      else let c = common_len ke ks
           in twrap (take c ks) (fork (ke ! c) (TLeaf (drop (c + 1) ke) w) (ks ! c) (TLeaf (drop (c + 1) ks) v)))"
| "tins (TExt p t) ks v =
     (if prefix p ks then TExt p (tins t (drop (length p) ks) v)
      else let c = common_len p ks
           in twrap (take c ks) (fork (p ! c) (twrap (drop (c + 1) p) t) (ks ! c) (TLeaf (drop (c + 1) ks) v)))"
| "tins (TBranch ts bv) [] v = TBranch ts (Some v)"
| "tins (TBranch ts bv) (k # ks) v =
     (if unat k < length ts then TBranch (ts[unat k := tins (ts ! unat k) ks v]) bv else TBranch ts bv)"

definition nibs :: "u8 list \<Rightarrow> bool" where
  "nibs ks \<longleftrightarrow> (\<forall>k \<in> set ks. unat k < 16)"

text \<open>Every path to a value has length \<open>n\<close>.\<close>

fun uniform :: "nat \<Rightarrow> ptree \<Rightarrow> bool" where
  "uniform n TEmpty \<longleftrightarrow> True"
| "uniform n (TLeaf ke v) \<longleftrightarrow> length ke = n \<and> nibs ke"
| "uniform n (TExt p t) \<longleftrightarrow> p \<noteq> [] \<and> nibs p \<and> length p \<le> n \<and> t \<noteq> TEmpty \<and> uniform (n - length p) t"
| "uniform n (TBranch ts v) \<longleftrightarrow> 0 < n \<and> length ts = 16 \<and> v = None \<and> (\<forall>t \<in> set ts. uniform (n - 1) t)"

lemma nibs_simps [simp]:
  "nibs []" "nibs (k # ks) \<longleftrightarrow> unat k < 16 \<and> nibs ks" "nibs (ks @ js) \<longleftrightarrow> nibs ks \<and> nibs js"
  by (auto simp: nibs_def)

lemma nibs_drop: "nibs ks \<Longrightarrow> nibs (drop d ks)"
  by (auto simp: nibs_def dest: in_set_dropD)

lemma common_len_simps [simp]:
  "common_len (s @ xs) (s @ ys) = length s + common_len xs ys"
  "common_len (a # xs) (b # ys) = (if a = b then Suc (common_len xs ys) else 0)"
  "common_len [] ys = 0"
  by (induction s) (simp_all add: common_len_def)

lemma key_cases:
  assumes "length (p::u8 list) \<le> length ks"
  obtains r where "ks = p @ r" | s a x b y where "p = s @ a # x" "ks = s @ b # y" "a \<noteq> b"
proof (cases "prefix p ks")
  case True
  then show ?thesis using that(1) by (auto simp: prefix_def)
next
  case False
  moreover have "\<not> prefix ks p"
    using False assms by (auto simp: prefix_def)
  ultimately show ?thesis
    using parallel_decomp [of p ks] that(2) by (auto simp: parallel_def)
qed

lemma tget_fork:
  assumes "unat a < 16" "unat b < 16" "a \<noteq> b" "unat k < 16"
  shows "tget (fork a s b t) (k # ks) = (if k = a then tget s ks else if k = b then tget t ks else None)"
proof -
  have "unat a \<noteq> unat b" "k = a \<longleftrightarrow> unat k = unat a" "k = b \<longleftrightarrow> unat k = unat b"
    using assms(3) by (metis word_unat_eq_iff)+
  with assms show ?thesis by (auto simp: fork_def nth_list_update)
qed

lemma tget_twrap:
  "tget (twrap s t) js = (if prefix s js then tget t (drop (length s) js) else None)"
  by (simp add: twrap_def)

lemma uniform_twrap:
  "nibs s \<Longrightarrow> t \<noteq> TEmpty \<Longrightarrow> uniform n t \<Longrightarrow> uniform (length s + n) (twrap s t)"
  by (auto simp: twrap_def)

lemma uniform_fork:
  assumes "uniform n s" "uniform n t"
  shows "uniform (Suc n) (fork a s b t)"
proof -
  have "set ((replicate 16 TEmpty)[unat a := s, unat b := t]) \<subseteq> {TEmpty, s, t}"
    by (intro set_update_subsetI) auto
  with assms show ?thesis by (auto simp: fork_def)
qed

lemma tins_split [simp]:
  assumes "a \<noteq> b"
  shows "tins (TLeaf (s @ a # x) w) (s @ b # y) v = twrap s (fork a (TLeaf x w) b (TLeaf y v))"
    and "tins (TExt (s @ a # x) t) (s @ b # y) v = twrap s (fork a (twrap x t) b (TLeaf y v))"
  using assms by (simp_all add: Let_def nth_append)

lemma twrap_fork_neq [simp]: "twrap s (fork a x b y) \<noteq> TEmpty"
  by (simp add: twrap_def fork_def)

lemma uniform_tins:
  "uniform n t \<Longrightarrow> length ks = n \<Longrightarrow> nibs ks \<Longrightarrow> uniform n (tins t ks v) \<and> tins t ks v \<noteq> TEmpty"
proof (induction t ks v arbitrary: n rule: tins.induct)
  case (2 ke w ks v)
  then have "length ke \<le> length ks" by simp
  then show ?case
  proof (cases rule: key_cases)
    case (2 s a x b y)
    then have "uniform (length s + Suc (length y)) (twrap s (fork a (TLeaf x w) b (TLeaf y v)))"
      using 2 \<open>uniform n (TLeaf ke w)\<close> \<open>length ks = n\<close> \<open>nibs ks\<close>
      by (intro uniform_twrap uniform_fork) (auto simp: fork_def)
    with 2 \<open>length ks = n\<close> show ?thesis by (simp del: tins.simps)
  qed (use 2 in auto)
next
  case (3 p t ks v)
  then have "length p \<le> length ks" by simp
  then show ?case
  proof (cases rule: key_cases)
    case (1 r)
    with 3(1) [of "length r"] 3(2-4) show ?thesis by auto
  next
    case (2 s a x b y)
    have "uniform (length y) (twrap x t)"
      using uniform_twrap [of x t "n - length p"] 2 3(2-4) by auto
    then have "uniform (length s + Suc (length y)) (twrap s (fork a (twrap x t) b (TLeaf y v)))"
      using 2 3(2-4) by (intro uniform_twrap uniform_fork) (auto simp: fork_def)
    with 2 3(3) show ?thesis by (simp del: tins.simps)
  qed
next
  case (5 ts bv k ks v)
  then have "uniform (n - 1) (ts ! unat k)" by simp
  with 5 have "uniform (n - 1) (tins (ts ! unat k) ks v)" by simp
  with 5 show ?case by (auto dest!: set_update_subset_insert [THEN subsetD])
qed auto

lemma tget_tins:
  "uniform n t \<Longrightarrow> length ks = n \<Longrightarrow> nibs ks \<Longrightarrow> length js = n \<Longrightarrow> nibs js
    \<Longrightarrow> tget (tins t ks v) js = (if js = ks then Some v else tget t js)"
proof (induction t ks v arbitrary: n js rule: tins.induct)
  case (2 ke w ks v)
  then have "length ke \<le> length ks" by simp
  then show ?case
  proof (cases rule: key_cases)
    case (2 s a x b y)
    show ?thesis
    proof (cases "prefix s js")
      case True
      then obtain k r where "js = s @ k # r"
        using 2 \<open>length ks = n\<close> \<open>length js = n\<close> by (cases "drop (length s) js") (auto simp: prefix_def)
      with 2 \<open>uniform n (TLeaf ke w)\<close> \<open>nibs ks\<close> \<open>nibs js\<close> show ?thesis
        by (auto simp: tget_twrap tget_fork simp del: tins.simps)
    qed (use 2 in \<open>auto simp: tget_twrap simp del: tins.simps\<close>)
  qed (use 2 in auto)
next
  case (3 p t ks v)
  then have "length p \<le> length ks" by simp
  then show ?case
  proof (cases rule: key_cases)
    case (1 r)
    with 3 show ?thesis by (auto simp: prefix_def split: if_splits)
  next
    case (2 s a x b y)
    show ?thesis
    proof (cases "prefix s js")
      case True
      then obtain k r where "js = s @ k # r"
        using 2 \<open>length ks = n\<close> \<open>length js = n\<close> by (cases "drop (length s) js") (auto simp: prefix_def)
      with 2 3(2-) show ?thesis
        by (auto simp: tget_twrap tget_fork simp del: tins.simps)
    qed (use 2 in \<open>auto simp: tget_twrap simp del: tins.simps dest: append_prefixD\<close>)
  qed
next
  case (5 ts bv k ks v)
  then obtain j js' where js: "js = j # js'" by (cases js) auto
  have "j = k \<longleftrightarrow> unat j = unat k" by (metis word_unat_eq_iff)
  moreover have "uniform (length ks) (ts ! unat k)" using 5 by auto
  ultimately show ?case using 5 js by (auto simp: nth_list_update)
qed auto

section \<open>The store holds the tree\<close>

fun node_of :: "(TrieNode \<Rightarrow> Hash) \<Rightarrow> ptree \<Rightarrow> TrieNode" where
  "node_of nh TEmpty = NEmpty"
| "node_of nh (TLeaf ke v) = NLeaf ke v"
| "node_of nh (TExt p t) = NExtension p (if t = TEmpty then 0 else nh (node_of nh t))"
| "node_of nh (TBranch ts v) =
     NBranch (map (\<lambda>t. if t = TEmpty then None else Some (nh (node_of nh t))) ts) v"

definition hash_of :: "(TrieNode \<Rightarrow> Hash) \<Rightarrow> ptree \<Rightarrow> Hash" where
  "hash_of nh t = (if t = TEmpty then 0 else nh (node_of nh t))"

definition kid_of :: "(TrieNode \<Rightarrow> Hash) \<Rightarrow> ptree \<Rightarrow> Hash option" where
  "kid_of nh t = (if t = TEmpty then None else Some (hash_of nh t))"

fun subtrees :: "ptree \<Rightarrow> ptree set" where
  "subtrees TEmpty = {TEmpty}"
| "subtrees (TLeaf ke v) = {TLeaf ke v}"
| "subtrees (TExt p t) = insert (TExt p t) (subtrees t)"
| "subtrees (TBranch ts v) = insert (TBranch ts v) (\<Union>t \<in> set ts. subtrees t)"

definition held :: "(TrieNode \<Rightarrow> Hash) \<Rightarrow> trie_nodes \<Rightarrow> ptree \<Rightarrow> bool" where
  "held nh nodes t \<longleftrightarrow> hget nodes (hash_of nh t) = Some (node_of nh t)"

definition collision_free :: "(TrieNode \<Rightarrow> Hash) \<Rightarrow> ptree set \<Rightarrow> bool" where
  "collision_free nh S \<longleftrightarrow>
     (\<forall>a \<in> S. \<forall>b \<in> S. hash_of nh a = hash_of nh b \<longrightarrow> node_of nh a = node_of nh b)"

definition put_tree :: "(TrieNode \<Rightarrow> Hash) \<Rightarrow> ptree \<Rightarrow> trie_nodes \<Rightarrow> trie_nodes" where
  "put_tree nh t nodes = hput (hash_of nh t) (node_of nh t) nodes"

lemma node_of_simps [simp]:
  "node_of nh (TExt p t) = NExtension p (hash_of nh t)"
  "node_of nh (TBranch ts v) = NBranch (map (kid_of nh) ts) v"
  by (simp_all add: hash_of_def kid_of_def)

declare node_of.simps(3,4) [simp del]

lemma hash_of_simps [simp]:
  "hash_of nh TEmpty = 0" "hash_of nh (TLeaf ke v) = nh (NLeaf ke v)"
  "hash_of nh (TExt p t) = nh (NExtension p (hash_of nh t))"
  "hash_of nh (TBranch ts bv) = nh (NBranch (map (kid_of nh) ts) bv)"
  by (simp_all add: hash_of_def)

lemma kid_of_simps [simp]: "kid_of nh TEmpty = None" "t \<noteq> TEmpty \<Longrightarrow> kid_of nh t = Some (hash_of nh t)"
  "(case kid_of nh t of None \<Rightarrow> 0 | Some h \<Rightarrow> h) = hash_of nh t"
  by (simp_all add: kid_of_def)

lemma subtrees_self [simp]: "t \<in> subtrees t"
  by (cases t) auto

lemma collision_free_subset: "collision_free nh S \<Longrightarrow> T \<subseteq> S \<Longrightarrow> collision_free nh T"
  unfolding collision_free_def by blast

lemma held_put: "held nh (put_tree nh t nodes) t"
  by (simp add: held_def put_tree_def)

lemma held_put_mono:
  assumes "collision_free nh S" "t \<in> S" "x \<in> S" "held nh nodes x"
  shows "held nh (put_tree nh t nodes) x"
proof (cases "hash_of nh x = hash_of nh t")
  case True
  with assms(1-3) have "node_of nh x = node_of nh t" unfolding collision_free_def by blast
  with True show ?thesis by (simp add: held_def put_tree_def)
next
  case False
  with assms(4) show ?thesis by (simp add: held_def put_tree_def)
qed

lemma store_node_put:
  "t \<noteq> TEmpty \<Longrightarrow> store_node nh (nodes, node_of nh t) = (put_tree nh t nodes, hash_of nh t)"
  by (simp add: store_node_def put_tree_def hash_of_def)

lemma get_recursive_tget:
  assumes "\<forall>x \<in> subtrees t. held nh nodes x" "uniform (length ks - d) t" "d \<le> length ks" "nibs ks"
  shows "get_recursive nodes (hash_of nh t) ks d = Some (Ret (tget t (drop d ks)))"
  using assms
proof (induction t arbitrary: d)
  case (TExt p t)
  then have h: "hget nodes (hash_of nh (TExt p t)) = Some (NExtension p (hash_of nh t))"
    by (simp add: held_def)
  show ?case
  proof (cases "prefix p (drop d ks)")
    case True
    have "get_recursive nodes (hash_of nh t) ks (d + length p) = Some (Ret (tget t (drop (d + length p) ks)))"
      using TExt.prems by (intro TExt.IH) auto
    with True TExt.prems h show ?thesis
      by (subst get_recursive.simps) (simp add: slice_from_def add.commute)
  next
    case False
    with TExt.prems h show ?thesis
      by (subst get_recursive.simps) (simp add: slice_from_def)
  qed
next
  case (TBranch ts v)
  then have h: "hget nodes (hash_of nh (TBranch ts v)) = Some (NBranch (map (kid_of nh) ts) v)"
    by (simp add: held_def)
  have d: "d < length ks" using TBranch.prems by simp
  let ?i = "unat (ks ! d)"
  have i: "?i < length ts" using TBranch.prems d by (simp add: nibs_def)
  then have "get_recursive nodes (hash_of nh (ts ! ?i)) ks (d + 1) = Some (Ret (tget (ts ! ?i) (drop (d + 1) ks)))"
    using TBranch.prems d by (intro TBranch.IH) (auto intro: nth_mem)
  with i d h show ?case
    by (subst get_recursive.simps) (cases "ts ! ?i = TEmpty"; simp add: Let_def flip: Cons_nth_drop_Suc)
qed (subst get_recursive.simps, auto simp: held_def slice_from_def)+

abbreviation put_trees :: "(TrieNode \<Rightarrow> Hash) \<Rightarrow> ptree list \<Rightarrow> trie_nodes \<Rightarrow> trie_nodes" where
  "put_trees nh xs nodes \<equiv> fold (put_tree nh) xs nodes"

lemma held_put_trees:
  assumes "collision_free nh S" "set xs \<subseteq> S" "y \<in> S" "held nh nodes y \<or> y \<in> set xs"
  shows "held nh (put_trees nh xs nodes) y"
  using assms(2,4)
proof (induction xs arbitrary: nodes)
  case (Cons x xs)
  then have "held nh (put_tree nh x nodes) y \<or> y \<in> set xs"
    using held_put [of nh x nodes] held_put_mono [OF assms(1) _ assms(3), of x nodes] by auto
  with Cons show ?case by simp
qed simp

definition split_puts :: "u8 list \<Rightarrow> ptree \<Rightarrow> ptree list" where
  "split_puts s f = (if s = [] then [] else [f])"

lemma fork_node:
  assumes "t \<noteq> TEmpty" "t' \<noteq> TEmpty"
  shows "node_of nh (fork a t b t')
    = NBranch ((replicate 16 None)[unat a := Some (hash_of nh t), unat b := Some (hash_of nh t')]) None"
  using assms by (simp add: fork_def map_update)

lemma wrap_branch_fork:
  assumes "fork a t b t' = f"
  shows "wrap_branch nh s (node_of nh f) nodes = (put_trees nh (split_puts s f) nodes, node_of nh (twrap s f))"
  using assms by (auto simp: wrap_branch_def split_puts_def twrap_def put_tree_def fork_def)

lemma split_leaf_eq:
  assumes "a \<noteq> b" "unat a < 16" "unat b < 16" and f: "f = fork a (TLeaf x w) b (TLeaf y v)"
  shows "split_leaf nh nodes (s @ a # x) w (s @ b # y) v
    = Ret (put_trees nh ([TLeaf x w, TLeaf y v] @ split_puts s f) nodes, node_of nh (twrap s f))"
proof -
  have "split_leaf nh nodes (s @ a # x) w (s @ b # y) v
      = Ret (wrap_branch nh s (node_of nh f) (put_trees nh [TLeaf x w, TLeaf y v] nodes))"
    using assms by (simp add: split_leaf_def hang_leaf_def put_child_def Let_def fork_node put_tree_def nth_append)
  then show ?thesis using wrap_branch_fork [OF f [symmetric]] by simp
qed

lemma split_extension_eq:
  assumes "a \<noteq> b" "unat a < 16" "unat b < 16" "t \<noteq> TEmpty" and f: "f = fork a (twrap x t) b (TLeaf y v)"
  shows "split_extension nh nodes (s @ a # x) (hash_of nh t) (s @ b # y) v
    = Ret (put_trees nh (split_puts x (twrap x t) @ [TLeaf y v] @ split_puts s f) nodes, node_of nh (twrap s f))"
proof -
  have "split_extension nh nodes (s @ a # x) (hash_of nh t) (s @ b # y) v
      = Ret (wrap_branch nh s (node_of nh f) (put_trees nh (split_puts x (twrap x t) @ [TLeaf y v]) nodes))"
    using assms
    by (simp add: split_extension_def put_child_def Let_def fork_node put_tree_def nth_append slice_from_def
        twrap_def split_puts_def)
  then show ?thesis using wrap_branch_fork [OF f [symmetric]] by simp
qed

lemma subtrees_fork: "subtrees (fork a s b t) \<subseteq> insert (fork a s b t) (insert TEmpty (subtrees s \<union> subtrees t))"
proof -
  have "set ((replicate 16 TEmpty)[unat a := s, unat b := t]) \<subseteq> {TEmpty, s, t}"
    by (intro set_update_subsetI) auto
  then show ?thesis by (auto simp: fork_def)
qed

lemma subtrees_fork_kids:
  assumes "unat a < 16" "unat b < 16" "a \<noteq> b"
  shows "subtrees s \<subseteq> subtrees (fork a s b t)" "subtrees t \<subseteq> subtrees (fork a s b t)"
proof -
  have "unat a \<noteq> unat b" using assms(3) by (metis word_unat_eq_iff)
  then have "s \<in> set ((replicate 16 TEmpty)[unat a := s, unat b := t])"
      "t \<in> set ((replicate 16 TEmpty)[unat a := s, unat b := t])"
    using assms by (auto simp: in_set_conv_nth intro: exI [of _ "unat a"] exI [of _ "unat b"])
  then show "subtrees s \<subseteq> subtrees (fork a s b t)" "subtrees t \<subseteq> subtrees (fork a s b t)"
    by (auto simp: fork_def)
qed

lemma subtrees_twrap: "subtrees (twrap s t) = insert (twrap s t) (subtrees t)"
  by (auto simp: twrap_def)

text \<open>
  An insertion that has written the trees \<open>xs\<close>, all within \<open>S\<close>: the store it leaves holds the whole
  new tree.
\<close>

definition inserts_as ::
    "(TrieNode \<Rightarrow> Hash) \<Rightarrow> ptree set \<Rightarrow> trie_nodes \<Rightarrow> (trie_nodes \<times> Hash) run option \<Rightarrow> ptree \<Rightarrow> bool" where
  "inserts_as nh S nodes r t \<longleftrightarrow>
     (\<exists>xs. set xs \<subseteq> S \<and> r = Some (Ret (put_trees nh xs nodes, hash_of nh t))
       \<and> (\<forall>x \<in> subtrees t. held nh (put_trees nh xs nodes) x))"

lemma inserts_asI:
  assumes "collision_free nh S" "set xs \<subseteq> S" "subtrees t \<subseteq> S"
    and "r = Some (Ret (put_trees nh xs nodes, hash_of nh t))"
    and "\<And>x. x \<in> subtrees t \<Longrightarrow> held nh nodes x \<or> x \<in> set xs"
  shows "inserts_as nh S nodes r t"
  unfolding inserts_as_def
  using assms held_put_trees [OF assms(1,2)] by (intro exI [of _ xs]) blast

lemma inserts_as_parent:
  assumes "collision_free nh S" "inserts_as nh S nodes r c" "subtrees t \<subseteq> S" "t \<noteq> TEmpty"
    and "\<And>nodes. f nodes (hash_of nh c) = Some (Ret (store_node nh (nodes, node_of nh t)))"
    and "\<And>x. x \<in> subtrees t \<Longrightarrow> x \<noteq> t \<Longrightarrow> x \<in> subtrees c \<or> held nh nodes x"
  shows "inserts_as nh S nodes (rbind r (\<lambda>(nodes, h). f nodes h)) t"
proof -
  obtain xs where xs: "set xs \<subseteq> S" "r = Some (Ret (put_trees nh xs nodes, hash_of nh c))"
      "\<forall>x \<in> subtrees c. held nh (put_trees nh xs nodes) x"
    using assms(2) by (auto simp: inserts_as_def)
  let ?n = "put_trees nh xs nodes"
  have tS: "t \<in> S" using assms(3) by auto
  have "held nh (put_tree nh t ?n) x" if x: "x \<in> subtrees t" for x
  proof (cases "x = t")
    case False
    have "held nh ?n x"
      using assms(6) [OF x False] xs(3) held_put_trees [OF assms(1) xs(1), of x nodes] assms(3) x by blast
    then show ?thesis using held_put_mono [OF assms(1) tS] assms(3) x by blast
  qed (simp add: held_put)
  with xs tS assms(4,5) show ?thesis
    by (auto simp: inserts_as_def store_node_put intro!: exI [of _ "xs @ [t]"])
qed

lemma inserts_as_split:
  assumes cf: "collision_free nh S" and "held nh nodes TEmpty" and n: "unat a < 16" "unat b < 16" "a \<noteq> b"
    and f: "f = fork a u b (TLeaf y v)" and sub: "subtrees (twrap s f) \<subseteq> S"
    and us: "\<And>x. x \<in> subtrees u \<Longrightarrow> held nh nodes x \<or> x \<in> set us" "set us \<subseteq> subtrees u"
    and "r = Some (Ret (put_trees nh (us @ [TLeaf y v] @ split_puts s f @ [twrap s f]) nodes, hash_of nh (twrap s f)))"
  shows "inserts_as nh S nodes r (twrap s f)"
proof (rule inserts_asI [OF cf _ sub assms(10)])
  note kids = subtrees_fork_kids [OF n, where s = u and t = "TLeaf y v", folded f]
  show "set (us @ [TLeaf y v] @ split_puts s f @ [twrap s f]) \<subseteq> S"
    using kids us(2) sub by (auto simp: subtrees_twrap split_puts_def)
  show "held nh nodes x \<or> x \<in> set (us @ [TLeaf y v] @ split_puts s f @ [twrap s f])"
    if "x \<in> subtrees (twrap s f)" for x
  proof -
    have "x \<in> {twrap s f, f, TEmpty, TLeaf y v} \<or> x \<in> subtrees u"
      using that subtrees_fork [of a u b "TLeaf y v", folded f] by (auto simp: subtrees_twrap)
    then show ?thesis using assms(2) us(1) by (auto simp: split_puts_def twrap_def)
  qed
qed

lemma insert_leaf_tins:
  assumes cf: "collision_free nh S" and empty: "held nh nodes TEmpty"
    and prems: "\<forall>x \<in> subtrees (TLeaf ke w). held nh nodes x" "uniform (length ks - d) (TLeaf ke w)" "d \<le> length ks" "nibs ks"
      "subtrees (tins (TLeaf ke w) (drop d ks) v) \<subseteq> S"
  shows "inserts_as nh S nodes (insert_recursive nh nodes (hash_of nh (TLeaf ke w)) ks d v) (tins (TLeaf ke w) (drop d ks) v)"
proof -
  let ?r = "drop d ks"
  have h: "hget nodes (hash_of nh (TLeaf ke w)) = Some (NLeaf ke w)" using prems by (simp add: held_def)
  have "length ke \<le> length ?r" using prems by simp
  then show ?thesis
  proof (cases rule: key_cases)
    case (1 r)
    then have "length ?r = length ke + length r" by (metis length_append)
    moreover have "length ke = length ?r" using prems(2) by simp
    ultimately have "r = []" by (metis add_cancel_right_right length_0_conv)
    with 1 have "ke = ?r" by simp
    with h prems have "insert_recursive nh nodes (hash_of nh (TLeaf ke w)) ks d v
        = Some (Ret (put_trees nh [TLeaf ke v] nodes, hash_of nh (TLeaf ke v)))"
      using common_len_simps(1) [of ke "[]" "[]"]
      by (subst insert_recursive.simps) (simp add: slice_from_def store_node_def put_tree_def split_leaf_def)
    with \<open>ke = ?r\<close> prems show ?thesis by (intro inserts_asI [OF cf, of "[TLeaf ke v]"]) auto
  next
    case (2 s a x b y)
    let ?f = "fork a (TLeaf x w) b (TLeaf y v)"
    have n: "unat a < 16" "unat b < 16"
      using prems(2) nibs_drop [OF prems(4), of d] 2 by simp_all
    have new: "tins (TLeaf ke w) ?r v = twrap s ?f" using 2 by (simp del: tins.simps)
    have "insert_recursive nh nodes (hash_of nh (TLeaf ke w)) ks d v
        = Some (Ret (put_trees nh ([TLeaf x w, TLeaf y v] @ split_puts s ?f @ [twrap s ?f]) nodes, hash_of nh (twrap s ?f)))"
      using h prems 2 n
      by (subst insert_recursive.simps) (simp add: slice_from_def split_leaf_eq [OF _ _ _ refl] store_node_put)
    then show ?thesis
      unfolding new
      using prems(5) [unfolded new] by (intro inserts_as_split [OF cf empty n 2(3) refl, where us = "[TLeaf x w]"]) simp_all
  qed
qed

lemma insert_extension_tins:
  assumes cf: "collision_free nh S" and empty: "held nh nodes TEmpty"
    and prems: "\<forall>x \<in> subtrees (TExt p t). held nh nodes x" "uniform (length ks - d) (TExt p t)" "d \<le> length ks" "nibs ks"
      "subtrees (tins (TExt p t) (drop d ks) v) \<subseteq> S"
    and IH: "\<And>d. \<forall>x \<in> subtrees t. held nh nodes x \<Longrightarrow> uniform (length ks - d) t \<Longrightarrow> d \<le> length ks \<Longrightarrow> nibs ks \<Longrightarrow>
      subtrees (tins t (drop d ks) v) \<subseteq> S \<Longrightarrow>
      inserts_as nh S nodes (insert_recursive nh nodes (hash_of nh t) ks d v) (tins t (drop d ks) v)"
  shows "inserts_as nh S nodes (insert_recursive nh nodes (hash_of nh (TExt p t)) ks d v) (tins (TExt p t) (drop d ks) v)"
proof -
  let ?r = "drop d ks"
  have h: "hget nodes (hash_of nh (TExt p t)) = Some (NExtension p (hash_of nh t))" using prems by (simp add: held_def)
  have "length p \<le> length ?r" using prems by simp
  then show ?thesis
  proof (cases rule: key_cases)
    case (1 r)
    let ?c = "tins t (drop (d + length p) ks) v"
    have r: "r = drop (d + length p) ks" using 1 by (metis add.commute append_eq_conv_conj drop_drop)
    have new: "tins (TExt p t) ?r v = TExt p ?c" using 1 r by simp
    have "inserts_as nh S nodes (insert_recursive nh nodes (hash_of nh t) ks (d + length p) v) ?c"
      using prems new by (intro IH) auto
    then have "inserts_as nh S nodes (rbind (insert_recursive nh nodes (hash_of nh t) ks (d + length p) v)
        (\<lambda>(nodes, h). Some (Ret (store_node nh (nodes, NExtension p h))))) (TExt p ?c)"
      using prems(5) new by (intro inserts_as_parent [OF cf]) auto
    moreover have "insert_recursive nh nodes (hash_of nh (TExt p t)) ks d v
        = rbind (insert_recursive nh nodes (hash_of nh t) ks (d + length p) v)
            (\<lambda>(nodes, h). Some (Ret (store_node nh (nodes, NExtension p h))))"
      using h prems 1 common_len_simps(1) [of p "[]" r]
      by (subst insert_recursive.simps) (simp add: slice_from_def)
    ultimately show ?thesis by (simp only: new)
  next
    case (2 s a x b y)
    let ?f = "fork a (twrap x t) b (TLeaf y v)"
    have n: "unat a < 16" "unat b < 16"
      using prems(2) nibs_drop [OF prems(4), of d] 2 by simp_all
    have new: "tins (TExt p t) ?r v = twrap s ?f" using 2 by (simp del: tins.simps)
    have "insert_recursive nh nodes (hash_of nh (TExt p t)) ks d v
        = Some (Ret (put_trees nh (split_puts x (twrap x t) @ [TLeaf y v] @ split_puts s ?f @ [twrap s ?f]) nodes,
            hash_of nh (twrap s ?f)))"
      using h prems 2 n
      by (subst insert_recursive.simps) (simp add: slice_from_def split_extension_eq [OF _ _ _ _ refl] store_node_put)
    then show ?thesis
      unfolding new
      using prems(1) prems(5) [unfolded new]
      by (intro inserts_as_split [OF cf empty n 2(3) refl, where us = "split_puts x (twrap x t)"])
        (auto simp: subtrees_twrap split_puts_def twrap_def)
  qed
qed

lemma insert_branch_tins:
  assumes cf: "collision_free nh S" and empty: "held nh nodes TEmpty"
    and prems: "\<forall>x \<in> subtrees (TBranch ts bv). held nh nodes x" "uniform (length ks - d) (TBranch ts bv)" "d \<le> length ks" "nibs ks"
      "subtrees (tins (TBranch ts bv) (drop d ks) v) \<subseteq> S"
    and IH: "\<And>t d. t \<in> set ts \<Longrightarrow> \<forall>x \<in> subtrees t. held nh nodes x \<Longrightarrow> uniform (length ks - d) t \<Longrightarrow> d \<le> length ks \<Longrightarrow> nibs ks \<Longrightarrow>
      subtrees (tins t (drop d ks) v) \<subseteq> S \<Longrightarrow>
      inserts_as nh S nodes (insert_recursive nh nodes (hash_of nh t) ks d v) (tins t (drop d ks) v)"
  shows "inserts_as nh S nodes (insert_recursive nh nodes (hash_of nh (TBranch ts bv)) ks d v) (tins (TBranch ts bv) (drop d ks) v)"
proof -
  have h: "hget nodes (hash_of nh (TBranch ts bv)) = Some (NBranch (map (kid_of nh) ts) bv)"
    using prems by (simp add: held_def)
  have d: "d < length ks" using prems by simp
  let ?i = "unat (ks ! d)" and ?c = "tins (ts ! unat (ks ! d)) (drop (d + 1) ks) v"
  have i: "?i < length ts" using prems d by (simp add: nibs_def)
  have new: "tins (TBranch ts bv) (drop d ks) v = TBranch (ts[?i := ?c]) bv"
    using i d by (simp flip: Cons_nth_drop_Suc)
  have u: "uniform (length ks - (d + 1)) (ts ! ?i)" using prems(2) i by auto
  then have c: "?c \<noteq> TEmpty"
    using uniform_tins [OF u, of "drop (d + 1) ks" v] nibs_drop [OF prems(4)] by simp
  have sub: "subtrees ?c \<subseteq> subtrees (TBranch (ts[?i := ?c]) bv)" using i by (auto simp: set_update_memI)
  have "inserts_as nh S nodes (insert_recursive nh nodes (hash_of nh (ts ! ?i)) ks (d + 1) v) ?c"
  proof (rule IH)
    show "ts ! ?i \<in> set ts" using i by simp
    then show "\<forall>x \<in> subtrees (ts ! ?i). held nh nodes x" using prems(1) by auto
    show "subtrees ?c \<subseteq> S" using sub prems(5) [unfolded new] by (rule order_trans)
  qed (use u d prems(4) in simp_all)
  then have "inserts_as nh S nodes (rbind (insert_recursive nh nodes (hash_of nh (ts ! ?i)) ks (d + 1) v)
      (\<lambda>(nodes, h). Some (Ret (store_node nh (nodes, NBranch ((map (kid_of nh) ts)[?i := Some h]) bv)))))
      (TBranch (ts[?i := ?c]) bv)"
    using prems(1,5) new c
    by (intro inserts_as_parent [OF cf]) (auto simp: map_update dest!: set_update_subset_insert [THEN subsetD])
  moreover have "insert_recursive nh nodes (hash_of nh (TBranch ts bv)) ks d v
      = rbind (insert_recursive nh nodes (hash_of nh (ts ! ?i)) ks (d + 1) v)
          (\<lambda>(nodes, h). Some (Ret (store_node nh (nodes, NBranch ((map (kid_of nh) ts)[?i := Some h]) bv))))"
    using h d i
    by (subst insert_recursive.simps) (simp add: slice_from_def Let_def hd_drop_conv_nth)
  ultimately show ?thesis by (simp only: new)
qed

lemma insert_recursive_tins:
  assumes cf: "collision_free nh S" and empty: "held nh nodes TEmpty"
    and "\<forall>x \<in> subtrees t. held nh nodes x" "uniform (length ks - d) t" "d \<le> length ks" "nibs ks"
    and "subtrees (tins t (drop d ks) v) \<subseteq> S"
  shows "inserts_as nh S nodes (insert_recursive nh nodes (hash_of nh t) ks d v) (tins t (drop d ks) v)"
  using assms(3-)
proof (induction t arbitrary: d)
  case TEmpty
  let ?t = "TLeaf (drop d ks) v"
  have "insert_recursive nh nodes (hash_of nh TEmpty) ks d v = Some (Ret (put_trees nh [?t] nodes, hash_of nh ?t))"
    using TEmpty by (subst insert_recursive.simps) (simp add: held_def slice_from_def store_node_def put_tree_def)
  with TEmpty show ?case by (intro inserts_asI [OF cf, of "[?t]"]) auto
next
  case (TLeaf ke w)
  then show ?case by (rule insert_leaf_tins [OF cf empty])
next
  case (TExt p t)
  show ?case by (rule insert_extension_tins [OF cf empty TExt.prems]) (rule TExt.IH)
next
  case (TBranch ts bv)
  show ?case by (rule insert_branch_tins [OF cf empty TBranch.prems]) (rule TBranch.IH)
qed

lemma prove_recursive_path:
  assumes "\<forall>x \<in> subtrees t. held nh nodes x" "uniform (length ks - d) t" "d \<le> length ks" "nibs ks"
  shows "\<exists>rest. prove_recursive nodes (hash_of nh t) ks d path = Some (Ret (True, path @ node_of nh t # rest))"
  using assms
proof (induction t arbitrary: d path)
  case (TExt p t)
  then have h: "hget nodes (hash_of nh (TExt p t)) = Some (NExtension p (hash_of nh t))"
    by (simp add: held_def)
  show ?case
  proof (cases "prefix p (drop d ks)")
    case True
    have "\<exists>rest. prove_recursive nodes (hash_of nh t) ks (d + length p) (path @ [NExtension p (hash_of nh t)])
        = Some (Ret (True, (path @ [NExtension p (hash_of nh t)]) @ node_of nh t # rest))"
      using TExt.prems by (intro TExt.IH) auto
    with True TExt.prems h show ?thesis
      by (subst prove_recursive.simps) (auto simp: slice_from_def)
  next
    case False
    with TExt.prems h show ?thesis
      by (subst prove_recursive.simps) (simp add: slice_from_def)
  qed
next
  case (TBranch ts v)
  let ?n = "NBranch (map (kid_of nh) ts) v"
  have h: "hget nodes (hash_of nh (TBranch ts v)) = Some ?n" using TBranch by (simp add: held_def)
  have d: "d < length ks" using TBranch.prems by simp
  let ?i = "unat (ks ! d)"
  have i: "?i < length ts" using TBranch.prems d by (simp add: nibs_def)
  then have "\<exists>rest. prove_recursive nodes (hash_of nh (ts ! ?i)) ks (d + 1) (path @ [?n])
      = Some (Ret (True, (path @ [?n]) @ node_of nh (ts ! ?i) # rest))"
    using TBranch.prems d by (intro TBranch.IH) (auto intro: nth_mem)
  with i d h show ?case
    by (subst prove_recursive.simps) (cases "ts ! ?i = TEmpty"; auto simp: Let_def)
qed (subst prove_recursive.simps, auto simp: held_def)+

section \<open>Tries that hold a tree\<close>

lemma key_to_nibbles_simps [simp]:
  "key_to_nibbles [] = []" "key_to_nibbles (b # bs) = drop_bit 4 b # (b AND 0x0f) # key_to_nibbles bs"
  "length (key_to_nibbles key) = 2 * length key"
  by (induction key) (simp_all add: key_to_nibbles_def)

lemma nibble_values: "unat (drop_bit 4 (b::u8)) = unat b div 16" "unat (b AND 0x0f) = unat b mod 16"
proof -
  show "unat (drop_bit 4 b) = unat b div 16" by (simp add: drop_bit_eq_div unat_div)
  have "b AND 0x0f = take_bit 4 b" by (simp add: take_bit_eq_mask mask_eq_exp_minus_1)
  then show "unat (b AND 0x0f) = unat b mod 16" by (simp add: take_bit_eq_mod unat_mod)
qed

lemma nibs_key [simp]: "nibs (key_to_nibbles key)"
proof (induction key)
  case (Cons b bs)
  have "unat b < 256" using unat_lt2p [of b] by simp
  with Cons show ?case by (simp add: nibble_values)
qed simp

lemma key_to_nibbles_inject: "key_to_nibbles a = key_to_nibbles b \<longleftrightarrow> a = b"
proof
  show "key_to_nibbles a = key_to_nibbles b \<Longrightarrow> a = b"
  proof (induction a arbitrary: b)
    case (Cons x xs)
    then obtain y ys where b: "b = y # ys" by (cases b) auto
    with Cons.prems have "unat x div 16 = unat y div 16" "unat x mod 16 = unat y mod 16"
      by (auto simp flip: nibble_values)
    then have "unat x = unat y" by (metis mult_div_mod_eq)
    with Cons b show ?case by (simp add: word_unat_eq_iff)
  next
    case Nil
    then show ?case by (cases b) auto
  qed
qed simp

definition holds_tree :: "(TrieNode \<Rightarrow> Hash) \<Rightarrow> nat \<Rightarrow> MerkleTrie \<Rightarrow> ptree \<Rightarrow> bool" where
  "holds_tree nh n T t \<longleftrightarrow>
     mt_root T = hash_of nh t \<and> held nh (mt_nodes T) TEmpty \<and> (\<forall>x \<in> subtrees t. held nh (mt_nodes T) x)
     \<and> uniform (2 * n) t"

lemma holds_tree_new: "holds_tree nh n MerkleTrie_new TEmpty"
  by (simp add: holds_tree_def MerkleTrie_new_def held_def)

lemma trie_get_tree:
  "holds_tree nh n T t \<Longrightarrow> length key = n \<Longrightarrow> trie_get key T = Some (Ret (tget t (key_to_nibbles key)))"
  using get_recursive_tget [of t nh "mt_nodes T" "key_to_nibbles key" 0] by (simp add: trie_get_def holds_tree_def)

lemma trie_insert_tree:
  assumes T: "holds_tree nh n T t" and key: "length key = n"
    and cf: "collision_free nh (insert TEmpty (subtrees (tins t (key_to_nibbles key) v)))"
  shows "\<exists>T'. trie_insert nh key v T = Some (Ret T') \<and> holds_tree nh n T' (tins t (key_to_nibbles key) v)"
proof -
  let ?t = "tins t (key_to_nibbles key) v"
  have "inserts_as nh (insert TEmpty (subtrees ?t)) (mt_nodes T)
      (insert_recursive nh (mt_nodes T) (hash_of nh t) (key_to_nibbles key) 0 v) ?t"
    using insert_recursive_tins [OF cf, of "mt_nodes T" t "key_to_nibbles key" 0 v] T key
    by (auto simp: holds_tree_def)
  then obtain xs where xs: "set xs \<subseteq> insert TEmpty (subtrees ?t)"
      "insert_recursive nh (mt_nodes T) (mt_root T) (key_to_nibbles key) 0 v
        = Some (Ret (put_trees nh xs (mt_nodes T), hash_of nh ?t))"
      "\<forall>x \<in> subtrees ?t. held nh (put_trees nh xs (mt_nodes T)) x"
    using T by (auto simp: inserts_as_def holds_tree_def)
  have "held nh (put_trees nh xs (mt_nodes T)) TEmpty"
    using T xs(1) by (intro held_put_trees [OF cf]) (auto simp: holds_tree_def)
  moreover have "uniform (2 * n) ?t"
    using T key uniform_tins [of "2 * n" t "key_to_nibbles key" v] by (simp add: holds_tree_def)
  ultimately show ?thesis using xs(2,3) by (simp add: trie_insert_def holds_tree_def)
qed

fun insert_all :: "(TrieNode \<Rightarrow> Hash) \<Rightarrow> (u8 list \<times> u8 list) list \<Rightarrow> MerkleTrie \<Rightarrow> MerkleTrie run option" where
  "insert_all nh [] T = Some (Ret T)"
| "insert_all nh ((key, v) # kvs) T = rbind (trie_insert nh key v T) (insert_all nh kvs)"

definition tree_of :: "(u8 list \<times> u8 list) list \<Rightarrow> ptree" where
  "tree_of kvs = fold (\<lambda>(key, v) t. tins t (key_to_nibbles key) v) kvs TEmpty"

text \<open>No two nodes of any tree on the way to the last one collide.\<close>

definition no_collisions :: "(TrieNode \<Rightarrow> Hash) \<Rightarrow> (u8 list \<times> u8 list) list \<Rightarrow> bool" where
  "no_collisions nh kvs \<longleftrightarrow>
     (\<forall>m \<in> {..length kvs}. collision_free nh (insert TEmpty (subtrees (tree_of (take m kvs)))))"

lemma insert_all_append:
  "insert_all nh (xs @ ys) T = rbind (insert_all nh xs T) (insert_all nh ys)"
proof (induction xs arbitrary: T)
  case (Cons x xs)
  have assoc: "rbind m (\<lambda>x. rbind (f x) g) = rbind (rbind m f) g" for m :: "MerkleTrie run option" and f g
    by (auto simp: rbind_def split: option.split run.split Option.bind_split)
  obtain k v where "x = (k, v)" by fastforce
  moreover have "insert_all nh (xs @ ys) = (\<lambda>T. rbind (insert_all nh xs T) (insert_all nh ys))"
    using Cons by (simp add: fun_eq_iff)
  ultimately show ?case by (simp add: assoc)
qed simp

lemma insert_all_tree:
  assumes "\<forall>kv \<in> set kvs. length (fst kv) = n" and "no_collisions nh kvs"
  shows "\<exists>T. insert_all nh kvs MerkleTrie_new = Some (Ret T) \<and> holds_tree nh n T (tree_of kvs)
    \<and> (\<forall>key. length key = n \<longrightarrow> tget (tree_of kvs) (key_to_nibbles key) = map_of (rev kvs) key)"
  using assms
proof (induction kvs rule: rev_induct)
  case Nil
  then show ?case by (simp add: tree_of_def holds_tree_new)
next
  case (snoc kv kvs)
  obtain k v where kv: "kv = (k, v)" by fastforce
  have "no_collisions nh kvs"
    unfolding no_collisions_def
  proof
    fix m assume "m \<in> {..length kvs}"
    with snoc.prems(2) have "collision_free nh (insert TEmpty (subtrees (tree_of (take m (kvs @ [kv])))))"
      unfolding no_collisions_def by (metis atMost_iff le_SucI length_append_singleton)
    with \<open>m \<in> {..length kvs}\<close> show "collision_free nh (insert TEmpty (subtrees (tree_of (take m kvs))))" by simp
  qed
  with snoc obtain T where T: "insert_all nh kvs MerkleTrie_new = Some (Ret T)" "holds_tree nh n T (tree_of kvs)"
      "\<forall>key. length key = n \<longrightarrow> tget (tree_of kvs) (key_to_nibbles key) = map_of (rev kvs) key"
    by auto
  have new: "tree_of (kvs @ [(k, v)]) = tins (tree_of kvs) (key_to_nibbles k) v" by (simp add: tree_of_def)
  have k: "length k = n" using snoc.prems(1) kv by simp
  have "collision_free nh (insert TEmpty (subtrees (tree_of (kvs @ [kv]))))"
    using snoc.prems(2) unfolding no_collisions_def by (metis atMost_iff order_refl take_all)
  then obtain T' where T': "trie_insert nh k v T = Some (Ret T')" "holds_tree nh n T' (tree_of (kvs @ [kv]))"
    using trie_insert_tree [OF T(2) k] by (auto simp: new kv)
  have "tget (tree_of (kvs @ [kv])) (key_to_nibbles key) = map_of (rev (kvs @ [kv])) key" if "length key = n" for key
    using tget_tins [of "2 * n" "tree_of kvs" "key_to_nibbles k" "key_to_nibbles key" v] T(2,3) k that
    by (simp add: new holds_tree_def key_to_nibbles_inject kv)
  with T T' show ?case by (simp add: insert_all_append kv)
qed

section \<open>Properties\<close>

text \<open>
  (C7) The trie implements a map. Inserting any list of entries whose keys have one length into the
  empty trie returns, and every key of that length then reads the last value inserted for it or
  nothing, provided no two nodes of the trees built on the way have the same hash.
\<close>

theorem trie_implements_map:
  assumes "\<forall>kv \<in> set kvs. length (fst kv) = n" and "no_collisions nh kvs"
  shows "\<exists>T. insert_all nh kvs MerkleTrie_new = Some (Ret T)
    \<and> (\<forall>key. length key = n \<longrightarrow> trie_get key T = Some (Ret (map_of (rev kvs) key)))"
  using insert_all_tree [OF assms] trie_get_tree by metis

definition demo_nh :: "TrieNode \<Rightarrow> Hash" where
  "demo_nh n = (case n of NEmpty \<Rightarrow> 9 | NLeaf ke v \<Rightarrow> if ke = [] then (if v = [9] then 1 else 2) else 3
     | NExtension p h \<Rightarrow> 4 | NBranch cs v \<Rightarrow> 5)"

definition demo_entries :: "(u8 list \<times> u8 list) list" where
  "demo_entries = [([1], [9]), ([2], [8])]"

lemma demo_trees:
  "tree_of [] = TEmpty" "tree_of [([1], [9])] = TLeaf [0, 1] [9]"
  "tree_of demo_entries = TExt [0] (fork 1 (TLeaf [] [9]) 2 (TLeaf [] [8]))"
  using tins_split(1) [of 1 2 "[0]" "[]" "[9]" "[]" "[8]"]
  by (simp_all add: tree_of_def demo_entries_def twrap_def del: tins.simps(2))

lemma demo_no_collisions: "no_collisions demo_nh demo_entries"
proof -
  have "collision_free demo_nh (insert TEmpty (subtrees (tree_of demo_entries)))"
  proof -
    let ?f = "fork 1 (TLeaf [] [9]) 2 (TLeaf [] [8])"
    have "subtrees (tree_of demo_entries) \<subseteq> {TExt [0] ?f, ?f, TEmpty, TLeaf [] [9], TLeaf [] [8]}"
      using subtrees_fork [of 1 "TLeaf [] [9]" 2 "TLeaf [] [8]"] by (auto simp: demo_trees)
    moreover have hashes: "hash_of demo_nh (TExt [0] ?f) = 4" "hash_of demo_nh ?f = 5" "hash_of demo_nh TEmpty = 0"
        "hash_of demo_nh (TLeaf [] [9]) = 1" "hash_of demo_nh (TLeaf [] [8]) = 2"
      by (simp_all add: demo_nh_def fork_def)
    from hashes have "collision_free demo_nh {TExt [0] ?f, ?f, TEmpty, TLeaf [] [9], TLeaf [] [8]}"
      unfolding collision_free_def by (simp del: hash_of_simps node_of_simps)
    ultimately show ?thesis by (auto intro: collision_free_subset)
  qed
  note full = this
  have leaf: "collision_free demo_nh {TEmpty, TLeaf [0, 1] [9]}"
    by (simp add: collision_free_def demo_nh_def)
  show ?thesis
    unfolding no_collisions_def
  proof
    fix m assume "m \<in> {..length demo_entries}"
    then consider "m = 0" | "m = 1" | "m = 2" by (force simp: demo_entries_def)
    then show "collision_free demo_nh (insert TEmpty (subtrees (tree_of (take m demo_entries))))"
    proof cases
      case 1
      then show ?thesis by (simp add: demo_trees(1) collision_free_def)
    next
      case 2
      then have "tree_of (take m demo_entries) = TLeaf [0, 1] [9]" using demo_trees(2) by (simp add: demo_entries_def)
      with leaf show ?thesis by simp
    next
      case 3
      then have "take m demo_entries = demo_entries" by (simp add: demo_entries_def)
      with full show ?thesis by simp
    qed
  qed
qed

lemma demo_trie:
  obtains T where "insert_all demo_nh demo_entries MerkleTrie_new = Some (Ret T)"
    "holds_tree demo_nh 1 T (tree_of demo_entries)"
    "tget (tree_of demo_entries) (key_to_nibbles [1]) = Some [9]"
proof -
  have "\<forall>kv \<in> set demo_entries. length (fst kv) = 1" by (simp add: demo_entries_def)
  from insert_all_tree [OF this demo_no_collisions] show ?thesis
    using that by (auto simp: demo_entries_def dest: spec [of _ "[1]"])
qed

theorem trie_implements_map_witness:
  "\<exists>T. insert_all demo_nh demo_entries MerkleTrie_new = Some (Ret T)
    \<and> trie_get [1] T = Some (Ret (Some [9])) \<and> trie_get [7] T = Some (Ret None)"
  using trie_implements_map [of demo_entries 1, OF _ demo_no_collisions] by (auto simp: demo_entries_def)

text \<open>
  Proofs are complete: for a non-empty trie of keys of one length, \<open>prove\<close> answers every key of
  that length with a proof that carries the value read under the key and passes \<open>verify_proof\<close>.
\<close>

theorem trie_proofs_verify:
  assumes "holds_tree nh n T t" and "t \<noteq> TEmpty" and "length key = n"
  shows "\<exists>p. prove key T = Some (Ret (Some p)) \<and> verify_proof nh p \<and> mp_root p = mt_root T
    \<and> trie_get key T = Some (Ret (mp_value p))"
proof -
  obtain rest where "prove_recursive (mt_nodes T) (mt_root T) (key_to_nibbles key) 0 []
      = Some (Ret (True, node_of nh t # rest))"
    using prove_recursive_path [of t nh "mt_nodes T" "key_to_nibbles key" 0 "[]"] assms
    by (auto simp: holds_tree_def)
  moreover have "nh (node_of nh t) = mt_root T" using assms(1,2) by (simp add: holds_tree_def hash_of_def)
  ultimately show ?thesis
    using trie_get_tree [OF assms(1,3)] by (simp add: prove_def verify_proof_def)
qed

theorem trie_proofs_verify_witness:
  "\<exists>T p. insert_all demo_nh demo_entries MerkleTrie_new = Some (Ret T)
    \<and> prove [2] T = Some (Ret (Some p)) \<and> verify_proof demo_nh p"
proof -
  obtain T where T: "insert_all demo_nh demo_entries MerkleTrie_new = Some (Ret T)"
      "holds_tree demo_nh 1 T (tree_of demo_entries)"
    by (rule demo_trie)
  then show ?thesis using trie_proofs_verify [OF T(2), of "[2]"] by (auto simp: demo_trees)
qed

text \<open>
  Verification does not check what a proof claims: key, value and every node behind the first
  one can be replaced without changing the verdict.
\<close>

theorem verify_proof_ignores_claim:
  "verify_proof nh \<lparr>mp_key = k, mp_value = v, mp_nodes = n # ns, mp_root = r\<rparr>
   = verify_proof nh \<lparr>mp_key = k', mp_value = v', mp_nodes = n # ns', mp_root = r\<rparr>"
  by (simp add: verify_proof_def)

text \<open>
  Insertion panics for a key that ends inside the shared prefix of an extension at the root.
\<close>

theorem insert_prefix_key_panics:
  assumes "hget (mt_nodes T) (mt_root T) = Some (NExtension p child)"
    and "p = key_to_nibbles key @ x # xs"
  shows "trie_insert nh key v T = Some Panic"
proof -
  let ?ks = "key_to_nibbles key"
  have c: "common_len p ?ks = length ?ks" using assms(2) common_len_simps(1) [of ?ks "x # xs" "[]"]
    by (simp add: common_len_def)
  have "split_extension nh (mt_nodes T) p child ?ks v = Panic"
    by (auto simp: split_extension_def c slice_from_def put_child_def Let_def)
  with assms c show ?thesis
    by (simp add: trie_insert_def insert_recursive.simps [of nh _ "mt_root T"] slice_from_def)
qed

theorem insert_prefix_key_panics_witness:
  "trie_insert demo_nh [0x12] [1]
     \<lparr>mt_root = 4, mt_nodes = [(4, NExtension [1, 2, 3] 5), (5, NBranch (replicate 16 None) None)]\<rparr> = Some Panic"
proof -
  have "[1, 2, 3] = key_to_nibbles [0x12] @ [3]" by code_simp
  then show ?thesis
    by (intro insert_prefix_key_panics [where p = "[1, 2, 3]" and child = 5 and x = 3 and xs = "[]"]) simp
qed

text \<open>
  Deletion does nothing in a trie whose root is an extension: it reports success and every key
  stays readable.
\<close>

theorem delete_below_extension_ignored:
  assumes "hget (mt_nodes T) (mt_root T) = Some (NExtension p child)"
  shows "trie_delete nh key T = Some (Ret (T, Inr ()))"
  using assms by (simp add: trie_delete_def delete_recursive.simps [of nh _ "mt_root T"])

theorem delete_below_extension_ignored_witness:
  "\<exists>T. insert_all demo_nh demo_entries MerkleTrie_new = Some (Ret T)
    \<and> trie_delete demo_nh [1] T = Some (Ret (T, Inr ())) \<and> trie_get [1] T = Some (Ret (Some [9]))"
proof -
  obtain T where T: "insert_all demo_nh demo_entries MerkleTrie_new = Some (Ret T)"
      "holds_tree demo_nh 1 T (tree_of demo_entries)"
      "tget (tree_of demo_entries) (key_to_nibbles [1]) = Some [9]"
    by (rule demo_trie)
  have "hget (mt_nodes T) (mt_root T) = Some (NExtension [0] (hash_of demo_nh (fork 1 (TLeaf [] [9]) 2 (TLeaf [] [8]))))"
    using T(2) by (simp add: holds_tree_def held_def demo_trees)
  from delete_below_extension_ignored [OF this] T(1) trie_get_tree [OF T(2), of "[1]"] T(3) show ?thesis by auto
qed

end
