(* ===== verification/State_Store.thy ===== *)
theory State_Store
  imports Account_Store Trie
begin

text \<open>
  The state database of \<^verbatim>\<open>src/crates/nexus-state/src/storage.rs\<close>: accounts, code and storage in hash
  maps, and the trie that \<open>commit\<close> feeds with the accounts. The JSON encoding of an account is a
  parameter, as the encoding of trie nodes is.
\<close>

section \<open>The code\<close>

record AccountState =
  as_nonce :: u64
  as_balance :: U256
  as_code_hash :: Hash
  as_storage_root :: Hash

definition AccountState_default :: AccountState where
  "AccountState_default = \<lparr>as_nonce = 0, as_balance = ZERO, as_code_hash = 0, as_storage_root = 0\<rparr>"

record StateStore =
  ss_accounts :: "(Address, AccountState) hmap"
  ss_code :: "(Hash, u8 list) hmap"
  ss_storage :: "(Address \<times> U256, U256) hmap"
  ss_trie :: MerkleTrie

definition StateStore_new :: StateStore where
  "StateStore_new = \<lparr>ss_accounts = [], ss_code = [], ss_storage = [], ss_trie = MerkleTrie_new\<rparr>"

definition ss_state_root :: "StateStore \<Rightarrow> Hash" where
  "ss_state_root s = mt_root (ss_trie s)"

definition ss_get_account :: "StateStore \<Rightarrow> Address \<Rightarrow> AccountState" where
  "ss_get_account s a = (case hget (ss_accounts s) a of None \<Rightarrow> AccountState_default | Some acc \<Rightarrow> acc)"

definition ss_set_account :: "Address \<Rightarrow> AccountState \<Rightarrow> StateStore \<Rightarrow> StateStore" where
  "ss_set_account a acc s = s\<lparr>ss_accounts := hput a acc (ss_accounts s)\<rparr>"

definition ss_get_balance :: "StateStore \<Rightarrow> Address \<Rightarrow> U256" where
  "ss_get_balance s a = as_balance (ss_get_account s a)"

definition ss_set_balance :: "Address \<Rightarrow> U256 \<Rightarrow> StateStore \<Rightarrow> StateStore" where
  "ss_set_balance a b s = ss_set_account a ((ss_get_account s a)\<lparr>as_balance := b\<rparr>) s"

definition ss_add_balance :: "Address \<Rightarrow> U256 \<Rightarrow> StateStore \<Rightarrow> StateStore run" where
  "ss_add_balance a amount s =
     (let acc = ss_get_account s a
      in run_map (\<lambda>b. ss_set_account a (acc\<lparr>as_balance := b\<rparr>) s) (u256_add (as_balance acc) amount))"

definition ss_sub_balance :: "Address \<Rightarrow> U256 \<Rightarrow> StateStore \<Rightarrow> (StateStore \<times> unit StateResult) run" where
  "ss_sub_balance a amount s =
     (let acc = ss_get_account s a
      in if as_balance acc < amount then Ret (s, Inl (StorageError ''Insufficient balance''))
         else run_map (\<lambda>b. (ss_set_account a (acc\<lparr>as_balance := b\<rparr>) s, Inr ()))
                (u256_sub (as_balance acc) amount))"

definition ss_get_nonce :: "StateStore \<Rightarrow> Address \<Rightarrow> u64" where
  "ss_get_nonce s a = as_nonce (ss_get_account s a)"

definition ss_set_nonce :: "Address \<Rightarrow> u64 \<Rightarrow> StateStore \<Rightarrow> StateStore" where
  "ss_set_nonce a n s = ss_set_account a ((ss_get_account s a)\<lparr>as_nonce := n\<rparr>) s"

definition ss_increment_nonce :: "Address \<Rightarrow> StateStore \<Rightarrow> StateStore" where
  "ss_increment_nonce a s =
     ss_set_account a ((ss_get_account s a)\<lparr>as_nonce := as_nonce (ss_get_account s a) + 1\<rparr>) s"

definition ss_get_code_hash :: "StateStore \<Rightarrow> Address \<Rightarrow> Hash" where
  "ss_get_code_hash s a = as_code_hash (ss_get_account s a)"

definition ss_get_code :: "StateStore \<Rightarrow> Address \<Rightarrow> u8 list" where
  "ss_get_code s a = (case hget (ss_code s) (as_code_hash (ss_get_account s a)) of None \<Rightarrow> [] | Some c \<Rightarrow> c)"

definition code_hash_of :: "crypto_lib \<Rightarrow> u8 list \<Rightarrow> Hash" where
  "code_hash_of lib code = Hash_new (keccak256 lib code)"

definition ss_set_code :: "crypto_lib \<Rightarrow> Address \<Rightarrow> u8 list \<Rightarrow> StateStore \<Rightarrow> StateStore" where
  "ss_set_code lib a code s =
     (let h = code_hash_of lib code; s = s\<lparr>ss_code := hput h code (ss_code s)\<rparr>
      in ss_set_account a ((ss_get_account s a)\<lparr>as_code_hash := h\<rparr>) s)"

definition ss_get_storage :: "StateStore \<Rightarrow> Address \<Rightarrow> U256 \<Rightarrow> U256" where
  "ss_get_storage s a k = (case hget (ss_storage s) (a, k) of None \<Rightarrow> ZERO | Some v \<Rightarrow> v)"

definition ss_set_storage :: "Address \<Rightarrow> U256 \<Rightarrow> U256 \<Rightarrow> StateStore \<Rightarrow> StateStore" where
  "ss_set_storage a k v s =
     (if v = ZERO then s\<lparr>ss_storage := hdel (a, k) (ss_storage s)\<rparr>
      else s\<lparr>ss_storage := hput (a, k) v (ss_storage s)\<rparr>)"

definition ss_account_exists :: "StateStore \<Rightarrow> Address \<Rightarrow> bool" where
  "ss_account_exists s a \<longleftrightarrow> hcontains (ss_accounts s) a"

definition ss_is_empty :: "StateStore \<Rightarrow> Address \<Rightarrow> bool" where
  "ss_is_empty s a \<longleftrightarrow>
     (let acc = ss_get_account s a in as_nonce acc = 0 \<and> as_balance acc = ZERO \<and> as_code_hash acc = 0)"

definition ss_delete_account :: "Address \<Rightarrow> StateStore \<Rightarrow> StateStore" where
  "ss_delete_account a s =
     s\<lparr>ss_accounts := hdel a (ss_accounts s),
       ss_storage := filter (\<lambda>((b, k), v). b \<noteq> a) (ss_storage s)\<rparr>"

definition trie_entries :: "(AccountState \<Rightarrow> u8 list) \<Rightarrow> StateStore \<Rightarrow> (u8 list \<times> u8 list) list" where
  "trie_entries to_vec s = map (\<lambda>(a, acc). (addr_bytes a, to_vec acc)) (ss_accounts s)"

definition ss_commit ::
    "(TrieNode \<Rightarrow> Hash) \<Rightarrow> (AccountState \<Rightarrow> u8 list) \<Rightarrow> StateStore \<Rightarrow> (StateStore \<times> Hash) run option" where
  "ss_commit nh to_vec s =
     rbind (insert_all nh (trie_entries to_vec s) (ss_trie s))
       (\<lambda>trie. Some (Ret (s\<lparr>ss_trie := trie\<rparr>, mt_root trie)))"

definition ss_account_count :: "StateStore \<Rightarrow> nat" where
  "ss_account_count s = length (ss_accounts s)"

section \<open>Observable state\<close>

lemma ss_account_simps [simp]:
  "ss_get_account (ss_set_account a x s) b = (if b = a then x else ss_get_account s b)"
  "ss_get_account (ss_set_storage a k w s) = ss_get_account s"
  "ss_get_account (ss_delete_account a s) b = (if b = a then AccountState_default else ss_get_account s b)"
  "ss_get_account (s\<lparr>ss_code := c\<rparr>) = ss_get_account s"
  by (auto simp: ss_get_account_def ss_set_account_def ss_set_storage_def ss_delete_account_def fun_eq_iff)

lemma ss_storage_simps [simp]:
  "ss_get_storage (ss_set_account a x s) = ss_get_storage s"
  "ss_get_storage (ss_set_storage a k w s) b j = (if b = a \<and> j = k then w else ss_get_storage s b j)"
  "ss_get_storage (ss_delete_account a s) b j = (if b = a then ZERO else ss_get_storage s b j)"
  "ss_get_storage (s\<lparr>ss_code := c\<rparr>) = ss_get_storage s"
proof -
  have "hget (filter (\<lambda>((b, k), v). b \<noteq> a) m) (b, j) = (if b \<noteq> a then hget m (b, j) else None)"
    for m :: "(Address \<times> U256, U256) hmap" and b j
    by (induction m) auto
  then show "ss_get_storage (ss_delete_account a s) b j = (if b = a then ZERO else ss_get_storage s b j)"
    by (simp add: ss_get_storage_def ss_delete_account_def)
qed (auto simp: ss_get_storage_def ss_set_account_def ss_set_storage_def fun_eq_iff)

interpretation ss_store: account_store ss_get_account ss_get_storage ss_set_account ss_set_storage
  ss_delete_account AccountState_default
  by unfold_locales (simp_all add: fun_eq_iff)

definition ss_view :: "StateStore \<Rightarrow> AccountState store_view" where
  "ss_view s = (ss_get_account s, ss_get_storage s)"

lemma ss_view_set_code:
  "ss_view (ss_set_code lib a code s) = view_acc a (\<lambda>x. x\<lparr>as_code_hash := code_hash_of lib code\<rparr>) (ss_view s)"
  by (auto simp: ss_view_def ss_set_code_def Let_def view_acc_def fun_eq_iff)

lemma ss_view_simps:
  "ss_view (ss_set_balance a b s) = view_acc a (\<lambda>x. x\<lparr>as_balance := b\<rparr>) (ss_view s)"
  "ss_view (ss_set_nonce a n s) = view_acc a (\<lambda>x. x\<lparr>as_nonce := n\<rparr>) (ss_view s)"
  "ss_view (ss_set_storage a k v s) = view_slot a k v (ss_view s)"
  "ss_view (ss_delete_account a s) = view_drop AccountState_default a (ss_view s)"
  unfolding ss_view_def ss_set_balance_def ss_set_nonce_def
  by (rule ss_store.view_simps)+

section \<open>Commit\<close>

lemma trie_entries_lengths: "\<forall>kv \<in> set (trie_entries to_vec s). length (fst kv) = 20"
  by (auto simp: trie_entries_def)

lemma map_of_entries:
  assumes "wf_hmap m"
  shows "map_of (rev (map (\<lambda>(a, acc). (addr_bytes a, to_vec acc)) m)) (addr_bytes a) = map_option to_vec (hget m a)"
proof -
  have "distinct (map fst (map (\<lambda>(a, acc). (addr_bytes a, to_vec acc)) m))"
    using assms by (auto simp: wf_hmap_def distinct_map inj_on_def addr_bytes_inject o_def case_prod_beta)
  then have "map_of (rev (map (\<lambda>(a, acc). (addr_bytes a, to_vec acc)) m))
      = map_of (map (\<lambda>(a, acc). (addr_bytes a, to_vec acc)) m)"
    by (subst map_of_inject_set) (simp_all flip: rev_map)
  moreover have "map_of (map (\<lambda>(a, acc). (addr_bytes a, to_vec acc)) m) (addr_bytes a) = map_option to_vec (hget m a)"
    by (induction m) (auto simp: addr_bytes_inject)
  ultimately show ?thesis by simp
qed

section \<open>Properties\<close>

text \<open>
  The first commit records every account: it returns, and the trie then answers the address of
  each account with the account's encoding and every other address with nothing, provided no two
  trie nodes collide.
\<close>

theorem commit_records_accounts:
  assumes "wf_hmap (ss_accounts s)" and "ss_trie s = MerkleTrie_new"
    and "no_collisions nh (trie_entries to_vec s)"
  shows "\<exists>s'. ss_commit nh to_vec s = Some (Ret (s', ss_state_root s')) \<and> ss_accounts s' = ss_accounts s
    \<and> (\<forall>a. trie_get (addr_bytes a) (ss_trie s') = Some (Ret (map_option to_vec (hget (ss_accounts s) a))))"
proof -
  obtain T where T: "insert_all nh (trie_entries to_vec s) MerkleTrie_new = Some (Ret T)"
      "holds_tree nh 20 T (tree_of (trie_entries to_vec s))"
      "\<forall>key. length key = 20 \<longrightarrow> tget (tree_of (trie_entries to_vec s)) (key_to_nibbles key)
        = map_of (rev (trie_entries to_vec s)) key"
    using insert_all_tree [OF trie_entries_lengths assms(3)] by blast
  have "trie_get (addr_bytes a) T = Some (Ret (map_option to_vec (hget (ss_accounts s) a)))" for a
    using trie_get_tree [OF T(2), of "addr_bytes a"] T(3) map_of_entries [OF assms(1), of to_vec a]
    by (simp add: trie_entries_def)
  with T(1) assms(2) show ?thesis by (simp add: ss_commit_def ss_state_root_def)
qed

definition demo_store :: StateStore where
  "demo_store = ss_set_balance 7 ONE StateStore_new"

definition demo_to_vec :: "AccountState \<Rightarrow> u8 list" where
  "demo_to_vec acc = [9]"

lemma demo_store_facts:
  "ss_accounts demo_store = [(7, AccountState_default\<lparr>as_balance := ONE\<rparr>)]" "ss_trie demo_store = MerkleTrie_new"
  "trie_entries demo_to_vec demo_store = [(addr_bytes 7, [9])]"
  by (simp_all add: demo_store_def ss_set_balance_def ss_set_account_def ss_get_account_def StateStore_new_def
      hput_def trie_entries_def demo_to_vec_def)

lemma single_no_collisions: "no_collisions demo_nh [(k, [9])]"
proof -
  have "collision_free demo_nh (insert TEmpty (subtrees (tree_of (take m [(k, [9])]))))" for m
    by (cases m) (simp_all add: tree_of_def collision_free_def demo_nh_def)
  then show ?thesis by (simp add: no_collisions_def)
qed

theorem commit_records_accounts_witness:
  "\<exists>s'. ss_commit demo_nh demo_to_vec demo_store = Some (Ret (s', ss_state_root s'))
    \<and> trie_get (addr_bytes 7) (ss_trie s') = Some (Ret (Some [9]))
    \<and> trie_get (addr_bytes 8) (ss_trie s') = Some (Ret None)"
proof -
  have "wf_hmap (ss_accounts demo_store)" by (simp add: demo_store_facts wf_hmap_def)
  from commit_records_accounts [OF this demo_store_facts(2), of demo_nh demo_to_vec] obtain s'
    where "ss_commit demo_nh demo_to_vec demo_store = Some (Ret (s', ss_state_root s'))"
      "\<forall>a. trie_get (addr_bytes a) (ss_trie s') = Some (Ret (map_option demo_to_vec (hget (ss_accounts demo_store) a)))"
    by (auto simp: demo_store_facts(3) single_no_collisions)
  then show ?thesis by (auto simp: demo_store_facts(1) demo_to_vec_def)
qed

text \<open>
  A deleted account stays in the trie: when an account is committed, deleted and the state is
  committed again, the trie still answers its address with the old encoding, so the state root keeps
  certifying an account that no longer exists.
\<close>

theorem commit_keeps_deleted:
  assumes "wf_hmap (ss_accounts s)" and "ss_trie s = MerkleTrie_new" and "hget (ss_accounts s) a = Some acc"
    and "ss_commit nh to_vec s = Some (Ret (s1, r1))"
    and "no_collisions nh (trie_entries to_vec s @ trie_entries to_vec (ss_delete_account a s1))"
  shows "\<exists>s2 r2. ss_commit nh to_vec (ss_delete_account a s1) = Some (Ret (s2, r2))
    \<and> \<not> ss_account_exists s2 a \<and> trie_get (addr_bytes a) (ss_trie s2) = Some (Ret (Some (to_vec acc)))"
proof -
  let ?d = "ss_delete_account a s1" and ?k1 = "trie_entries to_vec s"
  let ?k2 = "trie_entries to_vec (ss_delete_account a s1)"
  have k1: "insert_all nh ?k1 MerkleTrie_new = Some (Ret (ss_trie s1))" and acc: "ss_accounts s1 = ss_accounts s"
    using assms(2,4) by (auto simp: ss_commit_def rbind_def split: option.splits run.splits Option.bind_splits)
  obtain T where T: "insert_all nh (?k1 @ ?k2) MerkleTrie_new = Some (Ret T)" "holds_tree nh 20 T (tree_of (?k1 @ ?k2))"
      "\<forall>key. length key = 20 \<longrightarrow> tget (tree_of (?k1 @ ?k2)) (key_to_nibbles key) = map_of (rev (?k1 @ ?k2)) key"
    using insert_all_tree [OF _ assms(5)] trie_entries_lengths by (metis UnE set_append)
  have "wf_hmap (ss_accounts ?d)" using assms(1) acc by (simp add: ss_delete_account_def)
  from map_of_entries [OF this, of to_vec a] map_of_entries [OF assms(1), of to_vec a]
  have "map_of (rev (?k1 @ ?k2)) (addr_bytes a) = Some (to_vec acc)"
    using assms(3) by (auto simp: trie_entries_def ss_delete_account_def map_add_def split: option.splits)
  then have "trie_get (addr_bytes a) T = Some (Ret (Some (to_vec acc)))"
    using trie_get_tree [OF T(2), of "addr_bytes a"] T(3) by simp
  moreover have "insert_all nh ?k2 (ss_trie ?d) = Some (Ret T)"
    using T(1) k1 by (simp add: insert_all_append ss_delete_account_def)
  ultimately show ?thesis
    by (simp add: ss_commit_def ss_account_exists_def ss_delete_account_def)
qed

theorem commit_keeps_deleted_witness:
  "\<exists>s1 r1 s2 r2. ss_commit demo_nh demo_to_vec demo_store = Some (Ret (s1, r1))
    \<and> ss_commit demo_nh demo_to_vec (ss_delete_account 7 s1) = Some (Ret (s2, r2))
    \<and> \<not> ss_account_exists s2 7 \<and> trie_get (addr_bytes 7) (ss_trie s2) = Some (Ret (Some [9]))"
proof -
  have wf: "wf_hmap (ss_accounts demo_store)" by (simp add: demo_store_facts wf_hmap_def)
  have "\<exists>s1 r1. ss_commit demo_nh demo_to_vec demo_store = Some (Ret (s1, r1)) \<and> ss_accounts s1 = ss_accounts demo_store"
    using insert_all_tree [OF trie_entries_lengths, of demo_nh demo_to_vec demo_store]
    by (auto simp: demo_store_facts single_no_collisions ss_commit_def)
  then obtain s1 r1 where s1: "ss_commit demo_nh demo_to_vec demo_store = Some (Ret (s1, r1))"
      "ss_accounts s1 = ss_accounts demo_store" by blast
  then have "trie_entries demo_to_vec (ss_delete_account 7 s1) = []"
    by (simp add: trie_entries_def ss_delete_account_def demo_store_facts hdel_def)
  then have "no_collisions demo_nh (trie_entries demo_to_vec demo_store @ trie_entries demo_to_vec (ss_delete_account 7 s1))"
    by (simp add: demo_store_facts single_no_collisions)
  from commit_keeps_deleted [OF wf demo_store_facts(2) _ s1(1) this] s1(1) show ?thesis
    by (auto simp: demo_store_facts demo_to_vec_def)
qed

text \<open>
  The state root does not cover storage or code: writing a storage slot never changes the root
  that the next commit computes.
\<close>

theorem commit_ignores_storage:
  "map_option (run_map snd) (ss_commit nh to_vec (ss_set_storage a k v s))
   = map_option (run_map snd) (ss_commit nh to_vec s)"
proof -
  have "map_option (run_map snd) (ss_commit nh to_vec s')
      = map_option (run_map mt_root) (insert_all nh (trie_entries to_vec s') (ss_trie s'))" for s'
    by (auto simp: ss_commit_def rbind_def split: option.split run.split Option.bind_split)
  then show ?thesis by (simp add: trie_entries_def ss_set_storage_def)
qed

end
