(* ===== verification/Checkpoint.thy ===== *)
theory Checkpoint
  imports State_Store
begin

text \<open>
  Checkpoints of the DAG state, \<^verbatim>\<open>src/crates/nexus-state/src/checkpoint.rs\<close>: recorded state changes
  that are applied and reverted, the table of checkpoints with its vertex index, finalization with
  pruning, and the chain back to the finalized checkpoint. Each method takes and releases its locks
  without nesting, so the manager is a record passed from call to call.
\<close>

section \<open>The code\<close>

type_synonym CheckpointId = u64

datatype StateChange =
    ChBalance Address U256 U256
  | ChNonce Address u64 u64
  | ChCode Address "u8 list" "u8 list"
  | ChStorage Address U256 U256 U256
  | ChCreated Address
  | ChDeleted Address U256 u64

record Checkpoint =
  cp_id :: CheckpointId
  cp_vertex_hash :: Hash
  cp_state_root :: Hash
  cp_changes :: "StateChange list"
  cp_parents :: "CheckpointId list"

record CheckpointManager =
  cm_checkpoints :: "(CheckpointId, Checkpoint) hmap"
  cm_vertex_to_checkpoint :: "(Hash, CheckpointId) hmap"
  cm_next_id :: CheckpointId
  cm_finalized :: CheckpointId

definition CheckpointManager_new :: CheckpointManager where
  "CheckpointManager_new =
     \<lparr>cm_checkpoints = [], cm_vertex_to_checkpoint = [], cm_next_id = 1, cm_finalized = 0\<rparr>"

definition create_checkpoint ::
    "Hash \<Rightarrow> Hash \<Rightarrow> StateChange list \<Rightarrow> Hash list \<Rightarrow> CheckpointManager \<Rightarrow> CheckpointManager \<times> CheckpointId" where
  "create_checkpoint vh root changes parent_vertices m =
     (let cid = cm_next_id m;
          parents = List.map_filter (hget (cm_vertex_to_checkpoint m)) parent_vertices;
          cp = \<lparr>cp_id = cid, cp_vertex_hash = vh, cp_state_root = root, cp_changes = changes, cp_parents = parents\<rparr>
      in (m\<lparr>cm_next_id := cid + 1, cm_checkpoints := hput cid cp (cm_checkpoints m),
            cm_vertex_to_checkpoint := hput vh cid (cm_vertex_to_checkpoint m)\<rparr>, cid))"

definition get_checkpoint :: "CheckpointManager \<Rightarrow> CheckpointId \<Rightarrow> Checkpoint option" where
  "get_checkpoint m cid = hget (cm_checkpoints m) cid"

definition get_checkpoint_for_vertex :: "CheckpointManager \<Rightarrow> Hash \<Rightarrow> Checkpoint option" where
  "get_checkpoint_for_vertex m vh =
     Option.bind (hget (cm_vertex_to_checkpoint m) vh) (get_checkpoint m)"

definition get_state_root :: "CheckpointManager \<Rightarrow> CheckpointId \<Rightarrow> Hash option" where
  "get_state_root m cid = map_option cp_state_root (hget (cm_checkpoints m) cid)"

definition prune_before :: "CheckpointId \<Rightarrow> CheckpointManager \<Rightarrow> CheckpointManager" where
  "prune_before before_id m =
     (let to_remove = map (\<lambda>(cid, cp). (cid, cp_vertex_hash cp))
            (filter (\<lambda>(cid, cp). cid < before_id) (cm_checkpoints m))
      in fold (\<lambda>(cid, h) m. m\<lparr>cm_checkpoints := hdel cid (cm_checkpoints m),
                 cm_vertex_to_checkpoint := hdel h (cm_vertex_to_checkpoint m)\<rparr>) to_remove m)"

definition finalize :: "CheckpointId \<Rightarrow> CheckpointManager \<Rightarrow> CheckpointManager \<times> unit StateResult" where
  "finalize cid m =
     (if \<not> hcontains (cm_checkpoints m) cid then (m, Inl (CheckpointError ''Checkpoint not found''))
      else (prune_before cid (m\<lparr>cm_finalized := cid\<rparr>), Inr ()))"

fun apply_state_change :: "crypto_lib \<Rightarrow> StateChange \<Rightarrow> StateStore \<Rightarrow> StateStore" where
  "apply_state_change lib (ChBalance a old new) s = ss_set_balance a new s"
| "apply_state_change lib (ChNonce a old new) s = ss_set_nonce a new s"
| "apply_state_change lib (ChCode a old new) s = ss_set_code lib a new s"
| "apply_state_change lib (ChStorage a k old new) s = ss_set_storage a k new s"
| "apply_state_change lib (ChCreated a) s = s"
| "apply_state_change lib (ChDeleted a b n) s = ss_delete_account a s"

fun revert_change :: "crypto_lib \<Rightarrow> StateChange \<Rightarrow> StateStore \<Rightarrow> StateStore" where
  "revert_change lib (ChBalance a old new) s = ss_set_balance a old s"
| "revert_change lib (ChNonce a old new) s = ss_set_nonce a old s"
| "revert_change lib (ChCode a old new) s = ss_set_code lib a old s"
| "revert_change lib (ChStorage a k old new) s = ss_set_storage a k old s"
| "revert_change lib (ChCreated a) s = ss_delete_account a s"
| "revert_change lib (ChDeleted a b n) s = ss_set_nonce a n (ss_set_balance a b s)"

definition checkpoint_not_found :: "'a StateResult" where
  "checkpoint_not_found = Inl (CheckpointError ''Checkpoint not found'')"

definition apply_checkpoint ::
    "crypto_lib \<Rightarrow> CheckpointManager \<Rightarrow> CheckpointId \<Rightarrow> StateStore \<Rightarrow> StateStore \<times> unit StateResult" where
  "apply_checkpoint lib m cid s =
     (case get_checkpoint m cid of None \<Rightarrow> (s, checkpoint_not_found)
      | Some cp \<Rightarrow> (fold (apply_state_change lib) (cp_changes cp) s, Inr ()))"

definition cm_revert_checkpoint ::
    "crypto_lib \<Rightarrow> CheckpointManager \<Rightarrow> CheckpointId \<Rightarrow> StateStore \<Rightarrow> StateStore \<times> unit StateResult" where
  "cm_revert_checkpoint lib m cid s =
     (case get_checkpoint m cid of None \<Rightarrow> (s, checkpoint_not_found)
      | Some cp \<Rightarrow> (fold (revert_change lib) (rev (cp_changes cp)) s, Inr ()))"

text \<open>The walk to the finalized checkpoint need not end on an arbitrary table.\<close>

partial_function (option) chain_loop :: "CheckpointManager \<Rightarrow> CheckpointId \<Rightarrow> CheckpointId list \<Rightarrow> CheckpointId list option" where
  "chain_loop m current chain =
     (if current > cm_finalized m
      then (case get_checkpoint m current of
              Some cp \<Rightarrow>
                chain_loop m (case cp_parents cp of [] \<Rightarrow> 0 | p # ps \<Rightarrow> p) (chain @ [current])
            | None \<Rightarrow> Some (chain @ [current]))
      else Some chain)"

definition get_chain_to_finalized :: "CheckpointManager \<Rightarrow> CheckpointId \<Rightarrow> CheckpointId list option" where
  "get_chain_to_finalized m from = map_option rev (chain_loop m from [])"

section \<open>Applying and reverting\<close>

fun revert_view :: "crypto_lib \<Rightarrow> StateChange \<Rightarrow> AccountState store_view \<Rightarrow> AccountState store_view" where
  "revert_view lib (ChBalance a old new) = view_acc a (\<lambda>x. x\<lparr>as_balance := old\<rparr>)"
| "revert_view lib (ChNonce a old new) = view_acc a (\<lambda>x. x\<lparr>as_nonce := old\<rparr>)"
| "revert_view lib (ChCode a old new) = view_acc a (\<lambda>x. x\<lparr>as_code_hash := code_hash_of lib old\<rparr>)"
| "revert_view lib (ChStorage a k old new) = view_slot a k old"
| "revert_view lib (ChCreated a) = view_drop AccountState_default a"
| "revert_view lib (ChDeleted a b n) =
     view_acc a (\<lambda>x. x\<lparr>as_nonce := n\<rparr>) \<circ> view_acc a (\<lambda>x. x\<lparr>as_balance := b\<rparr>)"

interpretation checkpoint_log: redo_log ss_view "revert_change lib" "revert_view lib" "apply_state_change lib" for lib
proof
  fix e s
  show "ss_view (revert_change lib e s) = revert_view lib e (ss_view s)"
    by (cases e) (simp_all add: ss_view_simps ss_view_set_code)
qed

text \<open>
  A change that tells the truth about the state it is applied to. Only what the change records can
  come back: the old code must hash to the old code hash, and a created or deleted account must have
  nothing but the recorded balance and nonce.
\<close>

definition bare_account :: "Address \<Rightarrow> AccountState \<Rightarrow> StateStore \<Rightarrow> bool" where
  "bare_account a acc s \<longleftrightarrow> ss_get_account s a = acc \<and> (\<forall>((b, k), v) \<in> set (ss_storage s). b \<noteq> a)"

fun truthful :: "crypto_lib \<Rightarrow> StateChange \<Rightarrow> StateStore \<Rightarrow> bool" where
  "truthful lib (ChBalance a old new) s \<longleftrightarrow> ss_get_balance s a = old"
| "truthful lib (ChNonce a old new) s \<longleftrightarrow> ss_get_nonce s a = old"
| "truthful lib (ChCode a old new) s \<longleftrightarrow> ss_get_code_hash s a = code_hash_of lib old"
| "truthful lib (ChStorage a k old new) s \<longleftrightarrow> ss_get_storage s a k = old"
| "truthful lib (ChCreated a) s \<longleftrightarrow> bare_account a AccountState_default s"
| "truthful lib (ChDeleted a b n) s \<longleftrightarrow> bare_account a (AccountState_default\<lparr>as_balance := b, as_nonce := n\<rparr>) s"

primrec all_truthful :: "crypto_lib \<Rightarrow> StateChange list \<Rightarrow> StateStore \<Rightarrow> bool" where
  "all_truthful lib [] s \<longleftrightarrow> True"
| "all_truthful lib (c # cs) s \<longleftrightarrow> truthful lib c s \<and> all_truthful lib cs (apply_state_change lib c s)"

lemma bare_account_slots: "bare_account a acc s \<Longrightarrow> ss_get_storage s a k = ZERO"
  by (auto simp: bare_account_def ss_get_storage_def split: option.splits dest!: map_of_SomeD)

lemma truthful_restores:
  assumes "truthful lib c s"
  shows "revert_view lib c (ss_view (apply_state_change lib c s)) = ss_view s"
proof (cases c)
  case (ChCode a old new)
  with assms show ?thesis
    by (simp add: ss_view_set_code) (rule view_acc_restore, simp add: ss_view_def ss_get_code_hash_def)
next
  case (ChStorage a k old new)
  then have "snd (ss_view s) a k = old" using assms by (simp add: ss_view_def)
  with ChStorage show ?thesis using view_slot_restore [of a k "ss_view s" new] by (simp add: ss_view_simps)
next
  case (ChCreated a)
  with assms bare_account_slots [of a] show ?thesis
    by (auto simp: ss_view_def view_drop_def bare_account_def fun_eq_iff)
next
  case (ChDeleted a b n)
  with assms bare_account_slots [of a] show ?thesis
    by (auto simp: ss_view_def view_drop_def view_acc_def bare_account_def fun_eq_iff ss_view_simps)
qed (use assms in \<open>auto simp: ss_set_balance_def ss_set_nonce_def ss_view_def ss_get_balance_def ss_get_nonce_def view_acc_def fun_eq_iff\<close>)

lemma all_truthful_recorded:
  "all_truthful lib cs s \<Longrightarrow> recorded ss_view (apply_state_change lib) (revert_view lib) cs s"
  by (induction cs arbitrary: s) (simp_all add: truthful_restores)

section \<open>The checkpoint table\<close>

definition drop_entry :: "CheckpointId \<times> Hash \<Rightarrow> CheckpointManager \<Rightarrow> CheckpointManager" where
  "drop_entry e m = m\<lparr>cm_checkpoints := hdel (fst e) (cm_checkpoints m),
     cm_vertex_to_checkpoint := hdel (snd e) (cm_vertex_to_checkpoint m)\<rparr>"

lemma fold_drop_entry:
  "hget (cm_checkpoints (fold drop_entry es m)) i = (if i \<in> fst ` set es then None else hget (cm_checkpoints m) i)"
  "hget (cm_vertex_to_checkpoint (fold drop_entry es m)) h
     = (if h \<in> snd ` set es then None else hget (cm_vertex_to_checkpoint m) h)"
  "cm_next_id (fold drop_entry es m) = cm_next_id m" "cm_finalized (fold drop_entry es m) = cm_finalized m"
  by (induction es arbitrary: m) (auto simp: drop_entry_def)

lemma prune_before_fold:
  "prune_before b m = fold drop_entry
     (map (\<lambda>(i, cp). (i, cp_vertex_hash cp)) (filter (\<lambda>(i, cp). i < b) (cm_checkpoints m))) m"
proof -
  have "(\<lambda>(cid, h) m. m\<lparr>cm_checkpoints := hdel cid (cm_checkpoints m),
      cm_vertex_to_checkpoint := hdel h (cm_vertex_to_checkpoint m)\<rparr>) = drop_entry"
    by (auto simp: drop_entry_def fun_eq_iff)
  then show ?thesis by (simp only: prune_before_def Let_def)
qed

lemma prune_before_simps [simp]:
  "hget (cm_checkpoints (prune_before b m)) i = (if i < b then None else hget (cm_checkpoints m) i)"
  "cm_next_id (prune_before b m) = cm_next_id m" "cm_finalized (prune_before b m) = cm_finalized m"
proof -
  show "hget (cm_checkpoints (prune_before b m)) i = (if i < b then None else hget (cm_checkpoints m) i)"
  proof (cases "i < b \<and> hget (cm_checkpoints m) i \<noteq> None")
    case True
    then obtain cp where "(i, cp) \<in> set (cm_checkpoints m)" by (auto dest: map_of_SomeD)
    with True show ?thesis by (force simp: prune_before_fold fold_drop_entry(1))
  next
    case False
    then show ?thesis by (auto simp: prune_before_fold fold_drop_entry(1))
  qed
qed (simp_all add: prune_before_fold fold_drop_entry)

lemma prune_before_vertices:
  "hget (cm_vertex_to_checkpoint (prune_before b m)) h = Some i \<Longrightarrow> hget (cm_vertex_to_checkpoint m) h = Some i"
  by (auto simp: prune_before_fold fold_drop_entry(2) split: if_splits)

definition cm_ok :: "nat \<Rightarrow> CheckpointManager \<Rightarrow> bool" where
  "cm_ok n m \<longleftrightarrow> unat (cm_next_id m) = Suc n \<and> cm_finalized m < cm_next_id m
     \<and> (\<forall>i cp. get_checkpoint m i = Some cp \<longrightarrow>
          cm_finalized m \<le> i \<and> i < cm_next_id m \<and> (\<forall>p \<in> set (cp_parents cp). p < i))
     \<and> (\<forall>h i. hget (cm_vertex_to_checkpoint m) h = Some i \<longrightarrow> i < cm_next_id m)"

datatype cm_op = OpCreate Hash Hash "StateChange list" "Hash list" | OpFinalize CheckpointId

fun cm_step :: "cm_op \<Rightarrow> CheckpointManager \<Rightarrow> CheckpointManager" where
  "cm_step (OpCreate vh root changes parents) m = fst (create_checkpoint vh root changes parents m)"
| "cm_step (OpFinalize cid) m = fst (finalize cid m)"

fun creates :: "cm_op list \<Rightarrow> nat" where
  "creates [] = 0"
| "creates (OpCreate vh root changes parents # ops) = Suc (creates ops)"
| "creates (OpFinalize cid # ops) = creates ops"

lemma cm_ok_new: "cm_ok 0 CheckpointManager_new"
  by (simp add: cm_ok_def CheckpointManager_new_def get_checkpoint_def)

lemma cm_ok_create:
  assumes ok: "cm_ok n m" and n: "n + 2 < 2 ^ 64"
  shows "cm_ok (Suc n) (fst (create_checkpoint vh root changes ps m))"
proof -
  have next_id: "unat (cm_next_id m + 1) = Suc (Suc n)"
    using ok n by (subst unat_add_no_overflow) (simp_all add: cm_ok_def)
  then have less: "x < cm_next_id m + 1" if "x \<le> cm_next_id m" for x
    using that ok by (simp add: cm_ok_def word_less_nat_alt word_le_nat_alt)
  let ?ps = "List.map_filter (hget (cm_vertex_to_checkpoint m)) ps"
  have parents: "p < cm_next_id m" if "p \<in> set ?ps" for p
    using that ok by (auto simp: cm_ok_def List.map_filter_def)
  show ?thesis
    using ok next_id less parents
    by (auto simp: cm_ok_def create_checkpoint_def Let_def get_checkpoint_def less_imp_le)
qed

lemma cm_ok_finalize:
  assumes "cm_ok n m"
  shows "cm_ok n (fst (finalize cid m)) \<and> cm_finalized m \<le> cm_finalized (fst (finalize cid m))"
proof (cases "get_checkpoint m cid")
  case None
  with assms show ?thesis by (simp add: finalize_def get_checkpoint_def)
next
  case (Some cp)
  then have "finalize cid m = (prune_before cid (m\<lparr>cm_finalized := cid\<rparr>), Inr ())"
    by (simp add: finalize_def get_checkpoint_def)
  moreover have "cm_finalized m \<le> cid" "cid < cm_next_id m"
    using assms Some unfolding cm_ok_def by blast+
  ultimately show ?thesis
    using assms
    by (auto simp: cm_ok_def get_checkpoint_def not_less split: if_splits dest!: prune_before_vertices)
qed

lemma cm_ok_run:
  "cm_ok n m \<Longrightarrow> n + creates ops + 1 < 2 ^ 64
   \<Longrightarrow> cm_ok (n + creates ops) (fold cm_step ops m) \<and> cm_finalized m \<le> cm_finalized (fold cm_step ops m)"
proof (induction ops arbitrary: n m)
  case (Cons p ops)
  show ?case
  proof (cases p)
    case (OpCreate vh root changes ps)
    let ?m = "fst (create_checkpoint vh root changes ps m)"
    have "cm_ok (Suc n) ?m" using Cons.prems OpCreate by (intro cm_ok_create) simp_all
    moreover have "cm_finalized ?m = cm_finalized m" by (simp add: create_checkpoint_def Let_def)
    ultimately show ?thesis using Cons.IH [of "Suc n" ?m] Cons.prems(2) OpCreate by simp
  next
    case (OpFinalize cid)
    then show ?thesis
      using Cons.IH [of n "fst (finalize cid m)"] cm_ok_finalize [OF Cons.prems(1), of cid] Cons.prems(2)
      by (auto intro: order_trans)
  qed
qed simp

definition linked :: "CheckpointManager \<Rightarrow> CheckpointId list \<Rightarrow> bool" where
  "linked m w \<longleftrightarrow> (\<forall>i. Suc i < length w \<longrightarrow>
     (\<exists>cp ps. get_checkpoint m (w ! i) = Some cp \<and> cp_parents cp = w ! Suc i # ps))"

definition chain_result :: "CheckpointManager \<Rightarrow> CheckpointId \<Rightarrow> CheckpointId list \<Rightarrow> bool" where
  "chain_result m from w \<longleftrightarrow> sorted_wrt (>) w \<and> (\<forall>i \<in> set w. cm_finalized m < i \<and> i \<le> from)
     \<and> (if cm_finalized m < from then w \<noteq> [] \<and> hd w = from else w = []) \<and> linked m w"

lemma linked_Cons:
  assumes "linked m w" and "w = [] \<or> (\<exists>cp ps. get_checkpoint m x = Some cp \<and> cp_parents cp = hd w # ps)"
  shows "linked m (x # w)"
  unfolding linked_def
proof (intro allI impI)
  fix i assume "Suc i < length (x # w)"
  with assms show "\<exists>cp ps. get_checkpoint m ((x # w) ! i) = Some cp \<and> cp_parents cp = (x # w) ! Suc i # ps"
    by (cases i) (auto simp: linked_def hd_conv_nth)
qed

lemma chain_loop_ok:
  assumes ok: "cm_ok n m"
  shows "\<exists>w. chain_loop m cur chain = Some (chain @ w) \<and> chain_result m cur w"
proof (induction "unat cur" arbitrary: cur chain rule: less_induct)
  case less
  show ?case
  proof (cases "cm_finalized m < cur")
    case False
    then show ?thesis by (subst chain_loop.simps) (simp add: chain_result_def linked_def)
  next
    case True
    show ?thesis
    proof (cases "get_checkpoint m cur")
      case None
      with True show ?thesis by (subst chain_loop.simps) (simp add: chain_result_def linked_def)
    next
      case (Some cp)
      let ?p = "case cp_parents cp of [] \<Rightarrow> 0 | p # ps \<Rightarrow> p"
      have p: "?p < cur"
        using ok Some True by (cases "cp_parents cp") (auto simp: cm_ok_def word_less_nat_alt)
      then obtain w where w: "chain_loop m ?p (chain @ [cur]) = Some ((chain @ [cur]) @ w)" "chain_result m ?p w"
        using less [of ?p "chain @ [cur]"] by (auto simp: word_less_nat_alt)
      have "chain_loop m cur chain = Some (chain @ (cur # w))"
        using True Some w(1) by (subst chain_loop.simps) simp
      moreover have "linked m (cur # w)"
      proof (rule linked_Cons)
        show "linked m w" using w(2) by (simp add: chain_result_def)
        show "w = [] \<or> (\<exists>cp ps. get_checkpoint m cur = Some cp \<and> cp_parents cp = hd w # ps)"
        proof (cases "cp_parents cp")
          case Nil
          then show ?thesis using w(2) by (simp add: chain_result_def)
        next
          case (Cons q qs)
          then show ?thesis using w(2) Some by (cases "cm_finalized m < q") (simp_all add: chain_result_def)
        qed
      qed
      moreover have "\<forall>i \<in> set w. cm_finalized m < i \<and> i < cur"
        using w(2) p by (auto simp: chain_result_def intro: le_less_trans)
      ultimately show ?thesis
        using w(2) True by (intro exI [of _ "cur # w"]) (auto simp: chain_result_def less_imp_le)
    qed
  qed
qed

section \<open>Properties\<close>

text \<open>
  (C30) Reverting a checkpoint undoes it: when the recorded changes tell the truth about the state they
  were applied to, applying a checkpoint and reverting it gives back every account and every
  storage slot, however the changes overlap.
\<close>

theorem checkpoint_revert_restores:
  assumes "get_checkpoint m cid = Some cp" and "all_truthful lib (cp_changes cp) s"
  shows "\<exists>s1 s2. apply_checkpoint lib m cid s = (s1, Inr ()) \<and> cm_revert_checkpoint lib m cid s1 = (s2, Inr ())
    \<and> ss_get_account s2 = ss_get_account s \<and> ss_get_storage s2 = ss_get_storage s"
  using assms checkpoint_log.undo_redo [OF all_truthful_recorded [OF assms(2)]]
  by (simp add: apply_checkpoint_def cm_revert_checkpoint_def ss_view_def)

definition demo_changes :: "StateChange list" where
  "demo_changes = [ChBalance 7 ZERO ONE, ChNonce 7 0 1, ChBalance 7 ONE (from_u64 5), ChStorage 7 ZERO ZERO ONE]"

definition demo_manager :: CheckpointManager where
  "demo_manager = fst (create_checkpoint 1 2 demo_changes [] CheckpointManager_new)"

theorem checkpoint_revert_restores_witness:
  "\<exists>s1 s2. apply_checkpoint demo_lib demo_manager 1 StateStore_new = (s1, Inr ())
    \<and> ss_get_balance s1 7 = from_u64 5 \<and> cm_revert_checkpoint demo_lib demo_manager 1 s1 = (s2, Inr ())
    \<and> ss_get_account s2 = ss_get_account StateStore_new"
proof -
  obtain cp where cp: "get_checkpoint demo_manager 1 = Some cp" "cp_changes cp = demo_changes"
    by (auto simp: demo_manager_def create_checkpoint_def CheckpointManager_new_def get_checkpoint_def hput_def Let_def)
  have "all_truthful demo_lib (cp_changes cp) StateStore_new"
    unfolding cp(2) demo_changes_def
    by (simp add: ss_get_balance_def ss_get_nonce_def ss_get_storage_def ss_get_account_def ss_set_balance_def
        ss_set_nonce_def ss_set_account_def StateStore_new_def AccountState_default_def)
  from checkpoint_revert_restores [OF cp(1) this] show ?thesis
    by (auto simp: apply_checkpoint_def cp demo_changes_def ss_get_balance_def ss_set_balance_def ss_set_nonce_def)
qed

text \<open>
  The checkpoint table is sound: after any sequence of creations and finalizations with fewer
  than 2^64 - 1 creations, the walk to the finalized checkpoint ends for every starting
  point, with strictly rising identifiers above the finalized one that follow first-parent links up
  to the starting point, and no later finalization goes back.
\<close>

theorem checkpoint_chain_ends:
  assumes "creates (ops @ later) + 1 < 2 ^ 64" and m: "m = fold cm_step ops CheckpointManager_new"
  shows "(\<exists>chain. get_chain_to_finalized m from = Some chain \<and> chain_result m from (rev chain))
    \<and> cm_finalized m \<le> cm_finalized (fold cm_step later m)"
proof -
  have count: "creates (ops @ later) = creates ops + creates later"
    by (induction ops rule: creates.induct) simp_all
  then have ok: "cm_ok (creates ops) m"
    using cm_ok_run [OF cm_ok_new, of ops] assms(1) by (simp add: m)
  with count assms(1) have "cm_finalized m \<le> cm_finalized (fold cm_step later m)"
    using cm_ok_run [OF ok, of later] by simp
  with chain_loop_ok [OF ok, of "from" "[]"] show ?thesis by (auto simp: get_chain_to_finalized_def)
qed

theorem checkpoint_chain_ends_witness:
  "\<exists>chain. get_chain_to_finalized (fold cm_step [OpCreate 1 2 [] [], OpCreate 3 4 [] [1]] CheckpointManager_new) 2
      = Some chain \<and> last chain = 2"
  using checkpoint_chain_ends [OF _ refl, of "[OpCreate 1 2 [] [], OpCreate 3 4 [] [1]]" "[]" 2]
  by (auto simp: chain_result_def create_checkpoint_def CheckpointManager_new_def Let_def hd_rev)

text \<open>
  Finalization loses the index entry of a live checkpoint: when a vertex has an older and a newer
  checkpoint, finalizing the newer one removes the vertex from the index, and the checkpoint that is
  still stored can no longer be found by its vertex.
\<close>

theorem finalize_drops_live_vertex:
  assumes "get_checkpoint m old = Some cp" and "cp_vertex_hash cp = h" and "old < new"
    and "get_checkpoint m new = Some cp'" and "cp_vertex_hash cp' = h"
  shows "\<exists>m'. finalize new m = (m', Inr ()) \<and> get_checkpoint m' new = Some cp' \<and> get_checkpoint_for_vertex m' h = None"
proof -
  let ?m = "m\<lparr>cm_finalized := new\<rparr>"
  have "(old, cp) \<in> set (cm_checkpoints m)" using assms(1) by (auto simp: get_checkpoint_def dest: map_of_SomeD)
  then have "hget (cm_vertex_to_checkpoint (prune_before new ?m)) h = None"
    using assms(2,3) by (force simp: prune_before_fold fold_drop_entry(2))
  then show ?thesis
    using assms(4) by (simp add: finalize_def get_checkpoint_def get_checkpoint_for_vertex_def)
qed

theorem finalize_drops_live_vertex_witness:
  "\<exists>m'. finalize 2 (fold cm_step [OpCreate 7 2 [] [], OpCreate 7 4 [] []] CheckpointManager_new) = (m', Inr ())
    \<and> get_checkpoint m' 2 \<noteq> None \<and> get_checkpoint_for_vertex m' 7 = None"
proof -
  let ?m = "fold cm_step [OpCreate 7 2 [] [], OpCreate 7 4 [] []] CheckpointManager_new"
  obtain a b where "get_checkpoint ?m 1 = Some a" "cp_vertex_hash a = 7" "get_checkpoint ?m 2 = Some b"
      "cp_vertex_hash b = 7"
    by (auto simp: create_checkpoint_def CheckpointManager_new_def get_checkpoint_def Let_def)
  with finalize_drops_live_vertex [of ?m 1 a 7 2 b] show ?thesis by auto
qed

text \<open>
  Reverting a deletion does not bring the account back: storage and code hash of the deleted
  account are lost, whatever the recorded balance and nonce.
\<close>

theorem revert_deletion_loses_storage:
  assumes "get_checkpoint m cid = Some cp" and "cp_changes cp = [ChDeleted a b n]"
    and "apply_checkpoint lib m cid s = (s1, Inr ())" and "cm_revert_checkpoint lib m cid s1 = (s2, Inr ())"
  shows "ss_get_storage s2 a k = ZERO \<and> ss_get_code_hash s2 a = 0
    \<and> ss_get_balance s2 a = b \<and> ss_get_nonce s2 a = n"
proof -
  have "s2 = ss_set_nonce a n (ss_set_balance a b (ss_delete_account a s))"
    using assms by (simp add: apply_checkpoint_def cm_revert_checkpoint_def)
  then show ?thesis
    by (simp add: ss_set_nonce_def ss_set_balance_def ss_get_code_hash_def ss_get_balance_def ss_get_nonce_def
        AccountState_default_def)
qed

theorem revert_deletion_loses_storage_witness:
  "\<exists>s s1 s2. apply_checkpoint demo_lib (fst (create_checkpoint 1 2 [ChDeleted 7 ZERO 0] [] CheckpointManager_new)) 1 s
      = (s1, Inr ())
    \<and> cm_revert_checkpoint demo_lib (fst (create_checkpoint 1 2 [ChDeleted 7 ZERO 0] [] CheckpointManager_new)) 1 s1
      = (s2, Inr ())
    \<and> ss_get_storage s 7 ZERO = ONE \<and> ss_get_storage s2 7 ZERO = ZERO"
proof -
  let ?m = "fst (create_checkpoint 1 2 [ChDeleted 7 ZERO 0] [] CheckpointManager_new)"
  let ?s = "ss_set_storage 7 ZERO ONE StateStore_new"
  obtain cp where cp: "get_checkpoint ?m 1 = Some cp" "cp_changes cp = [ChDeleted 7 ZERO 0]"
    by (simp add: create_checkpoint_def CheckpointManager_new_def get_checkpoint_def Let_def)
  obtain s1 s2 where s: "apply_checkpoint demo_lib ?m 1 ?s = (s1, Inr ())"
      "cm_revert_checkpoint demo_lib ?m 1 s1 = (s2, Inr ())"
    by (simp add: apply_checkpoint_def cm_revert_checkpoint_def cp)
  from revert_deletion_loses_storage [OF cp s, of ZERO] have "ss_get_storage s2 7 ZERO = ZERO" by simp
  moreover have "ss_get_storage ?s 7 ZERO = ONE" by simp
  ultimately show ?thesis using s by blast
qed

end
