(* ===== verification/Tip_Selection.thy ===== *)
theory Tip_Selection
  imports Dag
begin

text \<open>
  Tip selection, \<^verbatim>\<open>src/crates/nexus-dag/src/tip_selection.rs\<close>: how many and which tips become the
  parents of a new vertex, for the five strategies, and the check of a choice of parents. The random
  source is the third-party crate \<^verbatim>\<open>rand\<close>, a parameter with a state that is passed on; the
  hypothesis \<open>rng_laws\<close> states what its documentation promises. Floating-point numbers enter only
  through comparisons of scores: their operations are a parameter as well, and what is proved holds
  for every arithmetic. The description and the timing in the result of \<open>select\<close> are left out.
\<close>

section \<open>Random source and floating point\<close>

record ('r, 'f) rng =
  gen_f64 :: "'r \<Rightarrow> 'f \<times> 'r"
  gen_index :: "nat \<Rightarrow> 'r \<Rightarrow> nat \<times> 'r"
  choose_indices :: "nat \<Rightarrow> nat \<Rightarrow> 'r \<Rightarrow> nat list \<times> 'r"

definition rng_laws :: "('r, 'f) rng \<Rightarrow> bool" where
  "rng_laws g \<longleftrightarrow>
     (\<forall>n s. 0 < n \<longrightarrow> fst (gen_index g n s) < n)
     \<and> (\<forall>n k s. let is = fst (choose_indices g n k s)
          in length is = min k n \<and> distinct is \<and> (\<forall>i \<in> set is. i < n))"

record 'f f64_ops =
  f_zero :: 'f
  f_neg_infinity :: 'f
  f_of_u64 :: "u64 \<Rightarrow> 'f"
  f_of_u128 :: "u128 \<Rightarrow> 'f"
  f_add :: "'f \<Rightarrow> 'f \<Rightarrow> 'f"
  f_sub :: "'f \<Rightarrow> 'f \<Rightarrow> 'f"
  f_mul :: "'f \<Rightarrow> 'f \<Rightarrow> 'f"
  f_div :: "'f \<Rightarrow> 'f \<Rightarrow> 'f"
  f_max :: "'f \<Rightarrow> 'f \<Rightarrow> 'f"
  f_exp :: "'f \<Rightarrow> 'f"
  f_ln :: "'f \<Rightarrow> 'f"
  f_ge :: "'f \<Rightarrow> 'f \<Rightarrow> bool"
  f_eq :: "'f \<Rightarrow> 'f \<Rightarrow> bool"

definition f_sum :: "('f, 'z) f64_ops_scheme \<Rightarrow> (Hash \<times> 'f) list \<Rightarrow> 'f" where
  "f_sum fl ws = fold (\<lambda>(h, w) acc. f_add fl acc w) ws (f_zero fl)"

section \<open>The code\<close>

datatype 'f TipSelectionStrategy =
    Random
  | WeightedRandom
  | HighestWeight
  | MarkovChainMonteCarlo 'f nat
  | Hybrid 'f 'f

record 'f TipSelector =
  ts_strategy :: "'f TipSelectionStrategy"
  ts_min_parents :: nat
  ts_max_parents :: nat

record TipSelectionResult =
  tr_parents :: "Hash list"
  tr_height :: Height
  tr_tips_evaluated :: nat

definition TipSelector_new :: "'f TipSelectionStrategy \<Rightarrow> 'f TipSelector" where
  "TipSelector_new strategy = \<lparr>ts_strategy = strategy, ts_min_parents = 1, ts_max_parents = 8\<rparr>"

definition with_parent_limits :: "nat \<Rightarrow> nat \<Rightarrow> 'f TipSelector \<Rightarrow> 'f TipSelector" where
  "with_parent_limits lo hi s = s\<lparr>ts_min_parents := lo, ts_max_parents := min hi MAX_PARENTS\<rparr>"

definition select_count :: "'f TipSelector \<Rightarrow> nat \<Rightarrow> nat" where
  "select_count s available =
     (if available = 0 then 0
      else let target = max (min 2 available) (ts_min_parents s) in min target (ts_max_parents s))"

definition random_selection :: "('r, 'f) rng \<Rightarrow> 'f TipSelector \<Rightarrow> Hash list \<Rightarrow> 'r \<Rightarrow> Hash list \<times> 'r" where
  "random_selection g s tips r =
     (case choose_indices g (length tips) (select_count s (length tips)) r of
        (is, r) \<Rightarrow> (map ((!) tips) is, r))"

text \<open>The index found by the cumulative walk; 0 when the walk never reaches the threshold.\<close>

fun pick_index :: "'f f64_ops \<Rightarrow> (Hash \<times> 'f) list \<Rightarrow> 'f \<Rightarrow> 'f \<Rightarrow> nat \<Rightarrow> nat" where
  "pick_index fl [] cumulative threshold idx = 0"
| "pick_index fl ((h, w) # rest) cumulative threshold idx =
     (let cumulative = f_add fl cumulative w
      in if f_ge fl cumulative threshold then idx else pick_index fl rest cumulative threshold (idx + 1))"

fun draw_loop ::
    "('r, 'f) rng \<Rightarrow> 'f f64_ops \<Rightarrow> nat \<Rightarrow> (Hash \<times> 'f) list \<Rightarrow> Hash list \<Rightarrow> 'r \<Rightarrow> Hash list \<times> 'r" where
  "draw_loop g fl 0 remaining selected r = (selected, r)"
| "draw_loop g fl (Suc n) remaining selected r =
     (if remaining = [] then (selected, r)
      else
        let current_total = f_sum fl remaining; (u, r) = gen_f64 g r;
            threshold = f_mul fl u current_total;
            idx = pick_index fl remaining (f_zero fl) threshold 0
        in draw_loop g fl n (take idx remaining @ drop (Suc idx) remaining)
             (selected @ [fst (remaining ! idx)]) r)"

definition weighted_random_selection ::
    "('r, 'f) rng \<Rightarrow> 'f f64_ops \<Rightarrow> 'f TipSelector \<Rightarrow> Dag \<Rightarrow> Hash list \<Rightarrow> 'r \<Rightarrow> Hash list \<times> 'r" where
  "weighted_random_selection g fl s d tips r =
     (let count = select_count s (length tips);
          weights = map (\<lambda>h. (h, f_of_u128 fl (calculate_weight d h))) tips
      in if f_eq fl (f_sum fl weights) (f_zero fl) then random_selection g s tips r
         else draw_loop g fl count weights [] r)"

definition highest_weight_selection :: "'f TipSelector \<Rightarrow> Dag \<Rightarrow> Hash list \<Rightarrow> Hash list" where
  "highest_weight_selection s d tips =
     (let weighted = map (\<lambda>h. (h, calculate_weight d h)) tips
      in map fst (take (select_count s (length tips)) (sort_key (\<lambda>(h, w). NOT w) weighted)))"

definition hybrid_score :: "'f f64_ops \<Rightarrow> Dag \<Rightarrow> 'f \<Rightarrow> 'f \<Rightarrow> Hash \<Rightarrow> Vertex \<Rightarrow> 'f" where
  "hybrid_score fl d recency_weight confirmation_weight h v =
     (let recency_score = f_div fl (f_of_u64 fl (vx_height v)) (f_of_u64 fl (max (latest_height d) 1));
          confirmation_score = f_max fl (f_ln fl (f_of_u128 fl (calculate_weight d h))) (f_zero fl)
      in f_add fl (f_mul fl recency_weight recency_score) (f_mul fl confirmation_weight confirmation_score))"

definition hybrid_selection ::
    "('r, 'f) rng \<Rightarrow> 'f f64_ops \<Rightarrow> 'f TipSelector \<Rightarrow> Dag \<Rightarrow> Hash list \<Rightarrow> 'f \<Rightarrow> 'f \<Rightarrow> 'r \<Rightarrow> Hash list \<times> 'r" where
  "hybrid_selection g fl s d tips recency_weight confirmation_weight r =
     (let count = select_count s (length tips);
          scores = List.map_filter (\<lambda>h. map_option (\<lambda>v. (h, hybrid_score fl d recency_weight confirmation_weight h v))
                     (get_vertex d h)) tips
      in if scores = [] then random_selection g s tips r
         else
           let max_score = fold (\<lambda>(h, x) acc. f_max fl acc x) scores (f_neg_infinity fl);
               exp_scores = map (\<lambda>(h, x). (h, f_exp fl (f_sub fl x max_score))) scores
           in draw_loop g fl count exp_scores [] r)"

text \<open>One step of a random walk: the first neighbour whose cumulative weight reaches the threshold.\<close>

fun first_reaching :: "'f f64_ops \<Rightarrow> (Hash \<times> 'f) list \<Rightarrow> 'f \<Rightarrow> 'f \<Rightarrow> Hash \<Rightarrow> Hash" where
  "first_reaching fl [] cumulative threshold current = current"
| "first_reaching fl ((h, w) # rest) cumulative threshold current =
     (let cumulative = f_add fl cumulative w
      in if f_ge fl cumulative threshold then h else first_reaching fl rest cumulative threshold current)"

definition walk_weights :: "'f f64_ops \<Rightarrow> Dag \<Rightarrow> 'f \<Rightarrow> Hash list \<Rightarrow> (Hash \<times> 'f) list" where
  "walk_weights fl d alpha hs = map (\<lambda>h. (h, f_exp fl (f_mul fl (f_of_u128 fl (calculate_weight d h)) alpha))) hs"

fun walk_down :: "('r, 'f) rng \<Rightarrow> 'f f64_ops \<Rightarrow> Dag \<Rightarrow> 'f \<Rightarrow> nat \<Rightarrow> Hash \<Rightarrow> 'r \<Rightarrow> Hash \<times> 'r" where
  "walk_down g fl d alpha 0 current r = (current, r)"
| "walk_down g fl d alpha (Suc n) current r =
     (case get_vertex d current of
        None \<Rightarrow> (current, r)
      | Some v \<Rightarrow>
        if vx_parents v = [] then (current, r)
        else
          let ws = walk_weights fl d alpha (vx_parents v); total = f_sum fl ws
          in if f_eq fl total (f_zero fl) then (current, r)
             else let (u, r) = gen_f64 g r
                  in walk_down g fl d alpha n (first_reaching fl ws (f_zero fl) (f_mul fl u total) current) r)"

fun walk_up :: "('r, 'f) rng \<Rightarrow> 'f f64_ops \<Rightarrow> Dag \<Rightarrow> 'f \<Rightarrow> nat \<Rightarrow> Hash \<Rightarrow> 'r \<Rightarrow> Hash \<times> 'r" where
  "walk_up g fl d alpha 0 current r = (current, r)"
| "walk_up g fl d alpha (Suc n) current r =
     (if get_children d current = [] then (current, r)
      else
        let ws = walk_weights fl d alpha (get_children d current); total = f_sum fl ws
        in if f_eq fl total (f_zero fl) then (current, r)
           else let (u, r) = gen_f64 g r
                in walk_up g fl d alpha n (first_reaching fl ws (f_zero fl) (f_mul fl u total) current) r)"

fun mcmc_loop ::
    "('r, 'f) rng \<Rightarrow> 'f f64_ops \<Rightarrow> Dag \<Rightarrow> Hash list \<Rightarrow> 'f \<Rightarrow> nat \<Rightarrow> nat \<Rightarrow> Hash list \<Rightarrow> 'r \<Rightarrow> Hash list \<times> 'r" where
  "mcmc_loop g fl d tips alpha depth 0 selected r = (selected, r)"
| "mcmc_loop g fl d tips alpha depth (Suc n) selected r =
     (let (start_idx, r) = gen_index g (length tips) r;
          (current, r) = walk_down g fl d alpha depth (tips ! start_idx) r;
          (walk_result, r) = walk_up g fl d alpha depth current r
      in mcmc_loop g fl d tips alpha depth n
           (if walk_result \<in> set selected then selected else selected @ [walk_result]) r)"

partial_function (option) fill_loop ::
    "('r, 'f) rng \<Rightarrow> nat \<Rightarrow> Hash list \<Rightarrow> Hash list \<Rightarrow> 'r \<Rightarrow> (Hash list \<times> 'r) option" where
  "fill_loop g min_parents tips selected r =
     (if length selected < min_parents \<and> tips \<noteq> []
      then (case gen_index g (length tips) r of
              (i, r) \<Rightarrow> fill_loop g min_parents tips
                 (if tips ! i \<in> set selected then selected else selected @ [tips ! i]) r)
      else Some (selected, r))"

definition mcmc_selection ::
    "('r, 'f) rng \<Rightarrow> 'f f64_ops \<Rightarrow> 'f TipSelector \<Rightarrow> Dag \<Rightarrow> Hash list \<Rightarrow> 'f \<Rightarrow> nat \<Rightarrow> 'r \<Rightarrow> (Hash list \<times> 'r) option" where
  "mcmc_selection g fl s d tips alpha depth r =
     (case mcmc_loop g fl d tips alpha depth (select_count s (length tips)) [] r of
        (selected, r) \<Rightarrow> fill_loop g (ts_min_parents s) tips selected r)"

definition height_above :: "Dag \<Rightarrow> Hash list \<Rightarrow> Height" where
  "height_above d parents =
     (case List.map_filter (\<lambda>h. map_option vx_height (get_vertex d h)) parents of
        [] \<Rightarrow> 0 | hs \<Rightarrow> foldr max hs 0 + 1)"

definition select :: "('r, 'f) rng \<Rightarrow> 'f f64_ops \<Rightarrow> 'f TipSelector \<Rightarrow> Dag \<Rightarrow> 'r \<Rightarrow> (TipSelectionResult \<times> 'r) option" where
  "select g fl s d r =
     (let tips = get_tips d
      in map_option (\<lambda>(parents, r). (\<lparr>tr_parents = parents, tr_height = height_above d parents,
                                      tr_tips_evaluated = length tips\<rparr>, r))
           (case ts_strategy s of
              Random \<Rightarrow> Some (random_selection g s tips r)
            | WeightedRandom \<Rightarrow> Some (weighted_random_selection g fl s d tips r)
            | HighestWeight \<Rightarrow> Some (highest_weight_selection s d tips, r)
            | MarkovChainMonteCarlo alpha depth \<Rightarrow> mcmc_selection g fl s d tips alpha depth r
            | Hybrid recency confirmation \<Rightarrow> Some (hybrid_selection g fl s d tips recency confirmation r)))"

datatype TipValidationError =
    NoParents
  | TooManyParents
  | DuplicateParents
  | ParentNotFound Hash
  | ParentNotConfirmed Hash VertexStatus
  | ConflictingParents Hash Hash

fun check_status :: "Dag \<Rightarrow> Hash list \<Rightarrow> TipValidationError + unit" where
  "check_status d [] = Inr ()"
| "check_status d (p # ps) =
     (case get_status d p of
        None \<Rightarrow> Inl (ParentNotFound p)
      | Some st \<Rightarrow> if st = Confirmed \<or> st = StatusFinalized then check_status d ps
                  else Inl (ParentNotConfirmed p st))"

fun check_conflicts :: "Dag \<Rightarrow> Hash list \<Rightarrow> TipValidationError + unit" where
  "check_conflicts d [] = Inr ()"
| "check_conflicts d (p # ps) =
     (case find (\<lambda>q. is_ancestor d p q \<or> is_ancestor d q p) ps of
        Some q \<Rightarrow> Inl (ConflictingParents p q)
      | None \<Rightarrow> check_conflicts d ps)"

definition validate_parents :: "Dag \<Rightarrow> Hash list \<Rightarrow> TipValidationError + unit" where
  "validate_parents d parents =
     (if parents = [] then Inl NoParents
      else if length parents > MAX_PARENTS then Inl TooManyParents
      else if \<not> distinct parents then Inl DuplicateParents
      else case check_status d parents of Inl e \<Rightarrow> Inl e | Inr _ \<Rightarrow> check_conflicts d parents)"

section \<open>Choices without repetition\<close>

text \<open>A choice of \<open>n\<close> tips, or of all tips when there are fewer.\<close>

definition picks :: "nat \<Rightarrow> Hash list \<Rightarrow> Hash list \<Rightarrow> bool" where
  "picks n tips xs \<longleftrightarrow> distinct xs \<and> set xs \<subseteq> set tips \<and> length xs = min n (length tips)"

lemma pick_index_bound:
  "ws \<noteq> [] \<Longrightarrow> pick_index fl ws c t i < i + length ws \<or> pick_index fl ws c t i = 0"
proof (induction ws arbitrary: c i)
  case (Cons e ws)
  obtain h w where "e = (h, w)" by fastforce
  moreover have "ws \<noteq> [] \<Longrightarrow> pick_index fl ws (f_add fl c w) t (i + 1) < i + 1 + length ws
      \<or> pick_index fl ws (f_add fl c w) t (i + 1) = 0"
    using Cons.IH .
  ultimately show ?case by (cases "ws = []") (auto simp: Let_def)
qed simp

lemma draw_loop_picks:
  assumes "distinct (map fst ws)" "distinct sel" "set sel \<inter> fst ` set ws = {}"
  shows "\<exists>xs r'. draw_loop g fl n ws sel r = (sel @ xs, r') \<and> picks n (map fst ws) xs"
  using assms
proof (induction n arbitrary: ws sel r)
  case 0
  then show ?case by (simp add: picks_def)
next
  case (Suc n)
  show ?case
  proof (cases "ws = []")
    case True
    then show ?thesis by (simp add: picks_def)
  next
    case False
    obtain u r1 where u: "gen_f64 g r = (u, r1)" by fastforce
    let ?i = "pick_index fl ws (f_zero fl) (f_mul fl u (f_sum fl ws)) 0"
    let ?ws = "take ?i ws @ drop (Suc ?i) ws" and ?h = "fst (ws ! ?i)"
    have i: "?i < length ws" using pick_index_bound [OF False, of fl "f_zero fl" _ 0] False by fastforce
    have split: "map fst ws = map fst (take ?i ws) @ ?h # map fst (drop (Suc ?i) ws)"
      using id_take_nth_drop [OF i] by (metis list.simps(9) map_append)
    have d: "distinct (map fst ?ws)" "?h \<notin> fst ` set ?ws" "fst ` set ?ws \<subseteq> fst ` set ws" "?h \<in> fst ` set ws"
      using Suc.prems(1) i unfolding split by (auto dest: in_set_takeD in_set_dropD)
    moreover from d Suc.prems have "distinct (sel @ [?h])" "set (sel @ [?h]) \<inter> fst ` set ?ws = {}" by auto
    ultimately obtain xs r' where xs: "draw_loop g fl n ?ws (sel @ [?h]) r1 = ((sel @ [?h]) @ xs, r')"
        "picks n (map fst ?ws) xs"
      using Suc.IH [of ?ws "sel @ [?h]" r1] by blast
    have "draw_loop g fl (Suc n) ws sel r = (sel @ (?h # xs), r')"
      using False u xs(1) by (simp add: Let_def)
    moreover have "picks (Suc n) (map fst ws) (?h # xs)"
    proof -
      have xs_in: "set xs \<subseteq> fst ` set ?ws" and "distinct xs" "length xs = min n (length ?ws)"
        using xs(2) unfolding picks_def set_map length_map by blast+
      then have "set xs \<subseteq> fst ` set ws" "?h \<notin> set xs" using d(2,3) by blast+
      with \<open>distinct xs\<close> \<open>length xs = _\<close> d(4) i show ?thesis by (auto simp: picks_def)
    qed
    ultimately show ?thesis by blast
  qed
qed

lemma random_selection_picks:
  assumes "rng_laws g" "distinct tips"
  shows "\<exists>xs r'. random_selection g s tips r = (xs, r') \<and> picks (select_count s (length tips)) tips xs"
proof -
  obtain js r' where js: "choose_indices g (length tips) (select_count s (length tips)) r = (js, r')" by fastforce
  with assms(1) have l: "length js = min (select_count s (length tips)) (length tips)" "distinct js"
      "\<forall>i \<in> set js. i < length tips"
    unfolding rng_laws_def Let_def by (metis fst_conv)+
  then have "distinct (map ((!) tips) js)"
    using assms(2) by (auto simp: distinct_map inj_on_def nth_eq_iff_index_eq)
  with l js show ?thesis by (auto simp: random_selection_def picks_def)
qed

lemma highest_picks:
  assumes "distinct tips"
  shows "picks (select_count s (length tips)) tips (highest_weight_selection s d tips)"
proof -
  let ?w = "sort_key (\<lambda>(h, w). NOT w) (map (\<lambda>h. (h, calculate_weight d h)) tips)"
  have w: "set ?w = (\<lambda>h. (h, calculate_weight d h)) ` set tips" by simp
  then have "inj_on fst (set ?w)" by (auto simp: inj_on_def)
  moreover have "distinct ?w" using assms by (simp add: distinct_map inj_on_def)
  ultimately have "distinct (map fst ?w)" by (simp add: distinct_map)
  moreover have "set (map fst ?w) = set tips" by (simp add: w image_image)
  ultimately show ?thesis
    by (auto simp: picks_def highest_weight_selection_def Let_def take_map [symmetric] min.commute
        dest: in_set_takeD intro: distinct_take)
qed

lemma select_picks:
  assumes "rng_laws g" "dag_graph d" "distinct (get_tips d)"
    and "\<And>a n. ts_strategy s \<noteq> MarkovChainMonteCarlo a n"
  shows "\<exists>res r'. select g fl s d r = Some (res, r') \<and> tr_height res = height_above d (tr_parents res)
    \<and> picks (select_count s (length (get_tips d))) (get_tips d) (tr_parents res)"
proof -
  let ?t = "get_tips d" and ?n = "select_count s (length (get_tips d))"
  note random = random_selection_picks [OF assms(1,3), of s r]
  have draw: "\<exists>xs r'. draw_loop g fl ?n ws [] r = (xs, r') \<and> picks ?n ?t xs" if "map fst ws = ?t" for ws
    using draw_loop_picks [of ws "[]" g fl ?n r] that assms(3) by auto
  have weighted: "\<exists>xs r'. weighted_random_selection g fl s d ?t r = (xs, r') \<and> picks ?n ?t xs"
    using random draw [of "map (\<lambda>h. (h, f_of_u128 fl (calculate_weight d h))) ?t"]
    by (auto simp: weighted_random_selection_def Let_def o_def)
  have hybrid: "\<exists>xs r'. hybrid_selection g fl s d ?t a b r = (xs, r') \<and> picks ?n ?t xs" for a b
  proof -
    have "get_vertex d h \<noteq> None" if "h \<in> set ?t" for h
      using that assms(2) by (auto simp: dag_graph_def get_vertex_def)
    then have "map fst (List.map_filter (\<lambda>h. map_option (\<lambda>v. (h, hybrid_score fl d a b h v)) (get_vertex d h)) ts) = ts"
      if "set ts \<subseteq> set ?t" for ts
      using that by (induction ts) (auto simp: List.map_filter_simps split: option.split)
    then have "map fst (List.map_filter (\<lambda>h. map_option (\<lambda>v. (h, hybrid_score fl d a b h v)) (get_vertex d h)) ?t) = ?t"
      by blast
    with random draw show ?thesis
      by (auto simp: hybrid_selection_def Let_def o_def case_prod_beta)
  qed
  let ?choice = "case ts_strategy s of
      Random \<Rightarrow> Some (random_selection g s ?t r)
    | WeightedRandom \<Rightarrow> Some (weighted_random_selection g fl s d ?t r)
    | HighestWeight \<Rightarrow> Some (highest_weight_selection s d ?t, r)
    | MarkovChainMonteCarlo alpha depth \<Rightarrow> mcmc_selection g fl s d ?t alpha depth r
    | Hybrid a b \<Rightarrow> Some (hybrid_selection g fl s d ?t a b r)"
  have "\<exists>xs r'. ?choice = Some (xs, r') \<and> picks ?n ?t xs"
  proof (cases "ts_strategy s")
    case HighestWeight
    with highest_picks [OF assms(3), of s d] show ?thesis by simp
  next
    case (Hybrid a b)
    with hybrid [of a b] show ?thesis by auto
  qed (use random weighted assms(4) in auto)
  then obtain xs r' where "?choice = Some (xs, r')" "picks ?n ?t xs" by blast
  then show ?thesis by (simp add: select_def Let_def)
qed

section \<open>Validation of tips\<close>

lemma tips_not_related:
  assumes "dag_graph d" "a \<in> set (get_tips d)" "a \<noteq> b"
  shows "\<not> is_ancestor d a b"
proof
  assume "is_ancestor d a b"
  then have "(b, a) \<in> (parent_rel d)\<^sup>*" by (simp add: is_ancestor_iff)
  then obtain c where "child_of d c a" using assms(3) by (cases rule: rtrancl.cases) auto
  with assms(1,2) show False by (auto simp: dag_graph_def)
qed

lemma validate_tips:
  assumes d: "dag_graph d" and "picks n (get_tips d) xs" "xs \<noteq> []" "length xs \<le> MAX_PARENTS"
  shows "validate_parents d xs = Inr ()"
proof -
  have "check_status d ys = Inr ()" if "set ys \<subseteq> set (get_tips d)" for ys
    using that
  proof (induction ys)
    case (Cons y ys)
    then have "hcontains (dg_vertices d) y" using d by (auto simp: dag_graph_def)
    then have "get_status d y \<in> {Some Confirmed, Some StatusFinalized}"
      using d by (auto simp: dag_graph_def get_status_def)
    with Cons show ?case by auto
  qed simp
  moreover have "check_conflicts d ys = Inr ()" if "set ys \<subseteq> set (get_tips d)" "distinct ys" for ys
    using that
  proof (induction ys)
    case (Cons y ys)
    have "\<not> (is_ancestor d y q \<or> is_ancestor d q y)" if "q \<in> set ys" for q
      using tips_not_related [OF d, of y q] tips_not_related [OF d, of q y] that Cons.prems by auto
    then have "find (\<lambda>q. is_ancestor d y q \<or> is_ancestor d q y) ys = None"
      unfolding find_None_iff by blast
    with Cons show ?case by simp
  qed simp
  ultimately show ?thesis using assms(2-4) by (auto simp: validate_parents_def picks_def)
qed

definition filled :: "('r, 'f) rng \<Rightarrow> nat \<Rightarrow> Hash list \<Rightarrow> Hash list \<Rightarrow> 'r \<Rightarrow> Hash list \<times> 'r \<Rightarrow> bool" where
  "filled g n tips sel r res \<longleftrightarrow> (rng_laws g \<longrightarrow> distinct sel \<longrightarrow>
     distinct (fst res) \<and> set (fst res) \<subseteq> set sel \<union> set tips \<and> (n \<le> length (fst res) \<or> tips = []))"

lemma fill_loop_result: "fill_loop g n tips sel r = Some res \<Longrightarrow> filled g n tips sel r res"
proof (rule fill_loop.raw_induct [where P = filled])
  fix loop :: "('r, 'f) rng \<Rightarrow> nat \<Rightarrow> Hash list \<Rightarrow> Hash list \<Rightarrow> 'r \<Rightarrow> (Hash list \<times> 'r) option"
    and g n tips sel r y
  assume IH: "\<And>g n tips sel r y. loop g n tips sel r = Some y \<Longrightarrow> filled g n tips sel r y"
    and step: "(if length sel < n \<and> tips \<noteq> [] then case gen_index g (length tips) r of
      (i, r) \<Rightarrow> loop g n tips (if tips ! i \<in> set sel then sel else sel @ [tips ! i]) r
      else Some (sel, r)) = Some y"
  obtain i r' where i: "gen_index g (length tips) r = (i, r')" by fastforce
  show "filled g n tips sel r y"
  proof (cases "length sel < n \<and> tips \<noteq> []")
    case True
    let ?sel = "if tips ! i \<in> set sel then sel else sel @ [tips ! i]"
    have "filled g n tips ?sel r' y" using step True i by (intro IH) simp
    moreover have "rng_laws g \<Longrightarrow> i < length tips"
      using True i unfolding rng_laws_def by (metis fst_conv length_greater_0_conv)
    ultimately show ?thesis by (auto simp: filled_def split: if_splits)
  next
    case False
    with step show ?thesis by (auto simp: filled_def)
  qed
qed

section \<open>Properties\<close>

text \<open>
  (C31) Tip selection and insertion agree. On a well-formed DAG with at least one tip, every strategy
  but the random walk returns distinct tips, as many as wanted or all there are; the parents pass
  \<open>validate_parents\<close>, and the height in the result is the one the DAG expects of a vertex with
  these parents.
\<close>

theorem selected_parents_valid:
  assumes "rng_laws g" and "dag_graph d" and "distinct (get_tips d)" and "get_tips d \<noteq> []"
    and "\<forall>a n. ts_strategy s \<noteq> MarkovChainMonteCarlo a n"
    and "0 < ts_max_parents s" and "ts_max_parents s \<le> MAX_PARENTS"
  shows "\<exists>res r'. select g fl s d r = Some (res, r') \<and> validate_parents d (tr_parents res) = Inr ()
    \<and> set (tr_parents res) \<subseteq> set (get_tips d)
    \<and> length (tr_parents res) = min (select_count s (length (get_tips d))) (length (get_tips d))
    \<and> (\<forall>v. vx_parents v = tr_parents res \<longrightarrow> expected_height v d = tr_height res)"
proof -
  obtain res r' where res: "select g fl s d r = Some (res, r')" "tr_height res = height_above d (tr_parents res)"
      "picks (select_count s (length (get_tips d))) (get_tips d) (tr_parents res)"
    using select_picks [OF assms(1-3), of s fl r] assms(5) by blast
  have "0 < length (tr_parents res)" "length (tr_parents res) \<le> MAX_PARENTS"
    using res(3) assms(4,6,7) by (auto simp: picks_def select_count_def Let_def less_max_iff_disj)
  then have "validate_parents d (tr_parents res) = Inr ()"
    using validate_tips [OF assms(2) res(3)] by simp
  with res show ?thesis
    by (auto simp: picks_def height_above_def expected_height_def parent_heights_def get_vertex_def)
qed

definition demo_rng :: "(unit, nat) rng" where
  "demo_rng = \<lparr>gen_f64 = (\<lambda>r. (0, r)), gen_index = (\<lambda>n r. (0, r)), choose_indices = (\<lambda>n k r. ([0..<min k n], r))\<rparr>"

definition demo_f64 :: "nat f64_ops" where
  "demo_f64 = \<lparr>f_zero = 0, f_neg_infinity = 0, f_of_u64 = unat, f_of_u128 = unat, f_add = (+), f_sub = (-),
     f_mul = (*), f_div = (div), f_max = max, f_exp = Suc, f_ln = (\<lambda>x. x), f_ge = (\<ge>), f_eq = (=)\<rparr>"

lemma demo_rng_laws: "rng_laws demo_rng"
  by (auto simp: rng_laws_def demo_rng_def Let_def)

lemma demo_dag_graph: "dag_graph demo_dag"
  using init_genesis_inv [OF demo_genesis, of UNIV DagConfig_default] by (simp add: demo_dag_def dag_inv_def)

theorem selected_parents_valid_witness:
  "\<exists>res. select demo_rng demo_f64 (TipSelector_new (Hybrid 1 1)) demo_dag () = Some (res, ())
    \<and> validate_parents demo_dag (tr_parents res) = Inr () \<and> tr_parents res = [0]"
proof -
  have "get_tips demo_dag = [0]" by (simp add: demo_dag_eq get_tips_def)
  then show ?thesis
    using selected_parents_valid [OF demo_rng_laws demo_dag_graph, of "TipSelector_new (Hybrid 1 1)" demo_f64 "()"]
    by (auto simp: TipSelector_new_def MAX_PARENTS_def select_count_def length_Suc_conv)
qed

text \<open>
  The random walk strategy need not return: when the only vertex is the genesis vertex and more
  than one parent is demanded, the loop that tops up the selection runs for ever.
\<close>

theorem mcmc_selection_diverges:
  assumes "rng_laws g" and "get_tips d = [t]" and "get_children d t = []"
    and "get_vertex d t = Some v" and "vx_parents v = []"
    and "ts_strategy s = MarkovChainMonteCarlo alpha depth" and "1 < ts_min_parents s"
  shows "select g fl s d r = None"
proof -
  have down: "walk_down g fl d alpha n t r = (t, r)" for n r using assms(4,5) by (cases n) simp_all
  have up: "walk_up g fl d alpha n t r = (t, r)" for n r using assms(3) by (cases n) simp_all
  have idx: "fst (gen_index g 1 r) = 0" for r
    using assms(1) unfolding rng_laws_def by (metis less_one)
  have loop: "\<exists>r'. mcmc_loop g fl d [t] alpha depth n sel r = (sel', r') \<and> set sel' \<subseteq> {t} \<and> distinct sel'"
    if "set sel \<subseteq> {t}" "distinct sel" "sel' = fst (mcmc_loop g fl d [t] alpha depth n sel r)" for n sel sel' r
    using that
  proof (induction n arbitrary: sel r)
    case (Suc n)
    obtain r1 where "gen_index g 1 r = (0, r1)" using idx [of r] by (metis prod.collapse)
    with Suc show ?case by (auto simp: down up split: if_splits)
  qed auto
  obtain sel r1 where sel: "mcmc_loop g fl d [t] alpha depth (select_count s 1) [] r = (sel, r1)" by fastforce
  then have "set sel \<subseteq> {t}" "distinct sel" using loop [of "[]" sel "select_count s 1" r] by auto
  then have "fill_loop g (ts_min_parents s) [t] sel r1 = None"
  proof (cases "fill_loop g (ts_min_parents s) [t] sel r1")
    case (Some res)
    from \<open>set sel \<subseteq> {t}\<close> \<open>distinct sel\<close> fill_loop_result [OF Some] assms(1)
    have "distinct (fst res)" "set (fst res) \<subseteq> {t}" "ts_min_parents s \<le> length (fst res)"
      by (auto simp: filled_def)
    then have "length (fst res) \<le> 1" by (metis card_mono card.empty card_insert_disjoint distinct_card empty_iff
          finite.emptyI finite.insertI One_nat_def)
    with \<open>ts_min_parents s \<le> length (fst res)\<close> assms(7) show ?thesis by simp
  qed simp
  with sel assms(2,6) show ?thesis by (simp add: select_def mcmc_selection_def)
qed

theorem mcmc_selection_diverges_witness:
  "select demo_rng demo_f64 (with_parent_limits 2 8 (TipSelector_new (MarkovChainMonteCarlo 1 10))) demo_dag () = None"
proof -
  have "get_tips demo_dag = [0]" "get_children demo_dag 0 = []" "get_vertex demo_dag 0 = Some (Vertex_genesis 1 0)"
    by (simp_all add: demo_dag_eq get_tips_def get_children_def get_vertex_def Dag_new_def hset_get_def)
  then show ?thesis
    by (rule mcmc_selection_diverges [OF demo_rng_laws])
      (simp_all add: Vertex_genesis_def with_parent_limits_def TipSelector_new_def)
qed

end
