(* ===== verification/Metrics.thy ===== *)
theory Metrics
  imports Tip_Selection "HOL-Library.Multiset"
begin

text \<open>
  Metrics of the DAG, \<^verbatim>\<open>src/crates/nexus-dag/src/metrics.rs\<close>: the collector with its rolling windows and
  totals, and the analyzer of throughput samples. Floating-point arithmetic is the parameter of
  \<open>Tip_Selection\<close>, extended by the partial comparison and by the seconds of a duration. An
  \<open>Instant\<close> and a \<open>Duration\<close> are nanoseconds; clock readings are arguments, two where the code reads the clock twice.
  Counters and sums of 64-bit values wrap.
\<close>

section \<open>Data\<close>

datatype Ordering = Less | Equal | Greater

record 'f metric_f64 = "'f f64_ops" +
  f_partial_cmp :: "'f \<Rightarrow> 'f \<Rightarrow> Ordering option"
  f_as_secs :: "nat \<Rightarrow> 'f"

record 'f DagMetrics =
  dm_vertices_processed :: u64
  dm_transactions_processed :: u64
  dm_current_tps :: 'f
  dm_avg_confirmation_latency_ms :: 'f
  dm_avg_finality_latency_ms :: 'f
  dm_tip_count :: nat
  dm_dag_width :: 'f
  dm_memory_usage :: u64
  dm_orphan_count :: nat

record AccumulatedMetrics =
  ac_vertices_processed :: u64
  ac_transactions_processed :: u64
  ac_total_confirmation_latency :: u64
  ac_total_finality_latency :: u64
  ac_confirmation_count :: u64
  ac_finality_count :: u64

definition AccumulatedMetrics_default :: AccumulatedMetrics where
  "AccumulatedMetrics_default =
     \<lparr>ac_vertices_processed = 0, ac_transactions_processed = 0, ac_total_confirmation_latency = 0,
      ac_total_finality_latency = 0, ac_confirmation_count = 0, ac_finality_count = 0\<rparr>"

record MetricsCollector =
  mc_tx_window :: "(nat \<times> u64) list"
  mc_confirmation_latencies :: "u64 list"
  mc_finality_latencies :: "u64 list"
  mc_window_size :: nat
  mc_accumulated :: AccumulatedMetrics

definition MetricsCollector_new :: "nat \<Rightarrow> MetricsCollector" where
  "MetricsCollector_new window_size =
     \<lparr>mc_tx_window = [], mc_confirmation_latencies = [], mc_finality_latencies = [],
      mc_window_size = window_size, mc_accumulated = AccumulatedMetrics_default\<rparr>"

section \<open>The collector\<close>

text \<open>An entry is old if it is more than ten seconds before the second reading of the clock.\<close>

definition expired :: "nat \<Rightarrow> nat \<times> u64 \<Rightarrow> bool" where
  "expired now e \<longleftrightarrow> fst e + 10 * 1000000000 < now"

definition record_vertex :: "nat \<Rightarrow> nat \<Rightarrow> nat \<Rightarrow> MetricsCollector \<Rightarrow> MetricsCollector" where
  "record_vertex now now' tx_count m =
     (let a = mc_accumulated m
      in m\<lparr>mc_accumulated := a\<lparr>ac_vertices_processed := ac_vertices_processed a + 1,
             ac_transactions_processed := ac_transactions_processed a + of_nat tx_count\<rparr>,
           mc_tx_window := dropWhile (expired now') (mc_tx_window m @ [(now, of_nat tx_count)])\<rparr>)"

text \<open>The bounded queues of latencies and samples: one element leaves if the queue is full.\<close>

definition push_bounded :: "nat \<Rightarrow> 'a \<Rightarrow> 'a list \<Rightarrow> 'a list" where
  "push_bounded n x q = (if n \<le> length q then tl q else q) @ [x]"

definition record_confirmation :: "u64 \<Rightarrow> MetricsCollector \<Rightarrow> MetricsCollector" where
  "record_confirmation latency_ms m =
     (let a = mc_accumulated m
      in m\<lparr>mc_confirmation_latencies := push_bounded (mc_window_size m) latency_ms (mc_confirmation_latencies m),
           mc_accumulated := a\<lparr>ac_total_confirmation_latency := ac_total_confirmation_latency a + latency_ms,
             ac_confirmation_count := ac_confirmation_count a + 1\<rparr>\<rparr>)"

definition record_finality :: "u64 \<Rightarrow> MetricsCollector \<Rightarrow> MetricsCollector" where
  "record_finality latency_ms m =
     (let a = mc_accumulated m
      in m\<lparr>mc_finality_latencies := push_bounded (mc_window_size m) latency_ms (mc_finality_latencies m),
           mc_accumulated := a\<lparr>ac_total_finality_latency := ac_total_finality_latency a + latency_ms,
             ac_finality_count := ac_finality_count a + 1\<rparr>\<rparr>)"

text \<open>The saturating difference of two instants; a positive duration has a positive number of seconds.\<close>

definition current_tps :: "'f metric_f64 \<Rightarrow> MetricsCollector \<Rightarrow> 'f" where
  "current_tps fl m =
     (let w = mc_tx_window m
      in if length w < 2 then f_zero fl
         else let total_txs = sum_list (map snd w); duration = fst (last w) - fst (hd w)
              in if 0 < duration then f_div fl (f_of_u64 fl total_txs) (f_as_secs fl duration) else f_zero fl)"

definition average :: "'f metric_f64 \<Rightarrow> u64 \<Rightarrow> u64 \<Rightarrow> 'f" where
  "average fl summed cnt = (if cnt > 0 then f_div fl (f_of_u64 fl summed) (f_of_u64 fl cnt) else f_zero fl)"

definition metrics_snapshot :: "'f metric_f64 \<Rightarrow> nat \<Rightarrow> nat \<Rightarrow> MetricsCollector \<Rightarrow> 'f DagMetrics" where
  "metrics_snapshot fl tip_count orphan_count m =
     (let a = mc_accumulated m
      in \<lparr>dm_vertices_processed = ac_vertices_processed a,
          dm_transactions_processed = ac_transactions_processed a,
          dm_current_tps = current_tps fl m,
          dm_avg_confirmation_latency_ms = average fl (ac_total_confirmation_latency a) (ac_confirmation_count a),
          dm_avg_finality_latency_ms = average fl (ac_total_finality_latency a) (ac_finality_count a),
          dm_tip_count = tip_count, dm_dag_width = f_zero fl, dm_memory_usage = 0,
          dm_orphan_count = orphan_count\<rparr>)"

definition metrics_reset :: "MetricsCollector \<Rightarrow> MetricsCollector" where
  "metrics_reset m = m\<lparr>mc_accumulated := AccumulatedMetrics_default, mc_tx_window := [],
     mc_confirmation_latencies := [], mc_finality_latencies := []\<rparr>"

section \<open>The analyzer\<close>

record 'f ThroughputAnalyzer =
  ta_sample_period_secs :: u64
  ta_tps_history :: "(Timestamp \<times> 'f) list"
  ta_max_history :: nat

record 'f TpsPercentiles =
  tp_p50 :: 'f
  tp_p90 :: 'f
  tp_p95 :: 'f
  tp_p99 :: 'f

definition ThroughputAnalyzer_new :: "u64 \<Rightarrow> nat \<Rightarrow> 'f ThroughputAnalyzer" where
  "ThroughputAnalyzer_new sample_period_secs max_history =
     \<lparr>ta_sample_period_secs = sample_period_secs, ta_tps_history = [], ta_max_history = max_history\<rparr>"

definition record_sample :: "Timestamp \<Rightarrow> 'f \<Rightarrow> 'f ThroughputAnalyzer \<Rightarrow> 'f ThroughputAnalyzer" where
  "record_sample timestamp tps t =
     t\<lparr>ta_tps_history := push_bounded (ta_max_history t) (timestamp, tps) (ta_tps_history t)\<rparr>"

text \<open>The cutoff is a saturating difference; the product of the window with 1000 wraps.\<close>

definition average_tps :: "'f metric_f64 \<Rightarrow> Timestamp \<Rightarrow> u64 \<Rightarrow> 'f ThroughputAnalyzer \<Rightarrow> 'f" where
  "average_tps fl now window_secs t =
     (if ta_tps_history t = [] then f_zero fl
      else let span = window_secs * 1000;
               cutoff = (if span \<le> now then now - span else 0);
               relevant = map snd (filter (\<lambda>(ts, _). ts \<ge> cutoff) (ta_tps_history t))
           in if relevant = [] then f_zero fl
              else f_div fl (fold (\<lambda>x acc. f_add fl acc x) relevant (f_zero fl)) (f_of_u64 fl (of_nat (length relevant))))"

definition peak_tps :: "'f metric_f64 \<Rightarrow> 'f ThroughputAnalyzer \<Rightarrow> 'f" where
  "peak_tps fl t = fold (\<lambda>x acc. f_max fl acc x) (map snd (ta_tps_history t)) (f_zero fl)"

text \<open>
  A stable sort whose comparison unwraps the partial order. Sorting two or more elements compares each
  of them, so that one that does not compare, even with itself, panics.
\<close>

definition not_greater :: "'f metric_f64 \<Rightarrow> 'f \<Rightarrow> 'f \<Rightarrow> bool" where
  "not_greater fl x y \<longleftrightarrow> f_partial_cmp fl x y \<in> {Some Less, Some Equal}"

fun insert_by :: "('a \<Rightarrow> 'a \<Rightarrow> bool) \<Rightarrow> 'a \<Rightarrow> 'a list \<Rightarrow> 'a list" where
  "insert_by le x [] = [x]"
| "insert_by le x (y # ys) = (if le x y then x # y # ys else y # insert_by le x ys)"

definition sort_by_partial :: "'f metric_f64 \<Rightarrow> 'f list \<Rightarrow> 'f list run" where
  "sort_by_partial fl xs =
     (if 2 \<le> length xs \<and> list_ex (\<lambda>x. f_partial_cmp fl x x = None) xs then Panic
      else Ret (foldr (insert_by (not_greater fl)) xs []))"

definition tps_percentiles :: "'f metric_f64 \<Rightarrow> 'f ThroughputAnalyzer \<Rightarrow> 'f TpsPercentiles run" where
  "tps_percentiles fl t =
     (if ta_tps_history t = []
      then Ret \<lparr>tp_p50 = f_zero fl, tp_p90 = f_zero fl, tp_p95 = f_zero fl, tp_p99 = f_zero fl\<rparr>
      else run_map (\<lambda>values. let len = length values in
             \<lparr>tp_p50 = values ! (len div 2), tp_p90 = values ! ((len * 90) div 100),
              tp_p95 = values ! ((len * 95) div 100), tp_p99 = values ! ((len * 99) div 100)\<rparr>)
             (sort_by_partial fl (map snd (ta_tps_history t))))"

section \<open>Bounded queues\<close>

text \<open>A queue that keeps its last elements: what the latency windows and the history of samples share.\<close>

definition last_n :: "nat \<Rightarrow> 'a list \<Rightarrow> 'a list" where
  "last_n n xs = drop (length xs - n) xs"

lemma length_last_n [simp]: "length (last_n n xs) = min n (length xs)"
  by (simp add: last_n_def)

lemma push_last_n:
  "push_bounded n x (last_n (max n 1) xs) = last_n (max n 1) (xs @ [x])"
proof (cases "max n 1 \<le> length xs")
  case True
  then have "tl (last_n (max n 1) xs) = drop (Suc (length xs - max n 1)) xs"
    by (simp add: last_n_def drop_Suc tl_drop)
  then show ?thesis
    using True by (simp add: push_bounded_def last_n_def Suc_diff_le)
next
  case False
  then have "length xs < max n 1" by linarith
  then show ?thesis
    by (cases "n = 0") (simp_all add: push_bounded_def last_n_def)
qed

section \<open>Histories of the collector\<close>

datatype metric_event = EvVertex nat nat nat | EvConfirmed u64 | EvFinality u64

fun metric_step :: "metric_event \<Rightarrow> MetricsCollector \<Rightarrow> MetricsCollector" where
  "metric_step (EvVertex now now' n) m = record_vertex now now' n m"
| "metric_step (EvConfirmed l) m = record_confirmation l m"
| "metric_step (EvFinality l) m = record_finality l m"

definition vertex_events :: "metric_event list \<Rightarrow> (nat \<times> nat \<times> nat) list" where
  "vertex_events es = List.map_filter (\<lambda>e. case e of EvVertex a b n \<Rightarrow> Some (a, b, n) | _ \<Rightarrow> None) es"

definition confirmations :: "metric_event list \<Rightarrow> u64 list" where
  "confirmations es = List.map_filter (\<lambda>e. case e of EvConfirmed l \<Rightarrow> Some l | _ \<Rightarrow> None) es"

definition finalities :: "metric_event list \<Rightarrow> u64 list" where
  "finalities es = List.map_filter (\<lambda>e. case e of EvFinality l \<Rightarrow> Some l | _ \<Rightarrow> None) es"

text \<open>The clock does not go back: within a call and from one call to the next.\<close>

definition monotone_clock :: "(nat \<times> nat \<times> nat) list \<Rightarrow> bool" where
  "monotone_clock vs \<longleftrightarrow> sorted (concat (map (\<lambda>(a, b, _). [a, b]) vs))"

definition window_of :: "(nat \<times> nat \<times> nat) list \<Rightarrow> (nat \<times> u64) list" where
  "window_of vs = (if vs = [] then [] else
     filter (\<lambda>e. \<not> expired (fst (snd (last vs))) e) (map (\<lambda>(a, _, n). (a, of_nat n)) vs))"

definition collected :: "nat \<Rightarrow> metric_event list \<Rightarrow> MetricsCollector" where
  "collected n es = fold metric_step es (MetricsCollector_new n)"

lemma collected_snoc: "collected n (es @ [e]) = metric_step e (collected n es)"
  by (simp add: collected_def)

lemma events_snoc:
  "vertex_events (es @ [e]) = vertex_events es @ (case e of EvVertex a b n \<Rightarrow> [(a, b, n)] | _ \<Rightarrow> [])"
  "confirmations (es @ [e]) = confirmations es @ (case e of EvConfirmed l \<Rightarrow> [l] | _ \<Rightarrow> [])"
  "finalities (es @ [e]) = finalities es @ (case e of EvFinality l \<Rightarrow> [l] | _ \<Rightarrow> [])"
  by (auto simp: vertex_events_def confirmations_def finalities_def map_filter_simps List.map_filter_def
      split: metric_event.split)

lemmas record_defs = record_vertex_def record_confirmation_def record_finality_def Let_def

lemma collected_size [simp]: "mc_window_size (collected n es) = n"
proof (induction es rule: rev_induct)
  case (snoc e es)
  then show ?case by (cases e) (simp_all add: collected_snoc record_defs)
qed (simp add: collected_def MetricsCollector_new_def)

lemma dropWhile_expired:
  "sorted (map fst w) \<Longrightarrow> dropWhile (expired b) w = filter (\<lambda>e. \<not> expired b e) w"
proof (induction w)
  case (Cons e w)
  then have "\<not> expired b e \<Longrightarrow> \<forall>x\<in>set w. \<not> expired b x" by (fastforce simp: expired_def)
  with Cons show ?case by (auto simp: filter_id_conv)
qed simp

definition clock_readings :: "(nat \<times> nat \<times> nat) list \<Rightarrow> nat list" where
  "clock_readings vs = concat (map (\<lambda>(a, b, _). [a, b]) vs)"

lemma clock_readings_set: "(a, b, n) \<in> set vs \<Longrightarrow> a \<in> set (clock_readings vs) \<and> b \<in> set (clock_readings vs)"
  by (force simp: clock_readings_def)

lemma clock_readings_snoc: "clock_readings (vs @ [(a, b, n)]) = clock_readings vs @ [a, b]"
  by (simp add: clock_readings_def)

lemma sorted_times: "sorted (clock_readings vs) \<Longrightarrow> sorted (map fst vs)"
proof (induction vs rule: rev_induct)
  case (snoc v vs)
  obtain a b n where v: "v = (a, b, n)" by (cases v)
  have "x \<le> a" if "x \<in> fst ` set vs" for x
  proof -
    obtain y k where "(x, y, k) \<in> set vs" using \<open>x \<in> fst ` set vs\<close> by force
    then show ?thesis using snoc.prems clock_readings_set [of x y k vs] by (simp add: v clock_readings_snoc sorted_append)
  qed
  then show ?case using snoc by (simp add: v clock_readings_snoc sorted_append)
qed simp

lemma monotone_snoc:
  assumes "monotone_clock (vs @ [(a, b, n)])"
  shows "monotone_clock vs" and "a \<le> b" and "vs \<noteq> [] \<Longrightarrow> fst (snd (last vs)) \<le> a"
    and "sorted (map fst vs @ [a])"
proof -
  have s: "sorted (clock_readings vs @ [a, b])"
    using assms by (simp add: monotone_clock_def flip: clock_readings_def clock_readings_snoc)
  then show "monotone_clock vs" "a \<le> b" by (simp_all add: monotone_clock_def sorted_append flip: clock_readings_def)
  show "fst (snd (last vs)) \<le> a" if "vs \<noteq> []"
    using s clock_readings_set [of "fst (last vs)" "fst (snd (last vs))" "snd (snd (last vs))" vs] last_in_set [OF that]
    by (simp add: sorted_append)
  show "sorted (map fst vs @ [a])"
    using sorted_times [of "vs @ [(a, b, n)]"] s by (simp add: clock_readings_snoc)
qed

lemma window_snoc:
  assumes "monotone_clock (vs @ [(a, b, n)])"
  shows "dropWhile (expired b) (window_of vs @ [(a, of_nat n)]) = window_of (vs @ [(a, b, n)])"
proof -
  let ?es = "map (\<lambda>(a, _, n). (a, of_nat n)) :: (nat \<times> nat \<times> nat) list \<Rightarrow> (nat \<times> u64) list"
  note mono = monotone_snoc [OF assms]
  have "map fst (?es vs) = map fst vs" by (induction vs) auto
  then have "sorted (map fst (?es vs @ [(a, of_nat n)]))" using mono(4) by (simp del: map_map)
  then have "sorted (map fst (window_of vs @ [(a, of_nat n)]))"
    by (auto simp: window_of_def sorted_append intro: sorted_filter)
  moreover have "filter (\<lambda>e. \<not> expired b e) (window_of vs) = filter (\<lambda>e. \<not> expired b e) (?es vs)"
    using mono(2,3) by (auto simp: window_of_def expired_def intro!: filter_cong)
  ultimately show ?thesis by (simp add: dropWhile_expired window_of_def)
qed

section \<open>Sorting samples\<close>

lemma insert_by_mset: "mset (insert_by le x ys) = add_mset x (mset ys)"
  by (induction ys) auto

lemma insert_by_set [simp]: "set (insert_by le x ys) = insert x (set ys)"
  by (induction ys) auto

lemma insert_by_sorted:
  assumes "reflp_on S le" and "totalp_on S le" and "transp_on S le"
  shows "x \<in> S \<Longrightarrow> set ys \<subseteq> S \<Longrightarrow> sorted_wrt le ys \<Longrightarrow> sorted_wrt le (insert_by le x ys)"
proof (induction ys)
  case (Cons y ys)
  have S: "y \<in> S" "set ys \<subseteq> S" using Cons.prems by simp_all
  have "le x y \<or> le y x"
    using assms(1,2) Cons.prems(1) S(1) by (cases "x = y") (auto dest: reflp_onD totalp_onD)
  moreover have "le x z" if "le x y" "z \<in> set ys" for z
    using transp_onD [OF assms(3), of x y z] Cons.prems S that by auto
  ultimately show ?case using Cons S by auto
qed simp

lemma sort_by_ok:
  assumes "reflp_on S le" and "totalp_on S le" and "transp_on S le"
  shows "set xs \<subseteq> S \<Longrightarrow> mset (foldr (insert_by le) xs []) = mset xs \<and> sorted_wrt le (foldr (insert_by le) xs [])"
proof (induction xs)
  case (Cons x xs)
  moreover have "set (foldr (insert_by le) xs []) = set xs" by (induction xs) simp_all
  ultimately show ?case by (simp add: insert_by_mset insert_by_sorted [OF assms])
qed simp

lemma sorted_at:
  assumes "reflp_on S le" and "set xs \<subseteq> S" and "sorted_wrt le xs" and "i \<le> j" and "j < length xs"
  shows "le (xs ! i) (xs ! j)"
  using assms sorted_wrt_nth_less [OF assms(3), of i j] by (cases "i = j") (auto dest!: nth_mem reflp_onD)

section \<open>Properties\<close>

text \<open>
  \<^bold>\<open>The collector records its history\<close>. Whatever the sequence of recorded events, as long as the clock does
  not go back: the window of transaction counts holds exactly the vertices not older than ten seconds at
  the last vertex, the latency windows the last \<open>window_size\<close> latencies (one, if the size is zero),
  and the totals are the numbers and sums of everything recorded, modulo two to the 64.
\<close>

theorem metrics_history_exact:
  assumes "monotone_clock (vertex_events es)"
  shows "mc_tx_window (collected n es) = window_of (vertex_events es)
    \<and> mc_confirmation_latencies (collected n es) = last_n (max n 1) (confirmations es)
    \<and> mc_finality_latencies (collected n es) = last_n (max n 1) (finalities es)
    \<and> mc_accumulated (collected n es) =
        \<lparr>ac_vertices_processed = of_nat (length (vertex_events es)),
         ac_transactions_processed = of_nat (sum_list (map (\<lambda>(_, _, k). k) (vertex_events es))),
         ac_total_confirmation_latency = sum_list (confirmations es), ac_total_finality_latency = sum_list (finalities es),
         ac_confirmation_count = of_nat (length (confirmations es)), ac_finality_count = of_nat (length (finalities es))\<rparr>"
  using assms
proof (induction es rule: rev_induct)
  case Nil
  show ?case
    by (simp add: collected_def MetricsCollector_new_def AccumulatedMetrics_default_def vertex_events_def
        confirmations_def finalities_def window_of_def last_n_def List.map_filter_def)
next
  case (snoc e es)
  show ?case
  proof (cases e)
    case (EvVertex a b k)
    then have clock: "monotone_clock (vertex_events es @ [(a, b, k)])" using snoc.prems by (simp add: events_snoc)
    show ?thesis
      using snoc.IH [OF monotone_snoc(1) [OF clock]] window_snoc [OF clock] EvVertex
      by (simp add: collected_snoc events_snoc record_defs add.commute)
  qed (use snoc in \<open>simp_all add: collected_snoc events_snoc record_defs push_last_n [simplified] add.commute\<close>)
qed

text \<open>
  \<^bold>\<open>Percentiles are ordered samples\<close>. If the samples compare as numbers do (no value that is not a number), the
  percentiles of a non-empty history are returned, each is a recorded sample, and they ascend; with two
  or more samples of which one does not compare with itself the call panics.
\<close>

theorem tps_percentiles_ordered:
  fixes fl :: "'f metric_f64"
  assumes "ta_tps_history t \<noteq> []"
    and "reflp_on (snd ` set (ta_tps_history t)) (not_greater fl)"
    and "totalp_on (snd ` set (ta_tps_history t)) (not_greater fl)"
    and "transp_on (snd ` set (ta_tps_history t)) (not_greater fl)"
  shows "\<exists>p. tps_percentiles fl t = Ret p \<and> {tp_p50 p, tp_p90 p, tp_p95 p, tp_p99 p} \<subseteq> snd ` set (ta_tps_history t)
    \<and> not_greater fl (tp_p50 p) (tp_p90 p) \<and> not_greater fl (tp_p90 p) (tp_p95 p) \<and> not_greater fl (tp_p95 p) (tp_p99 p)"
proof -
  let ?xs = "map snd (ta_tps_history t)"
  let ?ys = "foldr (insert_by (not_greater fl)) ?xs []"
  have ys: "mset ?ys = mset ?xs" "sorted_wrt (not_greater fl) ?ys"
    using sort_by_ok [OF assms(2-4), of ?xs] by simp_all
  have len: "length ?ys = length ?xs" and set_ys: "set ?ys = snd ` set (ta_tps_history t)"
    using ys(1) by (metis size_mset, metis set_mset_mset set_map)
  have pos: "0 < length ?xs" using assms(1) by simp
  have "list_ex (\<lambda>x. f_partial_cmp fl x x = None) ?xs = False"
    using assms(2) by (auto simp: list_ex_iff reflp_on_def not_greater_def)
  then have sorted: "sort_by_partial fl ?xs = Ret ?ys"
    by (simp add: sort_by_partial_def)
  have idx: "length ?ys div 2 < length ?ys" "length ?ys * 90 div 100 < length ?ys"
    "length ?ys * 95 div 100 < length ?ys" "length ?ys * 99 div 100 < length ?ys" using pos len by linarith+
  have le: "not_greater fl (?ys ! i) (?ys ! j)" if "i \<le> j" "j < length ?ys" for i j
    using sorted_at [OF assms(2) _ ys(2) that] set_ys by simp
  have "length ?ys div 2 \<le> length ?ys * 90 div 100" "length ?ys * 90 div 100 \<le> length ?ys * 95 div 100"
    "length ?ys * 95 div 100 \<le> length ?ys * 99 div 100" by linarith+
  moreover have "?ys ! i \<in> snd ` set (ta_tps_history t)" if "i < length ?ys" for i
    using nth_mem [OF that] set_ys by simp
  ultimately show ?thesis
    using assms(1) sorted idx le by (simp add: tps_percentiles_def Let_def del: mult_ac)
qed

section \<open>Witnesses\<close>

definition demo_events :: "metric_event list" where
  "demo_events = [EvVertex 5 6 10, EvConfirmed 100, EvVertex 10000000005 10000000006 20, EvFinality 500,
     EvConfirmed 40, EvVertex 10000000006 10000000006 3]"

theorem metrics_history_exact_witness:
  "mc_tx_window (collected 1 demo_events) = [(10000000005, 20), (10000000006, 3)]
   \<and> mc_confirmation_latencies (collected 1 demo_events) = [40]
   \<and> ac_transactions_processed (mc_accumulated (collected 1 demo_events)) = 33"
proof -
  have ev: "vertex_events demo_events = [(5, 6, 10), (10000000005, 10000000006, 20), (10000000006, 10000000006, 3)]"
    "confirmations demo_events = [100, 40]"
    by (simp_all add: demo_events_def vertex_events_def confirmations_def List.map_filter_def)
  then have "monotone_clock (vertex_events demo_events)" by (simp add: monotone_clock_def)
  from metrics_history_exact [OF this, of 1] ev show ?thesis
    by (simp add: window_of_def expired_def last_n_def)
qed

definition demo_floats :: "int metric_f64" where
  "demo_floats = \<lparr>f_zero = 0, f_neg_infinity = -1000, f_of_u64 = uint, f_of_u128 = uint, f_add = (+), f_sub = (-),
     f_mul = (*), f_div = (div), f_max = max, f_exp = (\<lambda>x. x), f_ln = (\<lambda>x. x), f_ge = (\<ge>), f_eq = (=),
     f_partial_cmp = (\<lambda>x y. Some (if x < y then Less else if x = y then Equal else Greater)), f_as_secs = int\<rparr>"

lemma demo_not_greater: "not_greater demo_floats = (\<le>)"
  by (intro ext) (auto simp: not_greater_def demo_floats_def)

theorem tps_percentiles_ordered_witness:
  "\<exists>p. tps_percentiles demo_floats ((ThroughputAnalyzer_new 1 3)\<lparr>ta_tps_history := [(1, 7), (2, 3), (3, 9)]\<rparr>) = Ret p
     \<and> tp_p50 p \<le> tp_p90 p \<and> tp_p90 p \<le> tp_p95 p"
  using tps_percentiles_ordered [of "(ThroughputAnalyzer_new 1 3)\<lparr>ta_tps_history := [(1, 7), (2, 3), (3, 9)]\<rparr>" demo_floats]
  by (auto simp: demo_not_greater)

end
