(* ===== verification/Iso_Validators.thy ===== *)
theory Iso_Validators
  imports Rust_Text
begin

text \<open>
  Currencies and financial identifiers of the crate \<^verbatim>\<open>nexus-iso\<close>:
  \<^verbatim>\<open>src/crates/nexus-iso/src/currency.rs\<close> and \<^verbatim>\<open>src/crates/nexus-iso/src/validators.rs\<close>. The regular
  expression engine is the parameter \<open>rx\<close>, which takes a pattern and a text; \<open>regex_ok\<close> states what it
  answers for the three patterns of the code. Floating-point numbers are the parameter \<open>money_ops\<close>.
  The lemmas relate the checksums, computed over chunks of decimal text, to arithmetic modulo 97 and
  to Luhn's sum.
\<close>

section \<open>Errors\<close>

datatype IsoError =
    XmlParseError string
  | InvalidFormat string
  | MissingField string
  | IsoValidationFailed string
  | UnknownMessageType string
  | EncodingError string
  | RoutingFailed string
  | ComplianceFailed string

type_synonym 'a IsoResult = "IsoError + 'a"

section \<open>Currencies\<close>

record Currency =
  cur_code :: string
  cur_numeric :: string
  cur_decimals :: nat
  cur_name :: string

definition mk_currency :: "string \<Rightarrow> string \<Rightarrow> nat \<Rightarrow> string \<Rightarrow> Currency" where
  "mk_currency c n d t = \<lparr>cur_code = c, cur_numeric = n, cur_decimals = d, cur_name = t\<rparr>"

definition CURRENCIES :: "Currency list" where
  "CURRENCIES = [
     mk_currency ''AED'' ''784'' 2 ''UAE Dirham'',
     mk_currency ''AUD'' ''036'' 2 ''Australian Dollar'',
     mk_currency ''BRL'' ''986'' 2 ''Brazilian Real'',
     mk_currency ''CAD'' ''124'' 2 ''Canadian Dollar'',
     mk_currency ''CHF'' ''756'' 2 ''Swiss Franc'',
     mk_currency ''CNY'' ''156'' 2 ''Chinese Yuan'',
     mk_currency ''EUR'' ''978'' 2 ''Euro'',
     mk_currency ''GBP'' ''826'' 2 ''British Pound'',
     mk_currency ''HKD'' ''344'' 2 ''Hong Kong Dollar'',
     mk_currency ''INR'' ''356'' 2 ''Indian Rupee'',
     mk_currency ''JPY'' ''392'' 0 ''Japanese Yen'',
     mk_currency ''KRW'' ''410'' 0 ''South Korean Won'',
     mk_currency ''MXN'' ''484'' 2 ''Mexican Peso'',
     mk_currency ''NOK'' ''578'' 2 ''Norwegian Krone'',
     mk_currency ''NZD'' ''554'' 2 ''New Zealand Dollar'',
     mk_currency ''PLN'' ''985'' 2 ''Polish Zloty'',
     mk_currency ''RUB'' ''643'' 2 ''Russian Ruble'',
     mk_currency ''SEK'' ''752'' 2 ''Swedish Krona'',
     mk_currency ''SGD'' ''702'' 2 ''Singapore Dollar'',
     mk_currency ''THB'' ''764'' 2 ''Thai Baht'',
     mk_currency ''TRY'' ''949'' 2 ''Turkish Lira'',
     mk_currency ''USD'' ''840'' 2 ''US Dollar'',
     mk_currency ''ZAR'' ''710'' 2 ''South African Rand'',
     mk_currency ''XBT'' ''000'' 8 ''Bitcoin'',
     mk_currency ''XET'' ''000'' 18 ''Ethereum'']"

definition get_currency :: "string \<Rightarrow> Currency option" where
  "get_currency code = map_of (map (\<lambda>c. (cur_code c, c)) CURRENCIES) (to_uppercase code)"

text \<open>The values are visited in the order \<open>table\<close> of the hash map.\<close>

definition get_currency_by_numeric :: "Currency list \<Rightarrow> string \<Rightarrow> Currency option" where
  "get_currency_by_numeric table numeric = find (\<lambda>c. cur_numeric c = numeric) table"

definition is_valid_currency :: "string \<Rightarrow> bool" where
  "is_valid_currency code \<longleftrightarrow> get_currency code \<noteq> None"

record 'f money_ops =
  mo_of_i64 :: "64 word \<Rightarrow> 'f"
  mo_ten_powi :: "nat \<Rightarrow> 'f"
  mo_div :: "'f \<Rightarrow> 'f \<Rightarrow> 'f"
  mo_mul :: "'f \<Rightarrow> 'f \<Rightarrow> 'f"
  mo_round_i64 :: "'f \<Rightarrow> 64 word"
  mo_format :: "nat \<Rightarrow> 'f \<Rightarrow> string"

definition minor_to_major :: "'f money_ops \<Rightarrow> 64 word \<Rightarrow> string \<Rightarrow> 'f option" where
  "minor_to_major mo amount currency =
     map_option (\<lambda>c. mo_div mo (mo_of_i64 mo amount) (mo_ten_powi mo (cur_decimals c))) (get_currency currency)"

definition major_to_minor :: "'f money_ops \<Rightarrow> 'f \<Rightarrow> string \<Rightarrow> 64 word option" where
  "major_to_minor mo amount currency =
     map_option (\<lambda>c. mo_round_i64 mo (mo_mul mo amount (mo_ten_powi mo (cur_decimals c)))) (get_currency currency)"

definition format_amount :: "'f money_ops \<Rightarrow> 64 word \<Rightarrow> string \<Rightarrow> string option" where
  "format_amount mo amount currency =
     map_option (\<lambda>c. let major = mo_div mo (mo_of_i64 mo amount) (mo_ten_powi mo (cur_decimals c))
                     in mo_format mo (cur_decimals c) major @ '' '' @ cur_code c) (get_currency currency)"

section \<open>Patterns\<close>

definition IBAN_REGEX :: string where
  "IBAN_REGEX = ''^[A-Z]{2}[0-9]{2}[A-Z0-9]{4}[0-9]{7}([A-Z0-9]?){0,16}$''"

definition BIC_REGEX :: string where
  "BIC_REGEX = ''^[A-Z]{4}[A-Z]{2}[A-Z0-9]{2}([A-Z0-9]{3})?$''"

definition LEI_REGEX :: string where
  "LEI_REGEX = ''^[A-Z0-9]{4}00[A-Z0-9]{12}[0-9]{2}$''"

definition is_alnum :: "char \<Rightarrow> bool" where
  "is_alnum c \<longleftrightarrow> is_ascii_upper c \<or> is_ascii_digit c"

text \<open>What the patterns mean: \<open>slice a n s\<close> are the \<open>n\<close> characters from position \<open>a\<close>.\<close>

definition slice :: "nat \<Rightarrow> nat \<Rightarrow> 'a list \<Rightarrow> 'a list" where
  "slice a n s = take n (drop a s)"

definition iban_shape :: "string \<Rightarrow> bool" where
  "iban_shape s \<longleftrightarrow> 15 \<le> length s \<and> length s \<le> 31 \<and> list_all is_ascii_upper (take 2 s)
     \<and> list_all is_ascii_digit (slice 2 2 s) \<and> list_all is_alnum (slice 4 4 s)
     \<and> list_all is_ascii_digit (slice 8 7 s) \<and> list_all is_alnum (drop 15 s)"

definition bic_shape :: "string \<Rightarrow> bool" where
  "bic_shape s \<longleftrightarrow> (length s = 8 \<or> length s = 11) \<and> list_all is_ascii_upper (take 6 s)
     \<and> list_all is_alnum (drop 6 s)"

definition lei_shape :: "string \<Rightarrow> bool" where
  "lei_shape s \<longleftrightarrow> length s = 20 \<and> list_all is_alnum (take 4 s) \<and> slice 4 2 s = ''00''
     \<and> list_all is_alnum (slice 6 12 s) \<and> list_all is_ascii_digit (drop 18 s)"

definition regex_ok :: "(string \<Rightarrow> string \<Rightarrow> bool) \<Rightarrow> bool" where
  "regex_ok rx \<longleftrightarrow> rx IBAN_REGEX = iban_shape \<and> rx BIC_REGEX = bic_shape \<and> rx LEI_REGEX = lei_shape"

section \<open>Checksums\<close>

fun chunks :: "nat \<Rightarrow> 'a list \<Rightarrow> 'a list list" where
  "chunks n [] = []"
| "chunks 0 xs = [xs]"
| "chunks (Suc n) (x # xs) = (x # take n xs) # chunks (Suc n) (drop n xs)"

text \<open>A letter becomes the two digits of its number, \<open>A = 10\<close>; the subtraction is on bytes.\<close>

definition letter_digits :: "char \<Rightarrow> string" where
  "letter_digits c =
     (if is_ascii_digit c then [c] else dec_digits (unat (of_nat (of_char c) - 65 + 10 :: u8)))"

fun mod97_loop :: "u64 \<Rightarrow> string list \<Rightarrow> u64 run" where
  "mod97_loop remainder [] = Ret remainder"
| "mod97_loop remainder (s # rest) =
     (case parse_uint (2 ^ 64) (dec_digits (unat remainder) @ s) of None \<Rightarrow> Panic
      | Some num \<Rightarrow> mod97_loop (of_nat num mod 97) rest)"

definition mod97 :: "string \<Rightarrow> u64 run" where
  "mod97 s = mod97_loop 0 (chunks 7 (concat (map letter_digits s)))"

section \<open>Validators\<close>

definition country_lengths :: "(string \<times> nat) list" where
  "country_lengths = [
     (''AD'', 24), (''AE'', 23), (''AL'', 28), (''AT'', 20), (''AZ'', 28), (''BA'', 20),
     (''BE'', 16), (''BG'', 22), (''BH'', 22), (''BI'', 27), (''BR'', 29), (''BY'', 28),
     (''CH'', 21), (''CR'', 22), (''CY'', 28), (''CZ'', 24), (''DE'', 22), (''DJ'', 27),
     (''DK'', 18), (''DO'', 28), (''EE'', 20), (''EG'', 29), (''ES'', 24), (''FI'', 18),
     (''FK'', 18), (''FO'', 18), (''FR'', 27), (''GB'', 22), (''GE'', 22), (''GI'', 23),
     (''GL'', 18), (''GR'', 27), (''GT'', 28), (''HR'', 21), (''HU'', 28), (''IE'', 22),
     (''IL'', 23), (''IQ'', 23), (''IS'', 26), (''IT'', 27), (''JO'', 30), (''KW'', 30),
     (''KZ'', 20), (''LB'', 28), (''LC'', 32), (''LI'', 21), (''LT'', 20), (''LU'', 20),
     (''LV'', 21), (''LY'', 25), (''MC'', 27), (''MD'', 24), (''ME'', 22), (''MK'', 19),
     (''MN'', 20), (''MR'', 27), (''MT'', 31), (''MU'', 30), (''NI'', 32), (''NL'', 18),
     (''NO'', 15), (''OM'', 23), (''PK'', 24), (''PL'', 28), (''PS'', 29), (''PT'', 25),
     (''QA'', 29), (''RO'', 24), (''RS'', 22), (''RU'', 33), (''SA'', 24), (''SC'', 31),
     (''SD'', 18), (''SE'', 24), (''SI'', 19), (''SK'', 24), (''SM'', 27), (''SO'', 23),
     (''ST'', 25), (''SV'', 28), (''TL'', 23), (''TN'', 24), (''TR'', 26), (''UA'', 29),
     (''VA'', 22), (''VG'', 24), (''XK'', 20)]"

text \<open>The last step of \<open>validate_iban\<close>, on the first four characters moved to the end.\<close>

definition iban_checksum :: "string \<Rightarrow> unit IsoResult run" where
  "iban_checksum iban =
     run_map (\<lambda>r. if r \<noteq> 1 then Inl (IsoValidationFailed ''Invalid IBAN checksum'') else Inr ())
       (mod97 (drop 4 iban @ take 4 iban))"

definition clean_iban :: "string \<Rightarrow> string" where
  "clean_iban s = to_uppercase (filter (\<lambda>c. c \<noteq> CHR '' '' \<and> c \<noteq> CHR ''-'') s)"

definition validate_iban :: "(string \<Rightarrow> string \<Rightarrow> bool) \<Rightarrow> string \<Rightarrow> unit IsoResult run" where
  "validate_iban rx s =
     (let iban = clean_iban s
      in if \<not> rx IBAN_REGEX iban then Ret (Inl (IsoValidationFailed ''Invalid IBAN format''))
         else if length iban < 4 then Panic
         else let country = take 2 iban
              in case map_of country_lengths country of
                   Some expected_len \<Rightarrow>
                     if length iban \<noteq> expected_len
                     then Ret (Inl (IsoValidationFailed (''IBAN length mismatch for '' @ country
                            @ '': expected '' @ dec_digits expected_len @ '', got '' @ dec_digits (length iban))))
                     else iban_checksum iban
                 | None \<Rightarrow> iban_checksum iban)"

definition is_valid_country_code :: "string \<Rightarrow> bool" where
  "is_valid_country_code code \<longleftrightarrow> code \<in> set [
     ''AD'', ''AE'', ''AF'', ''AG'', ''AL'', ''AM'', ''AO'', ''AR'', ''AT'', ''AU'', ''AZ'', ''BA'',
     ''BB'', ''BD'', ''BE'', ''BF'', ''BG'', ''BH'', ''BI'', ''BJ'', ''BM'', ''BN'', ''BO'', ''BR'',
     ''BS'', ''BT'', ''BW'', ''BY'', ''BZ'', ''CA'', ''CD'', ''CF'', ''CG'', ''CH'', ''CI'', ''CL'',
     ''CM'', ''CN'', ''CO'', ''CR'', ''CU'', ''CV'', ''CY'', ''CZ'', ''DE'', ''DJ'', ''DK'', ''DM'',
     ''DO'', ''DZ'', ''EC'', ''EE'', ''EG'', ''ER'', ''ES'', ''ET'', ''FI'', ''FJ'', ''FR'', ''GA'',
     ''GB'', ''GD'', ''GE'', ''GH'', ''GM'', ''GN'', ''GQ'', ''GR'', ''GT'', ''GW'', ''GY'', ''HK'',
     ''HN'', ''HR'', ''HT'', ''HU'', ''ID'', ''IE'', ''IL'', ''IN'', ''IQ'', ''IR'', ''IS'', ''IT'',
     ''JM'', ''JO'', ''JP'', ''KE'', ''KG'', ''KH'', ''KI'', ''KM'', ''KN'', ''KP'', ''KR'', ''KW'',
     ''KZ'', ''LA'', ''LB'', ''LC'', ''LI'', ''LK'', ''LR'', ''LS'', ''LT'', ''LU'', ''LV'', ''LY'',
     ''MA'', ''MC'', ''MD'', ''ME'', ''MG'', ''MK'', ''ML'', ''MM'', ''MN'', ''MO'', ''MR'', ''MT'',
     ''MU'', ''MV'', ''MW'', ''MX'', ''MY'', ''MZ'', ''NA'', ''NE'', ''NG'', ''NI'', ''NL'', ''NO'',
     ''NP'', ''NR'', ''NZ'', ''OM'', ''PA'', ''PE'', ''PG'', ''PH'', ''PK'', ''PL'', ''PT'', ''PW'',
     ''PY'', ''QA'', ''RO'', ''RS'', ''RU'', ''RW'', ''SA'', ''SB'', ''SC'', ''SD'', ''SE'', ''SG'',
     ''SI'', ''SK'', ''SL'', ''SM'', ''SN'', ''SO'', ''SR'', ''SS'', ''ST'', ''SV'', ''SY'', ''SZ'',
     ''TD'', ''TG'', ''TH'', ''TJ'', ''TL'', ''TM'', ''TN'', ''TO'', ''TR'', ''TT'', ''TV'', ''TW'',
     ''TZ'', ''UA'', ''UG'', ''US'', ''UY'', ''UZ'', ''VA'', ''VC'', ''VE'', ''VN'', ''VU'', ''WS'',
     ''XK'', ''YE'', ''ZA'', ''ZM'', ''ZW'']"

definition validate_bic :: "(string \<Rightarrow> string \<Rightarrow> bool) \<Rightarrow> string \<Rightarrow> unit IsoResult run" where
  "validate_bic rx s =
     (let bic = to_uppercase s
      in if \<not> rx BIC_REGEX bic then Ret (Inl (IsoValidationFailed ''Invalid BIC format''))
         else if length bic < 6 then Panic
         else let country = slice 4 2 bic
              in if \<not> is_valid_country_code country
                 then Ret (Inl (IsoValidationFailed (''Invalid country code in BIC: '' @ country)))
                 else Ret (Inr ()))"

definition validate_lei :: "(string \<Rightarrow> string \<Rightarrow> bool) \<Rightarrow> string \<Rightarrow> unit IsoResult run" where
  "validate_lei rx s =
     (let lei = to_uppercase s
      in if length lei \<noteq> 20
         then Ret (Inl (IsoValidationFailed (''LEI must be 20 characters, got '' @ dec_digits (length lei))))
         else if \<not> rx LEI_REGEX lei then Ret (Inl (IsoValidationFailed ''Invalid LEI format''))
         else run_map (\<lambda>r. if r \<noteq> 1 then Inl (IsoValidationFailed ''Invalid LEI checksum'') else Inr ()) (mod97 lei))"

text \<open>Luhn's sum over the reversed digits.\<close>

fun luhn_loop :: "bool \<Rightarrow> u32 \<Rightarrow> string \<Rightarrow> u32" where
  "luhn_loop dbl acc [] = acc"
| "luhn_loop dbl acc (c # cs) =
     (let digit = of_nat (digit_of c);
          digit = (if dbl then if digit * 2 > 9 then digit * 2 - 9 else digit * 2 else digit)
      in luhn_loop (\<not> dbl) (acc + digit) cs)"

definition validate_card_number :: "string \<Rightarrow> unit IsoResult" where
  "validate_card_number s =
     (let card = filter is_ascii_digit s
      in if length card < 13 \<or> length card > 19
         then Inl (IsoValidationFailed (''Card number must be 13-19 digits, got '' @ dec_digits (length card)))
         else if luhn_loop False 0 (rev card) mod 10 \<noteq> 0
         then Inl (IsoValidationFailed ''Invalid card number checksum'')
         else Inr ())"

definition get_card_network :: "string \<Rightarrow> string option" where
  "get_card_network s =
     (let card = filter is_ascii_digit s; num = (\<lambda>n. parse_uint (2 ^ 32) (take n card))
      in if length card < 6 then None
         else case (num 2, num 4, num 6) of
                (Some prefix2, Some prefix4, Some _) \<Rightarrow>
                  if starts_with card ''4'' then Some ''Visa''
                  else if 51 \<le> prefix2 \<and> prefix2 \<le> 55 \<or> 2221 \<le> prefix4 \<and> prefix4 \<le> 2720 then Some ''Mastercard''
                  else if prefix2 = 34 \<or> prefix2 = 37 then Some ''American Express''
                  else if prefix4 = 6011 \<or> prefix2 = 65 then Some ''Discover''
                  else (case num 3 of None \<Rightarrow> None
                        | Some prefix3 \<Rightarrow>
                          if 644 \<le> prefix3 \<and> prefix3 \<le> 649 then Some ''Discover''
                          else if 3528 \<le> prefix4 \<and> prefix4 \<le> 3589 then Some ''JCB''
                          else if 300 \<le> prefix3 \<and> prefix3 \<le> 305 \<or> prefix2 = 36 \<or> prefix2 = 38 then Some ''Diners Club''
                          else if prefix2 = 62 then Some ''UnionPay''
                          else None)
              | _ \<Rightarrow> None)"

definition IdentifierValidator_validate ::
    "(string \<Rightarrow> string \<Rightarrow> bool) \<Rightarrow> string \<Rightarrow> string \<Rightarrow> unit IsoResult run" where
  "IdentifierValidator_validate rx ty v =
     (let t = to_uppercase ty
      in if t = ''IBAN'' then validate_iban rx v
         else if t = ''BIC'' \<or> t = ''SWIFT'' then validate_bic rx v
         else if t = ''LEI'' then validate_lei rx v
         else if t = ''PAN'' \<or> t = ''CARD'' then Ret (validate_card_number v)
         else Ret (Inl (UnknownMessageType (''Unknown identifier type: '' @ ty))))"

section \<open>Lemmas: arithmetic modulo 97\<close>

lemma concat_chunks: "concat (chunks (Suc n) xs) = xs"
proof (induction "Suc n" xs arbitrary: n rule: chunks.induct)
  case (3 n x xs)
  then show ?case by (metis append_Cons append_take_drop_id chunks.simps(3) concat.simps(2))
qed simp

lemma chunks_length: "c \<in> set (chunks (Suc n) xs) \<Longrightarrow> c \<noteq> [] \<and> length c \<le> Suc n"
proof (induction "Suc n" xs arbitrary: n rule: chunks.induct)
  case (3 n x xs)
  then show ?case by auto
qed simp

lemma chunks_subset: "c \<in> set (chunks (Suc n) xs) \<Longrightarrow> set c \<subseteq> set xs"
  by (metis concat_chunks set_concat UN_upper)

text \<open>The number a text of digits and capital letters stands for, one or two decimals a character.\<close>

definition alnum_val :: "char \<Rightarrow> nat" where
  "alnum_val c = (if is_ascii_digit c then digit_of c else of_char c - 55)"

definition decimal :: "string \<Rightarrow> nat" where
  "decimal s = dec_val (concat (map letter_digits s))"

lemma upper_not_digit [simp]: "is_ascii_upper c \<Longrightarrow> \<not> is_ascii_digit c"
  by (simp add: is_ascii_upper_def is_ascii_digit_def)

lemma letter_digits_upper:
  assumes "is_ascii_upper c"
  shows "letter_digits c = dec_digits (alnum_val c)" "10 \<le> alnum_val c" "alnum_val c \<le> 35"
proof -
  let ?n = "of_char c :: nat"
  have n: "65 \<le> ?n" "?n \<le> 90" using assms by (simp_all add: is_ascii_upper_def)
  define k where "k = ?n - 55"
  then have k: "?n = 55 + k" "k \<le> 35" using n by simp_all
  then have "of_nat ?n - 65 + 10 = (of_nat k :: u8)" by simp
  moreover have "unat (of_nat k :: u8) = k" using k(2) by (simp add: unat_of_nat)
  ultimately have "unat (of_nat ?n - 65 + 10 :: u8) = ?n - 55" using k(1) by simp
  then show "letter_digits c = dec_digits (alnum_val c)"
    using assms by (simp add: letter_digits_def alnum_val_def)
  show "10 \<le> alnum_val c" "alnum_val c \<le> 35" using n assms by (simp_all add: alnum_val_def)
qed

lemma letter_digits_alnum:
  assumes "is_alnum c"
  shows "list_all is_ascii_digit (letter_digits c)" "dec_val (letter_digits c) = alnum_val c"
    "letter_digits c \<noteq> []"
proof -
  consider "is_ascii_digit c" | "is_ascii_upper c" using assms by (auto simp: is_alnum_def)
  then show "list_all is_ascii_digit (letter_digits c)" "dec_val (letter_digits c) = alnum_val c" "letter_digits c \<noteq> []"
    by (cases; simp add: letter_digits_upper(1); simp add: letter_digits_def alnum_val_def dec_val_def)+
qed

lemma concat_letter_digits: "list_all is_alnum s \<Longrightarrow> list_all is_ascii_digit (concat (map letter_digits s))"
  using letter_digits_alnum(1) by (fastforce simp: list_all_iff)

lemma mod97_loop_val:
  assumes "unat r < 97" and "\<forall>c \<in> set cs. c \<noteq> [] \<and> length c \<le> 7 \<and> list_all is_ascii_digit c"
  shows "mod97_loop r cs = Ret (of_nat ((unat r * 10 ^ length (concat cs) + dec_val (concat cs)) mod 97))"
  using assms
proof (induction cs arbitrary: r)
  case Nil
  then show ?case by simp
next
  case (Cons c cs)
  let ?n = "unat r * 10 ^ length c + dec_val c"
  have c: "length c \<le> 7" "list_all is_ascii_digit c" using Cons.prems by auto
  have val: "dec_val (dec_digits (unat r) @ c) = ?n" by (simp add: dec_val_append)
  have "(10 :: nat) ^ length c \<le> 10 ^ 7" using c(1) by (intro power_increasing) auto
  then have "unat r * 10 ^ length c \<le> 97 * 10 ^ 7" "dec_val c < 10 ^ 7"
    using Cons.prems(1) dec_val_bound [OF c(2)] mult_le_mono [of "unat r" 97 "10 ^ length c" "10 ^ 7"] by simp_all
  then have n: "?n < 2 ^ 64" by simp
  then have p: "parse_uint (2 ^ 64) (dec_digits (unat r) @ c) = Some ?n"
    using parse_uint_digits [of "dec_digits (unat r) @ c" "2 ^ 64"] c(2) by (simp add: val)
  have "unat (of_nat m mod 97 :: u64) = m mod 97" if "m < 2 ^ 64" for m
    using that by (simp add: unat_mod unat_of_nat)
  from this [OF n] have "mod97_loop r (c # cs)
      = Ret (of_nat ((?n mod 97 * 10 ^ length (concat cs) + dec_val (concat cs)) mod 97))"
    using p Cons.IH [of "of_nat ?n mod 97"] Cons.prems(2) by (simp del: of_nat_add of_nat_mult)
  moreover have "(?n mod 97 * 10 ^ length (concat cs) + dec_val (concat cs)) mod 97
      = (?n * 10 ^ length (concat cs) + dec_val (concat cs)) mod 97"
    by (metis mod_add_left_eq mod_mult_left_eq)
  ultimately show ?case by (simp add: dec_val_append algebra_simps power_add)
qed

lemma mod97_val:
  assumes "list_all is_alnum s"
  shows "mod97 s = Ret (of_nat (decimal s mod 97))"
proof -
  let ?ds = "concat (map letter_digits s)"
  have "\<forall>c \<in> set (chunks 7 ?ds). c \<noteq> [] \<and> length c \<le> 7 \<and> list_all is_ascii_digit c"
    using chunks_length [of _ 6 ?ds] chunks_subset [of _ 6 ?ds] concat_letter_digits [OF assms]
    unfolding list_all_iff by (simp del: set_concat) blast
  moreover have "concat (chunks 7 ?ds) = ?ds" using concat_chunks [of 6] by (simp add: eval_nat_numeral)
  ultimately show ?thesis using mod97_loop_val [of 0 "chunks 7 ?ds"] by (simp add: mod97_def decimal_def)
qed

lemma mod97_is_one: "(of_nat (n mod 97) :: u64) = 1 \<longleftrightarrow> n mod 97 = 1"
proof -
  have "n mod 97 < 2 ^ 64" by (rule less_trans [of _ 97]) simp_all
  then have "unat (of_nat (n mod 97) :: u64) = n mod 97" by (simp add: unat_of_nat)
  then show ?thesis by (metis of_nat_1 unat_1)
qed

lemma list_all_cut: "list_all P (take n xs) \<Longrightarrow> list_all P (drop n xs) \<Longrightarrow> list_all P xs"
  by (metis append_take_drop_id list_all_append)

lemma list_all_slice: "list_all P (slice a n xs) \<Longrightarrow> list_all P (drop (a + n) xs) \<Longrightarrow> list_all P (drop a xs)"
  unfolding slice_def by (rule list_all_cut [of _ n]) (simp_all add: add.commute)

lemma list_all_alnum: "list_all is_ascii_digit s \<Longrightarrow> list_all is_alnum s" "list_all is_ascii_upper s \<Longrightarrow> list_all is_alnum s"
  by (simp_all add: list_all_iff is_alnum_def)

lemma iban_shape_alnum: "iban_shape s \<Longrightarrow> list_all is_alnum s"
proof -
  assume s: "iban_shape s"
  then have "list_all is_alnum (drop 8 s)"
    by (intro list_all_slice [of _ 8 7]) (auto simp: iban_shape_def list_all_alnum)
  with s have "list_all is_alnum (drop 4 s)"
    by (intro list_all_slice [of _ 4 4]) (auto simp: iban_shape_def)
  with s have "list_all is_alnum (drop 2 s)"
    by (intro list_all_slice [of _ 2 2]) (auto simp: iban_shape_def list_all_alnum)
  with s list_all_cut [of is_alnum 2 s] show ?thesis by (simp add: iban_shape_def list_all_alnum)
qed

lemma lei_shape_alnum: "lei_shape s \<Longrightarrow> list_all is_alnum s"
proof -
  assume s: "lei_shape s"
  then have "list_all is_alnum (drop 6 s)"
    by (intro list_all_slice [of _ 6 12]) (auto simp: lei_shape_def list_all_alnum)
  moreover have "list_all is_alnum ''00''" by (simp add: is_alnum_def is_ascii_digit_def)
  ultimately have "list_all is_alnum (drop 4 s)" using s
    by (intro list_all_slice [of _ 4 2]) (simp_all add: lei_shape_def)
  with s list_all_cut [of is_alnum 4 s] show ?thesis by (simp add: lei_shape_def)
qed

lemma iban_checksum_val:
  "iban_shape s \<Longrightarrow> iban_checksum s
    = Ret (if decimal (drop 4 s @ take 4 s) mod 97 = 1 then Inr () else Inl (IsoValidationFailed ''Invalid IBAN checksum''))"
proof -
  assume "iban_shape s"
  then have "list_all is_alnum (drop 4 s @ take 4 s)"
    using iban_shape_alnum by (metis append_take_drop_id list_all_append)
  then show ?thesis by (simp add: iban_checksum_def mod97_val mod97_is_one)
qed

text \<open>Which texts are accepted; every other text is an error, and no text makes the code panic.\<close>

definition iban_ok :: "string \<Rightarrow> bool" where
  "iban_ok s \<longleftrightarrow> iban_shape s \<and> (case map_of country_lengths (take 2 s) of Some n \<Rightarrow> length s = n | None \<Rightarrow> True)
     \<and> decimal (drop 4 s @ take 4 s) mod 97 = 1"

lemma validate_iban_val:
  assumes "regex_ok rx"
  shows "\<exists>r. validate_iban rx s = Ret r \<and> (r = Inr () \<longleftrightarrow> iban_ok (clean_iban s))"
proof (cases "iban_shape (clean_iban s)")
  case True
  then have "4 \<le> length (clean_iban s)" by (simp add: iban_shape_def)
  with True assms iban_checksum_val [OF True] show ?thesis
    by (cases "map_of country_lengths (take 2 (clean_iban s))")
      (simp_all add: validate_iban_def regex_ok_def iban_ok_def Let_def)
next
  case False
  with assms show ?thesis by (simp add: validate_iban_def regex_ok_def iban_ok_def)
qed

lemma validate_lei_val:
  assumes "regex_ok rx"
  shows "\<exists>r. validate_lei rx s = Ret r
    \<and> (r = Inr () \<longleftrightarrow> lei_shape (to_uppercase s) \<and> decimal (to_uppercase s) mod 97 = 1)"
proof (cases "lei_shape (to_uppercase s)")
  case True
  then show ?thesis using assms mod97_val [OF lei_shape_alnum [OF True]]
    by (simp add: validate_lei_def regex_ok_def mod97_is_one lei_shape_def)
next
  case False
  with assms show ?thesis by (simp add: validate_lei_def regex_ok_def Let_def)
qed

section \<open>Lemmas: errors in one character\<close>

text \<open>Two characters that can stand for each other without changing the shape of a text.\<close>

definition same_class :: "char \<Rightarrow> char \<Rightarrow> bool" where
  "same_class c d \<longleftrightarrow> is_ascii_digit c \<and> is_ascii_digit d \<or> is_ascii_upper c \<and> is_ascii_upper d"

lemma same_class_alnum: "same_class c d \<Longrightarrow> is_alnum c \<and> is_alnum d"
  by (auto simp: same_class_def is_alnum_def)

lemma same_class_length: "same_class c d \<Longrightarrow> length (letter_digits c) = length (letter_digits d)"
proof -
  have two: "length (dec_digits n) = 2" if "10 \<le> n" "n \<le> 35" for n
    using that by (subst dec_digits.simps, subst dec_digits.simps) (simp add: less_mult_imp_div_less)
  assume "same_class c d"
  then consider "is_ascii_digit c" "is_ascii_digit d" | "is_ascii_upper c" "is_ascii_upper d"
    by (auto simp: same_class_def)
  then show ?thesis
  proof cases
    case 2
    then show ?thesis using two letter_digits_upper by simp
  qed (simp add: letter_digits_def)
qed

lemma same_class_val: "same_class c d \<Longrightarrow> c \<noteq> d \<Longrightarrow> alnum_val c \<noteq> alnum_val d"
proof
  assume "same_class c d" "c \<noteq> d" "alnum_val c = alnum_val d"
  have "x = y" if "48 \<le> x \<and> x \<le> 57 \<and> 48 \<le> y \<and> y \<le> 57 \<or> 65 \<le> x \<and> x \<le> 90 \<and> 65 \<le> y \<and> y \<le> 90"
      "(if 48 \<le> x \<and> x \<le> 57 then x - 48 else x - 55) = (if 48 \<le> y \<and> y \<le> 57 then y - 48 else y - 55)" for x y :: nat
    using that by auto
  from this [of "of_char c" "of_char d"] have "of_char c = (of_char d :: nat)"
    using \<open>same_class c d\<close> \<open>alnum_val c = alnum_val d\<close>
    unfolding same_class_def alnum_val_def digit_of_def is_ascii_digit_def is_ascii_upper_def conj_assoc by blast
  with \<open>c \<noteq> d\<close> show False by simp
qed

lemma same_class_bound: "is_alnum c \<Longrightarrow> alnum_val c \<le> 35"
  using letter_digits_upper(3) [of c]
  by (auto simp: is_alnum_def alnum_val_def digit_of_def is_ascii_digit_def)

lemma decimal_mid:
  "is_alnum c \<Longrightarrow> decimal (xs @ c # ys)
    = decimal xs * 10 ^ (length (letter_digits c) + length (concat (map letter_digits ys)))
      + alnum_val c * 10 ^ length (concat (map letter_digits ys)) + decimal ys"
  by (simp add: decimal_def dec_val_append letter_digits_alnum power_add algebra_simps)

lemma ninety_seven_coprime: "coprime (97 :: int) (10 ^ n)"
proof -
  have "coprime (97 :: int) 10" by code_simp
  then show ?thesis by simp
qed

lemma decimal_differs:
  assumes "same_class c d" and "c \<noteq> d"
  shows "decimal (xs @ c # ys) mod 97 \<noteq> decimal (xs @ d # ys) mod 97"
proof
  let ?p = "10 ^ length (concat (map letter_digits ys)) :: int"
  assume "decimal (xs @ c # ys) mod 97 = decimal (xs @ d # ys) mod 97"
  then have "int (decimal (xs @ c # ys)) mod 97 = int (decimal (xs @ d # ys)) mod 97"
    by (metis of_nat_mod of_nat_numeral)
  then have "97 dvd int (decimal (xs @ c # ys)) - int (decimal (xs @ d # ys))" by (simp add: mod_eq_dvd_iff)
  also have "int (decimal (xs @ c # ys)) - int (decimal (xs @ d # ys)) = (int (alnum_val c) - int (alnum_val d)) * ?p"
    using same_class_alnum [OF assms(1)] same_class_length [OF assms(1)]
    by (simp add: decimal_mid algebra_simps)
  finally have "97 dvd int (alnum_val c) - int (alnum_val d)"
    using ninety_seven_coprime coprime_dvd_mult_left_iff by blast
  moreover have "alnum_val c \<le> 35" "alnum_val d \<le> 35" using same_class_alnum [OF assms(1)] same_class_bound by auto
  ultimately obtain k where "int (alnum_val c) - int (alnum_val d) = 97 * k" "- 1 < k" "k < 1"
    by (auto elim!: dvdE)
  then have "int (alnum_val c) - int (alnum_val d) = 0" by simp
  with same_class_val [OF assms] show False by simp
qed

lemma clean_iban_mid: "is_alnum c \<Longrightarrow> clean_iban (s @ c # t) = clean_iban s @ c # clean_iban t"
  by (auto simp: clean_iban_def to_uppercase_def is_alnum_def is_ascii_upper_def is_ascii_digit_def is_ascii_lower_def)

lemma iban_ok_differs:
  assumes "same_class c d" and "c \<noteq> d" and "iban_ok (a @ c # b)"
  shows "\<not> iban_ok (a @ d # b)"
proof -
  have "\<exists>xs ys. \<forall>e. drop 4 (a @ e # b) @ take 4 (a @ e # b) = xs @ e # ys"
  proof (cases "length a < 4")
    case True
    then have "4 - length a = Suc (3 - length a)" by simp
    then have "drop 4 (a @ e # b) @ take 4 (a @ e # b) = (drop (3 - length a) b @ a) @ e # take (3 - length a) b" for e
      using True by simp
    then show ?thesis by blast
  next
    case False
    then have "4 - length a = 0" by simp
    then have "drop 4 (a @ e # b) @ take 4 (a @ e # b) = drop 4 a @ e # (b @ take 4 a)" for e by simp
    then show ?thesis by blast
  qed
  then show ?thesis using assms decimal_differs [OF assms(1,2)] by (metis iban_ok_def)
qed

text \<open>Luhn's sum on natural numbers.\<close>

definition luhn_digit :: "bool \<Rightarrow> nat \<Rightarrow> nat" where
  "luhn_digit dbl d = (if dbl then if 2 * d > 9 then 2 * d - 9 else 2 * d else d)"

fun luhn_sum :: "bool \<Rightarrow> string \<Rightarrow> nat" where
  "luhn_sum dbl [] = 0"
| "luhn_sum dbl (c # cs) = luhn_digit dbl (digit_of c) + luhn_sum (\<not> dbl) cs"

lemma luhn_digit_bound: "d < 10 \<Longrightarrow> luhn_digit dbl d \<le> 9"
  by (auto simp: luhn_digit_def)

lemma luhn_digit_inject: "c < 10 \<Longrightarrow> d < 10 \<Longrightarrow> luhn_digit dbl c = luhn_digit dbl d \<longleftrightarrow> c = d"
  by (cases dbl; cases "9 < 2 * c"; cases "9 < 2 * d"; simp add: luhn_digit_def; presburger)

lemma digit_of_less: "is_ascii_digit c \<Longrightarrow> digit_of c < 10"
  by (auto simp: is_ascii_digit_def digit_of_def)

lemma luhn_loop_val:
  assumes "list_all is_ascii_digit s" and "unat acc + 9 * length s < 2 ^ 32"
  shows "unat (luhn_loop dbl acc s) = unat acc + luhn_sum dbl s"
  using assms
proof (induction s arbitrary: acc dbl)
  case (Cons c cs)
  let ?d = "digit_of c"
  have d: "?d < 10" using Cons.prems(1) by (simp add: digit_of_less)
  have "luhn_loop dbl acc (c # cs) = luhn_loop (\<not> dbl) (acc + of_nat (luhn_digit dbl ?d)) cs"
  proof -
    have "unat (of_nat ?d * 2 :: u32) = 2 * ?d" using d by (simp add: unat_mult_no_overflow unat_of_nat)
    then have "(of_nat ?d * 2 :: u32) > 9 \<longleftrightarrow> 2 * ?d > 9" by (simp add: word_less_nat_alt)
    moreover have "of_nat ?d * 2 - 9 = (of_nat (2 * ?d - 9) :: u32)" if "2 * ?d > 9"
      using that by (simp add: of_nat_diff mult.commute)
    ultimately show ?thesis by (simp add: luhn_digit_def Let_def mult.commute)
  qed
  moreover have "unat (acc + of_nat (luhn_digit dbl ?d)) = unat acc + luhn_digit dbl ?d"
    using Cons.prems(2) luhn_digit_bound [OF d, of dbl] by (simp add: unat_add_no_overflow unat_of_nat)
  ultimately show ?case
    using Cons.IH [of "acc + of_nat (luhn_digit dbl ?d)" "\<not> dbl"] Cons.prems luhn_digit_bound [OF d, of dbl] by simp
qed simp

lemma luhn_sum_append:
  "luhn_sum dbl (xs @ ys) = luhn_sum dbl xs + luhn_sum (if even (length xs) then dbl else \<not> dbl) ys"
  by (induction xs arbitrary: dbl) auto

lemma validate_card_iff:
  "validate_card_number s = Inr () \<longleftrightarrow>
    (let card = filter is_ascii_digit s
     in 13 \<le> length card \<and> length card \<le> 19 \<and> 10 dvd luhn_sum False (rev card))"
proof -
  let ?card = "filter is_ascii_digit s"
  have "list_all is_ascii_digit (rev ?card)" by (simp add: list_all_iff)
  then have "unat (luhn_loop False 0 (rev ?card)) = luhn_sum False (rev ?card)" if "length ?card \<le> 19"
    using luhn_loop_val [of "rev ?card" 0 False] that by simp
  then have "luhn_loop False 0 (rev ?card) mod 10 = 0 \<longleftrightarrow> 10 dvd luhn_sum False (rev ?card)" if "length ?card \<le> 19"
    using that by (simp add: unat_eq_0 [symmetric] unat_mod dvd_eq_mod_eq_0)
  then show ?thesis by (auto simp: validate_card_number_def Let_def)
qed

lemma iban_error_detected:
  assumes "regex_ok rx" and "c \<noteq> d" and "same_class c d" and "validate_iban rx (s @ c # t) = Ret (Inr ())"
  shows "\<exists>e. validate_iban rx (s @ d # t) = Ret (Inl e)"
proof -
  have "iban_ok (clean_iban s @ c # clean_iban t)"
    using validate_iban_val [OF assms(1), of "s @ c # t"] same_class_alnum [OF assms(3)] assms(4) by (simp add: clean_iban_mid)
  then have "\<not> iban_ok (clean_iban (s @ d # t))"
    using iban_ok_differs [OF assms(3,2)] same_class_alnum [OF assms(3)] by (simp add: clean_iban_mid)
  then show ?thesis
    using validate_iban_val [OF assms(1), of "s @ d # t"] by (metis old.sum.exhaust old.unit.exhaust)
qed

lemma luhn_sum_mid:
  "is_ascii_digit c \<Longrightarrow> luhn_sum False (rev (filter is_ascii_digit (s @ c # t)))
    = luhn_digit (odd (length (filter is_ascii_digit t))) (digit_of c)
      + (luhn_sum False (rev (filter is_ascii_digit t))
         + luhn_sum (even (length (filter is_ascii_digit t))) (rev (filter is_ascii_digit s)))"
  by (simp add: luhn_sum_append)

lemma dvd_ten_unique:
  assumes "10 dvd a + r" and "10 dvd b + r" and "a \<le> 9" and "b \<le> (9 :: nat)"
  shows "a = b"
proof -
  have "\<not> x < y" if "10 dvd x + r" "10 dvd y + r" "y \<le> 9" for x y :: nat
  proof
    assume "x < y"
    moreover have "10 dvd (y + r) - (x + r)" using that(2,1) by (rule dvd_diff_nat)
    ultimately show False using that(3) by (auto dest: dvd_imp_le)
  qed
  from this [OF assms(1,2,4)] this [OF assms(2,1,3)] show ?thesis by simp
qed

lemma card_error_detected:
  assumes "c \<noteq> d" and "is_ascii_digit c" and "is_ascii_digit d" and "validate_card_number (s @ c # t) = Inr ()"
  shows "validate_card_number (s @ d # t) = Inl (IsoValidationFailed ''Invalid card number checksum'')"
proof -
  define f where "f = luhn_digit (odd (length (filter is_ascii_digit t)))"
  define r where "r = luhn_sum False (rev (filter is_ascii_digit t))
    + luhn_sum (even (length (filter is_ascii_digit t))) (rev (filter is_ascii_digit s))"
  note mid = luhn_sum_mid [where s = s and t = t, folded f_def r_def]
  have len: "13 \<le> length (filter is_ascii_digit (s @ c # t))" "length (filter is_ascii_digit (s @ c # t)) \<le> 19"
    and "10 dvd f (digit_of c) + r"
    using assms(4) mid [OF assms(2)] unfolding validate_card_iff Let_def by simp_all
  moreover have "digit_of c \<noteq> digit_of d"
    using assms same_class_val [of c d] by (simp add: same_class_def alnum_val_def)
  then have "f (digit_of c) \<noteq> f (digit_of d)" "f (digit_of c) \<le> 9" "f (digit_of d) \<le> 9"
    using digit_of_less [OF assms(2)] digit_of_less [OF assms(3)] by (simp_all add: f_def luhn_digit_inject luhn_digit_bound)
  ultimately have "\<not> 10 dvd f (digit_of d) + r" using dvd_ten_unique by blast
  then have "validate_card_number (s @ d # t) \<noteq> Inr ()"
    using mid [OF assms(3)] unfolding validate_card_iff Let_def by simp
  with len assms(2,3) show ?thesis
    by (auto simp: validate_card_number_def Let_def split: if_splits)
qed

section \<open>Properties\<close>

text \<open>A regular expression engine that answers as \<open>regex_ok\<close> demands.\<close>

definition ref_regex :: "string \<Rightarrow> string \<Rightarrow> bool" where
  "ref_regex p = (if p = IBAN_REGEX then iban_shape else if p = BIC_REGEX then bic_shape else lei_shape)"

lemma ref_regex_ok: "regex_ok ref_regex"
  by (simp add: regex_ok_def ref_regex_def IBAN_REGEX_def BIC_REGEX_def LEI_REGEX_def)

text \<open>
  (C16) Validation of an IBAN returns for every text, and accepts exactly the texts that, without
  blanks and hyphens and in capitals, have the shape of the pattern, the length of their country where
  the table has one, and a number that leaves 1 modulo 97, where the number is the whole decimal
  expansion of the rearranged text and not the chunks of seven digits the code works on.
\<close>

theorem iban_validation_exact:
  assumes "regex_ok rx"
  shows "\<exists>r. validate_iban rx s = Ret r
    \<and> (r = Inr () \<longleftrightarrow> iban_shape (clean_iban s)
        \<and> (\<forall>n. map_of country_lengths (take 2 (clean_iban s)) = Some n \<longrightarrow> length (clean_iban s) = n)
        \<and> dec_val (concat (map letter_digits (drop 4 (clean_iban s) @ take 4 (clean_iban s)))) mod 97 = 1)"
  using validate_iban_val [OF assms, of s] by (auto simp: iban_ok_def decimal_def split: option.splits)

lemma demo_iban: "iban_ok ''DE89370400440532013000''"
proof -
  have "concat (map letter_digits ''370400440532013000DE89'') = ''370400440532013000131489''"
    by (simp add: letter_digits_def is_ascii_digit_def dec_digits.simps) code_simp
  then have "decimal ''370400440532013000DE89'' mod 97 = 1"
    by (simp add: decimal_def dec_val_def digit_of_def)
  moreover have "iban_shape ''DE89370400440532013000''" by code_simp
  ultimately show ?thesis by (simp add: iban_ok_def country_lengths_def)
qed

theorem iban_validation_exact_witness:
  "validate_iban ref_regex ''de89 3704-0044 0532 0130 00'' = Ret (Inr ())"
proof -
  have "clean_iban ''de89 3704-0044 0532 0130 00'' = ''DE89370400440532013000''" by code_simp
  then show ?thesis
    using iban_validation_exact [OF ref_regex_ok, of "''de89 3704-0044 0532 0130 00''"] demo_iban
    by (auto simp: iban_ok_def decimal_def split: option.splits)
qed

text \<open>
  (C17) One wrong character is always noticed: when an accepted IBAN gets one digit replaced by another
  digit, or one capital letter by another, it is refused, and the same holds for a digit of an
  accepted card number.
\<close>

theorem single_error_detected:
  assumes "regex_ok rx" and "c \<noteq> d"
  shows "(same_class c d \<and> validate_iban rx (s @ c # t) = Ret (Inr ())
          \<longrightarrow> (\<exists>e. validate_iban rx (s @ d # t) = Ret (Inl e)))
    \<and> (is_ascii_digit c \<and> is_ascii_digit d \<and> validate_card_number (s @ c # t) = Inr ()
          \<longrightarrow> validate_card_number (s @ d # t) = Inl (IsoValidationFailed ''Invalid card number checksum''))"
  using assms iban_error_detected card_error_detected by blast

theorem single_error_detected_witness:
  "(\<exists>e. validate_iban ref_regex ''DE89370400440532013001'' = Ret (Inl e))
   \<and> validate_card_number ''4111111111111112'' = Inl (IsoValidationFailed ''Invalid card number checksum'')"
proof (rule conjI)
  have "validate_iban ref_regex (''DE8937040044053201300'' @ CHR ''0'' # []) = Ret (Inr ())"
    using validate_iban_val [OF ref_regex_ok, of "''DE89370400440532013000''"] demo_iban
    by (simp add: clean_iban_def to_uppercase_def is_ascii_lower_def)
  moreover have "same_class CHR ''0'' CHR ''1''" by (simp add: same_class_def is_ascii_digit_def)
  ultimately show "\<exists>e. validate_iban ref_regex ''DE89370400440532013001'' = Ret (Inl e)"
    using single_error_detected [OF ref_regex_ok, of "CHR ''0''" "CHR ''1''" "''DE8937040044053201300''" "[]"] by simp
  have "validate_card_number ''4111111111111111'' = Inr ()" by code_simp
  moreover have "is_ascii_digit CHR ''1''" "is_ascii_digit CHR ''2''" by (simp_all add: is_ascii_digit_def)
  ultimately show "validate_card_number ''4111111111111112'' = Inl (IsoValidationFailed ''Invalid card number checksum'')"
    using single_error_detected [OF ref_regex_ok, of "CHR ''1''" "CHR ''2''" "''411111111111111''" "[]"] by simp
qed

text \<open>
  Three countries of the length table can never pass: the pattern ends after 31 characters, and
  the table demands 33 of Russia and 32 of Saint Lucia and Nicaragua.
\<close>

theorem long_ibans_refused:
  assumes "regex_ok rx" and "take 2 (clean_iban s) \<in> {''RU'', ''LC'', ''NI''}"
  shows "\<exists>e. validate_iban rx s = Ret (Inl e)"
proof -
  have "map_of country_lengths (take 2 (clean_iban s)) \<in> {Some 33, Some 32}"
    using assms(2) by (elim insertE emptyE) (simp_all add: country_lengths_def)
  then have "\<not> iban_ok (clean_iban s)" by (auto simp: iban_ok_def iban_shape_def)
  with validate_iban_val [OF assms(1), of s] show ?thesis by (metis old.sum.exhaust old.unit.exhaust)
qed

theorem long_ibans_refused_witness:
  "\<exists>e. validate_iban ref_regex ''RU0304452522540817810538091310419'' = Ret (Inl e)"
proof -
  have "take 2 (clean_iban ''RU0304452522540817810538091310419'') = ''RU''" by code_simp
  with long_ibans_refused [OF ref_regex_ok] show ?thesis by auto
qed

end
