(* ===== verification/Iso8583.thy ===== *)
theory Iso8583
  imports Iso_Validators
begin

text \<open>
  Card messages, \<^verbatim>\<open>src/crates/nexus-iso/src/iso8583.rs\<close>: the message with its bitmaps, the wire format
  of the 128 data elements, parsing, serialization, and the constructors of authorization messages.
  Shift distances are taken modulo 64, as the release profile does. The locale \<open>field_codec\<close> states
  when a sequence of fields, each read from where the previous one ended, comes back as it was
  written; it is interpreted on the code's encoder and decoder of one field.
\<close>

section \<open>Messages\<close>

datatype MessageType =
    AuthorizationRequest | AuthorizationResponse | FinancialRequest | FinancialResponse
  | ReversalRequest | ReversalResponse | NetworkManagementRequest | NetworkManagementResponse

definition mti_codes :: "(u16 \<times> MessageType) list" where
  "mti_codes = [(0x0100, AuthorizationRequest), (0x0110, AuthorizationResponse),
     (0x0200, FinancialRequest), (0x0210, FinancialResponse), (0x0400, ReversalRequest),
     (0x0410, ReversalResponse), (0x0800, NetworkManagementRequest), (0x0810, NetworkManagementResponse)]"

definition from_code :: "u16 \<Rightarrow> MessageType option" where
  "from_code code = map_of mti_codes code"

fun to_code :: "MessageType \<Rightarrow> u16" where
  "to_code AuthorizationRequest = 0x0100"
| "to_code AuthorizationResponse = 0x0110"
| "to_code FinancialRequest = 0x0200"
| "to_code FinancialResponse = 0x0210"
| "to_code ReversalRequest = 0x0400"
| "to_code ReversalResponse = 0x0410"
| "to_code NetworkManagementRequest = 0x0800"
| "to_code NetworkManagementResponse = 0x0810"

record DataElement =
  de_id :: u8
  de_value :: "u8 list"

record Iso8583Message =
  im_mti :: MessageType
  im_primary_bitmap :: u64
  im_secondary_bitmap :: "u64 option"
  im_elements :: "(u8, u8 list) hmap"

definition Iso8583Message_new :: "MessageType \<Rightarrow> Iso8583Message" where
  "Iso8583Message_new mti =
     \<lparr>im_mti = mti, im_primary_bitmap = 0, im_secondary_bitmap = None, im_elements = []\<rparr>"

definition shl_one :: "u8 \<Rightarrow> u64" where
  "shl_one k = push_bit (unat k mod 64) 1"

definition set_element :: "u8 \<Rightarrow> u8 list \<Rightarrow> Iso8583Message \<Rightarrow> Iso8583Message" where
  "set_element i v m =
     (let m = (if i \<le> 64 then m\<lparr>im_primary_bitmap := im_primary_bitmap m OR shl_one (64 - i)\<rparr>
               else let m = (if im_secondary_bitmap m = None
                             then m\<lparr>im_secondary_bitmap := Some 0, im_primary_bitmap := im_primary_bitmap m OR shl_one 63\<rparr>
                             else m)
                    in m\<lparr>im_secondary_bitmap := map_option (\<lambda>b. b OR shl_one (128 - i)) (im_secondary_bitmap m)\<rparr>)
      in m\<lparr>im_elements := hput i v (im_elements m)\<rparr>)"

definition get_element :: "Iso8583Message \<Rightarrow> u8 \<Rightarrow> u8 list option" where
  "get_element m i = hget (im_elements m) i"

definition get_element_string :: "Iso8583Message \<Rightarrow> u8 \<Rightarrow> string option" where
  "get_element_string m i = Option.bind (hget (im_elements m) i) from_utf8"

definition pan :: "Iso8583Message \<Rightarrow> string option" where "pan m = get_element_string m 2"
definition processing_code :: "Iso8583Message \<Rightarrow> string option" where "processing_code m = get_element_string m 3"

definition im_amount :: "Iso8583Message \<Rightarrow> u64 option" where
  "im_amount m = map_option of_nat (Option.bind (get_element_string m 4) (parse_uint (2 ^ 64)))"

definition stan :: "Iso8583Message \<Rightarrow> string option" where "stan m = get_element_string m 11"
definition local_time :: "Iso8583Message \<Rightarrow> string option" where "local_time m = get_element_string m 12"
definition local_date :: "Iso8583Message \<Rightarrow> string option" where "local_date m = get_element_string m 13"
definition expiration_date :: "Iso8583Message \<Rightarrow> string option" where "expiration_date m = get_element_string m 14"
definition pos_entry_mode :: "Iso8583Message \<Rightarrow> string option" where "pos_entry_mode m = get_element_string m 22"
definition card_sequence_number :: "Iso8583Message \<Rightarrow> string option" where "card_sequence_number m = get_element_string m 23"
definition acquiring_institution_id :: "Iso8583Message \<Rightarrow> string option" where "acquiring_institution_id m = get_element_string m 32"
definition track2_data :: "Iso8583Message \<Rightarrow> string option" where "track2_data m = get_element_string m 35"
definition retrieval_reference :: "Iso8583Message \<Rightarrow> string option" where "retrieval_reference m = get_element_string m 37"
definition authorization_code :: "Iso8583Message \<Rightarrow> string option" where "authorization_code m = get_element_string m 38"
definition response_code :: "Iso8583Message \<Rightarrow> string option" where "response_code m = get_element_string m 39"
definition terminal_id :: "Iso8583Message \<Rightarrow> string option" where "terminal_id m = get_element_string m 41"
definition merchant_id :: "Iso8583Message \<Rightarrow> string option" where "merchant_id m = get_element_string m 42"
definition merchant_name :: "Iso8583Message \<Rightarrow> string option" where "merchant_name m = get_element_string m 43"
definition currency_code :: "Iso8583Message \<Rightarrow> string option" where "currency_code m = get_element_string m 49"
definition emv_data :: "Iso8583Message \<Rightarrow> u8 list option" where "emv_data m = get_element m 55"

section \<open>Fields\<close>

datatype FieldEncoding = Fixed nat | LlVar nat | LllVar nat

text \<open>The arms of the match, each a range of field numbers.\<close>

definition field_table :: "(nat \<times> nat \<times> FieldEncoding) list" where
  "field_table = [
     (1, 1, Fixed 8), (2, 2, LlVar 19), (3, 3, Fixed 6), (4, 4, Fixed 12), (5, 5, Fixed 12),
     (6, 6, Fixed 12), (7, 7, Fixed 10), (8, 8, Fixed 8), (9, 9, Fixed 8), (10, 10, Fixed 8),
     (11, 11, Fixed 6), (12, 12, Fixed 6), (13, 13, Fixed 4), (14, 14, Fixed 4), (15, 15, Fixed 4),
     (16, 16, Fixed 4), (17, 17, Fixed 4), (18, 18, Fixed 4), (19, 19, Fixed 3), (20, 20, Fixed 3),
     (21, 21, Fixed 3), (22, 22, Fixed 3), (23, 23, Fixed 3), (24, 24, Fixed 3), (25, 25, Fixed 2),
     (26, 26, Fixed 2), (27, 27, Fixed 1), (28, 28, Fixed 9), (29, 29, Fixed 9), (30, 30, Fixed 9),
     (31, 31, Fixed 9), (32, 32, LlVar 11), (33, 33, LlVar 11), (34, 34, LlVar 28), (35, 35, LlVar 37),
     (36, 36, LllVar 104), (37, 37, Fixed 12), (38, 38, Fixed 6), (39, 39, Fixed 2), (40, 40, Fixed 3),
     (41, 41, Fixed 8), (42, 42, Fixed 15), (43, 43, Fixed 40), (44, 44, LlVar 25), (45, 45, LlVar 76),
     (46, 46, LllVar 999), (47, 47, LllVar 999), (48, 48, LllVar 999), (49, 49, Fixed 3), (50, 50, Fixed 3),
     (51, 51, Fixed 3), (52, 52, Fixed 8), (53, 53, Fixed 16), (54, 54, LllVar 120), (55, 55, LllVar 999),
     (56, 56, LllVar 999), (57, 63, LllVar 999), (64, 64, Fixed 8), (65, 65, Fixed 8), (66, 66, Fixed 1),
     (67, 67, Fixed 2), (68, 75, Fixed 10), (76, 84, Fixed 10), (85, 90, Fixed 10), (91, 91, Fixed 1),
     (92, 95, Fixed 2), (96, 96, Fixed 8), (97, 97, Fixed 17), (98, 98, Fixed 25), (99, 99, LlVar 11),
     (100, 100, LlVar 11), (101, 101, LlVar 17), (102, 102, LlVar 28), (103, 103, LlVar 28), (104, 104, LllVar 100),
     (105, 107, LllVar 999), (108, 110, LllVar 999), (111, 119, LllVar 999), (120, 122, LllVar 999), (123, 125, LllVar 999),
     (126, 126, LllVar 999), (127, 127, LllVar 999), (128, 128, Fixed 8)]"

definition field_encoding :: "u8 \<Rightarrow> FieldEncoding option" where
  "field_encoding i = map_option (\<lambda>(_, _, e). e) (find (\<lambda>(lo, hi, _). lo \<le> unat i \<and> unat i \<le> hi) field_table)"

definition field_error :: "u8 \<Rightarrow> string \<Rightarrow> IsoError" where
  "field_error i what = InvalidFormat (''Field '' @ dec_digits (unat i) @ '': '' @ what)"

definition too_long :: "u8 \<Rightarrow> u8 list \<Rightarrow> nat \<Rightarrow> IsoError" where
  "too_long i v mx = field_error i (''value length '' @ dec_digits (length v) @ '' exceeds max '' @ dec_digits mx)"

definition encode_field :: "u8 \<Rightarrow> u8 list \<Rightarrow> u8 list IsoResult" where
  "encode_field i v =
     (case field_encoding i of
        Some (Fixed len) \<Rightarrow> Inr (take len v @ replicate (len - length v) 32)
      | Some (LlVar mx) \<Rightarrow> if length v > mx then Inl (too_long i v mx) else Inr (bytes_of (pad_dec 2 (length v)) @ v)
      | Some (LllVar mx) \<Rightarrow> if length v > mx then Inl (too_long i v mx) else Inr (bytes_of (pad_dec 3 (length v)) @ v)
      | None \<Rightarrow> Inl (InvalidFormat (''Unknown field id: '' @ dec_digits (unat i))))"

text \<open>A field with a length prefix of \<open>w\<close> digits, called \<open>LL\<close> or \<open>LLL\<close>.\<close>

definition decode_var :: "nat \<Rightarrow> string \<Rightarrow> u8 \<Rightarrow> u8 list \<Rightarrow> nat \<Rightarrow> (u8 list \<times> nat) IsoResult" where
  "decode_var w name i bytes pos =
     (if pos + w > length bytes then Inl (field_error i (''missing '' @ name @ '' prefix''))
      else case from_utf8 (slice pos w bytes) of
             None \<Rightarrow> Inl (field_error i (''invalid '' @ name @ '' prefix''))
           | Some len_str \<Rightarrow>
             (case parse_uint (2 ^ 64) len_str of
                None \<Rightarrow> Inl (field_error i (''non-numeric '' @ name @ '' prefix''))
              | Some len \<Rightarrow>
                if pos + w + len > length bytes then Inl (field_error i ''data shorter than declared length'')
                else Inr (slice (pos + w) len bytes, pos + w + len)))"

definition decode_field :: "u8 \<Rightarrow> u8 list \<Rightarrow> nat \<Rightarrow> (u8 list \<times> nat) IsoResult" where
  "decode_field i bytes pos =
     (case field_encoding i of
        Some (Fixed len) \<Rightarrow>
          if pos + len > length bytes then Inl (field_error i ''unexpected end of data'')
          else Inr (slice pos len bytes, pos + len)
      | Some (LlVar _) \<Rightarrow> decode_var 2 ''LL'' i bytes pos
      | Some (LllVar _) \<Rightarrow> decode_var 3 ''LLL'' i bytes pos
      | None \<Rightarrow> Inl (InvalidFormat (''Unknown field id: '' @ dec_digits (unat i))))"

section \<open>Sequences of fields\<close>

fun encode_all :: "('k \<Rightarrow> 'v \<Rightarrow> 'e + 'b list) \<Rightarrow> ('k \<times> 'v) list \<Rightarrow> 'e + 'b list" where
  "encode_all enc [] = Inr []"
| "encode_all enc ((k, v) # kvs) =
     (case enc k v of Inl e \<Rightarrow> Inl e
      | Inr w \<Rightarrow> (case encode_all enc kvs of Inl e \<Rightarrow> Inl e | Inr ws \<Rightarrow> Inr (w @ ws)))"

fun decode_all ::
    "('k \<Rightarrow> 'b list \<Rightarrow> nat \<Rightarrow> 'e + 'v \<times> nat) \<Rightarrow> 'k list \<Rightarrow> 'b list \<Rightarrow> nat \<Rightarrow> ('k, 'v) hmap \<Rightarrow> 'e + ('k, 'v) hmap \<times> nat" where
  "decode_all dec [] bytes pos m = Inr (m, pos)"
| "decode_all dec (k # ks) bytes pos m =
     (case dec k bytes pos of Inl e \<Rightarrow> Inl e
      | Inr (v, pos) \<Rightarrow> decode_all dec ks bytes pos (hput k v m))"

locale field_codec =
  fixes enc :: "'k \<Rightarrow> 'v \<Rightarrow> 'e + 'b list" and dec :: "'k \<Rightarrow> 'b list \<Rightarrow> nat \<Rightarrow> 'e + 'v \<times> nat"
    and fits :: "'k \<Rightarrow> 'v \<Rightarrow> bool"
  assumes enc_fits: "fits k v \<Longrightarrow> \<exists>w. enc k v = Inr w"
    and dec_enc: "fits k v \<Longrightarrow> enc k v = Inr w \<Longrightarrow> dec k (pre @ w @ rest) (length pre) = Inr (v, length pre + length w)"
begin

lemma encode_all_fits:
  "\<forall>(k, v) \<in> set kvs. fits k v \<Longrightarrow> \<exists>ws. encode_all enc kvs = Inr ws"
proof (induction kvs)
  case (Cons kv kvs)
  then show ?case using enc_fits [of "fst kv" "snd kv"] by (cases kv) auto
qed simp

lemma decode_all_encode_all:
  assumes "\<forall>(k, v) \<in> set kvs. fits k v" and "encode_all enc kvs = Inr ws"
  shows "decode_all dec (map fst kvs) (pre @ ws @ rest) (length pre) m
    = Inr (fold (\<lambda>(k, v). hput k v) kvs m, length pre + length ws)"
  using assms
proof (induction kvs arbitrary: pre ws m)
  case (Cons kv kvs)
  obtain k v where kv: "kv = (k, v)" by fastforce
  with Cons.prems obtain w vs where w: "enc k v = Inr w" "encode_all enc kvs = Inr vs" "ws = w @ vs"
    by (auto split: sum.splits)
  with Cons.prems kv dec_enc [of k v w pre "vs @ rest"]
  have "dec k (pre @ ws @ rest) (length pre) = Inr (v, length pre + length w)" by simp
  with Cons.IH [of vs "pre @ w" "hput k v m"] Cons.prems(1) kv w show ?case by (simp add: add.assoc)
qed simp

end

lemma decode_all_append:
  "decode_all dec (ks @ ls) bytes pos m
    = (case decode_all dec ks bytes pos m of Inl e \<Rightarrow> Inl e | Inr (m, pos) \<Rightarrow> decode_all dec ls bytes pos m)"
  by (induction ks arbitrary: pos m) (auto split: sum.split prod.split)

section \<open>Parsing and serialization\<close>

definition is_digit_byte :: "u8 \<Rightarrow> bool" where
  "is_digit_byte b \<longleftrightarrow> 48 \<le> b \<and> b \<le> 57"

definition read_mti :: "u8 list \<Rightarrow> (u16 \<times> nat) IsoResult" where
  "read_mti bytes =
     (if is_digit_byte (bytes ! 0)
      then case from_utf8 (take 4 bytes) of
             None \<Rightarrow> Inl (InvalidFormat ''Invalid MTI'')
           | Some mti_str \<Rightarrow>
             (case parse_hex (2 ^ 16) mti_str of
                None \<Rightarrow> Inl (InvalidFormat ''Invalid MTI value'')
              | Some code \<Rightarrow> Inr (of_nat code, 4))
      else Inr (of_nat (be_val (take 2 bytes)), 2))"

definition set_bits :: "u64 \<Rightarrow> nat \<Rightarrow> u8 list \<Rightarrow> u8 list" where
  "set_bits bitmap width ids = filter (\<lambda>i. drop_bit (width - unat i) bitmap AND 1 = 1) ids"

definition primary_ids :: "u8 list" where
  "primary_ids = filter (\<lambda>i. i \<noteq> 1) (map of_nat [1..<65])"

definition secondary_ids :: "u8 list" where
  "secondary_ids = filter (\<lambda>i. i \<noteq> 65) (map of_nat [65..<129])"

definition parse_iso8583 :: "u8 list \<Rightarrow> Iso8583Message IsoResult" where
  "parse_iso8583 bytes =
     (if length bytes < 10 then Inl (InvalidFormat ''Message too short'')
      else case read_mti bytes of Inl e \<Rightarrow> Inl e
      | Inr (mti_code, pos) \<Rightarrow>
        (case from_code mti_code of None \<Rightarrow> Inl (UnknownMessageType (hex4_upper mti_code))
         | Some mti \<Rightarrow>
           if pos + 8 > length bytes then Inl (InvalidFormat ''Missing primary bitmap'')
           else let primary = u64_from_be_bytes (slice pos 8 bytes); pos = pos + 8;
                    has_secondary = (drop_bit 63 primary AND 1 = 1)
                in if has_secondary \<and> pos + 8 > length bytes then Inl (InvalidFormat ''Missing secondary bitmap'')
                   else let secondary = (if has_secondary then Some (u64_from_be_bytes (slice pos 8 bytes)) else None);
                            pos = (if has_secondary then pos + 8 else pos)
                        in case decode_all decode_field (set_bits primary 64 primary_ids) bytes pos [] of Inl e \<Rightarrow> Inl e
                           | Inr (m, pos) \<Rightarrow>
                             (case (case secondary of None \<Rightarrow> Inr (m, pos)
                                    | Some s \<Rightarrow> decode_all decode_field (set_bits s 128 secondary_ids) bytes pos m) of
                                Inl e \<Rightarrow> Inl e
                              | Inr (m, pos) \<Rightarrow>
                                Inr \<lparr>im_mti = mti, im_primary_bitmap = primary, im_secondary_bitmap = secondary,
                                     im_elements = m\<rparr>)))"

definition serialize_iso8583 :: "Iso8583Message \<Rightarrow> u8 list IsoResult" where
  "serialize_iso8583 m =
     (let head = bytes_of (hex4_upper (to_code (im_mti m))) @ u64_to_be_bytes (im_primary_bitmap m)
            @ (case im_secondary_bitmap m of None \<Rightarrow> [] | Some s \<Rightarrow> u64_to_be_bytes s);
          field_ids = sort (map fst (im_elements m))
      in case encode_all encode_field
                (List.map_filter (\<lambda>i. map_option (Pair i) (hget (im_elements m) i)) field_ids) of
           Inl e \<Rightarrow> Inl e
         | Inr body \<Rightarrow> Inr (head @ body))"

section \<open>Authorization messages\<close>

definition create_auth_request :: "string \<Rightarrow> u64 \<Rightarrow> string \<Rightarrow> string \<Rightarrow> string \<Rightarrow> Iso8583Message" where
  "create_auth_request pan_text amount currency terminal merchant =
     (let m = Iso8583Message_new AuthorizationRequest;
          m = set_element 2 (bytes_of pan_text) m;
          m = set_element 3 (bytes_of ''000000'') m;
          m = set_element 4 (bytes_of (pad_dec 12 (unat amount))) m;
          m = set_element 11 (bytes_of ''000001'') m;
          m = set_element 22 (bytes_of ''012'') m;
          m = set_element 41 (bytes_of terminal) m;
          m = set_element 42 (bytes_of merchant) m
      in set_element 49 (bytes_of currency) m)"

definition copy_element :: "u8 \<Rightarrow> Iso8583Message \<Rightarrow> Iso8583Message \<Rightarrow> Iso8583Message" where
  "copy_element i request m = (case get_element request i of None \<Rightarrow> m | Some v \<Rightarrow> set_element i v m)"

definition create_auth_response :: "Iso8583Message \<Rightarrow> string \<Rightarrow> string \<Rightarrow> Iso8583Message" where
  "create_auth_response request code auth_code =
     (let m = Iso8583Message_new AuthorizationResponse;
          m = copy_element 2 request m;
          m = copy_element 4 request m;
          m = copy_element 11 request m;
          m = set_element 38 (bytes_of auth_code) m
      in set_element 39 (bytes_of code) m)"

definition APPROVED :: string where "APPROVED = ''00''"
definition REFER_TO_ISSUER :: string where "REFER_TO_ISSUER = ''01''"
definition INVALID_MERCHANT :: string where "INVALID_MERCHANT = ''03''"
definition DO_NOT_HONOR :: string where "DO_NOT_HONOR = ''05''"
definition INVALID_TRANSACTION :: string where "INVALID_TRANSACTION = ''12''"
definition INVALID_AMOUNT :: string where "INVALID_AMOUNT = ''13''"
definition INVALID_CARD_NUMBER :: string where "INVALID_CARD_NUMBER = ''14''"
definition NO_SUCH_ISSUER :: string where "NO_SUCH_ISSUER = ''15''"
definition EXPIRED_CARD :: string where "EXPIRED_CARD = ''54''"
definition INSUFFICIENT_FUNDS :: string where "INSUFFICIENT_FUNDS = ''51''"
definition EXCEEDS_LIMIT :: string where "EXCEEDS_LIMIT = ''61''"
definition RESTRICTED_CARD :: string where "RESTRICTED_CARD = ''62''"
definition SECURITY_VIOLATION :: string where "SECURITY_VIOLATION = ''63''"
definition ACTIVITY_LIMIT_EXCEEDED :: string where "ACTIVITY_LIMIT_EXCEEDED = ''65''"
definition SYSTEM_MALFUNCTION :: string where "SYSTEM_MALFUNCTION = ''96''"

section \<open>The code's codec keeps the contract\<close>

definition fits :: "u8 \<Rightarrow> u8 list \<Rightarrow> bool" where
  "fits i v \<longleftrightarrow> (case field_encoding i of
     Some (Fixed n) \<Rightarrow> length v = n | Some (LlVar n) \<Rightarrow> length v \<le> n | Some (LllVar n) \<Rightarrow> length v \<le> n | None \<Rightarrow> False)"

lemma field_table_limits:
  "list_all (\<lambda>(_, _, e). case e of Fixed n \<Rightarrow> True | LlVar n \<Rightarrow> n < 100 | LllVar n \<Rightarrow> n < 1000) field_table"
  by (simp add: field_table_def)

lemma field_encoding_entry: "field_encoding i = Some e \<Longrightarrow> \<exists>lo hi. (lo, hi, e) \<in> set field_table"
  by (force simp: field_encoding_def find_Some_iff in_set_conv_nth)

lemma field_limits:
  "field_encoding i = Some (LlVar n) \<Longrightarrow> n < 100" "field_encoding i = Some (LllVar n) \<Longrightarrow> n < 1000"
  using field_table_limits field_encoding_entry unfolding list_all_iff by fastforce+

lemma slice_mid [simp]: "slice (length a) n (a @ b) = take n b"
  by (simp add: slice_def)

lemma slice_mid2: "n = length w \<Longrightarrow> slice (length a + length b) n (a @ b @ w @ c) = w"
  by (simp add: slice_def)

lemma pad_dec_digits: "list_all is_ascii_digit (pad_dec k n)"
proof -
  have "list_all is_ascii_digit (replicate j CHR ''0'')" for j by (induction j) (auto simp: is_ascii_digit_def)
  then show ?thesis by (simp add: pad_dec_def)
qed

lemma decode_var_encoded:
  assumes "length v < 10 ^ w" and "0 < w" and "w \<le> 3"
  shows "decode_var w name i (pre @ (bytes_of (pad_dec w (length v)) @ v) @ rest) (length pre)
    = Inr (v, length pre + length (bytes_of (pad_dec w (length v)) @ v))"
proof -
  have "length v < 2 ^ 64" using assms(1,3) power_increasing [of w 3 "10 :: nat"] by simp
  moreover have "length (pad_dec w (length v)) = w" using assms by simp
  moreover from this have "slice (length pre + w) (length v) (pre @ bytes_of (pad_dec w (length v)) @ v @ rest) = v"
    using slice_mid2 [of "length v" v pre "bytes_of (pad_dec w (length v))" rest] by simp
  ultimately show ?thesis using assms by (simp add: decode_var_def pad_dec_digits)
qed

interpretation iso_fields: field_codec encode_field decode_field fits
proof
  fix k v w pre rest
  assume f: "fits k v"
  then show "\<exists>w. encode_field k v = Inr w"
    by (auto simp: fits_def encode_field_def split: option.splits FieldEncoding.splits)
  assume w: "encode_field k v = Inr w"
  show "decode_field k (pre @ w @ rest) (length pre) = Inr (v, length pre + length w)"
  proof (cases "field_encoding k")
    case (Some e)
    with f w field_limits [of k] decode_var_encoded [of v 2] decode_var_encoded [of v 3] show ?thesis
      by (cases e) (auto simp: fits_def encode_field_def decode_field_def)
  qed (use f in \<open>simp add: fits_def\<close>)
qed

section \<open>Bitmaps\<close>

definition valid_id :: "u8 \<Rightarrow> bool" where
  "valid_id i \<longleftrightarrow> 2 \<le> i \<and> i \<le> 128 \<and> i \<noteq> 65"

text \<open>The bitmaps name exactly the elements a message holds, apart from the two bits for bitmaps.\<close>

definition bitmap_ok :: "Iso8583Message \<Rightarrow> bool" where
  "bitmap_ok m \<longleftrightarrow> wf_hmap (im_elements m) \<and> (\<forall>i v. hget (im_elements m) i = Some v \<longrightarrow> valid_id i \<and> fits i v)
     \<and> (\<forall>i. 2 \<le> i \<and> i \<le> 64 \<longrightarrow> bit (im_primary_bitmap m) (64 - unat i) = hcontains (im_elements m) i)
     \<and> bit (im_primary_bitmap m) 63 = (im_secondary_bitmap m \<noteq> None)
     \<and> (\<forall>i. 66 \<le> i \<and> i \<le> 128 \<longrightarrow>
          (case im_secondary_bitmap m of None \<Rightarrow> False | Some s \<Rightarrow> bit s (128 - unat i)) = hcontains (im_elements m) i)"

lemma bit_shl_one: "bit (shl_one k) n \<longleftrightarrow> n = unat k mod 64"
  by (auto simp: shl_one_def bit_exp_iff)

lemma unat_minus_id: "i \<le> w \<Longrightarrow> unat (w - i) = unat w - unat i" for i w :: u8
  by (rule unat_sub)

lemma id_eq: "unat i \<le> k \<Longrightarrow> unat j \<le> k \<Longrightarrow> k - unat i = k - unat j \<longleftrightarrow> i = j" for i j :: u8
  by (auto simp: word_unat_eq_iff)

lemma bitmap_ok_new: "bitmap_ok (Iso8583Message_new mti)"
  by (simp add: bitmap_ok_def Iso8583Message_new_def)

lemma primary_bit:
  assumes "2 \<le> i" "i \<le> 64" "j \<le> 64"
  shows "bit (p OR shl_one (64 - i)) (64 - unat j) \<longleftrightarrow> bit p (64 - unat j) \<or> j = i"
    and "bit (p OR shl_one (64 - i)) 63 = bit p 63"
proof -
  have "unat i \<le> 64" "unat j \<le> 64" "2 \<le> unat i" using assms by (simp_all add: word_le_nat_alt)
  then show "bit (p OR shl_one (64 - i)) (64 - unat j) \<longleftrightarrow> bit p (64 - unat j) \<or> j = i"
    and "bit (p OR shl_one (64 - i)) 63 = bit p 63"
    using assms(2) id_eq [of j 64 i] by (auto simp: bit_or_iff bit_shl_one unat_minus_id)
qed

lemma secondary_bit:
  assumes "66 \<le> i" "i \<le> 128" "66 \<le> j" "j \<le> 128"
  shows "bit (s OR shl_one (128 - i)) (128 - unat j) \<longleftrightarrow> bit s (128 - unat j) \<or> j = i"
proof -
  have "unat i \<le> 128" "unat j \<le> 128" "66 \<le> unat i" using assms by (simp_all add: word_le_nat_alt)
  then show ?thesis
    using assms(2) id_eq [of j 128 i] by (auto simp: bit_or_iff bit_shl_one unat_minus_id)
qed

lemma bit_63_or: "bit (p OR shl_one 63) 63" "2 \<le> unat j \<Longrightarrow> bit (p OR shl_one 63) (64 - unat j) = bit p (64 - unat j)"
  by (auto simp: bit_or_iff bit_shl_one)

lemma bitmap_ok_set:
  assumes "bitmap_ok m" and "valid_id i" and "fits i v"
  shows "bitmap_ok (set_element i v m)"
proof (cases "i \<le> 64")
  case True
  then have i: "2 \<le> i" "i \<le> 64" "\<not> 66 \<le> i" using assms(2) by (auto simp: valid_id_def word_le_nat_alt)
  have "j \<noteq> i" if "66 \<le> j" for j using that i by auto
  with i assms show ?thesis
    unfolding bitmap_ok_def set_element_def Let_def by (simp add: primary_bit)
next
  case False
  then have i: "66 \<le> i" "i \<le> 128" using assms(2) by (auto simp: valid_id_def word_le_nat_alt word_unat_eq_iff)
  have neq: "j \<noteq> i" if "j \<le> 64" for j using that False by auto
  have "2 \<le> unat j" if "2 \<le> j" for j :: u8 using that by (simp add: word_le_nat_alt)
  with i neq False assms show ?thesis
    unfolding bitmap_ok_def set_element_def Let_def
    by (cases "im_secondary_bitmap m") (simp_all add: secondary_bit secondary_bit [where s = 0, simplified] bit_63_or)
qed

lemma bitmap_ok_build:
  "\<forall>(i, v) \<in> set kvs. valid_id i \<and> fits i v \<Longrightarrow> bitmap_ok m \<Longrightarrow> bitmap_ok (fold (\<lambda>(i, v). set_element i v) kvs m)"
  by (induction kvs arbitrary: m) (auto simp: bitmap_ok_set)

section \<open>Round trip\<close>

lemma low_bit: "drop_bit n w AND 1 = 1 \<longleftrightarrow> bit w n" for w :: u64
  by (simp add: bit_iff_odd_drop_bit and_one_eq odd_iff_mod_2_eq_one)

lemma id_range:
  assumes "b \<le> 256"
  shows "sorted (map of_nat [a..<b] :: u8 list)" "distinct (map of_nat [a..<b] :: u8 list)"
    "set (map of_nat [a..<b] :: u8 list) = {i. a \<le> unat i \<and> unat i < b}"
proof -
  have u: "unat (of_nat n :: u8) = n" if "n < b" for n using that assms by (simp add: unat_of_nat)
  show "sorted (map of_nat [a..<b] :: u8 list)"
    by (auto simp: sorted_iff_nth_mono word_le_nat_alt u simp del: of_nat_add)
  show "distinct (map of_nat [a..<b] :: u8 list)"
    unfolding distinct_map by (auto intro!: inj_onI dest: arg_cong [of _ _ unat] simp: u)
  have "i \<in> of_nat ` {a..<b} \<longleftrightarrow> a \<le> unat i \<and> unat i < b" for i :: u8
    using image_eqI [of i of_nat "unat i" "{a..<b}"] by (auto simp: u)
  then show "set (map of_nat [a..<b] :: u8 list) = {i. a \<le> unat i \<and> unat i < b}" by auto
qed

lemma id_range_except:
  assumes "b \<le> 256" and "unat k = a"
  shows "sorted (filter (\<lambda>i. i \<noteq> k) (map of_nat [a..<b]))" "distinct (filter (\<lambda>i. i \<noteq> k) (map of_nat [a..<b]))"
    "set (filter (\<lambda>i. i \<noteq> k) (map of_nat [a..<b])) = {i :: u8. a < unat i \<and> unat i < b}"
  using id_range [OF assms(1), of a] assms(2)
  by (simp_all add: sorted_wrt_filter del: set_map) (auto simp: word_unat_eq_iff)

lemma primary_ids: "sorted primary_ids" "distinct primary_ids" "set primary_ids = {i. 2 \<le> unat i \<and> unat i \<le> 64}"
proof -
  have "65 \<le> (256 :: nat)" "unat (1 :: u8) = 1" by simp_all
  note r = id_range_except [OF this, folded primary_ids_def]
  show "sorted primary_ids" "distinct primary_ids" by (rule r)+
  have "{i :: u8. 1 < unat i \<and> unat i < 65} = {i. 2 \<le> unat i \<and> unat i \<le> 64}" by auto
  then show "set primary_ids = {i. 2 \<le> unat i \<and> unat i \<le> 64}" using r(3) by (rule trans [rotated])
qed

lemma secondary_ids: "sorted secondary_ids" "distinct secondary_ids" "set secondary_ids = {i. 66 \<le> unat i \<and> unat i \<le> 128}"
proof -
  have "129 \<le> (256 :: nat)" "unat (65 :: u8) = 65" by simp_all
  note r = id_range_except [OF this, folded secondary_ids_def]
  show "sorted secondary_ids" "distinct secondary_ids" by (rule r)+
  have "{i :: u8. 65 < unat i \<and> unat i < 129} = {i. 66 \<le> unat i \<and> unat i \<le> 128}" by auto
  then show "set secondary_ids = {i. 66 \<le> unat i \<and> unat i \<le> 128}" using r(3) by (rule trans [rotated])
qed

definition present_ids :: "Iso8583Message \<Rightarrow> u8 list" where
  "present_ids m = set_bits (im_primary_bitmap m) 64 primary_ids
     @ (case im_secondary_bitmap m of None \<Rightarrow> [] | Some s \<Rightarrow> set_bits s 128 secondary_ids)"

lemma present_ids_sorted: "sorted (present_ids m)" "distinct (present_ids m)"
  using primary_ids secondary_ids
  by (auto simp: present_ids_def set_bits_def sorted_append sorted_wrt_filter word_le_nat_alt split: option.split)

lemma present_ids_keys: "bitmap_ok m \<Longrightarrow> set (present_ids m) = fst ` set (im_elements m)"
proof -
  assume ok: "bitmap_ok m"
  have "i \<in> set (present_ids m) \<longleftrightarrow> hcontains (im_elements m) i" for i
  proof -
    have ids: "2 \<le> i \<and> i \<le> 64 \<or> 66 \<le> i \<and> i \<le> 128" if "valid_id i"
    proof -
      from that have "2 \<le> unat i" "unat i \<le> 128" "unat i \<noteq> 65" by (auto simp: valid_id_def word_le_nat_alt word_unat_eq_iff)
      then have "unat i \<le> 64 \<or> 66 \<le> unat i" by linarith
      with \<open>2 \<le> unat i\<close> \<open>unat i \<le> 128\<close> show ?thesis by (auto simp: word_le_nat_alt)
    qed
    have "i \<in> set (present_ids m) \<longleftrightarrow> (2 \<le> i \<and> i \<le> 64 \<and> bit (im_primary_bitmap m) (64 - unat i))
        \<or> (66 \<le> i \<and> i \<le> 128 \<and> (case im_secondary_bitmap m of None \<Rightarrow> False | Some s \<Rightarrow> bit s (128 - unat i)))"
      by (auto simp: present_ids_def set_bits_def primary_ids(3) secondary_ids(3) low_bit word_le_nat_alt split: option.splits)
    also have "\<dots> \<longleftrightarrow> (2 \<le> i \<and> i \<le> 64 \<or> 66 \<le> i \<and> i \<le> 128) \<and> hcontains (im_elements m) i"
      using ok unfolding bitmap_ok_def by blast
    also have "\<dots> \<longleftrightarrow> hcontains (im_elements m) i"
      using ids ok unfolding bitmap_ok_def by blast
    finally show ?thesis .
  qed
  then show ?thesis by (auto simp: dom_map_of_conv_image_fst [symmetric])
qed

lemma sorted_keys: "bitmap_ok m \<Longrightarrow> sort (map fst (im_elements m)) = present_ids m"
proof (rule sorted_distinct_set_unique)
  assume ok: "bitmap_ok m"
  then show "distinct (sort (map fst (im_elements m)))" by (simp add: bitmap_ok_def wf_hmap_def)
  show "set (sort (map fst (im_elements m))) = set (present_ids m)" using ok by (simp add: present_ids_keys)
qed (simp_all add: present_ids_sorted)

lemma mti_text:
  "hex4_upper (to_code mti) = (case mti of AuthorizationRequest \<Rightarrow> ''0100'' | AuthorizationResponse \<Rightarrow> ''0110''
     | FinancialRequest \<Rightarrow> ''0200'' | FinancialResponse \<Rightarrow> ''0210'' | ReversalRequest \<Rightarrow> ''0400'' | ReversalResponse \<Rightarrow> ''0410''
     | NetworkManagementRequest \<Rightarrow> ''0800'' | NetworkManagementResponse \<Rightarrow> ''0810'')"
  by (cases mti; simp add: hex4_upper_def hex_upper_digit_def; code_simp)

lemma mti_wire:
  "length (bytes_of (hex4_upper (to_code mti))) = 4" "is_digit_byte (bytes_of (hex4_upper (to_code mti)) ! 0)"
  "from_utf8 (bytes_of (hex4_upper (to_code mti))) = Some (hex4_upper (to_code mti))"
  "parse_hex (2 ^ 16) (hex4_upper (to_code mti)) = Some (unat (to_code mti))" "from_code (to_code mti) = Some mti"
proof -
  show "length (bytes_of (hex4_upper (to_code mti))) = 4" by (simp add: hex4_upper_def)
  show "is_digit_byte (bytes_of (hex4_upper (to_code mti)) ! 0)"
    unfolding mti_text by (cases mti; simp add: is_digit_byte_def bytes_of_def)
  show "from_utf8 (bytes_of (hex4_upper (to_code mti))) = Some (hex4_upper (to_code mti))"
    unfolding mti_text by (rule from_utf8_digits) (cases mti; simp add: is_ascii_digit_def)
  show "parse_hex (2 ^ 16) (hex4_upper (to_code mti)) = Some (unat (to_code mti))"
    unfolding mti_text by (cases mti; simp add: parse_hex_def strip_plus_def hex_val_def is_ascii_digit_def)
  show "from_code (to_code mti) = Some mti" by (cases mti; simp add: from_code_def mti_codes_def)
qed

lemma read_mti_wire: "read_mti (bytes_of (hex4_upper (to_code mti)) @ rest) = Inr (to_code mti, 4)"
  using mti_wire(1-4) [of mti] by (simp add: read_mti_def nth_append del: length_bytes_of)

text \<open>The elements of a message in the order of the wire.\<close>

definition wire_fields :: "Iso8583Message \<Rightarrow> (u8 \<times> u8 list) list" where
  "wire_fields m = map (\<lambda>i. (i, the (hget (im_elements m) i))) (present_ids m)"

lemma wire_fields:
  assumes "bitmap_ok m"
  shows "List.map_filter (\<lambda>i. map_option (Pair i) (hget (im_elements m) i)) (sort (map fst (im_elements m))) = wire_fields m"
    and "map fst (wire_fields m) = present_ids m" and "\<forall>(i, v) \<in> set (wire_fields m). fits i v"
    and "map_of (wire_fields m) i = hget (im_elements m) i"
proof -
  have has: "hcontains (im_elements m) i \<longleftrightarrow> i \<in> set (present_ids m)" for i
    using present_ids_keys [OF assms] by (metis domIff dom_map_of_conv_image_fst)
  have "List.map_filter (\<lambda>i. map_option (Pair i) (hget (im_elements m) i)) is
      = map (\<lambda>i. (i, the (hget (im_elements m) i))) is" if "set is \<subseteq> set (present_ids m)" for "is"
    using that has by (induction "is") (auto simp: List.map_filter_simps split: option.split)
  then show "List.map_filter (\<lambda>i. map_option (Pair i) (hget (im_elements m) i)) (sort (map fst (im_elements m))) = wire_fields m"
    unfolding sorted_keys [OF assms] wire_fields_def by blast
  show "map fst (wire_fields m) = present_ids m" by (simp add: wire_fields_def o_def)
  show "\<forall>(i, v) \<in> set (wire_fields m). fits i v" using has assms by (fastforce simp: wire_fields_def bitmap_ok_def)
  show "map_of (wire_fields m) i = hget (im_elements m) i"
    using has [of i] by (auto simp: wire_fields_def map_of_map_restrict restrict_map_def)
qed

lemma hget_fold_hput: "distinct (map fst kvs) \<Longrightarrow>
   hget (fold (\<lambda>(k, v). hput k v) kvs m) k = (case map_of kvs k of Some v \<Rightarrow> Some v | None \<Rightarrow> hget m k)"
proof (induction kvs arbitrary: m)
  case (Cons kv kvs)
  then show ?case by (cases kv) (auto simp: map_of_eq_None_iff [symmetric] split: option.splits)
qed simp

lemma parse_serialized:
  assumes "bitmap_ok m"
  shows "\<exists>bytes m'. serialize_iso8583 m = Inr bytes \<and> parse_iso8583 bytes = Inr m'
    \<and> im_mti m' = im_mti m \<and> im_primary_bitmap m' = im_primary_bitmap m
    \<and> im_secondary_bitmap m' = im_secondary_bitmap m \<and> (\<forall>i. get_element m' i = get_element m i)"
proof -
  let ?mti = "bytes_of (hex4_upper (to_code (im_mti m)))" and ?p = "im_primary_bitmap m"
  let ?sec = "case im_secondary_bitmap m of None \<Rightarrow> [] | Some s \<Rightarrow> u64_to_be_bytes s"
  note w = wire_fields [OF assms]
  obtain body where body: "encode_all encode_field (wire_fields m) = Inr body"
    using iso_fields.encode_all_fits [OF w(3)] by blast
  let ?head = "?mti @ u64_to_be_bytes ?p @ ?sec" and ?E = "fold (\<lambda>(k, v). hput k v) (wire_fields m) []"
  have "decode_all decode_field (present_ids m) (?head @ body @ []) (length ?head) [] = Inr (?E, length ?head + length body)"
    using iso_fields.decode_all_encode_all [OF w(3) body, of ?head "[]" "[]"] w(2) by simp
  then have dec: "(case decode_all decode_field (set_bits ?p 64 primary_ids) (?head @ body) (length ?head) [] of Inl e \<Rightarrow> Inl e
      | Inr (m', pos) \<Rightarrow> (case im_secondary_bitmap m of None \<Rightarrow> Inr (m', pos)
          | Some s \<Rightarrow> decode_all decode_field (set_bits s 128 secondary_ids) (?head @ body) pos m')) = Inr (?E, length ?head + length body)"
    by (simp add: present_ids_def decode_all_append split: sum.splits option.splits prod.splits)
  have flag: "drop_bit 63 ?p AND 1 = 1 \<longleftrightarrow> im_secondary_bitmap m \<noteq> None"
    using assms unfolding low_bit by (simp add: bitmap_ok_def)
  have "slice 4 8 (?head @ body) = u64_to_be_bytes ?p" using mti_wire(1) [of "im_mti m"]
    by (simp add: slice_def u64_to_be_bytes_def)
  moreover have "slice 12 8 (?head @ body) = u64_to_be_bytes s" if "im_secondary_bitmap m = Some s" for s
    using mti_wire(1) [of "im_mti m"] that by (simp add: slice_def)
  ultimately have "parse_iso8583 (?head @ body) = Inr \<lparr>im_mti = im_mti m, im_primary_bitmap = ?p,
      im_secondary_bitmap = im_secondary_bitmap m, im_elements = ?E\<rparr>"
    using dec flag mti_wire(1,5) [of "im_mti m"]
    by (cases "im_secondary_bitmap m") (auto simp: parse_iso8583_def read_mti_wire Let_def split: sum.splits)
  moreover have "serialize_iso8583 m = Inr (?head @ body)" using w(1) body by (simp add: serialize_iso8583_def Let_def)
  moreover have "hget ?E i = hget (im_elements m) i" for i
    using hget_fold_hput [of "wire_fields m" "[]" i] w(2,4) present_ids_sorted(2) by (simp split: option.split)
  ultimately show ?thesis by (simp add: get_element_def)
qed

section \<open>Properties\<close>

text \<open>
  (C15) A card message comes back from the wire as it was sent: any message built by setting data
  elements 2 to 64 and 66 to 128, in any order and with repetitions, to values that fill their fixed
  field or fit their variable field can be serialized, and parsing the bytes returns the same type,
  the same bitmaps and the same value for every element.
\<close>

theorem iso8583_roundtrip:
  assumes "\<forall>(i, v) \<in> set kvs. valid_id i \<and> fits i v"
    and "m = fold (\<lambda>(i, v). set_element i v) kvs (Iso8583Message_new mti)"
  shows "\<exists>bytes m'. serialize_iso8583 m = Inr bytes \<and> parse_iso8583 bytes = Inr m'
    \<and> im_mti m' = im_mti m \<and> im_primary_bitmap m' = im_primary_bitmap m
    \<and> im_secondary_bitmap m' = im_secondary_bitmap m \<and> (\<forall>i. get_element m' i = get_element m i)"
  using parse_serialized [OF bitmap_ok_build [OF assms(1) bitmap_ok_new]] assms(2) by blast

theorem iso8583_roundtrip_witness:
  "\<exists>bytes m'. serialize_iso8583 (set_element 99 [49, 50] (set_element 3 [48, 48, 48, 48, 48, 48]
        (Iso8583Message_new FinancialRequest))) = Inr bytes
     \<and> parse_iso8583 bytes = Inr m' \<and> get_element m' 99 = Some [49, 50]"
proof -
  have "\<forall>(i, v) \<in> set [(3, [48, 48, 48, 48, 48, 48]), (99, [49, 50])]. valid_id i \<and> fits i v"
    by (simp add: valid_id_def fits_def field_encoding_def field_table_def)
  from iso8583_roundtrip [OF this refl, of FinancialRequest] show ?thesis
    by (auto simp: set_element_def get_element_def Iso8583Message_new_def Let_def)
qed

text \<open>
  Element 65 is written but not read: \<open>set_element\<close> accepts it and the serializer writes its
  eight bytes, while the parser skips its bit, so the bytes are taken for the elements that follow.
\<close>

theorem element_65_misread:
  assumes "length v = 8" and "m = set_element 66 [b] (set_element 65 v (Iso8583Message_new mti))"
  shows "\<exists>bytes m'. serialize_iso8583 m = Inr bytes \<and> parse_iso8583 bytes = Inr m'
    \<and> get_element m 66 = Some [b] \<and> get_element m' 66 = Some [v ! 0] \<and> get_element m' 65 = None"
proof -
  have m: "m = \<lparr>im_mti = mti, im_primary_bitmap = 0x8000000000000000, im_secondary_bitmap = Some 0xC000000000000000,
      im_elements = [(65, v), (66, [b])]\<rparr>"
    by (simp add: assms(2) set_element_def Iso8583Message_new_def shl_one_def hput_def)
  have bits: "set_bits 0x8000000000000000 64 primary_ids = []" "set_bits 0xC000000000000000 128 secondary_ids = [66]"
    by code_simp+
  let ?head = "bytes_of (hex4_upper (to_code mti)) @ u64_to_be_bytes 0x8000000000000000 @ u64_to_be_bytes 0xC000000000000000"
  have enc: "field_encoding 65 = Some (Fixed 8)" "field_encoding 66 = Some (Fixed 1)"
    by (simp_all add: field_encoding_def field_table_def)
  then have s: "serialize_iso8583 m = Inr (?head @ v @ [b])"
    using assms(1) by (simp add: m serialize_iso8583_def encode_field_def List.map_filter_simps)
  have len: "length ?head = 20" using mti_wire(1) [of mti] by simp
  have "slice 4 8 (?head @ v @ [b]) = u64_to_be_bytes 0x8000000000000000"
      "slice 12 8 (?head @ v @ [b]) = u64_to_be_bytes 0xC000000000000000"
    using mti_wire(1) [of mti] by (simp_all add: slice_def)
  moreover have "slice 20 1 (?head @ v @ [b]) = [v ! 0]"
    using slice_mid [of ?head 1 "v @ [b]"] len assms(1) by (cases v) simp_all
  ultimately have "parse_iso8583 (?head @ v @ [b]) = Inr (m\<lparr>im_elements := [(66, [v ! 0])]\<rparr>)"
    using mti_wire(1,5) [of mti] assms(1)
    by (simp add: parse_iso8583_def read_mti_wire bits decode_field_def enc m hput_def)
  with s show ?thesis by (simp add: m get_element_def)
qed

theorem element_65_misread_witness:
  "\<exists>bytes m'. serialize_iso8583 (set_element 66 [57] (set_element 65 [49, 50, 51, 52, 53, 54, 55, 56]
        (Iso8583Message_new FinancialRequest))) = Inr bytes
     \<and> parse_iso8583 bytes = Inr m' \<and> get_element m' 66 = Some [49]"
  using element_65_misread [of "[49, 50, 51, 52, 53, 54, 55, 56]" _ 57 FinancialRequest] by auto

end
