(* ===== verification/Iso20022.thy ===== *)
theory Iso20022
  imports Iso_Validators
begin

text \<open>
  Payment messages, \<^verbatim>\<open>src/crates/nexus-iso/src/iso20022.rs\<close>: the document with its three kinds of
  message, the constructor of a credit transfer and of its transaction reference. Reading and writing
  XML is the work of a third-party crate and a parameter. The two texts the clock gives and the sixteen
  random bytes are arguments.
\<close>

section \<open>Data\<close>

record ClearingSystemId =
  csi_code :: "string option"
  csi_proprietary :: "string option"

record ClearingSystemMemberId =
  csmi_clearing_system_id :: "ClearingSystemId option"
  csmi_member_id :: string

record FinancialInstitutionId =
  fii_bic :: "string option"
  fii_clearing_system_member_id :: "ClearingSystemMemberId option"
  fii_lei :: "string option"

record SchemeName =
  sn_code :: "string option"
  sn_proprietary :: "string option"

record GenericId =
  gi_id :: string
  gi_scheme_name :: "SchemeName option"

record OrganizationId =
  oi_name :: "string option"
  oi_lei :: "string option"
  oi_other :: "GenericId list option"

record Party =
  par_fi_id :: "FinancialInstitutionId option"
  par_org_id :: "OrganizationId option"

record AppHeader =
  ah_from :: Party
  ah_to :: Party
  ah_business_message_id :: string
  ah_message_definition_id :: string
  ah_creation_date :: string

record Amount =
  amo_currency :: string
  amo_value :: string

record IsoAccountId =
  ai_iban :: "string option"
  ai_other :: "GenericId option"

record SettlementInfo =
  si_settlement_method :: string
  si_settlement_account :: "IsoAccountId option"

record GroupHeader =
  gh_message_id :: string
  gh_creation_date_time :: string
  gh_number_of_transactions :: u32
  gh_total_amount :: "Amount option"
  gh_settlement_date :: "string option"
  gh_settlement_info :: "SettlementInfo option"
  gh_instructing_agent :: "FinancialInstitutionId option"
  gh_instructed_agent :: "FinancialInstitutionId option"

record PaymentId =
  pi_instruction_id :: "string option"
  pi_end_to_end_id :: string
  pi_transaction_id :: "string option"
  pi_uetr :: "string option"

record ServiceLevel =
  sl_code :: "string option"
  sl_proprietary :: "string option"

record LocalInstrument =
  li_code :: "string option"
  li_proprietary :: "string option"

record CategoryPurpose =
  cp_code :: "string option"
  cp_proprietary :: "string option"

record PaymentTypeInfo =
  pti_instruction_priority :: "string option"
  pti_clearing_channel :: "string option"
  pti_service_level :: "ServiceLevel option"
  pti_local_instrument :: "LocalInstrument option"
  pti_category_purpose :: "CategoryPurpose option"

record IsoPostalAddress =
  pa_street_name :: "string option"
  pa_building_number :: "string option"
  pa_postal_code :: "string option"
  pa_town_name :: "string option"
  pa_country_subdivision :: "string option"
  pa_country :: "string option"
  pa_address_lines :: "string list option"

record DateAndPlaceOfBirth =
  dapob_birth_date :: string
  dapob_city_of_birth :: "string option"
  dapob_country_of_birth :: "string option"

record PrivateId =
  prid_date_and_place_of_birth :: "DateAndPlaceOfBirth option"
  prid_other :: "GenericId list option"

record PartyIdentification =
  paid_org_id :: "OrganizationId option"
  paid_private_id :: "PrivateId option"

record IsoPartyInfo =
  pain_name :: "string option"
  pain_postal_address :: "IsoPostalAddress option"
  pain_id :: "PartyIdentification option"

record CodeOrProprietary =
  cop_code :: "string option"
  cop_proprietary :: "string option"

record ReferredDocumentType =
  rdt_code_or_proprietary :: CodeOrProprietary

record ReferredDocumentInfo =
  rdi_doc_type :: "ReferredDocumentType option"
  rdi_number :: "string option"
  rdi_related_date :: "string option"

record ReferredDocumentAmount =
  rda_due_payable_amount :: "Amount option"
  rda_remitted_amount :: "Amount option"

record CreditorReferenceType =
  crt_code_or_proprietary :: CodeOrProprietary

record CreditorReferenceInfo =
  cri_ref_type :: "CreditorReferenceType option"
  cri_reference :: "string option"

record StructuredRemittanceInfo =
  sri_referred_document_info :: "ReferredDocumentInfo option"
  sri_referred_document_amount :: "ReferredDocumentAmount option"
  sri_creditor_reference_info :: "CreditorReferenceInfo option"

record RemittanceInfo =
  ri_unstructured :: "string list option"
  ri_structured :: "StructuredRemittanceInfo list option"

record CreditTransferTransaction =
  ctt_payment_id :: PaymentId
  ctt_payment_type_info :: "PaymentTypeInfo option"
  ctt_interbank_settlement_amount :: Amount
  ctt_instructed_amount :: "Amount option"
  ctt_charge_bearer :: "string option"
  ctt_debtor :: IsoPartyInfo
  ctt_debtor_account :: IsoAccountId
  ctt_debtor_agent :: FinancialInstitutionId
  ctt_creditor_agent :: FinancialInstitutionId
  ctt_creditor :: IsoPartyInfo
  ctt_creditor_account :: IsoAccountId
  ctt_remittance_info :: "RemittanceInfo option"

record CreditTransferMessage =
  ctm_group_header :: GroupHeader
  ctm_credit_transfer_transactions :: "CreditTransferTransaction list"

record StatusGroupHeader =
  sgh_message_id :: string
  sgh_creation_date_time :: string
  sgh_instructing_agent :: "FinancialInstitutionId option"
  sgh_instructed_agent :: "FinancialInstitutionId option"

record StatusReason =
  sr_code :: "string option"
  sr_proprietary :: "string option"

record StatusReasonInfo =
  strein_reason :: "StatusReason option"
  strein_additional_info :: "string list option"

record OriginalGroupInfo =
  ogi_original_message_id :: string
  ogi_original_message_name_id :: string
  ogi_original_creation_date_time :: "string option"
  ogi_group_status :: "string option"
  ogi_status_reason_info :: "StatusReasonInfo list option"

record TransactionStatus =
  ts_original_instruction_id :: "string option"
  ts_original_end_to_end_id :: "string option"
  ts_original_transaction_id :: "string option"
  ts_transaction_status :: "string option"
  ts_status_reason_info :: "StatusReasonInfo list option"

record PaymentStatusMessage =
  psm_group_header :: StatusGroupHeader
  psm_original_group_info :: "OriginalGroupInfo option"
  psm_transaction_info_and_status :: "TransactionStatus list option"

record StatementGroupHeader =
  stgrhe_message_id :: string
  stgrhe_creation_date_time :: string
  stgrhe_message_recipient :: "IsoPartyInfo option"

record Pagination =
  pag_page_number :: string
  pag_last_page_indicator :: bool

record FromToDate =
  ftd_from_date_time :: string
  ftd_to_date_time :: string

record AccountType =
  at_code :: "string option"
  at_proprietary :: "string option"

record CashAccount =
  ca_id :: IsoAccountId
  ca_account_type :: "AccountType option"
  ca_currency :: "string option"
  ca_name :: "string option"
  ca_owner :: "IsoPartyInfo option"
  ca_servicer :: "FinancialInstitutionId option"

record BalanceType =
  bt_code_or_proprietary :: CodeOrProprietary

record BalanceDate =
  bd_date :: "string option"
  bd_date_time :: "string option"

record Balance =
  bal_balance_type :: BalanceType
  bal_amount :: Amount
  bal_credit_debit_indicator :: string
  bal_date :: BalanceDate

record TotalEntries =
  te_number_of_entries :: "u64 option"
  te_sum :: "string option"

record TransactionsSummary =
  trsu_total_entries :: "TotalEntries option"
  trsu_total_credit_entries :: "TotalEntries option"
  trsu_total_debit_entries :: "TotalEntries option"

record EntryStatus =
  es_code :: "string option"
  es_proprietary :: "string option"

record DomainFamily =
  df_code :: string
  df_sub_family_code :: string

record CodeDomain =
  dom_code :: string
  dom_family :: DomainFamily

record ProprietaryCode =
  pc_code :: string
  pc_issuer :: "string option"

record BankTransactionCode =
  btc_domain :: "CodeDomain option"
  btc_proprietary :: "ProprietaryCode option"

record TransactionReferences =
  tr_message_id :: "string option"
  tr_end_to_end_id :: "string option"
  tr_transaction_id :: "string option"
  tr_uetr :: "string option"

record RelatedParties =
  rp_debtor :: "IsoPartyInfo option"
  rp_debtor_account :: "IsoAccountId option"
  rp_creditor :: "IsoPartyInfo option"
  rp_creditor_account :: "IsoAccountId option"

record TransactionDetails =
  td_references :: "TransactionReferences option"
  td_amount :: "Amount option"
  td_related_parties :: "RelatedParties option"
  td_remittance_info :: "RemittanceInfo option"

record EntryDetails =
  ed_transaction_details :: "TransactionDetails list option"

record StatementEntry =
  ent_amount :: Amount
  ent_credit_debit_indicator :: string
  ent_status :: "EntryStatus option"
  ent_booking_date :: "BalanceDate option"
  ent_value_date :: "BalanceDate option"
  ent_bank_transaction_code :: "BankTransactionCode option"
  ent_entry_details :: "EntryDetails list option"

record Statement =
  sta_id :: string
  sta_pagination :: "Pagination option"
  sta_electronic_sequence_number :: "u64 option"
  sta_creation_date_time :: string
  sta_from_to_date :: "FromToDate option"
  sta_account :: CashAccount
  sta_balances :: "Balance list"
  sta_transactions_summary :: "TransactionsSummary option"
  sta_entries :: "StatementEntry list option"

record StatementMessage =
  sm_group_header :: StatementGroupHeader
  sm_statements :: "Statement list"

datatype Iso20022Message =
    MsgCreditTransfer CreditTransferMessage
  | MsgPaymentStatus PaymentStatusMessage
  | MsgStatement StatementMessage

record Iso20022Document =
  id_app_header :: "AppHeader option"
  id_content :: Iso20022Message

section \<open>Operations\<close>

definition parse_iso20022 :: "(string \<Rightarrow> string + Iso20022Document) \<Rightarrow> string \<Rightarrow> Iso20022Document IsoResult" where
  "parse_iso20022 from_str xml = (case from_str xml of Inl e \<Rightarrow> Inl (XmlParseError e) | Inr d \<Rightarrow> Inr d)"

definition serialize_iso20022 :: "(Iso20022Document \<Rightarrow> string + string) \<Rightarrow> Iso20022Document \<Rightarrow> string IsoResult" where
  "serialize_iso20022 to_xml d = (case to_xml d of Inl e \<Rightarrow> Inl (XmlParseError e) | Inr s \<Rightarrow> Inr s)"

definition uuid_v4 :: "u8 list \<Rightarrow> string" where
  "uuid_v4 random =
     (let bytes = random[6 := (random ! 6) AND 0x0f OR 0x40];
          bytes = bytes[8 := (bytes ! 8) AND 0x3f OR 0x80]
      in hex_encode (slice 0 4 bytes) @ ''-'' @ hex_encode (slice 4 2 bytes) @ ''-''
         @ hex_encode (slice 6 2 bytes) @ ''-'' @ hex_encode (slice 8 2 bytes) @ ''-''
         @ hex_encode (slice 10 6 bytes))"

definition bic_only :: "string \<Rightarrow> FinancialInstitutionId" where
  "bic_only bic = \<lparr>fii_bic = Some bic, fii_clearing_system_member_id = None, fii_lei = None\<rparr>"

definition name_only :: "string \<Rightarrow> IsoPartyInfo" where
  "name_only nm = \<lparr>pain_name = Some nm, pain_postal_address = None, pain_id = None\<rparr>"

definition iban_only :: "string \<Rightarrow> IsoAccountId" where
  "iban_only iban = \<lparr>ai_iban = Some iban, ai_other = None\<rparr>"

record transfer_input =
  in_message_id :: string
  in_debtor_name :: string
  in_debtor_iban :: string
  in_debtor_bic :: string
  in_creditor_name :: string
  in_creditor_iban :: string
  in_creditor_bic :: string
  in_amount :: string
  in_currency :: string
  in_reference :: string

definition create_credit_transfer ::
    "string \<Rightarrow> string \<Rightarrow> u8 list \<Rightarrow> transfer_input \<Rightarrow> CreditTransferMessage" where
  "create_credit_transfer date_time date random x =
     \<lparr>ctm_group_header =
        \<lparr>gh_message_id = in_message_id x, gh_creation_date_time = date_time, gh_number_of_transactions = 1,
         gh_total_amount = Some \<lparr>amo_currency = in_currency x, amo_value = in_amount x\<rparr>,
         gh_settlement_date = Some date,
         gh_settlement_info = Some \<lparr>si_settlement_method = ''INDA'', si_settlement_account = None\<rparr>,
         gh_instructing_agent = Some (bic_only (in_debtor_bic x)),
         gh_instructed_agent = Some (bic_only (in_creditor_bic x))\<rparr>,
      ctm_credit_transfer_transactions =
        [\<lparr>ctt_payment_id =
            \<lparr>pi_instruction_id = Some (in_message_id x @ ''-001''), pi_end_to_end_id = in_reference x,
             pi_transaction_id = Some (in_message_id x @ ''-TX001''), pi_uetr = Some (uuid_v4 random)\<rparr>,
          ctt_payment_type_info = None,
          ctt_interbank_settlement_amount = \<lparr>amo_currency = in_currency x, amo_value = in_amount x\<rparr>,
          ctt_instructed_amount = None, ctt_charge_bearer = Some ''SHAR'',
          ctt_debtor = name_only (in_debtor_name x), ctt_debtor_account = iban_only (in_debtor_iban x),
          ctt_debtor_agent = bic_only (in_debtor_bic x), ctt_creditor_agent = bic_only (in_creditor_bic x),
          ctt_creditor = name_only (in_creditor_name x), ctt_creditor_account = iban_only (in_creditor_iban x),
          ctt_remittance_info = Some \<lparr>ri_unstructured = Some [in_reference x], ri_structured = None\<rparr>\<rparr>]\<rparr>"

section \<open>Properties\<close>

lemma high_nibble: "unat w div 16 = unat (drop_bit 4 w)" for w :: u8
  by (simp add: drop_bit_eq_div unat_div)

lemma version_bits: "unat (b AND 0x0f OR 0x40 :: u8) div 16 = 4"
  by (simp add: high_nibble)

lemma variant_bits: "unat (b AND 0x3f OR 0x80 :: u8) div 16 \<in> {8, 9, 10, 11}"
proof -
  have "drop_bit 4 b AND mask 2 = drop_bit 4 b mod 2 ^ 2" by (simp only: take_bit_eq_mask [symmetric] take_bit_eq_mod)
  then have "unat (drop_bit 4 b AND 3) < 4" by (simp add: unat_mod mask_eq_exp_minus_1)
  then have "drop_bit 4 b AND 3 \<in> {0, 1, 2, 3 :: u8}" by (auto simp: word_unat_eq_iff)
  then show ?thesis by (auto simp: high_nibble)
qed

text \<open>
  The transaction reference of a credit transfer is a version 4 UUID for all sixteen random
  bytes: 36 characters in five groups, the version digit 4 and a variant digit 8, 9, a or b.
\<close>

definition is_lower_hex :: "char \<Rightarrow> bool" where
  "is_lower_hex c \<longleftrightarrow> is_ascii_digit c \<or> c \<in> set ''abcdef''"

lemma hex_digit_lower: "n < 16 \<Longrightarrow> is_lower_hex (hex_digit n)"
proof -
  have "hex_digit 10 = CHR ''a''" "hex_digit 11 = CHR ''b''" "hex_digit 12 = CHR ''c''" "hex_digit 13 = CHR ''d''"
      "hex_digit 14 = CHR ''e''" "hex_digit 15 = CHR ''f''" by code_simp+
  moreover assume "n < 16"
  then have "n < 10 \<or> n = 10 \<or> n = 11 \<or> n = 12 \<or> n = 13 \<or> n = 14 \<or> n = 15" by linarith
  ultimately show ?thesis by (auto simp: is_lower_hex_def) (simp add: hex_digit_def text_simps)
qed

lemma hex_encode_lower: "list_all is_lower_hex (hex_encode bs)" "length (hex_encode bs) = 2 * length bs"
proof -
  have "unat b div 16 < 16" for b :: u8 using unat_lt2p [of b] by (simp add: less_mult_imp_div_less)
  then show "list_all is_lower_hex (hex_encode bs)" by (induction bs) (auto simp: hex_encode_def hex_digit_lower)
  show "length (hex_encode bs) = 2 * length bs" by (induction bs) (auto simp: hex_encode_def)
qed

theorem uuid_v4_shape:
  assumes "length random = 16"
  shows "\<exists>g1 g2 g3 g4 g5. uuid_v4 random = g1 @ ''-'' @ g2 @ ''-'' @ g3 @ ''-'' @ g4 @ ''-'' @ g5
    \<and> map length [g1, g2, g3, g4, g5] = [8, 4, 4, 4, 12] \<and> list_all (list_all is_lower_hex) [g1, g2, g3, g4, g5]
    \<and> g3 ! 0 = CHR ''4'' \<and> g4 ! 0 \<in> set ''89ab''"
proof -
  let ?a = "random[6 := (random ! 6) AND 0x0f OR 0x40]"
  let ?b = "?a[8 := (?a ! 8) AND 0x3f OR 0x80]"
  have first: "hex_encode (slice i 2 ?b) ! 0 = hex_digit (unat (?b ! i) div 16)" if "i < 16" for i
    using that assms by (cases "drop i ?b") (auto simp: slice_def hex_encode_def nth_via_drop)
  have "?b ! 6 = (random ! 6) AND 0x0f OR 0x40" "?b ! 8 = (?a ! 8) AND 0x3f OR 0x80" using assms by simp_all
  then have "hex_encode (slice 6 2 ?b) ! 0 = hex_digit 4" "hex_encode (slice 8 2 ?b) ! 0 \<in> hex_digit ` {8, 9, 10, 11}"
    using first [of 6] first [of 8] imageI [OF variant_bits, of hex_digit "?a ! 8"] by (simp_all only: version_bits)
  moreover have "hex_digit 4 = CHR ''4''" "hex_digit ` {8, 9, 10, 11} = set ''89ab''" by code_simp+
  moreover define g where "g i n = hex_encode (slice i n ?b)" for i n
  ultimately have d: "g 6 2 ! 0 = CHR ''4''" "g 8 2 ! 0 \<in> set ''89ab''" by (simp_all only:)
  have l: "length (g i n) = 2 * n" if "i + n \<le> 16" for i n
    using that assms by (simp add: g_def hex_encode_lower slice_def)
  have h: "list_all is_lower_hex (g i n)" for i n by (simp add: g_def hex_encode_lower)
  have u: "uuid_v4 random = g 0 4 @ ''-'' @ g 4 2 @ ''-'' @ g 6 2 @ ''-'' @ g 8 2 @ ''-'' @ g 10 6"
    by (simp only: uuid_v4_def Let_def g_def)
  show ?thesis
    by (rule exI [of _ "g 0 4"], rule exI [of _ "g 4 2"], rule exI [of _ "g 6 2"], rule exI [of _ "g 8 2"],
        rule exI [of _ "g 10 6"]) (use u d l h in simp)
qed

theorem uuid_v4_shape_witness:
  "\<exists>g1 g2 g3 g4 g5. uuid_v4 (replicate 16 255) = g1 @ ''-'' @ g2 @ ''-'' @ g3 @ ''-'' @ g4 @ ''-'' @ g5
    \<and> map length [g1, g2, g3, g4, g5] = [8, 4, 4, 4, 12] \<and> list_all (list_all is_lower_hex) [g1, g2, g3, g4, g5]
    \<and> g3 ! 0 = CHR ''4'' \<and> g4 ! 0 \<in> set ''89ab''"
  by (rule uuid_v4_shape) simp

end
