(* ===== verification/Message_Router.thy ===== *)
theory Message_Router
  imports Iso8583 Iso20022 "HOL-Library.Multiset"
begin

text \<open>
  Routing and compliance, \<^verbatim>\<open>src/crates/nexus-iso/src/message_router.rs\<close>: the context extracted from a
  credit transfer or a card message, routing conditions, the router with its rules sorted by priority
  and its default routes, and the compliance checker. The lemmas relate the sorted list of rules to the
  order in which the rules were added.
\<close>

section \<open>Contexts and conditions\<close>

datatype RouterMessageType =
    CreditTransfer | PaymentStatus | DirectDebit | PaymentReturn
  | CardAuthorization | CardFinancial | CardReversal | BlockchainTx

datatype DestinationType = Swift | Sepa | Fedwire | Blockchain | Internal | Api

record RouteDestination =
  rd_destination_id :: string
  rd_destination_type :: DestinationType
  rd_priority :: u8
  rd_active :: bool
  rd_metadata :: "(string, string) hmap"

datatype RoutingCondition =
    Always
  | CurrencyIs string
  | AmountGreaterThan u64
  | CreditorCountry string
  | DebtorCountry string
  | BicPrefix string
  | And RoutingCondition RoutingCondition
  | Or RoutingCondition RoutingCondition
  | Not RoutingCondition

record RoutingRule =
  rr_id :: string
  rr_name :: string
  rr_message_type :: RouterMessageType
  rr_condition :: RoutingCondition
  rr_destinations :: "RouteDestination list"
  rr_priority :: u8

record MessageContext =
  mc_message_type :: "RouterMessageType option"
  mc_currency :: "string option"
  mc_amount :: "u64 option"
  mc_creditor_country :: "string option"
  mc_debtor_country :: "string option"
  mc_creditor_bic :: "string option"
  mc_debtor_bic :: "string option"
  mc_creditor_iban :: "string option"
  mc_debtor_iban :: "string option"

definition MessageContext_default :: MessageContext where
  "MessageContext_default =
     \<lparr>mc_message_type = None, mc_currency = None, mc_amount = None, mc_creditor_country = None,
      mc_debtor_country = None, mc_creditor_bic = None, mc_debtor_bic = None, mc_creditor_iban = None,
      mc_debtor_iban = None\<rparr>"

fun condition_matches :: "RoutingCondition \<Rightarrow> MessageContext \<Rightarrow> bool" where
  "condition_matches Always ctx = True"
| "condition_matches (CurrencyIs c) ctx = (mc_currency ctx = Some c)"
| "condition_matches (AmountGreaterThan n) ctx = (case mc_amount ctx of None \<Rightarrow> False | Some a \<Rightarrow> a > n)"
| "condition_matches (CreditorCountry c) ctx = (mc_creditor_country ctx = Some c)"
| "condition_matches (DebtorCountry c) ctx = (mc_debtor_country ctx = Some c)"
| "condition_matches (BicPrefix p) ctx = (case mc_creditor_bic ctx of None \<Rightarrow> False | Some bic \<Rightarrow> starts_with bic p)"
| "condition_matches (And a b) ctx = (condition_matches a ctx \<and> condition_matches b ctx)"
| "condition_matches (Or a b) ctx = (condition_matches a ctx \<or> condition_matches b ctx)"
| "condition_matches (Not c) ctx = (\<not> condition_matches c ctx)"

definition first_two :: "string \<Rightarrow> string option" where
  "first_two s = (if 2 \<le> length s then Some (take 2 s) else None)"

definition context_of_transfer :: "CreditTransferMessage \<Rightarrow> MessageContext" where
  "context_of_transfer msg =
     (let tx = (case ctm_credit_transfer_transactions msg of [] \<Rightarrow> None | t # _ \<Rightarrow> Some t)
      in \<lparr>mc_message_type = Some CreditTransfer,
          mc_currency = map_option (\<lambda>t. amo_currency (ctt_interbank_settlement_amount t)) tx,
          mc_amount = map_option of_nat
            (Option.bind tx (\<lambda>t. parse_uint (2 ^ 64) (amo_value (ctt_interbank_settlement_amount t)))),
          mc_creditor_country = Option.bind (Option.bind tx (\<lambda>t. ai_iban (ctt_creditor_account t))) first_two,
          mc_debtor_country = Option.bind (Option.bind tx (\<lambda>t. ai_iban (ctt_debtor_account t))) first_two,
          mc_creditor_bic = Option.bind tx (\<lambda>t. fii_bic (ctt_creditor_agent t)),
          mc_debtor_bic = Option.bind tx (\<lambda>t. fii_bic (ctt_debtor_agent t)),
          mc_creditor_iban = Option.bind tx (\<lambda>t. ai_iban (ctt_creditor_account t)),
          mc_debtor_iban = Option.bind tx (\<lambda>t. ai_iban (ctt_debtor_account t))\<rparr>)"

fun card_message_type :: "MessageType \<Rightarrow> RouterMessageType" where
  "card_message_type AuthorizationRequest = CardAuthorization"
| "card_message_type AuthorizationResponse = CardAuthorization"
| "card_message_type FinancialRequest = CardFinancial"
| "card_message_type FinancialResponse = CardFinancial"
| "card_message_type ReversalRequest = CardReversal"
| "card_message_type ReversalResponse = CardReversal"
| "card_message_type NetworkManagementRequest = CardAuthorization"
| "card_message_type NetworkManagementResponse = CardAuthorization"

definition context_of_card :: "Iso8583Message \<Rightarrow> MessageContext" where
  "context_of_card msg =
     MessageContext_default
       \<lparr>mc_message_type := Some (card_message_type (im_mti msg)), mc_currency := get_element_string msg 49,
        mc_amount := map_option of_nat (Option.bind (get_element_string msg 4) (parse_uint (2 ^ 64)))\<rparr>"

section \<open>The router\<close>

record MessageRouter =
  mr_rules :: "RoutingRule list"
  mr_default_routes :: "(RouterMessageType, RouteDestination list) hmap"

definition MessageRouter_new :: MessageRouter where
  "MessageRouter_new = \<lparr>mr_rules = [], mr_default_routes = []\<rparr>"

definition add_rule :: "RoutingRule \<Rightarrow> MessageRouter \<Rightarrow> MessageRouter" where
  "add_rule rule r = r\<lparr>mr_rules := sort_key rr_priority (mr_rules r @ [rule])\<rparr>"

definition set_default_route :: "RouterMessageType \<Rightarrow> RouteDestination list \<Rightarrow> MessageRouter \<Rightarrow> MessageRouter" where
  "set_default_route ty ds r = r\<lparr>mr_default_routes := hput ty ds (mr_default_routes r)\<rparr>"

fun route_rules :: "MessageContext \<Rightarrow> RoutingRule list \<Rightarrow> RouteDestination list option" where
  "route_rules ctx [] = None"
| "route_rules ctx (rule # rules) =
     (if mc_message_type ctx = Some (rr_message_type rule) \<and> condition_matches (rr_condition rule) ctx
         \<and> filter rd_active (rr_destinations rule) \<noteq> []
      then Some (filter rd_active (rr_destinations rule)) else route_rules ctx rules)"

definition route :: "MessageRouter \<Rightarrow> MessageContext \<Rightarrow> RouteDestination list IsoResult" where
  "route r ctx =
     (case route_rules ctx (mr_rules r) of
        Some ds \<Rightarrow> Inr ds
      | None \<Rightarrow>
        (case mc_message_type ctx of
           None \<Rightarrow> Inl (RoutingFailed ''No route found'')
         | Some ty \<Rightarrow>
           (case hget (mr_default_routes r) ty of
              None \<Rightarrow> Inl (RoutingFailed ''No route found'')
            | Some dests \<Rightarrow>
              if filter rd_active dests \<noteq> [] then Inr (filter rd_active dests)
              else Inl (RoutingFailed ''No route found''))))"

definition route_credit_transfer :: "MessageRouter \<Rightarrow> CreditTransferMessage \<Rightarrow> RouteDestination list IsoResult" where
  "route_credit_transfer r msg = route r (context_of_transfer msg)"

definition route_iso8583 :: "MessageRouter \<Rightarrow> Iso8583Message \<Rightarrow> RouteDestination list IsoResult" where
  "route_iso8583 r msg = route r (context_of_card msg)"

section \<open>Compliance\<close>

record ComplianceCheck =
  cc_name :: string
  cc_passed :: bool
  cc_message :: "string option"

record ComplianceResult =
  cr_passed :: bool
  cr_checks :: "ComplianceCheck list"
  cr_risk_score :: u8

record ComplianceChecker =
  ch_sanctioned_countries :: "string list"
  ch_high_risk_countries :: "string list"
  ch_edd_threshold :: u64

definition ComplianceChecker_new :: ComplianceChecker where
  "ComplianceChecker_new =
     \<lparr>ch_sanctioned_countries = [''KP'', ''IR'', ''SY'', ''CU''],
      ch_high_risk_countries = [''AF'', ''BY'', ''MM'', ''RU'', ''VE''], ch_edd_threshold = 1000000\<rparr>"

definition listed :: "string option \<Rightarrow> string list \<Rightarrow> bool" where
  "listed c cs \<longleftrightarrow> (case c of None \<Rightarrow> False | Some c \<Rightarrow> c \<in> set cs)"

definition compliance_check :: "ComplianceChecker \<Rightarrow> MessageContext \<Rightarrow> ComplianceResult" where
  "compliance_check ch ctx =
     (let debtor_sanctioned = listed (mc_debtor_country ctx) (ch_sanctioned_countries ch);
          creditor_sanctioned = listed (mc_creditor_country ctx) (ch_sanctioned_countries ch);
          sanctions = \<lparr>cc_name = ''Sanctions Screening'', cc_passed = (\<not> debtor_sanctioned \<and> \<not> creditor_sanctioned),
            cc_message = (if debtor_sanctioned \<or> creditor_sanctioned
                          then Some ''Transaction involves sanctioned jurisdiction'' else None)\<rparr>;
          risk = (if debtor_sanctioned \<or> creditor_sanctioned then 100 else 0 :: u8);
          high_risk = (listed (mc_debtor_country ctx) (ch_high_risk_countries ch)
                       \<or> listed (mc_creditor_country ctx) (ch_high_risk_countries ch));
          risk = (if high_risk then saturating_add risk 30 else risk);
          jurisdiction = \<lparr>cc_name = ''High Risk Jurisdiction'', cc_passed = True,
            cc_message = (if high_risk
              then Some ''Transaction involves high-risk jurisdiction - enhanced due diligence required'' else None)\<rparr>;
          large_transaction = (case mc_amount ctx of None \<Rightarrow> False | Some a \<Rightarrow> a \<ge> ch_edd_threshold ch);
          risk = (if large_transaction then saturating_add risk 20 else risk);
          large = \<lparr>cc_name = ''Large Transaction'', cc_passed = True,
            cc_message = (if large_transaction
              then Some (''Transaction exceeds $'' @ dec_digits (unat (ch_edd_threshold ch div 100))
                         @ '' threshold - reporting required'')
              else None)\<rparr>
      in \<lparr>cr_passed = (risk < 100), cr_checks = [sanctions, jurisdiction, large], cr_risk_score = risk\<rparr>)"

section \<open>Lemmas\<close>

text \<open>A rule that a context can use: it matches and has an active destination.\<close>

definition usable :: "MessageContext \<Rightarrow> RoutingRule \<Rightarrow> bool" where
  "usable ctx rule \<longleftrightarrow> mc_message_type ctx = Some (rr_message_type rule)
     \<and> condition_matches (rr_condition rule) ctx \<and> filter rd_active (rr_destinations rule) \<noteq> []"

lemma route_rules_find:
  "route_rules ctx rules = map_option (\<lambda>rule. filter rd_active (rr_destinations rule)) (find (usable ctx) rules)"
  by (induction rules) (auto simp: usable_def)

lemma sort_key_snoc_sorted: "sort_key f (sort_key f xs @ [x]) = sort_key f (xs @ [x])"
proof (rule properties_for_sort_key)
  show "mset (sort_key f (xs @ [x])) = mset (sort_key f xs @ [x])" by simp
  show "sorted (map f (sort_key f (xs @ [x])))" by simp
  fix k assume "k \<in> set (sort_key f (xs @ [x]))"
  show "filter (\<lambda>y. f k = f y) (sort_key f (xs @ [x])) = filter (\<lambda>y. f k = f y) (sort_key f xs @ [x])"
    by (simp add: eq_commute [of "f k"] sort_key_stable)
qed

lemma added_rules: "mr_rules (fold add_rule rs r) = sort_key rr_priority (mr_rules r @ rs)"
  if "sorted (map rr_priority (mr_rules r))"
proof (induction rs rule: rev_induct)
  case Nil
  with that show ?case using properties_for_sort_key [of "mr_rules r" "mr_rules r" rr_priority] by simp
next
  case (snoc x rs)
  then show ?case using sort_key_snoc_sorted [of rr_priority "mr_rules r @ rs" x] by (simp add: add_rule_def)
qed

lemma added_defaults: "mr_default_routes (fold add_rule rs r) = mr_default_routes r"
  by (induction rs arbitrary: r) (simp_all add: add_rule_def)

lemma find_hd: "find P xs = (case filter P xs of [] \<Rightarrow> None | x # _ \<Rightarrow> Some x)"
  by (induction xs) auto

lemma find_sort_key:
  "find P (sort_key f xs) = find (\<lambda>x. P x \<and> (\<forall>y \<in> set xs. P y \<longrightarrow> f x \<le> f y)) xs"
proof (cases "sort_key f (filter P xs)")
  case Nil
  then have "filter P xs = []" by (metis length_0_conv length_sort)
  moreover from this have "filter (\<lambda>x. P x \<and> (\<forall>y \<in> set xs. P y \<longrightarrow> f x \<le> f y)) xs = []" by (auto simp: filter_empty_conv)
  ultimately show ?thesis using Nil by (simp add: find_hd filter_sort)
next
  case (Cons b bs)
  have "sorted (map f (b # bs))" using Cons by (metis sorted_sort_key)
  moreover have mem: "set (b # bs) = {x \<in> set xs. P x}" using Cons by (metis set_filter set_sort)
  ultimately have "b \<in> set xs" "P b" "\<forall>y \<in> set xs. P y \<longrightarrow> f b \<le> f y" by (auto simp: set_eq_iff)
  then have min: "P x \<and> x \<in> set xs \<Longrightarrow> (\<forall>y \<in> set xs. P y \<longrightarrow> f x \<le> f y) \<longleftrightarrow> f x = f b" for x
    by (auto intro: antisym)
  have "filter (\<lambda>x. P x \<and> (\<forall>y \<in> set xs. P y \<longrightarrow> f x \<le> f y)) xs = filter (\<lambda>x. P x \<and> f x = f b) xs"
    using min by (intro filter_cong) auto
  also have "\<dots> = filter (\<lambda>x. f x = f b) (filter P xs)" by (simp add: conj_commute)
  also have "\<dots> = filter (\<lambda>x. f x = f b) (b # bs)" using sort_key_stable [of "f" "f b" "filter P xs"] Cons by simp
  finally show ?thesis using Cons by (simp add: find_hd filter_sort)
qed

section \<open>Properties\<close>

text \<open>
  (C32) Routing is determined by the rules added and not by the order of the internal list: a message
  goes to the active destinations of the matching rule of lowest priority number, the earliest added
  among equals, that has an active destination; without one to the active default destinations of
  its type; and otherwise routing fails.
\<close>

theorem route_best_rule:
  "route (fold add_rule rs (MessageRouter_new\<lparr>mr_default_routes := ds\<rparr>)) ctx
    = (case find (\<lambda>r. usable ctx r \<and> (\<forall>s \<in> set rs. usable ctx s \<longrightarrow> rr_priority r \<le> rr_priority s)) rs of
         Some r \<Rightarrow> Inr (filter rd_active (rr_destinations r))
       | None \<Rightarrow> (case Option.bind (mc_message_type ctx) (hget ds) of
                    Some dests \<Rightarrow> if filter rd_active dests \<noteq> [] then Inr (filter rd_active dests)
                                  else Inl (RoutingFailed ''No route found'')
                  | None \<Rightarrow> Inl (RoutingFailed ''No route found'')))"
  by (simp add: route_def route_rules_find added_rules added_defaults find_sort_key MessageRouter_new_def split: option.split)

definition demo_rule :: "string \<Rightarrow> u8 \<Rightarrow> RoutingCondition \<Rightarrow> RoutingRule" where
  "demo_rule d k c = \<lparr>rr_id = d, rr_name = d, rr_message_type = CreditTransfer, rr_condition = c, rr_destinations =
     [\<lparr>rd_destination_id = d, rd_destination_type = Sepa, rd_priority = 1, rd_active = True, rd_metadata = []\<rparr>], rr_priority = k\<rparr>"

theorem route_best_rule_witness:
  "route (fold add_rule [demo_rule ''any'' 9 Always, demo_rule ''usd'' 1 (CurrencyIs ''USD''), demo_rule ''eur'' 3 (CurrencyIs ''EUR'')]
       (MessageRouter_new\<lparr>mr_default_routes := []\<rparr>))
     (MessageContext_default\<lparr>mc_message_type := Some CreditTransfer, mc_currency := Some ''EUR''\<rparr>)
    = Inr [\<lparr>rd_destination_id = ''eur'', rd_destination_type = Sepa, rd_priority = 1, rd_active = True, rd_metadata = []\<rparr>]"
  unfolding route_best_rule by (simp add: usable_def demo_rule_def MessageContext_default_def)

text \<open>
  The compliance check passes exactly the messages that involve no sanctioned country: warnings
  for high-risk countries and large amounts raise the risk score by 30 and 20 but never to 100, and the
  score of a sanctioned message stays below the top of its type, so it cannot wrap around.
\<close>

theorem compliance_exact:
  "let res = compliance_check ch ctx;
       sanctioned = (listed (mc_debtor_country ctx) (ch_sanctioned_countries ch)
                     \<or> listed (mc_creditor_country ctx) (ch_sanctioned_countries ch));
       risky = (listed (mc_debtor_country ctx) (ch_high_risk_countries ch)
                \<or> listed (mc_creditor_country ctx) (ch_high_risk_countries ch));
       large = (\<exists>a. mc_amount ctx = Some a \<and> ch_edd_threshold ch \<le> a)
   in cr_passed res = (\<not> sanctioned)
      \<and> unat (cr_risk_score res) = (if sanctioned then 100 else 0) + (if risky then 30 else 0) + (if large then 20 else 0)
      \<and> map cc_message (cr_checks res) ! 2 \<noteq> None = large"
  by (cases "mc_amount ctx") (simp_all add: compliance_check_def Let_def saturating_add_def)

text \<open>
  A blank in front of an IBAN evades the sanctions screening: validation ignores the blank, while
  the country of the screening is made of the first two characters as they stand. A credit transfer
  from an account of a country that is not sanctioned to any account passes the check.
\<close>

theorem leading_blank_evades_sanctions:
  assumes "\<not> listed (first_two (in_debtor_iban x)) (ch_sanctioned_countries ComplianceChecker_new)"
  shows "validate_iban rx (CHR '' '' # s) = validate_iban rx s
    \<and> cr_passed (compliance_check ComplianceChecker_new
        (context_of_transfer (create_credit_transfer dt d rnd (x\<lparr>in_creditor_iban := CHR '' '' # s\<rparr>))))"
proof -
  have "clean_iban (CHR '' '' # s) = clean_iban s" by (simp add: clean_iban_def)
  moreover have "\<not> listed (first_two (CHR '' '' # s)) (ch_sanctioned_countries ComplianceChecker_new)"
    by (auto simp: first_two_def listed_def ComplianceChecker_new_def)
  ultimately show ?thesis
    using assms by (auto simp: validate_iban_def compliance_check_def Let_def context_of_transfer_def
        create_credit_transfer_def iban_only_def saturating_add_def split: option.split)
qed

definition demo_transfer :: transfer_input where
  "demo_transfer = \<lparr>in_message_id = ''MSG001'', in_debtor_name = ''John Doe'', in_debtor_iban = ''DE89370400440532013000'',
     in_debtor_bic = ''COBADEFFXXX'', in_creditor_name = ''Jane Smith'', in_creditor_iban = ''KP1234'',
     in_creditor_bic = ''BUKBGB22XXX'', in_amount = ''1000000000.00'', in_currency = ''EUR'', in_reference = ''Invoice''\<rparr>"

theorem leading_blank_evades_sanctions_witness:
  "\<not> cr_passed (compliance_check ComplianceChecker_new
        (context_of_transfer (create_credit_transfer ''t'' ''d'' (replicate 16 0) demo_transfer)))
   \<and> cr_passed (compliance_check ComplianceChecker_new
        (context_of_transfer (create_credit_transfer ''t'' ''d'' (replicate 16 0)
           (demo_transfer\<lparr>in_creditor_iban := '' KP1234''\<rparr>))))"
proof (rule conjI)
  show "\<not> cr_passed (compliance_check ComplianceChecker_new
        (context_of_transfer (create_credit_transfer ''t'' ''d'' (replicate 16 0) demo_transfer)))"
    by (simp add: compliance_check_def Let_def context_of_transfer_def create_credit_transfer_def demo_transfer_def
        iban_only_def first_two_def listed_def ComplianceChecker_new_def saturating_add_def split: option.split)
  have "\<not> listed (first_two (in_debtor_iban demo_transfer)) (ch_sanctioned_countries ComplianceChecker_new)"
    by (simp add: demo_transfer_def first_two_def listed_def ComplianceChecker_new_def)
  from leading_blank_evades_sanctions [OF this, of ref_regex "''KP1234''"]
  show "cr_passed (compliance_check ComplianceChecker_new
        (context_of_transfer (create_credit_transfer ''t'' ''d'' (replicate 16 0)
           (demo_transfer\<lparr>in_creditor_iban := '' KP1234''\<rparr>))))" by blast
qed

text \<open>
  Amounts with a decimal point are not seen: the amount of a credit transfer is parsed as a whole
  number, so no amount rule matches \<open>1000.00\<close> and the large transaction check stays silent.
\<close>

theorem decimal_amounts_unseen:
  assumes "CHR ''.'' \<in> set (in_amount x)" and "ctx = context_of_transfer (create_credit_transfer dt d rnd x)"
  shows "mc_amount ctx = None \<and> \<not> condition_matches (AmountGreaterThan n) ctx
    \<and> cc_message (cr_checks (compliance_check ch ctx) ! 2) = None"
  using assms(1) unfolding assms(2)
  by (simp add: context_of_transfer_def create_credit_transfer_def parse_uint_None_dot compliance_check_def Let_def)

theorem decimal_amounts_unseen_witness:
  "mc_amount (context_of_transfer (create_credit_transfer ''t'' ''d'' (replicate 16 0) demo_transfer)) = None"
proof -
  have "CHR ''.'' \<in> set (in_amount demo_transfer)" by (simp add: demo_transfer_def)
  from decimal_amounts_unseen [OF this refl] show ?thesis by blast
qed

end
