(* ===== verification/Address_Text.thy ===== *)
theory Address_Text
  imports Address Rust_Text
begin

text \<open>
  Text forms of addresses, \<^verbatim>\<open>src/crates/nexus-primitives/src/address.rs\<close>: parsing from hexadecimal and
  the checksum string of EIP-55. The decoder of the crate \<open>hex\<close> is a parameter; what the code relies on
  is that it reads the encoder's output back, in either case of the letters.
\<close>

section \<open>The code\<close>

datatype FromHexError = InvalidHexCharacter char nat | OddLength | InvalidStringLength

type_synonym hex_decoder = "string \<Rightarrow> FromHexError + u8 list"

definition strip_prefix :: "string \<Rightarrow> string \<Rightarrow> string option" where
  "strip_prefix p s = (if starts_with s p then Some (drop (length p) s) else None)"

definition Address_from_hex :: "hex_decoder \<Rightarrow> string \<Rightarrow> FromHexError + Address" where
  "Address_from_hex dec s =
     (let s = (case strip_prefix ''0x'' s of Some t \<Rightarrow> t | None \<Rightarrow> s)
      in case dec s of Inl e \<Rightarrow> Inl e
         | Inr bytes \<Rightarrow> if length bytes \<noteq> 20 then Inl InvalidStringLength else Inr (Address_new bytes))"

definition ascii_uppercase :: "char \<Rightarrow> char" where
  "ascii_uppercase c = (if is_ascii_lower c then char_of ((of_char c :: nat) - 32) else c)"

definition checksum_char :: "u8 list \<Rightarrow> nat \<Rightarrow> char \<Rightarrow> char" where
  "checksum_char hash i c =
     (let nibble = (if i mod 2 = 0 then unat (hash ! (i div 2)) div 16 mod 16 else unat (hash ! (i div 2)) mod 16)
      in if nibble \<ge> 8 then ascii_uppercase c else c)"

definition to_checksum_string :: "crypto_lib \<Rightarrow> Address \<Rightarrow> string" where
  "to_checksum_string lib a =
     (let hex_addr = hex_encode (addr_bytes a);
          hash = keccak256 lib (bytes_of hex_addr)
      in ''0x'' @ map (\<lambda>(i, c). checksum_char hash i c) (enumerate 0 hex_addr))"

definition Address_debug :: "Address \<Rightarrow> string" where
  "Address_debug a = ''0x'' @ hex_encode (addr_bytes a)"

definition Address_display :: "crypto_lib \<Rightarrow> Address \<Rightarrow> string" where
  "Address_display lib a = to_checksum_string lib a"

section \<open>Lower case\<close>

text \<open>What is relied on of the decoder, and a decoder that has it.\<close>

definition decodes_hex :: "hex_decoder \<Rightarrow> bool" where
  "decodes_hex dec \<longleftrightarrow> (\<forall>s bs. to_lowercase s = hex_encode bs \<longrightarrow> dec s = Inr bs)"

lemma hex_digit_class: "n < 16 \<Longrightarrow> is_ascii_digit (hex_digit n) \<or> is_ascii_lower (hex_digit n)"
  by (auto simp: hex_digit_def is_ascii_digit_def is_ascii_lower_def)

lemma lower_digit:
  "is_ascii_digit c \<or> is_ascii_lower c \<Longrightarrow> to_lowercase [c] = [c] \<and> to_lowercase [ascii_uppercase c] = [c]"
  by (auto simp: to_lowercase_def ascii_uppercase_def is_ascii_digit_def is_ascii_lower_def is_ascii_upper_def)

lemma byte_nibble: "unat (b :: u8) div 16 < 16" "unat b mod 16 < 16"
  using unat_lt2p [of b] by simp_all

lemma hex_encode_class: "c \<in> set (hex_encode bs) \<Longrightarrow> is_ascii_digit c \<or> is_ascii_lower c"
  using hex_digit_class [OF byte_nibble(1)] hex_digit_class [OF byte_nibble(2)]
  by (induction bs) (auto simp: hex_encode_def)

lemma lower_hex_encode: "to_lowercase (hex_encode bs) = hex_encode bs"
  using hex_encode_class lower_digit by (fastforce simp: to_lowercase_def intro: map_idI)

lemma decode_encode: "decodes_hex dec \<Longrightarrow> dec (hex_encode bs) = Inr bs"
  by (simp add: decodes_hex_def lower_hex_encode)

lemma lower_checksum:
  "(\<And>c. c \<in> set s \<Longrightarrow> is_ascii_digit c \<or> is_ascii_lower c) \<Longrightarrow>
   to_lowercase (map (\<lambda>(i, c). checksum_char hash i c) (enumerate k s)) = s"
proof (induction s arbitrary: k)
  case (Cons c s)
  have "to_lowercase [checksum_char hash k c] = [c]"
    using lower_digit [of c] Cons.prems by (simp add: checksum_char_def Let_def)
  with Cons show ?case by (simp add: to_lowercase_def)
qed (simp add: to_lowercase_def)

lemma Address_new_bytes: "Address_new (addr_bytes a) = a"
  using unat_lt2p [of a] by (simp add: Address_new_def addr_bytes_def be_val_be_bytes)

lemma strip_0x [simp]: "strip_prefix ''0x'' (CHR ''0'' # CHR ''x'' # s) = Some s"
  by (simp add: strip_prefix_def starts_with_def)

fun decode_pairs :: "nat \<Rightarrow> string \<Rightarrow> FromHexError + u8 list" where
  "decode_pairs i (c # d # s) =
     (case (hex_val c, hex_val d) of
        (None, _) \<Rightarrow> Inl (InvalidHexCharacter c i)
      | (_, None) \<Rightarrow> Inl (InvalidHexCharacter d (Suc i))
      | (Some h, Some l) \<Rightarrow> map_sum (\<lambda>e. e) ((#) (of_nat (16 * h + l))) (decode_pairs (i + 2) s))"
| "decode_pairs i s = Inr []"

definition ref_decoder :: hex_decoder where
  "ref_decoder s = (if odd (length s) then Inl OddLength else decode_pairs 0 s)"

lemma hex_val_lower: "n < 16 \<Longrightarrow> to_lowercase [c] = [hex_digit n] \<Longrightarrow> hex_val c = Some n"
  by (auto simp: to_lowercase_def hex_digit_def hex_val_def is_ascii_digit_def is_ascii_upper_def split: if_splits)

lemma decode_pairs_encode:
  "to_lowercase s = hex_encode bs \<Longrightarrow> even (length s) \<and> decode_pairs i s = Inr bs"
proof (induction bs arbitrary: s i)
  case (Cons b bs)
  then obtain c d t where s: "s = c # d # t" "to_lowercase [c] = [hex_digit (unat b div 16)]"
      "to_lowercase [d] = [hex_digit (unat b mod 16)]" "to_lowercase t = hex_encode bs"
    by (auto simp: to_lowercase_def hex_encode_def map_eq_Cons_conv)
  then have "hex_val c = Some (unat b div 16)" "hex_val d = Some (unat b mod 16)"
    using hex_val_lower byte_nibble by blast+
  moreover have "of_nat (16 * (unat b div 16) + unat b mod 16) = b" by simp
  ultimately show ?case using Cons.IH [OF s(4)] s(1) by (simp del: of_nat_add of_nat_mult)
qed (simp add: to_lowercase_def hex_encode_def)

lemma ref_decodes_hex: "decodes_hex ref_decoder"
  using decode_pairs_encode by (auto simp: decodes_hex_def ref_decoder_def)

section \<open>Properties\<close>

text \<open>
  \<^bold>\<open>Checksum strings parse back\<close>. The checksum string and the debug string of an address parse to the
  address, whatever the digest that decides the case of the letters.
\<close>

theorem address_text_roundtrip:
  assumes "decodes_hex dec"
  shows "Address_from_hex dec (to_checksum_string lib a) = Inr a \<and> Address_from_hex dec (Address_debug a) = Inr a"
proof -
  have "to_lowercase (map (\<lambda>(i, c). checksum_char hash i c) (enumerate 0 (hex_encode (addr_bytes a))))
      = hex_encode (addr_bytes a)" for hash
    by (rule lower_checksum) (rule hex_encode_class)
  moreover have "to_lowercase (hex_encode (addr_bytes a)) = hex_encode (addr_bytes a)"
    using hex_encode_class lower_digit by (fastforce simp: to_lowercase_def intro: map_idI)
  ultimately have "dec (map (\<lambda>(i, c). checksum_char hash i c) (enumerate 0 (hex_encode (addr_bytes a)))) = Inr (addr_bytes a)"
      "dec (hex_encode (addr_bytes a)) = Inr (addr_bytes a)" for hash
    using assms by (auto simp: decodes_hex_def)
  then show ?thesis by (simp add: Address_from_hex_def to_checksum_string_def Address_debug_def Let_def Address_new_bytes)
qed

theorem address_text_roundtrip_witness:
  "Address_from_hex ref_decoder (to_checksum_string demo_lib 0xdead) = Inr 0xdead"
  using address_text_roundtrip [OF ref_decodes_hex, of demo_lib "0xdead"] by simp

end
