(* ===== verification/Hybrid.thy ===== *)
theory Hybrid
  imports Bft Address_Text
begin

text \<open>
  The audit log and the hybrid engine, \<^verbatim>\<open>src/crates/nexus-consensus/src/iso_logger.rs\<close> and
  \<^verbatim>\<open>src/crates/nexus-consensus/src/hybrid_consensus.rs\<close>: a hash-chained log whose lines are appended to a
  file, and the engine that elects a leader by stake, logs a proposal and hands it to the BFT engine.
  The JSON printer, the digest, the file system and the weighted sampler are parameters; the clock's
  text comes with each call. The files are a map from paths to lists of lines.
\<close>

section \<open>The audit log\<close>

record IsoLogEntry =
  le_seq :: u64
  le_timestamp :: string
  le_component :: string
  le_message :: string
  le_prev_hash :: string
  le_hash :: string

record IsoLogger =
  il_path :: string
  il_seq :: u64
  il_prev_hash :: string

type_synonym files = "(string, string list) hmap"

record log_lib =
  entry_json :: "IsoLogEntry \<Rightarrow> string"
  sha256 :: "u8 list \<Rightarrow> u8 list"
  can_append :: "string \<Rightarrow> bool"

definition IsoLogger_new :: "string \<Rightarrow> IsoLogger" where
  "IsoLogger_new path = \<lparr>il_path = path, il_seq = 0, il_prev_hash = ''0''\<rparr>"

definition log_compute_hash :: "log_lib \<Rightarrow> IsoLogEntry \<Rightarrow> string" where
  "log_compute_hash ll e = hex_encode (sha256 ll (bytes_of (entry_json ll e)))"

definition append_line :: "string \<Rightarrow> string \<Rightarrow> files \<Rightarrow> files" where
  "append_line path line fs = hput path ((case hget fs path of None \<Rightarrow> [] | Some ls \<Rightarrow> ls) @ [line]) fs"

definition log_entry :: "log_lib \<Rightarrow> IsoLogger \<Rightarrow> string \<Rightarrow> string \<Rightarrow> string \<Rightarrow> IsoLogEntry" where
  "log_entry ll l now component message =
     (let entry = \<lparr>le_seq = il_seq l, le_timestamp = now, le_component = component, le_message = message,
                   le_prev_hash = il_prev_hash l, le_hash = []\<rparr>
      in entry\<lparr>le_hash := log_compute_hash ll entry\<rparr>)"

definition iso_log :: "log_lib \<Rightarrow> string \<Rightarrow> string \<Rightarrow> string \<Rightarrow> IsoLogger \<times> files \<Rightarrow> (IsoLogger \<times> files) run" where
  "iso_log ll now component message st =
     (let (l, fs) = st;
          l = l\<lparr>il_seq := il_seq l + 1\<rparr>;
          entry = log_entry ll l now component message
      in if can_append ll (il_path l)
         then Ret (l\<lparr>il_prev_hash := le_hash entry\<rparr>, append_line (il_path l) (entry_json ll entry) fs)
         else Panic)"

section \<open>The hybrid engine\<close>

record 'k HybridConsensus =
  hc_bft :: "'k BftConsensus"
  hc_epoch :: u64
  hc_stakes :: "(Address, u64) hmap"

definition HybridConsensus_new :: "'k BftConsensus \<Rightarrow> (Address, u64) hmap \<Rightarrow> 'k HybridConsensus" where
  "HybridConsensus_new bft stakes = \<lparr>hc_bft = bft, hc_epoch = 0, hc_stakes = stakes\<rparr>"

text \<open>The sampler returns an index for the weights, or nothing for weights it refuses.\<close>

definition elect_leader :: "(u64 list \<Rightarrow> nat option) \<Rightarrow> 'k HybridConsensus \<Rightarrow> Address option run" where
  "elect_leader sample h =
     (let addresses = map fst (hc_stakes h); weights = map snd (hc_stakes h)
      in if addresses = [] then Ret None
         else case sample weights of None \<Rightarrow> Ret None
              | Some idx \<Rightarrow> if idx < length addresses then Ret (Some (addresses ! idx)) else Panic)"

definition hybrid_on_proposal ::
    "crypto_lib \<Rightarrow> 'k key_lib \<Rightarrow> log_lib \<Rightarrow> string \<Rightarrow> Proposal \<Rightarrow> (IsoLogger \<times> files) option \<Rightarrow> 'k HybridConsensus
     \<Rightarrow> ('k HybridConsensus \<times> (IsoLogger \<times> files) option \<times> unit ConsensusResult) run" where
  "hybrid_on_proposal lib kl ll now p logger h =
     run_bind (case logger of None \<Rightarrow> Ret None
               | Some st \<Rightarrow>
                   run_map Some (iso_log ll now ''HybridConsensus''
                     (''Proposal from '' @ Address_display lib (pr_proposer p) @ '' epoch ''
                      @ dec_digits (unat (pr_epoch p)) @ '' view '' @ dec_digits (unat (pr_view p))) st))
       (\<lambda>logger. run_map (\<lambda>(bft, res). (h\<lparr>hc_bft := bft\<rparr>, logger, res)) (on_proposal lib kl p (hc_bft h)))"

definition hybrid_advance_epoch :: "'k HybridConsensus \<Rightarrow> 'k HybridConsensus" where
  "hybrid_advance_epoch h = h\<lparr>hc_epoch := hc_epoch h + 1\<rparr>"

section \<open>The chain of entries\<close>

text \<open>
  What it is for entries to be chained: sequence numbers, links and hashes, from a given start. The crate has no
  check of a log; this condition serves to state what \<open>log\<close> writes.
\<close>

fun chain_ok :: "log_lib \<Rightarrow> u64 \<Rightarrow> string \<Rightarrow> IsoLogEntry list \<Rightarrow> bool" where
  "chain_ok ll seq prev [] \<longleftrightarrow> True"
| "chain_ok ll seq prev (e # es) \<longleftrightarrow>
     le_seq e = seq + 1 \<and> le_prev_hash e = prev \<and> le_hash e = log_compute_hash ll (e\<lparr>le_hash := []\<rparr>)
     \<and> chain_ok ll (seq + 1) (le_hash e) es"

fun log_all :: "log_lib \<Rightarrow> (string \<times> string \<times> string) list \<Rightarrow> IsoLogger \<times> files \<Rightarrow> (IsoLogger \<times> files) run" where
  "log_all ll [] st = Ret st"
| "log_all ll ((now, c, m) # ms) st = run_bind (iso_log ll now c m st) (log_all ll ms)"

definition file_of :: "files \<Rightarrow> string \<Rightarrow> string list" where
  "file_of fs path = (case hget fs path of None \<Rightarrow> [] | Some ls \<Rightarrow> ls)"

fun entries_of :: "log_lib \<Rightarrow> IsoLogger \<Rightarrow> (string \<times> string \<times> string) list \<Rightarrow> IsoLogEntry list" where
  "entries_of ll l [] = []"
| "entries_of ll l ((now, c, m) # ms) =
     (let e = log_entry ll (l\<lparr>il_seq := il_seq l + 1\<rparr>) now c m
      in e # entries_of ll (l\<lparr>il_seq := il_seq l + 1, il_prev_hash := le_hash e\<rparr>) ms)"

lemma file_of_append [simp]: "file_of (append_line p line fs) q = (if q = p then file_of fs p @ [line] else file_of fs q)"
  by (simp add: file_of_def append_line_def)

lemma log_entry_fields [simp]:
  "le_seq (log_entry ll l now c m) = il_seq l" "le_prev_hash (log_entry ll l now c m) = il_prev_hash l"
  "le_component (log_entry ll l now c m) = c" "le_message (log_entry ll l now c m) = m"
  "le_timestamp (log_entry ll l now c m) = now"
  "log_compute_hash ll ((log_entry ll l now c m)\<lparr>le_hash := []\<rparr>) = le_hash (log_entry ll l now c m)"
  by (simp_all add: log_entry_def Let_def)

lemma log_all_entries:
  assumes "can_append ll (il_path l)"
  shows "\<exists>l' fs'. log_all ll ms (l, fs) = Ret (l', fs') \<and> il_path l' = il_path l
    \<and> il_seq l' = il_seq l + of_nat (length ms)
    \<and> file_of fs' (il_path l) = file_of fs (il_path l) @ map (entry_json ll) (entries_of ll l ms)"
  using assms
proof (induction ms arbitrary: l fs)
  case (Cons e ms)
  obtain now c m where e: "e = (now, c, m)" by (cases e) auto
  let ?e = "log_entry ll (l\<lparr>il_seq := il_seq l + 1\<rparr>) now c m"
  let ?l = "l\<lparr>il_seq := il_seq l + 1, il_prev_hash := le_hash ?e\<rparr>"
  have "iso_log ll now c m (l, fs) = Ret (?l, append_line (il_path l) (entry_json ll ?e) fs)"
    using Cons.prems by (simp add: iso_log_def Let_def)
  with Cons.IH [of ?l "append_line (il_path l) (entry_json ll ?e) fs"] Cons.prems e show ?case
    by (auto simp: Let_def algebra_simps)
qed simp

lemma entries_chain: "chain_ok ll (il_seq l) (il_prev_hash l) (entries_of ll l ms)"
  by (induction ll l ms rule: entries_of.induct) (auto simp: Let_def)

lemma new_entries_chain: "chain_ok ll 0 ''0'' (entries_of ll (IsoLogger_new path) ms)"
  using entries_chain [of ll "IsoLogger_new path" ms] by (simp add: IsoLogger_new_def)

lemma entries_content:
  "map (\<lambda>e. (le_timestamp e, le_component e, le_message e)) (entries_of ll l ms) = ms"
  by (induction ll l ms rule: entries_of.induct) (auto simp: Let_def)

lemma chain_append:
  "chain_ok ll seq prev (es @ fs) \<longleftrightarrow> chain_ok ll seq prev es
     \<and> chain_ok ll (seq + of_nat (length es)) (if es = [] then prev else le_hash (last es)) fs"
  by (induction es arbitrary: seq prev) (auto simp: algebra_simps)

lemma chain_equal:
  assumes "inj_on (log_compute_hash ll) ((\<lambda>e. e\<lparr>le_hash := []\<rparr>) ` (set es \<union> set fs))"
    and "chain_ok ll seq prev es" and "chain_ok ll seq prev fs" and "length es = length fs"
    and "es \<noteq> []" and "le_hash (last es) = le_hash (last fs)"
  shows "es = fs"
  using assms
proof (induction es arbitrary: fs rule: rev_induct)
  case (snoc e es)
  obtain f fs' where fs: "fs = fs' @ [f]" using snoc.prems(4) by (cases fs rule: rev_cases) simp_all
  have ok: "chain_ok ll seq prev es" "chain_ok ll seq prev fs'"
    and h: "le_hash e = log_compute_hash ll (e\<lparr>le_hash := []\<rparr>)" "le_hash f = log_compute_hash ll (f\<lparr>le_hash := []\<rparr>)"
    and prev: "le_prev_hash e = (if es = [] then prev else le_hash (last es))"
      "le_prev_hash f = (if fs' = [] then prev else le_hash (last fs'))"
    using snoc.prems(2,3) fs by (auto simp: chain_append)
  have "e\<lparr>le_hash := []\<rparr> = f\<lparr>le_hash := []\<rparr>"
    using inj_onD [OF snoc.prems(1), of "e\<lparr>le_hash := []\<rparr>" "f\<lparr>le_hash := []\<rparr>"] h snoc.prems(6) fs by simp
  with h have ef: "e = f" by (metis IsoLogEntry.equality IsoLogEntry.select_convs IsoLogEntry.surjective IsoLogEntry.update_convs(6))
  have len: "length es = length fs'" using snoc.prems(4) fs by simp
  show ?case
  proof (cases "es = []")
    case False
    then have ne: "fs' \<noteq> []" using len by auto
    then have "le_hash (last es) = le_hash (last fs')" using prev ef False by simp
    moreover have "inj_on (log_compute_hash ll) ((\<lambda>e. e\<lparr>le_hash := []\<rparr>) ` (set es \<union> set fs'))"
      using snoc.prems(1) fs by (auto intro: inj_on_subset)
    ultimately show ?thesis using snoc.IH [of fs'] ok len False ef fs by simp
  qed (use len ef fs in simp)
qed simp

lemma chain_last_seq: "chain_ok ll seq prev es \<Longrightarrow> es \<noteq> [] \<Longrightarrow> le_seq (last es) = seq + of_nat (length es)"
  by (cases es rule: rev_cases) (auto simp: chain_append algebra_simps)

text \<open>The entries that \<open>log\<close> hashes, and what a run of the logger leaves.\<close>

definition hashed_entries :: "log_lib \<Rightarrow> (string \<times> string \<times> string) list \<Rightarrow> IsoLogEntry set" where
  "hashed_entries ll ms = (\<lambda>e. e\<lparr>le_hash := []\<rparr>) ` set (entries_of ll (IsoLogger_new []) ms)"

lemma entries_path:
  "il_seq l = il_seq l' \<Longrightarrow> il_prev_hash l = il_prev_hash l' \<Longrightarrow> entries_of ll l ms = entries_of ll l' ms"
proof (induction ms arbitrary: l l')
  case (Cons e ms)
  obtain now c m where e: "e = (now, c, m)" by (cases e) auto
  let ?e = "log_entry ll (l\<lparr>il_seq := il_seq l + 1\<rparr>) now c m"
  have "log_entry ll (l'\<lparr>il_seq := il_seq l' + 1\<rparr>) now c m = ?e" using Cons.prems by (simp add: log_entry_def Let_def)
  moreover have "entries_of ll (l\<lparr>il_seq := il_seq l + 1, il_prev_hash := le_hash ?e\<rparr>) ms
      = entries_of ll (l'\<lparr>il_seq := il_seq l' + 1, il_prev_hash := le_hash ?e\<rparr>) ms"
    by (rule Cons.IH) (simp_all add: Cons.prems)
  ultimately show ?case using e by (simp add: Let_def)
qed simp

lemma new_entries_path: "entries_of ll (IsoLogger_new p) ms = entries_of ll (IsoLogger_new []) ms"
  by (rule entries_path) (simp_all add: IsoLogger_new_def)

lemma log_all_result:
  assumes "log_all ll ms (l, fs) = Ret (l', fs')"
  shows "il_prev_hash l' = (if ms = [] then il_prev_hash l else le_hash (last (entries_of ll l ms)))
    \<and> file_of fs' (il_path l) = file_of fs (il_path l) @ map (entry_json ll) (entries_of ll l ms)"
  using assms
proof (induction ms arbitrary: l fs)
  case (Cons e ms)
  obtain now c m where e: "e = (now, c, m)" by (cases e) auto
  let ?e = "log_entry ll (l\<lparr>il_seq := il_seq l + 1\<rparr>) now c m"
  let ?l = "l\<lparr>il_seq := il_seq l + 1, il_prev_hash := le_hash ?e\<rparr>"
  have "log_all ll ms (?l, append_line (il_path l) (entry_json ll ?e) fs) = Ret (l', fs')"
    using Cons.prems e by (auto simp: iso_log_def Let_def split: if_splits)
  from Cons.IH [OF this] e show ?case by (cases ms) (auto simp: Let_def)
qed simp

lemma hex_encode_inject: "hex_encode bs = hex_encode cs \<Longrightarrow> bs = cs"
  by (metis decode_encode ref_decodes_hex sum.inject(2))

lemma log_compute_hash_inj:
  assumes "inj_on (entry_json ll) H" and "inj_on (sha256 ll) ((\<lambda>e. bytes_of (entry_json ll e)) ` H)"
  shows "inj_on (log_compute_hash ll) H"
proof (rule inj_onI)
  fix e f assume ef: "e \<in> H" "f \<in> H" "log_compute_hash ll e = log_compute_hash ll f"
  then have "sha256 ll (bytes_of (entry_json ll e)) = sha256 ll (bytes_of (entry_json ll f))"
    by (auto simp: log_compute_hash_def dest: hex_encode_inject)
  then have "bytes_of (entry_json ll e) = bytes_of (entry_json ll f)" by (rule inj_onD [OF assms(2)]) (use ef in simp_all)
  then have "entry_json ll e = entry_json ll f" by (metis text_of_bytes_of)
  then show "e = f" by (rule inj_onD [OF assms(1)]) (use ef in simp_all)
qed

lemma logged_hash: "ms \<noteq> [] \<Longrightarrow> le_hash (last (entries_of ll l ms)) = log_compute_hash ll ((last (entries_of ll l ms))\<lparr>le_hash := []\<rparr>)"
  using entries_chain [of ll l ms] entries_content [of ll l ms]
  by (cases "entries_of ll l ms" rule: rev_cases) (auto simp: chain_append)

lemma hex_not_zero: "log_compute_hash ll e \<noteq> ''0''"
proof
  assume "log_compute_hash ll e = ''0''"
  then have "length (hex_encode (sha256 ll (bytes_of (entry_json ll e)))) = 1" by (simp add: log_compute_hash_def)
  moreover have "length (hex_encode bs) = 2 * length bs" for bs by (induction bs) (simp_all add: hex_encode_def)
  ultimately show False by simp
qed

lemma logged_not_zero: "ms \<noteq> [] \<Longrightarrow> le_hash (last (entries_of ll l ms)) \<noteq> ''0''"
  by (simp add: logged_hash hex_not_zero)

section \<open>Properties\<close>

text \<open>
  \<^bold>\<open>The audit log is a hash chain\<close>. A logger that starts on a path with no lines writes, for any
  sequence of messages, exactly one line per message, in order; the entries carry the messages,
  are numbered from one, link each to the hash of its predecessor, the first to \<open>0\<close>, and each carries
  the hash of its own contents.
\<close>

theorem audit_log_chain:
  assumes "can_append ll path" and "file_of fs path = []"
  shows "\<exists>l' fs' es. log_all ll ms (IsoLogger_new path, fs) = Ret (l', fs')
    \<and> file_of fs' path = map (entry_json ll) es \<and> chain_ok ll 0 ''0'' es
    \<and> map (\<lambda>e. (le_timestamp e, le_component e, le_message e)) es = ms"
  using log_all_entries [of ll "IsoLogger_new path" ms fs] assms entries_chain [of ll "IsoLogger_new path" ms]
    entries_content [of ll "IsoLogger_new path" ms]
  by (auto simp: IsoLogger_new_def)

definition demo_log_lib :: log_lib where
  "demo_log_lib = \<lparr>entry_json = (\<lambda>e. le_component e @ le_message e @ le_prev_hash e), sha256 = (\<lambda>bs. [sum_list bs]), can_append = (\<lambda>_. True)\<rparr>"

theorem audit_log_chain_witness:
  "\<exists>l' fs' es. log_all demo_log_lib [(''t'', ''a'', ''b''), (''u'', ''a'', ''c'')] (IsoLogger_new ''log'', []) = Ret (l', fs')
    \<and> file_of fs' ''log'' = map (entry_json demo_log_lib) es \<and> chain_ok demo_log_lib 0 ''0'' es
    \<and> map le_message es = [''b'', ''c'']"
proof -
  have "can_append demo_log_lib ''log''" "file_of [] ''log'' = []" by (simp_all add: demo_log_lib_def file_of_def)
  from audit_log_chain [OF this, of "[(''t'', ''a'', ''b''), (''u'', ''a'', ''c'')]"]
  show ?thesis by fastforce
qed

text \<open>
  (C24) \<^bold>\<open>The last link of a logger determines the whole log\<close>. Take two runs of new loggers, on any files, with any
  messages. If the loggers end with the same link, they have logged the same messages with the same
  time stamps, in the same order, and appended the same lines, one for each message. No message can be changed, dropped, added or
  moved without changing the last link. The hypotheses are that JSON texts of different entries of the
  two runs differ and that the digest does not collide on these texts, and that the runs do not exhaust
  the sequence numbers.
\<close>

theorem audit_log_binds:
  assumes "log_all ll xs (IsoLogger_new p, fs) = Ret (l, fs')" and "log_all ll ys (IsoLogger_new q, gs) = Ret (l', gs')"
    and "H = hashed_entries ll xs \<union> hashed_entries ll ys"
    and "inj_on (entry_json ll) H" and "inj_on (sha256 ll) ((\<lambda>e. bytes_of (entry_json ll e)) ` H)"
    and "length xs < 2 ^ 64" and "length ys < 2 ^ 64" and "il_prev_hash l = il_prev_hash l'"
  shows "xs = ys \<and> (\<exists>ls. length ls = length xs \<and> file_of fs' p = file_of fs p @ ls \<and> file_of gs' q = file_of gs q @ ls)"
proof -
  let ?es = "entries_of ll (IsoLogger_new []) xs" and ?fs = "entries_of ll (IsoLogger_new []) ys"
  have x: "il_prev_hash l = (if xs = [] then ''0'' else le_hash (last ?es))" "file_of fs' p = file_of fs p @ map (entry_json ll) ?es"
    using log_all_result [OF assms(1)] new_entries_path [of ll p xs] by (simp_all add: IsoLogger_new_def)
  have y: "il_prev_hash l' = (if ys = [] then ''0'' else le_hash (last ?fs))" "file_of gs' q = file_of gs q @ map (entry_json ll) ?fs"
    using log_all_result [OF assms(2)] new_entries_path [of ll q ys] by (simp_all add: IsoLogger_new_def)
  have cx: "chain_ok ll 0 ''0'' ?es" and cy: "chain_ok ll 0 ''0'' ?fs" by (rule new_entries_chain)+
  have len: "length ?es = length xs" "length ?fs = length ys"
    using entries_content [of ll "IsoLogger_new []" xs] entries_content [of ll "IsoLogger_new []" ys] by (metis length_map)+
  have inj: "inj_on (log_compute_hash ll) ((\<lambda>e. e\<lparr>le_hash := []\<rparr>) ` (set ?es \<union> set ?fs))"
    using log_compute_hash_inj [OF assms(4,5)] by (simp add: assms(3) hashed_entries_def image_Un)
  have eq: "?es = ?fs"
  proof (cases "xs = [] \<or> ys = []")
    case True
    then have "xs = [] \<and> ys = []"
      using x(1) y(1) assms(8) logged_not_zero [of xs ll "IsoLogger_new []"] logged_not_zero [of ys ll "IsoLogger_new []"]
      by (cases "xs = []"; cases "ys = []") simp_all
    then show ?thesis by simp
  next
    case False
    then have ne: "?es \<noteq> []" "?fs \<noteq> []" and last: "le_hash (last ?es) = le_hash (last ?fs)" using x y assms(8) len by auto
    have "(last ?es)\<lparr>le_hash := []\<rparr> = (last ?fs)\<lparr>le_hash := []\<rparr>"
      by (rule inj_onD [OF inj]) (use last False logged_hash [of xs ll] logged_hash [of ys ll] ne in simp_all)
    from arg_cong [OF this, of le_seq] have "of_nat (length xs) = (of_nat (length ys) :: u64)"
      using chain_last_seq [OF cx ne(1)] chain_last_seq [OF cy ne(2)] len by simp
    from arg_cong [OF this, of unat] have "length ?es = length ?fs" using assms(6,7) len by (simp add: unat_of_nat)
    from chain_equal [OF inj cx cy this ne(1) last] show ?thesis .
  qed
  have "xs = ys"
    using entries_content [of ll "IsoLogger_new []" xs, unfolded eq] entries_content [of ll "IsoLogger_new []" ys] by (rule trans [OF sym])
  moreover have "file_of gs' q = file_of gs q @ map (entry_json ll) ?es" using y(2) unfolding eq .
  ultimately show ?thesis using x(2) len(1) by (intro conjI exI [of _ "map (entry_json ll) ?es"]) simp_all
qed

theorem audit_log_binds_witness:
  "\<exists>l fs' l' gs'. log_all demo_log_lib [(''t'', ''a'', ''b''), (''u'', ''a'', ''c'')] (IsoLogger_new ''log'', []) = Ret (l, fs')
    \<and> log_all demo_log_lib [(''t'', ''a'', ''d''), (''u'', ''a'', ''c'')] (IsoLogger_new ''log'', []) = Ret (l', gs')
    \<and> il_prev_hash l \<noteq> il_prev_hash l'"
proof -
  let ?xs = "[(''t'', ''a'', ''b''), (''u'', ''a'', ''c'')]" and ?ys = "[(''t'', ''a'', ''d''), (''u'', ''a'', ''c'')]"
  let ?H = "hashed_entries demo_log_lib ?xs \<union> hashed_entries demo_log_lib ?ys"
  have "can_append demo_log_lib (il_path (IsoLogger_new ''log''))" by (simp add: demo_log_lib_def)
  then obtain l fs' l' gs' where runs: "log_all demo_log_lib ?xs (IsoLogger_new ''log'', []) = Ret (l, fs')"
      "log_all demo_log_lib ?ys (IsoLogger_new ''log'', []) = Ret (l', gs')"
    using log_all_entries by blast
  have "inj_on (entry_json demo_log_lib) ?H" "inj_on (sha256 demo_log_lib) ((\<lambda>e. bytes_of (entry_json demo_log_lib e)) ` ?H)"
    by code_simp+
  from audit_log_binds [OF runs refl this] runs show ?thesis by fastforce
qed

text \<open>
  \<^bold>\<open>A restart breaks the chain\<close>. A logger made anew on a path that already holds a checked log starts
  again at sequence number one with the link \<open>0\<close>; the lines of the file are then no longer those of a
  checked log, as long as the old log is not empty and shorter than the range of sequence numbers.
\<close>

theorem restart_breaks_chain:
  assumes "can_append ll path" and "file_of fs path = map (entry_json ll) old" and "chain_ok ll 0 ''0'' old"
    and "old \<noteq> []" and "length old < 2 ^ 64"
  shows "\<exists>l' fs' e. iso_log ll now c m (IsoLogger_new path, fs) = Ret (l', fs')
    \<and> file_of fs' path = map (entry_json ll) (old @ [e]) \<and> le_seq e = 1 \<and> \<not> chain_ok ll 0 ''0'' (old @ [e])"
proof -
  let ?e = "log_entry ll ((IsoLogger_new path)\<lparr>il_seq := 1\<rparr>) now c m"
  have "of_nat (length old) \<noteq> (0 :: u64)" using assms(4,5) by (simp add: word_of_nat_eq_0_iff nat_dvd_not_less)
  then have "\<not> chain_ok ll 0 ''0'' (old @ [?e])" by (simp add: chain_append)
  then show ?thesis using assms(1,2)
    by (intro exI [of _ "_ :: IsoLogger"] exI [of _ "_ :: files"] exI [of _ ?e])
      (auto simp: iso_log_def IsoLogger_new_def Let_def)
qed

theorem restart_breaks_chain_witness:
  "\<exists>l' fs' e. iso_log demo_log_lib ''v'' ''a'' ''z''
       (IsoLogger_new ''log'', [(''log'', map (entry_json demo_log_lib) (entries_of demo_log_lib (IsoLogger_new ''log'') [(''t'', ''a'', ''b'')]))])
     = Ret (l', fs') \<and> le_seq e = 1
     \<and> \<not> chain_ok demo_log_lib 0 ''0'' (entries_of demo_log_lib (IsoLogger_new ''log'') [(''t'', ''a'', ''b'')] @ [e])"
proof -
  let ?old = "entries_of demo_log_lib (IsoLogger_new ''log'') [(''t'', ''a'', ''b'')]"
  have "can_append demo_log_lib ''log''" by (simp add: demo_log_lib_def)
  moreover have "file_of [(''log'', map (entry_json demo_log_lib) ?old)] ''log'' = map (entry_json demo_log_lib) ?old"
    by (simp add: file_of_def)
  moreover have "chain_ok demo_log_lib 0 ''0'' ?old"
    by (rule new_entries_chain)
  moreover have "?old \<noteq> []" "length ?old < 2 ^ 64" by (simp_all add: Let_def)
  ultimately show ?thesis using restart_breaks_chain [of demo_log_lib "''log''" _ ?old "''v''" "''a''" "''z''"] by blast
qed

end
