(* ===== verification/Poseidon.thy ===== *)
theory Poseidon
  imports Complex_Main Crypto Rust_Text
begin

text \<open>
  The Poseidon hash and its Merkle tree, \<^verbatim>\<open>src/crates/nexus-zkp/src/poseidon.rs\<close>, over an arbitrary
  field. The map from bytes to field elements and the byte encoding are parameters. A permutation that
  reads behind its constants, its matrix or its state panics; the sizes that avoid it are checked in
  front of the rounds, which are pure functions.
\<close>

section \<open>Parameters\<close>

record 'f PoseidonParams =
  pp_round_constants :: "'f list"
  pp_mds_matrix :: "'f list list"
  pp_full_rounds :: nat
  pp_partial_rounds :: nat
  pp_width :: nat

record 'f field_lib =
  from_le_bytes_mod_order :: "u8 list \<Rightarrow> 'f"
  fr_serialize :: "'f \<Rightarrow> B32"

definition round_constant :: "crypto_lib \<Rightarrow> 'f field_lib \<Rightarrow> nat \<Rightarrow> 'f" where
  "round_constant lib fl i =
     from_le_bytes_mod_order fl (as_bytes (blake3 lib (bytes_of (''poseidon_bn254_rc_'' @ pad_dec 4 i))))"

definition cauchy :: "nat \<Rightarrow> nat \<Rightarrow> 'f :: field" where
  "cauchy i j = of_nat ([1, 2, 3] ! i) + of_nat ([4, 5, 6] ! j)"

definition new_width3 :: "crypto_lib \<Rightarrow> 'f :: field field_lib \<Rightarrow> 'f PoseidonParams run" where
  "new_width3 lib fl =
     (let width = 3; full_rounds = 8; partial_rounds = 57;
          total_constants = (full_rounds + partial_rounds) * width;
          round_constants = map (round_constant lib fl) [0..<total_constants]
      in if list_all (\<lambda>i. list_all (\<lambda>j. cauchy i j \<noteq> (0 :: 'f)) [0..<width]) [0..<width]
         then Ret \<lparr>pp_round_constants = round_constants,
                   pp_mds_matrix = map (\<lambda>i. map (\<lambda>j. inverse (cauchy i j)) [0..<width]) [0..<width],
                   pp_full_rounds = full_rounds, pp_partial_rounds = partial_rounds, pp_width = width\<rparr>
         else Panic)"

section \<open>The permutation\<close>

definition sbox :: "'f :: field \<Rightarrow> 'f" where
  "sbox x = (let x2 = x * x; x4 = x2 * x2 in x4 * x)"

definition mds_mix :: "'f :: field PoseidonParams \<Rightarrow> 'f list \<Rightarrow> 'f list" where
  "mds_mix p st =
     map (\<lambda>i. fold (\<lambda>j acc. acc + pp_mds_matrix p ! i ! j * st ! j) [0..<pp_width p] 0) [0..<pp_width p]"

definition add_constants :: "'f :: field PoseidonParams \<Rightarrow> nat \<Rightarrow> 'f list \<Rightarrow> 'f list" where
  "add_constants p rc st = map (\<lambda>i. st ! i + pp_round_constants p ! (rc + i)) [0..<pp_width p]"

definition full_round :: "'f :: field PoseidonParams \<Rightarrow> nat \<Rightarrow> 'f list \<Rightarrow> 'f list" where
  "full_round p rc st = mds_mix p (map sbox (add_constants p rc st))"

definition partial_round :: "'f :: field PoseidonParams \<Rightarrow> nat \<Rightarrow> 'f list \<Rightarrow> 'f list" where
  "partial_round p rc st =
     (let st = add_constants p rc st in mds_mix p (st[0 := sbox (st ! 0)]))"

fun rounds :: "(nat \<Rightarrow> 'f list \<Rightarrow> 'f list) \<Rightarrow> nat \<Rightarrow> nat \<Rightarrow> nat \<Rightarrow> 'f list \<Rightarrow> 'f list" where
  "rounds r width 0 rc st = st"
| "rounds r width (Suc n) rc st = rounds r width n (rc + width) (r rc st)"

definition permute_sized :: "'f PoseidonParams \<Rightarrow> nat \<Rightarrow> bool" where
  "permute_sized p n \<longleftrightarrow>
     (let m = 2 * (pp_full_rounds p div 2) + pp_partial_rounds p; w = pp_width p
      in m = 0 \<or> (n = w \<and> (pp_partial_rounds p = 0 \<or> 0 < w) \<and> m * w \<le> length (pp_round_constants p)
           \<and> w \<le> length (pp_mds_matrix p) \<and> list_all (\<lambda>row. w \<le> length row) (take w (pp_mds_matrix p))))"

definition permutation :: "'f :: field PoseidonParams \<Rightarrow> 'f list \<Rightarrow> 'f list" where
  "permutation p st =
     (let half_full = pp_full_rounds p div 2; w = pp_width p;
          st = rounds (full_round p) w half_full 0 st;
          st = rounds (partial_round p) w (pp_partial_rounds p) (half_full * w) st
      in rounds (full_round p) w half_full ((half_full + pp_partial_rounds p) * w) st)"

definition permute :: "'f :: field PoseidonParams \<Rightarrow> 'f list \<Rightarrow> 'f list run" where
  "permute p st = (if permute_sized p (length st) then Ret (permutation p st) else Panic)"

section \<open>Hashing\<close>

definition hash2 :: "'f :: field PoseidonParams \<Rightarrow> 'f \<Rightarrow> 'f \<Rightarrow> 'f run" where
  "hash2 p a b = run_map (\<lambda>st. st ! 0) (permute p [0, a, b])"

definition absorb_chunk :: "'f :: field list \<Rightarrow> 'f list \<Rightarrow> 'f list" where
  "absorb_chunk chunk st = map (\<lambda>i. if 1 \<le> i \<and> i \<le> length chunk then st ! i + chunk ! (i - 1) else st ! i) [0..<length st]"

fun absorb :: "'f :: field PoseidonParams \<Rightarrow> 'f list list \<Rightarrow> 'f list \<Rightarrow> 'f list run" where
  "absorb p [] st = Ret st"
| "absorb p (chunk # cs) st = run_bind (permute p (absorb_chunk chunk st)) (absorb p cs)"

fun split_chunks :: "nat \<Rightarrow> 'a list \<Rightarrow> 'a list list" where
  "split_chunks n [] = []"
| "split_chunks n (x # xs) = take n (x # xs) # split_chunks n (drop (n - 1) xs)"

definition poseidon_hash :: "'f :: field PoseidonParams \<Rightarrow> 'f list \<Rightarrow> 'f run" where
  "poseidon_hash p inputs =
     (if inputs = [] then Ret 0
      else if pp_width p \<le> 1 then Panic
      else run_map (\<lambda>st. st ! 0) (absorb p (split_chunks (pp_width p - 1) inputs) (replicate (pp_width p) 0)))"

section \<open>The Merkle tree\<close>

record 'f PoseidonMerkle =
  pm_poseidon :: "'f PoseidonParams"
  pm_depth :: nat

definition PoseidonMerkle_new :: "crypto_lib \<Rightarrow> 'f :: field field_lib \<Rightarrow> nat \<Rightarrow> 'f PoseidonMerkle run" where
  "PoseidonMerkle_new lib fl depth = run_map (\<lambda>p. \<lparr>pm_poseidon = p, pm_depth = depth\<rparr>) (new_width3 lib fl)"

definition hash_pair :: "'f :: field PoseidonMerkle \<Rightarrow> 'f \<Rightarrow> 'f \<Rightarrow> 'f run" where
  "hash_pair m l r = hash2 (pm_poseidon m) l r"

fun next_level :: "'f :: field PoseidonMerkle \<Rightarrow> 'f list \<Rightarrow> 'f list run" where
  "next_level m [] = Ret []"
| "next_level m [l] = run_map (\<lambda>h. [h]) (hash_pair m l 0)"
| "next_level m (l # r # xs) = run_bind (hash_pair m l r) (\<lambda>h. run_map ((#) h) (next_level m xs))"

lemma length_next_level: "next_level m xs = Ret ys \<Longrightarrow> length ys = (length xs + 1) div 2"
  by (induction m xs arbitrary: ys rule: next_level.induct) auto

function root_loop :: "'f :: field PoseidonMerkle \<Rightarrow> 'f list \<Rightarrow> 'f run" where
  "root_loop m level = (if length level > 1 then run_bind (next_level m level) (root_loop m) else Ret (level ! 0))"
  by pat_completeness auto
termination
  by (relation "measure (\<lambda>(m, level). length level)") (auto dest: length_next_level)

declare root_loop.simps [simp del]

definition compute_root :: "'f :: field PoseidonMerkle \<Rightarrow> 'f list \<Rightarrow> 'f run" where
  "compute_root m leaves =
     (if leaves = [] then Ret 0 else root_loop m (leaves @ replicate (2 ^ pm_depth m - length leaves) 0))"

fun verify_loop :: "'f :: field PoseidonMerkle \<Rightarrow> 'f \<Rightarrow> ('f \<times> bool) list \<Rightarrow> 'f run" where
  "verify_loop m current [] = Ret current"
| "verify_loop m current ((sibling, is_right) # path) =
     run_bind (if is_right then hash_pair m sibling current else hash_pair m current sibling) (\<lambda>c. verify_loop m c path)"

definition poseidon_verify_proof :: "'f :: field PoseidonMerkle \<Rightarrow> 'f \<Rightarrow> 'f list \<Rightarrow> bool list \<Rightarrow> 'f \<Rightarrow> bool run" where
  "poseidon_verify_proof m leaf path path_indices rt =
     (if length path \<noteq> pm_depth m \<or> length path_indices \<noteq> pm_depth m then Ret False
      else run_map (\<lambda>c. c = rt) (verify_loop m leaf (zip path path_indices)))"

definition bytes_to_field :: "'f field_lib \<Rightarrow> u8 list \<Rightarrow> 'f" where
  "bytes_to_field fl bytes = from_le_bytes_mod_order fl bytes"

definition field_to_bytes :: "'f field_lib \<Rightarrow> 'f \<Rightarrow> B32" where
  "field_to_bytes fl x = fr_serialize fl x"

section \<open>The parameters of width three\<close>

text \<open>A field in which the default parameters exist and mix well: 2, 3, 5 and 7 are not zero.\<close>

definition small_primes_invertible :: "'f :: field itself \<Rightarrow> bool" where
  "small_primes_invertible _ \<longleftrightarrow> (2 :: 'f) \<noteq> 0 \<and> (3 :: 'f) \<noteq> 0 \<and> (5 :: 'f) \<noteq> 0 \<and> (7 :: 'f) \<noteq> 0"

lemma small_numbers:
  assumes "small_primes_invertible TYPE('f :: field)"
  shows "(5 :: 'f) \<noteq> 0" "(6 :: 'f) \<noteq> 0" "(7 :: 'f) \<noteq> 0" "(8 :: 'f) \<noteq> 0" "(9 :: 'f) \<noteq> 0"
proof -
  have "(6 :: 'f) = 2 * 3" "(8 :: 'f) = 2 * (2 * 2)" "(9 :: 'f) = 3 * 3" by simp_all
  with assms show "(5 :: 'f) \<noteq> 0" "(6 :: 'f) \<noteq> 0" "(7 :: 'f) \<noteq> 0" "(8 :: 'f) \<noteq> 0" "(9 :: 'f) \<noteq> 0"
    unfolding small_primes_invertible_def by (metis mult_eq_0_iff)+
qed

lemma upt_3: "[0..<3] = [0, 1, 2]"
  by (simp add: upt_rec numeral_eq_Suc)

definition width3 :: "crypto_lib \<Rightarrow> 'f :: field field_lib \<Rightarrow> 'f PoseidonParams" where
  "width3 lib fl = \<lparr>pp_round_constants = map (round_constant lib fl) [0..<195],
     pp_mds_matrix = [[inverse 5, inverse 6, inverse 7], [inverse 6, inverse 7, inverse 8], [inverse 7, inverse 8, inverse 9]],
     pp_full_rounds = 8, pp_partial_rounds = 57, pp_width = 3\<rparr>"

lemma new_width3_eq:
  assumes "small_primes_invertible TYPE('f :: field)"
  shows "new_width3 lib (fl :: 'f field_lib) = Ret (width3 lib fl)"
  using small_numbers [OF assms] by (simp add: new_width3_def width3_def upt_3 cauchy_def Let_def)

lemma length_3E: "length xs = 3 \<Longrightarrow> (\<And>a b c. xs = [a, b, c] \<Longrightarrow> P) \<Longrightarrow> P"
  by (auto simp: numeral_eq_Suc length_Suc_conv)

lemma width3_simps [simp]: "pp_width (width3 lib fl) = 3" "pp_full_rounds (width3 lib fl) = 8"
  "pp_partial_rounds (width3 lib fl) = 57"
  by (simp_all add: width3_def)

lemma mds_mix_width3:
  "mds_mix (width3 lib fl) [a, b, c]
     = [inverse 5 * a + inverse 6 * b + inverse 7 * c, inverse 6 * a + inverse 7 * b + inverse 8 * c,
        inverse 7 * a + inverse 8 * b + inverse 9 * c]"
  by (simp add: mds_mix_def upt_3) (simp add: width3_def)

text \<open>The matrix, scaled to integers, has determinant two.\<close>

lemma cauchy_kernel:
  fixes x y z :: "'f :: field"
  assumes "(2 :: 'f) \<noteq> 0" and e: "42 * x + 35 * y + 30 * z = 0" "28 * x + 24 * y + 21 * z = 0" "72 * x + 63 * y + 56 * z = 0"
  shows "x = 0 \<and> y = 0 \<and> z = 0"
proof -
  have "2 * x = 21 * (42 * x + 35 * y + 30 * z) - 70 * (28 * x + 24 * y + 21 * z) + 15 * (72 * x + 63 * y + 56 * z)"
    "2 * y = - 56 * (42 * x + 35 * y + 30 * z) + 192 * (28 * x + 24 * y + 21 * z) - 42 * (72 * x + 63 * y + 56 * z)"
    "2 * z = 36 * (42 * x + 35 * y + 30 * z) - 126 * (28 * x + 24 * y + 21 * z) + 28 * (72 * x + 63 * y + 56 * z)"
    by (simp_all add: algebra_simps)
  then show ?thesis using assms(1) unfolding e by simp
qed

lemma mds_inj:
  assumes "small_primes_invertible TYPE('f :: field)" and "length s = 3" "length t = 3"
    and "mds_mix (width3 lib (fl :: 'f field_lib)) s = mds_mix (width3 lib fl) t"
  shows "s = t"
proof -
  obtain a b c a' b' c' where st: "s = [a, b, c]" "t = [a', b', c']" using assms(2,3) by (auto elim!: length_3E)
  note nz = small_numbers [OF assms(1)]
  define x y z where "x = a - a'" "y = b - b'" "z = c - c'"
  have h: "inverse 5 * x + inverse 6 * y + inverse 7 * z = 0" "inverse 6 * x + inverse 7 * y + inverse 8 * z = 0"
      "inverse 7 * x + inverse 8 * y + inverse 9 * z = 0"
    using assms(4) unfolding st mds_mix_width3 x_y_z_def by (simp_all add: right_diff_distrib add_diff_eq diff_add_eq)
  have scaled: "210 * inverse 5 = (42 :: 'f)" "210 * inverse 6 = (35 :: 'f)" "210 * inverse 7 = (30 :: 'f)"
      "168 * inverse 6 = (28 :: 'f)" "168 * inverse 7 = (24 :: 'f)" "168 * inverse 8 = (21 :: 'f)"
      "504 * inverse 7 = (72 :: 'f)" "504 * inverse 8 = (63 :: 'f)" "504 * inverse 9 = (56 :: 'f)"
    using nz by (simp_all add: field_simps)
  have "42 * x + 35 * y + 30 * z = 210 * (inverse 5 * x + inverse 6 * y + inverse 7 * z)"
    "28 * x + 24 * y + 21 * z = 168 * (inverse 6 * x + inverse 7 * y + inverse 8 * z)"
    "72 * x + 63 * y + 56 * z = 504 * (inverse 7 * x + inverse 8 * y + inverse 9 * z)"
    using scaled by (simp_all only: distrib_left mult.assoc [symmetric])
  with h have "42 * x + 35 * y + 30 * z = 0" "28 * x + 24 * y + 21 * z = 0" "72 * x + 63 * y + 56 * z = 0" by simp_all
  moreover have "(2 :: 'f) \<noteq> 0" using assms(1) by (simp add: small_primes_invertible_def)
  ultimately have "x = 0 \<and> y = 0 \<and> z = 0" by (intro cauchy_kernel)
  then show ?thesis by (simp add: st x_y_z_def)
qed

lemma length_rounds_parts:
  "length (mds_mix p st) = pp_width p" "length (add_constants p rc st) = pp_width p"
  "length (full_round p rc st) = pp_width p" "length (partial_round p rc st) = pp_width p"
  by (simp_all add: mds_mix_def add_constants_def full_round_def partial_round_def Let_def)

lemma length_rounds:
  "(\<And>rc st. length (r rc st) = w) \<Longrightarrow> length st = w \<Longrightarrow> length (rounds r w' n rc st) = w"
  by (induction n arbitrary: rc st) simp_all

lemma add_constants_inj:
  "length s = 3 \<Longrightarrow> length t = 3 \<Longrightarrow> add_constants (width3 lib fl) rc s = add_constants (width3 lib fl) rc t \<Longrightarrow> s = t"
  by (auto elim!: length_3E simp: add_constants_def upt_3)

lemma round_inj:
  assumes "small_primes_invertible TYPE('f :: field)" and "inj (sbox :: 'f \<Rightarrow> 'f)" and "length s = 3" "length t = 3"
  shows "full_round (width3 lib (fl :: 'f field_lib)) rc s = full_round (width3 lib fl) rc t \<Longrightarrow> s = t"
    and "partial_round (width3 lib (fl :: 'f field_lib)) rc s = partial_round (width3 lib fl) rc t \<Longrightarrow> s = t"
proof -
  let ?s = "add_constants (width3 lib fl) rc s" and ?t = "add_constants (width3 lib fl) rc t"
  have len: "length ?s = 3" "length ?t = 3" by (simp_all add: length_rounds_parts)
  note unshift = add_constants_inj [OF assms(3,4), of lib fl rc]
  show "s = t" if "full_round (width3 lib fl) rc s = full_round (width3 lib fl) rc t"
  proof -
    have "map sbox ?s = map sbox ?t"
      using mds_inj [OF assms(1), of "map sbox ?s" "map sbox ?t"] that len by (simp add: full_round_def)
    then show ?thesis using unshift inj_mapI [OF assms(2)] by (simp add: inj_def)
  qed
  show "s = t" if "partial_round (width3 lib fl) rc s = partial_round (width3 lib fl) rc t"
  proof -
    have "?s[0 := sbox (?s ! 0)] = ?t[0 := sbox (?t ! 0)]"
      using mds_inj [OF assms(1), of "?s[0 := sbox (?s ! 0)]" "?t[0 := sbox (?t ! 0)]"] that len
      by (simp add: partial_round_def Let_def)
    then have "?s = ?t" using len injD [OF assms(2)] by (auto elim!: length_3E)
    then show ?thesis by (rule unshift)
  qed
qed

lemma rounds_inj:
  assumes "\<And>rc s t. length s = 3 \<Longrightarrow> length t = 3 \<Longrightarrow> r rc s = r rc t \<Longrightarrow> s = t" and "\<And>rc s. length (r rc s) = 3"
  shows "length s = 3 \<Longrightarrow> length t = 3 \<Longrightarrow> rounds r w n rc s = rounds r w n rc t \<Longrightarrow> s = t"
proof (induction n arbitrary: rc s t)
  case (Suc n)
  have "r rc s = r rc t" using Suc.IH [of "r rc s" "r rc t" "rc + w"] Suc.prems(3) assms(2) by simp
  then show ?case using assms(1) Suc.prems by blast
qed simp

lemma permutation_inj:
  assumes "small_primes_invertible TYPE('f :: field)" and "inj (sbox :: 'f \<Rightarrow> 'f)" and "length s = 3" "length t = 3"
    and "permutation (width3 lib (fl :: 'f field_lib)) s = permutation (width3 lib fl) t"
  shows "s = t"
proof -
  let ?p = "width3 lib fl"
  have len: "length (full_round ?p rc u) = 3" "length (partial_round ?p rc u) = 3" for rc u
    by (simp_all add: length_rounds_parts)
  have full: "u = v" if "length u = 3" "length v = 3" "rounds (full_round ?p) 3 n rc u = rounds (full_round ?p) 3 n rc v" for u v n rc
    by (rule rounds_inj [OF round_inj(1) [OF assms(1,2)] len(1) that])
  have part: "u = v" if "length u = 3" "length v = 3" "rounds (partial_round ?p) 3 n rc u = rounds (partial_round ?p) 3 n rc v" for u v n rc
    by (rule rounds_inj [OF round_inj(2) [OF assms(1,2)] len(2) that])
  define f where "f u = rounds (full_round ?p) 3 4 0 u" for u
  define g where "g u = rounds (partial_round ?p) 3 57 12 u" for u
  have l: "length (f u) = 3" "length (g u) = 3" if "length u = 3" for u
    using that by (simp_all add: f_def g_def length_rounds len)
  have "rounds (full_round ?p) 3 4 183 (g (f s)) = rounds (full_round ?p) 3 4 183 (g (f t))"
    using assms(5) by (simp add: permutation_def Let_def f_def g_def)
  then have "g (f s) = g (f t)" using full l assms(3,4) by blast
  then have "f s = f t" unfolding g_def using part l assms(3,4) by blast
  then show ?thesis unfolding f_def using full assms(3,4) by blast
qed

section \<open>Merkle paths\<close>

text \<open>With a pair hash that returns, levels and paths are those of a pure tree.\<close>

fun pure_level :: "('f \<Rightarrow> 'f \<Rightarrow> 'f) \<Rightarrow> 'f list \<Rightarrow> 'f list" where
  "pure_level h (l # r # xs) = h l r # pure_level h xs"
| "pure_level h xs = []"

fun pure_path :: "('f \<Rightarrow> 'f \<Rightarrow> 'f) \<Rightarrow> nat \<Rightarrow> 'f list \<Rightarrow> nat \<Rightarrow> ('f \<times> bool) list" where
  "pure_path h 0 xs i = []"
| "pure_path h (Suc d) xs i =
     (xs ! (if even i then i + 1 else i - 1), odd i) # pure_path h d (pure_level h xs) (i div 2)"

lemma length_pure_level: "length (pure_level h xs) = length xs div 2"
  by (induction h xs rule: pure_level.induct) auto

lemma pure_level_nth: "i < length xs div 2 \<Longrightarrow> pure_level h xs ! i = h (xs ! (2 * i)) (xs ! (2 * i + 1))"
proof (induction h xs arbitrary: i rule: pure_level.induct)
  case (1 h l r xs)
  then show ?case by (cases i) auto
qed auto

lemma length_pure_path [simp]: "length (pure_path h d xs i) = d"
  by (induction d arbitrary: xs i) auto

text \<open>The directions of a path are the binary digits of the position, the lowest first.\<close>

definition path_bits :: "nat \<Rightarrow> nat \<Rightarrow> bool list" where
  "path_bits d i = map (\<lambda>k. odd (i div 2 ^ k)) [0..<d]"

lemma pure_path_bits: "map snd (pure_path h d xs i) = path_bits d i"
proof (induction d arbitrary: xs i)
  case (Suc d)
  have "path_bits (Suc d) i = odd i # path_bits d (i div 2)"
    unfolding path_bits_def upt_conv_Cons [OF zero_less_Suc] map_Suc_upt [symmetric]
    by (simp add: div_mult2_eq comp_def)
  with Suc show ?case by simp
qed (simp add: path_bits_def)

lemma next_level_pure:
  assumes "\<And>l r. hash_pair m l r = Ret (h l r)" and "even (length xs)"
  shows "next_level m xs = Ret (pure_level h xs)"
  using assms(2) by (induction xs rule: induct_list012) (auto simp: assms(1))

lemma root_pure:
  assumes "\<And>l r. hash_pair m l r = Ret (h l r)"
  shows "length xs = 2 ^ d \<Longrightarrow> i < 2 ^ d \<Longrightarrow>
    \<exists>rt. root_loop m xs = Ret rt \<and> verify_loop m (xs ! i) (pure_path h d xs i) = Ret rt"
proof (induction d arbitrary: xs i)
  case 0
  then show ?case by (subst root_loop.simps) simp
next
  case (Suc d)
  let ?ys = "pure_level h xs"
  have len: "length ?ys = 2 ^ d" "i div 2 < 2 ^ d" using Suc.prems by (simp_all add: length_pure_level)
  from Suc.IH [OF this] obtain rt where rt: "root_loop m ?ys = Ret rt"
    "verify_loop m (?ys ! (i div 2)) (pure_path h d ?ys (i div 2)) = Ret rt" by blast
  have "(1 :: nat) \<le> 2 ^ d" by simp
  then have "1 < length xs" using Suc.prems(1) unfolding power_Suc by linarith
  then have "root_loop m xs = Ret rt"
    using rt(1) next_level_pure [OF assms, of xs] Suc.prems(1) by (subst root_loop.simps) simp
  moreover have "?ys ! (i div 2) = h (xs ! (2 * (i div 2))) (xs ! (2 * (i div 2) + 1))"
    using len Suc.prems(1) by (intro pure_level_nth) simp
  then have "?ys ! (i div 2) = (if odd i then h (xs ! (i - 1)) (xs ! i) else h (xs ! i) (xs ! (i + 1)))"
    by (cases "even i") (auto elim!: oddE)
  then have "verify_loop m (xs ! i) (pure_path h (Suc d) xs i) = Ret rt"
    using rt(2) by (cases "even i") (simp_all add: assms)
  ultimately show ?case by blast
qed

lemma permute_width3: "length st = 3 \<Longrightarrow> permute (width3 lib fl) st = Ret (permutation (width3 lib fl) st)"
  by (simp add: permute_def permute_sized_def Let_def) (simp add: width3_def)

lemma length_permutation_width3: "length st = 3 \<Longrightarrow> length (permutation (width3 lib fl) st) = 3"
  by (simp add: permutation_def Let_def length_rounds length_rounds_parts)

section \<open>Properties\<close>

text \<open>
  \<^bold>\<open>The permutation is total and injective\<close>. In a field in which 2, 3, 5 and 7 are not zero and the fifth
  power is injective, as it is in the scalar field of BN254, the default parameters exist, the round
  constants suffice for every round, and the permutation maps different states to different states.
\<close>

theorem poseidon_permutation_injective:
  assumes "small_primes_invertible TYPE('f :: field)" and "inj (sbox :: 'f \<Rightarrow> 'f)"
  shows "\<exists>p. new_width3 lib (fl :: 'f field_lib) = Ret p
    \<and> (\<forall>s. length s = 3 \<longrightarrow> (\<exists>s'. permute p s = Ret s' \<and> length s' = 3))
    \<and> (\<forall>s t. length s = 3 \<and> length t = 3 \<and> permute p s = permute p t \<longrightarrow> s = t)"
  using new_width3_eq [OF assms(1), of lib fl] permutation_inj [OF assms, of _ _ lib fl]
  by (auto simp: permute_width3 length_permutation_width3)

lemma sbox_power: "sbox x = x ^ 5"
  by (simp add: sbox_def Let_def eval_nat_numeral algebra_simps)

lemma sbox_inj_real: "inj (sbox :: real \<Rightarrow> real)"
  by (rule inj_on_inverseI [of _ "root 5"]) (simp add: sbox_power odd_real_root_power_cancel)

definition demo_field_lib :: "real field_lib" where
  "demo_field_lib = \<lparr>from_le_bytes_mod_order = (\<lambda>bs. of_nat (length bs)), fr_serialize = (\<lambda>_. 0)\<rparr>"

theorem poseidon_permutation_injective_witness:
  "\<exists>p. new_width3 demo_lib demo_field_lib = Ret p \<and> permute p [0, 1, 2] \<noteq> permute p [0, 2, 1]"
proof -
  have "small_primes_invertible TYPE(real)" by (simp add: small_primes_invertible_def)
  from poseidon_permutation_injective [OF this sbox_inj_real, of demo_lib demo_field_lib]
  obtain p where p: "new_width3 demo_lib demo_field_lib = Ret p"
      "\<forall>s t. length s = 3 \<and> length t = 3 \<and> permute p s = permute p t \<longrightarrow> s = t" by blast
  from p(2) [rule_format, of "[0, 1, 2]" "[0, 2, 1]"] have "permute p [0, 1, 2] \<noteq> permute p [0, 2, 1]" by auto
  with p(1) show ?thesis by blast
qed

text \<open>
  (C34) \<^bold>\<open>Every padded leaf has a proof\<close>. For a list of leaves that fits the tree, the root is computed, and for
  every position of the padded list there is a path of the tree's depth that verifies against it, with the binary
  digits of the position, the lowest first, as its directions.
\<close>

theorem poseidon_merkle_complete:
  assumes "small_primes_invertible TYPE('f :: field)" and "leaves \<noteq> []" and "length leaves \<le> 2 ^ d" and "i < 2 ^ d"
  shows "\<exists>m rt path. PoseidonMerkle_new lib (fl :: 'f field_lib) d = Ret m \<and> compute_root m leaves = Ret rt
    \<and> poseidon_verify_proof m ((leaves @ replicate (2 ^ d - length leaves) 0) ! i) path (path_bits d i) rt = Ret True"
proof -
  let ?m = "\<lparr>pm_poseidon = width3 lib fl, pm_depth = d\<rparr>" and ?xs = "leaves @ replicate (2 ^ d - length leaves) 0"
  let ?h = "\<lambda>l r. permutation (width3 lib fl) [0, l, r] ! 0"
  have "hash_pair ?m l r = Ret (?h l r)" for l r by (simp add: hash_pair_def hash2_def permute_width3)
  from root_pure [of ?m ?h ?xs d i, OF this] assms(3,4) obtain rt
    where "root_loop ?m ?xs = Ret rt" "verify_loop ?m (?xs ! i) (pure_path ?h d ?xs i) = Ret rt" by auto
  then show ?thesis
    using assms(2) new_width3_eq [OF assms(1), of lib fl]
    unfolding pure_path_bits [of ?h d ?xs i, symmetric]
    by (intro exI [of _ ?m] exI [of _ rt] exI [of _ "map fst (pure_path ?h d ?xs i)"])
      (simp add: PoseidonMerkle_new_def compute_root_def poseidon_verify_proof_def zip_map_fst_snd)
qed

theorem poseidon_merkle_complete_witness:
  "\<exists>m rt path. PoseidonMerkle_new demo_lib demo_field_lib 2 = Ret m \<and> compute_root m [7, 8, 9] = Ret rt
    \<and> poseidon_verify_proof m 8 path [True, False] rt = Ret True"
proof -
  have "small_primes_invertible TYPE(real)" by (simp add: small_primes_invertible_def)
  moreover have "path_bits 2 1 = [True, False]" by (simp add: path_bits_def upt_rec)
  ultimately show ?thesis using poseidon_merkle_complete [of "[7, 8, 9]" 2 1 demo_lib demo_field_lib] by simp
qed

end
