(* ===== verification/Node_Config.thy ===== *)
theory Node_Config
  imports Nexus_Prelude
begin

text \<open>
  Configuration and command line of the node, \<^verbatim>\<open>config.rs\<close> and \<^verbatim>\<open>cli.rs\<close> of \<^verbatim>\<open>src/crates/nexus-node/src/\<close>, and
  the way \<^verbatim>\<open>main.rs\<close> puts the two together. Paths and socket addresses are their texts; files, the TOML codec,
  the parser of socket addresses and the user's data directory are parameters.
\<close>

section \<open>Configuration\<close>

record NodeNetworkConfig =
  nn_listen_addr :: string
  nn_bootstrap_nodes :: "string list"
  nn_max_peers :: nat
  nn_discovery :: bool

record NodeRpcConfig =
  nr_http_enabled :: bool
  nr_http_addr :: string
  nr_ws_enabled :: bool
  nr_ws_addr :: string
  nr_cors :: bool
  nr_max_connections :: nat

record ConsensusConfig =
  co_validator :: bool
  co_validator_key :: "string option"
  co_vertex_interval_ms :: u64
  co_max_txs_per_vertex :: nat
  co_epoch_duration :: u64

datatype DatabaseType = MemoryDb | RocksDb

record StorageConfig =
  so_db_type :: DatabaseType
  so_cache_size_mb :: nat
  so_pruning :: bool
  so_pruning_depth :: u64

record LoggingConfig =
  lo_level :: string
  lo_format :: string
  lo_file :: "string option"

record NodeConfig =
  nf_name :: string
  nf_data_dir :: string
  nf_chain_id :: u64
  nf_network :: NodeNetworkConfig
  nf_rpc :: NodeRpcConfig
  nf_consensus :: ConsensusConfig
  nf_storage :: StorageConfig
  nf_logging :: LoggingConfig

definition NodeNetworkConfig_default :: NodeNetworkConfig where
  "NodeNetworkConfig_default =
     \<lparr>nn_listen_addr = ''/ip4/0.0.0.0/tcp/9000'', nn_bootstrap_nodes = [], nn_max_peers = 50, nn_discovery = True\<rparr>"

definition NodeRpcConfig_default :: NodeRpcConfig where
  "NodeRpcConfig_default =
     \<lparr>nr_http_enabled = True, nr_http_addr = ''127.0.0.1:8545'', nr_ws_enabled = True, nr_ws_addr = ''127.0.0.1:8546'',
      nr_cors = True, nr_max_connections = 100\<rparr>"

definition ConsensusConfig_default :: ConsensusConfig where
  "ConsensusConfig_default =
     \<lparr>co_validator = False, co_validator_key = None, co_vertex_interval_ms = 500, co_max_txs_per_vertex = 1000,
      co_epoch_duration = 86400\<rparr>"

definition StorageConfig_default :: StorageConfig where
  "StorageConfig_default = \<lparr>so_db_type = MemoryDb, so_cache_size_mb = 256, so_pruning = False, so_pruning_depth = 30\<rparr>"

definition LoggingConfig_default :: LoggingConfig where
  "LoggingConfig_default = \<lparr>lo_level = ''info'', lo_format = ''text'', lo_file = None\<rparr>"

definition NodeConfig_default :: "string option \<Rightarrow> NodeConfig" where
  "NodeConfig_default project_dir =
     \<lparr>nf_name = ''nexus-node'', nf_data_dir = (case project_dir of Some d \<Rightarrow> d | None \<Rightarrow> ''.nexus''), nf_chain_id = 1337,
      nf_network = NodeNetworkConfig_default, nf_rpc = NodeRpcConfig_default, nf_consensus = ConsensusConfig_default,
      nf_storage = StorageConfig_default, nf_logging = LoggingConfig_default\<rparr>"

datatype ConfigError = ConfigIoError string | ConfigParseError string | ConfigInvalid string

text \<open>Files are a map from paths to contents; a read or a write may be refused with a message.\<close>

type_synonym files = "(string, u8 list) hmap"

record config_io =
  cf_denied :: "string \<Rightarrow> string option"
  cf_missing :: string
  cf_text :: "u8 list \<Rightarrow> string + string"
  cf_bytes :: "string \<Rightarrow> u8 list"
  cf_parse :: "string \<Rightarrow> string + NodeConfig"
  cf_print :: "NodeConfig \<Rightarrow> string + string"

definition file_read :: "config_io \<Rightarrow> string \<Rightarrow> files \<Rightarrow> string + u8 list" where
  "file_read io path fs =
     (case cf_denied io path of Some e \<Rightarrow> Inl e
      | None \<Rightarrow> (case hget fs path of None \<Rightarrow> Inl (cf_missing io) | Some bs \<Rightarrow> Inr bs))"

definition file_write :: "config_io \<Rightarrow> string \<Rightarrow> u8 list \<Rightarrow> files \<Rightarrow> files \<times> (string + unit)" where
  "file_write io path bs fs =
     (case cf_denied io path of Some e \<Rightarrow> (fs, Inl e) | None \<Rightarrow> (hput path bs fs, Inr ()))"

definition config_load :: "config_io \<Rightarrow> string \<Rightarrow> files \<Rightarrow> ConfigError + NodeConfig" where
  "config_load io path fs =
     (case file_read io path fs of Inl e \<Rightarrow> Inl (ConfigIoError e)
      | Inr bs \<Rightarrow> (case cf_text io bs of Inl e \<Rightarrow> Inl (ConfigIoError e)
        | Inr content \<Rightarrow> (case cf_parse io content of Inl e \<Rightarrow> Inl (ConfigParseError e) | Inr c \<Rightarrow> Inr c)))"

definition config_save :: "config_io \<Rightarrow> string \<Rightarrow> NodeConfig \<Rightarrow> files \<Rightarrow> files \<times> (ConfigError + unit)" where
  "config_save io path c fs =
     (case cf_print io c of Inl e \<Rightarrow> (fs, Inl (ConfigParseError e))
      | Inr content \<Rightarrow>
          (case file_write io path (cf_bytes io content) fs of
             (fs, Inl e) \<Rightarrow> (fs, Inl (ConfigIoError e)) | (fs, Inr _) \<Rightarrow> (fs, Inr ())))"

definition config_validate :: "NodeConfig \<Rightarrow> ConfigError + unit" where
  "config_validate c = Inr ()"

section \<open>Command line\<close>

record run_args =
  ra_validator :: bool
  ra_validator_key :: "string option"
  ra_rpc_addr :: string
  ra_p2p_addr :: string
  ra_bootstrap :: "string list"
  ra_chain_id :: u64

datatype Commands =
    RunNode run_args
  | GenerateKey string
  | InitDataDir string u64
  | ShowStatus string
  | ImportGenesis string
  | ExportData string string
  | Benchmark string u64

record Cli =
  cli_config :: "string option"
  cli_data_dir :: "string option"
  cli_log_level :: string
  cli_command :: "Commands option"

text \<open>Without a command the node runs with the values the source repeats here.\<close>

definition default_run :: run_args where
  "default_run = \<lparr>ra_validator = False, ra_validator_key = None, ra_rpc_addr = ''127.0.0.1:8545'',
     ra_p2p_addr = ''/ip4/0.0.0.0/tcp/9000'', ra_bootstrap = [], ra_chain_id = 1337\<rparr>"

definition run_config ::
    "config_io \<Rightarrow> (string \<Rightarrow> string + string) \<Rightarrow> string option \<Rightarrow> string option \<Rightarrow> string option \<Rightarrow> run_args \<Rightarrow> files
       \<Rightarrow> ConfigError + NodeConfig" where
  "run_config io parse_addr project_dir config_path data_dir a fs =
     (case (case config_path of Some path \<Rightarrow> config_load io path fs | None \<Rightarrow> Inr (NodeConfig_default project_dir)) of
        Inl e \<Rightarrow> Inl e
      | Inr c \<Rightarrow>
          let c = (case data_dir of Some dir \<Rightarrow> c\<lparr>nf_data_dir := dir\<rparr> | None \<Rightarrow> c);
              c = c\<lparr>nf_chain_id := ra_chain_id a,
                    nf_consensus := (nf_consensus c)\<lparr>co_validator := ra_validator a, co_validator_key := ra_validator_key a\<rparr>\<rparr>
          in case parse_addr (ra_rpc_addr a) of
               Inl e \<Rightarrow> Inl (ConfigInvalid e)
             | Inr addr \<Rightarrow>
                 let c = c\<lparr>nf_rpc := (nf_rpc c)\<lparr>nr_http_addr := addr\<rparr>,
                           nf_network := (nf_network c)\<lparr>nn_listen_addr := ra_p2p_addr a, nn_bootstrap_nodes := ra_bootstrap a\<rparr>\<rparr>
                 in (case config_validate c of Inl e \<Rightarrow> Inl e | Inr _ \<Rightarrow> Inr c))"

text \<open>Creating the directories is left to the parameter; the configuration is written to the path it gives.\<close>

definition init_data_dir :: "config_io \<Rightarrow> string option \<Rightarrow> (string \<Rightarrow> string) \<Rightarrow> string \<Rightarrow> u64 \<Rightarrow> files \<Rightarrow> files \<times> (ConfigError + unit)" where
  "init_data_dir io project_dir config_path data_dir chain fs =
     config_save io (config_path data_dir) ((NodeConfig_default project_dir)\<lparr>nf_data_dir := data_dir, nf_chain_id := chain\<rparr>) fs"

section \<open>Properties\<close>

text \<open>
  \<^bold>\<open>A saved configuration is loaded, and its chain is not used\<close>. What \<open>init_data_dir\<close> writes is read back exactly,
  if the codec reads back what it prints. But a node run with that file takes its chain, its role, its
  addresses and its bootstrap nodes from the command line and its defaults, never from the file.
\<close>

theorem saved_config_overridden:
  assumes "cf_denied io (config_path dir) = None"
    and "cf_print io ((NodeConfig_default project_dir)\<lparr>nf_data_dir := dir, nf_chain_id := chain\<rparr>) = Inr content"
    and "cf_text io (cf_bytes io content) = Inr content"
    and "cf_parse io content = Inr ((NodeConfig_default project_dir)\<lparr>nf_data_dir := dir, nf_chain_id := chain\<rparr>)"
    and "parse_addr (ra_rpc_addr a) = Inr addr"
  shows "\<exists>fs' c. init_data_dir io project_dir config_path dir chain fs = (fs', Inr ())
    \<and> config_load io (config_path dir) fs' = Inr ((NodeConfig_default project_dir)\<lparr>nf_data_dir := dir, nf_chain_id := chain\<rparr>)
    \<and> run_config io parse_addr project_dir (Some (config_path dir)) None a fs' = Inr c
    \<and> nf_data_dir c = dir \<and> nf_chain_id c = ra_chain_id a \<and> co_validator (nf_consensus c) = ra_validator a
    \<and> nn_bootstrap_nodes (nf_network c) = ra_bootstrap a"
  using assms
  by (simp add: init_data_dir_def config_save_def file_write_def config_load_def file_read_def run_config_def config_validate_def)

definition demo_config_io :: config_io where
  "demo_config_io = \<lparr>cf_denied = (\<lambda>_. None), cf_missing = ''missing'', cf_text = (\<lambda>_. Inr ''x''), cf_bytes = (\<lambda>_. [120]),
     cf_parse = (\<lambda>s. Inr ((NodeConfig_default None)\<lparr>nf_data_dir := ''d'', nf_chain_id := 5\<rparr>)), cf_print = (\<lambda>c. Inr ''x'')\<rparr>"

lemma demo_config_io_simps:
  "cf_denied demo_config_io p = None" "cf_text demo_config_io bs = Inr ''x''" "cf_print demo_config_io c = Inr ''x''"
  "cf_parse demo_config_io s = Inr ((NodeConfig_default None)\<lparr>nf_data_dir := ''d'', nf_chain_id := 5\<rparr>)"
  by (simp_all add: demo_config_io_def)

theorem saved_config_overridden_witness:
  "\<exists>fs' c. init_data_dir demo_config_io None (\<lambda>d. d @ ''/config.toml'') ''d'' 5 [] = (fs', Inr ())
    \<and> run_config demo_config_io Inr None (Some ''d/config.toml'') None default_run fs' = Inr c
    \<and> nf_chain_id c = 1337"
  using saved_config_overridden [where io = demo_config_io and config_path = "\<lambda>d. d @ ''/config.toml''" and dir = "''d''"
      and project_dir = None and chain = 5 and content = "''x''" and parse_addr = Inr and a = default_run
      and addr = "''127.0.0.1:8545''" and fs = "[]"]
  by (auto simp: demo_config_io_simps default_run_def)

end
