(* ===== verification/Rpc_Types.thy ===== *)
theory Rpc_Types
  imports Address_Text Evm_State
begin

text \<open>
  Types and formats of the JSON-RPC interface, \<^verbatim>\<open>src/crates/nexus-rpc/src/lib.rs\<close> and \<^verbatim>\<open>types.rs\<close>, and the texts
  of the errors it reports. A JSON value is a datatype; the members of an object are listed in the order the
  source gives them. The numbers the interface writes are integers and it reads none.
\<close>

section \<open>JSON values\<close>

datatype json =
    JNull
  | JBool bool
  | JNumber int
  | JString string
  | JArray "json list"
  | JObject "(string \<times> json) list"

fun json_at :: "nat \<Rightarrow> json \<Rightarrow> json option" where
  "json_at i (JArray xs) = (if i < length xs then Some (xs ! i) else None)"
| "json_at i _ = None"

fun json_key :: "string \<Rightarrow> json \<Rightarrow> json option" where
  "json_key k (JObject ms) = map_of ms k"
| "json_key k _ = None"

fun as_str :: "json \<Rightarrow> string option" where
  "as_str (JString s) = Some s"
| "as_str _ = None"

fun as_bool :: "json \<Rightarrow> bool option" where
  "as_bool (JBool b) = Some b"
| "as_bool _ = None"

definition json_or_null :: "json option \<Rightarrow> json" where
  "json_or_null v = (case v of None \<Rightarrow> JNull | Some x \<Rightarrow> x)"

definition JNat :: "nat \<Rightarrow> json" where
  "JNat n = JNumber (int n)"

section \<open>Errors\<close>

datatype RpcError =
    RpcParseError
  | InvalidRequest
  | MethodNotFound string
  | InvalidParams string
  | InternalError string
  | TransactionRejected string
  | RpcNotFound string

type_synonym 'a RpcResult = "RpcError + 'a"

fun rpc_code :: "RpcError \<Rightarrow> int" where
  "rpc_code RpcParseError = - 32700"
| "rpc_code InvalidRequest = - 32600"
| "rpc_code (MethodNotFound _) = - 32601"
| "rpc_code (InvalidParams _) = - 32602"
| "rpc_code (InternalError _) = - 32603"
| "rpc_code (TransactionRejected _) = - 32003"
| "rpc_code (RpcNotFound _) = - 32004"

fun rpc_error_text :: "RpcError \<Rightarrow> string" where
  "rpc_error_text RpcParseError = ''Parse error''"
| "rpc_error_text InvalidRequest = ''Invalid request''"
| "rpc_error_text (MethodNotFound s) = ''Method not found: '' @ s"
| "rpc_error_text (InvalidParams s) = ''Invalid params: '' @ s"
| "rpc_error_text (InternalError s) = ''Internal error: '' @ s"
| "rpc_error_text (TransactionRejected s) = ''Transaction rejected: '' @ s"
| "rpc_error_text (RpcNotFound s) = ''Resource not found: '' @ s"

fun evm_error_text :: "EvmError \<Rightarrow> string" where
  "evm_error_text (EvmRevert s) = ''Execution reverted: '' @ s"
| "evm_error_text (OutOfGas used limit) =
     ''Out of gas: used '' @ dec_digits (unat used) @ '', limit '' @ dec_digits (unat limit)"
| "evm_error_text (InvalidOpcode b) = ''Invalid opcode: 0x'' @ hex_encode [b]"
| "evm_error_text StackUnderflow = ''Stack underflow''"
| "evm_error_text StackOverflow = ''Stack overflow''"
| "evm_error_text (InvalidJump d) = ''Invalid jump destination: '' @ dec_digits (unat d)"
| "evm_error_text (StateError s) = ''State error: '' @ s"
| "evm_error_text (PrecompileError s) = ''Precompile error: '' @ s"
| "evm_error_text (CreateFailed s) = ''Contract creation failed: '' @ s"
| "evm_error_text (NonceMismatch expected got) =
     ''Nonce mismatch: expected '' @ dec_digits (unat expected) @ '', got '' @ dec_digits (unat got)"
| "evm_error_text (InsufficientBalance required available) =
     ''Insufficient balance: required '' @ required @ '', available '' @ available"
| "evm_error_text EvmInvalidSignature = ''Invalid signature''"

section \<open>Requests, responses and objects\<close>

record JsonRpcRequest =
  rq_jsonrpc :: string
  rq_id :: json
  rq_method :: string
  rq_params :: json

record JsonRpcError =
  je_code :: int
  je_message :: string
  je_data :: "json option"

record JsonRpcResponse =
  rs_jsonrpc :: string
  rs_id :: json
  rs_result :: "json option"
  rs_error :: "JsonRpcError option"

definition response_success :: "json \<Rightarrow> json \<Rightarrow> JsonRpcResponse" where
  "response_success i result = \<lparr>rs_jsonrpc = ''2.0'', rs_id = i, rs_result = Some result, rs_error = None\<rparr>"

definition response_error :: "json \<Rightarrow> int \<Rightarrow> string \<Rightarrow> JsonRpcResponse" where
  "response_error i code message =
     \<lparr>rs_jsonrpc = ''2.0'', rs_id = i, rs_result = None,
      rs_error = Some \<lparr>je_code = code, je_message = message, je_data = None\<rparr>\<rparr>"

datatype BlockTag = TagLatest | TagEarliest | TagPending | TagSafe | TagFinalized

datatype BlockId = BlockNumber u64 | BlockHash Hash | NamedBlock BlockTag

record RpcTransaction =
  rt_hash :: string
  rt_nonce :: string
  rt_block_hash :: "string option"
  rt_block_number :: "string option"
  rt_transaction_index :: "string option"
  rt_from :: string
  rt_to :: "string option"
  rt_value :: string
  rt_gas :: string
  rt_gas_price :: string
  rt_max_fee_per_gas :: "string option"
  rt_max_priority_fee_per_gas :: "string option"
  rt_input :: string
  rt_v :: string
  rt_r :: string
  rt_s :: string
  rt_tx_type :: string
  rt_chain_id :: string

record RpcBlock =
  rb_number :: string
  rb_hash :: string
  rb_parent_hash :: string
  rb_nonce :: string
  rb_sha3_uncles :: string
  rb_logs_bloom :: string
  rb_transactions_root :: string
  rb_state_root :: string
  rb_receipts_root :: string
  rb_miner :: string
  rb_difficulty :: string
  rb_total_difficulty :: string
  rb_extra_data :: string
  rb_size :: string
  rb_gas_limit :: string
  rb_gas_used :: string
  rb_timestamp :: string
  rb_transactions :: "json list"
  rb_uncles :: "string list"
  rb_base_fee_per_gas :: "string option"

text \<open>The serializer's member names; an absent base fee is skipped.\<close>

definition block_value :: "RpcBlock \<Rightarrow> json" where
  "block_value b = JObject
     ([(''number'', JString (rb_number b)), (''hash'', JString (rb_hash b)),
       (''parentHash'', JString (rb_parent_hash b)), (''nonce'', JString (rb_nonce b)),
       (''sha3Uncles'', JString (rb_sha3_uncles b)), (''logsBloom'', JString (rb_logs_bloom b)),
       (''transactionsRoot'', JString (rb_transactions_root b)), (''stateRoot'', JString (rb_state_root b)),
       (''receiptsRoot'', JString (rb_receipts_root b)), (''miner'', JString (rb_miner b)),
       (''difficulty'', JString (rb_difficulty b)), (''totalDifficulty'', JString (rb_total_difficulty b)),
       (''extraData'', JString (rb_extra_data b)), (''size'', JString (rb_size b)),
       (''gasLimit'', JString (rb_gas_limit b)), (''gasUsed'', JString (rb_gas_used b)),
       (''timestamp'', JString (rb_timestamp b)), (''transactions'', JArray (rb_transactions b)),
       (''uncles'', JArray (map JString (rb_uncles b)))]
      @ (case rb_base_fee_per_gas b of None \<Rightarrow> [] | Some f \<Rightarrow> [(''baseFeePerGas'', JString f)]))"

record RpcLog =
  rg_address :: string
  rg_topics :: "string list"
  rg_data :: string
  rg_block_number :: string
  rg_transaction_hash :: string
  rg_transaction_index :: string
  rg_block_hash :: string
  rg_log_index :: string
  rg_removed :: bool

record RpcReceipt =
  rr_transaction_hash :: string
  rr_transaction_index :: string
  rr_block_hash :: string
  rr_block_number :: string
  rr_from :: string
  rr_to :: "string option"
  rr_cumulative_gas_used :: string
  rr_gas_used :: string
  rr_contract_address :: "string option"
  rr_logs :: "RpcLog list"
  rr_logs_bloom :: string
  rr_status :: string
  rr_effective_gas_price :: string
  rr_tx_type :: string

record CallRequest =
  cq_from :: "string option"
  cq_to :: string
  cq_gas :: "string option"
  cq_gas_price :: "string option"
  cq_value :: "string option"
  cq_data :: "string option"

record LogFilter =
  lf_from_block :: "BlockId option"
  lf_to_block :: "BlockId option"
  lf_address :: "string list option"
  lf_topics :: "string list option list option"

record SyncStatus =
  sy_starting_block :: string
  sy_current_block :: string
  sy_highest_block :: string

section \<open>Formats\<close>

text \<open>The digits of \<open>format!("{:x}", n)\<close>.\<close>

fun lower_hex :: "nat \<Rightarrow> string" where
  "lower_hex n = (if n < 16 then [hex_digit n] else lower_hex (n div 16) @ [hex_digit (n mod 16)])"

declare lower_hex.simps [simp del]

definition format_u64 :: "u64 \<Rightarrow> string" where
  "format_u64 w = ''0x'' @ lower_hex (unat w)"

definition format_u256 :: "U256 \<Rightarrow> string" where
  "format_u256 x = ''0x'' @ lower_hex (unat (as_u64 x))"

definition format_hash :: "Hash \<Rightarrow> string" where
  "format_hash h = ''0x'' @ hex_encode (as_bytes h)"

definition format_address :: "Address \<Rightarrow> string" where
  "format_address a = ''0x'' @ hex_encode (addr_bytes a)"

definition format_bytes :: "u8 list \<Rightarrow> string" where
  "format_bytes bs = ''0x'' @ hex_encode bs"

definition without_0x :: "string \<Rightarrow> string" where
  "without_0x s = (case strip_prefix ''0x'' s of Some t \<Rightarrow> t | None \<Rightarrow> s)"

definition parse_u64 :: "string \<Rightarrow> u64 option" where
  "parse_u64 s = map_option of_nat (parse_hex (2 ^ 64) (without_0x s))"

definition parse_address :: "hex_decoder \<Rightarrow> string \<Rightarrow> Address option" where
  "parse_address dec s =
     (case dec (without_0x s) of Inl _ \<Rightarrow> None
      | Inr bytes \<Rightarrow> if length bytes \<noteq> 20 then None else Address_from_slice bytes)"

definition parse_hash :: "hex_decoder \<Rightarrow> string \<Rightarrow> Hash option" where
  "parse_hash dec s =
     (case dec (without_0x s) of Inl _ \<Rightarrow> None
      | Inr bytes \<Rightarrow> if length bytes \<noteq> 32 then None else Hash_from_slice bytes)"

definition parse_bytes :: "hex_decoder \<Rightarrow> string \<Rightarrow> u8 list option" where
  "parse_bytes dec s = (case dec (without_0x s) of Inl _ \<Rightarrow> None | Inr bytes \<Rightarrow> Some bytes)"

section \<open>Round trips\<close>

lemma without_0x_prefixed [simp]: "without_0x (''0x'' @ s) = s" "without_0x (CHR ''0'' # CHR ''x'' # s) = s"
  by (simp_all add: without_0x_def)

lemma hex_digit_val: "n < 16 \<Longrightarrow> hex_val (hex_digit n) = Some n"
  by (auto simp: hex_val_def hex_digit_def is_ascii_digit_def)

lemma hex_loop_append: "hex_loop a (s @ t) = Option.bind (hex_loop a s) (\<lambda>b. hex_loop b t)"
  by (induction a s rule: hex_loop.induct) (auto split: option.split)

lemma hex_loop_lower_hex: "hex_loop 0 (lower_hex n) = Some n"
proof (induction n rule: lower_hex.induct)
  case (1 n)
  then show ?case by (cases "n < 16") (subst lower_hex.simps, simp add: hex_digit_val hex_loop_append)+
qed

lemma lower_hex_hd: "\<exists>d. d < 16 \<and> hd (lower_hex n) = hex_digit d \<and> lower_hex n \<noteq> []"
proof (induction n rule: lower_hex.induct)
  case (1 n)
  then show ?case by (cases "n < 16") (subst lower_hex.simps, auto)+
qed

lemma strip_plus_lower_hex [simp]: "strip_plus (lower_hex n) = lower_hex n"
proof -
  obtain d where "d < 16" "hd (lower_hex n) = hex_digit d" "lower_hex n \<noteq> []" using lower_hex_hd by blast
  moreover have "hex_digit d \<noteq> CHR ''+''" if "d < 16" for d
    using hex_digit_val [OF that] by (auto simp: hex_val_def is_ascii_digit_def)
  ultimately show ?thesis by (cases "lower_hex n") (auto simp: strip_plus_def)
qed

lemma parse_lower_hex: "n < 2 ^ 64 \<Longrightarrow> parse_u64 (''0x'' @ lower_hex n) = Some (of_nat n)"
  using lower_hex_hd [of n] by (auto simp: parse_u64_def parse_hex_def Let_def hex_loop_lower_hex)

lemma parse_format_u64: "parse_u64 (format_u64 w) = Some w"
  using parse_lower_hex [of "unat w"] unat_lt2p [of w] by (simp add: format_u64_def)

lemma as_u64_mod: "unat (as_u64 x) = u256_val x mod 2 ^ 64"
proof (cases x)
  case (U256 a b c d)
  have "u256_val x = unat a + 2 ^ 64 * limb_val [b, c, d]" unfolding U256 u256_val_def by simp
  then show ?thesis using unat_lt2p [of a] by (simp only: mod_mult_self2) (simp add: U256 as_u64_def)
qed

lemma parse_formatted:
  assumes "decodes_hex dec"
  shows "parse_address dec (format_address a) = Some a" and "parse_hash dec (format_hash h) = Some h"
    and "parse_bytes dec (format_bytes bs) = Some bs"
  using decode_encode [OF assms]
  by (simp_all add: parse_address_def format_address_def parse_hash_def format_hash_def parse_bytes_def format_bytes_def
      Address_from_slice_def Hash_from_slice_def Address_new_bytes)

end
