(* ===== verification/Tx_Pool.thy ===== *)
theory Tx_Pool
  imports Transaction
begin

text \<open>
  The two transaction pools: \<open>TransactionPool\<close> of \<^verbatim>\<open>src/crates/nexus-consensus/src/proposer.rs\<close>, a
  bounded queue searched from front to back for duplicates, and \<open>Mempool\<close> of
  \<^verbatim>\<open>src/crates/nexus-rpc/src/mempool.rs\<close>, the same queue with an index by hash. The locale
  \<open>bounded_pool\<close> is what the proposer and the sync layer rely on: a pool is a queue of transactions
  with distinct keys, and adding refuses exactly duplicates and transactions beyond the capacity.
\<close>

section \<open>The contract\<close>

definition queue_add :: "('a \<Rightarrow> 'k) \<Rightarrow> nat \<Rightarrow> 'a \<Rightarrow> 'a list \<Rightarrow> 'a list" where
  "queue_add key cap x q = (if key x \<in> key ` set q \<or> cap \<le> length q then q else q @ [x])"

definition queue_ok :: "('a \<Rightarrow> 'k) \<Rightarrow> nat \<Rightarrow> 'a list \<Rightarrow> bool" where
  "queue_ok key cap q \<longleftrightarrow> distinct (map key q) \<and> length q \<le> cap"

lemma queue_ok_add: "queue_ok key cap q \<Longrightarrow> queue_ok key cap (queue_add key cap x q)"
  by (auto simp: queue_ok_def queue_add_def)

locale bounded_pool =
  fixes inv :: "'p \<Rightarrow> bool" and queue :: "'p \<Rightarrow> 'a list" and cap :: "'p \<Rightarrow> nat"
    and key :: "'a \<Rightarrow> 'k" and add :: "'a \<Rightarrow> 'p \<Rightarrow> 'p \<times> bool"
  assumes inv_queue: "inv p \<Longrightarrow> queue_ok key (cap p) (queue p)"
    and inv_add: "inv p \<Longrightarrow> inv (fst (add x p))"
    and cap_add: "cap (fst (add x p)) = cap p"
    and queue_after_add: "inv p \<Longrightarrow> queue (fst (add x p)) = queue_add key (cap p) x (queue p)"
    and add_accepts: "inv p \<Longrightarrow> snd (add x p) \<longleftrightarrow> key x \<notin> key ` set (queue p) \<and> length (queue p) < cap p"
begin

definition add_all :: "'a list \<Rightarrow> 'p \<Rightarrow> 'p" where
  "add_all xs p = fold (\<lambda>x p. fst (add x p)) xs p"

lemma inv_add_all: "inv p \<Longrightarrow> inv (add_all xs p)"
  unfolding add_all_def by (induction xs arbitrary: p) (simp_all add: inv_add)

lemma queue_add_all:
  assumes "inv p"
  shows "queue (add_all xs p) = fold (queue_add key (cap p)) xs (queue p)"
  using assms unfolding add_all_def
  by (induction xs arbitrary: p) (simp_all add: inv_add queue_after_add cap_add)

lemma accepted_is_last:
  "inv p \<Longrightarrow> snd (add x p) \<Longrightarrow> queue (fst (add x p)) = queue p @ [x]"
  by (auto simp: queue_after_add add_accepts queue_add_def)

lemma refused_changes_nothing: "inv p \<Longrightarrow> \<not> snd (add x p) \<Longrightarrow> queue (fst (add x p)) = queue p"
  by (auto simp: queue_after_add add_accepts queue_add_def not_less)

end

section \<open>The proposer's pool\<close>

record TransactionPool =
  tp_pending :: "Transaction list"
  tp_max_size :: nat

definition TransactionPool_new :: "nat \<Rightarrow> TransactionPool" where
  "TransactionPool_new max_size = \<lparr>tp_pending = [], tp_max_size = max_size\<rparr>"

definition TransactionPool_default :: TransactionPool where
  "TransactionPool_default = TransactionPool_new 100000"

definition pool_add :: "crypto_lib \<Rightarrow> Transaction \<Rightarrow> TransactionPool \<Rightarrow> TransactionPool \<times> bool" where
  "pool_add lib t p =
     (if length (tp_pending p) \<ge> tp_max_size p then (p, False)
      else if \<exists>u \<in> set (tp_pending p). tx_hash lib u = tx_hash lib t then (p, False)
      else (p\<lparr>tp_pending := tp_pending p @ [t]\<rparr>, True))"

definition get_pending :: "nat \<Rightarrow> TransactionPool \<Rightarrow> Transaction list" where
  "get_pending n p = take n (tp_pending p)"

definition pool_remove :: "crypto_lib \<Rightarrow> Hash list \<Rightarrow> TransactionPool \<Rightarrow> TransactionPool" where
  "pool_remove lib hashes p =
     p\<lparr>tp_pending := filter (\<lambda>t. tx_hash lib t \<notin> set hashes) (tp_pending p)\<rparr>"

definition pool_len :: "TransactionPool \<Rightarrow> nat" where
  "pool_len p = length (tp_pending p)"

definition pool_is_empty :: "TransactionPool \<Rightarrow> bool" where
  "pool_is_empty p \<longleftrightarrow> tp_pending p = []"

section \<open>The mempool\<close>

record Mempool =
  mp_pending :: "Transaction list"
  mp_by_hash :: "(Hash, Transaction) hmap"
  mp_max_size :: nat

definition Mempool_new :: "nat \<Rightarrow> Mempool" where
  "Mempool_new max_size = \<lparr>mp_pending = [], mp_by_hash = [], mp_max_size = max_size\<rparr>"

definition mempool_add :: "crypto_lib \<Rightarrow> Transaction \<Rightarrow> Mempool \<Rightarrow> Mempool \<times> bool" where
  "mempool_add lib t p =
     (let h = tx_hash lib t
      in if hcontains (mp_by_hash p) h then (p, False)
         else if length (mp_pending p) \<ge> mp_max_size p then (p, False)
         else (p\<lparr>mp_by_hash := hput h t (mp_by_hash p), mp_pending := mp_pending p @ [t]\<rparr>, True))"

definition get_by_hashes :: "Hash list \<Rightarrow> Mempool \<Rightarrow> Transaction list" where
  "get_by_hashes hashes p = List.map_filter (hget (mp_by_hash p)) hashes"

definition drain_batch :: "crypto_lib \<Rightarrow> nat \<Rightarrow> Mempool \<Rightarrow> Mempool \<times> Transaction list" where
  "drain_batch lib limit p =
     (let n = min (length (mp_pending p)) limit; batch = take n (mp_pending p)
      in (p\<lparr>mp_pending := drop n (mp_pending p),
            mp_by_hash := fold (\<lambda>t m. hdel (tx_hash lib t) m) batch (mp_by_hash p)\<rparr>, batch))"

definition mempool_len :: "Mempool \<Rightarrow> nat" where
  "mempool_len p = length (mp_pending p)"

definition mempool_is_empty :: "Mempool \<Rightarrow> bool" where
  "mempool_is_empty p \<longleftrightarrow> mempool_len p = 0"

section \<open>Both pools keep the contract\<close>

definition pool_inv :: "crypto_lib \<Rightarrow> TransactionPool \<Rightarrow> bool" where
  "pool_inv lib p \<longleftrightarrow> queue_ok (tx_hash lib) (tp_max_size p) (tp_pending p)"

lemma pool_has_key:
  "(\<exists>u \<in> set (tp_pending p). tx_hash lib u = h) \<longleftrightarrow> h \<in> tx_hash lib ` set (tp_pending p)"
  by (auto simp: image_iff)

lemma pool_add_queue:
  "tp_pending (fst (pool_add lib x p)) = queue_add (tx_hash lib) (tp_max_size p) x (tp_pending p)"
  by (simp add: pool_add_def queue_add_def pool_has_key)

lemma pool_add_cap: "tp_max_size (fst (pool_add lib x p)) = tp_max_size p"
  by (simp add: pool_add_def)

lemma pool_add_accepts:
  "snd (pool_add lib x p) \<longleftrightarrow> tx_hash lib x \<notin> tx_hash lib ` set (tp_pending p) \<and> length (tp_pending p) < tp_max_size p"
  by (auto simp: pool_add_def pool_has_key)

interpretation proposer_pool: bounded_pool "pool_inv lib" tp_pending tp_max_size "tx_hash lib" "pool_add lib" for lib
  by unfold_locales (simp_all add: pool_inv_def pool_add_queue pool_add_cap pool_add_accepts queue_ok_add)

text \<open>The index holds exactly the queue.\<close>

definition mempool_inv :: "crypto_lib \<Rightarrow> Mempool \<Rightarrow> bool" where
  "mempool_inv lib p \<longleftrightarrow> queue_ok (tx_hash lib) (mp_max_size p) (mp_pending p)
     \<and> (\<forall>h t. hget (mp_by_hash p) h = Some t \<longleftrightarrow> t \<in> set (mp_pending p) \<and> tx_hash lib t = h)"

lemma mempool_contains:
  "mempool_inv lib p \<Longrightarrow> hcontains (mp_by_hash p) h \<longleftrightarrow> h \<in> tx_hash lib ` set (mp_pending p)"
  unfolding mempool_inv_def by (cases "hget (mp_by_hash p) h") (auto, metis option.distinct(1))

interpretation rpc_pool: bounded_pool "mempool_inv lib" mp_pending mp_max_size "tx_hash lib" "mempool_add lib" for lib
proof
  fix p x
  show "mp_max_size (fst (mempool_add lib x p)) = mp_max_size p" by (simp add: mempool_add_def Let_def)
  assume inv: "mempool_inv lib p"
  note has = mempool_contains [OF inv, of "tx_hash lib x"]
  show "queue_ok (tx_hash lib) (mp_max_size p) (mp_pending p)" using inv by (simp add: mempool_inv_def)
  show "snd (mempool_add lib x p) \<longleftrightarrow> tx_hash lib x \<notin> tx_hash lib ` set (mp_pending p)
      \<and> length (mp_pending p) < mp_max_size p"
    using has by (auto simp: mempool_add_def Let_def)
  show q: "mp_pending (fst (mempool_add lib x p)) = queue_add (tx_hash lib) (mp_max_size p) x (mp_pending p)"
    using has by (auto simp: mempool_add_def Let_def queue_add_def)
  show "mempool_inv lib (fst (mempool_add lib x p))"
  proof (cases "snd (mempool_add lib x p)")
    case True
    then have "tx_hash lib x \<notin> tx_hash lib ` set (mp_pending p)"
      using has by (auto simp: mempool_add_def Let_def split: if_splits)
    moreover have step: "fst (mempool_add lib x p) = p\<lparr>mp_by_hash := hput (tx_hash lib x) x (mp_by_hash p),
        mp_pending := mp_pending p @ [x]\<rparr>"
      using True by (simp add: mempool_add_def Let_def split: if_splits)
    moreover have "queue_ok (tx_hash lib) (mp_max_size p) (mp_pending p @ [x])"
      using queue_ok_add [of "tx_hash lib" "mp_max_size p" "mp_pending p" x] q inv
      by (simp add: step mempool_inv_def)
    ultimately show ?thesis using inv by (auto simp: mempool_inv_def image_iff)
  next
    case False
    then have "fst (mempool_add lib x p) = p" by (simp add: mempool_add_def Let_def split: if_splits)
    with inv show ?thesis by simp
  qed
qed

lemma hget_fold_hdel:
  "hget (fold (\<lambda>t m. hdel (f t) m) ts m) h = (if h \<in> f ` set ts then None else hget m h)"
  by (induction ts arbitrary: m) auto

lemma mempool_inv_drain:
  assumes "mempool_inv lib p"
  shows "mempool_inv lib (fst (drain_batch lib limit p))"
proof -
  let ?n = "min (length (mp_pending p)) limit"
  let ?a = "take ?n (mp_pending p)" and ?b = "drop ?n (mp_pending p)"
  have d: "distinct (map (tx_hash lib) (?a @ ?b))"
    using assms unfolding append_take_drop_id by (simp add: mempool_inv_def queue_ok_def)
  then have "t \<in> set ?b \<longleftrightarrow> t \<in> set (?a @ ?b) \<and> tx_hash lib t \<notin> tx_hash lib ` set ?a" for t
    unfolding map_append distinct_append set_map set_append by blast
  then have "t \<in> set ?b \<longleftrightarrow> t \<in> set (mp_pending p) \<and> tx_hash lib t \<notin> tx_hash lib ` set ?a" for t
    by (simp only: append_take_drop_id)
  moreover have "distinct (map (tx_hash lib) ?b)" using d by (simp only: map_append distinct_append)
  ultimately show ?thesis using assms
    by (auto simp: mempool_inv_def drain_batch_def Let_def hget_fold_hdel queue_ok_def)
qed

section \<open>Properties\<close>

datatype mempool_op = PoolAdd Transaction | PoolDrain nat

fun mempool_step :: "crypto_lib \<Rightarrow> mempool_op \<Rightarrow> Mempool \<Rightarrow> Mempool" where
  "mempool_step lib (PoolAdd t) p = fst (mempool_add lib t p)"
| "mempool_step lib (PoolDrain n) p = fst (drain_batch lib n p)"

text \<open>
  The mempool is consistent: after any sequence of additions and drains the queue is within its
  capacity and free of duplicates, and the index finds a hash exactly when a queued transaction
  has it, and finds that transaction; the transactions a drain returns are gone from both.
\<close>

theorem mempool_consistent:
  "let p = fold (mempool_step lib) ops (Mempool_new n) in
    length (mp_pending p) \<le> n \<and> distinct (map (tx_hash lib) (mp_pending p))
    \<and> (get_by_hashes [h] p = [t] \<longleftrightarrow> t \<in> set (mp_pending p) \<and> tx_hash lib t = h)
    \<and> mp_pending p = snd (drain_batch lib k p) @ mp_pending (fst (drain_batch lib k p))"
proof -
  let ?p = "fold (mempool_step lib) ops (Mempool_new n)"
  have "mempool_inv lib (fold (mempool_step lib) ops q) \<and> mp_max_size (fold (mempool_step lib) ops q) = mp_max_size q"
    if "mempool_inv lib q" for q
    using that
  proof (induction ops arbitrary: q)
    case (Cons op ops)
    then show ?case
      by (cases op) (auto simp: mempool_inv_drain rpc_pool.inv_add rpc_pool.cap_add, simp_all add: drain_batch_def Let_def)
  qed simp
  moreover have "mempool_inv lib (Mempool_new n)" by (simp add: mempool_inv_def Mempool_new_def queue_ok_def)
  ultimately have "mempool_inv lib ?p" "mp_max_size ?p = n" by (auto simp: Mempool_new_def)
  moreover from this have "hget (mp_by_hash ?p) h = Some t \<longleftrightarrow> t \<in> set (mp_pending ?p) \<and> tx_hash lib t = h"
    by (simp add: mempool_inv_def)
  moreover have "get_by_hashes [h] ?p = [t] \<longleftrightarrow> hget (mp_by_hash ?p) h = Some t"
    by (simp add: get_by_hashes_def List.map_filter_simps split: option.split)
  ultimately show ?thesis by (simp add: mempool_inv_def queue_ok_def drain_batch_def Let_def)
qed

text \<open>
  The two pools agree: fed with the same transactions, both hold the same queue, and both accept
  the next transaction or both refuse it, although they test size and duplicates in opposite orders
  and one searches the queue while the other asks its index.
\<close>

theorem pools_agree:
  "tp_pending (fold (\<lambda>t p. fst (pool_add lib t p)) ts (TransactionPool_new n))
     = mp_pending (fold (\<lambda>t p. fst (mempool_add lib t p)) ts (Mempool_new n))
   \<and> snd (pool_add lib u (fold (\<lambda>t p. fst (pool_add lib t p)) ts (TransactionPool_new n)))
     = snd (mempool_add lib u (fold (\<lambda>t p. fst (mempool_add lib t p)) ts (Mempool_new n)))"
proof -
  let ?p = "proposer_pool.add_all lib ts (TransactionPool_new n)" and ?m = "rpc_pool.add_all lib ts (Mempool_new n)"
  have new: "pool_inv lib (TransactionPool_new n)" "mempool_inv lib (Mempool_new n)"
    by (simp_all add: pool_inv_def mempool_inv_def TransactionPool_new_def Mempool_new_def queue_ok_def)
  have cap: "tp_max_size (fold (\<lambda>t p. fst (pool_add lib t p)) ts p) = tp_max_size p"
      "mp_max_size (fold (\<lambda>t p. fst (mempool_add lib t p)) ts q) = mp_max_size q" for p q
    by (induction ts arbitrary: p q) (simp_all add: proposer_pool.cap_add rpc_pool.cap_add)
  have "tp_pending ?p = mp_pending ?m"
    using proposer_pool.queue_add_all [OF new(1)] rpc_pool.queue_add_all [OF new(2)]
    by (simp add: TransactionPool_new_def Mempool_new_def)
  then show ?thesis
    using proposer_pool.add_accepts [OF proposer_pool.inv_add_all [OF new(1)], of u ts]
      rpc_pool.add_accepts [OF rpc_pool.inv_add_all [OF new(2)], of u ts] cap
    by (simp add: proposer_pool.add_all_def rpc_pool.add_all_def TransactionPool_new_def Mempool_new_def)
qed

end
