(* ===== verification/Zkp_Commitment.thy ===== *)
theory Zkp_Commitment
  imports Complex_Main Crypto
begin

text \<open>
  Commitments, \<^verbatim>\<open>src/crates/nexus-zkp/src/commitment.rs\<close> and the configuration and errors of
  \<^verbatim>\<open>src/crates/nexus-zkp/src/lib.rs\<close>: Pedersen commitments, notes and the accumulator of commitments, a
  Merkle tree kept in one array with the root at index one. The scalar field is a HOL field, the curve
  and its byte encodings are a parameter, and random draws are arguments. The tree's depth is a natural
  number; the code's shift needs it below the width of a machine word.
\<close>

section \<open>Configuration and errors\<close>

record ZkpConfig =
  zc_max_value :: u64
  zc_range_bits :: nat
  zc_tree_depth :: nat

definition ZkpConfig_default :: ZkpConfig where
  "ZkpConfig_default = \<lparr>zc_max_value = - 1, zc_range_bits = 64, zc_tree_depth = 32\<rparr>"

datatype ZkpError =
    ProofGenerationFailed string
  | VerificationFailed string
  | ZkpInvalidInput string
  | ZkpSerializationError string
  | CircuitError string
  | InvalidCommitment
  | NullifierSpent

type_synonym 'a ZkpResult = "ZkpError + 'a"

section \<open>Pedersen commitments\<close>

record ('f, 'g) curve_lib =
  g1_add :: "'g \<Rightarrow> 'g \<Rightarrow> 'g"
  g1_mul :: "'g \<Rightarrow> 'f \<Rightarrow> 'g"
  g1_bytes :: "'g \<Rightarrow> B32"
  fr_bytes :: "'f \<Rightarrow> B32"

definition fr_of_u64 :: "u64 \<Rightarrow> 'f :: field" where
  "fr_of_u64 v = of_nat (unat v)"

record 'g PedersenGenerators =
  pg_g :: 'g
  pg_h :: 'g

definition PedersenGenerators_new :: "'g \<Rightarrow> 'g \<Rightarrow> 'g PedersenGenerators" where
  "PedersenGenerators_new draw1 draw2 = \<lparr>pg_g = draw1, pg_h = draw2\<rparr>"

definition pedersen_commit :: "('f, 'g) curve_lib \<Rightarrow> 'g PedersenGenerators \<Rightarrow> 'f \<Rightarrow> 'f \<Rightarrow> 'g" where
  "pedersen_commit cl gens value blinding =
     g1_add cl (g1_mul cl (pg_g gens) value) (g1_mul cl (pg_h gens) blinding)"

definition pedersen_verify :: "('f, 'g) curve_lib \<Rightarrow> 'g PedersenGenerators \<Rightarrow> 'g \<Rightarrow> 'f \<Rightarrow> 'f \<Rightarrow> bool" where
  "pedersen_verify cl gens commitment value blinding \<longleftrightarrow> commitment = pedersen_commit cl gens value blinding"

record 'g Commitment =
  cm_point :: 'g

definition Commitment_new :: "('f :: field, 'g) curve_lib \<Rightarrow> 'g PedersenGenerators \<Rightarrow> u64 \<Rightarrow> 'f \<Rightarrow> 'g Commitment" where
  "Commitment_new cl gens value blinding = \<lparr>cm_point = pedersen_commit cl gens (fr_of_u64 value) blinding\<rparr>"

definition Commitment_new_random ::
    "('f :: field, 'g) curve_lib \<Rightarrow> 'g PedersenGenerators \<Rightarrow> u64 \<Rightarrow> 'f \<Rightarrow> 'g Commitment \<times> 'f" where
  "Commitment_new_random cl gens value draw = (Commitment_new cl gens value draw, draw)"

definition Commitment_verify :: "('f :: field, 'g) curve_lib \<Rightarrow> 'g PedersenGenerators \<Rightarrow> u64 \<Rightarrow> 'f \<Rightarrow> 'g Commitment \<Rightarrow> bool" where
  "Commitment_verify cl gens value blinding c \<longleftrightarrow> pedersen_verify cl gens (cm_point c) (fr_of_u64 value) blinding"

definition Commitment_add :: "('f, 'g) curve_lib \<Rightarrow> 'g Commitment \<Rightarrow> 'g Commitment \<Rightarrow> 'g Commitment" where
  "Commitment_add cl c d = \<lparr>cm_point = g1_add cl (cm_point c) (cm_point d)\<rparr>"

definition Commitment_to_bytes :: "('f, 'g) curve_lib \<Rightarrow> 'g Commitment \<Rightarrow> B32" where
  "Commitment_to_bytes cl c = g1_bytes cl (cm_point c)"

section \<open>Notes\<close>

record ('f, 'g) Note =
  nt_value :: u64
  nt_commitment :: "'g Commitment"
  nt_blinding :: 'f
  nt_owner :: B32
  nt_nullifier_secret :: 'f

definition Note_new ::
    "('f :: field, 'g) curve_lib \<Rightarrow> 'g PedersenGenerators \<Rightarrow> u64 \<Rightarrow> B32 \<Rightarrow> 'f \<Rightarrow> 'f \<Rightarrow> ('f, 'g) Note" where
  "Note_new cl gens value owner draw1 draw2 =
     \<lparr>nt_value = value, nt_commitment = Commitment_new cl gens value draw1, nt_blinding = draw1,
      nt_owner = owner, nt_nullifier_secret = draw2\<rparr>"

definition Note_nullifier :: "crypto_lib \<Rightarrow> ('f, 'g) curve_lib \<Rightarrow> ('f, 'g) Note \<Rightarrow> B32" where
  "Note_nullifier lib cl n =
     blake3 lib (as_bytes (Commitment_to_bytes cl (nt_commitment n)) @ as_bytes (fr_bytes cl (nt_nullifier_secret n)))"

definition nullifier_secret_bytes :: "('f, 'g) curve_lib \<Rightarrow> ('f, 'g) Note \<Rightarrow> B32" where
  "nullifier_secret_bytes cl n = fr_bytes cl (nt_nullifier_secret n)"

definition blinding_bytes :: "('f, 'g) curve_lib \<Rightarrow> ('f, 'g) Note \<Rightarrow> B32" where
  "blinding_bytes cl n = fr_bytes cl (nt_blinding n)"

section \<open>The accumulator\<close>

record CommitmentAccumulator =
  ca_commitments :: "B32 list"
  ca_tree :: "B32 list"
  ca_depth :: nat

definition CommitmentAccumulator_new :: "nat \<Rightarrow> CommitmentAccumulator" where
  "CommitmentAccumulator_new depth =
     \<lparr>ca_commitments = [], ca_tree = replicate (2 * 2 ^ depth) 0, ca_depth = depth\<rparr>"

text \<open>\<open>while tree.len() <= i { tree.push(0) }\<close> and a read with zero behind the end.\<close>

definition grow :: "nat \<Rightarrow> B32 list \<Rightarrow> B32 list" where
  "grow i t = t @ replicate (Suc i - length t) 0"

definition node_at :: "B32 list \<Rightarrow> nat \<Rightarrow> B32" where
  "node_at t i = (if i < length t then t ! i else 0)"

definition pair_hash :: "crypto_lib \<Rightarrow> B32 \<Rightarrow> B32 \<Rightarrow> B32" where
  "pair_hash lib l r = blake3 lib (as_bytes l @ as_bytes r)"

fun update_path :: "crypto_lib \<Rightarrow> nat \<Rightarrow> B32 list \<Rightarrow> B32 list" where
  "update_path lib current t =
     (if current > 1
      then let parent = current div 2;
               left = current - current mod 2;
               right = left + 1;
               h = pair_hash lib (node_at t left) (node_at t right);
               t = grow parent t
           in update_path lib parent (t[parent := h])
      else t)"

declare update_path.simps [simp del]

definition update_tree :: "crypto_lib \<Rightarrow> nat \<Rightarrow> CommitmentAccumulator \<Rightarrow> CommitmentAccumulator" where
  "update_tree lib index a =
     (let tree_index = 2 ^ ca_depth a + index;
          t = grow tree_index (ca_tree a)
      in a\<lparr>ca_tree := update_path lib tree_index (t[tree_index := ca_commitments a ! index])\<rparr>)"

definition acc_add :: "crypto_lib \<Rightarrow> ('f, 'g) curve_lib \<Rightarrow> 'g Commitment \<Rightarrow> CommitmentAccumulator \<Rightarrow> CommitmentAccumulator \<times> nat" where
  "acc_add lib cl c a =
     (let index = length (ca_commitments a);
          a = a\<lparr>ca_commitments := ca_commitments a @ [Commitment_to_bytes cl c]\<rparr>
      in (update_tree lib index a, index))"

definition acc_root :: "CommitmentAccumulator \<Rightarrow> B32" where
  "acc_root a = (if ca_tree a = [] then 0 else ca_tree a ! 1)"

record ZkMerkleProof =
  zp_leaf :: B32
  zp_path :: "B32 list"
  zp_path_indices :: "bool list"
  zp_root :: B32

fun proof_path :: "B32 list \<Rightarrow> nat \<Rightarrow> nat \<Rightarrow> (B32 \<times> bool) list" where
  "proof_path t 0 current = []"
| "proof_path t (Suc n) current =
     (let sibling = (if current mod 2 = 0 then current + 1 else current - 1)
      in (node_at t sibling, current mod 2 = 1) # proof_path t n (current div 2))"

definition acc_proof :: "nat \<Rightarrow> CommitmentAccumulator \<Rightarrow> ZkMerkleProof option" where
  "acc_proof index a =
     (if index \<ge> length (ca_commitments a) then None
      else let path = proof_path (ca_tree a) (ca_depth a) (2 ^ ca_depth a + index)
           in Some \<lparr>zp_leaf = ca_commitments a ! index, zp_path = map fst path, zp_path_indices = map snd path,
                    zp_root = acc_root a\<rparr>)"

fun fold_path :: "crypto_lib \<Rightarrow> B32 \<Rightarrow> (B32 \<times> bool) list \<Rightarrow> B32" where
  "fold_path lib current [] = current"
| "fold_path lib current ((sibling, is_right) # path) =
     fold_path lib (if is_right then pair_hash lib sibling current else pair_hash lib current sibling) path"

definition zk_proof_verify :: "crypto_lib \<Rightarrow> ZkMerkleProof \<Rightarrow> bool" where
  "zk_proof_verify lib p \<longleftrightarrow> fold_path lib (zp_leaf p) (zip (zp_path p) (zp_path_indices p)) = zp_root p"

definition acc_verify :: "crypto_lib \<Rightarrow> ZkMerkleProof \<Rightarrow> CommitmentAccumulator \<Rightarrow> bool" where
  "acc_verify lib p a \<longleftrightarrow> zk_proof_verify lib p"

definition acc_len :: "CommitmentAccumulator \<Rightarrow> nat" where
  "acc_len a = length (ca_commitments a)"

definition accu_is_empty :: "CommitmentAccumulator \<Rightarrow> bool" where
  "accu_is_empty a \<longleftrightarrow> ca_commitments a = []"

section \<open>Paths in the tree\<close>

text \<open>A node is computed when it holds the hash of its children; \<open>upward p i\<close> are the nodes between \<open>i\<close> and the root.\<close>

definition computed :: "crypto_lib \<Rightarrow> B32 list \<Rightarrow> nat \<Rightarrow> bool" where
  "computed lib t p \<longleftrightarrow> t ! p = pair_hash lib (t ! (2 * p)) (t ! (2 * p + 1))"

inductive upward :: "nat \<Rightarrow> nat \<Rightarrow> bool" where
  parent: "1 \<le> i div 2 \<Longrightarrow> upward (i div 2) i"
| higher: "upward p (i div 2) \<Longrightarrow> upward p i"

lemma upward_half: "upward p i \<Longrightarrow> 1 \<le> p \<and> 2 * p \<le> i"
  by (induction rule: upward.induct) auto

lemma upward_less: "upward p i \<Longrightarrow> p < i"
  using upward_half [of p i] by auto

lemma upward_step: "upward p i \<longleftrightarrow> 1 \<le> p \<and> (p = i div 2 \<or> upward p (i div 2))"
  using upward_half by (subst upward.simps) fastforce

lemma upward_up: "upward c i \<Longrightarrow> 1 \<le> c div 2 \<Longrightarrow> upward (c div 2) i"
  by (induction rule: upward.induct) (use upward.intros in \<open>blast+\<close>)

lemma grow_id [simp]: "i < length t \<Longrightarrow> grow i t = t"
  by (simp add: grow_def)

lemma update_path_spec:
  assumes "current < length t" and "even (length t)"
  shows "length (update_path lib current t) = length t
    \<and> (\<forall>i. \<not> upward i current \<longrightarrow> update_path lib current t ! i = t ! i)
    \<and> (\<forall>p. upward p current \<longrightarrow> computed lib (update_path lib current t) p)"
  using assms
proof (induction lib current t rule: update_path.induct)
  case (1 lib current t)
  show ?case
  proof (cases "current > 1")
    case False
    then have "\<not> upward p current" for p using upward_half [of p current] by auto
    with False show ?thesis by (simp add: update_path.simps)
  next
    case True
    let ?p = "current div 2"
    have left: "current - current mod 2 = 2 * ?p" by (simp add: minus_mod_eq_mult_div)
    have len: "2 * ?p + 1 < length t" using 1(2,3) by presburger
    let ?t = "t[?p := pair_hash lib (t ! (2 * ?p)) (t ! (2 * ?p + 1))]"
    have eq: "update_path lib current t = update_path lib ?p ?t"
      using True len by (subst update_path.simps) (simp add: Let_def left node_at_def)
    have ih: "length (update_path lib ?p ?t) = length t"
      "\<And>i. \<not> upward i ?p \<Longrightarrow> update_path lib ?p ?t ! i = ?t ! i"
      "\<And>p. upward p ?p \<Longrightarrow> computed lib (update_path lib ?p ?t) p"
      using 1(1) [OF True refl refl refl refl refl] 1(2,3) True len by (auto simp: left node_at_def)
    have below: "\<not> upward i ?p" if "?p \<le> i" for i using that upward_less [of i ?p] by auto
    have "computed lib (update_path lib ?p ?t) ?p"
      using ih(2) [OF below] True len by (simp add: computed_def)
    moreover have "update_path lib ?p ?t ! i = t ! i" if "\<not> upward i current" for i
    proof -
      from that True upward_half [of i ?p] have "\<not> upward i ?p" "i \<noteq> ?p"
        unfolding upward_step [of i current] by auto
      with ih(2) show ?thesis by simp
    qed
    ultimately show ?thesis using ih(1,3) eq upward_step [of _ current] by auto
  qed
qed

lemma fold_path_up:
  assumes "even (length t)" and "i < length t" and "\<forall>p. upward p i \<longrightarrow> computed lib t p" and "1 \<le> i div 2 ^ n"
  shows "fold_path lib (t ! i) (proof_path t n i) = t ! (i div 2 ^ n)"
  using assms(2-4)
proof (induction n arbitrary: i)
  case (Suc n)
  let ?p = "i div 2"
  have "1 \<le> ?p" using Suc.prems(3) by (cases ?p) (simp_all add: div_mult2_eq)
  then have "upward ?p i" by (rule upward.parent)
  then have c: "t ! ?p = pair_hash lib (t ! (2 * ?p)) (t ! (2 * ?p + 1))"
    using Suc.prems(2) by (simp add: computed_def)
  have len: "2 * ?p + 1 < length t" using assms(1) Suc.prems(1) by presburger
  have "fold_path lib (t ! ?p) (proof_path t n ?p) = t ! (?p div 2 ^ n)"
    using Suc.prems by (intro Suc.IH) (auto intro: upward.higher simp: div_mult2_eq)
  moreover have "fold_path lib (t ! i) (proof_path t (Suc n) i) = fold_path lib (t ! ?p) (proof_path t n ?p)"
  proof (cases "even i")
    case True
    then have "i = 2 * ?p" by simp
    with c len True show ?thesis by (simp add: node_at_def Let_def)
  next
    case False
    then have "i mod 2 = 1" "i - 1 = 2 * ?p" "i = 2 * ?p + 1" by presburger+
    with c len show ?thesis by (simp add: node_at_def Let_def)
  qed
  ultimately show ?case by (simp add: div_mult2_eq)
qed simp

definition acc_inv :: "crypto_lib \<Rightarrow> CommitmentAccumulator \<Rightarrow> bool" where
  "acc_inv lib a \<longleftrightarrow> length (ca_tree a) = 2 * 2 ^ ca_depth a \<and> length (ca_commitments a) \<le> 2 ^ ca_depth a
     \<and> (\<forall>k < length (ca_commitments a). ca_tree a ! (2 ^ ca_depth a + k) = ca_commitments a ! k
          \<and> (\<forall>p. upward p (2 ^ ca_depth a + k) \<longrightarrow> computed lib (ca_tree a) p))"

lemma acc_add_inv:
  assumes inv: "acc_inv lib a" and room: "length (ca_commitments a) < 2 ^ ca_depth a"
  shows "acc_inv lib (fst (acc_add lib cl c a))"
proof -
  let ?d = "2 ^ ca_depth a :: nat" and ?n = "length (ca_commitments a)" and ?t = "ca_tree a"
  let ?u = "?t[?d + ?n := Commitment_to_bytes cl c]"
  let ?t' = "update_path lib (?d + ?n) ?u"
  have len: "length ?t = 2 * ?d" using inv by (simp add: acc_inv_def)
  have up: "length ?t' = 2 * ?d" "\<And>i. \<not> upward i (?d + ?n) \<Longrightarrow> ?t' ! i = ?u ! i"
      "\<And>p. upward p (?d + ?n) \<Longrightarrow> computed lib ?t' p"
    using update_path_spec [of "?d + ?n" ?u lib] len room by auto
  have low: "p < ?d" if "upward p (?d + k)" "k < ?d" for p k using upward_half [OF that(1)] that(2) by simp
  have leaf: "?t' ! (?d + k) = (if k = ?n then Commitment_to_bytes cl c else ?t ! (?d + k))" for k
  proof -
    have "\<not> upward (?d + k) (?d + ?n)" using low [of "?d + k" ?n] room by linarith
    from up(2) [OF this] show ?thesis using room len by (simp add: nth_list_update)
  qed
  have "computed lib ?t' p" if "k < ?n" "upward p (?d + k)" for p k
  proof (cases "upward p (?d + ?n)")
    case False
    have p: "1 \<le> p" "p < ?d" using upward_half [OF that(2)] low [OF that(2)] that(1) room by auto
    have off: "\<not> upward q (?d + ?n)" "q \<noteq> ?d + ?n" if "q div 2 = p" for q
      using upward_up [of q "?d + ?n"] upward.parent [of "?d + ?n"] that p False by auto
    have "?t' ! q = ?t ! q" if "q div 2 = p" for q
      using up(2) [OF off(1) [OF that]] off(2) [OF that] by simp
    moreover have "?t' ! p = ?t ! p" using up(2) [OF False] p by simp
    moreover have "computed lib ?t p" using inv that by (simp add: acc_inv_def)
    ultimately show ?thesis by (simp add: computed_def)
  qed (rule up(3))
  with up leaf inv room len show ?thesis
    by (auto simp: acc_inv_def acc_add_def update_tree_def Let_def nth_append less_Suc_eq)
qed

lemma acc_add_fields [simp]:
  "ca_commitments (fst (acc_add lib cl c a)) = ca_commitments a @ [Commitment_to_bytes cl c]"
  "ca_depth (fst (acc_add lib cl c a)) = ca_depth a"
  by (simp_all add: acc_add_def update_tree_def Let_def)

lemma acc_new_inv: "acc_inv lib (CommitmentAccumulator_new d)"
  by (simp add: acc_inv_def CommitmentAccumulator_new_def)

fun acc_add_all :: "crypto_lib \<Rightarrow> ('f, 'g) curve_lib \<Rightarrow> 'g Commitment list \<Rightarrow> CommitmentAccumulator \<Rightarrow> CommitmentAccumulator" where
  "acc_add_all lib cl [] a = a"
| "acc_add_all lib cl (c # cs) a = acc_add_all lib cl cs (fst (acc_add lib cl c a))"

lemma acc_add_all_inv:
  "acc_inv lib a \<Longrightarrow> length (ca_commitments a) + length cs \<le> 2 ^ ca_depth a \<Longrightarrow>
   acc_inv lib (acc_add_all lib cl cs a) \<and> ca_depth (acc_add_all lib cl cs a) = ca_depth a
   \<and> ca_commitments (acc_add_all lib cl cs a) = ca_commitments a @ map (Commitment_to_bytes cl) cs"
  by (induction cs arbitrary: a) (auto simp: acc_add_inv)

lemma acc_proof_verifies:
  assumes inv: "acc_inv lib a" and k: "k < length (ca_commitments a)"
  shows "\<exists>p. acc_proof k a = Some p \<and> zk_proof_verify lib p \<and> zp_leaf p = ca_commitments a ! k \<and> zp_root p = acc_root a
    \<and> length (zp_path p) = ca_depth a"
proof -
  let ?d = "2 ^ ca_depth a :: nat" and ?t = "ca_tree a"
  have len: "length ?t = 2 * ?d" and kd: "k < ?d" using inv k by (auto simp: acc_inv_def)
  have top: "(?d + k) div ?d = 1" using kd by (simp add: div_add_self1)
  have "fold_path lib (?t ! (?d + k)) (proof_path ?t (ca_depth a) (?d + k)) = ?t ! 1"
    using fold_path_up [of ?t "?d + k" lib "ca_depth a"] inv k kd len top by (auto simp: acc_inv_def)
  moreover have "?t ! (?d + k) = ca_commitments a ! k" using inv k by (simp add: acc_inv_def)
  moreover have "?t \<noteq> []" using len by auto
  moreover have "length (proof_path t n i) = n" for t n i by (induction n arbitrary: i) (simp_all add: Let_def)
  ultimately show ?thesis using k by (simp add: acc_proof_def zk_proof_verify_def acc_root_def zip_map_fst_snd Let_def)
qed

section \<open>Properties\<close>

text \<open>
  (C20) \<^bold>\<open>Inclusion proofs verify\<close>. After any additions up to the capacity of the accumulator, every index in
  use has a proof of the tree's depth, for the commitment added under that index and against the
  current root, and the proof verifies.
\<close>

theorem accumulator_proofs_verify:
  assumes "length cs \<le> 2 ^ d" and "k < length cs"
  shows "\<exists>p. acc_proof k (acc_add_all lib cl cs (CommitmentAccumulator_new d)) = Some p \<and> zk_proof_verify lib p
    \<and> zp_leaf p = Commitment_to_bytes cl (cs ! k) \<and> zp_root p = acc_root (acc_add_all lib cl cs (CommitmentAccumulator_new d))
    \<and> length (zp_path p) = d"
proof -
  let ?a = "acc_add_all lib cl cs (CommitmentAccumulator_new d)"
  have f: "ca_commitments (CommitmentAccumulator_new d) = []" "ca_depth (CommitmentAccumulator_new d) = d"
    by (simp_all add: CommitmentAccumulator_new_def)
  from acc_add_all_inv [OF acc_new_inv, of d cs lib cl] assms(1) f
  have a: "acc_inv lib ?a" "ca_depth ?a = d" "ca_commitments ?a = map (Commitment_to_bytes cl) cs" by simp_all
  from acc_proof_verifies [OF a(1), of k] assms(2) a(2,3) show ?thesis by simp
qed

definition demo_curve :: "(rat, rat) curve_lib" where
  "demo_curve = \<lparr>g1_add = (+), g1_mul = (*), g1_bytes = (\<lambda>q. of_int \<lfloor>q\<rfloor>), fr_bytes = (\<lambda>q. of_int \<lfloor>q\<rfloor>)\<rparr>"

theorem accumulator_proofs_verify_witness:
  "\<exists>p. acc_proof 1 (acc_add_all demo_lib demo_curve [\<lparr>cm_point = 7\<rparr>, \<lparr>cm_point = 8\<rparr>, \<lparr>cm_point = 9\<rparr>]
      (CommitmentAccumulator_new 2)) = Some p \<and> zk_proof_verify demo_lib p \<and> zp_leaf p = 8 \<and> length (zp_path p) = 2"
  using accumulator_proofs_verify [of "[\<lparr>cm_point = 7\<rparr>, \<lparr>cm_point = 8\<rparr>, \<lparr>cm_point = 9\<rparr>]" 2 1 demo_lib demo_curve]
  by (auto simp: Commitment_to_bytes_def demo_curve_def)

text \<open>
  \<^bold>\<open>One commitment too many destroys a proof\<close>. The accumulator takes commitments beyond its capacity: the
  leaf is put behind the tree and its path overwrites the leaf of index zero, whose proof then verifies
  only if the digest collides.
\<close>

theorem accumulator_overflow_breaks:
  assumes "blake3 lib (as_bytes (Commitment_to_bytes cl c1) @ as_bytes 0) \<noteq> Commitment_to_bytes cl c0"
  shows "\<exists>p. acc_proof 0 (acc_add_all lib cl [c0, c1] (CommitmentAccumulator_new 0)) = Some p \<and> \<not> zk_proof_verify lib p"
  using assms
  by (simp add: CommitmentAccumulator_new_def acc_add_def update_tree_def Let_def update_path.simps acc_proof_def
      zk_proof_verify_def acc_root_def node_at_def pair_hash_def grow_def numeral_eq_Suc)

theorem accumulator_overflow_breaks_witness:
  "\<exists>p. acc_proof 0 (acc_add_all demo_lib demo_curve [\<lparr>cm_point = 7\<rparr>, \<lparr>cm_point = 8\<rparr>] (CommitmentAccumulator_new 0)) = Some p
     \<and> \<not> zk_proof_verify demo_lib p"
  using demo_lib_pair by (intro accumulator_overflow_breaks) (simp add: demo_curve_def Commitment_to_bytes_def blake3_hash_def)

text \<open>
  \<^bold>\<open>Commitments add up\<close>. With scalar multiplication that distributes over the sum of scalars and a
  commutative group of points, the sum of two commitments opens to the sum of the values and blindings,
  as long as the sum of the values does not exceed 64 bits.
\<close>

theorem pedersen_homomorphic:
  fixes cl :: "('f :: field, 'g) curve_lib"
  assumes "\<And>p a b. g1_mul cl p (a + b) = g1_add cl (g1_mul cl p a) (g1_mul cl p b)"
    and "\<And>p q r. g1_add cl (g1_add cl p q) r = g1_add cl p (g1_add cl q r)"
    and "\<And>p q. g1_add cl p q = g1_add cl q p"
    and "unat v + unat w < 2 ^ 64"
  shows "Commitment_verify cl gens (v + w) (r + s)
    (Commitment_add cl (Commitment_new cl gens v r) (Commitment_new cl gens w s))"
proof -
  have "fr_of_u64 (v + w) = (fr_of_u64 v + fr_of_u64 w :: 'f)"
    using assms(4) by (simp add: fr_of_u64_def unat_add_no_overflow)
  moreover have swap: "g1_add cl (g1_add cl a b) (g1_add cl c d) = g1_add cl (g1_add cl a c) (g1_add cl b d)" for a b c d
    by (metis assms(2,3))
  ultimately show ?thesis
    by (simp add: Commitment_verify_def pedersen_verify_def Commitment_add_def Commitment_new_def pedersen_commit_def
        assms(1) swap)
qed

theorem pedersen_homomorphic_witness:
  "Commitment_verify demo_curve \<lparr>pg_g = 3, pg_h = 5\<rparr> 300 12
     (Commitment_add demo_curve (Commitment_new demo_curve \<lparr>pg_g = 3, pg_h = 5\<rparr> 100 4)
        (Commitment_new demo_curve \<lparr>pg_g = 3, pg_h = 5\<rparr> 200 8))"
proof -
  have "unat (100 :: u64) + unat (200 :: u64) < 2 ^ 64" by simp
  from pedersen_homomorphic [OF _ _ _ this, of demo_curve "\<lparr>pg_g = 3, pg_h = 5\<rparr>" 4 8]
  show ?thesis by (simp add: demo_curve_def distrib_left)
qed

end
