(* ===== verification/Zkp_Circuits.thy ===== *)
theory Zkp_Circuits
  imports Complex_Main Nexus_Prelude
begin

text \<open>
  The arithmetic circuits, \<^verbatim>\<open>src/crates/nexus-zkp/src/circuits.rs\<close>, over an arbitrary field. A constraint
  system of the third-party crate is recorded by the assigned instance and witness values and the
  enforced equalities; in setup mode values are not asked for, otherwise a missing one is an error. The
  auxiliary variables of the selection gadget, which its own constraints determine, are not recorded.
\<close>

section \<open>Constraint systems\<close>

datatype SynthesisError = AssignmentMissing

record 'f constraint_system =
  cs_setup :: bool
  cs_instance :: "'f option list"
  cs_witness :: "'f option list"
  cs_equalities :: "('f option \<times> 'f option) list"

definition cs_new :: "'f constraint_system" where
  "cs_new = \<lparr>cs_setup = False, cs_instance = [], cs_witness = [], cs_equalities = []\<rparr>"

type_synonym ('f, 'a) synth = "'f constraint_system \<Rightarrow> SynthesisError + 'a \<times> 'f constraint_system"

definition synth_bind :: "('f, 'a) synth \<Rightarrow> ('a \<Rightarrow> ('f, 'b) synth) \<Rightarrow> ('f, 'b) synth" where
  "synth_bind m k cs = (case m cs of Inl e \<Rightarrow> Inl e | Inr (x, cs') \<Rightarrow> k x cs')"

definition synth_return :: "'a \<Rightarrow> ('f, 'a) synth" where
  "synth_return x cs = Inr (x, cs)"

definition new_value :: "'a option \<Rightarrow> ('f, 'a option) synth" where
  "new_value v cs = (if cs_setup cs then Inr (None, cs) else case v of None \<Rightarrow> Inl AssignmentMissing | Some x \<Rightarrow> Inr (Some x, cs))"

definition new_witness :: "'f option \<Rightarrow> ('f, 'f option) synth" where
  "new_witness v = synth_bind (new_value v) (\<lambda>x cs. Inr (x, cs\<lparr>cs_witness := cs_witness cs @ [x]\<rparr>))"

definition new_input :: "'f option \<Rightarrow> ('f, 'f option) synth" where
  "new_input v = synth_bind (new_value v) (\<lambda>x cs. Inr (x, cs\<lparr>cs_instance := cs_instance cs @ [x]\<rparr>))"

definition fp_add :: "'f :: field option \<Rightarrow> 'f option \<Rightarrow> 'f option" where
  "fp_add a b = (case (a, b) of (Some x, Some y) \<Rightarrow> Some (x + y) | _ \<Rightarrow> None)"

definition fp_select :: "bool option \<Rightarrow> 'f option \<Rightarrow> 'f option \<Rightarrow> 'f option" where
  "fp_select c t f = (case c of None \<Rightarrow> None | Some b \<Rightarrow> if b then t else f)"

definition enforce_equal :: "'f option \<Rightarrow> 'f option \<Rightarrow> ('f, unit) synth" where
  "enforce_equal a b cs = Inr ((), cs\<lparr>cs_equalities := cs_equalities cs @ [(a, b)]\<rparr>)"

definition is_satisfied :: "'f constraint_system \<Rightarrow> bool" where
  "is_satisfied cs \<longleftrightarrow> list_all (\<lambda>(a, b). a \<noteq> None \<and> a = b) (cs_equalities cs)"

section \<open>The circuits\<close>

record 'f PrivateTransactionCircuit =
  pt_input_value :: "'f option"
  pt_input_blinding :: "'f option"
  pt_input_commitment :: "'f option"
  pt_output_value :: "'f option"
  pt_output_blinding :: "'f option"
  pt_output_commitment :: "'f option"
  pt_nullifier :: "'f option"
  pt_nullifier_secret :: "'f option"
  pt_fee :: "'f option"

definition PrivateTransactionCircuit_new ::
    "'f \<Rightarrow> 'f \<Rightarrow> 'f \<Rightarrow> 'f \<Rightarrow> 'f \<Rightarrow> 'f \<Rightarrow> 'f \<Rightarrow> 'f \<Rightarrow> 'f \<Rightarrow> 'f PrivateTransactionCircuit" where
  "PrivateTransactionCircuit_new iv ib ic ov ob oc n s f =
     \<lparr>pt_input_value = Some iv, pt_input_blinding = Some ib, pt_input_commitment = Some ic,
      pt_output_value = Some ov, pt_output_blinding = Some ob, pt_output_commitment = Some oc,
      pt_nullifier = Some n, pt_nullifier_secret = Some s, pt_fee = Some f\<rparr>"

definition PrivateTransactionCircuit_empty :: "'f PrivateTransactionCircuit" where
  "PrivateTransactionCircuit_empty =
     \<lparr>pt_input_value = None, pt_input_blinding = None, pt_input_commitment = None,
      pt_output_value = None, pt_output_blinding = None, pt_output_commitment = None,
      pt_nullifier = None, pt_nullifier_secret = None, pt_fee = None\<rparr>"

definition private_tx_constraints :: "'f :: field PrivateTransactionCircuit \<Rightarrow> ('f, unit) synth" where
  "private_tx_constraints c =
     synth_bind (new_witness (pt_input_value c)) (\<lambda>input_value.
     synth_bind (new_witness (pt_input_blinding c)) (\<lambda>input_blinding.
     synth_bind (new_witness (pt_output_value c)) (\<lambda>output_value.
     synth_bind (new_witness (pt_output_blinding c)) (\<lambda>output_blinding.
     synth_bind (new_witness (pt_nullifier_secret c)) (\<lambda>nullifier_secret.
     synth_bind (new_input (pt_input_commitment c)) (\<lambda>input_commitment.
     synth_bind (new_input (pt_output_commitment c)) (\<lambda>output_commitment.
     synth_bind (new_input (pt_nullifier c)) (\<lambda>nullifier.
     synth_bind (new_input (pt_fee c)) (\<lambda>fee.
     synth_bind (enforce_equal (fp_add input_value input_blinding) input_commitment) (\<lambda>_.
     synth_bind (enforce_equal (fp_add output_value output_blinding) output_commitment) (\<lambda>_.
     synth_bind (enforce_equal input_value (fp_add output_value fee)) (\<lambda>_.
     synth_bind (enforce_equal (fp_add input_commitment nullifier_secret) nullifier) (\<lambda>_.
     synth_return ())))))))))))))"

record 'f ComplianceCircuit =
  cc_identity_commitment :: "'f option"
  cc_kyc_signature :: "'f option"
  cc_kyc_expiry :: "'f option"
  cc_current_time :: "'f option"
  cc_amount :: "'f option"
  cc_daily_limit :: "'f option"
  cc_jurisdiction :: "'f option"
  cc_allowed_jurisdictions_root :: "'f option"
  cc_jurisdiction_proof :: "'f list option"

definition ComplianceCircuit_empty :: "'f ComplianceCircuit" where
  "ComplianceCircuit_empty =
     \<lparr>cc_identity_commitment = None, cc_kyc_signature = None, cc_kyc_expiry = None, cc_current_time = None,
      cc_amount = None, cc_daily_limit = None, cc_jurisdiction = None, cc_allowed_jurisdictions_root = None,
      cc_jurisdiction_proof = None\<rparr>"

definition compliance_constraints :: "'f ComplianceCircuit \<Rightarrow> ('f, unit) synth" where
  "compliance_constraints c =
     synth_bind (new_input (cc_identity_commitment c)) (\<lambda>_.
     synth_bind (new_input (cc_current_time c)) (\<lambda>_.
     synth_bind (new_input (cc_daily_limit c)) (\<lambda>_.
     synth_bind (new_witness (cc_kyc_expiry c)) (\<lambda>_.
     synth_bind (new_witness (cc_amount c)) (\<lambda>_.
     synth_return ())))))"

record 'f BalanceProofCircuit =
  bp_balance :: "'f option"
  bp_balance_commitment :: "'f option"
  bp_minimum_required :: "'f option"
  bp_blinding :: "'f option"

definition BalanceProofCircuit_new :: "'f \<Rightarrow> 'f \<Rightarrow> 'f \<Rightarrow> 'f \<Rightarrow> 'f BalanceProofCircuit" where
  "BalanceProofCircuit_new balance balance_commitment minimum_required blinding =
     \<lparr>bp_balance = Some balance, bp_balance_commitment = Some balance_commitment,
      bp_minimum_required = Some minimum_required, bp_blinding = Some blinding\<rparr>"

definition BalanceProofCircuit_empty :: "'f BalanceProofCircuit" where
  "BalanceProofCircuit_empty =
     \<lparr>bp_balance = None, bp_balance_commitment = None, bp_minimum_required = None, bp_blinding = None\<rparr>"

definition balance_constraints :: "'f :: field BalanceProofCircuit \<Rightarrow> ('f, unit) synth" where
  "balance_constraints c =
     synth_bind (new_witness (bp_balance c)) (\<lambda>balance.
     synth_bind (new_witness (bp_blinding c)) (\<lambda>blinding.
     synth_bind (new_input (bp_balance_commitment c)) (\<lambda>balance_commitment.
     synth_bind (new_input (bp_minimum_required c)) (\<lambda>_.
     synth_bind (enforce_equal (fp_add balance blinding) balance_commitment) (\<lambda>_.
     synth_return ())))))"

record 'f MerkleInclusionCircuit =
  mi_leaf :: "'f option"
  mi_root :: "'f option"
  mi_path_indices :: "bool list option"
  mi_siblings :: "'f list option"
  mi_depth :: nat

text \<open>The constructor asserts the lengths.\<close>

definition MerkleInclusionCircuit_new :: "'f \<Rightarrow> 'f \<Rightarrow> bool list \<Rightarrow> 'f list \<Rightarrow> nat \<Rightarrow> 'f MerkleInclusionCircuit run" where
  "MerkleInclusionCircuit_new leaf rt path_indices siblings depth =
     (if length path_indices = depth \<and> length siblings = depth
      then Ret \<lparr>mi_leaf = Some leaf, mi_root = Some rt, mi_path_indices = Some path_indices,
                 mi_siblings = Some siblings, mi_depth = depth\<rparr>
      else Panic)"

definition MerkleInclusionCircuit_empty :: "nat \<Rightarrow> 'f MerkleInclusionCircuit" where
  "MerkleInclusionCircuit_empty depth =
     \<lparr>mi_leaf = None, mi_root = None, mi_path_indices = None, mi_siblings = None, mi_depth = depth\<rparr>"

fun merkle_steps :: "'f :: field list \<Rightarrow> bool list \<Rightarrow> 'f option \<Rightarrow> ('f, 'f option) synth" where
  "merkle_steps (s # ss) (b # bs) current =
     synth_bind (new_witness (Some s)) (\<lambda>sibling.
     synth_bind (new_value (Some b)) (\<lambda>is_right.
     let left = fp_select is_right sibling current;
         right = fp_select is_right current sibling
     in merkle_steps ss bs (fp_add left right)))"
| "merkle_steps _ _ current = synth_return current"

text \<open>Reading a sibling or an index behind the end of its list panics; in setup mode neither is read.\<close>

definition merkle_constraints ::
    "'f :: field MerkleInclusionCircuit \<Rightarrow> 'f constraint_system \<Rightarrow> (SynthesisError + unit \<times> 'f constraint_system) run" where
  "merkle_constraints c cs =
     (case new_witness (mi_leaf c) cs of Inl e \<Rightarrow> Ret (Inl e)
      | Inr (leaf, cs) \<Rightarrow>
     (case new_input (mi_root c) cs of Inl e \<Rightarrow> Ret (Inl e)
      | Inr (rt, cs) \<Rightarrow>
          let n = mi_depth c;
              path_indices = (case mi_path_indices c of Some bs \<Rightarrow> bs | None \<Rightarrow> replicate n False);
              siblings = (case mi_siblings c of Some ss \<Rightarrow> ss | None \<Rightarrow> replicate n 0)
          in if cs_setup cs
             then Ret (synth_bind (merkle_steps (replicate n 0) (replicate n False) leaf) (\<lambda>current. enforce_equal current rt) cs)
             else if length siblings < n \<or> length path_indices < n then Panic
             else Ret (synth_bind (merkle_steps (take n siblings) (take n path_indices) leaf) (\<lambda>current. enforce_equal current rt) cs)))"

section \<open>What the circuits say\<close>

lemmas synth_simps = synth_bind_def synth_return_def new_value_def new_witness_def new_input_def enforce_equal_def

lemma private_tx_run:
  "private_tx_constraints (PrivateTransactionCircuit_new iv ib ic ov ob oc n s f) cs_new
     = Inr ((), \<lparr>cs_setup = False, cs_instance = map Some [ic, oc, n, f], cs_witness = map Some [iv, ib, ov, ob, s],
          cs_equalities = [(Some (iv + ib), Some ic), (Some (ov + ob), Some oc), (Some iv, Some (ov + f)), (Some (ic + s), Some n)]\<rparr>)"
  by (simp add: private_tx_constraints_def PrivateTransactionCircuit_new_def cs_new_def synth_simps fp_add_def)

lemma merkle_steps_run:
  "length bs = length ss \<Longrightarrow> \<not> cs_setup cs \<Longrightarrow>
   merkle_steps ss bs (Some x) cs = Inr (Some (x + sum_list ss), cs\<lparr>cs_witness := cs_witness cs @ map Some ss\<rparr>)"
proof (induction ss arbitrary: bs x cs)
  case (Cons s ss)
  then obtain b bs' where bs: "bs = b # bs'" by (cases bs) simp_all
  let ?cs = "cs\<lparr>cs_witness := cs_witness cs @ [Some s]\<rparr>"
  have "merkle_steps (s # ss) bs (Some x) cs = merkle_steps ss bs' (Some (x + s)) ?cs"
    using bs Cons.prems(2) by (simp add: synth_simps fp_add_def fp_select_def Let_def add.commute)
  also have "\<dots> = Inr (Some (x + s + sum_list ss), ?cs\<lparr>cs_witness := cs_witness ?cs @ map Some ss\<rparr>)"
    using Cons.prems bs by (intro Cons.IH) simp_all
  finally show ?case by (simp add: add.assoc)
qed (simp add: synth_simps)

section \<open>Properties\<close>

text \<open>
  \<^bold>\<open>The private transaction circuit enforces four sums\<close>. For a full assignment the constraints are
  generated, the instance is the two commitments, the nullifier and the fee, and the system is satisfied
  exactly if both commitments are the sum of value and blinding, the values balance with the fee, and
  the nullifier is the sum of the input commitment and the secret. With a value missing, or in an empty
  circuit, generation fails unless the system is in setup mode.
\<close>

theorem private_tx_circuit_exact:
  "(\<exists>cs. private_tx_constraints (PrivateTransactionCircuit_new iv ib ic ov ob oc n s f) cs_new = Inr ((), cs)
      \<and> cs_instance cs = map Some [ic, oc, n, f]
      \<and> (is_satisfied cs \<longleftrightarrow> ic = iv + ib \<and> oc = ov + ob \<and> iv = ov + f \<and> n = ic + s))
   \<and> private_tx_constraints PrivateTransactionCircuit_empty cs_new = Inl AssignmentMissing
   \<and> (\<exists>cs. private_tx_constraints PrivateTransactionCircuit_empty (cs_new\<lparr>cs_setup := True\<rparr>) = Inr ((), cs)
        \<and> length (cs_equalities cs) = 4)"
proof -
  have "private_tx_constraints PrivateTransactionCircuit_empty cs_new = Inl AssignmentMissing"
    and "\<exists>cs. private_tx_constraints PrivateTransactionCircuit_empty (cs_new\<lparr>cs_setup := True\<rparr>) = Inr ((), cs)
        \<and> length (cs_equalities cs) = 4"
    by (simp_all add: private_tx_constraints_def PrivateTransactionCircuit_empty_def cs_new_def synth_simps)
  then show ?thesis unfolding private_tx_run by (auto simp: is_satisfied_def)
qed

text \<open>
  (C40) \<^bold>\<open>Every statement has a witness\<close>. Whatever the public inputs, some private inputs satisfy the circuit, with
  any hidden value: a private transaction with any output value is provable for any commitments, nullifier and fee; any
  balance is provable for any commitment and any minimum; any amount is compliant for every identity, time and limit; and in a tree
  of depth at least one any leaf is included under every root. (In a tree of depth zero the leaf is the root.)
  The circuits therefore prove nothing about the hidden values.
\<close>

theorem circuits_prove_nothing:
  fixes v :: "'f :: field"
  shows "(\<exists>c cs. private_tx_constraints c cs_new = Inr ((), cs) \<and> is_satisfied cs
            \<and> cs_instance cs = map Some [ic, oc, n, f] \<and> pt_output_value c = Some v)
    \<and> (\<exists>c cs. balance_constraints c cs_new = Inr ((), cs) \<and> is_satisfied cs
            \<and> cs_instance cs = map Some [bc, minimum] \<and> bp_balance c = Some v)
    \<and> (\<exists>c cs. compliance_constraints c cs_new = Inr ((), cs) \<and> is_satisfied cs
            \<and> cs_instance cs = map Some [i, now, limit] \<and> cc_amount c = Some v)
    \<and> (\<exists>c cs. mi_depth c = Suc d \<and> merkle_constraints c cs_new = Ret (Inr ((), cs)) \<and> is_satisfied cs
            \<and> cs_instance cs = [Some rt] \<and> mi_leaf c = Some v)"
proof (intro conjI)
  show "\<exists>c cs. private_tx_constraints c cs_new = Inr ((), cs) \<and> is_satisfied cs
      \<and> cs_instance cs = map Some [ic, oc, n, f] \<and> pt_output_value c = Some v"
    using private_tx_run [of "v + f" "ic - (v + f)" ic v "oc - v" oc n "n - ic" f]
    by (intro exI [of _ "PrivateTransactionCircuit_new (v + f) (ic - (v + f)) ic v (oc - v) oc n (n - ic) f"])
      (simp add: is_satisfied_def PrivateTransactionCircuit_new_def)
  show "\<exists>c cs. balance_constraints c cs_new = Inr ((), cs) \<and> is_satisfied cs
      \<and> cs_instance cs = map Some [bc, minimum] \<and> bp_balance c = Some v"
    by (intro exI [of _ "BalanceProofCircuit_new v bc minimum (bc - v)"])
      (simp add: balance_constraints_def BalanceProofCircuit_new_def cs_new_def synth_simps fp_add_def is_satisfied_def)
  show "\<exists>c cs. compliance_constraints c cs_new = Inr ((), cs) \<and> is_satisfied cs
      \<and> cs_instance cs = map Some [i, now, limit] \<and> cc_amount c = Some v"
    by (intro exI [of _ "ComplianceCircuit_empty\<lparr>cc_identity_commitment := Some i, cc_current_time := Some now,
          cc_daily_limit := Some limit, cc_kyc_expiry := Some 0, cc_amount := Some v\<rparr>"])
      (simp add: compliance_constraints_def ComplianceCircuit_empty_def cs_new_def synth_simps is_satisfied_def)
  show "\<exists>c cs. mi_depth c = Suc d \<and> merkle_constraints c cs_new = Ret (Inr ((), cs)) \<and> is_satisfied cs
      \<and> cs_instance cs = [Some rt] \<and> mi_leaf c = Some v"
    using merkle_steps_run [of "replicate (Suc d) False" "(rt - v) # replicate d 0" "\<lparr>cs_setup = False, cs_instance = [Some rt],
        cs_witness = [Some v], cs_equalities = []\<rparr>" v]
    by (intro exI [of _ "(MerkleInclusionCircuit_empty (Suc d))\<lparr>mi_leaf := Some v, mi_root := Some rt,
          mi_siblings := Some ((rt - v) # replicate d 0), mi_path_indices := Some (replicate (Suc d) False)\<rparr>"])
      (simp add: merkle_constraints_def MerkleInclusionCircuit_empty_def cs_new_def synth_simps is_satisfied_def sum_list_replicate
        del: replicate_Suc merkle_steps.simps)
qed

end
