(* ===== verification/Zkp_Verifier.thy ===== *)
theory Zkp_Verifier
  imports Zkp_Commitment Zkp_Circuits
begin

text \<open>
  Prover and verifier, \<^verbatim>\<open>prover.rs\<close>, \<^verbatim>\<open>verifier.rs\<close> and \<^verbatim>\<open>trait_verifier.rs\<close> of
  \<^verbatim>\<open>src/crates/nexus-zkp/src/\<close>: serialized proofs, the keys of the three circuits, single and batch
  proving, the set of spent nullifiers, verification, the precompile's calldata and the byte-level
  verifier. The Groth16 implementation and its codecs are a parameter, its random draws are part of it;
  elapsed times are arguments. Additions to lengths read from calldata wrap as 64-bit integers do.
\<close>

section \<open>The proof system as a parameter\<close>

datatype 'f any_circuit =
    PrivateTx "'f PrivateTransactionCircuit"
  | BalanceCircuit "'f BalanceProofCircuit"
  | ComplianceCirc "'f ComplianceCircuit"

record ('f, 'pk, 'vk, 'pvk, 'pf) groth16_lib =
  gr_setup :: "'f any_circuit \<Rightarrow> string + 'pk \<times> 'vk"
  gr_prove :: "'pk \<Rightarrow> 'f any_circuit \<Rightarrow> string + 'pf"
  gr_verify :: "'pvk \<Rightarrow> 'f list \<Rightarrow> 'pf \<Rightarrow> string + bool"
  gr_process_vk :: "'vk \<Rightarrow> string + 'pvk"
  vk_from_bytes :: "u8 list \<Rightarrow> string + 'vk"
  pk_to_bytes :: "'pk \<Rightarrow> string + u8 list"
  pf_to_bytes :: "'pf \<Rightarrow> string + u8 list"
  pf_from_bytes :: "u8 list \<Rightarrow> string + 'pf"
  fr_to_bytes32 :: "'f \<Rightarrow> B32"
  fr_from_bytes32 :: "B32 \<Rightarrow> string + 'f"
  fr_from_le :: "u8 list \<Rightarrow> 'f"

definition map_err :: "('e \<Rightarrow> 'e2) \<Rightarrow> 'e + 'a \<Rightarrow> 'e2 + 'a" where
  "map_err f r = (case r of Inl e \<Rightarrow> Inl (f e) | Inr x \<Rightarrow> Inr x)"

definition res_bind :: "'e + 'a \<Rightarrow> ('a \<Rightarrow> 'e + 'b) \<Rightarrow> 'e + 'b" where
  "res_bind r k = (case r of Inl e \<Rightarrow> Inl e | Inr x \<Rightarrow> k x)"

fun collect :: "('e + 'a) list \<Rightarrow> 'e + 'a list" where
  "collect [] = Inr []"
| "collect (Inl e # rs) = Inl e"
| "collect (Inr x # rs) = res_bind (collect rs) (\<lambda>xs. Inr (x # xs))"

section \<open>Serialized proofs and keys\<close>

record SerializedProof =
  sp_proof_bytes :: "u8 list"
  sp_public_inputs :: "B32 list"

definition from_groth16 :: "('f, 'pk, 'vk, 'pvk, 'pf) groth16_lib \<Rightarrow> 'pf \<Rightarrow> 'f list \<Rightarrow> SerializedProof ZkpResult" where
  "from_groth16 gr pf public_inputs =
     res_bind (map_err ZkpSerializationError (pf_to_bytes gr pf)) (\<lambda>proof_bytes.
     Inr \<lparr>sp_proof_bytes = proof_bytes, sp_public_inputs = map (fr_to_bytes32 gr) public_inputs\<rparr>)"

definition to_groth16 :: "('f, 'pk, 'vk, 'pvk, 'pf) groth16_lib \<Rightarrow> SerializedProof \<Rightarrow> ('pf \<times> 'f list) ZkpResult" where
  "to_groth16 gr p =
     res_bind (map_err ZkpSerializationError (pf_from_bytes gr (sp_proof_bytes p))) (\<lambda>pf.
     res_bind (map_err ZkpSerializationError (collect (map (fr_from_bytes32 gr) (sp_public_inputs p)))) (\<lambda>inputs.
     Inr (pf, inputs)))"

record 'pk ProvingKeys =
  pk_private_tx :: "'pk option"
  pk_balance_proof :: "'pk option"
  pk_compliance :: "'pk option"

definition ProvingKeys_new :: "'pk ProvingKeys" where
  "ProvingKeys_new = \<lparr>pk_private_tx = None, pk_balance_proof = None, pk_compliance = None\<rparr>"

definition proving_setup :: "('f, 'pk, 'vk, 'pvk, 'pf) groth16_lib \<Rightarrow> 'pk ProvingKeys \<Rightarrow> 'pk ProvingKeys \<times> unit ZkpResult" where
  "proving_setup gr ks =
     (case gr_setup gr (PrivateTx PrivateTransactionCircuit_empty) of Inl e \<Rightarrow> (ks, Inl (ProofGenerationFailed e))
      | Inr (pk, _) \<Rightarrow>
          let ks = ks\<lparr>pk_private_tx := Some pk\<rparr> in
          case gr_setup gr (BalanceCircuit BalanceProofCircuit_empty) of Inl e \<Rightarrow> (ks, Inl (ProofGenerationFailed e))
          | Inr (pk, _) \<Rightarrow>
              let ks = ks\<lparr>pk_balance_proof := Some pk\<rparr> in
              case gr_setup gr (ComplianceCirc ComplianceCircuit_empty) of Inl e \<Rightarrow> (ks, Inl (ProofGenerationFailed e))
              | Inr (pk, _) \<Rightarrow> (ks\<lparr>pk_compliance := Some pk\<rparr>, Inr ()))"

definition keys_serialize :: "('f, 'pk, 'vk, 'pvk, 'pf) groth16_lib \<Rightarrow> 'pk ProvingKeys \<Rightarrow> u8 list ZkpResult" where
  "keys_serialize gr ks =
     (case pk_private_tx ks of None \<Rightarrow> Inr [] | Some pk \<Rightarrow> map_err ZkpSerializationError (pk_to_bytes gr pk))"

section \<open>Proving\<close>

definition bytes_to_fr :: "('f, 'pk, 'vk, 'pvk, 'pf) groth16_lib \<Rightarrow> B32 \<Rightarrow> 'f" where
  "bytes_to_fr gr b = fr_from_le gr (take 31 (as_bytes b))"

record private_tx_input =
  px_input_value :: u64
  px_input_blinding :: B32
  px_input_commitment :: B32
  px_output_value :: u64
  px_output_blinding :: B32
  px_output_commitment :: B32
  px_nullifier :: B32
  px_nullifier_secret :: B32
  px_fee :: u64

definition private_circuit :: "('f :: field, 'pk, 'vk, 'pvk, 'pf) groth16_lib \<Rightarrow> private_tx_input \<Rightarrow> 'f PrivateTransactionCircuit" where
  "private_circuit gr x = PrivateTransactionCircuit_new
     (fr_of_u64 (px_input_value x)) (bytes_to_fr gr (px_input_blinding x)) (bytes_to_fr gr (px_input_commitment x))
     (fr_of_u64 (px_output_value x)) (bytes_to_fr gr (px_output_blinding x)) (bytes_to_fr gr (px_output_commitment x))
     (bytes_to_fr gr (px_nullifier x)) (bytes_to_fr gr (px_nullifier_secret x)) (fr_of_u64 (px_fee x))"

definition prove_private_transaction ::
    "('f :: field, 'pk, 'vk, 'pvk, 'pf) groth16_lib \<Rightarrow> 'pk ProvingKeys \<Rightarrow> private_tx_input \<Rightarrow> SerializedProof ZkpResult" where
  "prove_private_transaction gr ks x =
     (case pk_private_tx ks of None \<Rightarrow> Inl (ProofGenerationFailed ''Proving key not loaded'')
      | Some pk \<Rightarrow>
          res_bind (map_err ProofGenerationFailed (gr_prove gr pk (PrivateTx (private_circuit gr x)))) (\<lambda>pf.
          from_groth16 gr pf [bytes_to_fr gr (px_input_commitment x), bytes_to_fr gr (px_output_commitment x),
             bytes_to_fr gr (px_nullifier x), fr_of_u64 (px_fee x)]))"

definition prove_balance ::
    "('f :: field, 'pk, 'vk, 'pvk, 'pf) groth16_lib \<Rightarrow> 'pk ProvingKeys \<Rightarrow> u64 \<Rightarrow> B32 \<Rightarrow> u64 \<Rightarrow> B32 \<Rightarrow> SerializedProof ZkpResult" where
  "prove_balance gr ks balance balance_commitment minimum_required blinding =
     (case pk_balance_proof ks of None \<Rightarrow> Inl (ProofGenerationFailed ''Proving key not loaded'')
      | Some pk \<Rightarrow>
          let circuit = BalanceProofCircuit_new (fr_of_u64 balance) (bytes_to_fr gr balance_commitment)
                          (fr_of_u64 minimum_required) (bytes_to_fr gr blinding)
          in res_bind (map_err ProofGenerationFailed (gr_prove gr pk (BalanceCircuit circuit))) (\<lambda>pf.
             from_groth16 gr pf [bytes_to_fr gr balance_commitment, fr_of_u64 minimum_required]))"

datatype PendingProof = PendingPrivateTransaction private_tx_input | PendingBalance u64 B32 u64 B32

record 'pk BatchProver =
  bt_prover :: "'pk ProvingKeys"
  bt_pending :: "PendingProof list"

definition BatchProver_new :: "'pk ProvingKeys \<Rightarrow> 'pk BatchProver" where
  "BatchProver_new ks = \<lparr>bt_prover = ks, bt_pending = []\<rparr>"

definition add_private_transaction :: "private_tx_input \<Rightarrow> 'pk BatchProver \<Rightarrow> 'pk BatchProver" where
  "add_private_transaction x b = b\<lparr>bt_pending := bt_pending b @ [PendingPrivateTransaction x]\<rparr>"

definition add_balance_proof :: "u64 \<Rightarrow> B32 \<Rightarrow> u64 \<Rightarrow> B32 \<Rightarrow> 'pk BatchProver \<Rightarrow> 'pk BatchProver" where
  "add_balance_proof balance commitment minimum blinding b =
     b\<lparr>bt_pending := bt_pending b @ [PendingBalance balance commitment minimum blinding]\<rparr>"

fun prove_pending :: "('f :: field, 'pk, 'vk, 'pvk, 'pf) groth16_lib \<Rightarrow> 'pk ProvingKeys \<Rightarrow> PendingProof \<Rightarrow> SerializedProof ZkpResult" where
  "prove_pending gr ks (PendingPrivateTransaction x) = prove_private_transaction gr ks x"
| "prove_pending gr ks (PendingBalance balance commitment minimum blinding) = prove_balance gr ks balance commitment minimum blinding"

definition prove_all :: "('f :: field, 'pk, 'vk, 'pvk, 'pf) groth16_lib \<Rightarrow> 'pk BatchProver \<Rightarrow> 'pk BatchProver \<times> SerializedProof list ZkpResult" where
  "prove_all gr b = (b\<lparr>bt_pending := []\<rparr>, collect (map (prove_pending gr (bt_prover b)) (bt_pending b)))"

section \<open>Verifying\<close>

record 'pvk VerifyingKeys =
  vk_private_tx :: "'pvk option"
  vk_balance_proof :: "'pvk option"
  vk_compliance :: "'pvk option"

definition VerifyingKeys_new :: "'pvk VerifyingKeys" where
  "VerifyingKeys_new = \<lparr>vk_private_tx = None, vk_balance_proof = None, vk_compliance = None\<rparr>"

definition load_vk :: "('f, 'pk, 'vk, 'pvk, 'pf) groth16_lib \<Rightarrow> u8 list option \<Rightarrow> 'pvk option ZkpResult" where
  "load_vk gr bytes =
     (case bytes of None \<Rightarrow> Inr None
      | Some b \<Rightarrow>
          res_bind (map_err ZkpSerializationError (vk_from_bytes gr b)) (\<lambda>vk.
          res_bind (map_err VerificationFailed (gr_process_vk gr vk)) (\<lambda>pvk. Inr (Some pvk))))"

definition VerifyingKeys_from_bytes ::
    "('f, 'pk, 'vk, 'pvk, 'pf) groth16_lib \<Rightarrow> u8 list option \<Rightarrow> u8 list option \<Rightarrow> u8 list option \<Rightarrow> 'pvk VerifyingKeys ZkpResult" where
  "VerifyingKeys_from_bytes gr private_tx balance_proof compliance =
     res_bind (load_vk gr private_tx) (\<lambda>p. res_bind (load_vk gr balance_proof) (\<lambda>b.
     res_bind (load_vk gr compliance) (\<lambda>c. Inr \<lparr>vk_private_tx = p, vk_balance_proof = b, vk_compliance = c\<rparr>)))"

type_synonym NullifierSet = "B32 list"

definition nullifier_contains :: "B32 \<Rightarrow> NullifierSet \<Rightarrow> bool" where
  "nullifier_contains n s \<longleftrightarrow> n \<in> set s"

definition nullifier_insert :: "B32 \<Rightarrow> NullifierSet \<Rightarrow> NullifierSet \<times> bool" where
  "nullifier_insert n s = (if n \<in> set s then (s, False) else (s @ [n], True))"

definition nullifier_remove :: "B32 \<Rightarrow> NullifierSet \<Rightarrow> NullifierSet \<times> bool" where
  "nullifier_remove n s = (filter (\<lambda>m. m \<noteq> n) s, n \<in> set s)"

datatype ProofType = PrivateTransactionProof | BalanceProofType | ComplianceProof | MerkleInclusionProof

record VerificationResult =
  vr_valid :: bool
  vr_proof_type :: ProofType
  vr_nullifier :: "B32 option"
  vr_verification_time_us :: u64

record 'pvk Verifier =
  ver_keys :: "'pvk VerifyingKeys"
  ver_nullifier_set :: NullifierSet

definition Verifier_new :: "'pvk VerifyingKeys \<Rightarrow> 'pvk Verifier" where
  "Verifier_new ks = \<lparr>ver_keys = ks, ver_nullifier_set = []\<rparr>"

definition verify_private_transaction ::
    "('f, 'pk, 'vk, 'pvk, 'pf) groth16_lib \<Rightarrow> u64 \<Rightarrow> SerializedProof \<Rightarrow> 'pvk Verifier \<Rightarrow> VerificationResult ZkpResult" where
  "verify_private_transaction gr elapsed p v =
     (case vk_private_tx (ver_keys v) of None \<Rightarrow> Inl (VerificationFailed ''Verifying key not loaded'')
      | Some pvk \<Rightarrow>
          res_bind (to_groth16 gr p) (\<lambda>(groth_proof, public_inputs).
          let nullifier = (if length public_inputs \<ge> 3 then Some (fr_to_bytes32 gr (public_inputs ! 2)) else None)
          in if (case nullifier of None \<Rightarrow> False | Some nf \<Rightarrow> nullifier_contains nf (ver_nullifier_set v)) then Inl NullifierSpent
             else res_bind (map_err VerificationFailed (gr_verify gr pvk public_inputs groth_proof)) (\<lambda>valid.
                  Inr \<lparr>vr_valid = valid, vr_proof_type = PrivateTransactionProof, vr_nullifier = nullifier,
                       vr_verification_time_us = elapsed\<rparr>)))"

definition verify_with_key :: "('f, 'pk, 'vk, 'pvk, 'pf) groth16_lib \<Rightarrow> u64 \<Rightarrow> 'pvk option \<Rightarrow> ProofType \<Rightarrow> SerializedProof \<Rightarrow> VerificationResult ZkpResult" where
  "verify_with_key gr elapsed key ty p =
     (case key of None \<Rightarrow> Inl (VerificationFailed ''Verifying key not loaded'')
      | Some pvk \<Rightarrow>
          res_bind (to_groth16 gr p) (\<lambda>(groth_proof, public_inputs).
          res_bind (map_err VerificationFailed (gr_verify gr pvk public_inputs groth_proof)) (\<lambda>valid.
          Inr \<lparr>vr_valid = valid, vr_proof_type = ty, vr_nullifier = None, vr_verification_time_us = elapsed\<rparr>)))"

definition verify_balance_proof ::
    "('f, 'pk, 'vk, 'pvk, 'pf) groth16_lib \<Rightarrow> u64 \<Rightarrow> SerializedProof \<Rightarrow> 'pvk Verifier \<Rightarrow> VerificationResult ZkpResult" where
  "verify_balance_proof gr elapsed p v = verify_with_key gr elapsed (vk_balance_proof (ver_keys v)) BalanceProofType p"

definition verify_compliance_proof ::
    "('f, 'pk, 'vk, 'pvk, 'pf) groth16_lib \<Rightarrow> u64 \<Rightarrow> SerializedProof \<Rightarrow> 'pvk Verifier \<Rightarrow> VerificationResult ZkpResult" where
  "verify_compliance_proof gr elapsed p v = verify_with_key gr elapsed (vk_compliance (ver_keys v)) ComplianceProof p"

definition mark_nullifier_spent :: "B32 \<Rightarrow> 'pvk Verifier \<Rightarrow> 'pvk Verifier \<times> bool" where
  "mark_nullifier_spent n v =
     (let (s, fresh) = nullifier_insert n (ver_nullifier_set v) in (v\<lparr>ver_nullifier_set := s\<rparr>, fresh))"

definition rollback_nullifier :: "B32 \<Rightarrow> 'pvk Verifier \<Rightarrow> 'pvk Verifier \<times> bool" where
  "rollback_nullifier n v =
     (let (s, found) = nullifier_remove n (ver_nullifier_set v) in (v\<lparr>ver_nullifier_set := s\<rparr>, found))"

definition nullifier_count :: "'pvk Verifier \<Rightarrow> nat" where
  "nullifier_count v = length (ver_nullifier_set v)"

definition verify_batch ::
    "('f, 'pk, 'vk, 'pvk, 'pf) groth16_lib \<Rightarrow> u64 \<Rightarrow> (SerializedProof \<times> ProofType) list \<Rightarrow> 'pvk Verifier \<Rightarrow> VerificationResult ZkpResult list" where
  "verify_batch gr elapsed proofs v =
     map (\<lambda>(p, ty). case ty of
            PrivateTransactionProof \<Rightarrow> verify_private_transaction gr elapsed p v
          | BalanceProofType \<Rightarrow> verify_balance_proof gr elapsed p v
          | ComplianceProof \<Rightarrow> verify_compliance_proof gr elapsed p v
          | MerkleInclusionProof \<Rightarrow> Inl (VerificationFailed ''Merkle verification not implemented'')) proofs"

section \<open>The precompile and the byte-level verifier\<close>

definition GROTH16_VERIFY_GAS :: u64 where "GROTH16_VERIFY_GAS = 100000"
definition BALANCE_PROOF_GAS :: u64 where "BALANCE_PROOF_GAS = 80000"
definition COMPLIANCE_PROOF_GAS :: u64 where "COMPLIANCE_PROOF_GAS = 120000"

record Groth16VerifyInput =
  gi_proof :: "u8 list"
  gi_public_inputs :: "B32 list"
  gi_vk_hash :: B32

fun words32 :: "u8 list \<Rightarrow> B32 list" where
  "words32 bs = (if length bs < 32 then [] else Hash_new (take 32 bs) # words32 (drop 32 bs))"

declare words32.simps [simp del]

definition from_calldata :: "u8 list \<Rightarrow> Groth16VerifyInput ZkpResult run" where
  "from_calldata data =
     (if length data < 64 then Ret (Inl (ZkpInvalidInput ''Calldata too short''))
      else let vk_hash = Hash_new (take 32 data);
               proof_len = u64_from_be_bytes (take 8 (drop 32 data));
               proof_end = unat (40 + proof_len)
           in if length data < proof_end then Ret (Inl (ZkpInvalidInput ''Invalid proof length''))
              else if proof_end < 40 then Panic
              else Ret (Inr \<lparr>gi_proof = take (proof_end - 40) (drop 40 data),
                            gi_public_inputs = words32 (drop proof_end data), gi_vk_hash = vk_hash\<rparr>))"

definition execute_verify ::
    "('f, 'pk, 'vk, 'pvk, 'pf) groth16_lib \<Rightarrow> u64 \<Rightarrow> 'pvk Verifier \<Rightarrow> Groth16VerifyInput \<Rightarrow> u8 list ZkpResult" where
  "execute_verify gr elapsed v x =
     res_bind (verify_private_transaction gr elapsed \<lparr>sp_proof_bytes = gi_proof x, sp_public_inputs = gi_public_inputs x\<rparr> v)
       (\<lambda>r. Inr (if vr_valid r then (replicate 32 0)[31 := 1] else replicate 32 0))"

record 'pvk DefaultVerifier =
  dv_inner :: "'pvk Verifier option"

definition DefaultVerifier_default :: "'pvk DefaultVerifier" where
  "DefaultVerifier_default = \<lparr>dv_inner = None\<rparr>"

definition with_keys :: "'pvk VerifyingKeys \<Rightarrow> 'pvk DefaultVerifier" where
  "with_keys ks = \<lparr>dv_inner = Some (Verifier_new ks)\<rparr>"

definition default_verify :: "('f, 'pk, 'vk, 'pvk, 'pf) groth16_lib \<Rightarrow> u8 list \<Rightarrow> u8 list \<Rightarrow> 'pvk DefaultVerifier \<Rightarrow> bool" where
  "default_verify gr pf input d =
     (case dv_inner d of None \<Rightarrow> False
      | Some verifier \<Rightarrow>
          if length input mod 32 \<noteq> 0 then False
          else (case verify_private_transaction gr 0 \<lparr>sp_proof_bytes = pf, sp_public_inputs = words32 input\<rparr> verifier of
                  Inl _ \<Rightarrow> False | Inr r \<Rightarrow> vr_valid r))"

section \<open>Nullifier histories\<close>

text \<open>
  What a store of spent nullifiers promises: each operation decides membership of its own element and
  leaves the others. Over a sequence of operations the last one on an element decides.
\<close>

datatype spent_op = MarkSpent B32 | Rollback B32

fun op_target :: "spent_op \<Rightarrow> B32" where
  "op_target (MarkSpent n) = n"
| "op_target (Rollback n) = n"

definition spent_after :: "B32 \<Rightarrow> bool \<Rightarrow> spent_op list \<Rightarrow> bool" where
  "spent_after n before ops =
     (let qs = filter (\<lambda>q. op_target q = n) ops in if qs = [] then before else last qs = MarkSpent n)"

lemma spent_after_snoc [simp]:
  "spent_after n before (ops @ [q]) = (if op_target q = n then q = MarkSpent n else spent_after n before ops)"
  by (simp add: spent_after_def)

locale spent_store =
  fixes holds :: "B32 \<Rightarrow> 's \<Rightarrow> bool" and apply_to :: "spent_op \<Rightarrow> 's \<Rightarrow> 's"
  assumes holds_mark: "holds m (apply_to (MarkSpent n) s) \<longleftrightarrow> m = n \<or> holds m s"
    and holds_rollback: "holds m (apply_to (Rollback n) s) \<longleftrightarrow> m \<noteq> n \<and> holds m s"
begin

lemma holds_after: "holds n (fold apply_to ops s) \<longleftrightarrow> spent_after n (holds n s) ops"
proof (induction ops rule: rev_induct)
  case (snoc q ops)
  then show ?case by (cases q) (auto simp: holds_mark holds_rollback)
qed (simp add: spent_after_def)

end

definition spent_apply :: "spent_op \<Rightarrow> 'pvk Verifier \<Rightarrow> 'pvk Verifier" where
  "spent_apply q v = (case q of MarkSpent n \<Rightarrow> fst (mark_nullifier_spent n v) | Rollback n \<Rightarrow> fst (rollback_nullifier n v))"

lemmas spent_simps = spent_apply_def mark_nullifier_spent_def rollback_nullifier_def nullifier_insert_def
  nullifier_remove_def nullifier_contains_def

interpretation vs: spent_store "\<lambda>n v. nullifier_contains n (ver_nullifier_set v)" spent_apply
  by unfold_locales (auto simp: spent_simps)

lemma spent_apply_keys: "ver_keys (fold spent_apply ops v) = ver_keys v"
  by (induction ops arbitrary: v) (simp_all add: spent_simps split: spent_op.split)

lemma spent_apply_distinct:
  "distinct (ver_nullifier_set v) \<Longrightarrow> distinct (ver_nullifier_set (fold spent_apply ops v))"
  by (induction ops arbitrary: v) (simp_all add: spent_simps split: spent_op.split)

lemma nullifier_count_exact:
  "distinct (ver_nullifier_set v) \<Longrightarrow>
   nullifier_count (fold spent_apply ops v) = card {n. nullifier_contains n (ver_nullifier_set (fold spent_apply ops v))}"
  using distinct_card [OF spent_apply_distinct [of v ops]] by (simp add: nullifier_count_def nullifier_contains_def)

section \<open>Decoding\<close>

lemma res_bind_simps [simp]: "res_bind (Inl e) k = Inl e" "res_bind (Inr x) k = k x"
  by (simp_all add: res_bind_def)

lemma map_err_simps [simp]: "map_err f (Inl e) = Inl (f e)" "map_err f (Inr x) = Inr x"
  by (simp_all add: map_err_def)

lemma collect_Inr [simp]: "collect (map (\<lambda>x. Inr (f x)) xs) = Inr (map f xs)"
  by (induction xs) simp_all

lemma collect_inverse: "(\<forall>x\<in>set xs. dec (enc x) = Inr x) \<Longrightarrow> collect (map (dec \<circ> enc) xs) = Inr xs"
  by (induction xs) simp_all

lemma groth16_codec:
  assumes "pf_to_bytes gr pf = Inr bytes" and "pf_from_bytes gr bytes = Inr pf"
    and "\<forall>x\<in>set xs. fr_from_bytes32 gr (fr_to_bytes32 gr x) = Inr x"
  obtains p where "from_groth16 gr pf xs = Inr p" and "to_groth16 gr p = Inr (pf, xs)"
  using assms collect_inverse [of xs "fr_from_bytes32 gr" "fr_to_bytes32 gr"] by (simp add: from_groth16_def to_groth16_def)

lemma words32_Nil: "length bs < 32 \<Longrightarrow> words32 bs = []"
  by (simp add: words32.simps)

lemma words32_concat: "length rest < 32 \<Longrightarrow> words32 (concat (map as_bytes ws) @ rest) = ws"
  by (induction ws) (subst words32.simps, simp add: words32_Nil)+

lemma words32_length: "length (words32 bs) = length bs div 32"
proof (induction bs rule: words32.induct)
  case (1 bs)
  then show ?case by (subst words32.simps) (auto simp: le_div_geq)
qed

text \<open>The end of the proof wraps exactly if the announced length is within 40 of the top of the range.\<close>

lemma proof_end_wrap:
  fixes n :: u64
  shows "unat (40 + n) < 40 \<longleftrightarrow> 2 ^ 64 - 40 \<le> unat n"
    and "unat n < 2 ^ 64 - 40 \<Longrightarrow> unat (40 + n) = 40 + unat n"
  using unat_lt2p [of n] by (auto simp: unat_word_ariths mod_if)

lemma verify_private_decoded:
  assumes "vk_private_tx (ver_keys v) = Some pvk" and "to_groth16 gr p = Inr (pf, ins)" and "3 \<le> length ins"
  shows "verify_private_transaction gr t p v =
    (if nullifier_contains (fr_to_bytes32 gr (ins ! 2)) (ver_nullifier_set v) then Inl NullifierSpent
     else res_bind (map_err VerificationFailed (gr_verify gr pvk ins pf)) (\<lambda>valid.
       Inr \<lparr>vr_valid = valid, vr_proof_type = PrivateTransactionProof,
            vr_nullifier = Some (fr_to_bytes32 gr (ins ! 2)), vr_verification_time_us = t\<rparr>))"
  using assms by (simp add: verify_private_transaction_def)

lemma private_circuit_satisfied:
  fixes gr :: "('f :: field, 'pk, 'vk, 'pvk, 'pf) groth16_lib"
  assumes "bytes_to_fr gr (px_input_commitment x) = fr_of_u64 (px_input_value x) + bytes_to_fr gr (px_input_blinding x)"
    and "bytes_to_fr gr (px_output_commitment x) = fr_of_u64 (px_output_value x) + bytes_to_fr gr (px_output_blinding x)"
    and "bytes_to_fr gr (px_nullifier x) = bytes_to_fr gr (px_input_commitment x) + bytes_to_fr gr (px_nullifier_secret x)"
    and "unat (px_input_value x) = unat (px_output_value x) + unat (px_fee x)"
  obtains cs where "private_tx_constraints (private_circuit gr x) cs_new = Inr ((), cs)" and "is_satisfied cs"
    and "map the (cs_instance cs) = [bytes_to_fr gr (px_input_commitment x), bytes_to_fr gr (px_output_commitment x),
             bytes_to_fr gr (px_nullifier x), fr_of_u64 (px_fee x)]"
  using assms unfolding private_circuit_def private_tx_run by (simp add: is_satisfied_def fr_of_u64_def)

definition encoded_nullifier :: "('f, 'pk, 'vk, 'pvk, 'pf) groth16_lib \<Rightarrow> private_tx_input \<Rightarrow> B32" where
  "encoded_nullifier gr x = fr_to_bytes32 gr (bytes_to_fr gr (px_nullifier x))"

section \<open>Properties\<close>

text \<open>
  (C18) \<^bold>\<open>An honest private transaction is accepted once\<close>. Suppose the keys are loaded, Groth16 is complete for
  them (a satisfied private transaction circuit has a proof that verifies for its instance) and the codecs of
  proofs and of the four public inputs round-trip. If the commitments, the nullifier and the
  values add up as the circuit asks, then \<open>prove_private_transaction\<close> returns a proof, and
  \<open>verify_private_transaction\<close> accepts it with the encoded nullifier unless that nullifier is spent, when it refuses it;
  after \<open>mark_nullifier_spent\<close> with the reported nullifier the proof is refused, and
  \<open>rollback_nullifier\<close> makes it acceptable again.
\<close>

theorem private_transaction_accepted_once:
  fixes gr :: "('f :: field, 'pk, 'vk, 'pvk, 'pf) groth16_lib" and v :: "'pvk Verifier"
  assumes keys: "pk_private_tx ks = Some pk" "vk_private_tx (ver_keys v) = Some pvk"
    and complete: "\<And>c cs. private_tx_constraints c cs_new = Inr ((), cs) \<Longrightarrow> is_satisfied cs \<Longrightarrow>
        \<exists>pf bytes. gr_prove gr pk (PrivateTx c) = Inr pf \<and> gr_verify gr pvk (map the (cs_instance cs)) pf = Inr True
          \<and> pf_to_bytes gr pf = Inr bytes \<and> pf_from_bytes gr bytes = Inr pf"
    and codec: "\<forall>y\<in>{bytes_to_fr gr (px_input_commitment x), bytes_to_fr gr (px_output_commitment x),
        bytes_to_fr gr (px_nullifier x), fr_of_u64 (px_fee x)}. fr_from_bytes32 gr (fr_to_bytes32 gr y) = Inr y"
    and sums: "bytes_to_fr gr (px_input_commitment x) = fr_of_u64 (px_input_value x) + bytes_to_fr gr (px_input_blinding x)"
      "bytes_to_fr gr (px_output_commitment x) = fr_of_u64 (px_output_value x) + bytes_to_fr gr (px_output_blinding x)"
      "bytes_to_fr gr (px_nullifier x) = bytes_to_fr gr (px_input_commitment x) + bytes_to_fr gr (px_nullifier_secret x)"
      "unat (px_input_value x) = unat (px_output_value x) + unat (px_fee x)"
  shows "\<exists>p. prove_private_transaction gr ks x = Inr p
    \<and> verify_private_transaction gr t p v =
        (if nullifier_contains (encoded_nullifier gr x) (ver_nullifier_set v) then Inl NullifierSpent
         else Inr \<lparr>vr_valid = True, vr_proof_type = PrivateTransactionProof, vr_nullifier = Some (encoded_nullifier gr x),
                   vr_verification_time_us = t\<rparr>)
    \<and> verify_private_transaction gr t p (fst (mark_nullifier_spent (encoded_nullifier gr x) v)) = Inl NullifierSpent
    \<and> verify_private_transaction gr t p (fst (rollback_nullifier (encoded_nullifier gr x) (fst (mark_nullifier_spent (encoded_nullifier gr x) v))))
        = Inr \<lparr>vr_valid = True, vr_proof_type = PrivateTransactionProof, vr_nullifier = Some (encoded_nullifier gr x),
               vr_verification_time_us = t\<rparr>"
proof -
  let ?ins = "[bytes_to_fr gr (px_input_commitment x), bytes_to_fr gr (px_output_commitment x),
      bytes_to_fr gr (px_nullifier x), fr_of_u64 (px_fee x)]"
  obtain pf bytes where pf: "gr_prove gr pk (PrivateTx (private_circuit gr x)) = Inr pf" "gr_verify gr pvk ?ins pf = Inr True"
      "pf_to_bytes gr pf = Inr bytes" "pf_from_bytes gr bytes = Inr pf"
    using private_circuit_satisfied [OF sums] complete by metis
  obtain p where p: "from_groth16 gr pf ?ins = Inr p" "to_groth16 gr p = Inr (pf, ?ins)"
    using groth16_codec [OF pf(3,4), of ?ins] codec by auto
  have "prove_private_transaction gr ks x = Inr p"
    using keys(1) pf(1) p(1) by (simp add: prove_private_transaction_def)
  moreover have "verify_private_transaction gr t p w = (if nullifier_contains (encoded_nullifier gr x) (ver_nullifier_set w) then Inl NullifierSpent
         else Inr \<lparr>vr_valid = True, vr_proof_type = PrivateTransactionProof, vr_nullifier = Some (encoded_nullifier gr x),
                   vr_verification_time_us = t\<rparr>)" if "ver_keys w = ver_keys v" for w :: "'pvk Verifier"
    using verify_private_decoded [of w pvk gr p pf ?ins t] keys(2) p(2) pf(2) that by (simp add: encoded_nullifier_def)
  ultimately show ?thesis
    by (auto simp: mark_nullifier_spent_def rollback_nullifier_def nullifier_insert_def nullifier_remove_def nullifier_contains_def)
qed

text \<open>
  (C19) \<^bold>\<open>The last operation on a nullifier decides\<close>. Take any sequence of marks and rollbacks from any state of
  the verifier. A proof that decodes, with at least three public inputs, is refused as spent exactly
  if the last operation on its encoded third input marked it, or there was none and it was spent before; otherwise
  the answer is the proof system's. The count of spent nullifiers stays the number of distinct ones.
\<close>

theorem nullifier_last_operation_decides:
  assumes "vk_private_tx (ver_keys v) = Some pvk" and "to_groth16 gr p = Inr (pf, ins)" and "3 \<le> length ins"
    and "distinct (ver_nullifier_set v)"
  shows "verify_private_transaction gr t p (fold spent_apply ops v) =
      (if spent_after (fr_to_bytes32 gr (ins ! 2)) (nullifier_contains (fr_to_bytes32 gr (ins ! 2)) (ver_nullifier_set v)) ops
       then Inl NullifierSpent
       else res_bind (map_err VerificationFailed (gr_verify gr pvk ins pf)) (\<lambda>valid.
         Inr \<lparr>vr_valid = valid, vr_proof_type = PrivateTransactionProof,
              vr_nullifier = Some (fr_to_bytes32 gr (ins ! 2)), vr_verification_time_us = t\<rparr>))
    \<and> nullifier_count (fold spent_apply ops v) = card {n. spent_after n (nullifier_contains n (ver_nullifier_set v)) ops}"
  using assms(1,2,3) verify_private_decoded [of "fold spent_apply ops v" pvk gr p pf ins t]
    nullifier_count_exact [OF assms(4), of ops]
  by (simp add: spent_apply_keys vs.holds_after)

text \<open>
  \<^bold>\<open>Calldata of the verification precompile\<close>. Calldata made of a key hash, the proof's length, the proof and
  the public inputs, with at most 31 further bytes, is read back exactly. Any other calldata of at least 64
  bytes is read unless the announced length exceeds it, which is an error; but an announced
  length within 40 of the top of the 64-bit range wraps and panics.
\<close>

theorem calldata_parsing:
  assumes "64 \<le> length d" and pf: "length pf < 2 ^ 64 - 40" and rest: "length rest < 32"
    and "24 \<le> length pf + 32 * length ins + length rest"
  shows "(from_calldata d = Panic \<longleftrightarrow> 2 ^ 64 - 40 \<le> unat (u64_from_be_bytes (take 8 (drop 32 d))))
    \<and> from_calldata (as_bytes vk @ u64_to_be_bytes (of_nat (length pf)) @ pf @ concat (map as_bytes ins) @ rest)
        = Ret (Inr \<lparr>gi_proof = pf, gi_public_inputs = ins, gi_vk_hash = vk\<rparr>)"
proof
  let ?n = "u64_from_be_bytes (take 8 (drop 32 d))"
  show "from_calldata d = Panic \<longleftrightarrow> 2 ^ 64 - 40 \<le> unat ?n"
    using assms(1) proof_end_wrap(1) [of ?n] by (auto simp: from_calldata_def Let_def)
  have "unat (of_nat (length pf) :: u64) = length pf"
    using pf by (simp add: unat_of_nat)
  moreover have "length (concat (map as_bytes ins)) = 32 * length ins"
    by (induction ins) simp_all
  ultimately show "from_calldata (as_bytes vk @ u64_to_be_bytes (of_nat (length pf)) @ pf @ concat (map as_bytes ins) @ rest)
      = Ret (Inr \<lparr>gi_proof = pf, gi_public_inputs = ins, gi_vk_hash = vk\<rparr>)"
    using assms proof_end_wrap(2) [of "of_nat (length pf)"] words32_concat [OF rest, of ins]
    by (simp add: from_calldata_def)
qed

section \<open>Witnesses\<close>

text \<open>A proof system over the rationals that proves every circuit; complete, as the property asks, and not sound.\<close>

definition demo_groth16 :: "(rat, unit, unit, unit, bool) groth16_lib" where
  "demo_groth16 = \<lparr>gr_setup = (\<lambda>_. Inr ((), ())), gr_prove = (\<lambda>_ c. Inr True),
     gr_verify = (\<lambda>_ _ pf. Inr pf), gr_process_vk = (\<lambda>_. Inr ()), vk_from_bytes = (\<lambda>_. Inr ()),
     pk_to_bytes = (\<lambda>_. Inr []), pf_to_bytes = (\<lambda>pf. Inr (if pf then [1] else [0])),
     pf_from_bytes = (\<lambda>bs. Inr (bs = [1])), fr_to_bytes32 = (\<lambda>x. of_int (floor x)),
     fr_from_bytes32 = (\<lambda>w. Inr (of_nat (unat w))), fr_from_le = (\<lambda>bs. of_nat (be_val bs))\<rparr>"

definition demo_private_tx :: private_tx_input where
  "demo_private_tx = \<lparr>px_input_value = 7, px_input_blinding = 0, px_input_commitment = 7 * 256, px_output_value = 5,
     px_output_blinding = 0, px_output_commitment = 5 * 256, px_nullifier = 7 * 256, px_nullifier_secret = 0, px_fee = 2\<rparr>"

definition demo_proving_keys :: "unit ProvingKeys" where
  "demo_proving_keys = ProvingKeys_new\<lparr>pk_private_tx := Some ()\<rparr>"

definition demo_verifier :: "unit Verifier" where
  "demo_verifier = Verifier_new (VerifyingKeys_new\<lparr>vk_private_tx := Some ()\<rparr>)"

lemma demo_verifier_simps [simp]:
  "vk_private_tx (ver_keys demo_verifier) = Some ()" "ver_nullifier_set demo_verifier = []"
  by (simp_all add: demo_verifier_def Verifier_new_def)

lemma demo_field:
  "bytes_to_fr demo_groth16 0 = 0" "bytes_to_fr demo_groth16 (7 * 256) = 7" "bytes_to_fr demo_groth16 (5 * 256) = 5"
proof -
  have "be_val (take 31 (as_bytes 0)) = 0" "be_val (take 31 (as_bytes (7 * 256))) = 7"
    "be_val (take 31 (as_bytes (5 * 256))) = 5" by code_simp+
  then show "bytes_to_fr demo_groth16 0 = 0" "bytes_to_fr demo_groth16 (7 * 256) = 7" "bytes_to_fr demo_groth16 (5 * 256) = 5"
    by (simp_all add: bytes_to_fr_def demo_groth16_def del: word_mult_def)
qed

theorem private_transaction_accepted_once_witness:
  "\<exists>p. prove_private_transaction demo_groth16 demo_proving_keys demo_private_tx = Inr p
     \<and> (\<exists>r. verify_private_transaction demo_groth16 0 p demo_verifier = Inr r \<and> vr_valid r)
     \<and> verify_private_transaction demo_groth16 0 p
         (fst (mark_nullifier_spent (encoded_nullifier demo_groth16 demo_private_tx) demo_verifier)) = Inl NullifierSpent"
proof -
  let ?x = demo_private_tx
  have fields: "bytes_to_fr demo_groth16 (px_input_commitment ?x) = 7" "bytes_to_fr demo_groth16 (px_output_commitment ?x) = 5"
    "bytes_to_fr demo_groth16 (px_nullifier ?x) = 7" "bytes_to_fr demo_groth16 (px_nullifier_secret ?x) = 0"
    "bytes_to_fr demo_groth16 (px_input_blinding ?x) = 0" "bytes_to_fr demo_groth16 (px_output_blinding ?x) = 0"
    "(fr_of_u64 (px_input_value ?x) :: rat) = 7" "(fr_of_u64 (px_output_value ?x) :: rat) = 5" "(fr_of_u64 (px_fee ?x) :: rat) = 2"
    using demo_field by (simp_all add: demo_private_tx_def fr_of_u64_def)
  have codec: "fr_from_bytes32 demo_groth16 (fr_to_bytes32 demo_groth16 y) = Inr y" if "y \<in> {7, 5, 2}" for y
    using that by (auto simp: demo_groth16_def)
  have complete: "\<exists>pf bytes. gr_prove demo_groth16 () (PrivateTx c) = Inr pf \<and> gr_verify demo_groth16 () ins pf = Inr True
      \<and> pf_to_bytes demo_groth16 pf = Inr bytes \<and> pf_from_bytes demo_groth16 bytes = Inr pf" for c ins
    by (intro exI [of _ True] exI [of _ "[1]"]) (simp add: demo_groth16_def)
  show ?thesis
    using private_transaction_accepted_once [of demo_proving_keys "()" demo_verifier "()" demo_groth16 ?x 0]
      codec fields complete
    by (auto simp: demo_proving_keys_def demo_private_tx_def nullifier_contains_def)
qed

theorem nullifier_last_operation_decides_witness:
  "verify_private_transaction demo_groth16 0 \<lparr>sp_proof_bytes = [1], sp_public_inputs = [1, 2, 3, 4]\<rparr>
     (fold spent_apply [MarkSpent 3, Rollback 3, MarkSpent 4, MarkSpent 3] demo_verifier) = Inl NullifierSpent
   \<and> nullifier_count (fold spent_apply [MarkSpent 3, Rollback 3, MarkSpent 4, MarkSpent 3] demo_verifier) = card {3, 4 :: B32}"
proof -
  have dec: "to_groth16 demo_groth16 \<lparr>sp_proof_bytes = [1], sp_public_inputs = [1, 2, 3, 4]\<rparr> = Inr (True, [1, 2, 3, 4])"
    by (simp add: to_groth16_def demo_groth16_def)
  have enc: "fr_to_bytes32 demo_groth16 3 = 3" by (simp add: demo_groth16_def)
  have "{n :: B32. spent_after n False [MarkSpent 3, Rollback 3, MarkSpent 4, MarkSpent 3]} = {3, 4}"
    by (auto simp: spent_after_def split: if_splits)
  then show ?thesis
    using nullifier_last_operation_decides [OF demo_verifier_simps(1) dec, of 0 "[MarkSpent 3, Rollback 3, MarkSpent 4, MarkSpent 3]"] enc
    by (simp add: nullifier_contains_def spent_after_def)
qed

theorem calldata_parsing_witness:
  "from_calldata (replicate 32 0 @ u64_to_be_bytes (- 1) @ replicate 24 0) = Panic
   \<and> from_calldata (as_bytes 9 @ u64_to_be_bytes (of_nat (length [1 :: u8, 2])) @ [1, 2] @ concat (map as_bytes [5]) @ [])
       = Ret (Inr \<lparr>gi_proof = [1, 2], gi_public_inputs = [5], gi_vk_hash = 9\<rparr>)"
proof -
  let ?d = "replicate 32 0 @ u64_to_be_bytes (- 1) @ replicate 24 (0 :: u8)"
  have "u64_from_be_bytes (take 8 (drop 32 ?d)) = - 1" by simp
  then show ?thesis using calldata_parsing [of ?d "[1, 2]" "[]" "[5]" 9] by (simp add: unsigned_minus_1_eq_mask mask_eq_exp_minus_1)
qed

end
