(* ===== verification/Rpc.thy ===== *)
theory Rpc
  imports Rpc_Types Evm_Executor Tx_Pool Pos Dag Message_Router Zkp_Verifier
begin

text \<open>
  The JSON-RPC interface, \<^verbatim>\<open>eth.rs\<close>, \<^verbatim>\<open>nexus.rs\<close>, \<^verbatim>\<open>methods.rs\<close> and \<^verbatim>\<open>server.rs\<close> of \<^verbatim>\<open>src/crates/nexus-rpc/src/\<close>.
  The handlers share the DAG, the state, the stake, the mempool, the peer count and the proof verifier through
  pointers: these objects are the record \<open>ledger\<close>, which a call returns. Readings of the clock are arguments. The
  deserializers of JSON, the hexadecimal decoder, the RLP header decoder, the regular expression engine
  and the interpreter are parameters. The transport, its limits and the sharing headers are not modelled.
\<close>

section \<open>State\<close>

record ledger =
  ld_dag :: Dag
  ld_state :: StateDb
  ld_pos :: ProofOfStake
  ld_mempool :: Mempool
  ld_peer_count :: nat
  ld_zkp :: "u8 list \<Rightarrow> u8 list \<Rightarrow> bool"

record ('fq, 'fr, 'g1, 'g2) rpc_lib =
  rl_crypto :: crypto_lib
  rl_hex :: hex_decoder
  rl_hex_error :: "FromHexError \<Rightarrow> string"
  rl_rlp :: rlp_header
  rl_tx_json :: "u8 list \<Rightarrow> Transaction option"
  rl_call_request :: "json \<Rightarrow> string + CallRequest"
  rl_context :: "json \<Rightarrow> string + MessageContext"
  rl_regex :: "string \<Rightarrow> string \<Rightarrow> bool"
  rl_revm :: revm
  rl_evm :: "('fq, 'fr, 'g1, 'g2) evm_lib"

record EthHandler =
  eh_chain_id :: u64

record NexusHandler =
  nh_compliance :: ComplianceChecker

record MethodDispatcher =
  md_eth :: EthHandler
  md_nexus :: NexusHandler

definition EthHandler_new :: "u64 \<Rightarrow> EthHandler" where
  "EthHandler_new chain = \<lparr>eh_chain_id = chain\<rparr>"

definition NexusHandler_new :: NexusHandler where
  "NexusHandler_new = \<lparr>nh_compliance = ComplianceChecker_new\<rparr>"

definition MethodDispatcher_new :: "u64 \<Rightarrow> MethodDispatcher" where
  "MethodDispatcher_new chain = \<lparr>md_eth = EthHandler_new chain, md_nexus = NexusHandler_new\<rparr>"

text \<open>\<open>params.get(i).and_then(as_str)\<close>, followed by a parser.\<close>

definition param_str :: "nat \<Rightarrow> json \<Rightarrow> string option" where
  "param_str i params = Option.bind (json_at i params) as_str"

definition param_address :: "('fq, 'fr, 'g1, 'g2) rpc_lib \<Rightarrow> json \<Rightarrow> Address RpcResult" where
  "param_address rl params =
     (case Option.bind (param_str 0 params) (parse_address (rl_hex rl)) of
        None \<Rightarrow> Inl (InvalidParams ''Invalid address'') | Some a \<Rightarrow> Inr a)"

definition param_hash :: "('fq, 'fr, 'g1, 'g2) rpc_lib \<Rightarrow> json \<Rightarrow> Hash RpcResult" where
  "param_hash rl params =
     (case Option.bind (param_str 0 params) (parse_hash (rl_hex rl)) of
        None \<Rightarrow> Inl (InvalidParams ''Invalid hash'') | Some h \<Rightarrow> Inr h)"

section \<open>The eth namespace\<close>

definition eth_chain_id :: "EthHandler \<Rightarrow> json RpcResult" where
  "eth_chain_id h = Inr (JString (format_u64 (eh_chain_id h)))"

definition block_number :: "ledger \<Rightarrow> json RpcResult" where
  "block_number w = Inr (JString (format_u64 (latest_height (ld_dag w))))"

definition rpc_gas_price :: "json RpcResult" where
  "rpc_gas_price = Inr (JString (format_u64 1000000000))"

definition rpc_get_balance :: "('fq, 'fr, 'g1, 'g2) rpc_lib \<Rightarrow> json \<Rightarrow> ledger \<Rightarrow> json RpcResult" where
  "rpc_get_balance rl params w =
     res_bind (param_address rl params) (\<lambda>a. Inr (JString (format_u256 (get_balance (ld_state w) a))))"

definition get_transaction_count :: "('fq, 'fr, 'g1, 'g2) rpc_lib \<Rightarrow> json \<Rightarrow> ledger \<Rightarrow> json RpcResult" where
  "get_transaction_count rl params w =
     res_bind (param_address rl params) (\<lambda>a. Inr (JString (format_u64 (get_nonce (ld_state w) a))))"

definition rpc_get_code :: "('fq, 'fr, 'g1, 'g2) rpc_lib \<Rightarrow> json \<Rightarrow> ledger \<Rightarrow> json RpcResult" where
  "rpc_get_code rl params w =
     res_bind (param_address rl params) (\<lambda>a. Inr (JString (format_bytes (get_code (ld_state w) a))))"

definition get_storage_at :: "('fq, 'fr, 'g1, 'g2) rpc_lib \<Rightarrow> json \<Rightarrow> ledger \<Rightarrow> json RpcResult" where
  "get_storage_at rl params w =
     res_bind (param_address rl params) (\<lambda>a.
       case Option.bind (param_str 1 params) parse_u64 of
         None \<Rightarrow> Inl (InvalidParams ''Invalid slot'')
       | Some slot \<Rightarrow> Inr (JString (format_u256 (get_storage (ld_state w) a (from_u64 slot)))))"

definition decode_transaction :: "('fq, 'fr, 'g1, 'g2) rpc_lib \<Rightarrow> u8 list \<Rightarrow> Transaction option" where
  "decode_transaction rl raw =
     (case from_rlp_bytes (rl_rlp rl) raw of Some t \<Rightarrow> Some t | None \<Rightarrow> rl_tx_json rl raw)"

definition send_raw_transaction :: "('fq, 'fr, 'g1, 'g2) rpc_lib \<Rightarrow> json \<Rightarrow> ledger \<Rightarrow> ledger \<times> json RpcResult" where
  "send_raw_transaction rl params w =
     (case Option.bind (param_str 0 params) (parse_bytes (rl_hex rl)) of
        None \<Rightarrow> (w, Inl (InvalidParams ''Invalid transaction data''))
      | Some raw \<Rightarrow>
          let tx_hash = keccak (rl_crypto rl) raw;
              answer = Inr (JString (format_hash tx_hash))
          in case decode_transaction rl raw of
               None \<Rightarrow> (w, answer)
             | Some t \<Rightarrow>
                 let (mp, added) = mempool_add (rl_crypto rl) t (ld_mempool w)
                 in (w\<lparr>ld_mempool := mp\<rparr>,
                     if added then answer else Inl (TransactionRejected ''Mempool full or duplicate'')))"

text \<open>What \<open>call\<close> and \<open>estimate_gas\<close> share: the request, its defaults and the environment.\<close>

definition call_env :: "u64 \<Rightarrow> EthHandler \<Rightarrow> ledger \<Rightarrow> EvmEnv" where
  "call_env now h w = EvmEnv_default\<lparr>env_chain_id := eh_chain_id h, env_number := latest_height (ld_dag w), env_timestamp := now\<rparr>"

definition opt_default :: "'a \<Rightarrow> 'a option \<Rightarrow> 'a" where
  "opt_default d v = (case v of None \<Rightarrow> d | Some x \<Rightarrow> x)"

fun call_result :: "(u8 list \<Rightarrow> u64 \<Rightarrow> json) \<Rightarrow> (u8 list \<times> u64) EvmResult \<Rightarrow> json RpcResult" where
  "call_result answer (Inl e) = Inl (InternalError (evm_error_text e))"
| "call_result answer (Inr (out, gas_used)) = Inr (answer out gas_used)"

definition dry_run ::
    "('fq, 'fr, 'g1, 'g2) rpc_lib \<Rightarrow> u64 \<Rightarrow> EthHandler \<Rightarrow> (CallRequest \<Rightarrow> u64) \<Rightarrow> (u8 list \<Rightarrow> u64 \<Rightarrow> json) \<Rightarrow> json \<Rightarrow> ledger
       \<Rightarrow> (ledger \<times> json RpcResult) run" where
  "dry_run rl now h gas_of answer params w =
     (case rl_call_request rl (json_or_null (json_at 0 params)) of
        Inl e \<Rightarrow> Ret (w, Inl (InvalidParams e))
      | Inr q \<Rightarrow>
          (case parse_address (rl_hex rl) (cq_to q) of
             None \<Rightarrow> Ret (w, Inl (InvalidParams ''Invalid to address''))
           | Some dest \<Rightarrow>
               let caller = opt_default 0 (Option.bind (cq_from q) (parse_address (rl_hex rl)));
                   val = opt_default ZERO (map_option from_u64 (Option.bind (cq_value q) parse_u64));
                   data = opt_default [] (Option.bind (cq_data q) (parse_bytes (rl_hex rl)));
                   ex = Executor_new (rl_crypto rl) (rl_evm rl) (ld_state w) (call_env now h w)
               in run_map (\<lambda>(ex, r). (w\<lparr>ld_state := ex_state ex\<rparr>, call_result answer r))
                    (call_dry_run (rl_crypto rl) (rl_revm rl) caller dest val data (gas_of q) ex)))"

definition rpc_call :: "('fq, 'fr, 'g1, 'g2) rpc_lib \<Rightarrow> u64 \<Rightarrow> EthHandler \<Rightarrow> json \<Rightarrow> ledger \<Rightarrow> (ledger \<times> json RpcResult) run" where
  "rpc_call rl now h =
     dry_run rl now h (\<lambda>q. opt_default 30000000 (Option.bind (cq_gas q) parse_u64)) (\<lambda>out _. JString (format_bytes out))"

definition estimate_gas :: "('fq, 'fr, 'g1, 'g2) rpc_lib \<Rightarrow> u64 \<Rightarrow> EthHandler \<Rightarrow> json \<Rightarrow> ledger \<Rightarrow> (ledger \<times> json RpcResult) run" where
  "estimate_gas rl now h = dry_run rl now h (\<lambda>_. 30000000) (\<lambda>_ gas_used. JString (format_u64 (max gas_used 21000)))"

definition zeros_hex :: "nat \<Rightarrow> string" where
  "zeros_hex n = ''0x'' @ replicate n CHR ''0''"

definition vertex_block :: "crypto_lib \<Rightarrow> u64 \<Rightarrow> ledger \<Rightarrow> Vertex \<Rightarrow> RpcBlock" where
  "vertex_block lib number w v =
     \<lparr>rb_number = format_u64 number,
      rb_hash = format_hash (vx_hash v),
      rb_parent_hash = (case vx_parents v of [] \<Rightarrow> concat (replicate 32 ''0x'') | p # _ \<Rightarrow> format_hash p),
      rb_nonce = ''0x0'',
      rb_sha3_uncles = zeros_hex 64,
      rb_logs_bloom = zeros_hex 512,
      rb_transactions_root = zeros_hex 64,
      rb_state_root = format_hash (sd_state_root (ld_state w)),
      rb_receipts_root = zeros_hex 64,
      rb_miner = ''0x'' @ hex_encode (drop 12 (as_bytes (vx_validator v))),
      rb_difficulty = ''0x0'',
      rb_total_difficulty = ''0x0'',
      rb_extra_data = ''0x'',
      rb_size = format_u64 1000,
      rb_gas_limit = format_u64 30000000,
      rb_gas_used = format_u64 0,
      rb_timestamp = format_u64 (vx_timestamp v),
      rb_transactions = map (\<lambda>t. JString (format_hash (tx_hash lib t))) (vx_transactions v),
      rb_uncles = [],
      rb_base_fee_per_gas = Some (format_u64 1000000000)\<rparr>"

definition get_block_by_number :: "('fq, 'fr, 'g1, 'g2) rpc_lib \<Rightarrow> json \<Rightarrow> ledger \<Rightarrow> json RpcResult" where
  "get_block_by_number rl params w =
     (case param_str 0 params of
        None \<Rightarrow> Inl (InvalidParams ''Missing block number'')
      | Some block_id \<Rightarrow>
          let height = (if block_id = ''latest'' then latest_height (ld_dag w) else opt_default 0 (parse_u64 block_id))
          in case get_vertices_at_height (ld_dag w) height of
               [] \<Rightarrow> Inr JNull
             | h # _ \<Rightarrow>
                 (case get_vertex (ld_dag w) h of
                    None \<Rightarrow> Inl (RpcNotFound ''Block not found'')
                  | Some v \<Rightarrow> Inr (block_value (vertex_block (rl_crypto rl) height w v))))"

definition get_block_by_hash :: "('fq, 'fr, 'g1, 'g2) rpc_lib \<Rightarrow> json \<Rightarrow> ledger \<Rightarrow> json RpcResult" where
  "get_block_by_hash rl params w =
     res_bind (param_hash rl params) (\<lambda>h.
       case get_vertex (ld_dag w) h of
         None \<Rightarrow> Inl (RpcNotFound ''Block not found'')
       | Some v \<Rightarrow> Inr (block_value (vertex_block (rl_crypto rl) (vx_height v) w v)))"

definition syncing :: "ledger \<Rightarrow> json RpcResult" where
  "syncing w =
     (let current = latest_height (ld_dag w)
      in if ld_peer_count w > 0 \<and> current = 0
         then Inr (JObject [(''startingBlock'', JString ''0x0''), (''currentBlock'', JString (format_u64 current)),
                            (''highestBlock'', JString (format_u64 current))])
         else Inr (JBool False))"

definition coinbase :: "ledger \<Rightarrow> json RpcResult" where
  "coinbase w =
     (case vs_validators (ps_validators (ld_pos w)) of
        (_, v) # _ \<Rightarrow> Inr (JString (format_address (v_address v)))
      | [] \<Rightarrow> Inr (JString (zeros_hex 40)))"

definition mining :: "json RpcResult" where "mining = Inr (JBool False)"
definition hashrate :: "json RpcResult" where "hashrate = Inr (JString ''0x0'')"
definition accounts :: "json RpcResult" where "accounts = Inr (JArray [])"
definition net_version :: "EthHandler \<Rightarrow> json RpcResult" where
  "net_version h = Inr (JString (dec_digits (unat (eh_chain_id h))))"
definition net_listening :: "json RpcResult" where "net_listening = Inr (JBool True)"
definition net_peer_count :: "ledger \<Rightarrow> json RpcResult" where
  "net_peer_count w = Inr (JString (format_u64 (of_nat (ld_peer_count w))))"
definition client_version :: "json RpcResult" where
  "client_version = Inr (JString ''NexusChain/v0.1.0'')"

definition rpc_sha3 :: "('fq, 'fr, 'g1, 'g2) rpc_lib \<Rightarrow> json \<Rightarrow> json RpcResult" where
  "rpc_sha3 rl params =
     (case Option.bind (param_str 0 params) (parse_bytes (rl_hex rl)) of
        None \<Rightarrow> Inl (InvalidParams ''Invalid data'')
      | Some data \<Rightarrow> Inr (JString (''0x'' @ hex_encode (keccak256 (rl_crypto rl) data))))"

section \<open>The nexus namespace\<close>

definition dag_info :: "ledger \<Rightarrow> json RpcResult" where
  "dag_info w =
     (let st = dag_stats (ld_dag w)
      in Inr (JObject [(''totalVertices'', JNat (total_vertices st)), (''currentTips'', JNat (tips_count st)),
           (''pendingVertices'', JNat (pending_count st)), (''latestHeight'', JNat (unat (st_latest_height st))),
           (''finalizedHeight'', JNat (unat (st_finalized_height st)))]))"

fun status_debug :: "VertexStatus \<Rightarrow> string" where
  "status_debug Pending = ''Pending''"
| "status_debug AwaitingParents = ''AwaitingParents''"
| "status_debug Confirmed = ''Confirmed''"
| "status_debug StatusFinalized = ''Finalized''"
| "status_debug Rejected = ''Rejected''"
| "status_debug Orphaned = ''Orphaned''"

definition option_debug :: "string option \<Rightarrow> string" where
  "option_debug v = (case v of None \<Rightarrow> ''None'' | Some s \<Rightarrow> ''Some('' @ s @ '')'')"

definition find_vertex :: "ledger \<Rightarrow> Hash \<Rightarrow> Vertex RpcResult" where
  "find_vertex w h =
     (case get_vertex (ld_dag w) h of None \<Rightarrow> Inl (RpcNotFound ''Vertex not found'') | Some v \<Rightarrow> Inr v)"

definition rpc_get_vertex :: "('fq, 'fr, 'g1, 'g2) rpc_lib \<Rightarrow> json \<Rightarrow> ledger \<Rightarrow> json RpcResult" where
  "rpc_get_vertex rl params w =
     res_bind (param_hash rl params) (\<lambda>h. res_bind (find_vertex w h) (\<lambda>v.
       Inr (JObject [(''hash'', JString (format_hash (vx_hash v))), (''height'', JNat (unat (vx_height v))),
         (''validator'', JString (''0x'' @ hex_encode (as_bytes (vx_validator v)))),
         (''parents'', JArray (map (JString \<circ> format_hash) (vx_parents v))),
         (''transactions'', JArray (map (JString \<circ> format_hash \<circ> tx_hash (rl_crypto rl)) (vx_transactions v))),
         (''timestamp'', JNat (unat (vx_timestamp v))),
         (''status'', JString (option_debug (map_option status_debug (get_status (ld_dag w) h))))])))"

definition rpc_get_tips :: "ledger \<Rightarrow> json RpcResult" where
  "rpc_get_tips w = Inr (JArray (map (JString \<circ> format_hash) (get_tips (ld_dag w))))"

definition get_parents :: "('fq, 'fr, 'g1, 'g2) rpc_lib \<Rightarrow> json \<Rightarrow> ledger \<Rightarrow> json RpcResult" where
  "get_parents rl params w =
     res_bind (param_hash rl params) (\<lambda>h. res_bind (find_vertex w h) (\<lambda>v.
       Inr (JArray (map (JString \<circ> format_hash) (vx_parents v)))))"

definition rpc_get_children :: "('fq, 'fr, 'g1, 'g2) rpc_lib \<Rightarrow> json \<Rightarrow> ledger \<Rightarrow> json RpcResult" where
  "rpc_get_children rl params w =
     res_bind (param_hash rl params) (\<lambda>h. Inr (JArray (map (JString \<circ> format_hash) (get_children (ld_dag w) h))))"

definition rpc_is_finalized :: "('fq, 'fr, 'g1, 'g2) rpc_lib \<Rightarrow> json \<Rightarrow> ledger \<Rightarrow> json RpcResult" where
  "rpc_is_finalized rl params w =
     res_bind (param_hash rl params) (\<lambda>h. res_bind (find_vertex w h) (\<lambda>_.
       Inr (JBool (get_status (ld_dag w) h = Some StatusFinalized))))"

definition rpc_validators :: "ledger \<Rightarrow> json RpcResult" where
  "rpc_validators w =
     (let vs = ps_validators (ld_pos w);
          list = map (\<lambda>(_, v). JObject [(''address'', JString (format_address (v_address v))),
             (''stake'', JString (dec_digits (unat (v_stake v)))), (''commission'', JNat (unat (v_commission v))),
             (''active'', JBool (v_active v)), (''uptime'', JNat (unat (v_uptime v)))]) (vs_validators vs)
      in Inr (JObject [(''epoch'', JNat (unat (vs_epoch vs))),
           (''totalStake'', JString (dec_digits (unat (vs_total_stake vs)))), (''validators'', JArray list)]))"

definition rpc_epoch :: "ledger \<Rightarrow> json RpcResult" where
  "rpc_epoch w = Inr (JNat (unat (ps_current_epoch (ld_pos w))))"

definition check_compliance :: "('fq, 'fr, 'g1, 'g2) rpc_lib \<Rightarrow> NexusHandler \<Rightarrow> json \<Rightarrow> json RpcResult" where
  "check_compliance rl h params =
     (case rl_context rl (json_or_null (json_at 0 params)) of
        Inl e \<Rightarrow> Inl (InvalidParams e)
      | Inr ctx \<Rightarrow>
          let result = compliance_check (nh_compliance h) ctx;
              checks = map (\<lambda>c. JObject [(''name'', JString (cc_name c)), (''passed'', JBool (cc_passed c)),
                (''message'', (case cc_message c of None \<Rightarrow> JNull | Some s \<Rightarrow> JString s))]) (cr_checks result)
          in Inr (JObject [(''passed'', JBool (cr_passed result)), (''riskScore'', JNat (unat (cr_risk_score result))),
               (''checks'', JArray checks)]))"

fun iso_error_text :: "IsoError \<Rightarrow> string" where
  "iso_error_text (XmlParseError s) = ''XML parsing error: '' @ s"
| "iso_error_text (InvalidFormat s) = ''Invalid message format: '' @ s"
| "iso_error_text (MissingField s) = ''Missing required field: '' @ s"
| "iso_error_text (IsoValidationFailed s) = ''Validation failed: '' @ s"
| "iso_error_text (UnknownMessageType s) = ''Unknown message type: '' @ s"
| "iso_error_text (EncodingError s) = ''Encoding error: '' @ s"
| "iso_error_text (RoutingFailed s) = ''Routing failed: '' @ s"
| "iso_error_text (ComplianceFailed s) = ''Compliance check failed: '' @ s"

definition validity :: "unit IsoResult \<Rightarrow> json RpcResult" where
  "validity r =
     (case r of Inr _ \<Rightarrow> Inr (JObject [(''valid'', JBool True)])
      | Inl e \<Rightarrow> Inr (JObject [(''valid'', JBool False), (''error'', JString (iso_error_text e))]))"

definition rpc_validate_iban :: "('fq, 'fr, 'g1, 'g2) rpc_lib \<Rightarrow> json \<Rightarrow> json RpcResult run" where
  "rpc_validate_iban rl params =
     (case param_str 0 params of None \<Rightarrow> Ret (Inl (InvalidParams ''Missing IBAN''))
      | Some iban \<Rightarrow> run_map validity (validate_iban (rl_regex rl) iban))"

definition rpc_validate_bic :: "('fq, 'fr, 'g1, 'g2) rpc_lib \<Rightarrow> json \<Rightarrow> json RpcResult run" where
  "rpc_validate_bic rl params =
     (case param_str 0 params of None \<Rightarrow> Ret (Inl (InvalidParams ''Missing BIC''))
      | Some bic \<Rightarrow> run_map validity (validate_bic (rl_regex rl) bic))"

definition rpc_zkp_verify :: "('fq, 'fr, 'g1, 'g2) rpc_lib \<Rightarrow> json \<Rightarrow> ledger \<Rightarrow> json RpcResult" where
  "rpc_zkp_verify rl params w =
     (case Option.bind (json_key ''proof'' params) as_str of
        None \<Rightarrow> Inl (InvalidParams ''Missing proof'')
      | Some proof_hex \<Rightarrow>
     (case Option.bind (json_key ''input'' params) as_str of
        None \<Rightarrow> Inl (InvalidParams ''Missing input'')
      | Some input_hex \<Rightarrow>
     (case rl_hex rl proof_hex of Inl e \<Rightarrow> Inl (InvalidParams (rl_hex_error rl e))
      | Inr pf \<Rightarrow>
     (case rl_hex rl input_hex of Inl e \<Rightarrow> Inl (InvalidParams (rl_hex_error rl e))
      | Inr input \<Rightarrow> Inr (JObject [(''verified'', JBool (ld_zkp w pf input))])))))"

definition get_proof :: "('fq, 'fr, 'g1, 'g2) rpc_lib \<Rightarrow> json \<Rightarrow> ledger \<Rightarrow> json RpcResult" where
  "get_proof rl params w =
     res_bind (param_address rl params) (\<lambda>a.
       if \<not> account_exists (ld_state w) a then Inl (RpcNotFound ''Account not found'')
       else Inr (JObject [(''address'', JString (format_address a)),
              (''balance'', JString (format_u256 (get_balance (ld_state w) a))),
              (''nonce'', JNat (unat (get_nonce (ld_state w) a))),
              (''codeHash'', JString (format_hash (get_code_hash (ld_state w) a))),
              (''stateRoot'', JString (format_hash (sd_state_root (ld_state w))))]))"

section \<open>Dispatch\<close>

definition dispatch ::
    "('fq, 'fr, 'g1, 'g2) rpc_lib \<Rightarrow> u64 \<Rightarrow> MethodDispatcher \<Rightarrow> string \<Rightarrow> json \<Rightarrow> ledger \<Rightarrow> (ledger \<times> json RpcResult) run" where
  "dispatch rl now d method params w =
     (let h = md_eth d; n = md_nexus d; pure = (\<lambda>r. Ret (w, r)); reading = run_map (Pair w)
      in if method = ''eth_chainId'' then pure (eth_chain_id h)
         else if method = ''eth_blockNumber'' then pure (block_number w)
         else if method = ''eth_gasPrice'' then pure rpc_gas_price
         else if method = ''eth_getBalance'' then pure (rpc_get_balance rl params w)
         else if method = ''eth_getTransactionCount'' then pure (get_transaction_count rl params w)
         else if method = ''eth_getCode'' then pure (rpc_get_code rl params w)
         else if method = ''eth_getStorageAt'' then pure (get_storage_at rl params w)
         else if method = ''eth_sendRawTransaction'' then Ret (send_raw_transaction rl params w)
         else if method = ''eth_call'' then rpc_call rl now h params w
         else if method = ''eth_estimateGas'' then estimate_gas rl now h params w
         else if method = ''eth_getBlockByNumber'' then pure (get_block_by_number rl params w)
         else if method = ''eth_getBlockByHash'' then pure (get_block_by_hash rl params w)
         else if method = ''eth_syncing'' then pure (syncing w)
         else if method = ''eth_coinbase'' then pure (coinbase w)
         else if method = ''eth_mining'' then pure mining
         else if method = ''eth_hashrate'' then pure hashrate
         else if method = ''eth_accounts'' then pure accounts
         else if method = ''net_version'' then pure (net_version h)
         else if method = ''net_listening'' then pure net_listening
         else if method = ''net_peerCount'' then pure (net_peer_count w)
         else if method = ''web3_clientVersion'' then pure client_version
         else if method = ''web3_sha3'' then pure (rpc_sha3 rl params)
         else if method = ''nexus_dagInfo'' then pure (dag_info w)
         else if method = ''nexus_getVertex'' then pure (rpc_get_vertex rl params w)
         else if method = ''nexus_getTips'' then pure (rpc_get_tips w)
         else if method = ''nexus_getParents'' then pure (get_parents rl params w)
         else if method = ''nexus_getChildren'' then pure (rpc_get_children rl params w)
         else if method = ''nexus_isFinalized'' then pure (rpc_is_finalized rl params w)
         else if method = ''nexus_validators'' then pure (rpc_validators w)
         else if method = ''nexus_epoch'' then pure (rpc_epoch w)
         else if method = ''nexus_checkCompliance'' then pure (check_compliance rl n params)
         else if method = ''nexus_validateIban'' then reading (rpc_validate_iban rl params)
         else if method = ''nexus_validateBic'' then reading (rpc_validate_bic rl params)
         else if method = ''nexus_zkpVerify'' then pure (rpc_zkp_verify rl params w)
         else if method = ''nexus_getProof'' then pure (get_proof rl params w)
         else pure (Inl (MethodNotFound method)))"

section \<open>The server\<close>

record RpcServerConfig =
  sv_listen_addr :: string
  sv_cors :: bool
  sv_max_request_size :: nat

definition RpcServerConfig_default :: RpcServerConfig where
  "RpcServerConfig_default = \<lparr>sv_listen_addr = ''127.0.0.1:8545'', sv_cors = True, sv_max_request_size = 1024 * 1024\<rparr>"

record RpcServer =
  sv_config :: RpcServerConfig
  sv_dispatcher :: MethodDispatcher

definition RpcServer_new :: "RpcServerConfig \<Rightarrow> MethodDispatcher \<Rightarrow> RpcServer" where
  "RpcServer_new cfg d = \<lparr>sv_config = cfg, sv_dispatcher = d\<rparr>"

definition response_of :: "json \<Rightarrow> json RpcResult \<Rightarrow> JsonRpcResponse" where
  "response_of i r = (case r of Inr result \<Rightarrow> response_success i result | Inl e \<Rightarrow> response_error i (rpc_code e) (rpc_error_text e))"

fun request_params :: "json \<Rightarrow> json" where
  "request_params JNull = JArray []"
| "request_params (JObject ms) = JArray [JObject ms]"
| "request_params p = p"

definition handle_rpc ::
    "('fq, 'fr, 'g1, 'g2) rpc_lib \<Rightarrow> u64 \<Rightarrow> MethodDispatcher \<Rightarrow> JsonRpcRequest \<Rightarrow> ledger \<Rightarrow> (ledger \<times> JsonRpcResponse) run" where
  "handle_rpc rl now d request w =
     (if rq_jsonrpc request \<noteq> ''2.0''
      then Ret (w, response_error (rq_id request) (- 32600) ''Invalid JSON-RPC version'')
      else run_map (\<lambda>(w, r). (w, response_of (rq_id request) r))
             (dispatch rl now d (rq_method request) (request_params (rq_params request)) w))"

definition batch_params :: "json \<Rightarrow> json" where
  "batch_params p = (if p = JNull then JArray [] else p)"

fun handle_batch_rpc ::
    "('fq, 'fr, 'g1, 'g2) rpc_lib \<Rightarrow> u64 \<Rightarrow> MethodDispatcher \<Rightarrow> JsonRpcRequest list \<Rightarrow> ledger \<Rightarrow> (ledger \<times> JsonRpcResponse list) run" where
  "handle_batch_rpc rl now d [] w = Ret (w, [])"
| "handle_batch_rpc rl now d (q # qs) w =
     run_bind (dispatch rl now d (rq_method q) (batch_params (rq_params q)) w) (\<lambda>(w, r).
       run_map (\<lambda>(w, rs). (w, response_of (rq_id q) r # rs)) (handle_batch_rpc rl now d qs w))"

section \<open>Effects of a call\<close>

definition rpc_methods :: "string list" where
  "rpc_methods = [''eth_chainId'', ''eth_blockNumber'', ''eth_gasPrice'', ''eth_getBalance'', ''eth_getTransactionCount'',
     ''eth_getCode'', ''eth_getStorageAt'', ''eth_sendRawTransaction'', ''eth_call'', ''eth_estimateGas'',
     ''eth_getBlockByNumber'', ''eth_getBlockByHash'', ''eth_syncing'', ''eth_coinbase'', ''eth_mining'', ''eth_hashrate'',
     ''eth_accounts'', ''net_version'', ''net_listening'', ''net_peerCount'', ''web3_clientVersion'', ''web3_sha3'',
     ''nexus_dagInfo'', ''nexus_getVertex'', ''nexus_getTips'', ''nexus_getParents'', ''nexus_getChildren'',
     ''nexus_isFinalized'', ''nexus_validators'', ''nexus_epoch'', ''nexus_checkCompliance'', ''nexus_validateIban'',
     ''nexus_validateBic'', ''nexus_zkpVerify'', ''nexus_getProof'']"

text \<open>A result that a handler gives: never the dispatcher's own error, never the two that nothing raises.\<close>

definition handled :: "json RpcResult \<Rightarrow> bool" where
  "handled r \<longleftrightarrow> (case r of Inr _ \<Rightarrow> True | Inl e \<Rightarrow> rpc_code e \<in> {- 32602, - 32603, - 32003, - 32004})"

lemma handled_simps [simp]:
  "handled (Inr x)" "handled (Inl (InvalidParams s))" "handled (Inl (InternalError s))"
  "handled (Inl (TransactionRejected s))" "handled (Inl (RpcNotFound s))"
  by (simp_all add: handled_def)

lemma handled_bind:
  "(\<And>e. r = Inl e \<Longrightarrow> rpc_code e \<in> {- 32602, - 32603, - 32003, - 32004}) \<Longrightarrow> (\<And>x. handled (k x)) \<Longrightarrow> handled (res_bind r k)"
  by (cases r) (simp_all add: handled_def)

lemma param_errors:
  "param_address rl params = Inl e \<Longrightarrow> rpc_code e = - 32602"
  "param_hash rl params = Inl e \<Longrightarrow> rpc_code e = - 32602"
  "find_vertex w h = Inl e \<Longrightarrow> rpc_code e = - 32004"
  by (auto simp: param_address_def param_hash_def find_vertex_def split: option.splits)

lemma eth_handled [simp]:
  "handled (eth_chain_id h)" "handled (block_number w)" "handled rpc_gas_price"
  "handled (rpc_get_balance rl p w)" "handled (get_transaction_count rl p w)" "handled (rpc_get_code rl p w)"
  "handled (get_storage_at rl p w)" "handled (snd (send_raw_transaction rl p w))"
  "handled (get_block_by_number rl p w)" "handled (get_block_by_hash rl p w)" "handled (syncing w)" "handled (coinbase w)"
  "handled mining" "handled hashrate" "handled accounts" "handled (net_version h)" "handled net_listening"
  "handled (net_peer_count w)" "handled client_version" "handled (rpc_sha3 rl p)"
  unfolding eth_chain_id_def block_number_def rpc_gas_price_def rpc_get_balance_def get_transaction_count_def
    rpc_get_code_def get_storage_at_def send_raw_transaction_def get_block_by_number_def get_block_by_hash_def
    syncing_def coinbase_def mining_def hashrate_def accounts_def net_version_def net_listening_def
    net_peer_count_def client_version_def rpc_sha3_def Let_def
  by (simp_all add: handled_bind param_errors split: option.split list.split prod.split)

lemma nexus_handled [simp]:
  "handled (dag_info w)" "handled (rpc_get_vertex rl p w)" "handled (rpc_get_tips w)" "handled (get_parents rl p w)"
  "handled (rpc_get_children rl p w)" "handled (rpc_is_finalized rl p w)" "handled (rpc_validators w)"
  "handled (rpc_epoch w)" "handled (check_compliance rl n p)" "handled (validity v)" "handled (rpc_zkp_verify rl p w)"
  "handled (get_proof rl p w)"
  unfolding dag_info_def rpc_get_vertex_def rpc_get_tips_def get_parents_def rpc_get_children_def rpc_is_finalized_def
    rpc_validators_def rpc_epoch_def check_compliance_def validity_def rpc_zkp_verify_def get_proof_def Let_def
  by (simp_all add: handled_bind param_errors split: option.split sum.split)

lemma validation_handled:
  "rpc_validate_iban rl p = Ret r \<Longrightarrow> handled r" "rpc_validate_bic rl p = Ret r \<Longrightarrow> handled r"
  by (auto simp: rpc_validate_iban_def rpc_validate_bic_def run_map_Ret_iff split: option.splits)

text \<open>A dry run changes nothing but the state.\<close>

definition same_but_state :: "ledger \<Rightarrow> ledger \<Rightarrow> bool" where
  "same_but_state w w' \<longleftrightarrow> (\<exists>s. w' = w\<lparr>ld_state := s\<rparr>)"

lemma call_result_handled [simp]: "handled (call_result a r)"
  by (cases "(a, r)" rule: call_result.cases) simp_all

lemma same_but_state_refl [simp]: "same_but_state w w" "same_but_state w (w\<lparr>ld_state := s\<rparr>)"
  by (auto simp: same_but_state_def intro: exI [of _ "ld_state w"])

lemma dry_run_effect: "dry_run rl now h g a p w = Ret (w', r) \<Longrightarrow> handled r \<and> same_but_state w w'"
  by (auto simp: dry_run_def Let_def run_map_Ret_iff split: sum.splits option.splits)

lemma send_raw_handled: "send_raw_transaction rl p w = (w', r) \<Longrightarrow> handled r"
  using eth_handled(8) [of rl p w] by simp

lemma send_raw_effect:
  assumes "mempool_inv (rl_crypto rl) (ld_mempool w)"
  shows "\<exists>mp. fst (send_raw_transaction rl p w) = w\<lparr>ld_mempool := mp\<rparr> \<and> mempool_inv (rl_crypto rl) mp"
proof -
  have "fst (send_raw_transaction rl p w) = w
      \<or> (\<exists>t. fst (send_raw_transaction rl p w) = w\<lparr>ld_mempool := fst (mempool_add (rl_crypto rl) t (ld_mempool w))\<rparr>)"
    by (auto simp: send_raw_transaction_def Let_def split: option.split prod.split) (metis fst_conv)+
  then show ?thesis using assms rpc_pool.inv_add by (auto intro: exI [of _ "ld_mempool w"])
qed

lemma dispatch_cases:
  assumes "dispatch rl now d m p w = Ret (w', r)"
  shows "m \<notin> set rpc_methods \<and> w' = w \<and> r = Inl (MethodNotFound m)
    \<or> m \<in> set rpc_methods \<and> m \<notin> {''eth_sendRawTransaction'', ''eth_call'', ''eth_estimateGas''} \<and> w' = w \<and> handled r
    \<or> m = ''eth_sendRawTransaction'' \<and> handled r \<and> w' = fst (send_raw_transaction rl p w)
    \<or> m \<in> {''eth_call'', ''eth_estimateGas''} \<and> handled r \<and> same_but_state w w'"
  using assms unfolding dispatch_def Let_def rpc_methods_def rpc_call_def estimate_gas_def
  by (auto simp: run_map_Ret_iff validation_handled dest: dry_run_effect send_raw_handled split: if_split_asm)

lemma handle_rpc_effect:
  assumes "handle_rpc rl now d q w = Ret (w', r)"
  shows "w' = w \<or> rq_method q = ''eth_sendRawTransaction'' \<and> w' = fst (send_raw_transaction rl (request_params (rq_params q)) w)
    \<or> (\<exists>s. rq_method q \<in> {''eth_call'', ''eth_estimateGas''} \<and> w' = w\<lparr>ld_state := s\<rparr>)"
proof (cases "rq_jsonrpc q = ''2.0''")
  case True
  then obtain x where "dispatch rl now d (rq_method q) (request_params (rq_params q)) w = Ret (w', x)"
    using assms by (auto simp: handle_rpc_def run_map_Ret_iff)
  from dispatch_cases [OF this] show ?thesis unfolding same_but_state_def by metis
qed (use assms in \<open>simp add: handle_rpc_def\<close>)

section \<open>Properties\<close>

text \<open>
  (C33) \<^bold>\<open>Every answer is a JSON-RPC response\<close>. Whenever a request is answered, the response has version 2.0 and the
  request's identifier and carries either a result or an error, never both. For a request of version 2.0
  the error is \<open>method not found\<close> exactly if the method is none of the 35 dispatched ones, and every other
  error has one of four codes; for any other version it is \<open>invalid request\<close> and nothing changes.
\<close>

theorem rpc_responses_wellformed:
  assumes "handle_rpc rl now d q w = Ret (w', r)"
  shows "rs_jsonrpc r = ''2.0'' \<and> rs_id r = rq_id q \<and> (rs_result r = None \<longleftrightarrow> rs_error r \<noteq> None)
    \<and> (if rq_jsonrpc q = ''2.0''
       then map_option je_code (rs_error r) \<in> {None, Some (- 32601), Some (- 32602), Some (- 32603), Some (- 32003), Some (- 32004)}
         \<and> (map_option je_code (rs_error r) = Some (- 32601) \<longleftrightarrow> rq_method q \<notin> set rpc_methods)
       else map_option je_code (rs_error r) = Some (- 32600) \<and> w' = w)"
proof (cases "rq_jsonrpc q = ''2.0''")
  case True
  then obtain x where x: "dispatch rl now d (rq_method q) (request_params (rq_params q)) w = Ret (w', x)"
      "r = response_of (rq_id q) x"
    using assms by (auto simp: handle_rpc_def run_map_Ret_iff)
  have "handled x \<and> rq_method q \<in> set rpc_methods \<or> x = Inl (MethodNotFound (rq_method q)) \<and> rq_method q \<notin> set rpc_methods"
    using dispatch_cases [OF x(1)] by (auto simp: rpc_methods_def)
  then show ?thesis
    using True x(2) by (cases x) (auto simp: response_of_def response_success_def response_error_def handled_def)
qed (use assms in \<open>auto simp: handle_rpc_def response_error_def\<close>)

text \<open>
  (C10) \<^bold>\<open>What a call can change\<close>. Of everything the handlers share, a call changes at most the mempool, and only by
  \<open>eth_sendRawTransaction\<close>, which keeps the mempool consistent, or the account state, and only by
  \<open>eth_call\<close> and \<open>eth_estimateGas\<close>. The DAG, the stake, the peer count and the verifier are never changed.
\<close>

theorem rpc_effects:
  assumes "handle_rpc rl now d q w = Ret (w', r)" and "mempool_inv (rl_crypto rl) (ld_mempool w)"
  shows "w' = w\<lparr>ld_state := ld_state w', ld_mempool := ld_mempool w'\<rparr>
    \<and> (rq_method q \<noteq> ''eth_sendRawTransaction'' \<longrightarrow> ld_mempool w' = ld_mempool w)
    \<and> (rq_method q \<noteq> ''eth_call'' \<and> rq_method q \<noteq> ''eth_estimateGas'' \<longrightarrow> ld_state w' = ld_state w)
    \<and> mempool_inv (rl_crypto rl) (ld_mempool w')"
  using handle_rpc_effect [OF assms(1)] send_raw_effect [OF assms(2), of "request_params (rq_params q)"] assms(2)
  by (elim disjE exE conjE) auto

text \<open>
  (C39) \<^bold>\<open>A read moves money\<close>. An \<open>eth_call\<close> that names any funded account as the caller and a plain account as the
  destination is answered with success and leaves the value moved between them in the node's state: the
  request needs no signature, no nonce and no gas.
\<close>

theorem eth_call_moves_value:
  assumes "decodes_hex (rl_hex rl)"
    and "rl_call_request rl req = Inr \<lparr>cq_from = Some (format_address caller), cq_to = format_address dest, cq_gas = None,
           cq_gas_price = None, cq_value = Some (format_u64 v), cq_data = None\<rparr>"
    and "hget (get_precompiles (rl_crypto rl) (rl_evm rl)) dest = None" and "get_code (ld_state w) dest = []"
    and "unat v \<le> u256_val (get_balance (ld_state w) caller)" and "caller \<noteq> dest"
    and "u256_val (get_balance (ld_state w) dest) + unat v < 2 ^ 256"
  shows "\<exists>w'. handle_rpc rl now d \<lparr>rq_jsonrpc = ''2.0'', rq_id = i, rq_method = ''eth_call'', rq_params = JArray [req]\<rparr> w
      = Ret (w', response_success i (JString ''0x''))
    \<and> u256_val (get_balance (ld_state w') caller) + unat v = u256_val (get_balance (ld_state w) caller)
    \<and> u256_val (get_balance (ld_state w') dest) = u256_val (get_balance (ld_state w) dest) + unat v"
proof -
  let ?ex = "Executor_new (rl_crypto rl) (rl_evm rl) (ld_state w) (call_env now (md_eth d) w)"
  have ex: "ex_state ?ex = ld_state w" "ex_precompiles ?ex = get_precompiles (rl_crypto rl) (rl_evm rl)"
    by (simp_all add: Executor_new_def)
  obtain ex' where ex': "call_dry_run (rl_crypto rl) (rl_revm rl) caller dest (from_u64 v) [] 30000000 ?ex = Ret (ex', Inr ([], 0))"
      "u256_val (get_balance (ex_state ex') caller) + unat v = u256_val (get_balance (ld_state w) caller)"
      "u256_val (get_balance (ex_state ex') dest) = u256_val (get_balance (ld_state w) dest) + unat v"
    using dry_run_moves_value [of ?ex dest "from_u64 v" caller "rl_crypto rl" "rl_revm rl" "[]" 30000000] assms(3-7) ex by auto
  have "rpc_call rl now (md_eth d) (JArray [req]) w = Ret (w\<lparr>ld_state := ex_state ex'\<rparr>, Inr (JString ''0x''))"
    using assms(2) parse_formatted(1) [OF assms(1)] ex'(1)
    by (simp add: rpc_call_def dry_run_def json_or_null_def opt_default_def parse_format_u64 format_bytes_def hex_encode_def)
  then have "handle_rpc rl now d \<lparr>rq_jsonrpc = ''2.0'', rq_id = i, rq_method = ''eth_call'', rq_params = JArray [req]\<rparr> w
      = Ret (w\<lparr>ld_state := ex_state ex'\<rparr>, response_success i (JString ''0x''))"
    by (simp add: handle_rpc_def dispatch_def response_of_def)
  with ex'(2,3) show ?thesis by simp
qed

text \<open>
  \<^bold>\<open>Proofs cannot be verified over the interface\<close>. The server wraps an object of parameters into an array before
  it dispatches, and the handler of \<open>nexus_zkpVerify\<close> looks its arguments up by name: whatever the
  parameters, the answer is the error \<open>Missing proof\<close>.
\<close>

theorem zkp_verify_unreachable:
  "handle_rpc rl now d \<lparr>rq_jsonrpc = ''2.0'', rq_id = i, rq_method = ''nexus_zkpVerify'', rq_params = p\<rparr> w
     = Ret (w, response_error i (- 32602) ''Invalid params: Missing proof'')"
proof -
  have "json_key k (request_params p) = None" for k by (cases p) simp_all
  then show ?thesis by (simp add: handle_rpc_def dispatch_def rpc_zkp_verify_def response_of_def)
qed

text \<open>
  \<^bold>\<open>Balances are reported modulo two to the 64\<close>. For every address \<open>eth_getBalance\<close> answers with a number
  that reads back as the balance modulo two to the 64; it is the balance exactly if that is less.
\<close>

theorem eth_get_balance_truncated:
  assumes "decodes_hex (rl_hex rl)"
  shows "\<exists>s n. handle_rpc rl now d
      \<lparr>rq_jsonrpc = ''2.0'', rq_id = i, rq_method = ''eth_getBalance'', rq_params = JArray [JString (format_address a)]\<rparr> w
        = Ret (w, response_success i (JString s)) \<and> parse_u64 s = Some n
    \<and> unat n = u256_val (get_balance (ld_state w) a) mod 2 ^ 64
    \<and> (unat n = u256_val (get_balance (ld_state w) a) \<longleftrightarrow> u256_val (get_balance (ld_state w) a) < 2 ^ 64)"
proof -
  let ?b = "get_balance (ld_state w) a"
  have n: "unat (as_u64 ?b) = u256_val ?b mod 2 ^ 64" by (rule as_u64_mod)
  moreover have "format_u256 ?b = format_u64 (as_u64 ?b)" by (simp add: format_u256_def format_u64_def)
  moreover have "u256_val ?b mod 2 ^ 64 = u256_val ?b \<longleftrightarrow> u256_val ?b < 2 ^ 64" by (auto simp: mod_eq_self_iff_div_eq_0 div_eq_0_iff)
  ultimately show ?thesis
    using parse_formatted(1) [OF assms]
    by (intro exI [of _ "format_u64 (as_u64 ?b)"] exI [of _ "as_u64 ?b"])
      (simp add: handle_rpc_def dispatch_def rpc_get_balance_def param_address_def param_str_def response_of_def parse_format_u64)
qed

text \<open>
  \<^bold>\<open>Submitted transactions are queued once\<close>. Bytes that decode to a transaction are answered with their
  Keccak hash and put the transaction behind the queue if its own hash is not queued and there is room,
  and are refused otherwise; bytes that decode to nothing are answered with their hash as well and leave
  everything unchanged.
\<close>

theorem raw_transactions_queued:
  assumes "decodes_hex (rl_hex rl)" and "mempool_inv (rl_crypto rl) (ld_mempool w)"
  shows "handle_rpc rl now d \<lparr>rq_jsonrpc = ''2.0'', rq_id = i, rq_method = ''eth_sendRawTransaction'',
           rq_params = JArray [JString (format_bytes raw)]\<rparr> w
    = (case decode_transaction rl raw of
         None \<Rightarrow> Ret (w, response_success i (JString (format_hash (keccak (rl_crypto rl) raw))))
       | Some t \<Rightarrow>
           if tx_hash (rl_crypto rl) t \<notin> tx_hash (rl_crypto rl) ` set (mp_pending (ld_mempool w))
              \<and> length (mp_pending (ld_mempool w)) < mp_max_size (ld_mempool w)
           then Ret (w\<lparr>ld_mempool := (ld_mempool w)\<lparr>mp_by_hash := hput (tx_hash (rl_crypto rl) t) t (mp_by_hash (ld_mempool w)),
                  mp_pending := mp_pending (ld_mempool w) @ [t]\<rparr>\<rparr>,
                response_success i (JString (format_hash (keccak (rl_crypto rl) raw))))
           else Ret (w, response_error i (- 32003) ''Transaction rejected: Mempool full or duplicate''))"
  using parse_formatted(3) [OF assms(1), of raw] mempool_contains [OF assms(2)]
  by (simp add: handle_rpc_def dispatch_def send_raw_transaction_def param_str_def response_of_def mempool_add_def Let_def
      split: option.split)

section \<open>Witnesses\<close>

definition demo_rpc :: "(nat, nat, nat \<times> nat, nat) rpc_lib" where
  "demo_rpc = \<lparr>rl_crypto = demo_evm_crypto, rl_hex = ref_decoder, rl_hex_error = (\<lambda>_. []), rl_rlp = (\<lambda>_. None),
     rl_tx_json = (\<lambda>raw. if raw = [1] then Some (Evm_Executor.demo_transfer 300 1 21000 10) else None),
     rl_call_request = (\<lambda>_. Inr \<lparr>cq_from = Some (format_address 7), cq_to = format_address 300, cq_gas = None,
       cq_gas_price = None, cq_value = Some (format_u64 5), cq_data = None\<rparr>),
     rl_context = (\<lambda>_. Inr MessageContext_default), rl_regex = (\<lambda>_ _. False), rl_revm = no_revm, rl_evm = demo_evm_lib\<rparr>"

definition demo_ledger :: ledger where
  "demo_ledger = \<lparr>ld_dag = Dag_new DagConfig_default, ld_state = set_balance 7 (from_u64 1000000) StateDb_new,
     ld_pos = ProofOfStake_new StakingConfig_default, ld_mempool = Mempool_new 2, ld_peer_count = 0, ld_zkp = (\<lambda>_ _. False)\<rparr>"

lemma demo_rpc_simps [simp]: "rl_hex demo_rpc = ref_decoder" "rl_crypto demo_rpc = demo_evm_crypto" "rl_evm demo_rpc = demo_evm_lib"
  "ld_mempool demo_ledger = Mempool_new 2"
  by (simp_all add: demo_rpc_def demo_ledger_def)

lemma demo_mempool_inv: "mempool_inv lib (Mempool_new 2)"
  by (simp add: mempool_inv_def Mempool_new_def queue_ok_def)

lemma answered:
  "\<exists>w' r. handle_rpc rl now d \<lparr>rq_jsonrpc = ''2.0'', rq_id = i, rq_method = ''eth_foo'', rq_params = p\<rparr> w = Ret (w', r)"
  "\<exists>w' r. handle_rpc rl now d \<lparr>rq_jsonrpc = ''2.0'', rq_id = i, rq_method = ''eth_chainId'', rq_params = p\<rparr> w = Ret (w', r)"
  by (simp_all add: handle_rpc_def dispatch_def)

theorem rpc_responses_wellformed_witness:
  "\<exists>w' r. handle_rpc demo_rpc 0 (MethodDispatcher_new 1337)
       \<lparr>rq_jsonrpc = ''2.0'', rq_id = JNull, rq_method = ''eth_foo'', rq_params = JNull\<rparr> demo_ledger = Ret (w', r)
     \<and> map_option je_code (rs_error r) = Some (- 32601) \<and> rs_result r = None"
proof -
  obtain w' r where r: "handle_rpc demo_rpc 0 (MethodDispatcher_new 1337)
      \<lparr>rq_jsonrpc = ''2.0'', rq_id = JNull, rq_method = ''eth_foo'', rq_params = JNull\<rparr> demo_ledger = Ret (w', r)"
    using answered(1) by blast
  have "''eth_foo'' \<notin> set rpc_methods" by (simp add: rpc_methods_def)
  with r rpc_responses_wellformed [OF r] show ?thesis by auto
qed

theorem rpc_effects_witness:
  "\<exists>w' r. handle_rpc demo_rpc 0 (MethodDispatcher_new 1337)
       \<lparr>rq_jsonrpc = ''2.0'', rq_id = JNull, rq_method = ''eth_chainId'', rq_params = JNull\<rparr> demo_ledger = Ret (w', r)
     \<and> ld_state w' = ld_state demo_ledger \<and> ld_mempool w' = Mempool_new 2"
proof -
  obtain w' r where r: "handle_rpc demo_rpc 0 (MethodDispatcher_new 1337)
      \<lparr>rq_jsonrpc = ''2.0'', rq_id = JNull, rq_method = ''eth_chainId'', rq_params = JNull\<rparr> demo_ledger = Ret (w', r)"
    using answered(2) by blast
  with rpc_effects [OF r] demo_mempool_inv show ?thesis by auto
qed

lemma demo_ledger_state:
  "get_code (ld_state demo_ledger) 300 = []" "u256_val (get_balance (ld_state demo_ledger) 7) = 1000000"
  "u256_val (get_balance (ld_state demo_ledger) 300) = 0"
  by (simp_all add: demo_ledger_def get_code_def get_balance_def get_account_def StateDb_new_def set_balance_def
      set_account_def Account_EMPTY_def hput_def)

theorem eth_call_moves_value_witness:
  "\<exists>w'. handle_rpc demo_rpc 0 (MethodDispatcher_new 1337)
      \<lparr>rq_jsonrpc = ''2.0'', rq_id = JNull, rq_method = ''eth_call'', rq_params = JArray [JNull]\<rparr> demo_ledger
      = Ret (w', response_success JNull (JString ''0x'')) \<and> u256_val (get_balance (ld_state w') 300) = 5"
proof -
  have "hget (get_precompiles demo_evm_crypto demo_evm_lib) 300 = None" by (simp add: get_precompiles_eq)
  moreover have "rl_call_request demo_rpc JNull = Inr \<lparr>cq_from = Some (format_address 7), cq_to = format_address 300,
      cq_gas = None, cq_gas_price = None, cq_value = Some (format_u64 5), cq_data = None\<rparr>" by (simp add: demo_rpc_def)
  ultimately show ?thesis
    using eth_call_moves_value [of demo_rpc JNull 7 300 5 demo_ledger 0 "MethodDispatcher_new 1337" JNull]
      ref_decodes_hex demo_ledger_state by auto
qed

theorem eth_get_balance_truncated_witness:
  "\<exists>s n. handle_rpc demo_rpc 0 (MethodDispatcher_new 1337)
      \<lparr>rq_jsonrpc = ''2.0'', rq_id = JNull, rq_method = ''eth_getBalance'', rq_params = JArray [JString (format_address 7)]\<rparr>
      (demo_ledger\<lparr>ld_state := set_balance 7 (U256 3 1 0 0) StateDb_new\<rparr>)
      = Ret (demo_ledger\<lparr>ld_state := set_balance 7 (U256 3 1 0 0) StateDb_new\<rparr>, response_success JNull (JString s))
    \<and> parse_u64 s = Some n \<and> unat n = 3"
proof -
  let ?w = "demo_ledger\<lparr>ld_state := set_balance 7 (U256 3 1 0 0) StateDb_new\<rparr>"
  have "u256_val (get_balance (ld_state ?w) 7) mod 2 ^ 64 = 3"
    by (simp add: get_balance_def get_account_def StateDb_new_def set_balance_def set_account_def Account_EMPTY_def
        hput_def u256_val_def)
  then show ?thesis
    using eth_get_balance_truncated [of demo_rpc 0 "MethodDispatcher_new 1337" JNull 7 ?w] ref_decodes_hex by auto
qed

theorem raw_transactions_queued_witness:
  "\<exists>w'. handle_rpc demo_rpc 0 (MethodDispatcher_new 1337) \<lparr>rq_jsonrpc = ''2.0'', rq_id = JNull,
       rq_method = ''eth_sendRawTransaction'', rq_params = JArray [JString (format_bytes [1])]\<rparr> demo_ledger
     = Ret (w', response_success JNull (JString (format_hash (keccak demo_evm_crypto [1]))))
     \<and> mp_pending (ld_mempool w') = [Evm_Executor.demo_transfer 300 1 21000 10]"
proof -
  have "decode_transaction demo_rpc [1] = Some (Evm_Executor.demo_transfer 300 1 21000 10)"
    by (simp add: decode_transaction_def demo_rpc_def from_rlp_bytes_def eip2930_def open_list_def)
  then show ?thesis
    using raw_transactions_queued [of demo_rpc demo_ledger 0 "MethodDispatcher_new 1337" JNull "[1]"] ref_decodes_hex demo_mempool_inv
    by (simp add: Mempool_new_def)
qed

end
