(* ===== verification/Proposer.thy ===== *)
theory Proposer
  imports Bft Pos Dag Tx_Pool
begin

text \<open>
  The vertex proposer, \<^verbatim>\<open>src/crates/nexus-consensus/src/proposer.rs\<close>: it takes transactions from its
  pool, builds a vertex on the tips of the DAG, adds it to the DAG and proposes it to the BFT engine.
  An \<open>Instant\<close> is the number of nanoseconds since some origin, a \<open>Duration\<close> a number of nanoseconds.
  The clock readings of a call are arguments. The channel to the listener is the list of vertices
  sent so far; a full channel, where the sender would wait, is not modelled. The text that
  \<open>format!("{:?}", e)\<close> gives for an error of the DAG is the argument \<open>dbg\<close>.
\<close>

section \<open>Data\<close>

record ProposerConfig =
  max_txs_per_vertex :: nat
  max_vertex_size :: nat
  target_interval :: nat
  cfg_max_parents :: nat
  cfg_min_parents :: nat

definition ProposerConfig_default :: ProposerConfig where
  "ProposerConfig_default = \<lparr>max_txs_per_vertex = 1000, max_vertex_size = 1024 * 1024,
     target_interval = 500 * 1000000, cfg_max_parents = 8, cfg_min_parents = 1\<rparr>"

record ProposedVertex =
  pv_vertex :: Vertex
  pv_transactions :: "Transaction list"

record 'k Proposer =
  po_config :: ProposerConfig
  po_address :: Address
  po_tx_pool :: TransactionPool
  po_dag :: Dag
  po_bft :: "'k BftConsensus"
  po_pos :: ProofOfStake
  po_last_proposal :: nat
  po_vertex_tx :: "ProposedVertex list option"

definition Proposer_new ::
    "nat \<Rightarrow> ProposerConfig \<Rightarrow> Address \<Rightarrow> TransactionPool \<Rightarrow> Dag \<Rightarrow> 'k BftConsensus \<Rightarrow> ProofOfStake \<Rightarrow> 'k Proposer" where
  "Proposer_new inst cfg addr pool dag bft pos =
     \<lparr>po_config = cfg, po_address = addr, po_tx_pool = pool, po_dag = dag, po_bft = bft, po_pos = pos,
      po_last_proposal = inst, po_vertex_tx = None\<rparr>"

definition set_vertex_channel :: "'k Proposer \<Rightarrow> 'k Proposer" where
  "set_vertex_channel P = P\<lparr>po_vertex_tx := Some []\<rparr>"

section \<open>Operations\<close>

definition should_propose :: "crypto_lib \<Rightarrow> nat \<Rightarrow> 'k Proposer \<Rightarrow> ('k Proposer \<times> bool) run" where
  "should_propose lib inst P =
     run_bind (is_weighted_leader lib (po_address P) (po_bft P)) (\<lambda>(b, leader).
       let P = P\<lparr>po_bft := b\<rparr>; elapsed = inst - po_last_proposal P
       in Ret (P, leader \<and> \<not> elapsed < target_interval (po_config P) \<and> \<not> pool_is_empty (po_tx_pool P)))"

definition proposal_parents :: "'k Proposer \<Rightarrow> Hash list" where
  "proposal_parents P = take (cfg_max_parents (po_config P)) (get_tips (po_dag P))"

definition proposal_batch :: "'k Proposer \<Rightarrow> Transaction list" where
  "proposal_batch P = get_pending (max_txs_per_vertex (po_config P)) (po_tx_pool P)"

definition proposal_height :: "Hash list \<Rightarrow> Dag \<Rightarrow> u64" where
  "proposal_height parents d =
     (case map vx_height (List.map_filter (get_vertex d) parents) of [] \<Rightarrow> 0 | h # hs \<Rightarrow> fold max hs h) + 1"

definition create_proposal ::
    "crypto_lib \<Rightarrow> nat \<Rightarrow> Timestamp \<Rightarrow> 'k Proposer \<Rightarrow> 'k Proposer \<times> ProposedVertex ConsensusResult" where
  "create_proposal lib inst now P =
     (let parents = proposal_parents P
      in if length parents < cfg_min_parents (po_config P)
         then (P, Inl (CE_InvalidProposal ''Not enough parent tips available''))
         else let transactions = proposal_batch P
              in if \<exists>t \<in> set transactions. tx_type t = IsoPayment \<and> iso_data t = None
                 then (P, Inl (CE_InvalidProposal ''ISO payment transaction missing iso_data''))
                 else let tx_hashes = map (tx_hash lib) transactions;
                          v = Vertex_new lib now (po_address P) parents tx_hashes
                                (ps_current_epoch (po_pos P)) (proposal_height parents (po_dag P))
                      in (P\<lparr>po_last_proposal := inst\<rparr>, Inr \<lparr>pv_vertex = v, pv_transactions = transactions\<rparr>))"

definition submit_proposal ::
    "crypto_lib \<Rightarrow> 'k key_lib \<Rightarrow> (NexusError \<Rightarrow> string) \<Rightarrow> Timestamp \<Rightarrow> ProposedVertex \<Rightarrow> 'k Proposer
       \<Rightarrow> ('k Proposer \<times> Hash ConsensusResult) run option" where
  "submit_proposal lib kl dbg now pv P =
     (let h = vx_hash (pv_vertex pv)
      in case add_vertex lib now (pv_vertex pv) (po_dag P) of
           None \<Rightarrow> None
         | Some (d, Inl e) \<Rightarrow> Some (Ret (P\<lparr>po_dag := d\<rparr>, Inl (CE_InvalidProposal (dbg e))))
         | Some (d, Inr _) \<Rightarrow>
             Some (run_map (\<lambda>(b, r).
               let P = P\<lparr>po_dag := d, po_bft := b\<rparr>
               in case r of Inl e \<Rightarrow> (P, Inl e)
                  | Inr _ \<Rightarrow>
                    (P\<lparr>po_tx_pool := pool_remove lib (map (tx_hash lib) (pv_transactions pv)) (po_tx_pool P),
                       po_vertex_tx := map_option (\<lambda>sent. sent @ [pv]) (po_vertex_tx P)\<rparr>, Inr h))
               (propose lib kl h (vx_parents (pv_vertex pv)) (po_bft P))))"

text \<open>One tick of the loop of \<open>run\<close>; errors are only logged.\<close>

record clocks =
  ck_check :: nat
  ck_create :: nat
  ck_vertex :: Timestamp
  ck_dag :: Timestamp

definition proposer_tick ::
    "crypto_lib \<Rightarrow> 'k key_lib \<Rightarrow> (NexusError \<Rightarrow> string) \<Rightarrow> clocks \<Rightarrow> 'k Proposer \<Rightarrow> 'k Proposer run option" where
  "proposer_tick lib kl dbg c P =
     (case should_propose lib (ck_check c) P of
        Panic \<Rightarrow> Some Panic | Blocked \<Rightarrow> Some Blocked
      | Ret (P, go) \<Rightarrow>
        if \<not> go then Some (Ret P)
        else case create_proposal lib (ck_create c) (ck_vertex c) P of
               (P, Inl e) \<Rightarrow> Some (Ret P)
             | (P, Inr pv) \<Rightarrow> map_option (run_map fst) (submit_proposal lib kl dbg (ck_dag c) pv P))"

datatype TxPriority = High | Normal | Low

definition TxPriority_from_tx :: "Transaction \<Rightarrow> TxPriority" where
  "TxPriority_from_tx t =
     (let gas_price_gwei = as_u64 (gas_price t) div 1000000000
      in if gas_price_gwei > 100 then High else if gas_price_gwei > 10 then Normal else Low)"

section \<open>Lemmas\<close>

lemma is_weighted_leader_free:
  assumes "rw_free (bc_state b)"
  shows "\<exists>r. is_weighted_leader lib a b = Ret (b, r)"
  using assms by (cases b) (auto simp: is_weighted_leader_def weighted_leader_def lock_defs Let_def)

lemma should_propose_free:
  assumes "rw_free (bc_state (po_bft P))"
  shows "\<exists>g. should_propose lib inst P = Ret (P, g) \<and> (g \<longrightarrow> tp_pending (po_tx_pool P) \<noteq> [])"
  using is_weighted_leader_free [OF assms, of lib "po_address P"]
  by (auto simp: should_propose_def Let_def pool_is_empty_def)

lemma add_vertex_bad_structure:
  assumes "\<not> hcontains (dg_vertices d) (vx_hash v)" and "verify_structure lib v = Inl e"
  shows "add_vertex lib now v d = Some (d, Inl (DagErr (vertex_error_string e)))"
  using assms by (simp add: add_vertex_def Let_def)

text \<open>A new vertex carries the Merkle root of its transactions' hashes and none of the transactions.\<close>

lemma Vertex_new_rejected:
  assumes "length parents \<le> 8" and "compute_merkle_root lib hs \<noteq> 0"
  shows "\<exists>e. verify_structure lib (Vertex_new lib now a parents hs ep ht) = Inl e"
  using assms by (auto simp: verify_structure_def Vertex_new_def Let_def MAX_PARENTS_def
      MAX_TRANSACTIONS_PER_VERTEX_def compute_merkle_root_def)

section \<open>Properties\<close>

text \<open>
  A tick of the proposer never gets a vertex into the DAG. When the pool holds transactions the
  vertex it builds carries the Merkle root of their hashes but not the transactions, so the DAG
  refuses it; the tick changes nothing but the time of the last proposal, nothing is proposed to the
  BFT engine, and the transactions stay in the pool. This holds for every Merkle root but zero and
  every vertex hash the DAG does not hold yet.
\<close>

theorem proposals_never_accepted:
  assumes "rw_free (bc_state (po_bft P))" and "cfg_max_parents (po_config P) \<le> 8"
    and "tp_pending (po_tx_pool P) \<noteq> [] \<Longrightarrow> compute_merkle_root lib (map (tx_hash lib) (proposal_batch P)) \<noteq> 0"
    and "\<not> hcontains (dg_vertices (po_dag P)) (vx_hash (Vertex_new lib (ck_vertex c) (po_address P)
            (proposal_parents P) (map (tx_hash lib) (proposal_batch P)) 0 0))"
  shows "\<exists>i. proposer_tick lib kl dbg c P = Some (Ret (P\<lparr>po_last_proposal := i\<rparr>))"
proof -
  obtain g where g: "should_propose lib (ck_check c) P = Ret (P, g)" "g \<Longrightarrow> tp_pending (po_tx_pool P) \<noteq> []"
    using should_propose_free [OF assms(1)] by blast
  show ?thesis
  proof (cases "g \<and> (\<exists>P' pv. create_proposal lib (ck_create c) (ck_vertex c) P = (P', Inr pv))")
    case False
    then have "proposer_tick lib kl dbg c P = Some (Ret P)"
      using g(1) by (auto simp: proposer_tick_def create_proposal_def Let_def split: if_splits)
    moreover have "P = P\<lparr>po_last_proposal := po_last_proposal P\<rparr>" by simp
    ultimately show ?thesis by metis
  next
    case True
    let ?v = "Vertex_new lib (ck_vertex c) (po_address P) (proposal_parents P)
      (map (tx_hash lib) (proposal_batch P)) (ps_current_epoch (po_pos P))
      (proposal_height (proposal_parents P) (po_dag P))"
    have "create_proposal lib (ck_create c) (ck_vertex c) P = (P\<lparr>po_last_proposal := ck_create c\<rparr>,
        Inr \<lparr>pv_vertex = ?v, pv_transactions = proposal_batch P\<rparr>)"
      using True by (auto simp: create_proposal_def Let_def split: if_splits)
    moreover have "length (proposal_parents P) \<le> 8" using assms(2) by (simp add: proposal_parents_def)
    then obtain e where "verify_structure lib ?v = Inl e"
      using Vertex_new_rejected assms(3) g(2) True by blast
    moreover have "\<not> hcontains (dg_vertices (po_dag P)) (vx_hash ?v)"
      using assms(4) by (simp add: Vertex_new_def Let_def)
    ultimately show ?thesis
      using g(1) True add_vertex_bad_structure [of "po_dag P" ?v lib e "ck_dag c"]
      by (auto simp: proposer_tick_def submit_proposal_def)
  qed
qed

text \<open>A lone validator that leads, with one transfer in its pool.\<close>

definition const_lib :: crypto_lib where
  "const_lib = demo_lib\<lparr>blake3 := (\<lambda>bs. 5)\<rparr>"

definition demo_proposer :: "unit Proposer" where
  "demo_proposer = Proposer_new 0 ProposerConfig_default 1
     \<lparr>tp_pending = [demo_tx], tp_max_size = 100000\<rparr> demo_dag solo_engine
     (ProofOfStake_new StakingConfig_default)"

definition demo_clocks :: clocks where
  "demo_clocks = \<lparr>ck_check = 600000000, ck_create = 600000001, ck_vertex = 1000, ck_dag = 1001\<rparr>"

theorem proposals_never_accepted_witness:
  "snd (create_proposal const_lib 600000001 1000 demo_proposer)
      = Inr \<lparr>pv_vertex = Vertex_new const_lib 1000 1 [0] [5] 0 1, pv_transactions = [demo_tx]\<rparr>
   \<and> (\<exists>i. proposer_tick const_lib demo_key_lib (\<lambda>e. ''DagError'') demo_clocks demo_proposer
        = Some (Ret (demo_proposer\<lparr>po_last_proposal := i\<rparr>)))"
proof (rule conjI)
  have hash: "tx_hash const_lib demo_tx = 5" by (simp add: tx_hash_def blake3_hash_def const_lib_def)
  have inputs: "proposal_batch demo_proposer = [demo_tx]" "proposal_parents demo_proposer = [0]"
    by (simp_all add: proposal_batch_def proposal_parents_def demo_proposer_def Proposer_new_def
        ProposerConfig_default_def get_pending_def get_tips_def demo_dag_eq)
  have fields: "cfg_min_parents (po_config demo_proposer) = 1" "po_address demo_proposer = 1"
      "ps_current_epoch (po_pos demo_proposer) = 0" "tx_type demo_tx = Legacy" "po_dag demo_proposer = demo_dag"
      "proposal_height [0] demo_dag = 1"
    by (simp_all add: demo_proposer_def Proposer_new_def ProposerConfig_default_def proposal_height_def
        get_vertex_def demo_dag_eq List.map_filter_simps demo_tx_def new_legacy_def Vertex_genesis_def
        ProofOfStake_new_def)
  show "snd (create_proposal const_lib 600000001 1000 demo_proposer)
      = Inr \<lparr>pv_vertex = Vertex_new const_lib 1000 1 [0] [5] 0 1, pv_transactions = [demo_tx]\<rparr>"
    by (simp add: create_proposal_def Let_def inputs fields hash)
  show "\<exists>i. proposer_tick const_lib demo_key_lib (\<lambda>e. ''DagError'') demo_clocks demo_proposer
        = Some (Ret (demo_proposer\<lparr>po_last_proposal := i\<rparr>))"
  proof (rule proposals_never_accepted)
    show "rw_free (bc_state (po_bft demo_proposer))" "cfg_max_parents (po_config demo_proposer) \<le> 8"
      by (simp_all add: demo_proposer_def Proposer_new_def ProposerConfig_default_def solo_defs rw_defs)
    show "compute_merkle_root const_lib (map (tx_hash const_lib) (proposal_batch demo_proposer)) \<noteq> 0"
      by (simp add: inputs hash compute_merkle_root_def)
    show "\<not> hcontains (dg_vertices (po_dag demo_proposer))
        (vx_hash (Vertex_new const_lib (ck_vertex demo_clocks) (po_address demo_proposer)
          (proposal_parents demo_proposer) (map (tx_hash const_lib) (proposal_batch demo_proposer)) 0 0))"
      by (simp add: Vertex_new_def Let_def vertex_hash_def const_lib_def demo_proposer_def Proposer_new_def
          demo_dag_eq)
  qed
qed

end
