(* ===== verification/Genesis.thy ===== *)
theory Genesis
  imports Evm_State Pos Address_Text
begin

text \<open>
  Genesis state, \<^verbatim>\<open>src/crates/nexus-node/src/genesis.rs\<close>: the genesis document, the parsers of its text
  fields, its application to the state database and the staking engine, and the export of a running
  state. The hexadecimal decoder, the JSON codec, the file system and the debug printer of errors are
  parameters; the clock reading of an export is an argument. The white space that \<open>trim\<close> removes is that
  of ASCII text.
\<close>

section \<open>Data model\<close>

record GenesisAccount =
  ga_address :: string
  ga_balance :: string
  ga_code :: "string option"
  ga_storage :: "(string, string) hmap"
  ga_nonce :: u64

record GenesisValidator =
  gv_address :: string
  gv_pubkey :: string
  gv_stake :: string
  gv_commission :: u16

record GenesisConfig =
  gn_chain_id :: u64
  gn_timestamp :: u64
  gn_name :: string
  gn_accounts :: "GenesisAccount list"
  gn_validators :: "GenesisValidator list"

definition GenesisConfig_default :: GenesisConfig where
  "GenesisConfig_default = \<lparr>gn_chain_id = 1337, gn_timestamp = 0, gn_name = ''NexusChain Devnet'',
     gn_accounts = [], gn_validators = []\<rparr>"

datatype GenesisError =
    GenesisIo string
  | GenesisParse string
  | BadAddress string
  | BadCode string
  | BadPubkey string
  | GenesisPoS string

section \<open>Parsing helpers\<close>

fun trim_0x :: "string \<Rightarrow> string" where
  "trim_0x (c # d # s) = (if c = CHR ''0'' \<and> d = CHR ''x'' then trim_0x s else c # d # s)"
| "trim_0x s = s"

definition parse_addr :: "hex_decoder \<Rightarrow> string \<Rightarrow> Address option" where
  "parse_addr dec s = (case dec (trim_0x s) of Inl _ \<Rightarrow> None | Inr bytes \<Rightarrow> Address_from_slice bytes)"

definition is_space :: "char \<Rightarrow> bool" where
  "is_space c \<longleftrightarrow> (of_char c :: nat) \<in> {9, 10, 11, 12, 13, 32}"

definition trim :: "string \<Rightarrow> string" where
  "trim s = rev (dropWhile is_space (rev (dropWhile is_space s)))"

fun decimal_loop :: "string \<Rightarrow> U256 \<Rightarrow> U256 run" where
  "decimal_loop [] result = Ret result"
| "decimal_loop (ch # s) result =
     (if is_ascii_digit ch
      then run_bind (u256_add (u256_mul result (from_u64 10)) (from_u64 (of_nat (digit_of ch)))) (decimal_loop s)
      else decimal_loop s result)"

definition parse_u256_decimal :: "string \<Rightarrow> U256 run" where
  "parse_u256_decimal s = decimal_loop (trim s) ZERO"

definition parse_u256_hex :: "hex_decoder \<Rightarrow> string \<Rightarrow> U256" where
  "parse_u256_hex dec s =
     (let bytes = (case dec (trim_0x s) of Inl _ \<Rightarrow> [] | Inr bytes \<Rightarrow> bytes);
          offset = 32 - length bytes;
          arr = copy_into offset (drop (length bytes - 32) bytes) (replicate 32 0)
      in of_limbs (map (\<lambda>i. u64_from_be_bytes (take 8 (drop ((3 - i) * 8) arr))) [0, 1, 2, 3]))"

section \<open>Application\<close>

record genesis_lib =
  gl_crypto :: crypto_lib
  gl_decode :: hex_decoder
  gl_debug :: "ConsensusError \<Rightarrow> string"

definition apply_storage :: "hex_decoder \<Rightarrow> Address \<Rightarrow> (string, string) hmap \<Rightarrow> StateDb \<Rightarrow> StateDb" where
  "apply_storage dec addr slots st =
     fold (\<lambda>(slot, val). set_storage addr (parse_u256_hex dec slot) (parse_u256_hex dec val)) slots st"

definition apply_account :: "genesis_lib \<Rightarrow> GenesisAccount \<Rightarrow> StateDb \<Rightarrow> (StateDb \<times> (GenesisError + unit)) run" where
  "apply_account gl entry st =
     (case parse_addr (gl_decode gl) (ga_address entry) of
        None \<Rightarrow> Ret (st, Inl (BadAddress (ga_address entry)))
      | Some addr \<Rightarrow>
          run_bind (parse_u256_decimal (ga_balance entry)) (\<lambda>balance.
          let account = \<lparr>ac_nonce = ga_nonce entry, ac_balance = balance, ac_code_hash = 0, ac_storage_root = 0\<rparr>;
              st = set_account addr account st
          in case ga_code entry of
               None \<Rightarrow> Ret (apply_storage (gl_decode gl) addr (ga_storage entry) st, Inr ())
             | Some code_hex \<Rightarrow>
                 (case gl_decode gl (trim_0x code_hex) of
                    Inl _ \<Rightarrow> Ret (st, Inl (BadCode (ga_address entry)))
                  | Inr code \<Rightarrow>
                      Ret (apply_storage (gl_decode gl) addr (ga_storage entry)
                             (set_code (gl_crypto gl) addr code st), Inr ()))))"

fun apply_accounts :: "genesis_lib \<Rightarrow> GenesisAccount list \<Rightarrow> StateDb \<Rightarrow> (StateDb \<times> (GenesisError + unit)) run" where
  "apply_accounts gl [] st = Ret (st, Inr ())"
| "apply_accounts gl (entry # es) st =
     run_bind (apply_account gl entry st) (\<lambda>(st, r). case r of Inl e \<Rightarrow> Ret (st, Inl e) | Inr _ \<Rightarrow> apply_accounts gl es st)"

definition apply_validator :: "genesis_lib \<Rightarrow> GenesisValidator \<Rightarrow> ProofOfStake \<Rightarrow> (ProofOfStake \<times> (GenesisError + unit)) run" where
  "apply_validator gl v pos =
     (case parse_addr (gl_decode gl) (gv_address v) of
        None \<Rightarrow> Ret (pos, Inl (BadAddress (gv_address v)))
      | Some addr \<Rightarrow>
          (case gl_decode gl (trim_0x (gv_pubkey v)) of
             Inl _ \<Rightarrow> Ret (pos, Inl (BadPubkey (gv_address v)))
           | Inr pubkey \<Rightarrow>
               run_bind (parse_u256_decimal (gv_stake v)) (\<lambda>stake_u256.
               Ret (case register_validator addr pubkey (as_u64 stake_u256) (gv_commission v) pos of
                      (pos, Inl e) \<Rightarrow> (pos, Inl (GenesisPoS (gl_debug gl e)))
                    | (pos, Inr _) \<Rightarrow> (pos, Inr ())))))"

fun apply_validators :: "genesis_lib \<Rightarrow> GenesisValidator list \<Rightarrow> ProofOfStake \<Rightarrow> (ProofOfStake \<times> (GenesisError + unit)) run" where
  "apply_validators gl [] pos = Ret (pos, Inr ())"
| "apply_validators gl (v # vs) pos =
     run_bind (apply_validator gl v pos) (\<lambda>(pos, r). case r of Inl e \<Rightarrow> Ret (pos, Inl e) | Inr _ \<Rightarrow> apply_validators gl vs pos)"

definition apply_genesis :: "genesis_lib \<Rightarrow> GenesisConfig \<Rightarrow> StateDb \<times> ProofOfStake
    \<Rightarrow> ((StateDb \<times> ProofOfStake) \<times> (GenesisError + unit)) run" where
  "apply_genesis gl config sp =
     run_bind (apply_accounts gl (gn_accounts config) (fst sp)) (\<lambda>(st, r).
       case r of Inl e \<Rightarrow> Ret ((st, snd sp), Inl e)
       | Inr _ \<Rightarrow> run_map (\<lambda>(pos, r). ((st, pos), r)) (apply_validators gl (gn_validators config) (snd sp)))"

section \<open>Import and export\<close>

record genesis_io =
  gi_read :: "string \<Rightarrow> string + string"
  gi_write :: "string \<Rightarrow> string \<Rightarrow> string + unit"
  gi_from_json :: "string \<Rightarrow> string + GenesisConfig"
  gi_to_json :: "GenesisConfig \<Rightarrow> string + string"

definition load_genesis_file :: "genesis_lib \<Rightarrow> genesis_io \<Rightarrow> string \<Rightarrow> StateDb \<times> ProofOfStake
    \<Rightarrow> ((StateDb \<times> ProofOfStake) \<times> (GenesisError + GenesisConfig)) run" where
  "load_genesis_file gl io path sp =
     (case gi_read io path of Inl e \<Rightarrow> Ret (sp, Inl (GenesisIo e))
      | Inr raw \<Rightarrow>
          (case gi_from_json io raw of Inl e \<Rightarrow> Ret (sp, Inl (GenesisParse e))
           | Inr config \<Rightarrow>
               run_map (\<lambda>(sp, r). (sp, case r of Inl e \<Rightarrow> Inl e | Inr _ \<Rightarrow> Inr config)) (apply_genesis gl config sp)))"

definition export_validator :: "Validator \<Rightarrow> GenesisValidator" where
  "export_validator v = \<lparr>gv_address = ''0x'' @ hex_encode (addr_bytes (v_address v)),
     gv_pubkey = ''0x'' @ hex_encode (v_pubkey v), gv_stake = dec_digits (unat (v_stake v)),
     gv_commission = v_commission v\<rparr>"

definition export_account :: "StateDb \<Rightarrow> Address \<times> Account \<Rightarrow> GenesisAccount run" where
  "export_account st e =
     (let (addr, account) = e;
          code = get_code st addr;
          code_hex = (if code = [] then None else Some (''0x'' @ hex_encode code))
      in run_map (\<lambda>balance. \<lparr>ga_address = ''0x'' @ hex_encode (addr_bytes addr), ga_balance = text_of balance,
                    ga_code = code_hex, ga_storage = [], ga_nonce = ac_nonce account\<rparr>)
           (display (ac_balance account)))"

fun export_accounts :: "StateDb \<Rightarrow> (Address \<times> Account) list \<Rightarrow> GenesisAccount list run" where
  "export_accounts st [] = Ret []"
| "export_accounts st (e # es) =
     run_bind (export_account st e) (\<lambda>g. run_map ((#) g) (export_accounts st es))"

definition export_genesis :: "u64 \<Rightarrow> StateDb \<Rightarrow> ProofOfStake \<Rightarrow> u64 \<Rightarrow> string \<Rightarrow> GenesisConfig run" where
  "export_genesis now st pos chain_id name =
     (let validators = map export_validator (active_validators (ps_validators pos))
      in run_map (\<lambda>accounts. \<lparr>gn_chain_id = chain_id, gn_timestamp = now, gn_name = name,
                    gn_accounts = accounts, gn_validators = validators\<rparr>)
           (export_accounts st (filter (\<lambda>(_, account). \<not> acc_is_empty account) (all_accounts st))))"

definition write_genesis_file :: "genesis_io \<Rightarrow> string \<Rightarrow> GenesisConfig \<Rightarrow> GenesisError + unit" where
  "write_genesis_file io path config =
     (case gi_to_json io config of Inl e \<Rightarrow> Inl (GenesisParse e)
      | Inr json \<Rightarrow> (case gi_write io path json of Inl e \<Rightarrow> Inl (GenesisIo e) | Inr _ \<Rightarrow> Inr ()))"

section \<open>Decimal text\<close>

lemma u256_decimal_step:
  assumes "10 * u256_val r + k < 2 ^ 256" and "k < 10"
  shows "\<exists>z. u256_add (u256_mul r (from_u64 10)) (from_u64 (of_nat k)) = Ret z \<and> u256_val z = 10 * u256_val r + k"
proof -
  obtain z where z: "u256_val z = 10 * u256_val r + k" using u256_val_surj [OF assms(1)] by blast
  moreover have "u256_val (u256_mul r (from_u64 10)) = 10 * u256_val r"
    using assms(1) by (simp add: u256_val_mul)
  moreover have "unat (of_nat k :: u64) = k" using assms(2) by (simp add: unat_of_nat take_bit_nat_eq_self)
  ultimately show ?thesis by (auto simp: u256_add_Ret_iff)
qed

lemma dec_fold_ge: "a \<le> foldl (\<lambda>a c. 10 * a + digit_of c) a s"
proof (induction s arbitrary: a)
  case (Cons c s)
  have "a \<le> 10 * a + digit_of c" by simp
  also have "\<dots> \<le> foldl (\<lambda>a c. 10 * a + digit_of c) (10 * a + digit_of c) s" by (rule Cons.IH)
  finally show ?case by simp
qed simp

lemma decimal_loop_digits:
  assumes "list_all is_ascii_digit s" and "foldl (\<lambda>a c. 10 * a + digit_of c) (u256_val r) s < 2 ^ 256"
  shows "\<exists>z. decimal_loop s r = Ret z \<and> u256_val z = foldl (\<lambda>a c. 10 * a + digit_of c) (u256_val r) s"
  using assms
proof (induction s arbitrary: r)
  case (Cons c s)
  have "digit_of c < 10" using Cons.prems(1) by (auto simp: is_ascii_digit_def digit_of_def)
  moreover have "10 * u256_val r + digit_of c < 2 ^ 256"
    using dec_fold_ge [of "10 * u256_val r + digit_of c" s] Cons.prems(2) by simp
  ultimately obtain z where z: "u256_add (u256_mul r (from_u64 10)) (from_u64 (of_nat (digit_of c))) = Ret z"
      "u256_val z = 10 * u256_val r + digit_of c" using u256_decimal_step by blast
  have "list_all is_ascii_digit s" "foldl (\<lambda>a c. 10 * a + digit_of c) (u256_val z) s < 2 ^ 256"
    using Cons.prems z(2) by simp_all
  from Cons.IH [OF this] z Cons.prems(1) show ?case by simp
qed simp

lemma digit_not_space: "is_ascii_digit c \<Longrightarrow> \<not> is_space c"
  by (auto simp: is_ascii_digit_def is_space_def)

lemma trim_digits: "list_all is_ascii_digit s \<Longrightarrow> trim s = s"
proof -
  assume digits: "list_all is_ascii_digit s"
  have "dropWhile is_space t = t" if "list_all is_ascii_digit t" for t
    using that digit_not_space by (cases t) auto
  from this [of s] this [of "rev s"] digits show ?thesis by (simp add: trim_def)
qed

lemma parse_decimal_digits:
  "list_all is_ascii_digit s \<Longrightarrow> dec_val s < 2 ^ 256 \<Longrightarrow> \<exists>z. parse_u256_decimal s = Ret z \<and> u256_val z = dec_val s"
  using decimal_loop_digits [of s ZERO] by (simp add: parse_u256_decimal_def trim_digits dec_val_def)

lemma display_digits: "\<exists>ds. display x = Ret ds \<and> list_all is_digit ds \<and> decimal_val ds = u256_val x"
proof (cases "x = ZERO")
  case True
  then show ?thesis by (simp add: display_def decimal_val_def is_digit_def)
next
  case False
  with display_loop_val [of x "[]"] show ?thesis by (auto simp: display_def)
qed

lemma digit_text:
  assumes "list_all is_digit ds"
  shows "list_all is_ascii_digit (text_of ds)" and "dec_val (text_of ds) = decimal_val ds"
proof -
  show "list_all is_ascii_digit (text_of ds)"
    using assms by (auto simp: list_all_iff text_of_def is_digit_def is_ascii_digit_def word_le_nat_alt)
  have "digit_of (char_of (unat d)) = unat d - 48" if "d \<in> set ds" for d
    using unat_lt2p [of d] by (simp add: digit_of_def)
  then show "dec_val (text_of ds) = decimal_val ds"
    unfolding dec_val_def decimal_val_def text_of_def foldl_map by (intro foldl_cong) auto
qed

lemma parse_display: "\<exists>ds. display x = Ret ds \<and> parse_u256_decimal (text_of ds) = Ret x"
proof -
  obtain ds where ds: "display x = Ret ds" "list_all is_digit ds" "decimal_val ds = u256_val x"
    using display_digits by blast
  then obtain z where "parse_u256_decimal (text_of ds) = Ret z" "u256_val z = u256_val x"
    using parse_decimal_digits [of "text_of ds"] digit_text [of ds] u256_val_bound [of x] by auto
  with ds show ?thesis by simp
qed

section \<open>Hexadecimal text\<close>

lemma hex_digit_no_x: "n < 16 \<Longrightarrow> hex_digit n \<noteq> CHR ''x''"
  by (auto simp: hex_digit_def dest!: arg_cong [of _ _ "of_char :: char \<Rightarrow> nat"])

lemma hex_encode_no_x: "CHR ''x'' \<notin> set (hex_encode bs)"
  using hex_digit_no_x [OF byte_nibble(1)] hex_digit_no_x [OF byte_nibble(2)]
  by (induction bs) (auto simp: hex_encode_def dest: sym)

lemma trim_0x_hex [simp]: "trim_0x (hex_encode bs) = hex_encode bs"
  using hex_encode_no_x [of bs] by (cases "hex_encode bs" rule: trim_0x.cases) auto

lemma decode_exported:
  assumes "decodes_hex dec"
  shows "dec (trim_0x (''0x'' @ hex_encode bs)) = Inr bs"
  using assms by (simp add: decodes_hex_def lower_hex_encode)

lemma parse_addr_exported:
  "decodes_hex dec \<Longrightarrow> parse_addr dec (''0x'' @ hex_encode (addr_bytes a)) = Some a"
  using decode_exported [of dec "addr_bytes a"]
  by (simp add: parse_addr_def Address_from_slice_def Address_new_bytes)

section \<open>Restoring an exported state\<close>

abbreviation code_key :: "genesis_lib \<Rightarrow> u8 list \<Rightarrow> Hash" where
  "code_key gl c \<equiv> Hash_new (keccak256 (gl_crypto gl) c)"

definition restored :: "genesis_lib \<Rightarrow> StateDb \<Rightarrow> Address \<Rightarrow> Account \<Rightarrow> Account" where
  "restored gl st a acc = \<lparr>ac_nonce = ac_nonce acc, ac_balance = ac_balance acc,
     ac_code_hash = (if get_code st a = [] then 0 else code_key gl (get_code st a)), ac_storage_root = 0\<rparr>"

text \<open>The accounts and codes of a database that holds the restored copies of the entries \<open>es\<close>.\<close>

definition codes_ok :: "genesis_lib \<Rightarrow> u8 list set \<Rightarrow> StateDb \<Rightarrow> bool" where
  "codes_ok gl C s \<longleftrightarrow> (\<forall>h c. hget (sd_code s) h = Some c \<longrightarrow> c \<in> C \<and> h = code_key gl c)"

lemma set_code_fields:
  "get_account (set_code lib a c s) b = (if b = a then (get_account s a)\<lparr>ac_code_hash := Hash_new (keccak256 lib c)\<rparr> else get_account s b)"
  "sd_code (set_code lib a c s) = hput (Hash_new (keccak256 lib c)) c (sd_code s)"
  "get_storage (set_code lib a c s) = get_storage s"
  by (auto simp: set_code_def Let_def set_account_def get_account_def get_storage_def fun_eq_iff)

lemma sd_code_set_account [simp]: "sd_code (set_account a x s) = sd_code s"
  by (simp add: set_account_def)

lemma apply_exported:
  assumes "decodes_hex (gl_decode gl)"
  shows "\<exists>g s'. export_account st (a, acc) = Ret g \<and> apply_account gl g s = Ret (s', Inr ())
    \<and> (\<forall>b. get_account s' b = (if b = a then restored gl st a acc else get_account s b))
    \<and> sd_code s' = (if get_code st a = [] then sd_code s else hput (code_key gl (get_code st a)) (get_code st a) (sd_code s))
    \<and> get_storage s' = get_storage s"
proof -
  obtain ds where ds: "display (ac_balance acc) = Ret ds" "parse_u256_decimal (text_of ds) = Ret (ac_balance acc)"
    using parse_display by blast
  note dec = decode_exported [OF assms, of "get_code st a"] parse_addr_exported [OF assms, of a]
  show ?thesis
    using ds dec
    by (auto simp: export_account_def apply_account_def apply_storage_def restored_def set_code_fields Let_def)
qed

lemma apply_all_exported:
  assumes "decodes_hex (gl_decode gl)" and "distinct (map fst es)" and "\<forall>(a, acc) \<in> set es. get_code st a \<in> C"
    and "inj_on (code_key gl) C" and "codes_ok gl C s"
  shows "\<exists>gs s'. export_accounts st es = Ret gs \<and> apply_accounts gl gs s = Ret (s', Inr ())
    \<and> (\<forall>b. get_account s' b = (case map_of es b of None \<Rightarrow> get_account s b | Some acc \<Rightarrow> restored gl st b acc))
    \<and> codes_ok gl C s' \<and> (\<forall>h. hget (sd_code s) h \<noteq> None \<longrightarrow> hget (sd_code s') h = hget (sd_code s) h)
    \<and> (\<forall>(a, acc) \<in> set es. get_code st a \<noteq> [] \<longrightarrow> hget (sd_code s') (code_key gl (get_code st a)) = Some (get_code st a))
    \<and> get_storage s' = get_storage s"
  using assms(2,3,5)
proof (induction es arbitrary: s)
  case (Cons e es)
  obtain a acc where e: "e = (a, acc)" by fastforce
  let ?c = "get_code st a"
  obtain g s1 where s1: "export_account st (a, acc) = Ret g" "apply_account gl g s = Ret (s1, Inr ())"
      "\<And>b. get_account s1 b = (if b = a then restored gl st a acc else get_account s b)"
      "sd_code s1 = (if ?c = [] then sd_code s else hput (code_key gl ?c) ?c (sd_code s))"
      "get_storage s1 = get_storage s"
    using apply_exported [OF assms(1)] by blast
  have c: "?c \<in> C" using Cons.prems(2) e by simp
  have same: "hget (sd_code s1) h = hget (sd_code s) h" if "hget (sd_code s) h \<noteq> None" for h
    using that Cons.prems(3) c inj_onD [OF assms(4) _ c] by (auto simp: s1(4) codes_ok_def)
  have "codes_ok gl C s1" using Cons.prems(3) c by (auto simp: s1(4) codes_ok_def)
  with Cons.IH [of s1] Cons.prems e obtain gs s' where s': "export_accounts st es = Ret gs"
      "apply_accounts gl gs s1 = Ret (s', Inr ())"
      "\<And>b. get_account s' b = (case map_of es b of None \<Rightarrow> get_account s1 b | Some acc \<Rightarrow> restored gl st b acc)"
      "codes_ok gl C s'" "\<And>h. hget (sd_code s1) h \<noteq> None \<Longrightarrow> hget (sd_code s') h = hget (sd_code s1) h"
      "\<forall>(a, acc) \<in> set es. get_code st a \<noteq> [] \<longrightarrow> hget (sd_code s') (code_key gl (get_code st a)) = Some (get_code st a)"
      "get_storage s' = get_storage s1" by auto
  have "map_of es a = None" using Cons.prems(1) e by (simp add: map_of_eq_None_iff)
  moreover have "?c \<noteq> [] \<Longrightarrow> hget (sd_code s') (code_key gl ?c) = Some ?c"
    using s'(5) [of "code_key gl ?c"] by (simp add: s1(4))
  moreover have "hget (sd_code s') h = hget (sd_code s) h" if "hget (sd_code s) h \<noteq> None" for h
    using s'(5) [of h] same [OF that] that by simp
  ultimately show ?case using s1 s' e by (auto split: option.splits)
qed (simp add: codes_ok_def)

definition register_all :: "genesis_lib \<Rightarrow> Validator list \<Rightarrow> ProofOfStake \<Rightarrow> ProofOfStake \<times> (GenesisError + unit)" where
  "register_all gl vs pos =
     fold (\<lambda>v (pos, r). case r of Inl e \<Rightarrow> (pos, Inl e)
       | Inr _ \<Rightarrow> (case register_validator (v_address v) (v_pubkey v) (v_stake v) (v_commission v) pos of
            (pos, Inl e) \<Rightarrow> (pos, Inl (GenesisPoS (gl_debug gl e))) | (pos, Inr _) \<Rightarrow> (pos, Inr ())))
       vs (pos, Inr ())"

lemma parse_stake: "\<exists>z. parse_u256_decimal (dec_digits (unat (w :: u64))) = Ret z \<and> as_u64 z = w"
proof -
  have w: "unat w < 2 ^ 64" using unat_lt2p [of w] by simp
  then have "dec_val (dec_digits (unat w)) < 2 ^ 256" by simp
  then obtain z where z: "parse_u256_decimal (dec_digits (unat w)) = Ret z" "u256_val z = unat w"
    using parse_decimal_digits [of "dec_digits (unat w)"] by auto
  with w as_u64_val [of z] have "as_u64 z = w" by (simp add: word_unat_eq_iff)
  with z show ?thesis by blast
qed

lemma apply_validators_exported:
  assumes "decodes_hex (gl_decode gl)"
  shows "apply_validators gl (map export_validator vs) pos = Ret (register_all gl vs pos)"
proof (induction vs arbitrary: pos)
  case (Cons v vs)
  obtain z where z: "parse_u256_decimal (dec_digits (unat (v_stake v))) = Ret z" "as_u64 z = v_stake v"
    using parse_stake by blast
  note dec = decode_exported [OF assms, of "v_pubkey v"] parse_addr_exported [OF assms, of "v_address v"]
  have stuck: "fold (\<lambda>v (pos, r). case r of Inl e \<Rightarrow> (pos, Inl e) | Inr _ \<Rightarrow> f v pos) vs (p, Inl e) = (p, Inl e)"
    for f :: "Validator \<Rightarrow> ProofOfStake \<Rightarrow> ProofOfStake \<times> (GenesisError + unit)" and p e
    by (induction vs) auto
  obtain pos' r where reg: "register_validator (v_address v) (v_pubkey v) (v_stake v) (v_commission v) pos = (pos', r)"
    by fastforce
  show ?case
    using dec z reg Cons.IH [of pos']
    by (cases r) (simp_all add: apply_validator_def export_validator_def register_all_def stuck)
qed (simp add: register_all_def)

lemma map_of_nonempty:
  assumes "wf_hmap m"
  shows "map_of (filter (\<lambda>(_, x). P x) m) b = (case hget m b of None \<Rightarrow> None | Some x \<Rightarrow> if P x then Some x else None)"
  using assms
proof (induction m)
  case (Cons e m)
  then have "wf_hmap m" "hget m (fst e) = None" by (simp_all add: wf_hmap_def map_of_eq_None_iff)
  with Cons.IH show ?case by (cases e) auto
qed simp

lemma get_code_absent: "ac_code_hash (get_account s a) = 0 \<Longrightarrow> get_code s a = []"
  by (simp add: get_code_def)

text \<open>Validators that meet the limits of a registry without validators are all registered.\<close>

definition registrable :: "ProofOfStake \<Rightarrow> Validator \<Rightarrow> bool" where
  "registrable pos v \<longleftrightarrow> min_validator_stake (ps_config pos) \<le> v_stake v \<and> vs_min_stake (ps_validators pos) \<le> v_stake v
     \<and> v_commission v \<le> max_commission (ps_config pos)"

lemma register_registrable:
  assumes "registrable pos v"
  shows "\<exists>pos'. register_validator (v_address v) (v_pubkey v) (v_stake v) (v_commission v) pos = (pos', Inr ())
    \<and> (\<forall>w. registrable pos' w \<longleftrightarrow> registrable pos w)
    \<and> vs_get (ps_validators pos') = (vs_get (ps_validators pos))(v_address v \<mapsto>
        (Validator_new (v_address v) (v_pubkey v) (v_stake v))\<lparr>v_commission := v_commission v\<rparr>)"
  using assms
  by (auto simp: registrable_def register_validator_def add_validator_def Validator_new_def vs_get_def Let_def not_less)

lemma register_all_registrable:
  assumes "\<forall>v \<in> set vs. registrable pos v" and "distinct (map v_address vs)"
  shows "snd (register_all gl vs pos) = Inr ()
    \<and> (\<forall>v \<in> set vs. vs_get (ps_validators (fst (register_all gl vs pos))) (v_address v)
          = Some ((Validator_new (v_address v) (v_pubkey v) (v_stake v))\<lparr>v_commission := v_commission v\<rparr>))
    \<and> (\<forall>a. a \<notin> v_address ` set vs \<longrightarrow>
          vs_get (ps_validators (fst (register_all gl vs pos))) a = vs_get (ps_validators pos) a)"
  using assms
proof (induction vs arbitrary: pos)
  case (Cons v vs)
  obtain pos' where p: "register_validator (v_address v) (v_pubkey v) (v_stake v) (v_commission v) pos = (pos', Inr ())"
      "\<forall>w. registrable pos' w \<longleftrightarrow> registrable pos w"
      "vs_get (ps_validators pos') = (vs_get (ps_validators pos))(v_address v \<mapsto>
        (Validator_new (v_address v) (v_pubkey v) (v_stake v))\<lparr>v_commission := v_commission v\<rparr>)"
    using register_registrable [of pos v] Cons.prems(1) by auto
  have "register_all gl (v # vs) pos = register_all gl vs pos'" by (simp add: register_all_def p(1))
  with Cons.IH [of pos'] Cons.prems p(2,3) show ?case by auto
qed (simp add: register_all_def)

lemma active_validators_distinct: "vs_ok vs \<Longrightarrow> distinct (map v_address (active_validators vs))"
proof -
  assume ok: "vs_ok vs"
  then have "map v_address (hvalues (vs_validators vs)) = map fst (vs_validators vs)"
    by (auto simp: vs_ok_def hvalues_def)
  then have "distinct (map v_address (hvalues (vs_validators vs)))" using ok by (simp add: vs_ok_def wf_hmap_def)
  then show ?thesis by (simp add: active_validators_def distinct_map_filter)
qed

section \<open>Properties\<close>

text \<open>
  (C25) \<^bold>\<open>An exported genesis restores the accounts, but not their storage\<close>. Exporting a state returns, and
  applying the exported document to an empty database returns and gives every address the balance, nonce and code it had
  in the exported state, accounts that have only a nonce included. Every
  storage slot of the new database reads zero: the export writes no storage. The validators that were active are
  handed to the stake registry in order, up to the first that it refuses, whose refusal is the result. If
  every one of them meets the minimum stake and the maximum commission of the registry, the result is success, each is registered
  with its key, stake and commission, and the entries of other addresses stay. The hypotheses are that
  the decoder reads hexadecimal text, that accounts and validators are stored once under their address, and that the digest of the codes in
  use neither collides nor is zero.
\<close>

theorem genesis_export_restores:
  assumes "decodes_hex (gl_decode gl)" and "wf_hmap (sd_accounts st)"
    and "inj_on (code_key gl) (range (get_code st))" and "\<forall>a. get_code st a \<noteq> [] \<longrightarrow> code_key gl (get_code st a) \<noteq> 0"
    and "vs_ok (ps_validators pos)" and "act = active_validators (ps_validators pos)"
  shows "\<exists>cfg st' pos' r. export_genesis now st pos chain_id name = Ret cfg
    \<and> apply_genesis gl cfg (StateDb_new, pos0) = Ret ((st', pos'), r)
    \<and> (\<forall>a. get_balance st' a = get_balance st a \<and> get_nonce st' a = get_nonce st a \<and> get_code st' a = get_code st a)
    \<and> (\<forall>a k. get_storage st' a k = ZERO)
    \<and> (pos', r) = register_all gl act pos0
    \<and> ((\<forall>v \<in> set act. registrable pos0 v) \<longrightarrow> r = Inr ()
        \<and> (\<forall>v \<in> set act. vs_get (ps_validators pos') (v_address v)
              = Some ((Validator_new (v_address v) (v_pubkey v) (v_stake v))\<lparr>v_commission := v_commission v\<rparr>))
        \<and> (\<forall>a. a \<notin> v_address ` set act \<longrightarrow> vs_get (ps_validators pos') a = vs_get (ps_validators pos0) a))"
proof -
  let ?es = "filter (\<lambda>(_, acc). \<not> acc_is_empty acc) (sd_accounts st)"
  have "distinct (map fst ?es)" using assms(2) by (simp add: wf_hmap_def distinct_map_filter)
  moreover have "codes_ok gl (range (get_code st)) StateDb_new" by (simp add: codes_ok_def StateDb_new_def)
  ultimately obtain gs st' where r: "export_accounts st ?es = Ret gs" "apply_accounts gl gs StateDb_new = Ret (st', Inr ())"
      "\<And>b. get_account st' b = (case map_of ?es b of None \<Rightarrow> get_account StateDb_new b | Some acc \<Rightarrow> restored gl st b acc)"
      "\<forall>(a, acc) \<in> set ?es. get_code st a \<noteq> [] \<longrightarrow> hget (sd_code st') (code_key gl (get_code st a)) = Some (get_code st a)"
      "get_storage st' = get_storage StateDb_new"
    using apply_all_exported [OF assms(1), of ?es st "range (get_code st)" StateDb_new] assms(3) by auto
  have "get_balance st' a = get_balance st a \<and> get_nonce st' a = get_nonce st a \<and> get_code st' a = get_code st a" for a
  proof (cases "map_of ?es a")
    case None
    then have "hget (sd_accounts st) a = None \<or> (\<exists>acc. hget (sd_accounts st) a = Some acc \<and> acc_is_empty acc)"
      by (auto simp: map_of_nonempty [OF assms(2)] split: option.splits if_splits)
    then have "ac_balance (get_account st a) = ZERO \<and> ac_nonce (get_account st a) = 0 \<and> ac_code_hash (get_account st a) = 0"
      by (auto simp: get_account_def Account_EMPTY_def acc_is_empty_def)
    moreover have "get_account st' a = Account_EMPTY"
      using None unfolding r(3) by (simp add: get_account_def StateDb_new_def)
    ultimately show ?thesis by (simp add: get_balance_def get_nonce_def get_code_absent Account_EMPTY_def)
  next
    case (Some acc)
    then have "(a, acc) \<in> set ?es" "get_account st a = acc"
      using map_of_SomeD [OF Some] by (auto simp: get_account_def map_of_nonempty [OF assms(2)] split: option.splits if_splits)
    then show ?thesis
      using r(3) [of a] r(4) assms(4) Some
      by (auto simp: get_balance_def get_nonce_def restored_def get_code_def [of st'] )
  qed
  moreover have "get_storage st' a k = ZERO" for a k by (simp add: r(5) get_storage_def StateDb_new_def)
  moreover obtain pos' res where reg: "register_all gl act pos0 = (pos', res)" by fastforce
  ultimately show ?thesis
    using r(1,2) apply_validators_exported [OF assms(1)] register_all_registrable [OF _ active_validators_distinct [OF assms(5)], of pos0 gl]
    by (intro exI [of _ "_ :: GenesisConfig"] exI [of _ st'] exI [of _ pos'] exI [of _ res])
      (auto simp: export_genesis_def apply_genesis_def all_accounts_def Let_def assms(6))
qed

definition demo_genesis_lib :: genesis_lib where
  "demo_genesis_lib = \<lparr>gl_crypto = demo_lib\<lparr>keccak := \<lambda>c. of_nat (length c + 1)\<rparr>, gl_decode = ref_decoder, gl_debug = (\<lambda>_. [])\<rparr>"

definition demo_state :: StateDb where
  "demo_state = set_storage 5 ONE ONE (set_code (gl_crypto demo_genesis_lib) 5 [1]
     (set_account 5 \<lparr>ac_nonce = 1, ac_balance = from_u64 90, ac_code_hash = 0, ac_storage_root = 0\<rparr> StateDb_new))"

lemma demo_code_key: "code_key demo_genesis_lib [] = 1" "code_key demo_genesis_lib [1] = 2"
  by (simp_all add: demo_genesis_lib_def keccak256_def)

lemma demo_state_code: "get_code demo_state a = (if a = 5 then [1] else [])"
  using demo_code_key(2)
  by (simp add: demo_state_def get_code_def set_code_def set_account_def set_storage_def get_account_def
      StateDb_new_def Account_EMPTY_def Let_def hput_def)

definition demo_stake :: ProofOfStake where
  "demo_stake = (ProofOfStake_new StakingConfig_default)\<lparr>ps_validators := (ValidatorSet_new 0)
     \<lparr>vs_validators := [(3, Validator_new 3 [2] 30000000000)], vs_total_stake := 30000000000\<rparr>\<rparr>"

lemma demo_stake_facts:
  "vs_ok (ps_validators demo_stake)" "active_validators (ps_validators demo_stake) = [Validator_new 3 [2] 30000000000]"
  "registrable (ProofOfStake_new StakingConfig_default) (Validator_new 3 [2] 30000000000)"
  by (simp_all add: demo_stake_def ProofOfStake_new_def StakingConfig_default_def vs_ok_def wf_hmap_def active_validators_def hvalues_def
      is_eligible_def ValidatorSet_new_def Validator_new_def registrable_def)

theorem genesis_export_restores_witness:
  "\<exists>cfg st' pos'. export_genesis 0 demo_state demo_stake 1337 ''x'' = Ret cfg
    \<and> apply_genesis demo_genesis_lib cfg (StateDb_new, ProofOfStake_new StakingConfig_default) = Ret ((st', pos'), Inr ())
    \<and> get_balance st' 5 = from_u64 90 \<and> get_code st' 5 = [1]
    \<and> get_storage demo_state 5 ONE = ONE \<and> get_storage st' 5 ONE = ZERO
    \<and> vs_get (ps_validators pos') 3 = Some (Validator_new 3 [2] 30000000000)"
proof -
  have dec: "decodes_hex (gl_decode demo_genesis_lib)" using ref_decodes_hex by (simp add: demo_genesis_lib_def)
  have wf: "wf_hmap (sd_accounts demo_state)"
    by (simp add: demo_state_def set_storage_def set_code_def set_account_def StateDb_new_def Let_def)
  have "range (get_code demo_state) \<subseteq> {[], [1]}" by (auto simp: demo_state_code)
  then have inj: "inj_on (code_key demo_genesis_lib) (range (get_code demo_state))"
    by (rule inj_on_subset [rotated]) (simp add: demo_code_key)
  have nz: "\<forall>a. get_code demo_state a \<noteq> [] \<longrightarrow> code_key demo_genesis_lib (get_code demo_state a) \<noteq> 0"
    by (simp add: demo_state_code demo_code_key)
  have bal: "get_balance demo_state 5 = from_u64 90" "get_storage demo_state 5 ONE = ONE"
    by (simp_all add: demo_state_def get_balance_def set_code_fields)
  let ?pos = "ProofOfStake_new StakingConfig_default" and ?v = "Validator_new 3 [2] 30000000000"
  obtain cfg st' pos' r where g: "export_genesis 0 demo_state demo_stake 1337 ''x'' = Ret cfg"
      "apply_genesis demo_genesis_lib cfg (StateDb_new, ?pos) = Ret ((st', pos'), r)"
      "get_balance st' 5 = get_balance demo_state 5" "get_code st' 5 = get_code demo_state 5" "get_storage st' 5 ONE = ZERO"
      "(\<forall>v \<in> set [?v]. registrable ?pos v) \<longrightarrow> r = Inr () \<and> (\<forall>v \<in> set [?v]. vs_get (ps_validators pos') (v_address v)
              = Some ((Validator_new (v_address v) (v_pubkey v) (v_stake v))\<lparr>v_commission := v_commission v\<rparr>))"
    using genesis_export_restores [OF dec wf inj nz demo_stake_facts(1) demo_stake_facts(2) [symmetric], of 0 1337 "''x''" ?pos] by blast
  have "vs_get (ps_validators pos') 3 = Some ?v" "r = Inr ()" using g(6) demo_stake_facts(3) by (simp_all add: Validator_new_def)
  then show ?thesis using g(1-5) bal demo_state_code [of 5] by (intro exI [of _ cfg] exI [of _ st'] exI [of _ pos']) simp
qed

lemma le_val_zeros: "le_val (replicate n 0) = 0"
  by (induction n) simp_all

text \<open>
  \<^bold>\<open>Storage fields of odd length are read as zero\<close>. With a decoder that refuses text of odd length, as the
  crate documents, a storage slot or value such as \<open>0x1\<close> is read as zero without an error, while text
  of full width is read exactly.
\<close>

theorem genesis_hex_values:
  assumes "\<forall>t. odd (length t) \<longrightarrow> dec t = Inl OddLength" and "decodes_hex dec"
  shows "parse_u256_hex dec (''0x'' @ hex_encode (to_be_bytes x)) = x
    \<and> (odd (length (trim_0x s)) \<longrightarrow> parse_u256_hex dec s = ZERO)"
proof -
  have "parse_u256_hex dec (''0x'' @ hex_encode (to_be_bytes x)) = from_be_bytes (to_be_bytes x)"
    using decode_exported [OF assms(2), of "to_be_bytes x"]
    by (simp add: parse_u256_hex_def from_be_bytes_limbs of_limbs_def copy_into_def Let_def del: from_to_be_bytes)
  moreover have "parse_u256_hex dec s = ZERO" if "odd (length (trim_0x s))"
    using assms(1) that
    by (simp add: parse_u256_hex_def of_limbs_def copy_into_def Let_def ZERO_def u64_from_be_bytes_def be_val_def le_val_zeros)
  ultimately show ?thesis by simp
qed

theorem genesis_hex_values_witness:
  "parse_u256_hex ref_decoder ''0x1'' = ZERO \<and> parse_u256_hex ref_decoder (''0x'' @ hex_encode (to_be_bytes ONE)) = ONE"
  using genesis_hex_values [of ref_decoder ONE "''0x1''"] ref_decodes_hex by (simp add: ref_decoder_def)

end
