(* ===== verification/Sync.thy ===== *)
theory Sync
  imports Dag Bft
begin

text \<open>
  The network protocol and the sync manager, \<^verbatim>\<open>src/crates/nexus-network/src/protocol.rs\<close> and
  \<^verbatim>\<open>src/crates/nexus-network/src/sync.rs\<close>: requests, responses, the answer to a request and the
  bookkeeping of requests in flight. The provider of pending transactions and the shared pointer to
  the finalized vertex are a function and a value of the state. The loop over heights counts with
  wrapping 64-bit integers and need not end; it is a partial function, and the value \<open>None\<close> is a call
  that does not return.
\<close>

section \<open>Protocol\<close>

definition NETWORK_PROTOCOL_VERSION :: u32 where "NETWORK_PROTOCOL_VERSION = 1"

datatype SyncRequest =
    GetVertices "Hash list"
  | GetVerticesSince u64 u32
  | GetTransactions "Hash list"
  | GetTips
  | GetFinalized

datatype SyncResponse =
    Vertices "Vertex list"
  | TransactionsResponse "Transaction list"
  | Tips "Hash list"
  | FinalizedResponse "Hash option"
  | ErrorResponse string

datatype NetworkMessage =
    NewTransaction Transaction
  | NewVertex Vertex
  | ConsensusMessage BftMessage
  | SyncRequestMessage SyncRequest
  | SyncResponseMessage SyncResponse
  | Ping u64
  | Pong u64

datatype NetworkError =
    ConnectionFailed string
  | PeerNotFound string
  | ProtocolError string
  | NetSerializationError string
  | Timeout
  | ChannelClosed

type_synonym 'a NetworkResult = "NetworkError + 'a"

section \<open>The sync manager\<close>

datatype SyncState = Idle | Syncing | Synced

record SyncConfig =
  sc_batch_size :: u32
  sc_max_concurrent :: nat
  sc_timeout :: u64
  sc_min_peers :: nat

definition SyncConfig_default :: SyncConfig where
  "SyncConfig_default = \<lparr>sc_batch_size = 100, sc_max_concurrent = 4, sc_timeout = 30, sc_min_peers = 1\<rparr>"

record SyncManager =
  sy_config :: SyncConfig
  sy_dag :: Dag
  sy_state :: SyncState
  sy_pending_requests :: "Hash list"
  sy_in_flight :: nat
  sy_tx_provider :: "(Hash list \<Rightarrow> Transaction list) option"
  sy_finalized_tip :: "Hash option option"

definition SyncManager_new :: "SyncConfig \<Rightarrow> Dag \<Rightarrow> SyncManager" where
  "SyncManager_new cfg dag =
     \<lparr>sy_config = cfg, sy_dag = dag, sy_state = Idle, sy_pending_requests = [], sy_in_flight = 0,
      sy_tx_provider = None, sy_finalized_tip = None\<rparr>"

definition set_tx_provider :: "(Hash list \<Rightarrow> Transaction list) \<Rightarrow> SyncManager \<Rightarrow> SyncManager" where
  "set_tx_provider f s = s\<lparr>sy_tx_provider := Some f\<rparr>"

definition set_finalized_tip :: "Hash option \<Rightarrow> SyncManager \<Rightarrow> SyncManager" where
  "set_finalized_tip tip s = s\<lparr>sy_finalized_tip := Some tip\<rparr>"

text \<open>The vertices of one height, until the limit is reached, and the loop over the heights.\<close>

fun push_level :: "Dag \<Rightarrow> nat \<Rightarrow> Hash list \<Rightarrow> Vertex list \<Rightarrow> Vertex list" where
  "push_level d limit [] vs = vs"
| "push_level d limit (h # hs) vs =
     (let vs = (case get_vertex d h of None \<Rightarrow> vs | Some v \<Rightarrow> vs @ [v])
      in if length vs \<ge> limit then vs else push_level d limit hs vs)"

partial_function (option) since_loop :: "Dag \<Rightarrow> nat \<Rightarrow> u64 \<Rightarrow> u64 \<Rightarrow> Vertex list \<Rightarrow> Vertex list option" where
  "since_loop d limit current h vs =
     (if h \<le> current \<and> length vs < limit
      then since_loop d limit current (h + 1) (push_level d limit (get_vertices_at_height d h) vs)
      else Some vs)"

definition handle_request :: "SyncRequest \<Rightarrow> SyncManager \<Rightarrow> SyncResponse option" where
  "handle_request req s =
     (case req of
        GetVertices hashes \<Rightarrow> Some (Vertices (List.map_filter (get_vertex (sy_dag s)) hashes))
      | GetVerticesSince height limit \<Rightarrow>
          map_option Vertices (since_loop (sy_dag s) (unat limit) (latest_height (sy_dag s)) (height + 1) [])
      | GetTransactions hashes \<Rightarrow>
          Some (TransactionsResponse (case sy_tx_provider s of Some provider \<Rightarrow> provider hashes | None \<Rightarrow> []))
      | GetTips \<Rightarrow> Some (Tips (get_tips (sy_dag s)))
      | GetFinalized \<Rightarrow> Some (FinalizedResponse (case sy_finalized_tip s of Some tip \<Rightarrow> tip | None \<Rightarrow> None)))"

fun add_synced :: "crypto_lib \<Rightarrow> Timestamp list \<Rightarrow> Vertex list \<Rightarrow> Dag \<Rightarrow> Dag option" where
  "add_synced lib ts [] d = Some d"
| "add_synced lib ts (v # vs) d =
     (case add_vertex lib (case ts of [] \<Rightarrow> 0 | t # _ \<Rightarrow> t) v d of None \<Rightarrow> None
      | Some (d, _) \<Rightarrow> add_synced lib (tl ts) vs d)"

text \<open>Handling a response; \<open>ts\<close> are the clock readings of the insertions.\<close>

definition handle_response :: "crypto_lib \<Rightarrow> Timestamp list \<Rightarrow> SyncResponse \<Rightarrow> SyncManager \<Rightarrow> (SyncManager \<times> unit NetworkResult) option" where
  "handle_response lib ts response s =
     (case response of
        Vertices vs \<Rightarrow>
          map_option (\<lambda>d. (s\<lparr>sy_dag := d, sy_in_flight := sy_in_flight s - 1\<rparr>, Inr ())) (add_synced lib ts vs (sy_dag s))
      | Tips tips \<Rightarrow>
          Some (s\<lparr>sy_pending_requests := sy_pending_requests s @ filter (\<lambda>t. get_vertex (sy_dag s) t = None) tips\<rparr>, Inr ())
      | ErrorResponse msg \<Rightarrow> Some (s\<lparr>sy_in_flight := sy_in_flight s - 1\<rparr>, Inr ())
      | TransactionsResponse _ \<Rightarrow> Some (s, Inr ())
      | FinalizedResponse _ \<Rightarrow> Some (s, Inr ()))"

definition next_request :: "SyncManager \<Rightarrow> SyncManager \<times> SyncRequest option" where
  "next_request s =
     (if sy_in_flight s \<ge> sc_max_concurrent (sy_config s) then (s, None)
      else let n = unat (sc_batch_size (sy_config s));
               batch = take n (sy_pending_requests s);
               s = s\<lparr>sy_pending_requests := drop n (sy_pending_requests s)\<rparr>
           in if batch = [] then (s, None)
              else (s\<lparr>sy_in_flight := sy_in_flight s + 1\<rparr>, Some (GetVertices batch)))"

definition is_synced :: "SyncManager \<Rightarrow> bool" where
  "is_synced s \<longleftrightarrow> sy_state s = Synced"

definition start_sync :: "SyncManager \<Rightarrow> SyncManager" where
  "start_sync s = s\<lparr>sy_state := Syncing\<rparr>"

definition mark_synced :: "SyncManager \<Rightarrow> SyncManager" where
  "mark_synced s = s\<lparr>sy_state := Synced\<rparr>"

section \<open>The loop over heights\<close>

definition level :: "Dag \<Rightarrow> nat \<Rightarrow> Vertex list" where
  "level d k = List.map_filter (get_vertex d) (get_vertices_at_height d (of_nat k))"

lemma push_level_take:
  "length vs < limit \<Longrightarrow> push_level d limit hs vs = take limit (vs @ List.map_filter (get_vertex d) hs)"
proof (induction hs arbitrary: vs)
  case (Cons h hs)
  obtain k where k: "limit - length vs = Suc k" using Cons.prems by (cases "limit - length vs") simp_all
  then have "limit - Suc (length vs) = k" by simp
  with Cons k show ?case
    by (cases "get_vertex d h") (auto simp: Let_def List.map_filter_simps not_le)
qed (simp add: List.map_filter_simps)

lemma unat_plus_one: "x < - 1 \<Longrightarrow> unat (x + 1 :: u64) = Suc (unat x)"
proof -
  assume "x < - 1"
  have "unat (- 1 :: u64) = 2 ^ 64 - 1" by (simp add: unsigned_minus_1_eq_mask mask_eq_exp_minus_1)
  with \<open>x < - 1\<close> have "unat x < 2 ^ 64 - 1" by (simp only: word_less_nat_alt)
  then show ?thesis by (simp add: unat_add_no_overflow)
qed

lemma since_loop_take:
  assumes "current < - 1" and "length vs \<le> limit"
  shows "since_loop d limit current h vs = Some (take limit (vs @ concat (map (level d) [unat h..<Suc (unat current)])))"
  using assms(2)
proof (induction "Suc (unat current) - unat h" arbitrary: h vs)
  case 0
  then have "\<not> h \<le> current" by (simp add: word_le_nat_alt)
  with 0 show ?case by (subst since_loop.simps) simp
next
  case (Suc n)
  then have le: "unat h \<le> unat current" by simp
  then have "h \<le> current" by (simp add: word_le_nat_alt)
  from \<open>h \<le> current\<close> assms(1) have h: "unat (h + 1) = Suc (unat h)" by (intro unat_plus_one) simp
  have up: "[unat h..<Suc (unat current)] = unat h # [Suc (unat h)..<Suc (unat current)]"
    using le by (simp add: upt_conv_Cons)
  show ?case
  proof (cases "length vs < limit")
    case True
    let ?vs = "push_level d limit (get_vertices_at_height d h) vs"
    have push: "?vs = take limit (vs @ level d (unat h))" using push_level_take [OF True] by (simp add: level_def)
    have "since_loop d limit current h vs = since_loop d limit current (h + 1) ?vs"
      using True \<open>h \<le> current\<close> by (subst since_loop.simps) simp
    also have "\<dots> = Some (take limit (?vs @ concat (map (level d) [unat (h + 1)..<Suc (unat current)])))"
      using Suc(1) [of "h + 1" ?vs] Suc(2) h push by simp
    also have "\<dots> = Some (take limit (vs @ level d (unat h) @ concat (map (level d) [Suc (unat h)..<Suc (unat current)])))"
      unfolding push h by (simp add: take_append min_def)
    finally show ?thesis by (simp add: up del: upt_Suc)
  next
    case False
    with Suc.prems show ?thesis by (subst since_loop.simps) simp
  qed
qed

lemma set_map_filter_Some: "set (List.map_filter f xs) = {y. \<exists>x\<in>set xs. f x = Some y}"
  by (induction xs) (auto simp: List.map_filter_simps split: option.splits)

lemma set_level:
  assumes "dag_graph d" and "k < 2 ^ 64"
  shows "set (level d k) = {v. (\<exists>h. get_vertex d h = Some v) \<and> unat (vx_height v) = k}"
proof -
  have k: "unat (of_nat k :: u64) = k" using assms(2) by (simp add: unat_of_nat take_bit_nat_eq_self)
  have eq: "vx_height v = of_nat k \<longleftrightarrow> unat (vx_height v) = k" for v
    unfolding word_unat_eq_iff k ..
  have hs: "h \<in> set (get_vertices_at_height d (of_nat k))
      \<longleftrightarrow> (\<exists>v. get_vertex d h = Some v \<and> unat (vx_height v) = k)" for h
    using assms(1) by (simp add: dag_graph_def get_vertex_def eq)
  have "set (level d k) = {v. \<exists>h\<in>set (get_vertices_at_height d (of_nat k)). get_vertex d h = Some v}"
    unfolding level_def by (rule set_map_filter_Some)
  also have "\<dots> = {v. (\<exists>h. get_vertex d h = Some v) \<and> unat (vx_height v) = k}" unfolding Bex_def hs by fastforce
  finally show ?thesis .
qed

lemma sorted_levels:
  assumes "\<And>k v. k \<in> set ks \<Longrightarrow> v \<in> set (f k) \<Longrightarrow> unat (vx_height v) = k" and "sorted ks"
  shows "sorted (map (unat \<circ> vx_height) (concat (map f ks)))"
  using assms
proof (induction ks)
  case (Cons k ks)
  have "map (\<lambda>v. unat (vx_height v)) (f k) = replicate (length (f k)) k"
    using Cons.prems(1) by (intro nth_equalityI) (auto simp: in_set_conv_nth)
  moreover have "k \<le> unat (vx_height v)" if "j \<in> set ks" "v \<in> set (f j)" for j v
    using that Cons.prems by fastforce
  ultimately show ?case using Cons by (auto simp: sorted_append sorted_replicate)
qed simp

lemma distinct_stored:
  assumes "dag_graph d" and "distinct hs"
  shows "distinct (List.map_filter (get_vertex d) hs)"
proof -
  have key: "vx_hash v = h" if "get_vertex d h = Some v" for h v
    using that assms(1) by (simp add: dag_graph_def get_vertex_def)
  show ?thesis
    using assms(2)
  proof (induction hs)
    case (Cons h hs)
    show ?case
    proof (cases "get_vertex d h")
      case (Some v)
      have "v \<notin> set (List.map_filter (get_vertex d) hs)"
        using Cons.prems Some key by (auto simp: set_map_filter_Some)
      with Some Cons show ?thesis by (simp add: List.map_filter_simps)
    qed (use Cons in \<open>simp add: List.map_filter_simps\<close>)
  qed (simp add: List.map_filter_simps)
qed

lemma distinct_levels:
  assumes "\<And>k v. k \<in> set ks \<Longrightarrow> v \<in> set (f k) \<Longrightarrow> unat (vx_height v) = k" and "distinct ks" and "\<And>k. k \<in> set ks \<Longrightarrow> distinct (f k)"
  shows "distinct (concat (map f ks))"
  using assms
proof (induction ks)
  case (Cons k ks)
  have "v \<notin> set (f j)" if "v \<in> set (f k)" "j \<in> set ks" for v j
    using Cons.prems(1) [of k v] Cons.prems(1) [of j v] Cons.prems(2) that by auto
  then have "set (f k) \<inter> (\<Union>j\<in>set ks. set (f j)) = {}" by blast
  with Cons show ?case by simp
qed simp

text \<open>The loop starts at the height behind the requested one, which is zero behind the last 64-bit value.\<close>

lemma unat_next: "unat (x + 1 :: u64) = (if x = - 1 then 0 else Suc (unat x))"
  using unat_plus_one [of x] max_word_max [of x] by (simp add: order.strict_iff_order)

lemma since_loop_exact:
  fixes height :: u64
  assumes "dag_graph d" and "levels_distinct d" and "latest_height d < - 1"
  defines "all \<equiv> concat (map (level d) [unat (height + 1)..<Suc (unat (latest_height d))])"
  shows "since_loop d limit (latest_height d) (height + 1) [] = Some (take limit all)"
    and "sorted (map (unat \<circ> vx_height) all)" and "distinct all"
    and "set all = {v. (\<exists>h. get_vertex d h = Some v) \<and> (height = - 1 \<or> height < vx_height v) \<and> vx_height v \<le> latest_height d}"
proof -
  have lev: "set (level d k) = {v. (\<exists>h. get_vertex d h = Some v) \<and> unat (vx_height v) = k}"
    if "k \<le> unat (latest_height d)" for k
    using that unsigned_less [where 'a = nat, of "latest_height d"] by (intro set_level [OF assms(1)]) simp
  show "since_loop d limit (latest_height d) (height + 1) [] = Some (take limit all)"
    using since_loop_take [OF assms(3), of "[]" limit d "height + 1"] by (simp add: all_def)
  show "sorted (map (unat \<circ> vx_height) all)"
    unfolding all_def using lev by (intro sorted_levels) (auto simp del: upt_Suc)
  show "distinct all"
    unfolding all_def using lev assms(2) distinct_stored [OF assms(1)]
    by (intro distinct_levels) (auto simp: level_def levels_distinct_def simp del: upt_Suc)
  show "set all = {v. (\<exists>h. get_vertex d h = Some v) \<and> (height = - 1 \<or> height < vx_height v) \<and> vx_height v \<le> latest_height d}"
    unfolding all_def unat_next using lev
    by (auto simp: word_less_nat_alt word_le_nat_alt Suc_le_eq simp del: upt_Suc split: if_splits)
qed

section \<open>The manager as a state machine\<close>

datatype sync_op = SyOpResponse "Timestamp list" SyncResponse | SyOpNext | SyOpStart | SyOpMark

fun sync_op_vertices :: "sync_op \<Rightarrow> Vertex set" where
  "sync_op_vertices (SyOpResponse ts (Vertices vs)) = set vs"
| "sync_op_vertices _ = {}"

fun sync_step :: "crypto_lib \<Rightarrow> sync_op \<Rightarrow> SyncManager \<Rightarrow> SyncManager option" where
  "sync_step lib (SyOpResponse ts r) s = map_option fst (handle_response lib ts r s)"
| "sync_step lib SyOpNext s = Some (fst (next_request s))"
| "sync_step lib SyOpStart s = Some (start_sync s)"
| "sync_step lib SyOpMark s = Some (mark_synced s)"

fun sync_run :: "crypto_lib \<Rightarrow> sync_op list \<Rightarrow> SyncManager \<Rightarrow> SyncManager option" where
  "sync_run lib [] s = Some s"
| "sync_run lib (op # ops) s = (case sync_step lib op s of None \<Rightarrow> None | Some s \<Rightarrow> sync_run lib ops s)"

definition sync_inv :: "crypto_lib \<Rightarrow> Vertex \<Rightarrow> Vertex set \<Rightarrow> SyncManager \<Rightarrow> bool" where
  "sync_inv lib g V s \<longleftrightarrow> dag_reach lib g V (sy_dag s) \<and> sy_in_flight s \<le> sc_max_concurrent (sy_config s)"

lemma kept_refl [simp]: "kept d d"
  by (simp add: kept_def)

lemma add_synced_reach:
  assumes "inj_on (blake3 lib) (vertex_bytes lib ` checked lib V)" and "set vs \<subseteq> V" and "dag_reach lib g V d"
  shows "\<exists>d'. add_synced lib ts vs d = Some d' \<and> dag_reach lib g V d' \<and> kept d d'"
  using assms(2,3)
proof (induction vs arbitrary: ts d)
  case (Cons v vs)
  let ?now = "case ts of [] \<Rightarrow> 0 | t # _ \<Rightarrow> t"
  obtain d1 r where d1: "add_vertex lib ?now v d = Some (d1, r)" "dag_reach lib g V d1" "kept d d1"
    using add_vertex_reach [OF assms(1) _ Cons.prems(2), of v ?now] Cons.prems(1) by auto
  from Cons.IH [OF _ d1(2)] Cons.prems(1) obtain d2
    where "add_synced lib (tl ts) vs d1 = Some d2" "dag_reach lib g V d2" "kept d1 d2" by auto
  with d1 show ?case using kept_trans by auto
qed simp

lemma sync_step_inv:
  assumes "inj_on (blake3 lib) (vertex_bytes lib ` checked lib V)" and "sync_op_vertices op \<subseteq> V" and "sync_inv lib g V s"
  shows "\<exists>s'. sync_step lib op s = Some s' \<and> sync_inv lib g V s' \<and> kept (sy_dag s) (sy_dag s')
    \<and> sy_config s' = sy_config s"
proof (cases op)
  case (SyOpResponse ts r)
  show ?thesis
  proof (cases r)
    case (Vertices vs)
    then obtain d' where "add_synced lib ts vs (sy_dag s) = Some d'" "dag_reach lib g V d'" "kept (sy_dag s) d'"
      using add_synced_reach [OF assms(1), of vs g "sy_dag s" ts] assms SyOpResponse by (auto simp: sync_inv_def)
    with assms Vertices SyOpResponse show ?thesis by (auto simp: handle_response_def sync_inv_def)
  qed (use assms SyOpResponse in \<open>auto simp: handle_response_def sync_inv_def\<close>)
qed (use assms in \<open>auto simp: sync_inv_def next_request_def start_sync_def mark_synced_def Let_def\<close>)

lemma sync_run_inv:
  assumes "inj_on (blake3 lib) (vertex_bytes lib ` checked lib V)" and "\<Union> (sync_op_vertices ` set ops) \<subseteq> V"
    and "sync_inv lib g V s"
  shows "\<exists>s'. sync_run lib ops s = Some s' \<and> sync_inv lib g V s' \<and> kept (sy_dag s) (sy_dag s')
    \<and> sy_config s' = sy_config s"
  using assms(2,3)
proof (induction ops arbitrary: s)
  case (Cons op ops)
  obtain s1 where s1: "sync_step lib op s = Some s1" "sync_inv lib g V s1" "kept (sy_dag s) (sy_dag s1)"
      "sy_config s1 = sy_config s"
    using sync_step_inv [OF assms(1) _ Cons.prems(2), of op] Cons.prems(1) by auto
  from Cons.IH [OF _ s1(2)] Cons.prems(1) obtain s2 where "sync_run lib ops s1 = Some s2" "sync_inv lib g V s2"
      "kept (sy_dag s1) (sy_dag s2)" "sy_config s2 = sy_config s1" by auto
  with s1 show ?case using kept_trans by auto
qed simp

lemma sync_run_append:
  "sync_run lib (xs @ ys) s = (case sync_run lib xs s of None \<Rightarrow> None | Some t \<Rightarrow> sync_run lib ys t)"
  by (induction lib xs s rule: sync_run.induct) (auto split: option.split)

section \<open>Properties\<close>

text \<open>
  (C22) \<^bold>\<open>A request for the vertices above a height is answered exactly\<close>. On a well-formed DAG whose height
  has not reached the last 64-bit value, the answer to \<open>GetVerticesSince\<close> returns and is a prefix, cut
  at the requested limit, of a list that holds each stored vertex above the given height and
  up to the latest height exactly once, in the order of their heights. The given height is increased with wrap-around: a
  request for the vertices since the last 64-bit value is answered with the vertices from height zero on.
\<close>

theorem sync_since_exact:
  assumes "dag_graph (sy_dag s)" and "levels_distinct (sy_dag s)" and "latest_height (sy_dag s) < - 1"
  shows "\<exists>all. handle_request (GetVerticesSince height limit) s = Some (Vertices (take (unat limit) all))
    \<and> sorted (map (unat \<circ> vx_height) all) \<and> distinct all
    \<and> set all = {v. (\<exists>h. get_vertex (sy_dag s) h = Some v)
                   \<and> (height = - 1 \<or> height < vx_height v) \<and> vx_height v \<le> latest_height (sy_dag s)}"
  unfolding handle_request_def using since_loop_exact [OF assms]
  by (intro exI [of _ "concat (map (level (sy_dag s)) [unat (height + 1)..<Suc (unat (latest_height (sy_dag s)))])"])
    (simp del: upt_Suc)

definition demo_chain :: Dag where
  "demo_chain = demo_dag\<lparr>dg_vertices := [(0, Vertex_genesis 1 0), (7, demo_vertex [0] 1 7), (9, demo_vertex [7] 2 9)],
     dg_status := [(0, StatusFinalized), (9, Confirmed), (7, Confirmed)],
     dg_children := [(0, [7]), (7, [9])], dg_tips := [9],
     dg_by_height := [(0, [0]), (1, [7]), (2, [9])]\<rparr>"

lemma demo_chain_graph: "dag_graph demo_chain" "levels_distinct demo_chain"
proof -
  let ?subs = "[(1000, demo_vertex [7] 2 9), (1000, demo_vertex [0] 1 7)]"
  have sub: "snd ` set ?subs \<subseteq> {demo_vertex [7] 2 9, demo_vertex [0] 1 7}" by simp
  show "dag_graph demo_chain"
    using submit_all_reach [OF demo_digest sub demo_dag_reach] demo_submissions reach_graph by (auto simp: demo_chain_def)
  show "levels_distinct demo_chain"
    using submit_all_levels [OF demo_submissions] init_genesis_levels by (simp add: demo_chain_def demo_dag_def)
qed

lemma demo_chain_latest: "latest_height demo_chain = 2"
  by (simp add: demo_chain_def latest_height_def List.map_filter_simps demo_vertex_def)

theorem sync_since_exact_witness:
  "\<exists>all. handle_request (GetVerticesSince 0 5) (SyncManager_new SyncConfig_default demo_chain)
      = Some (Vertices (take 5 all)) \<and> demo_vertex [0] 1 7 \<in> set all"
proof -
  let ?s = "SyncManager_new SyncConfig_default demo_chain"
  have d: "sy_dag ?s = demo_chain" by (simp add: SyncManager_new_def)
  have lt: "(2 :: u64) < - 1" by code_simp
  obtain all where all: "handle_request (GetVerticesSince 0 5) ?s = Some (Vertices (take (unat (5 :: u32)) all))"
      "set all = {v. (\<exists>h. get_vertex demo_chain h = Some v) \<and> ((0 :: u64) = - 1 \<or> 0 < vx_height v) \<and> vx_height v \<le> 2}"
    using sync_since_exact [of ?s 0 5] demo_chain_graph lt by (auto simp only: d demo_chain_latest)
  have "get_vertex demo_chain 7 = Some (demo_vertex [0] 1 7)"
    by (simp add: get_vertex_def demo_chain_def)
  then have "demo_vertex [0] 1 7 \<in> set all" using all(2) by (force simp: demo_vertex_def)
  moreover have "unat (5 :: u32) = 5" by simp
  ultimately show ?thesis using all(1) by (metis (no_types))
qed

text \<open>
  (C23) \<^bold>\<open>Syncing keeps the ledger well formed and the number of open requests bounded\<close>. Whatever responses
  arrive, with forged vertices or not, in whatever order, interleaved with requests for more work and at whatever clock readings,
  the manager returns from every call, its DAG stays well formed and acyclic, and no more than the
  configured number of requests is in flight. Every vertex it stores except genesis was received, passes the
  structure check and is stored under the digest of its own contents, and no stored vertex is lost between any
  two points of the run. The hypothesis is that the digest does not collide on the contents of the received
  vertices that pass the check.
\<close>

theorem sync_runs_safe:
  assumes "is_genesis g" and "V = \<Union> (sync_op_vertices ` set ops)" and "inj_on (blake3 lib) (vertex_bytes lib ` checked lib V)"
    and "s = SyncManager_new cfg (fst (init_genesis g (Dag_new dcfg)))"
  shows "\<exists>s'. sync_run lib ops s = Some s'
    \<and> dag_graph (sy_dag s') \<and> acyclic (parent_rel (sy_dag s')) \<and> sy_in_flight s' \<le> sc_max_concurrent cfg
    \<and> (\<forall>h v. get_vertex (sy_dag s') h = Some v \<and> h \<noteq> vx_hash g \<longrightarrow> v \<in> V \<and> verify_structure lib v = Inr ()
         \<and> h = vertex_hash lib (vx_parents v) (map (tx_hash lib) (vx_transactions v)) (vx_timestamp v) (vx_validator v))
    \<and> (\<forall>xs ys. ops = xs @ ys \<longrightarrow> (\<exists>t. sync_run lib xs s = Some t \<and> kept (sy_dag t) (sy_dag s')))"
proof -
  have inv: "sync_inv lib g V s"
    using init_genesis_reach [OF assms(1)] assms(4) by (simp add: sync_inv_def SyncManager_new_def)
  obtain s' where s': "sync_run lib ops s = Some s'" "sync_inv lib g V s'" "sy_config s' = sy_config s"
    using sync_run_inv [OF assms(3) _ inv, of ops] assms(2) by auto
  have reach: "dag_reach lib g V (sy_dag s')" using s'(2) by (simp add: sync_inv_def)
  have "\<exists>t. sync_run lib xs s = Some t \<and> kept (sy_dag t) (sy_dag s')" if "ops = xs @ ys" for xs ys
  proof -
    have parts: "\<Union> (sync_op_vertices ` set xs) \<subseteq> V" "\<Union> (sync_op_vertices ` set ys) \<subseteq> V"
      using that assms(2) by auto
    obtain t where t: "sync_run lib xs s = Some t" "sync_inv lib g V t"
      using sync_run_inv [OF assms(3) parts(1) inv] by blast
    obtain u where "sync_run lib ys t = Some u" "kept (sy_dag t) (sy_dag u)"
      using sync_run_inv [OF assms(3) parts(2) t(2)] by blast
    with t s'(1) that show ?thesis by (simp add: sync_run_append)
  qed
  moreover have "sy_in_flight s' \<le> sc_max_concurrent cfg"
    using s'(2,3) assms(4) by (simp add: sync_inv_def SyncManager_new_def)
  ultimately show ?thesis using s'(1) reach_graph [OF reach] dag_acyclic reach_contents [OF reach] by blast
qed

theorem sync_runs_safe_witness:
  "\<exists>s'. sync_run demo_lib [SyOpResponse [1000, 1000] (Vertices [forged_vertex, demo_vertex [7] 2 9, demo_vertex [0] 1 7]), SyOpNext]
      (SyncManager_new SyncConfig_default demo_dag) = Some s'
    \<and> acyclic (parent_rel (sy_dag s')) \<and> sy_in_flight s' \<le> 4"
proof -
  let ?ops = "[SyOpResponse [1000, 1000] (Vertices [forged_vertex, demo_vertex [7] 2 9, demo_vertex [0] 1 7]), SyOpNext]"
  have V: "{forged_vertex, demo_vertex [7] 2 9, demo_vertex [0] 1 7} = \<Union> (sync_op_vertices ` set ?ops)" by simp
  show ?thesis
    using sync_runs_safe [OF demo_genesis V forged_digest refl, of SyncConfig_default DagConfig_default]
    by (auto simp: demo_dag_def SyncConfig_default_def)
qed

end
