(* ===== verification/Peers.thy ===== *)
theory Peers
  imports Crypto "HOL-Library.Multiset"
begin

text \<open>
  Peer management, \<^verbatim>\<open>src/crates/nexus-network/src/peer.rs\<close>: the table of known peers, their connection
  states, reputations and statistics. Reputations are signed 32-bit integers whose sum wraps before it
  is clamped; the concurrent tables are association lists.
\<close>

section \<open>State\<close>

type_synonym PeerId = string

datatype PeerState = Disconnected | Connecting | Connected | Banned

record PeerInfo =
  pi_id :: PeerId
  pi_addresses :: "string list"
  pi_protocol_version :: u32
  pi_agent :: string
  pi_is_validator :: bool
  pi_validator_address :: "Address option"
  pi_last_seen :: u64
  pi_state :: PeerState
  pi_reputation :: i32

record PeerStats =
  ps_messages_received :: u64
  ps_messages_sent :: u64
  ps_bytes_received :: u64
  ps_bytes_sent :: u64
  ps_latency_ms :: u32
  ps_failures :: u32

definition PeerStats_default :: PeerStats where
  "PeerStats_default = \<lparr>ps_messages_received = 0, ps_messages_sent = 0, ps_bytes_received = 0,
     ps_bytes_sent = 0, ps_latency_ms = 0, ps_failures = 0\<rparr>"

record PeerManager =
  pm_peers :: "(PeerId, PeerInfo) hmap"
  pm_stats :: "(PeerId, PeerStats) hmap"
  pm_max_peers :: nat
  pm_ban_duration :: u64

definition PeerManager_new :: "nat \<Rightarrow> PeerManager" where
  "PeerManager_new max_peers = \<lparr>pm_peers = [], pm_stats = [], pm_max_peers = max_peers, pm_ban_duration = 3600\<rparr>"

definition PeerManager_default :: PeerManager where
  "PeerManager_default = PeerManager_new 100"

section \<open>Operations\<close>

definition add_peer :: "PeerInfo \<Rightarrow> PeerManager \<Rightarrow> PeerManager" where
  "add_peer peer pm =
     (let pm = (if length (pm_peers pm) \<ge> pm_max_peers pm
                then pm\<lparr>pm_peers := filter (\<lambda>(_, p). pi_state p \<noteq> Disconnected) (pm_peers pm)\<rparr> else pm)
      in pm\<lparr>pm_peers := hput (pi_id peer) peer (pm_peers pm)\<rparr>)"

definition get_peer :: "PeerManager \<Rightarrow> PeerId \<Rightarrow> PeerInfo option" where
  "get_peer pm i = hget (pm_peers pm) i"

definition peer_set_state :: "PeerId \<Rightarrow> PeerState \<Rightarrow> PeerManager \<Rightarrow> PeerManager" where
  "peer_set_state i st pm =
     (case hget (pm_peers pm) i of None \<Rightarrow> pm
      | Some p \<Rightarrow> pm\<lparr>pm_peers := hput i (p\<lparr>pi_state := st\<rparr>) (pm_peers pm)\<rparr>)"

definition ban_peer :: "PeerId \<Rightarrow> PeerManager \<Rightarrow> PeerManager" where
  "ban_peer i pm =
     (case hget (pm_peers pm) i of None \<Rightarrow> pm
      | Some p \<Rightarrow> pm\<lparr>pm_peers := hput i (p\<lparr>pi_state := Banned, pi_reputation := - 1000\<rparr>) (pm_peers pm)\<rparr>)"

definition clamp_reputation :: "i32 \<Rightarrow> i32" where
  "clamp_reputation r = word_of_int (min (max (sint r) (- 1000)) 1000)"

definition adjust_peer :: "i32 \<Rightarrow> PeerInfo \<Rightarrow> PeerInfo" where
  "adjust_peer delta p =
     (let p = p\<lparr>pi_reputation := clamp_reputation (pi_reputation p + delta)\<rparr>
      in if sint (pi_reputation p) \<le> - 100 then p\<lparr>pi_state := Banned\<rparr> else p)"

definition update_reputation :: "PeerId \<Rightarrow> i32 \<Rightarrow> PeerManager \<Rightarrow> PeerManager" where
  "update_reputation i delta pm =
     (case hget (pm_peers pm) i of None \<Rightarrow> pm
      | Some p \<Rightarrow> pm\<lparr>pm_peers := hput i (adjust_peer delta p) (pm_peers pm)\<rparr>)"

definition connected_peers :: "PeerManager \<Rightarrow> PeerInfo list" where
  "connected_peers pm = filter (\<lambda>p. pi_state p = Connected) (map snd (pm_peers pm))"

definition validator_peers :: "PeerManager \<Rightarrow> PeerInfo list" where
  "validator_peers pm = filter (\<lambda>p. pi_state p = Connected \<and> pi_is_validator p) (map snd (pm_peers pm))"

definition best_peers :: "nat \<Rightarrow> PeerManager \<Rightarrow> PeerInfo list" where
  "best_peers n pm = take n (sort_key (\<lambda>p. - sint (pi_reputation p)) (connected_peers pm))"

definition entry_stats :: "PeerId \<Rightarrow> PeerManager \<Rightarrow> PeerStats" where
  "entry_stats i pm = (case hget (pm_stats pm) i of None \<Rightarrow> PeerStats_default | Some st \<Rightarrow> st)"

definition record_sent :: "PeerId \<Rightarrow> u64 \<Rightarrow> PeerManager \<Rightarrow> PeerManager" where
  "record_sent i bytes pm =
     (let st = entry_stats i pm; st = st\<lparr>ps_messages_sent := ps_messages_sent st + 1\<rparr>;
          pm = pm\<lparr>pm_stats := hput i st (pm_stats pm)\<rparr>
      in case hget (pm_stats pm) i of None \<Rightarrow> pm
         | Some st \<Rightarrow> pm\<lparr>pm_stats := hput i (st\<lparr>ps_bytes_sent := ps_bytes_sent st + bytes\<rparr>) (pm_stats pm)\<rparr>)"

definition record_received :: "PeerId \<Rightarrow> u64 \<Rightarrow> PeerManager \<Rightarrow> PeerManager" where
  "record_received i bytes pm =
     (let st = entry_stats i pm; st = st\<lparr>ps_messages_received := ps_messages_received st + 1\<rparr>;
          pm = pm\<lparr>pm_stats := hput i st (pm_stats pm)\<rparr>
      in case hget (pm_stats pm) i of None \<Rightarrow> pm
         | Some st \<Rightarrow> pm\<lparr>pm_stats := hput i (st\<lparr>ps_bytes_received := ps_bytes_received st + bytes\<rparr>) (pm_stats pm)\<rparr>)"

definition get_stats :: "PeerManager \<Rightarrow> PeerId \<Rightarrow> PeerStats option" where
  "get_stats pm i = hget (pm_stats pm) i"

definition connected_count :: "PeerManager \<Rightarrow> nat" where
  "connected_count pm = length (filter (\<lambda>p. pi_state p = Connected) (map snd (pm_peers pm)))"

definition total_count :: "PeerManager \<Rightarrow> nat" where
  "total_count pm = length (pm_peers pm)"

definition cleanup :: "u64 \<Rightarrow> u64 \<Rightarrow> PeerManager \<Rightarrow> PeerManager" where
  "cleanup now max_age pm =
     pm\<lparr>pm_peers := filter (\<lambda>(_, p). pi_state p = Connected \<or> now - pi_last_seen p < max_age) (pm_peers pm)\<rparr>"

section \<open>Reputation\<close>

lemma sint_small: "- 1000 \<le> k \<Longrightarrow> k \<le> 1000 \<Longrightarrow> sint (word_of_int k :: i32) = k"
  by (simp add: signed_take_bit_int_eq_self sint_sbintrunc')

lemma sint_clamp: "sint (clamp_reputation r) = min (max (sint r) (- 1000)) 1000"
  unfolding clamp_reputation_def by (rule sint_small) (auto simp: min_def max_def)

text \<open>A well-formed table: one entry per peer, under its own id, and a predicate of every entry.\<close>

definition peers_ok :: "(PeerInfo \<Rightarrow> bool) \<Rightarrow> PeerManager \<Rightarrow> bool" where
  "peers_ok P pm \<longleftrightarrow> wf_hmap (pm_peers pm) \<and> wf_hmap (pm_stats pm)
     \<and> (\<forall>i p. hget (pm_peers pm) i = Some p \<longrightarrow> pi_id p = i \<and> P p)"

datatype peer_op =
    OpAddPeer PeerInfo
  | OpSetState PeerId PeerState
  | OpBan PeerId
  | OpReputation PeerId i32
  | OpSent PeerId u64
  | OpReceived PeerId u64
  | OpCleanup u64 u64

fun peer_step :: "peer_op \<Rightarrow> PeerManager \<Rightarrow> PeerManager" where
  "peer_step (OpAddPeer p) pm = add_peer p pm"
| "peer_step (OpSetState i st) pm = peer_set_state i st pm"
| "peer_step (OpBan i) pm = ban_peer i pm"
| "peer_step (OpReputation i delta) pm = update_reputation i delta pm"
| "peer_step (OpSent i n) pm = record_sent i n pm"
| "peer_step (OpReceived i n) pm = record_received i n pm"
| "peer_step (OpCleanup now age) pm = cleanup now age pm"

lemma wf_hmap_filter [simp]: "wf_hmap m \<Longrightarrow> wf_hmap (filter f m)"
  by (simp add: wf_hmap_def distinct_map_filter)

lemma hget_filterD: "hget (filter f m) k = Some v \<Longrightarrow> wf_hmap m \<Longrightarrow> hget m k = Some v"
  by (simp add: hget_iff)

lemma peers_ok_filter: "peers_ok P pm \<Longrightarrow> peers_ok P (pm\<lparr>pm_peers := filter f (pm_peers pm)\<rparr>)"
  unfolding peers_ok_def by (auto dest: hget_filterD)

lemma peers_ok_put:
  "peers_ok P pm \<Longrightarrow> pi_id p = i \<Longrightarrow> P p \<Longrightarrow> peers_ok P (pm\<lparr>pm_peers := hput i p (pm_peers pm)\<rparr>)"
  by (simp add: peers_ok_def)

lemma adjust_peer_id [simp]: "pi_id (adjust_peer delta p) = pi_id p"
  by (simp add: adjust_peer_def Let_def)

text \<open>A predicate of peers that every change to a single entry keeps is an invariant of the table.\<close>

locale peer_predicate =
  fixes P :: "PeerInfo \<Rightarrow> bool" and settable :: "PeerState \<Rightarrow> bool"
  assumes on_set: "P p \<Longrightarrow> settable st \<Longrightarrow> P (p\<lparr>pi_state := st\<rparr>)"
    and on_ban: "P p \<Longrightarrow> P (p\<lparr>pi_state := Banned, pi_reputation := - 1000\<rparr>)"
    and on_adjust: "P p \<Longrightarrow> P (adjust_peer delta p)"
begin

fun admissible :: "peer_op \<Rightarrow> bool" where
  "admissible (OpAddPeer p) = P p"
| "admissible (OpSetState i st) = settable st"
| "admissible _ = True"

lemma step_keeps: "peers_ok P pm \<Longrightarrow> admissible op \<Longrightarrow> peers_ok P (peer_step op pm)"
proof (cases op)
  case (OpAddPeer p)
  assume ok: "peers_ok P pm" and "admissible op"
  with OpAddPeer have "P p" by simp
  from peers_ok_put [OF ok refl this] peers_ok_put [OF peers_ok_filter [OF ok] refl this] OpAddPeer
  show ?thesis by (simp add: add_peer_def Let_def)
next
  case (OpSetState i st)
  moreover assume "peers_ok P pm" "admissible op"
  ultimately show ?thesis
    by (auto simp: peer_set_state_def peers_ok_def intro: on_set split: option.splits)
next
  case (OpBan i)
  moreover assume "peers_ok P pm"
  ultimately show ?thesis by (auto simp: ban_peer_def peers_ok_def intro: on_ban split: option.splits)
next
  case (OpReputation i delta)
  moreover assume "peers_ok P pm"
  ultimately show ?thesis
    by (auto simp: update_reputation_def peers_ok_def intro: on_adjust split: option.splits)
next
  case (OpCleanup now age)
  moreover assume "peers_ok P pm"
  ultimately show ?thesis by (simp add: cleanup_def peers_ok_filter)
qed (auto simp: record_sent_def record_received_def peers_ok_def Let_def split: option.splits)

lemma run_keeps: "peers_ok P pm \<Longrightarrow> list_all admissible ops \<Longrightarrow> peers_ok P (fold peer_step ops pm)"
  by (induction ops arbitrary: pm) (auto intro: step_keeps)

end

definition in_range :: "PeerInfo \<Rightarrow> bool" where
  "in_range p \<longleftrightarrow> - 1000 \<le> sint (pi_reputation p) \<and> sint (pi_reputation p) \<le> 1000"

definition trusted :: "PeerInfo \<Rightarrow> bool" where
  "trusted p \<longleftrightarrow> in_range p \<and> (pi_state p = Connected \<longrightarrow> - 100 < sint (pi_reputation p))"

lemma sint_banned [simp]: "sint (- 1000 :: i32) = - 1000"
  using sint_small [of "- 1000"] by simp

interpretation ranged: peer_predicate in_range "\<lambda>_. True"
  by unfold_locales (auto simp: in_range_def adjust_peer_def Let_def sint_clamp)

interpretation trust: peer_predicate trusted "\<lambda>st. st \<noteq> Connected"
  by unfold_locales (auto simp: trusted_def in_range_def adjust_peer_def Let_def sint_clamp)

lemma peers_ok_new: "peers_ok P (PeerManager_new n)"
  by (simp add: peers_ok_def PeerManager_new_def)

section \<open>Properties\<close>

lemma set_connected: "wf_hmap (pm_peers pm) \<Longrightarrow> p \<in> set (connected_peers pm) \<Longrightarrow>
  pi_state p = Connected \<and> (\<exists>i. hget (pm_peers pm) i = Some p)"
  by (auto simp: connected_peers_def hget_iff)

lemma set_best_peers: "set (best_peers k pm) \<subseteq> set (connected_peers pm)"
  unfolding best_peers_def using set_take_subset by fastforce

text \<open>
  \<^bold>\<open>Only peers of good standing are preferred\<close>. After any sequence of peer operations, in which added
  peers are in good standing and \<open>peer_set_state\<close> is not used to connect one, every peer that \<open>best_peers\<close>
  returns is a connected entry of the table under its own id, with a reputation above the ban threshold
  and within the bounds, whatever the reputation changes were: the sum wraps but is clamped afterwards.
\<close>

theorem best_peers_reputable:
  assumes "\<forall>p. OpAddPeer p \<in> set ops \<longrightarrow> trusted p"
    and "\<forall>i st. OpSetState i st \<in> set ops \<longrightarrow> st \<noteq> Connected"
    and "p \<in> set (best_peers k (fold peer_step ops (PeerManager_new n)))"
  shows "get_peer (fold peer_step ops (PeerManager_new n)) (pi_id p) = Some p
    \<and> pi_state p = Connected \<and> - 100 < sint (pi_reputation p) \<and> sint (pi_reputation p) \<le> 1000"
proof -
  let ?pm = "fold peer_step ops (PeerManager_new n)"
  have "list_all trust.admissible ops"
    unfolding list_all_iff
  proof
    fix op assume "op \<in> set ops"
    with assms(1,2) show "trust.admissible op" by (cases op) auto
  qed
  then have ok: "peers_ok trusted ?pm" by (intro trust.run_keeps peers_ok_new)
  then obtain i where "hget (pm_peers ?pm) i = Some p" "pi_state p = Connected"
    using set_connected [of ?pm p] assms(3) set_best_peers by (auto simp: peers_ok_def)
  with ok show ?thesis by (auto simp: peers_ok_def trusted_def in_range_def get_peer_def)
qed

definition demo_peer :: "PeerId \<Rightarrow> i32 \<Rightarrow> PeerInfo" where
  "demo_peer i r = \<lparr>pi_id = i, pi_addresses = [], pi_protocol_version = 1, pi_agent = [], pi_is_validator = False,
     pi_validator_address = None, pi_last_seen = 0, pi_state = Connected, pi_reputation = r\<rparr>"

lemma demo_peers_best:
  "best_peers 1 (fold peer_step [OpAddPeer (demo_peer ''a'' 0), OpAddPeer (demo_peer ''b'' 5), OpReputation ''a'' 7]
     (PeerManager_new 10)) = [demo_peer ''a'' 7]"
  by code_simp

theorem best_peers_reputable_witness:
  "get_peer (fold peer_step [OpAddPeer (demo_peer ''a'' 0), OpAddPeer (demo_peer ''b'' 5), OpReputation ''a'' 7]
     (PeerManager_new 10)) ''a'' = Some (demo_peer ''a'' 7)"
proof -
  have "trusted (demo_peer ''a'' 0)" "trusted (demo_peer ''b'' 5)" by code_simp+
  then show ?thesis
    using best_peers_reputable [of "[OpAddPeer (demo_peer ''a'' 0), OpAddPeer (demo_peer ''b'' 5), OpReputation ''a'' 7]"
      "demo_peer ''a'' 7" 1 10] demo_peers_best by (simp add: demo_peer_def)
qed

text \<open>
  \<^bold>\<open>The best peers are the top of the connected ones\<close>. \<open>best_peers\<close> returns as many peers as asked for,
  or all connected ones when there are fewer; together with the peers left out they are exactly the
  connected peers, in an order in which no peer has a better reputation than an earlier one.
\<close>

theorem best_peers_top:
  "\<exists>rest. mset (best_peers k pm @ rest) = mset (connected_peers pm)
     \<and> sorted_wrt (\<lambda>p q. sint (pi_reputation q) \<le> sint (pi_reputation p)) (best_peers k pm @ rest)
     \<and> length (best_peers k pm) = min k (connected_count pm)"
proof -
  let ?s = "sort_key (\<lambda>p. - sint (pi_reputation p)) (connected_peers pm)"
  have "sorted (map (\<lambda>p. - sint (pi_reputation p)) ?s)" by simp
  then have "sorted_wrt (\<lambda>p q. sint (pi_reputation q) \<le> sint (pi_reputation p)) ?s"
    by (simp add: sorted_wrt_map)
  moreover have "mset (take k ?s @ drop k ?s) = mset (connected_peers pm)" by simp
  moreover have "length (take k ?s) = min k (connected_count pm)"
    by (simp add: connected_count_def connected_peers_def min.commute)
  ultimately show ?thesis unfolding best_peers_def by (intro exI [of _ "drop k ?s"]) (simp del: mset_append)
qed

end
