(* ===== verification/Gossip.thy ===== *)
theory Gossip
  imports Sync Peers
begin

text \<open>
  The gossip handler and the network service, \<^verbatim>\<open>src/crates/nexus-network/src/gossip.rs\<close> and
  \<^verbatim>\<open>src/crates/nexus-network/src/service.rs\<close>: the cache of seen messages, the handling of an incoming
  message, the handler of swarm events and the loop that serves events and commands. The binary codec
  of messages, the digest and the parser of network addresses are parameters; clock readings are
  arguments. The channel to the node is the list of the messages sent so far and a flag that its
  receiver is gone.
\<close>

section \<open>The message cache\<close>

record MessageCache =
  mc_seen :: "(Hash, u64) hmap"
  mc_max_size :: nat
  mc_ttl :: u64

definition MessageCache_new :: "nat \<Rightarrow> u64 \<Rightarrow> MessageCache" where
  "MessageCache_new max_size ttl = \<lparr>mc_seen = [], mc_max_size = max_size, mc_ttl = ttl\<rparr>"

definition MessageCache_default :: MessageCache where
  "MessageCache_default = MessageCache_new 100000 300"

definition is_seen :: "Hash \<Rightarrow> MessageCache \<Rightarrow> bool" where
  "is_seen h c \<longleftrightarrow> hcontains (mc_seen c) h"

definition prune_seen :: "u64 \<Rightarrow> MessageCache \<Rightarrow> MessageCache" where
  "prune_seen now c = c\<lparr>mc_seen := filter (\<lambda>(_, ts). now - ts < mc_ttl c) (mc_seen c)\<rparr>"

definition mark_seen :: "u64 \<Rightarrow> Hash \<Rightarrow> MessageCache \<Rightarrow> MessageCache" where
  "mark_seen now h c =
     (let c = c\<lparr>mc_seen := hput h now (mc_seen c)\<rparr>
      in if length (mc_seen c) > mc_max_size c then prune_seen now c else c)"

section \<open>The gossip handler\<close>

record GossipConfig =
  gc_max_message_size :: nat
  gc_mesh_d :: nat
  gc_mesh_d_lo :: nat
  gc_mesh_d_hi :: nat
  gc_fanout_ttl :: u64
  gc_heartbeat_interval :: u64

definition GossipConfig_default :: GossipConfig where
  "GossipConfig_default = \<lparr>gc_max_message_size = 1024 * 1024, gc_mesh_d = 6, gc_mesh_d_lo = 4, gc_mesh_d_hi = 12,
     gc_fanout_ttl = 60, gc_heartbeat_interval = 1\<rparr>"

record bincode =
  bin_deserialize :: "u8 list \<Rightarrow> string + NetworkMessage"
  bin_serialize :: "NetworkMessage \<Rightarrow> string + u8 list"

record GossipHandler =
  gh_config :: GossipConfig
  gh_cache :: MessageCache
  gh_sent :: "NetworkMessage list"
  gh_closed :: bool

definition GossipHandler_new :: "GossipConfig \<Rightarrow> GossipHandler" where
  "GossipHandler_new cfg = \<lparr>gh_config = cfg, gh_cache = MessageCache_default, gh_sent = [], gh_closed = False\<rparr>"

definition message_hash :: "crypto_lib \<Rightarrow> bincode \<Rightarrow> NetworkMessage \<Rightarrow> Hash" where
  "message_hash lib bc m = keccak lib (case bin_serialize bc m of Inl _ \<Rightarrow> [] | Inr data \<Rightarrow> data)"

definition handle_message :: "crypto_lib \<Rightarrow> bincode \<Rightarrow> u64 \<Rightarrow> u8 list \<Rightarrow> GossipHandler \<Rightarrow> GossipHandler \<times> unit NetworkResult" where
  "handle_message lib bc now data g =
     (if length data > gc_max_message_size (gh_config g) then (g, Inl (ProtocolError ''Message too large''))
      else case bin_deserialize bc data of Inl e \<Rightarrow> (g, Inl (NetSerializationError e))
      | Inr m \<Rightarrow>
          let h = message_hash lib bc m in
          if is_seen h (gh_cache g) then (g, Inr ())
          else let g = g\<lparr>gh_cache := mark_seen now h (gh_cache g)\<rparr>
               in if gh_closed g then (g, Inl ChannelClosed)
                  else (g\<lparr>gh_sent := gh_sent g @ [m]\<rparr>, Inr ()))"

definition serialize_message :: "bincode \<Rightarrow> NetworkMessage \<Rightarrow> u8 list NetworkResult" where
  "serialize_message bc m = (case bin_serialize bc m of Inl e \<Rightarrow> Inl (NetSerializationError e) | Inr data \<Rightarrow> Inr data)"

section \<open>The network service\<close>

datatype NetworkCommand = Publish string "u8 list" | Shutdown

record NetworkConfig =
  nc_listen_addr :: string
  nc_bootstrap_nodes :: "string list"
  nc_max_message_size :: nat

definition NetworkConfig_default :: NetworkConfig where
  "NetworkConfig_default = \<lparr>nc_listen_addr = ''/ip4/0.0.0.0/tcp/30333'', nc_bootstrap_nodes = [],
     nc_max_message_size = 1024 * 1024\<rparr>"

definition TOPIC_TRANSACTIONS :: string where "TOPIC_TRANSACTIONS = ''nexus/transactions/1.0''"
definition TOPIC_VERTICES :: string where "TOPIC_VERTICES = ''nexus/vertices/1.0''"
definition TOPIC_VOTES :: string where "TOPIC_VOTES = ''nexus/votes/1.0''"

text \<open>A parsed address is a list of protocol components, of which a peer id is one.\<close>

datatype 'p protocol = P2p PeerId | OtherProtocol 'p

definition parse_bootstrap_addr :: "(string \<Rightarrow> 'p protocol list option) \<Rightarrow> string \<Rightarrow> (PeerId \<times> 'p protocol list) option" where
  "parse_bootstrap_addr parse s =
     (case parse s of None \<Rightarrow> None
      | Some addr \<Rightarrow>
          if addr = [] then None
          else case last addr of P2p i \<Rightarrow> Some (i, butlast addr) | OtherProtocol _ \<Rightarrow> None)"

text \<open>The swarm events the handler distinguishes; the clock readings an event needs come with it.\<close>

datatype SwarmEvent =
    GossipMessage u64 "u8 list"
  | ConnectionEstablished u64 PeerId
  | ConnectionClosed PeerId
  | NewListenAddr string
  | IdentifyReceived PeerId string "(u64 \<times> string) list"
  | OtherEvent

definition event_peer :: "PeerId \<Rightarrow> string list \<Rightarrow> string \<Rightarrow> u64 \<Rightarrow> PeerInfo" where
  "event_peer i addresses agent now =
     \<lparr>pi_id = i, pi_addresses = addresses, pi_protocol_version = 1, pi_agent = agent, pi_is_validator = False,
      pi_validator_address = None, pi_last_seen = now, pi_state = Connected, pi_reputation = 0\<rparr>"

fun on_swarm_event :: "crypto_lib \<Rightarrow> bincode \<Rightarrow> SwarmEvent \<Rightarrow> PeerManager \<times> GossipHandler \<Rightarrow> PeerManager \<times> GossipHandler" where
  "on_swarm_event lib bc (GossipMessage now data) (pm, g) = (pm, fst (handle_message lib bc now data g))"
| "on_swarm_event lib bc (ConnectionEstablished now i) (pm, g) = (add_peer (event_peer i [] [] now) pm, g)"
| "on_swarm_event lib bc (ConnectionClosed i) (pm, g) = (peer_set_state i Disconnected pm, g)"
| "on_swarm_event lib bc (NewListenAddr addr) (pm, g) = (pm, g)"
| "on_swarm_event lib bc (IdentifyReceived i agent addrs) (pm, g) =
     (fold (\<lambda>(now, addr). add_peer (event_peer i [addr] agent now)) addrs pm, g)"
| "on_swarm_event lib bc OtherEvent (pm, g) = (pm, g)"

text \<open>
  The service loop: each turn serves the next event of the swarm or the next command, whichever is
  ready, and ends when the swarm ends or on shutdown. The result holds the state, the publications
  handed to the swarm and the inputs left unserved.
\<close>

datatype service_input = SwarmInput "SwarmEvent option" | CommandInput "NetworkCommand option"

fun run_swarm_loop :: "crypto_lib \<Rightarrow> bincode \<Rightarrow> service_input list \<Rightarrow> PeerManager \<times> GossipHandler
    \<Rightarrow> (PeerManager \<times> GossipHandler) \<times> (string \<times> u8 list) list \<times> service_input list" where
  "run_swarm_loop lib bc [] st = (st, [], [])"
| "run_swarm_loop lib bc (SwarmInput None # rest) st = (st, [], rest)"
| "run_swarm_loop lib bc (SwarmInput (Some ev) # rest) st = run_swarm_loop lib bc rest (on_swarm_event lib bc ev st)"
| "run_swarm_loop lib bc (CommandInput (Some (Publish topic data)) # rest) st =
     (case run_swarm_loop lib bc rest st of (st, pubs, left) \<Rightarrow> (st, (topic, data) # pubs, left))"
| "run_swarm_loop lib bc (CommandInput (Some Shutdown) # rest) st = (st, [], rest)"
| "run_swarm_loop lib bc (CommandInput None # rest) st = (st, [], rest)"

section \<open>Deduplication\<close>

lemma set_hput_subset: "set (hput k v m) \<subseteq> insert (k, v) (set m)"
  by (induction m) (auto simp: hput_def)

definition accepted_message :: "bincode \<Rightarrow> GossipConfig \<Rightarrow> u8 list \<Rightarrow> NetworkMessage option" where
  "accepted_message bc cfg data =
     (if length data > gc_max_message_size cfg then None
      else case bin_deserialize bc data of Inl _ \<Rightarrow> None | Inr m \<Rightarrow> Some m)"

fun gossip_run :: "crypto_lib \<Rightarrow> bincode \<Rightarrow> (u64 \<times> u8 list) list \<Rightarrow> GossipHandler \<Rightarrow> GossipHandler" where
  "gossip_run lib bc [] g = g"
| "gossip_run lib bc ((now, data) # ins) g = gossip_run lib bc ins (fst (handle_message lib bc now data g))"

text \<open>The specification: of the messages with one hash, the first is kept.\<close>

fun keep_first :: "('a \<Rightarrow> 'b) \<Rightarrow> 'b set \<Rightarrow> 'a list \<Rightarrow> 'a list" where
  "keep_first f S [] = []"
| "keep_first f S (x # xs) = (if f x \<in> S then keep_first f S xs else x # keep_first f (insert (f x) S) xs)"

lemma handle_message_refused:
  "accepted_message bc (gh_config g) data = None \<Longrightarrow> fst (handle_message lib bc now data g) = g"
  by (simp add: handle_message_def accepted_message_def split: if_splits sum.splits)

lemma handle_message_accepted:
  "accepted_message bc (gh_config g) data = Some m \<Longrightarrow>
   fst (handle_message lib bc now data g) =
     (if is_seen (message_hash lib bc m) (gh_cache g) then g
      else let g = g\<lparr>gh_cache := mark_seen now (message_hash lib bc m) (gh_cache g)\<rparr>
           in if gh_closed g then g else g\<lparr>gh_sent := gh_sent g @ [m]\<rparr>)"
  by (simp add: handle_message_def accepted_message_def Let_def split: if_splits sum.splits)

lemmas handle_message_fst = handle_message_refused handle_message_accepted

lemma window_sub: "t0 \<le> ts \<Longrightarrow> ts \<le> now \<Longrightarrow> now - t0 < ttl \<Longrightarrow> now - ts < (ttl :: u64)"
  by (simp add: word_less_nat_alt word_le_nat_alt unat_sub)

lemma mark_seen_window:
  assumes "\<forall>(h, ts) \<in> set (mc_seen c). t0 \<le> ts \<and> ts \<le> now" and "t0 \<le> now" and "now - t0 < mc_ttl c"
  shows "mark_seen now h c = c\<lparr>mc_seen := hput h now (mc_seen c)\<rparr>"
    and "\<forall>(h, ts) \<in> set (mc_seen (mark_seen now h c)). t0 \<le> ts \<and> ts \<le> now"
proof -
  let ?m = "hput h now (mc_seen c)"
  have m: "\<forall>(h, ts) \<in> set ?m. t0 \<le> ts \<and> ts \<le> now"
    using assms(1,2) set_hput_subset [of h now "mc_seen c"] by fastforce
  then have "filter (\<lambda>(_, ts). now - ts < mc_ttl c) ?m = ?m"
    using window_sub [OF _ _ assms(3)] by (intro filter_True) fastforce
  then show *: "mark_seen now h c = c\<lparr>mc_seen := ?m\<rparr>"
    by (simp add: mark_seen_def prune_seen_def Let_def)
  show "\<forall>(h, ts) \<in> set (mc_seen (mark_seen now h c)). t0 \<le> ts \<and> ts \<le> now" using m by (simp add: *)
qed

lemma hcontains_hput: "hcontains (hput k v m) k' \<longleftrightarrow> k' = k \<or> hcontains m k'"
  by simp

lemma gossip_run_window:
  assumes "sorted (map fst ins)" and "\<forall>(now, _) \<in> set ins. t0 \<le> now \<and> now - t0 < mc_ttl (gh_cache g)"
    and "\<forall>(now, _) \<in> set ins. \<forall>(h, ts) \<in> set (mc_seen (gh_cache g)). t0 \<le> ts \<and> ts \<le> now"
    and "\<not> gh_closed g"
  shows "gh_sent (gossip_run lib bc ins g)
    = gh_sent g @ keep_first (message_hash lib bc) {h. is_seen h (gh_cache g)}
        (List.map_filter (accepted_message bc (gh_config g)) (map snd ins))"
  using assms
proof (induction ins arbitrary: g)
  case (Cons e ins)
  obtain now data where e: "e = (now, data)" by fastforce
  have now: "\<forall>(h, ts) \<in> set (mc_seen (gh_cache g)). t0 \<le> ts \<and> ts \<le> now" "t0 \<le> now"
      "now - t0 < mc_ttl (gh_cache g)" using Cons.prems e by auto
  have later: "now \<le> t" if "(t, x) \<in> set ins" for t x using Cons.prems(1) that e by fastforce
  show ?case
  proof (cases "accepted_message bc (gh_config g) data")
    case None
    with Cons e show ?thesis
      by (simp add: handle_message_fst List.map_filter_simps)
  next
    case (Some m)
    let ?h = "message_hash lib bc m" and ?c = "mark_seen now (message_hash lib bc m) (gh_cache g)"
    show ?thesis
    proof (cases "is_seen ?h (gh_cache g)")
      case True
      with Some Cons e show ?thesis
        by (simp add: handle_message_fst List.map_filter_simps)
    next
      case False
      let ?g = "g\<lparr>gh_cache := ?c, gh_sent := gh_sent g @ [m]\<rparr>"
      have c: "?c = (gh_cache g)\<lparr>mc_seen := hput ?h now (mc_seen (gh_cache g))\<rparr>"
        by (rule mark_seen_window(1) [OF now])
      have "\<forall>(t, _) \<in> set ins. \<forall>(h, ts) \<in> set (mc_seen ?c). t0 \<le> ts \<and> ts \<le> t"
        using mark_seen_window(2) [OF now, of ?h] later order_trans by fastforce
      moreover have "{h. is_seen h ?c} = insert ?h {h. is_seen h (gh_cache g)}"
        by (auto simp: c is_seen_def hcontains_hput)
      moreover have "fst (handle_message lib bc now data g) = ?g"
        using False Some Cons.prems(4) by (simp add: handle_message_fst Let_def)
      moreover have "mc_ttl ?c = mc_ttl (gh_cache g)" by (simp add: c)
      ultimately show ?thesis using Cons.IH [of ?g] Cons.prems Some False e
        by (simp add: List.map_filter_simps)
    qed
  qed
qed (simp add: List.map_filter_simps)

section \<open>Properties\<close>

text \<open>
  (C21) \<^bold>\<open>Within the time to live every message is delivered exactly once\<close>. For messages that arrive within a
  window shorter than the cache's time to live, at clock readings that do not go back, the messages
  handed to the node are exactly the first of each group of decodable messages of admissible size with
  the same hash, in the order of arrival, however many there are.
\<close>

theorem gossip_delivers_once:
  assumes "sorted (map fst ins)" and "\<forall>(now, _) \<in> set ins. t0 \<le> now \<and> now - t0 < 300"
  shows "gh_sent (gossip_run lib bc ins (GossipHandler_new cfg))
    = keep_first (message_hash lib bc) {} (List.map_filter (accepted_message bc cfg) (map snd ins))"
  using gossip_run_window [OF assms(1), of t0 "GossipHandler_new cfg" lib bc] assms(2)
  by (simp add: GossipHandler_new_def MessageCache_default_def MessageCache_new_def is_seen_def)

definition ping_codec :: bincode where
  "ping_codec = \<lparr>bin_deserialize = (\<lambda>d. case d of [b] \<Rightarrow> Inr (Ping (ucast b)) | _ \<Rightarrow> Inl ''bad''),
     bin_serialize = (\<lambda>m. case m of Ping n \<Rightarrow> Inr [ucast n] | _ \<Rightarrow> Inl ''bad'')\<rparr>"

theorem gossip_delivers_once_witness:
  "gh_sent (gossip_run (demo_lib\<lparr>keccak := \<lambda>d. ucast (hd d)\<rparr>) ping_codec
      [(1000, [5]), (1001, [6]), (1002, [5]), (1003, [])] (GossipHandler_new GossipConfig_default)) = [Ping 5, Ping 6]"
proof -
  let ?ins = "[(1000, [5]), (1001, [6]), (1002, [5]), (1003, [])] :: (u64 \<times> u8 list) list"
  have "sorted (map fst ?ins)" "\<forall>(now, _) \<in> set ?ins. 1000 \<le> now \<and> now - 1000 < 300" by simp_all
  from gossip_delivers_once [OF this, of "demo_lib\<lparr>keccak := \<lambda>d. ucast (hd d)\<rparr>" ping_codec GossipConfig_default]
  show ?thesis
    by (simp add: accepted_message_def ping_codec_def message_hash_def List.map_filter_simps GossipConfig_default_def)
qed

fun publications :: "service_input list \<Rightarrow> (string \<times> u8 list) list" where
  "publications [] = []"
| "publications (CommandInput (Some (Publish topic data)) # ins) = (topic, data) # publications ins"
| "publications (_ # ins) = publications ins"

lemma event_peer_trusted: "trusted (event_peer i addrs agent now)"
  by (simp add: trusted_def in_range_def event_peer_def)

lemma fold_add_peer_ok:
  "peers_ok trusted pm \<Longrightarrow> peers_ok trusted (fold (\<lambda>(now, addr). add_peer (event_peer i [addr] agent now)) addrs pm)"
  using trust.step_keeps [of _ "OpAddPeer _"] event_peer_trusted
  by (induction addrs arbitrary: pm) (auto simp: event_peer_trusted)

lemma on_swarm_event_ok:
  "peers_ok trusted (fst st) \<Longrightarrow> peers_ok trusted (fst (on_swarm_event lib bc ev st))"
  using trust.step_keeps [of "fst st" "OpAddPeer _"] trust.step_keeps [of "fst st" "OpSetState _ Disconnected"]
  by (cases "(lib, bc, ev, st)" rule: on_swarm_event.cases) (auto simp: event_peer_trusted fold_add_peer_ok)

lemma run_swarm_loop_inv:
  assumes "run_swarm_loop lib bc inputs st = (st', pubs, left)" and "peers_ok trusted (fst st)"
  shows "(\<exists>served. inputs = served @ left \<and> pubs = publications served) \<and> peers_ok trusted (fst st')"
  using assms
proof (induction lib bc inputs st arbitrary: st' pubs left rule: run_swarm_loop.induct)
  case (3 lib bc ev rest st)
  from 3(1) [OF _ on_swarm_event_ok [OF 3(3)]] 3(2) show ?case
    by (metis append_Cons publications.simps(3) run_swarm_loop.simps(3))
next
  case (4 lib bc topic data rest st)
  obtain pubs' where rec: "run_swarm_loop lib bc rest st = (st', pubs', left)" "pubs = (topic, data) # pubs'"
    using 4(2) by (auto split: prod.splits)
  from 4(1) [OF rec(1) 4(3)] obtain served where "rest = served @ left" "pubs' = publications served"
    and ok: "peers_ok trusted (fst st')" by blast
  then show ?case using rec(2)
    by (intro conjI exI [of _ "CommandInput (Some (Publish topic data)) # served"]) simp_all
qed auto

text \<open>
  \<^bold>\<open>The service loop\<close>. Whatever events and commands arrive, the loop serves a prefix of them: it hands
  exactly the publish commands of that prefix to the swarm, in order, and it leaves a peer table in
  which every entry stands under its own id, has a reputation in range and is not both connected and
  below the ban threshold.
\<close>

theorem service_loop_serves:
  assumes "run_swarm_loop lib bc inputs (PeerManager_new n, g) = ((pm, g'), pubs, left)"
  shows "(\<exists>served. inputs = served @ left \<and> pubs = publications served) \<and> peers_ok trusted pm"
  using run_swarm_loop_inv [OF assms] by (simp add: peers_ok_new)

theorem service_loop_serves_witness:
  "(\<exists>served. [SwarmInput (Some (ConnectionEstablished 5 ''a'')), CommandInput (Some (Publish TOPIC_VOTES [1])),
        CommandInput (Some Shutdown), SwarmInput (Some OtherEvent)] = served @ [SwarmInput (Some OtherEvent)]
      \<and> [(TOPIC_VOTES, [1])] = publications served)
   \<and> peers_ok trusted (add_peer (event_peer ''a'' [] [] 5) (PeerManager_new 3))"
  by (rule service_loop_serves [of demo_lib ping_codec _ 3 "GossipHandler_new GossipConfig_default" _
        "GossipHandler_new GossipConfig_default"]) simp

text \<open>
  \<^bold>\<open>A ban does not outlive the connection\<close>. When a banned peer connects again, the handler of the event
  replaces its entry by a fresh one: connected, with reputation zero.
\<close>

theorem banned_peer_returns:
  assumes "get_peer pm i = Some p" and "pi_state p = Banned"
  shows "get_peer (fst (on_swarm_event lib bc (ConnectionEstablished now i) (pm, g))) i = Some (event_peer i [] [] now)"
  by (simp add: get_peer_def add_peer_def event_peer_def Let_def)

theorem banned_peer_returns_witness:
  "get_peer (fst (on_swarm_event demo_lib ping_codec (ConnectionEstablished 9 ''a'')
       (ban_peer ''a'' (add_peer (event_peer ''a'' [] [] 5) (PeerManager_new 3)), GossipHandler_new GossipConfig_default))) ''a''
     = Some (event_peer ''a'' [] [] 9)"
  by (rule banned_peer_returns [of _ _ "(event_peer ''a'' [] [] 5)\<lparr>pi_state := Banned, pi_reputation := - 1000\<rparr>"])
    (simp_all add: get_peer_def ban_peer_def add_peer_def PeerManager_new_def event_peer_def Let_def)

end
