(* ===== verification/Node.thy ===== *)
theory Node
  imports Node_Config Rpc Proposer Genesis Gossip
begin

text \<open>
  The node, \<^verbatim>\<open>src/crates/nexus-node/src/node.rs\<close>, with the commands of \<^verbatim>\<open>main.rs\<close> that work on its data. The node owns
  the components and starts the tasks that share them: the RPC server, the bridge from the mempool to the
  proposer's pool, the proposer, the execution of proposed vertices and the intake of gossiped transactions.
  Each turn of a task is a step of the node, and a run is any interleaving of steps. The channel to the
  execution task is the list of vertices not yet executed. Files, keys and codecs are parameters, the random key of a node
  without a key file and clock readings are arguments. The construction of the P2P swarm and the binding of
  sockets are not modelled; what the P2P service does to the table of peers is any change. A turn that would
  panic or block is not a step.
\<close>

section \<open>Data\<close>

datatype NodeError =
    NodeConfigError string
  | NodeIo string
  | NodeNetwork string
  | NodeConsensus string
  | NodeStorage string

record 'k ValidatorTask =
  vt_config :: ProposerConfig
  vt_address :: Address
  vt_bft :: "'k BftConsensus"
  vt_last_proposal :: nat
  vt_channel :: "ProposedVertex list"
  vt_shutdown_senders :: nat
  vt_proposing :: bool

record 'k Node =
  nd_config :: NodeConfig
  nd_ledger :: ledger
  nd_tx_pool :: TransactionPool
  nd_peer_manager :: PeerManager
  nd_validator_keys :: "'k ValidatorKeys option"
  nd_shutdown_tx :: bool
  nd_rpc :: "RpcServer option"
  nd_task :: "'k ValidatorTask option"

record 'k node_lib =
  nl_crypto :: crypto_lib
  nl_keys :: "'k key_lib"
  nl_io :: config_io
  nl_create_dir :: "string \<Rightarrow> string option"
  nl_join :: "string \<Rightarrow> string \<Rightarrow> string"
  nl_genesis :: genesis_lib
  nl_genesis_io :: genesis_io
  nl_consensus_debug :: "ConsensusError \<Rightarrow> string"
  nl_genesis_error :: "GenesisError \<Rightarrow> string"
  nl_dag_debug :: "NexusError \<Rightarrow> string"

section \<open>Creation and start\<close>

text \<open>The counter of peers and the verifier are made when the RPC server starts; until then nothing reads them.\<close>

definition node_keys :: "'k node_lib \<Rightarrow> 'k \<Rightarrow> files \<Rightarrow> ConsensusConfig \<Rightarrow> (NodeError + 'k ValidatorKeys option) run" where
  "node_keys nl draw fs c =
     (if \<not> co_validator c then Ret (Inr None)
      else case co_validator_key c of
             Some key_path \<Rightarrow>
               (case file_read (nl_io nl) key_path fs of
                  Inl e \<Rightarrow> Ret (Inl (NodeConfigError (''Failed to read validator key: '' @ e)))
                | Inr key_bytes \<Rightarrow>
                    run_map (\<lambda>r. case r of Inl e \<Rightarrow> Inl (NodeConfigError (''Invalid validator key: '' @ nl_consensus_debug nl e))
                             | Inr ks \<Rightarrow> Inr (Some ks))
                      (keys_from_bytes (nl_crypto nl) (nl_keys nl) key_bytes))
           | None \<Rightarrow> run_map (\<lambda>ks. Inr (Some ks)) (keys_of (nl_crypto nl) (nl_keys nl) draw))"

definition Node_new :: "'k node_lib \<Rightarrow> 'k \<Rightarrow> files \<Rightarrow> NodeConfig \<Rightarrow> (NodeError + 'k Node) run" where
  "Node_new nl draw fs c =
     run_map (map_sum id (\<lambda>ks.
       \<lparr>nd_config = c,
        nd_ledger = \<lparr>ld_dag = Dag_new DagConfig_default, ld_state = StateDb_new,
          ld_pos = ProofOfStake_new StakingConfig_default, ld_mempool = Mempool_new 10000, ld_peer_count = 0,
          ld_zkp = (\<lambda>_ _. False)\<rparr>,
        nd_tx_pool = TransactionPool_default, nd_peer_manager = PeerManager_new (nn_max_peers (nf_network c)),
        nd_validator_keys = ks, nd_shutdown_tx = False, nd_rpc = None, nd_task = None\<rparr>))
       (node_keys nl draw fs (nf_consensus c))"

definition start_rpc :: "('f, 'pk, 'vk, 'pvk, 'pf) groth16_lib \<Rightarrow> 'k Node \<Rightarrow> 'k Node" where
  "start_rpc gr n =
     n\<lparr>nd_ledger := (nd_ledger n)\<lparr>ld_peer_count := connected_count (nd_peer_manager n),
         ld_zkp := (\<lambda>pf input. default_verify gr pf input DefaultVerifier_default)\<rparr>,
       nd_rpc := Some (RpcServer_new
         \<lparr>sv_listen_addr = nr_http_addr (nf_rpc (nd_config n)), sv_cors = nr_cors (nf_rpc (nd_config n)),
          sv_max_request_size = 1024 * 1024\<rparr>
         (MethodDispatcher_new (nf_chain_id (nd_config n))))\<rparr>"

text \<open>
  The sender of the proposer's shutdown channel is a local variable of \<open>start_validator\<close> and is dropped
  when it returns: no sender is left.
\<close>

definition start_validator :: "'k node_lib \<Rightarrow> nat \<Rightarrow> 'k Node \<Rightarrow> 'k Node \<times> (NodeError + unit)" where
  "start_validator nl inst n =
     (case nd_validator_keys n of
        None \<Rightarrow> (n, Inl (NodeConfigError ''Validator keys not loaded''))
      | Some ks \<Rightarrow>
          (case register_validator (key_address ks) (public_key (nl_keys nl) ks) 100000000000 500 (ld_pos (nd_ledger n)) of
             (pos, Inl e) \<Rightarrow> (n\<lparr>nd_ledger := (nd_ledger n)\<lparr>ld_pos := pos\<rparr>\<rparr>, Inl (NodeConsensus (nl_consensus_debug nl e)))
           | (pos, Inr _) \<Rightarrow>
               (n\<lparr>nd_ledger := (nd_ledger n)\<lparr>ld_pos := pos\<rparr>,
                  nd_task := Some
                    \<lparr>vt_config = ProposerConfig_default\<lparr>max_txs_per_vertex := co_max_txs_per_vertex (nf_consensus (nd_config n)),
                       target_interval := unat (co_vertex_interval_ms (nf_consensus (nd_config n))) * 1000000\<rparr>,
                     vt_address = key_address ks, vt_bft = BftConsensus_new ks (ps_validators pos), vt_last_proposal = inst,
                     vt_channel = [], vt_shutdown_senders = 0, vt_proposing = True\<rparr>\<rparr>, Inr ())))"

definition load_node_genesis :: "'k node_lib \<Rightarrow> files \<Rightarrow> 'k Node \<Rightarrow> ('k Node \<times> (NodeError + unit)) run" where
  "load_node_genesis nl fs n =
     (let path = nl_join nl (nf_data_dir (nd_config n)) ''genesis.json''; w = nd_ledger n
      in if hcontains fs path
         then run_map (\<lambda>((st, pos), r). (n\<lparr>nd_ledger := w\<lparr>ld_state := st, ld_pos := pos\<rparr>\<rparr>,
                case r of Inl e \<Rightarrow> Inl (NodeConfigError (''Genesis error: '' @ nl_genesis_error nl e)) | Inr _ \<Rightarrow> Inr ()))
                (load_genesis_file (nl_genesis nl) (nl_genesis_io nl) path (ld_state w, ld_pos w))
         else Ret (n, Inr ()))"

definition node_start ::
    "'k node_lib \<Rightarrow> ('f, 'pk, 'vk, 'pvk, 'pf) groth16_lib \<Rightarrow> nat \<Rightarrow> files \<Rightarrow> 'k Node \<Rightarrow> ('k Node \<times> (NodeError + unit)) run" where
  "node_start nl gr inst fs n =
     (let n = n\<lparr>nd_shutdown_tx := True\<rparr>
      in case nl_create_dir nl (nf_data_dir (nd_config n)) of
           Some e \<Rightarrow> Ret (n, Inl (NodeIo e))
         | None \<Rightarrow>
             run_map (\<lambda>(n, r). case r of Inl e \<Rightarrow> (n, Inl e)
                | Inr _ \<Rightarrow>
                    let n = (if nr_http_enabled (nf_rpc (nd_config n)) then start_rpc gr n else n)
                    in if co_validator (nf_consensus (nd_config n)) then start_validator nl inst n else (n, Inr ()))
               (load_node_genesis nl fs n))"

definition node_stop :: "'k Node \<Rightarrow> 'k Node" where
  "node_stop n = n\<lparr>nd_shutdown_tx := False\<rparr>"

section \<open>Turns of the tasks\<close>

definition bridge_tick :: "crypto_lib \<Rightarrow> 'k Node \<Rightarrow> 'k Node" where
  "bridge_tick lib n =
     (let (mp, txs) = drain_batch lib 256 (ld_mempool (nd_ledger n))
      in n\<lparr>nd_ledger := (nd_ledger n)\<lparr>ld_mempool := mp\<rparr>,
           nd_tx_pool := fold (\<lambda>t p. fst (pool_add lib t p)) txs (nd_tx_pool n)\<rparr>)"

text \<open>The proposer shares the pool, the DAG and the stake with the node.\<close>

definition proposer_of :: "'k Node \<Rightarrow> 'k ValidatorTask \<Rightarrow> 'k Proposer" where
  "proposer_of n t =
     \<lparr>po_config = vt_config t, po_address = vt_address t, po_tx_pool = nd_tx_pool n, po_dag = ld_dag (nd_ledger n),
      po_bft = vt_bft t, po_pos = ld_pos (nd_ledger n), po_last_proposal = vt_last_proposal t, po_vertex_tx = Some (vt_channel t)\<rparr>"

definition put_proposer :: "'k Proposer \<Rightarrow> 'k ValidatorTask \<Rightarrow> 'k Node \<Rightarrow> 'k Node" where
  "put_proposer P t n =
     n\<lparr>nd_ledger := (nd_ledger n)\<lparr>ld_dag := po_dag P, ld_pos := po_pos P\<rparr>, nd_tx_pool := po_tx_pool P,
       nd_task := Some (t\<lparr>vt_bft := po_bft P, vt_last_proposal := po_last_proposal P,
         vt_channel := (case po_vertex_tx P of None \<Rightarrow> [] | Some sent \<Rightarrow> sent)\<rparr>)\<rparr>"

text \<open>Execution of one vertex: one executor, its transactions in order, errors only logged.\<close>

fun exec_all :: "crypto_lib \<Rightarrow> revm \<Rightarrow> Transaction list \<Rightarrow> Executor \<Rightarrow> Executor run" where
  "exec_all lib rv [] ex = Ret ex"
| "exec_all lib rv (t # ts) ex = run_bind (execute_tx lib rv t ex) (\<lambda>(ex, _). exec_all lib rv ts ex)"

definition exec_vertex ::
    "('fq, 'fr, 'g1, 'g2) rpc_lib \<Rightarrow> u64 \<Rightarrow> Address \<Rightarrow> ProposedVertex \<Rightarrow> StateDb \<Rightarrow> StateDb run" where
  "exec_vertex rl chain cb pv st =
     (let v = pv_vertex pv;
          env = EvmEnv_default\<lparr>env_chain_id := chain, env_number := vx_height v, env_timestamp := vx_timestamp v,
            env_coinbase := cb\<rparr>
      in run_map ex_state (exec_all (rl_crypto rl) (rl_revm rl) (pv_transactions pv)
           (Executor_new (rl_crypto rl) (rl_evm rl) st env)))"

definition on_network_message :: "crypto_lib \<Rightarrow> NetworkMessage \<Rightarrow> 'k Node \<Rightarrow> 'k Node" where
  "on_network_message lib msg n =
     (case msg of NewTransaction t \<Rightarrow>
        n\<lparr>nd_ledger := (nd_ledger n)\<lparr>ld_mempool := fst (mempool_add lib t (ld_mempool (nd_ledger n)))\<rparr>\<rparr>
      | _ \<Rightarrow> n)"

datatype node_event =
    EvRpc u64 JsonRpcRequest JsonRpcResponse
  | EvMessage NetworkMessage
  | EvBridge
  | EvTick clocks
  | EvProposerEnd
  | EvExecute
  | EvPeers

inductive node_step :: "'k node_lib \<Rightarrow> ('fq, 'fr, 'g1, 'g2) rpc_lib \<Rightarrow> node_event \<Rightarrow> 'k Node \<Rightarrow> 'k Node \<Rightarrow> bool"
  for nl :: "'k node_lib" and rl :: "('fq, 'fr, 'g1, 'g2) rpc_lib" where
  serve: "nd_rpc n = Some sv \<Longrightarrow> handle_rpc rl now (sv_dispatcher sv) q (nd_ledger n) = Ret (w, r) \<Longrightarrow>
    node_step nl rl (EvRpc now q r) n (n\<lparr>nd_ledger := w\<rparr>)"
| message: "node_step nl rl (EvMessage msg) n (on_network_message (rl_crypto rl) msg n)"
| bridge: "nd_task n \<noteq> None \<Longrightarrow> node_step nl rl EvBridge n (bridge_tick (rl_crypto rl) n)"
| tick: "nd_task n = Some t \<Longrightarrow> vt_proposing t \<Longrightarrow>
    proposer_tick (rl_crypto rl) (nl_keys nl) (nl_dag_debug nl) c (proposer_of n t) = Some (Ret P) \<Longrightarrow>
    node_step nl rl (EvTick c) n (put_proposer P t n)"
| proposer_end: "nd_task n = Some t \<Longrightarrow> vt_proposing t \<Longrightarrow> vt_shutdown_senders t = 0 \<Longrightarrow>
    node_step nl rl EvProposerEnd n (n\<lparr>nd_task := Some (t\<lparr>vt_proposing := False\<rparr>)\<rparr>)"
| execute: "nd_task n = Some t \<Longrightarrow> vt_channel t = pv # rest \<Longrightarrow>
    exec_vertex rl (nf_chain_id (nd_config n)) (vt_address t) pv (ld_state (nd_ledger n)) = Ret st \<Longrightarrow>
    node_step nl rl EvExecute n
      (n\<lparr>nd_ledger := (nd_ledger n)\<lparr>ld_state := st\<rparr>, nd_task := Some (t\<lparr>vt_channel := rest\<rparr>)\<rparr>)"
| peers: "node_step nl rl EvPeers n (n\<lparr>nd_peer_manager := pm\<rparr>)"

inductive node_run :: "'k node_lib \<Rightarrow> ('fq, 'fr, 'g1, 'g2) rpc_lib \<Rightarrow> 'k Node \<Rightarrow> node_event list \<Rightarrow> 'k Node \<Rightarrow> bool"
  for nl :: "'k node_lib" and rl :: "('fq, 'fr, 'g1, 'g2) rpc_lib" and n0 :: "'k Node" where
  start: "node_run nl rl n0 [] n0"
| step: "node_run nl rl n0 es n \<Longrightarrow> node_step nl rl e n n' \<Longrightarrow> node_run nl rl n0 (es @ [e]) n'"

inductive_cases node_stepE: "node_step nl rl e n n'"

section \<open>Status and data commands\<close>

record NodeStatus =
  ns_name :: string
  ns_chain_id :: u64
  ns_is_validator :: bool
  ns_validator_address :: "string option"
  ns_dag_height :: u64
  ns_total_vertices :: u64
  ns_total_transactions :: u64
  ns_tips_count :: u64
  ns_peers_count :: u64
  ns_epoch :: u64
  ns_synced :: bool

definition node_status :: "'k Node \<Rightarrow> NodeStatus" where
  "node_status n =
     (let st = dag_stats (ld_dag (nd_ledger n)); peers = connected_count (nd_peer_manager n)
      in \<lparr>ns_name = nf_name (nd_config n), ns_chain_id = nf_chain_id (nd_config n),
          ns_is_validator = co_validator (nf_consensus (nd_config n)),
          ns_validator_address = map_option (\<lambda>ks. Address_debug (key_address ks)) (nd_validator_keys n),
          ns_dag_height = latest_height (ld_dag (nd_ledger n)), ns_total_vertices = of_nat (total_vertices st),
          ns_total_transactions = 0, ns_tips_count = of_nat (tips_count st), ns_peers_count = of_nat peers,
          ns_epoch = ps_current_epoch (ld_pos (nd_ledger n)), ns_synced = (peers = 0 \<or> total_vertices st > 0)\<rparr>)"

definition export_genesis_to_file :: "'k node_lib \<Rightarrow> u64 \<Rightarrow> string \<Rightarrow> 'k Node \<Rightarrow> (NodeError + unit) run" where
  "export_genesis_to_file nl now path n =
     run_map (\<lambda>c. case write_genesis_file (nl_genesis_io nl) path c of
                    Inl e \<Rightarrow> Inl (NodeIo (nl_genesis_error nl e)) | Inr _ \<Rightarrow> Inr ())
       (export_genesis now (ld_state (nd_ledger n)) (ld_pos (nd_ledger n)) (nf_chain_id (nd_config n)) (nf_name (nd_config n)))"

text \<open>\<open>generate_key\<close> writes the public key; \<open>export_data\<close> exports a state made for the purpose.\<close>

definition generate_key :: "'k node_lib \<Rightarrow> 'k \<Rightarrow> string \<Rightarrow> files \<Rightarrow> (files \<times> (string + unit)) run" where
  "generate_key nl draw output fs =
     run_map (\<lambda>ks. file_write (nl_io nl) output (public_key (nl_keys nl) ks) fs) (keys_of (nl_crypto nl) (nl_keys nl) draw)"

definition export_data :: "'k node_lib \<Rightarrow> u64 \<Rightarrow> string \<Rightarrow> (GenesisError + unit) run" where
  "export_data nl now output =
     run_map (write_genesis_file (nl_genesis_io nl) output)
       (export_genesis now StateDb_new (ProofOfStake_new StakingConfig_default) 1337 ''NexusChain'')"

section \<open>The started node\<close>

text \<open>Nothing puts a first vertex into the DAG, and a proposal needs a parent.\<close>

definition node_idle :: "crypto_lib \<Rightarrow> 'k Node \<Rightarrow> bool" where
  "node_idle lib n \<longleftrightarrow> dg_vertices (ld_dag (nd_ledger n)) = [] \<and> dg_tips (ld_dag (nd_ledger n)) = []
     \<and> (\<forall>t. nd_task n = Some t \<longrightarrow> vt_channel t = [] \<and> 0 < cfg_min_parents (vt_config t) \<and> vt_shutdown_senders t = 0)
     \<and> mempool_inv lib (ld_mempool (nd_ledger n)) \<and> pool_inv lib (nd_tx_pool n)"

lemma map_sum_Inr_iff: "Inr y = map_sum f g x \<longleftrightarrow> (\<exists>z. x = Inr z \<and> y = g z)"
  by (cases x) auto

lemma Node_new_idle:
  assumes "Node_new nl draw fs c = Ret (Inr n)"
  shows "node_idle lib n"
proof -
  have "mempool_inv lib (Mempool_new 10000)" "pool_inv lib TransactionPool_default"
    by (simp_all add: mempool_inv_def Mempool_new_def queue_ok_def pool_inv_def TransactionPool_default_def TransactionPool_new_def)
  moreover obtain ks where "nd_ledger n = \<lparr>ld_dag = Dag_new DagConfig_default, ld_state = StateDb_new,
      ld_pos = ProofOfStake_new StakingConfig_default, ld_mempool = Mempool_new 10000, ld_peer_count = 0, ld_zkp = (\<lambda>_ _. False)\<rparr>"
      "nd_tx_pool n = TransactionPool_default" "nd_task n = None" "nd_validator_keys n = ks"
    using assms by (auto simp: Node_new_def run_map_Ret_iff map_sum_Inr_iff)
  ultimately show ?thesis by (simp add: node_idle_def Dag_new_def)
qed

lemma start_validator_idle: "node_idle lib n \<Longrightarrow> start_validator nl inst n = (n', Inr ()) \<Longrightarrow> node_idle lib n'"
  by (auto simp: start_validator_def node_idle_def ProposerConfig_default_def split: option.splits prod.splits sum.splits)

lemma start_rpc_idle: "node_idle lib (start_rpc gr n) = node_idle lib n"
  by (simp add: start_rpc_def node_idle_def)

lemma load_node_genesis_idle:
  "node_idle lib n \<Longrightarrow> load_node_genesis nl fs n = Ret (n', r) \<Longrightarrow> node_idle lib n'"
  by (auto simp: load_node_genesis_def node_idle_def Let_def run_map_Ret_iff split: if_splits)

lemma node_start_idle:
  assumes "node_idle lib n" and "node_start nl gr inst fs n = Ret (n', Inr ())"
  shows "node_idle lib n'"
proof -
  let ?n = "n\<lparr>nd_shutdown_tx := True\<rparr>"
  have idle: "node_idle lib ?n" using assms(1) by (simp add: node_idle_def)
  have continues: "(n', Inr ()) = (case r of Inl e \<Rightarrow> (m, Inl e) | Inr u \<Rightarrow> X) \<longleftrightarrow> r = Inr () \<and> X = (n', Inr ())"
    for r :: "NodeError + unit" and m X by (cases r) auto
  obtain m where m: "load_node_genesis nl fs ?n = Ret (m, Inr ())"
      "(let m = (if nr_http_enabled (nf_rpc (nd_config m)) then start_rpc gr m else m)
        in if co_validator (nf_consensus (nd_config m)) then start_validator nl inst m else (m, Inr ())) = (n', Inr ())"
    using assms(2) by (auto simp: node_start_def Let_def run_map_Ret_iff continues split: option.splits)
  let ?m = "if nr_http_enabled (nf_rpc (nd_config m)) then start_rpc gr m else m"
  have "node_idle lib ?m" using load_node_genesis_idle [OF idle m(1)] by (simp add: start_rpc_idle)
  with m(2) show ?thesis by (auto simp: Let_def split: if_splits dest: start_validator_idle)
qed

lemma proposer_tick_idle:
  assumes "proposer_tick lib kl dbg c P = Some (Ret P')" and "get_tips (po_dag P) = []" and "0 < cfg_min_parents (po_config P)"
  shows "\<exists>b. P' = P\<lparr>po_bft := b\<rparr>"
proof -
  have "create_proposal lib i t (P\<lparr>po_bft := b\<rparr>) = (P\<lparr>po_bft := b\<rparr>, Inl (CE_InvalidProposal ''Not enough parent tips available''))" for b i t
    using assms(2,3) by (simp add: create_proposal_def proposal_parents_def)
  with assms(1) show ?thesis
    by (auto simp: proposer_tick_def should_propose_def Let_def run_bind_Ret_iff split: run.splits if_splits)
qed

lemma bridge_tick_idle: "node_idle lib n \<Longrightarrow> node_idle lib (bridge_tick lib n)"
  using mempool_inv_drain [of lib "ld_mempool (nd_ledger n)" 256]
    proposer_pool.inv_add_all [of lib "nd_tx_pool n" "snd (drain_batch lib 256 (ld_mempool (nd_ledger n)))"]
  by (auto simp: node_idle_def bridge_tick_def proposer_pool.add_all_def split: prod.split)

lemma bridge_tick_frame: "ld_state (nd_ledger (bridge_tick lib n)) = ld_state (nd_ledger n)"
  by (simp add: bridge_tick_def split: prod.split)

lemma node_step_idle:
  assumes "node_step nl rl e n n'" and "node_idle (rl_crypto rl) n"
  shows "node_idle (rl_crypto rl) n' \<and> e \<noteq> EvExecute
    \<and> ((\<forall>now q r. e = EvRpc now q r \<longrightarrow> rq_method q \<notin> {''eth_call'', ''eth_estimateGas''})
        \<longrightarrow> ld_state (nd_ledger n') = ld_state (nd_ledger n))"
  using assms
proof (induction rule: node_step.induct)
  case (serve n sv now q w r)
  have inv: "mempool_inv (rl_crypto rl) (ld_mempool (nd_ledger n))" using serve.prems by (simp add: node_idle_def)
  show ?case
    using handle_rpc_effect [OF serve.hyps(2)] send_raw_effect [OF inv, of "request_params (rq_params q)"] serve.prems
    by (elim disjE exE conjE) (auto simp: node_idle_def)
next
  case (message msg n)
  then show ?case
    using rpc_pool.inv_add by (auto simp: on_network_message_def node_idle_def split: NetworkMessage.split)
next
  case (bridge n)
  then show ?case by (simp add: bridge_tick_idle bridge_tick_frame)
next
  case (tick n t c P)
  then obtain b where "P = (proposer_of n t)\<lparr>po_bft := b\<rparr>"
    using proposer_tick_idle [OF tick.hyps(3)] by (auto simp: node_idle_def proposer_of_def get_tips_def)
  then show ?case using tick by (auto simp: put_proposer_def proposer_of_def node_idle_def)
qed (auto simp: node_idle_def)

lemma node_run_idle:
  assumes "node_run nl rl n0 es n" and "node_idle (rl_crypto rl) n0"
  shows "node_idle (rl_crypto rl) n \<and> EvExecute \<notin> set es
    \<and> ((\<forall>now q r. EvRpc now q r \<in> set es \<longrightarrow> rq_method q \<notin> {''eth_call'', ''eth_estimateGas''})
        \<longrightarrow> ld_state (nd_ledger n) = ld_state (nd_ledger n0))"
  using assms
proof (induction rule: node_run.induct)
  case (step es n e n')
  then show ?case using node_step_idle [OF step.hyps(2)] by auto
qed simp

section \<open>The bridge\<close>

lemma bridge_tick_queues:
  assumes "pool_inv lib (nd_tx_pool n)"
  shows "mp_pending (ld_mempool (nd_ledger (bridge_tick lib n))) = drop 256 (mp_pending (ld_mempool (nd_ledger n)))
    \<and> tp_pending (nd_tx_pool (bridge_tick lib n))
        = fold (queue_add (tx_hash lib) (tp_max_size (nd_tx_pool n))) (take 256 (mp_pending (ld_mempool (nd_ledger n))))
            (tp_pending (nd_tx_pool n))
    \<and> pool_inv lib (nd_tx_pool (bridge_tick lib n)) \<and> tp_max_size (nd_tx_pool (bridge_tick lib n)) = tp_max_size (nd_tx_pool n)"
proof -
  have cap: "tp_max_size (fold (\<lambda>t p. fst (pool_add lib t p)) ts p) = tp_max_size p" for ts p
    by (induction ts arbitrary: p) (simp_all add: proposer_pool.cap_add)
  have "take (min (length xs) m) xs = take m xs" "drop (min (length xs) m) xs = drop m xs" for xs :: "Transaction list" and m
    by (auto simp: min_def)
  then show ?thesis
    using proposer_pool.queue_add_all [OF assms] proposer_pool.inv_add_all [OF assms]
    by (simp add: bridge_tick_def drain_batch_def Let_def proposer_pool.add_all_def cap)
qed

lemma bridge_queues:
  assumes "pool_inv lib (nd_tx_pool n)"
  shows "mp_pending (ld_mempool (nd_ledger ((bridge_tick lib ^^ k) n))) = drop (256 * k) (mp_pending (ld_mempool (nd_ledger n)))
    \<and> tp_pending (nd_tx_pool ((bridge_tick lib ^^ k) n))
        = fold (queue_add (tx_hash lib) (tp_max_size (nd_tx_pool n))) (take (256 * k) (mp_pending (ld_mempool (nd_ledger n))))
            (tp_pending (nd_tx_pool n))
    \<and> pool_inv lib (nd_tx_pool ((bridge_tick lib ^^ k) n))
    \<and> tp_max_size (nd_tx_pool ((bridge_tick lib ^^ k) n)) = tp_max_size (nd_tx_pool n)"
  using assms
proof (induction k)
  case (Suc k)
  have "take (256 * Suc k) q = take (256 * k) q @ take 256 (drop (256 * k) q)" for q :: "Transaction list"
    using take_add [of "256 * k" 256 q] by (simp add: add.commute)
  then show ?case using Suc bridge_tick_queues [of lib "(bridge_tick lib ^^ k) n"] by simp
qed simp

lemma fold_queue_add_fits:
  "distinct (map key (q @ xs)) \<Longrightarrow> length q + length xs \<le> cap \<Longrightarrow> fold (queue_add key cap) xs q = q @ xs"
proof (induction xs arbitrary: q)
  case (Cons x xs)
  then have "queue_add key cap x q = q @ [x]" by (auto simp: queue_add_def)
  with Cons show ?case by simp
qed simp

lemma fold_queue_add_full: "cap \<le> length q \<Longrightarrow> fold (queue_add key cap) xs q = q"
  by (induction xs) (simp_all add: queue_add_def)

section \<open>The proposer's end\<close>

lemma on_network_message_task: "nd_task (on_network_message lib msg n) = nd_task n"
  by (simp add: on_network_message_def split: NetworkMessage.split)

lemma bridge_tick_task: "nd_task (bridge_tick lib n) = nd_task n"
  by (simp add: bridge_tick_def split: prod.split)

lemma ended_step:
  assumes "node_step nl rl e n n'" and "nd_task n = Some t" and "\<not> vt_proposing t"
  shows "(\<forall>c. e \<noteq> EvTick c) \<and> (\<exists>t'. nd_task n' = Some t' \<and> \<not> vt_proposing t')"
  using assms by (cases rule: node_step.cases) (simp_all add: on_network_message_task bridge_tick_task)

lemma ended_run:
  assumes "node_run nl rl n0 es n" and "nd_task n0 = Some t" and "\<not> vt_proposing t"
  shows "(\<forall>c. EvTick c \<notin> set es) \<and> (\<exists>t'. nd_task n = Some t' \<and> \<not> vt_proposing t')"
  using assms
proof (induction rule: node_run.induct)
  case (step es n e n')
  then obtain t' where "nd_task n = Some t'" "\<not> vt_proposing t'" by blast
  with step ended_step [OF step.hyps(2)] show ?case by auto
qed simp

section \<open>Properties\<close>

text \<open>
  (C6) \<^bold>\<open>A started node never executes a submitted transaction\<close>. Take any node that was created and started, with or
  without genesis, RPC server and validator, and any interleaving of requests, gossip, bridge turns and
  proposer turns. The DAG stays empty, no vertex is ever handed to the execution task and it never
  executes one; the mempool and the proposer's pool stay consistent; and unless an
  \<open>eth_call\<close> or \<open>eth_estimateGas\<close> is served, the account state stays what the start left.
\<close>

theorem node_never_executes:
  assumes "Node_new nl draw fs c = Ret (Inr n0)" and "node_start nl gr inst fs n0 = Ret (n1, Inr ())"
    and "node_run nl rl n1 es n"
  shows "dg_vertices (ld_dag (nd_ledger n)) = [] \<and> (\<forall>t. nd_task n = Some t \<longrightarrow> vt_channel t = []) \<and> EvExecute \<notin> set es
    \<and> mempool_inv (rl_crypto rl) (ld_mempool (nd_ledger n)) \<and> pool_inv (rl_crypto rl) (nd_tx_pool n)
    \<and> ((\<forall>now q r. EvRpc now q r \<in> set es \<longrightarrow> rq_method q \<notin> {''eth_call'', ''eth_estimateGas''})
        \<longrightarrow> ld_state (nd_ledger n) = ld_state (nd_ledger n1))"
  using node_run_idle [OF assms(3) node_start_idle [OF Node_new_idle [OF assms(1)] assms(2)]] by (simp add: node_idle_def)

text \<open>
  (C35) \<^bold>\<open>The bridge empties the mempool\<close>. After one turn for every 256 queued transactions the mempool is empty. If the
  proposer's pool has room for all of them and none of their hashes, they are in the pool behind
  what it held, in order; if the pool is full they are gone, although their submission was answered with success.
\<close>

theorem bridge_empties_mempool:
  assumes "pool_inv lib (nd_tx_pool n)" and "length (mp_pending (ld_mempool (nd_ledger n))) \<le> 256 * k"
  shows "mp_pending (ld_mempool (nd_ledger ((bridge_tick lib ^^ k) n))) = []
    \<and> (distinct (map (tx_hash lib) (tp_pending (nd_tx_pool n) @ mp_pending (ld_mempool (nd_ledger n))))
        \<and> length (tp_pending (nd_tx_pool n)) + length (mp_pending (ld_mempool (nd_ledger n))) \<le> tp_max_size (nd_tx_pool n)
       \<longrightarrow> tp_pending (nd_tx_pool ((bridge_tick lib ^^ k) n)) = tp_pending (nd_tx_pool n) @ mp_pending (ld_mempool (nd_ledger n)))
    \<and> (length (tp_pending (nd_tx_pool n)) = tp_max_size (nd_tx_pool n)
       \<longrightarrow> tp_pending (nd_tx_pool ((bridge_tick lib ^^ k) n)) = tp_pending (nd_tx_pool n))"
proof -
  let ?q = "mp_pending (ld_mempool (nd_ledger n))" and ?p = "tp_pending (nd_tx_pool n)" and ?cap = "tp_max_size (nd_tx_pool n)"
  have "drop (256 * k) ?q = []" "take (256 * k) ?q = ?q" using assms(2) by simp_all
  moreover have "distinct (map (tx_hash lib) (?p @ ?q)) \<and> length ?p + length ?q \<le> ?cap
      \<longrightarrow> fold (queue_add (tx_hash lib) ?cap) ?q ?p = ?p @ ?q"
    using fold_queue_add_fits by blast
  moreover have "length ?p = ?cap \<longrightarrow> fold (queue_add (tx_hash lib) ?cap) ?q ?p = ?p"
    by (simp add: fold_queue_add_full)
  ultimately show ?thesis using bridge_queues [OF assms(1), of k] by (simp only: conj_assoc)
qed

text \<open>
  \<^bold>\<open>The proposer ends with its start\<close>. In every state that a started validator reaches, its proposer, if
  it still runs, can end at once, because no sender of its shutdown channel is left; and whatever
  happens after that, it takes no turn again.
\<close>

theorem proposer_ends_at_once:
  assumes "Node_new nl draw fs c = Ret (Inr n0)" and "node_start nl gr inst fs n0 = Ret (n1, Inr ())"
    and "node_run nl rl n1 es n" and "nd_task n = Some t" and "vt_proposing t"
  shows "\<exists>n'. node_step nl rl EvProposerEnd n n' \<and> (\<forall>es' n''. node_run nl rl n' es' n'' \<longrightarrow> (\<forall>c. EvTick c \<notin> set es'))"
proof -
  have "node_idle (rl_crypto rl) n"
    using node_run_idle [OF assms(3) node_start_idle [OF Node_new_idle [OF assms(1)] assms(2)]] by simp
  then have "node_step nl rl EvProposerEnd n (n\<lparr>nd_task := Some (t\<lparr>vt_proposing := False\<rparr>)\<rparr>)"
    using assms(4,5) by (intro node_step.proposer_end) (auto simp: node_idle_def)
  moreover have "EvTick c \<notin> set es'" if "node_run nl rl (n\<lparr>nd_task := Some (t\<lparr>vt_proposing := False\<rparr>)\<rparr>) es' n''" for es' n'' c
    using ended_run [OF that] by simp
  ultimately show ?thesis by blast
qed

text \<open>
  \<^bold>\<open>A generated key cannot be used\<close>. The file that \<open>generate_key\<close> writes holds the compressed public key, of
  33 bytes; a validator that is given the file as its key panics when it is created.
\<close>

theorem generated_key_panics:
  assumes "generate_key nl draw path fs = Ret (fs', Inr ())" and "length (sk_point (nl_keys nl) draw True) = 33"
    and "co_validator (nf_consensus c)" and "co_validator_key (nf_consensus c) = Some path"
  shows "Node_new nl draw' fs' c = Panic"
proof -
  have "hget fs' path = Some (sk_point (nl_keys nl) draw True)" "cf_denied (nl_io nl) path = None"
    using assms(1)
    by (auto simp: generate_key_def run_map_Ret_iff file_write_def keys_of_def run_bind_Ret_iff public_key_def split: option.splits)
  then show ?thesis using assms(2-4) by (simp add: Node_new_def node_keys_def file_read_def keys_from_bytes_def)
qed

section \<open>Witnesses\<close>

definition demo_node_lib :: "unit node_lib" where
  "demo_node_lib = \<lparr>nl_crypto = demo_evm_crypto, nl_keys = demo_key_lib, nl_io = demo_config_io, nl_create_dir = (\<lambda>_. None),
     nl_join = (\<lambda>d f. d @ ''/'' @ f), nl_genesis = demo_genesis_lib,
     nl_genesis_io = \<lparr>gi_read = (\<lambda>_. Inl []), gi_write = (\<lambda>_ _. Inr ()), gi_from_json = (\<lambda>_. Inl []), gi_to_json = (\<lambda>_. Inr [])\<rparr>,
     nl_consensus_debug = (\<lambda>_. []), nl_genesis_error = (\<lambda>_. []), nl_dag_debug = (\<lambda>_. [])\<rparr>"

definition demo_node_config :: NodeConfig where
  "demo_node_config = (NodeConfig_default None)\<lparr>nf_consensus := ConsensusConfig_default\<lparr>co_validator := True\<rparr>\<rparr>"

lemma demo_node_keys: "\<exists>ks. keys_of (nl_crypto demo_node_lib) (nl_keys demo_node_lib) () = Ret ks"
  by (simp add: demo_node_lib_def keys_of_def derive_address_def demo_key_lib_def keccak256_def Address_from_slice_def
      length_as_bytes unwrap_def)

lemma register_on_new:
  "\<exists>pos. register_validator a pk 100000000000 500 (ProofOfStake_new StakingConfig_default) = (pos, Inr ())"
  by (simp add: register_validator_def ProofOfStake_new_def StakingConfig_default_def add_validator_def Validator_new_def
      ValidatorSet_new_def Let_def)

lemma demo_node_starts:
  "\<exists>n0 n1. Node_new demo_node_lib () [] demo_node_config = Ret (Inr n0)
     \<and> node_start demo_node_lib demo_groth16 0 [] n0 = Ret (n1, Inr ()) \<and> nd_task n1 \<noteq> None"
proof -
  obtain ks where ks: "keys_of (nl_crypto demo_node_lib) (nl_keys demo_node_lib) () = Ret ks" using demo_node_keys by blast
  obtain pos where pos: "register_validator (key_address ks) (public_key (nl_keys demo_node_lib) ks) 100000000000 500
      (ProofOfStake_new StakingConfig_default) = (pos, Inr ())"
    using register_on_new by blast
  have config: "co_validator (nf_consensus demo_node_config)" "co_validator_key (nf_consensus demo_node_config) = None"
    by (simp_all add: demo_node_config_def ConsensusConfig_default_def)
  have dir: "nl_create_dir demo_node_lib d = None" for d by (simp add: demo_node_lib_def)
  show ?thesis
    using ks pos config
    by (simp add: Node_new_def node_keys_def node_start_def load_node_genesis_def dir start_rpc_def start_validator_def Let_def)
qed

theorem node_never_executes_witness:
  "\<exists>n0 n1 n. Node_new demo_node_lib () [] demo_node_config = Ret (Inr n0)
     \<and> node_start demo_node_lib demo_groth16 0 [] n0 = Ret (n1, Inr ())
     \<and> node_run demo_node_lib demo_rpc n1 [EvMessage (NewTransaction (Evm_Executor.demo_transfer 300 1 21000 10)), EvBridge] n
     \<and> dg_vertices (ld_dag (nd_ledger n)) = [] \<and> ld_state (nd_ledger n) = ld_state (nd_ledger n1)"
proof -
  let ?msg = "NewTransaction (Evm_Executor.demo_transfer 300 1 21000 10)"
  obtain n0 n1 where n: "Node_new demo_node_lib () [] demo_node_config = Ret (Inr n0)"
      "node_start demo_node_lib demo_groth16 0 [] n0 = Ret (n1, Inr ())" "nd_task n1 \<noteq> None"
    using demo_node_starts by blast
  let ?n2 = "on_network_message demo_evm_crypto ?msg n1"
  have first: "node_run demo_node_lib demo_rpc n1 [EvMessage ?msg] ?n2"
    using node_run.step [OF node_run.start node_step.message [of demo_node_lib demo_rpc ?msg n1]] by simp
  have "nd_task ?n2 \<noteq> None" using n(3) by (simp add: on_network_message_def)
  then have run: "node_run demo_node_lib demo_rpc n1 [EvMessage ?msg, EvBridge] (bridge_tick demo_evm_crypto ?n2)"
    using node_run.step [OF first node_step.bridge [of ?n2 demo_node_lib demo_rpc]] by simp
  show ?thesis using n(1,2) run node_never_executes [OF n(1,2) run] by auto
qed

definition demo_queued_node :: "unit Node" where
  "demo_queued_node = \<lparr>nd_config = demo_node_config, nd_ledger = demo_ledger\<lparr>ld_mempool := \<lparr>
       mp_pending = [Evm_Executor.demo_transfer 300 1 21000 10], mp_by_hash = [], mp_max_size = 2\<rparr>\<rparr>,
     nd_tx_pool = TransactionPool_new 1, nd_peer_manager = PeerManager_new 50, nd_validator_keys = None,
     nd_shutdown_tx = True, nd_rpc = None, nd_task = None\<rparr>"

theorem bridge_empties_mempool_witness:
  "mp_pending (ld_mempool (nd_ledger ((bridge_tick demo_evm_crypto ^^ 1) demo_queued_node))) = []
    \<and> tp_pending (nd_tx_pool ((bridge_tick demo_evm_crypto ^^ 1) demo_queued_node)) = [Evm_Executor.demo_transfer 300 1 21000 10]"
proof -
  have "pool_inv demo_evm_crypto (nd_tx_pool demo_queued_node)" "tp_pending (nd_tx_pool demo_queued_node) = []"
      "tp_max_size (nd_tx_pool demo_queued_node) = 1"
      "mp_pending (ld_mempool (nd_ledger demo_queued_node)) = [Evm_Executor.demo_transfer 300 1 21000 10]"
    by (simp_all add: demo_queued_node_def pool_inv_def TransactionPool_new_def queue_ok_def)
  then show ?thesis using bridge_empties_mempool [of demo_evm_crypto demo_queued_node 1] by simp
qed

end
