(* ===== verification/Spec2Isabelle.thy ===== *)
theory Spec2Isabelle
  imports Transaction Bft Pos Finality Evm_Executor Checkpoint Metrics Message_Router Hybrid Poseidon Node
begin

text \<open>
  NexusChain is a ledger node written in Rust, a workspace of crates under \<^verbatim>\<open>src/crates/\<close>. Validators
  build vertices, each with up to eight parents, into a DAG; a BFT engine and a finality gadget decide
  which vertices are final; the EVM executes transactions on an account state that is committed into a
  Merkle trie. This development translates the crates into HOL functions and proves what they do.

  \<^bold>\<open>Parts, theories and sources.\<close>

  \<^item> \<^verbatim>\<open>Nexus_Prelude\<close>: what the components share. Byte encodings of integers, hash maps as association
    lists (\<open>hput\<close>, \<open>hget\<close>, \<open>hdel\<close>), the type \<open>run\<close> of a call that returns, panics or blocks, a
    reader-writer lock, saturating word arithmetic, and the locale \<open>weighted_votes\<close> of groups that
    hold more than two thirds of a weight.
  \<^item> \<^verbatim>\<open>U256\<close>, \<^verbatim>\<open>Crypto\<close>, \<^verbatim>\<open>Address\<close>, \<^verbatim>\<open>Transaction\<close>: crate \<^verbatim>\<open>nexus-primitives\<close>. Limb arithmetic of 256-bit
    integers by value; Merkle roots and vertex identifiers; contract addresses as RLP; encodings,
    sender recovery, gas and validation of transactions, round trips of the raw transaction decoder.
  \<^item> \<^verbatim>\<open>Validator\<close>, \<^verbatim>\<open>Bft\<close>, \<^verbatim>\<open>Pos\<close>, \<^verbatim>\<open>Tx_Pool\<close>, \<^verbatim>\<open>Proposer\<close>: crate \<^verbatim>\<open>nexus-consensus\<close> (and the mempool of
    \<^verbatim>\<open>nexus-rpc\<close>). The validator set and its registry, every handler of the BFT engine with its lock, a
    step relation over the handlers and the invariant of the reachable engines, staking and rewards,
    both transaction pools as one contract, and the proposer that joins pool, DAG and engine.
  \<^item> \<^verbatim>\<open>Vertex\<close>, \<^verbatim>\<open>Dag\<close>, \<^verbatim>\<open>Finality\<close>, \<^verbatim>\<open>Tip_Selection\<close>: crate \<^verbatim>\<open>nexus-dag\<close>. Insertion with its queue of
    orphans, graph searches against reachability, votes and finality proofs, selection of parents.
  \<^item> \<^verbatim>\<open>Account_Store\<close>, \<^verbatim>\<open>Evm_State\<close>, \<^verbatim>\<open>Evm_Gas\<close>, \<^verbatim>\<open>Evm_Receipt\<close>, \<^verbatim>\<open>Evm_Precompiles\<close>, \<^verbatim>\<open>Evm_Executor\<close>:
    crate \<^verbatim>\<open>nexus-evm\<close>. The contract of an account store, the journal as a refinement of saved states,
    the fee market, bloom filters, the precompiles and the execution of transactions.
  \<^item> \<^verbatim>\<open>Trie\<close>, \<^verbatim>\<open>State_Store\<close>, \<^verbatim>\<open>Checkpoint\<close>: crate \<^verbatim>\<open>nexus-state\<close>. The trie as a refinement of maps, the
    state database and its commit, checkpoints that can be applied and reverted.
  \<^item> \<^verbatim>\<open>Metrics\<close>: \<^verbatim>\<open>nexus-dag/src/metrics.rs\<close>. The collector against the whole history of records, and the
    percentiles of the throughput analyzer.
  \<^item> \<^verbatim>\<open>Rust_Text\<close>, \<^verbatim>\<open>Address_Text\<close>: operations on texts that several crates use, hexadecimal, and the text forms
    and checksum of addresses.
  \<^item> \<^verbatim>\<open>Iso_Validators\<close>, \<^verbatim>\<open>Iso8583\<close>, \<^verbatim>\<open>Iso20022\<close>, \<^verbatim>\<open>Message_Router\<close>: crate \<^verbatim>\<open>nexus-iso\<close>. Validation of account
    numbers, bank codes and cards against residues of whole numbers, the codec of card messages and its
    round trip, credit transfers, routing by priority and the compliance checks.
  \<^item> \<^verbatim>\<open>Sync\<close>, \<^verbatim>\<open>Peers\<close>, \<^verbatim>\<open>Gossip\<close>: crate \<^verbatim>\<open>nexus-network\<close>. Answers to sync requests and the sync manager over the
    DAG, the table of peers, delivery of each message once, and the events and commands of the service.
  \<^item> \<^verbatim>\<open>Hybrid\<close>: the audit log of \<^verbatim>\<open>nexus-consensus\<close>, a chain of hashes in a file, and the engine that logs
    each proposal before it hands it to the BFT engine.
  \<^item> \<^verbatim>\<open>Zkp_Commitment\<close>, \<^verbatim>\<open>Zkp_Circuits\<close>, \<^verbatim>\<open>Poseidon\<close>, \<^verbatim>\<open>Zkp_Verifier\<close>: crate \<^verbatim>\<open>nexus-zkp\<close>. Commitments and the Merkle
    accumulator, the constraints that the circuits generate over any field, the Poseidon permutation and
    tree, prover and verifier with the set of spent nullifiers.
  \<^item> \<^verbatim>\<open>Rpc_Types\<close>, \<^verbatim>\<open>Rpc\<close>: crate \<^verbatim>\<open>nexus-rpc\<close>. All methods as functions of one record \<open>ledger\<close>, which stands for the
    components the handlers share, the dispatcher, and the handling of single and batched requests.
  \<^item> \<^verbatim>\<open>Genesis\<close>, \<^verbatim>\<open>Node_Config\<close>, \<^verbatim>\<open>Node\<close>: crate \<^verbatim>\<open>nexus-node\<close>. The genesis document, its application and its export;
    configuration and command line; and the node, which owns every component and runs its tasks. A turn of a
    task is a step of the relation \<open>node_step\<close>, and \<open>node_run\<close> is any interleaving of turns, so this
    theory composes RPC server, mempool, proposer, DAG, stake and executor.

  \<^bold>\<open>Interfaces.\<close> A contract that several components share is a locale, interpreted on the definitions that
  provide it: hash maps, groups of votes (BFT engine and finality gadget), account stores (EVM state and state
  database), logs of changes that can be undone (journal and checkpoints), the two transaction pools, the
  fields of card messages, predicates that the operations on peers keep, the set of spent nullifiers.

  \<^bold>\<open>What is shown.\<close> The consensus theories show invariants of all reachable states and the overlap of
  quorums; the storage theories show refinements of maps and of saved states; the codecs round trips
  and exactness; the interface theories the effects a request can have. Where the code does not do what its comments
  say, the theorem states what it does: a valid proposal blocks the engine, a started node never executes
  a transaction, a call moves balances, the circuits bind no value.

  \<^bold>\<open>Conventions.\<close> A struct is a record with the prefix of its type in the field names, an enum a
  datatype, an operation one definition with the name of the source (with a prefix or suffix where the
  name is taken). Machine integers are words; arithmetic wraps around as in the release profile of the
  build. A \<open>Result\<close> is a sum with the error on the left, an early return or \<open>?\<close> a branch. A call that
  may panic or block has the type \<open>run\<close>. Hash maps and sets are lists, whose order is the unspecified
  iteration order. Code outside the repository is a parameter: hash functions and curves
  (\<open>crypto_lib\<close>, \<open>key_lib\<close>, \<open>evm_lib\<close>), the EVM interpreter, serialization, random numbers, floating
  point, the clock, regular expressions, XML, JSON, TOML and hexadecimal decoding, Groth16, files. Texts are
  ASCII. Structures behind shared pointers are one record that is passed along. What a theorem needs of a
  parameter is a hypothesis with a name, and its witness instantiates the parameter.

  \<^bold>\<open>Loops and fuel.\<close> Loops are recursive functions with termination proofs. \<open>insert_vertex\<close> carries a
  bound on the depth of its recursion, the number of waiting vertices, and \<open>add_vertex_accepts\<close> shows
  that it suffices. Loops that need not end (the trie walk over a damaged store, the chain of
  checkpoints, the random walk of the tip selection) are partial functions into \<open>option\<close>, where \<open>None\<close>
  is a call that does not return.

  \<^bold>\<open>Not modelled.\<close> Concurrency inside one operation: calls are atomic, except that the lock of the BFT
  engine is explicit. The construction of the libp2p swarm, HTTP routes and sockets, and the channels
  between tasks beyond their contents, which are glue around third-party crates. Parsing of the command
  line, logging and benchmarks, which keep no state. The generation of random keys, of which the draw is an argument. The
  protocol version and the static chain configuration of \<^verbatim>\<open>nexus-primitives\<close>, which nothing uses. The bodies of \<^verbatim>\<open>#[cfg(test)]\<close> modules.
\<close>

end
